(* ===== verification/Prelude.thy ===== *)
theory Prelude
  imports Main
begin

text \<open>
  Shared vocabulary of the development: the named collections of rewrite rules the component
  theories extend, the machine-level conventions (\<open>size_t\<close> subtraction, \<open>npos\<close>), and generic
  facts on lists, products and finite sets of positions that several components use.

  Conventions. A \<open>size_t\<close> that denotes a position or a length is a natural number; additions on
  it are not reduced modulo 2 to the 64, because such a value is bounded by the number of rows
  that fit in memory. Every subtraction that the code writes without a guard is \<open>sub_size\<close>,
  which wraps as the unsigned machine subtraction does, so that an underflow is visible. The
  assertions \<open>REALM_ASSERT\<close> and \<open>REALM_ASSERT_DEBUG\<close> expand to nothing in the shipped
  configuration (\<open>REALM_ENABLE_ASSERTIONS\<close> is 0 in \<open>util/config.h\<close>); the conditions they name
  are proved as lemmas where they matter.
\<close>

named_theorems flat_simps \<open>how an operation acts on the flattened list of ranges\<close>
named_theorems elems_simps \<open>how an operation acts on the set of indices it stands for\<close>
named_theorems wf_intros \<open>preservation of the representation invariant\<close>

section \<open>Unsigned machine arithmetic\<close>

definition npos :: nat where
  "npos = 18446744073709551615"

definition sub_size :: "nat \<Rightarrow> nat \<Rightarrow> nat" where
  "sub_size a b = (if b \<le> a then a - b else 18446744073709551616 + a - b)"

lemma sub_size_le [simp]: "b \<le> a \<Longrightarrow> sub_size a b = a - b"
  by (simp add: sub_size_def)

definition add_off :: "nat \<Rightarrow> int \<Rightarrow> nat" where
  "add_off n d = nat (int n + d)"

lemma add_off_simps [simp]:
  "add_off n 0 = n"
  "add_off n (int k) = n + k"
  "add_off n (- int k) = n - k"
  "add_off n 1 = Suc n"
  "add_off n (-1) = n - 1"
  by (simp_all add: add_off_def)

section \<open>Lists addressed by position\<close>

definition list_insert_at :: "'a list \<Rightarrow> nat \<Rightarrow> 'a \<Rightarrow> 'a list" where
  "list_insert_at xs i x = take i xs @ x # drop i xs"

definition list_erase_at :: "'a list \<Rightarrow> nat \<Rightarrow> 'a list" where
  "list_erase_at xs i = take i xs @ drop (Suc i) xs"

lemma length_list_insert_at [simp]: "length (list_insert_at xs i x) = Suc (length xs)"
  by (simp add: list_insert_at_def)

lemma length_list_erase_at [simp]:
  "i < length xs \<Longrightarrow> length (list_erase_at xs i) = length xs - 1"
  by (simp add: list_erase_at_def)

lemma list_insert_at_split [simp]: "list_insert_at (xs @ ys) (length xs) x = xs @ x # ys"
  by (simp add: list_insert_at_def)

lemma list_erase_at_split [simp]: "list_erase_at (xs @ x # ys) (length xs) = xs @ ys"
  by (simp add: list_erase_at_def)

lemma list_update_split [simp]: "(xs @ x # ys)[length xs := y] = xs @ y # ys"
  by (simp add: list_update_append)

lemma hd_list_update: "xs \<noteq> [] \<Longrightarrow> hd (xs[i := x]) = (if i = 0 then x else hd xs)"
  by (cases xs; cases i) auto

lemma last_list_update_nth:
  "i < length xs \<Longrightarrow> last (xs[i := x]) = (if Suc i = length xs then x else last xs)"
  by (subst last_list_update) auto

lemma sum_list_map_update:
  fixes f :: "'a \<Rightarrow> nat"
  assumes "i < length xs"
  shows "sum_list (map f (xs[i := x])) + f (xs ! i) = sum_list (map f xs) + f x"
  using assms
proof (induction xs arbitrary: i)
  case Nil
  then show ?case by simp
next
  case (Cons y ys)
  then show ?case by (cases i) (auto simp: algebra_simps)
qed

lemma nth_split:
  assumes "i < length xs"
  obtains ys zs where "xs = ys @ xs ! i # zs" and "length ys = i"
  using assms by (metis id_take_nth_drop length_take min.absorb4)

end
