(* ===== verification/Ranges.thy ===== *)
theory Ranges
  imports Prelude
begin

text \<open>
  The flat view of an index set: a list of half-open ranges \<open>(first, second)\<close>, sorted, non-empty
  and with a gap between neighbours. \<open>elems_r\<close> is the set of indices such a list stands for,
  \<open>size_r\<close> their number. This theory holds only the mathematics of such lists; the chunked
  representation of the code is in ChunkedRangeVector and is related to it there.
\<close>

type_synonym range = "nat \<times> nat"

section \<open>Well-formed range lists\<close>

definition before_r :: "range \<Rightarrow> range \<Rightarrow> bool" where
  "before_r r s \<longleftrightarrow> snd r < fst s"

definition ranges_ok :: "range list \<Rightarrow> bool" where
  "ranges_ok rs \<longleftrightarrow> sorted_wrt before_r rs \<and> (\<forall>r \<in> set rs. fst r < snd r)"

definition elems_r :: "range list \<Rightarrow> nat set" where
  "elems_r rs = (\<Union>r \<in> set rs. {fst r ..< snd r})"

definition len_r :: "range \<Rightarrow> nat" where
  "len_r r = snd r - fst r"

definition size_r :: "range list \<Rightarrow> nat" where
  "size_r rs = sum_list (map len_r rs)"

lemma ranges_ok_simps [simp]:
  "ranges_ok []"
  "ranges_ok [r] \<longleftrightarrow> fst r < snd r"
  by (simp_all add: ranges_ok_def)

lemma ranges_ok_Cons:
  "ranges_ok (r # rs) \<longleftrightarrow> fst r < snd r \<and> (\<forall>s \<in> set rs. snd r < fst s) \<and> ranges_ok rs"
  by (auto simp: ranges_ok_def before_r_def)

lemma ranges_ok_append:
  "ranges_ok (xs @ ys) \<longleftrightarrow>
     ranges_ok xs \<and> ranges_ok ys \<and> (\<forall>x \<in> set xs. \<forall>y \<in> set ys. snd x < fst y)"
  by (auto simp: ranges_ok_def before_r_def sorted_wrt_append)

lemma ranges_ok_nonempty: "ranges_ok rs \<Longrightarrow> r \<in> set rs \<Longrightarrow> fst r < snd r"
  by (simp add: ranges_ok_def)

lemma ranges_ok_hd_le:
  "ranges_ok (r # rs) \<Longrightarrow> x \<in> set (r # rs) \<Longrightarrow> fst r \<le> fst x \<and> snd r \<le> snd x"
  by (auto simp: ranges_ok_def before_r_def) fastforce+

lemma elems_r_simps [simp]:
  "elems_r [] = {}"
  "elems_r (r # rs) = {fst r ..< snd r} \<union> elems_r rs"
  "elems_r (xs @ ys) = elems_r xs \<union> elems_r ys"
  by (auto simp: elems_r_def)

lemma size_r_simps [simp]:
  "size_r [] = 0"
  "size_r (r # rs) = len_r r + size_r rs"
  "size_r (xs @ ys) = size_r xs + size_r ys"
  by (auto simp: size_r_def)

lemma finite_elems_r [simp, intro]: "finite (elems_r rs)"
  by (simp add: elems_r_def)

lemma elems_r_bounds:
  assumes "x \<in> elems_r rs"
  obtains r where "r \<in> set rs" and "fst r \<le> x" and "x < snd r"
  using assms by (auto simp: elems_r_def)

lemma elems_r_empty_iff: "ranges_ok rs \<Longrightarrow> elems_r rs = {} \<longleftrightarrow> rs = []"
  by (cases rs) (auto simp: ranges_ok_Cons)

text \<open>A range list in order: everything left of a range is smaller than everything right of it.\<close>

lemma elems_r_lt_of_snd_le:
  "\<forall>r \<in> set rs. snd r \<le> i \<Longrightarrow> x \<in> elems_r rs \<Longrightarrow> x < i"
  by (fastforce simp: elems_r_def)

lemma elems_r_ge_of_fst_ge:
  "\<forall>r \<in> set rs. i \<le> fst r \<Longrightarrow> x \<in> elems_r rs \<Longrightarrow> i \<le> x"
  by (fastforce simp: elems_r_def)

lemma card_elems_r: "ranges_ok rs \<Longrightarrow> card (elems_r rs) = size_r rs"
proof (induction rs)
  case Nil
  then show ?case by simp
next
  case (Cons r rs)
  then have "{fst r ..< snd r} \<inter> elems_r rs = {}"
    by (fastforce simp: ranges_ok_Cons elems_r_def)
  with Cons show ?case
    by (simp add: card_Un_disjoint ranges_ok_Cons len_r_def)
qed

text \<open>The representation is canonical: equal index sets have equal range lists.\<close>

lemma elems_r_hd:
  assumes "ranges_ok (r # rs)"
  shows "Min (elems_r (r # rs)) = fst r"
    and "{x. fst r \<le> x \<and> {fst r .. x} \<subseteq> elems_r (r # rs)} = {fst r ..< snd r}"
proof -
  have ge: "x \<in> elems_r rs \<Longrightarrow> snd r < x" for x
    using assms by (fastforce simp: ranges_ok_Cons elems_r_def)
  have lt: "fst r < snd r"
    using assms by (simp add: ranges_ok_Cons)
  show "Min (elems_r (r # rs)) = fst r"
    by (rule Min_eqI) (use ge lt in force)+
  show "{x. fst r \<le> x \<and> {fst r .. x} \<subseteq> elems_r (r # rs)} = {fst r ..< snd r}"
  proof (intro equalityI subsetI)
    fix x assume x: "x \<in> {x. fst r \<le> x \<and> {fst r .. x} \<subseteq> elems_r (r # rs)}"
    show "x \<in> {fst r ..< snd r}"
    proof (rule ccontr)
      assume "x \<notin> {fst r ..< snd r}"
      with x lt have "snd r \<in> {fst r .. x}" by auto
      with x have "snd r \<in> elems_r (r # rs)" by blast
      then show False using ge by auto
    qed
  qed auto
qed

lemma elems_r_tl:
  assumes "ranges_ok (r # rs)"
  shows "elems_r rs = elems_r (r # rs) - {fst r ..< snd r}"
proof -
  have "x \<in> elems_r rs \<Longrightarrow> snd r < x" for x
    using assms by (fastforce simp: ranges_ok_Cons elems_r_def)
  then have "x \<in> elems_r rs \<Longrightarrow> x \<notin> {fst r ..< snd r}" for x
    by fastforce
  then show ?thesis by auto
qed

lemma ranges_ok_inj:
  "ranges_ok xs \<Longrightarrow> ranges_ok ys \<Longrightarrow> elems_r xs = elems_r ys \<Longrightarrow> xs = ys"
proof (induction xs arbitrary: ys)
  case Nil
  then show ?case by (metis elems_r_empty_iff elems_r_simps(1))
next
  case (Cons x xs)
  then obtain y ys' where ys: "ys = y # ys'"
    by (metis elems_r_empty_iff list.distinct(1) list.exhaust)
  have f: "fst x = fst y"
    using elems_r_hd(1) Cons.prems ys by metis
  have ivl: "{fst x ..< snd x} = {fst y ..< snd y}"
    using elems_r_hd(2)[OF Cons.prems(1)] elems_r_hd(2)[of y ys'] Cons.prems ys f by simp
  have lt: "fst x < snd x" "fst y < snd y"
    using Cons.prems ys by (auto simp: ranges_ok_Cons)
  have "snd x = snd y"
    using ivl lt by (simp add: atLeastLessThan_eq_iff)
  with f have eq: "x = y" by (simp add: prod_eq_iff)
  have dx: "elems_r xs = elems_r (x # xs) - {fst x ..< snd x}"
    by (rule elems_r_tl[OF Cons.prems(1)])
  have dy: "elems_r ys' = elems_r (y # ys') - {fst y ..< snd y}"
    using Cons.prems(2) unfolding ys by (rule elems_r_tl)
  have "elems_r xs = elems_r ys'"
    unfolding dx dy ivl Cons.prems(3) ys by (rule refl)
  moreover have "ranges_ok xs" "ranges_ok ys'"
    using Cons.prems ys by (auto simp: ranges_ok_Cons)
  ultimately show ?case using Cons.IH eq ys by blast
qed

section \<open>Shifting ranges\<close>

definition shift_r :: "int \<Rightarrow> range \<Rightarrow> range" where
  "shift_r d r = (add_off (fst r) d, add_off (snd r) d)"

lemma shift_r_sel [simp]:
  "fst (shift_r d r) = add_off (fst r) d"
  "snd (shift_r d r) = add_off (snd r) d"
  by (simp_all add: shift_r_def)

lemma ranges_ok_shift_up [intro]:
  "ranges_ok rs \<Longrightarrow> ranges_ok (map (shift_r (int c)) rs)"
  by (induction rs) (auto simp: ranges_ok_Cons)

lemma elems_r_shift_up:
  "elems_r (map (shift_r (int c)) rs) = (\<lambda>x. x + c) ` elems_r rs"
proof (induction rs)
  case (Cons r rs)
  have "{fst r + c ..< snd r + c} = (\<lambda>x. x + c) ` {fst r ..< snd r}" by simp
  with Cons show ?case by (simp add: image_Un)
qed simp

lemma ranges_ok_shift_down [intro]:
  "ranges_ok rs \<Longrightarrow> \<forall>r \<in> set rs. 0 < fst r \<Longrightarrow> ranges_ok (map (shift_r (-1)) rs)"
  by (induction rs) (fastforce simp: ranges_ok_Cons)+

lemma elems_r_shift_down:
  "\<forall>r \<in> set rs. 0 < fst r \<Longrightarrow> elems_r (map (shift_r (-1)) rs) = (\<lambda>x. x - 1) ` elems_r rs"
proof (induction rs)
  case (Cons r rs)
  have "{fst r - 1 ..< snd r - 1} = (\<lambda>x. x - 1) ` {fst r ..< snd r}" (is "?A = ?B")
  proof (intro equalityI subsetI)
    fix x assume "x \<in> ?A"
    then have "Suc x \<in> {fst r ..< snd r}" by auto
    then show "x \<in> ?B" by force
  next
    fix x assume "x \<in> ?B"
    then show "x \<in> ?A" using Cons.prems by auto
  qed
  with Cons show ?case by (simp add: image_Un)
qed simp

section \<open>Searching\<close>

text \<open>The position of the first range that ends after the index.\<close>

definition find_r :: "range list \<Rightarrow> nat \<Rightarrow> nat" where
  "find_r rs i = length (takeWhile (\<lambda>r. snd r \<le> i) rs)"

lemma find_r_le [simp]: "find_r rs i \<le> length rs"
  by (simp add: find_r_def length_takeWhile_le)

lemma find_r_before: "r \<in> set (take (find_r rs i) rs) \<Longrightarrow> snd r \<le> i"
  by (metis find_r_def set_takeWhileD takeWhile_eq_take)

lemma find_r_at: "find_r rs i < length rs \<Longrightarrow> i < snd (rs ! find_r rs i)"
  unfolding find_r_def using nth_length_takeWhile not_le by blast

lemma find_r_unique:
  "\<forall>r \<in> set xs. snd r \<le> i \<Longrightarrow> ys = [] \<or> i < snd (hd ys) \<Longrightarrow> find_r (xs @ ys) i = length xs"
  by (cases ys) (simp_all add: find_r_def takeWhile_append2 takeWhile_eq_all_conv[THEN iffD2])

text \<open>Splitting a well-formed range list at an index.\<close>

lemma split_at_index:
  assumes "ranges_ok rs"
  obtains ls us where "rs = ls @ us" and "length ls = find_r rs i"
    and "\<forall>r \<in> set ls. snd r \<le> i" and "\<forall>r \<in> set us. i < snd r"
proof -
  let ?k = "find_r rs i"
  have 1: "rs = take ?k rs @ drop ?k rs" by simp
  have 2: "\<forall>r \<in> set (take ?k rs). snd r \<le> i" using find_r_before by blast
  have 3: "\<forall>r \<in> set (drop ?k rs). i < snd r"
  proof (cases "?k < length rs")
    case True
    then have d: "drop ?k rs = rs ! ?k # drop (Suc ?k) rs" by (simp add: Cons_nth_drop_Suc)
    have "ranges_ok (drop ?k rs)" using assms 1 by (metis ranges_ok_append)
    then have "\<forall>s \<in> set (drop (Suc ?k) rs). snd (rs ! ?k) < fst s \<and> fst s < snd s"
      unfolding d by (auto simp: ranges_ok_def before_r_def)
    then show ?thesis
      unfolding d using find_r_at[OF True] by (auto dest!: bspec)
  qed simp
  show ?thesis using that[of "take ?k rs" "drop ?k rs"] 1 2 3 by simp
qed

end
