(* ===== verification/ChunkedRangeVector.thy ===== *)
theory ChunkedRangeVector
  imports Ranges
begin

text \<open>
  \<open>realm::_impl::ChunkedRangeVector\<close> of \<open>index_set.hpp\<close> and \<open>index_set.cpp\<close>: a vector of ranges
  held in chunks of at most \<open>max_size\<close> ranges, each chunk caching where it begins and ends and how
  many indices it holds. The vector \<open>m_data\<close> is a list of chunks. An iterator, two pointers in the
  code, is the pair of the chunk's position and the offset in the chunk; the end iterator
  (\<open>m_data.end()\<close>, null pointer) is \<open>(length m_data, 0)\<close>.

  The operations come first, as the code has them. The rest of the theory describes them by one
  relation, \<open>cursor_at s it L R\<close>: the chunk summaries of \<open>s\<close> are right, \<open>it\<close> is a valid iterator,
  and the flattened ranges of \<open>s\<close> are \<open>L\<close> before the iterator and \<open>R\<close> from it on.
\<close>

section \<open>Chunks and iterators\<close>

record chunk =
  data :: "range list"
  c_begin :: nat
  c_end :: nat
  c_count :: nat

type_synonym crv = "chunk list"
type_synonym iter = "nat \<times> nat"

definition max_size :: nat where
  "max_size = 256"

definition new_chunk :: chunk where
  "new_chunk = \<lparr>data = [], c_begin = 0, c_end = 0, c_count = 0\<rparr>"

definition it_end :: "crv \<Rightarrow> iter" where
  "it_end s = (length s, 0)"

definition it_begin :: "crv \<Rightarrow> iter" where
  "it_begin s = (if s = [] then it_end s else (0, 0))"

definition offset :: "iter \<Rightarrow> nat" where
  "offset it = snd it"

definition outer :: "crv \<Rightarrow> iter \<Rightarrow> chunk" where
  "outer s it = s ! fst it"

definition deref :: "crv \<Rightarrow> iter \<Rightarrow> range" where
  "deref s it = data (outer s it) ! snd it"

definition next_chunk :: "iter \<Rightarrow> iter" where
  "next_chunk it = (Suc (fst it), 0)"

definition it_next :: "crv \<Rightarrow> iter \<Rightarrow> iter" where
  "it_next s it =
     (let it' = (fst it, Suc (snd it))
      in if offset it' = length (data (outer s it')) then next_chunk it' else it')"

definition it_prev :: "crv \<Rightarrow> iter \<Rightarrow> iter" where
  "it_prev s it =
     (if snd it = 0 then (fst it - 1, length (data (s ! (fst it - 1))) - 1)
      else (fst it, snd it - 1))"

section \<open>Mutation through an iterator\<close>

definition put_outer :: "crv \<Rightarrow> iter \<Rightarrow> chunk \<Rightarrow> crv" where
  "put_outer s it c = s[fst it := c]"

definition it_set :: "crv \<Rightarrow> iter \<Rightarrow> nat \<Rightarrow> nat \<Rightarrow> crv" where
  "it_set s it front back =
     (let c = outer s it; r = data c ! offset it
      in put_outer s it
           \<lparr>data = (data c)[offset it := (front, back)],
            c_begin = (if offset it = 0 then front else c_begin c),
            c_end = (if Suc (offset it) = length (data c) then back else c_end c),
            c_count = (c_count c - (snd r - fst r)) + (back - front)\<rparr>)"

definition it_adjust :: "crv \<Rightarrow> iter \<Rightarrow> int \<Rightarrow> int \<Rightarrow> crv" where
  "it_adjust s it front back =
     (let c = outer s it; r = data c ! offset it
      in put_outer s it
           \<lparr>data = (data c)[offset it := (add_off (fst r) front, add_off (snd r) back)],
            c_begin = (if offset it = 0 then add_off (c_begin c) front else c_begin c),
            c_end = (if Suc (offset it) = length (data c) then add_off (c_end c) back else c_end c),
            c_count = add_off (c_count c) (- front + back)\<rparr>)"

definition it_shift :: "crv \<Rightarrow> iter \<Rightarrow> int \<Rightarrow> crv" where
  "it_shift s it distance =
     (let c = outer s it; r = data c ! offset it
      in put_outer s it
           \<lparr>data = (data c)[offset it := (add_off (fst r) distance, add_off (snd r) distance)],
            c_begin = (if offset it = 0 then add_off (c_begin c) distance else c_begin c),
            c_end = (if Suc (offset it) = length (data c)
                     then add_off (c_end c) distance else c_end c),
            c_count = c_count c\<rparr>)"

section \<open>Inserting and erasing ranges\<close>

definition crv_push_back :: "crv \<Rightarrow> range \<Rightarrow> crv" where
  "crv_push_back s v =
     (if s \<noteq> [] \<and> length (data (last s)) < max_size
      then butlast s @ [(last s)\<lparr>data := data (last s) @ [v],
                                  c_count := c_count (last s) + (snd v - fst v),
                                  c_end := snd v\<rparr>]
      else s @ [\<lparr>data = [v], c_begin = fst v, c_end = snd v, c_count = snd v - fst v\<rparr>])"

definition ensure_space :: "crv \<Rightarrow> iter \<Rightarrow> crv \<times> iter" where
  "ensure_space s pos =
     (if length (data (outer s pos)) + 1 \<le> max_size then (s, pos)
      else
        let to_move = max_size div 2;
            c = outer s pos;
            moved = drop (length (data c) - to_move) (data c);
            kept = take (length (data c) - to_move) (data c);
            moved_count = sum_list (map (\<lambda>r. snd r - fst r) moved);
            prev = \<lparr>data = kept, c_begin = c_begin c, c_end = snd (last kept),
                    c_count = c_count c - moved_count\<rparr>;
            new = new_chunk\<lparr>data := moved, c_begin := fst (hd moved),
                            c_end := snd (last moved), c_count := moved_count\<rparr>;
            s' = take (fst pos) s @ [prev, new] @ drop (Suc (fst pos)) s
        in (if offset pos \<ge> to_move then (s', (Suc (fst pos), offset pos - to_move))
            else (s', (fst pos, offset pos))))"

definition crv_insert :: "crv \<Rightarrow> iter \<Rightarrow> range \<Rightarrow> crv \<times> iter" where
  "crv_insert s pos v =
     (if fst pos = length s
      then let s' = crv_push_back s v in (s', it_prev s' (it_end s'))
      else
        let (s1, pos1) = ensure_space s pos;
            c = outer s1 pos1;
            c' = c\<lparr>data := list_insert_at (data c) (offset pos1) v,
                   c_count := c_count c + (snd v - fst v),
                   c_begin := min (c_begin c) (fst v),
                   c_end := max (c_end c) (snd v)\<rparr>
        in (put_outer s1 pos1 c', pos1))"

definition crv_erase :: "crv \<Rightarrow> iter \<Rightarrow> crv \<times> iter" where
  "crv_erase s pos =
     (let c = outer s pos;
          r = deref s pos;
          d = list_erase_at (data c) (offset pos);
          n = c_count c - (snd r - fst r)
      in if length d = 0 then (list_erase_at s (fst pos), (fst pos, 0))
         else let s' = put_outer s pos
                         \<lparr>data = d, c_begin = fst (hd d), c_end = snd (last d), c_count = n\<rparr>
              in if offset pos < length d then (s', pos) else (s', next_chunk pos))"

text \<open>The checks of \<open>verify()\<close>, which a debug build runs after every operation.\<close>

fun verify_ranges :: "nat option \<Rightarrow> range list \<Rightarrow> bool" where
  "verify_ranges prev_end [] = True"
| "verify_ranges prev_end (r # rs) =
     (fst r < snd r \<and> (prev_end = None \<or> fst r > the prev_end) \<and> verify_ranges (Some (snd r)) rs)"

definition verify_chunk :: "chunk \<Rightarrow> bool" where
  "verify_chunk c \<longleftrightarrow>
     data c \<noteq> [] \<and>
     fst (hd (data c)) = c_begin c \<and>
     snd (last (data c)) = c_end c \<and>
     c_count c \<le> c_end c - c_begin c \<and>
     sum_list (map (\<lambda>r. snd r - fst r) (data c)) = c_count c"

definition crv_verify :: "crv \<Rightarrow> bool" where
  "crv_verify s \<longleftrightarrow>
     verify_ranges None (concat (map data s)) \<and> (\<forall>c \<in> set s. verify_chunk c)"


section \<open>The flat view and the invariant\<close>

definition ranges :: "crv \<Rightarrow> range list" where
  "ranges s = concat (map data s)"

definition chunk_ok :: "chunk \<Rightarrow> bool" where
  "chunk_ok c \<longleftrightarrow>
     data c \<noteq> [] \<and> length (data c) \<le> max_size \<and>
     c_begin c = fst (hd (data c)) \<and> c_end c = snd (last (data c)) \<and>
     c_count c = size_r (data c)"

definition chunks_ok :: "crv \<Rightarrow> bool" where
  "chunks_ok s \<longleftrightarrow> (\<forall>c \<in> set s. chunk_ok c)"

text \<open>The representation invariant of an index set between two operations.\<close>

definition crv_wf :: "crv \<Rightarrow> bool" where
  "crv_wf s \<longleftrightarrow> chunks_ok s \<and> ranges_ok (ranges s)"

lemma ranges_simps [simp]:
  "ranges [] = []"
  "ranges (c # s) = data c @ ranges s"
  "ranges (s @ t) = ranges s @ ranges t"
  by (simp_all add: ranges_def)

lemma chunks_ok_simps [simp]:
  "chunks_ok []"
  "chunks_ok (c # s) \<longleftrightarrow> chunk_ok c \<and> chunks_ok s"
  "chunks_ok (s @ t) \<longleftrightarrow> chunks_ok s \<and> chunks_ok t"
  by (auto simp: chunks_ok_def)

lemma max_size_ge: "2 \<le> max_size"
  by (simp add: max_size_def)

lemma max_size_half: "max_size - max_size div 2 = max_size div 2"
  by (simp add: max_size_def)

lemma size_r_eq_sum: "size_r rs = sum_list (map (\<lambda>r. snd r - fst r) rs)"
  by (simp add: size_r_def len_r_def[abs_def])

lemma chunk_okI:
  "d \<noteq> [] \<Longrightarrow> length d \<le> max_size \<Longrightarrow> b = fst (hd d) \<Longrightarrow> e = snd (last d) \<Longrightarrow> n = size_r d \<Longrightarrow>
     chunk_ok \<lparr>data = d, c_begin = b, c_end = e, c_count = n\<rparr>"
  by (simp add: chunk_ok_def)

text \<open>
  The executable checks of \<open>verify()\<close> are what the invariant says, but for the bound on the
  chunk size, which \<open>verify()\<close> does not look at.
\<close>

lemma verify_ranges_iff:
  "verify_ranges p rs \<longleftrightarrow> ranges_ok rs \<and> (\<forall>e. p = Some e \<longrightarrow> (\<forall>r \<in> set rs. e < fst r))"
proof (induction rs arbitrary: p)
  case Nil
  then show ?case by simp
next
  case (Cons r rs)
  show ?case
    using Cons.IH [of "Some (snd r)"]
    by (cases p) (auto simp: ranges_ok_Cons)
qed

lemma ranges_ok_snoc:
  "ranges_ok (rs @ [r]) \<longleftrightarrow> ranges_ok rs \<and> fst r < snd r \<and> (rs = [] \<or> snd (last rs) < fst r)"
proof (cases "rs = []")
  case False
  have "ranges_ok rs \<Longrightarrow> \<forall>x \<in> set rs. snd x \<le> snd (last rs)"
    by (cases rs rule: rev_cases) (auto simp: ranges_ok_append intro: less_imp_le less_trans)
  with False show ?thesis
    by (auto simp: ranges_ok_append dest: bspec[OF _ last_in_set]) fastforce+
qed simp

lemma ranges_ok_span:
  "ranges_ok rs \<Longrightarrow> rs \<noteq> [] \<Longrightarrow> fst (hd rs) + size_r rs \<le> snd (last rs)"
proof (induction rs rule: rev_induct)
  case (snoc r rs)
  then show ?case
    by (cases "rs = []") (auto simp: ranges_ok_snoc len_r_def)
qed simp

lemma size_r_le_span:
  "ranges_ok rs \<Longrightarrow> rs \<noteq> [] \<Longrightarrow> size_r rs \<le> snd (last rs) - fst (hd rs)"
  using ranges_ok_span by fastforce

lemma ranges_ok_data: "ranges_ok (ranges s) \<Longrightarrow> c \<in> set s \<Longrightarrow> ranges_ok (data c)"
  by (induction s) (auto simp: ranges_ok_append)

lemma crv_verify_of_wf: "crv_wf s \<Longrightarrow> crv_verify s"
  by (auto simp: crv_wf_def crv_verify_def verify_ranges_iff chunks_ok_def chunk_ok_def
      verify_chunk_def size_r_eq_sum[symmetric] ranges_def[symmetric]
      intro: size_r_le_span ranges_ok_data)

section \<open>Cursors\<close>

definition valid_it :: "crv \<Rightarrow> iter \<Rightarrow> bool" where
  "valid_it s it \<longleftrightarrow> it = it_end s \<or> (fst it < length s \<and> snd it < length (data (s ! fst it)))"

definition flat_pos :: "crv \<Rightarrow> iter \<Rightarrow> nat" where
  "flat_pos s it = length (ranges (take (fst it) s)) + snd it"

definition cursor_at :: "crv \<Rightarrow> iter \<Rightarrow> range list \<Rightarrow> range list \<Rightarrow> bool" where
  "cursor_at s it L R \<longleftrightarrow>
     chunks_ok s \<and> valid_it s it \<and> ranges s = L @ R \<and> flat_pos s it = length L"

lemma cursor_atD:
  assumes "cursor_at s it L R"
  shows "chunks_ok s" "ranges s = L @ R" "valid_it s it"
  using assms by (auto simp: cursor_at_def)

text \<open>A cursor that is not at the end sits inside one chunk: the shape every proof below uses.\<close>

lemma cursor_focus:
  assumes "cursor_at s it L R" and "fst it \<noteq> length s"
  obtains A c B xs r ys where "s = A @ c # B" and "it = (length A, length xs)"
    and "data c = xs @ r # ys" and "L = ranges A @ xs" and "R = r # ys @ ranges B"
    and "chunk_ok c" and "chunks_ok A" and "chunks_ok B"
proof -
  obtain k i where it: "it = (k, i)" by (cases it)
  have k: "k < length s" and i: "i < length (data (s ! k))"
    using assms it by (auto simp: cursor_at_def valid_it_def it_end_def)
  obtain A B where s: "s = A @ s ! k # B" "length A = k" using nth_split[OF k] .
  obtain xs ys where d: "data (s ! k) = xs @ data (s ! k) ! i # ys" "length xs = i"
    using nth_split[OF i] .
  have tk: "take k s = A" using s by (metis append_eq_conv_conj)
  have len: "length L = length (ranges A @ xs)"
    using assms(1) it d tk by (simp add: cursor_at_def flat_pos_def)
  have "ranges s = (ranges A @ xs) @ (data (s ! k) ! i # ys @ ranges B)"
    by (subst s) (simp add: d(1)[symmetric])
  with assms(1) have "L @ R = (ranges A @ xs) @ (data (s ! k) ! i # ys @ ranges B)"
    by (simp add: cursor_at_def)
  with len have "L = ranges A @ xs" "R = data (s ! k) ! i # ys @ ranges B"
    by (metis append_eq_append_conv)+
  moreover have "chunk_ok (s ! k)" "chunks_ok A" "chunks_ok B"
    using assms(1) k s by (simp_all add: cursor_at_def) (metis chunks_ok_simps(2,3))+
  ultimately show ?thesis using that s d it by metis
qed

lemma cursor_intro:
  assumes "s = A @ c # B" and "it = (length A, length xs)" and "data c = xs @ r # ys"
    and "chunk_ok c" and "chunks_ok A" and "chunks_ok B"
  shows "cursor_at s it (ranges A @ xs) (r # ys @ ranges B)"
  using assms by (simp add: cursor_at_def valid_it_def flat_pos_def nth_append)

lemma cursor_begin: "chunks_ok s \<Longrightarrow> cursor_at s (it_begin s) [] (ranges s)"
  by (cases s)
    (auto simp: cursor_at_def it_begin_def it_end_def valid_it_def flat_pos_def chunk_ok_def)

lemma cursor_end: "chunks_ok s \<Longrightarrow> cursor_at s (it_end s) (ranges s) []"
  by (simp add: cursor_at_def it_end_def valid_it_def flat_pos_def)

lemma ranges_eq_Nil: "chunks_ok s \<Longrightarrow> ranges s = [] \<longleftrightarrow> s = []"
  by (cases s) (auto simp: chunk_ok_def)

lemma cursor_at_end_iff:
  assumes "cursor_at s it L R"
  shows "it = it_end s \<longleftrightarrow> R = []" and "fst it = length s \<longleftrightarrow> R = []"
proof -
  show 2: "fst it = length s \<longleftrightarrow> R = []"
  proof
    assume "fst it = length s"
    then have "it = it_end s" using assms by (auto simp: cursor_at_def valid_it_def it_end_def)
    then show "R = []"
      using assms by (auto simp: cursor_at_def flat_pos_def it_end_def)
  next
    assume "R = []"
    then show "fst it = length s" using cursor_focus[OF assms] by blast
  qed
  then show "it = it_end s \<longleftrightarrow> R = []"
    using assms by (auto simp: cursor_at_def valid_it_def it_end_def)
qed

lemma append_longer:
  assumes "xs @ y # ys = zs @ ws" and "length xs < length zs"
  obtains us where "zs = xs @ y # us"
proof -
  have "take (Suc (length xs)) zs = take (Suc (length xs)) (xs @ y # ys)"
    using assms by simp
  then have "take (Suc (length xs)) zs = xs @ [y]" by simp
  then show ?thesis using that[of "drop (Suc (length xs)) zs"]
    by (metis append.assoc append_Cons append_Nil append_take_drop_id)
qed

lemma cursor_unique:
  assumes "cursor_at s it L R" and "cursor_at s it' L' R'" and "length L = length L'"
  shows "it = it'"
proof (cases "R = []")
  case True
  then have "R' = []" using assms by (auto simp: cursor_at_def)
  with True show ?thesis using cursor_at_end_iff(1) assms by metis
next
  case False
  then have "R' \<noteq> []" using assms by (auto simp: cursor_at_def)
  obtain A c B xs r ys where a: "s = A @ c # B" "it = (length A, length xs)"
    "data c = xs @ r # ys" "L = ranges A @ xs"
    using cursor_focus[OF assms(1)] cursor_at_end_iff(2)[OF assms(1)] False by metis
  obtain A' c' B' xs' r' ys' where b: "s = A' @ c' # B'" "it' = (length A', length xs')"
    "data c' = xs' @ r' # ys'" "L' = ranges A' @ xs'"
    using cursor_focus[OF assms(2)] cursor_at_end_iff(2)[OF assms(2)] \<open>R' \<noteq> []\<close> by metis
  have len: "length (ranges A) + length xs = length (ranges A') + length xs'"
    using assms(3) a b by simp
  have "length A = length A'"
  proof (rule ccontr)
    assume "length A \<noteq> length A'"
    then consider (lt) "length A < length A'" | (gt) "length A' < length A" by linarith
    then show False
    proof cases
      case lt
      then obtain M where "A' = A @ c # M"
        using append_longer[of A c B A' "c' # B'"] a(1) b(1) by auto
      then show False using len a(3) by simp
    next
      case gt
      then obtain M where "A = A' @ c' # M"
        using append_longer[of A' c' B' A "c # B"] a(1) b(1) by auto
      then show False using len b(3) by simp
    qed
  qed
  then have "A = A'" using a(1) b(1) by (metis append_eq_append_conv)
  with len a b show ?thesis by simp
qed

lemma cursor_at_begin_iff:
  assumes "cursor_at s it L R"
  shows "it = it_begin s \<longleftrightarrow> L = []"
proof
  assume "it = it_begin s"
  then show "L = []"
    using assms by (auto simp: cursor_at_def it_begin_def it_end_def flat_pos_def split: if_splits)
next
  assume "L = []"
  then show "it = it_begin s"
    using cursor_unique[OF assms cursor_begin] assms by (auto simp: cursor_at_def)
qed

lemma cursor_deref:
  assumes "cursor_at s it L (r # R)"
  shows "deref s it = r"
  by (rule cursor_focus[OF assms])
    (use cursor_at_end_iff(2)[OF assms] in \<open>auto simp: deref_def outer_def nth_append\<close>)

lemma cursor_next_chunk:
  assumes "s = A @ c # B" and "chunks_ok s"
  shows "cursor_at s (Suc (length A), 0) (ranges A @ data c) (ranges B)"
  using assms
  by (cases B) (auto simp: cursor_at_def valid_it_def it_end_def flat_pos_def nth_append chunk_ok_def)

lemma cursor_next:
  assumes "cursor_at s it L (r # R)"
  shows "cursor_at s (it_next s it) (L @ [r]) R"
proof -
  obtain A c B xs ys where a: "s = A @ c # B" "it = (length A, length xs)"
    "data c = xs @ r # ys" "L = ranges A @ xs" "R = ys @ ranges B"
    "chunk_ok c" "chunks_ok A" "chunks_ok B"
    using cursor_focus[OF assms] cursor_at_end_iff(2)[OF assms] by (metis list.distinct(1) list.inject)
  show ?thesis
  proof (cases ys)
    case Nil
    then show ?thesis using cursor_next_chunk[OF a(1)] a
      by (simp add: it_next_def offset_def outer_def next_chunk_def)
  next
    case (Cons y ys')
    then show ?thesis using cursor_intro[OF a(1), of "(length A, Suc (length xs))" "xs @ [r]" y ys'] a
      by (simp add: it_next_def offset_def outer_def)
  qed
qed

lemma cursor_prev:
  assumes "cursor_at s it (L @ [r]) R"
  shows "cursor_at s (it_prev s it) L (r # R)"
proof (cases "R = [] \<or> snd it = 0")
  case True
  have z: "snd it = 0"
    using True cursor_at_end_iff(1)[OF assms] by (auto simp: it_end_def)
  define A0 where "A0 = take (fst it) s"
  have k: "fst it \<le> length s"
    using assms by (auto simp: cursor_at_def valid_it_def it_end_def)
  have "length (ranges A0) = length (L @ [r])"
    using assms z by (simp add: cursor_at_def flat_pos_def A0_def)
  moreover have "ranges A0 @ ranges (drop (fst it) s) = (L @ [r]) @ R"
    using assms unfolding A0_def cursor_at_def by (metis append_take_drop_id ranges_simps(3))
  ultimately have A0: "ranges A0 = L @ [r]" "ranges (drop (fst it) s) = R"
    by (metis append_eq_append_conv)+
  then obtain A c where Ac: "A0 = A @ [c]" by (cases A0 rule: rev_cases) auto
  have s: "s = A @ c # drop (fst it) s" using Ac A0_def by (metis append_Cons append_Nil append_assoc append_take_drop_id)
  have ok: "chunks_ok s" using assms by (simp add: cursor_at_def)
  have lenA: "Suc (length A) = fst it" using Ac A0_def k by (metis length_append_singleton length_take min.absorb2)
  have okc: "chunk_ok c" "chunks_ok A" "chunks_ok (drop (fst it) s)" using ok s by (metis chunks_ok_simps(2,3))+
  then obtain xs r' where d: "data c = xs @ [r']" by (cases "data c" rule: rev_cases) (auto simp: chunk_ok_def)
  have "L = ranges A @ xs" "r' = r" using A0(1) Ac d by auto
  moreover have "it_prev s it = (length A, length xs)"
    using z s lenA d by (simp add: it_prev_def) (metis One_nat_def d diff_Suc_1 length_append_singleton lenA nth_append_length)
  ultimately show ?thesis
    using cursor_intro[OF s, of "it_prev s it" xs r "[]"] d okc A0(2) by simp
next
  case False
  then obtain A c B xs r' ys where a: "s = A @ c # B" "it = (length A, length xs)"
    "data c = xs @ r' # ys" "L @ [r] = ranges A @ xs" "R = r' # ys @ ranges B"
    "chunk_ok c" "chunks_ok A" "chunks_ok B"
    using cursor_focus[OF assms] cursor_at_end_iff(2)[OF assms] by metis
  then obtain xs' where xs: "xs = xs' @ [r]" using False
    by (cases xs rule: rev_cases) auto
  then show ?thesis
    using cursor_intro[OF a(1), of "it_prev s it" xs' r "r' # ys"] a by (simp add: it_prev_def)
qed


section \<open>What each primitive does at a cursor\<close>

text \<open>Replacing one chunk by another that holds the same number of ranges keeps every iterator valid.\<close>

definition same_shape :: "crv \<Rightarrow> crv \<Rightarrow> bool" where
  "same_shape s t \<longleftrightarrow> map (\<lambda>c. length (data c)) s = map (\<lambda>c. length (data c)) t"

lemma same_shape_refl [simp]: "same_shape s s"
  by (simp add: same_shape_def)

lemma same_shape_trans: "same_shape s t \<Longrightarrow> same_shape t u \<Longrightarrow> same_shape s u"
  by (simp add: same_shape_def)

lemma same_shape_put:
  assumes "fst it < length s" and "length (data c) = length (data (s ! fst it))"
  shows "same_shape s (put_outer s it c)"
proof -
  have "(map (\<lambda>c. length (data c)) s)[fst it := length (data c)] = map (\<lambda>c. length (data c)) s"
    using assms by (metis list_update_id nth_map)
  then show ?thesis by (simp add: same_shape_def put_outer_def map_update)
qed

lemma length_ranges: "length (ranges s) = sum_list (map (\<lambda>c. length (data c)) s)"
  by (induction s) auto

lemma cursor_same_shape:
  assumes "cursor_at s it L R" and "same_shape s t" and "chunks_ok t"
    and "ranges t = L' @ R'" and "length L' = length L"
  shows "cursor_at t it L' R'"
proof -
  have len: "length s = length t"
    using assms(2) map_eq_imp_length_eq same_shape_def by blast
  have "length (data (t ! k)) = length (data (s ! k))" if "k < length s" for k
    using assms(2) that len unfolding same_shape_def by (metis nth_map)
  moreover have "length (ranges (take k s)) = length (ranges (take k t))" for k
    using assms(2) by (simp add: length_ranges take_map[symmetric] same_shape_def)
  ultimately show ?thesis
    using assms len by (auto simp: cursor_at_def valid_it_def it_end_def flat_pos_def)
qed

text \<open>
  The three assignments through an iterator, by one lemma: the chunk under the cursor is replaced
  by one that differs in the range at the cursor only.
\<close>

lemma cursor_put:
  assumes "cursor_at s it L (r # R)"
    and "data c' = (data (outer s it))[offset it := q]"
    and "c_begin c' = (if offset it = 0 then fst q else c_begin (outer s it))"
    and "c_end c' = (if Suc (offset it) = length (data (outer s it)) then snd q
                     else c_end (outer s it))"
    and "c_count c' + len_r r = c_count (outer s it) + len_r q"
  shows "cursor_at (put_outer s it c') it L (q # R)" and "same_shape s (put_outer s it c')"
proof -
  obtain A c B xs ys where a: "s = A @ c # B" "it = (length A, length xs)"
    "data c = xs @ r # ys" "L = ranges A @ xs" "R = ys @ ranges B"
    "chunk_ok c" "chunks_ok A" "chunks_ok B"
    using cursor_focus[OF assms(1)] cursor_at_end_iff(2)[OF assms(1)]
    by (metis list.distinct(1) list.inject)
  have o: "outer s it = c" and f: "offset it = length xs"
    using a by (simp_all add: outer_def offset_def)
  have d: "data c' = xs @ q # ys" using assms(2) a(3) o f by simp
  have s': "put_outer s it c' = A @ c' # B" using a by (simp add: put_outer_def)
  have "chunk_ok c'"
    using assms(3-5) a(3,6) d unfolding o f
    by (cases xs; cases ys rule: rev_cases) (auto simp: chunk_ok_def)
  then show "cursor_at (put_outer s it c') it L (q # R)"
    using cursor_intro[OF s' a(2) d] a by simp
  show "same_shape s (put_outer s it c')"
    using a d s' by (simp add: same_shape_def)
qed

lemma cursor_range:
  assumes "cursor_at s it L (r # R)"
  shows "data (outer s it) ! offset it = r"
    and "offset it = 0 \<Longrightarrow> c_begin (outer s it) = fst r"
    and "Suc (offset it) = length (data (outer s it)) \<Longrightarrow> c_end (outer s it) = snd r"
    and "len_r r \<le> c_count (outer s it)"
proof -
  obtain A c B xs ys where a: "s = A @ c # B" "it = (length A, length xs)"
    "data c = xs @ r # ys" "chunk_ok c"
    using cursor_focus[OF assms] cursor_at_end_iff(2)[OF assms]
    by (metis list.distinct(1) list.inject)
  then show "data (outer s it) ! offset it = r"
    "offset it = 0 \<Longrightarrow> c_begin (outer s it) = fst r"
    "Suc (offset it) = length (data (outer s it)) \<Longrightarrow> c_end (outer s it) = snd r"
    "len_r r \<le> c_count (outer s it)"
    by (auto simp: outer_def offset_def chunk_ok_def)
qed

lemma cursor_set:
  assumes "cursor_at s it L (r # R)"
  shows "cursor_at (it_set s it f b) it L ((f, b) # R)" and "same_shape s (it_set s it f b)"
  unfolding it_set_def Let_def
  by (rule cursor_put[OF assms, where q = "(f, b)"];
      use cursor_range[OF assms] in \<open>auto simp: len_r_def\<close>)+

lemma cursor_adjust:
  assumes "cursor_at s it L (r # R)"
    and "0 \<le> int (fst r) + f" and "int (fst r) + f \<le> int (snd r) + b" and "fst r \<le> snd r"
  shows "cursor_at (it_adjust s it f b) it L ((add_off (fst r) f, add_off (snd r) b) # R)"
    and "same_shape s (it_adjust s it f b)"
  unfolding it_adjust_def Let_def
  by (rule cursor_put[OF assms(1), where q = "(add_off (fst r) f, add_off (snd r) b)"];
      use cursor_range[OF assms(1)] assms(2-) in \<open>auto simp: len_r_def add_off_def\<close>)+

lemma cursor_shift:
  assumes "cursor_at s it L (r # R)" and "0 \<le> int (fst r) + d" and "fst r \<le> snd r"
  shows "cursor_at (it_shift s it d) it L (shift_r d r # R)" and "same_shape s (it_shift s it d)"
  unfolding it_shift_def Let_def
  by (rule cursor_put[OF assms(1), where q = "shift_r d r"];
      use cursor_range[OF assms(1)] assms(2-) in \<open>auto simp: len_r_def add_off_def shift_r_def\<close>)+

lemma push_back_ok:
  assumes "chunks_ok s"
  shows "chunks_ok (crv_push_back s v)" and "ranges (crv_push_back s v) = ranges s @ [v]"
proof -
  show "ranges (crv_push_back s v) = ranges s @ [v]"
    by (cases s rule: rev_cases) (auto simp: crv_push_back_def)
  show "chunks_ok (crv_push_back s v)"
    using assms max_size_ge
    by (cases s rule: rev_cases) (auto simp: crv_push_back_def chunk_ok_def len_r_def)
qed

text \<open>
  A range fits between two parts of the vector when neither its begin nor its end is out of
  order: what \<open>insert\<close> needs to keep the cached bounds of the chunk right.
\<close>

definition fits :: "range list \<Rightarrow> range \<Rightarrow> range list \<Rightarrow> bool" where
  "fits L v R \<longleftrightarrow>
     (\<forall>l \<in> set L. fst l \<le> fst v \<and> snd l \<le> snd v) \<and> (\<forall>r \<in> set R. fst v \<le> fst r \<and> snd v \<le> snd r)"

lemma fits_of_ranges_ok: "ranges_ok (L @ v # R) \<Longrightarrow> fits L v R"
  by (auto simp: fits_def ranges_ok_append ranges_ok_Cons) (fastforce simp: ranges_ok_def)+

lemma ensure_space_cursor:
  assumes "cursor_at s it L (r # R)" and "ensure_space s it = (s', it')"
  shows "cursor_at s' it' L (r # R)" and "length (data (outer s' it')) < max_size"
proof -
  obtain A c B xs ys where a: "s = A @ c # B" "it = (length A, length xs)"
    "data c = xs @ r # ys" "L = ranges A @ xs" "R = ys @ ranges B"
    "chunk_ok c" "chunks_ok A" "chunks_ok B"
    using cursor_focus[OF assms(1)] cursor_at_end_iff(2)[OF assms(1)]
    by (metis list.distinct(1) list.inject)
  have o: "outer s it = c" and f: "offset it = length xs"
    using a by (simp_all add: outer_def offset_def)
  have "cursor_at s' it' L (r # R) \<and> length (data (outer s' it')) < max_size"
  proof (cases "length (data c) + 1 \<le> max_size")
    case True
    then show ?thesis using assms o by (auto simp: ensure_space_def)
  next
    case False
    let ?h = "max_size div 2"
    have full: "length (data c) = max_size" using False a(6) by (simp add: chunk_ok_def)
    define kept where "kept = take ?h (data c)"
    define moved where "moved = drop ?h (data c)"
    have km: "data c = kept @ moved" by (simp add: kept_def moved_def)
    have lk: "length kept = ?h" "length moved = ?h"
      using full max_size_half by (auto simp: kept_def moved_def)
    have ne: "kept \<noteq> []" "moved \<noteq> []" using lk max_size_ge by auto
    define p where "p = \<lparr>data = kept, c_begin = c_begin c, c_end = snd (last kept),
        c_count = c_count c - sum_list (map (\<lambda>r. snd r - fst r) moved)\<rparr>"
    define n where "n = new_chunk\<lparr>data := moved, c_begin := fst (hd moved),
        c_end := snd (last moved), c_count := sum_list (map (\<lambda>r. snd r - fst r) moved)\<rparr>"
    have okp: "chunk_ok p" "chunk_ok n"
      using a(6) km ne lk max_size_ge
      by (auto simp: p_def n_def chunk_ok_def size_r_eq_sum[symmetric])
    have "ensure_space s it =
        (take (fst it) s @ [p, n] @ drop (Suc (fst it)) s,
         if ?h \<le> length xs then (Suc (fst it), length xs - ?h) else (fst it, length xs))"
      using False o f full max_size_half
      by (simp add: ensure_space_def Let_def p_def n_def kept_def moved_def)
    then have s': "s' = A @ p # n # B"
      and it': "it' = (if ?h \<le> length xs then (Suc (length A), length xs - ?h)
                       else (length A, length xs))"
      using assms(2) a(1,2) by auto
    show ?thesis
    proof (cases "?h \<le> length xs")
      case True
      then obtain xs' where xs: "xs = kept @ xs'" "moved = xs' @ r # ys"
        using km a(3) lk by (metis append_eq_append_conv_if append_eq_conv_conj)
      have "cursor_at s' it' (ranges (A @ [p]) @ xs') (r # ys @ ranges B)"
        by (rule cursor_intro[where c = n])
          (use s' it' True xs okp a lk in \<open>auto simp: n_def\<close>)
      then show ?thesis
        using True xs a s' it' lk max_size_ge
        by (simp add: p_def n_def outer_def nth_append)
    next
      case False
      then obtain ys' where ys: "kept = xs @ r # ys'" "ys = ys' @ moved"
        using km a(3) lk append_longer[of xs r ys kept moved] by (metis append.assoc append_Cons not_le same_append_eq list.inject)
      have "cursor_at s' it' (ranges A @ xs) (r # ys' @ ranges (n # B))"
        by (rule cursor_intro[where c = p])
          (use s' it' False ys okp a lk in \<open>auto simp: p_def\<close>)
      then show ?thesis
        using False ys a s' it' lk max_size_ge
        by (simp add: p_def n_def outer_def nth_append)
    qed
  qed
  then show "cursor_at s' it' L (r # R)" "length (data (outer s' it')) < max_size" by auto
qed

lemma insert_cursor:
  assumes "cursor_at s it L R" and "fits L v R" and "crv_insert s it v = (s', it')"
  shows "cursor_at s' it' L (v # R)"
proof (cases R)
  case Nil
  have ok: "chunks_ok s" and rs: "ranges s = L" using assms(1) Nil by (auto simp: cursor_at_def)
  have "fst it = length s" using Nil cursor_at_end_iff(2)[OF assms(1)] by simp
  then have "s' = crv_push_back s v" "it' = it_prev s' (it_end s')"
    using assms(3) by (auto simp: crv_insert_def Let_def)
  then show ?thesis
    using cursor_prev[of s' "it_end s'" L v "[]"] cursor_end[of s'] push_back_ok[OF ok, of v] rs Nil
    by simp
next
  case (Cons r R')
  obtain s1 it1 where e: "ensure_space s it = (s1, it1)" by (cases "ensure_space s it")
  have at: "cursor_at s1 it1 L (r # R')" and sp: "length (data (outer s1 it1)) < max_size"
    using ensure_space_cursor[OF _ e] assms(1) Cons by auto
  obtain A c B xs ys where a: "s1 = A @ c # B" "it1 = (length A, length xs)"
    "data c = xs @ r # ys" "L = ranges A @ xs" "R' = ys @ ranges B"
    "chunk_ok c" "chunks_ok A" "chunks_ok B"
    using cursor_focus[OF at] cursor_at_end_iff(2)[OF at] by (metis list.distinct(1) list.inject)
  have o: "outer s1 it1 = c" and f: "offset it1 = length xs"
    using a by (simp_all add: outer_def offset_def)
  define c' where "c' = c\<lparr>data := xs @ v # r # ys, c_count := c_count c + (snd v - fst v),
      c_begin := min (c_begin c) (fst v), c_end := max (c_end c) (snd v)\<rparr>"
  have d: "list_insert_at (data c) (offset it1) v = xs @ v # r # ys"
    unfolding a(3) f by simp
  have "fst it \<noteq> length s" using Cons cursor_at_end_iff(2)[OF assms(1)] by simp
  then have s': "s' = A @ c' # B" "it' = it1"
    using assms(3) e o a(1,2) d by (auto simp: crv_insert_def c'_def put_outer_def)
  have fx: "\<forall>x \<in> set xs. fst x \<le> fst v \<and> snd x \<le> snd v"
    and fr: "\<forall>x \<in> set (r # ys). fst v \<le> fst x \<and> snd v \<le> snd x"
    using assms(2) Cons a(4,5) by (auto simp: fits_def)
  have "hd (data c) \<in> set xs \<or> xs = [] \<and> hd (data c) = r"
    using a(3) by (cases xs) auto
  then have b: "min (c_begin c) (fst v) = fst (hd (xs @ v # r # ys))"
    using a(3,6) fx fr by (cases xs) (auto simp: chunk_ok_def)
  have "last (data c) \<in> set (r # ys)" using a(3) by simp
  then have "max (c_end c) (snd v) = snd (last (xs @ v # r # ys))"
    using a(3,6) fr by (auto simp: chunk_ok_def max_def)
  with b have "chunk_ok c'"
    using a(3,6) sp o by (auto simp: c'_def chunk_ok_def len_r_def)
  then have "cursor_at s' it' (ranges A @ xs) (v # (r # ys) @ ranges B)"
    by (intro cursor_intro[where c = c']) (use s' a in \<open>auto simp: c'_def\<close>)
  then show ?thesis using a Cons by simp
qed

lemma erase_cursor:
  assumes "cursor_at s it L (r # R)" and "crv_erase s it = (s', it')"
  shows "cursor_at s' it' L R"
proof -
  obtain A c B xs ys where a: "s = A @ c # B" "it = (length A, length xs)"
    "data c = xs @ r # ys" "L = ranges A @ xs" "R = ys @ ranges B"
    "chunk_ok c" "chunks_ok A" "chunks_ok B"
    using cursor_focus[OF assms(1)] cursor_at_end_iff(2)[OF assms(1)]
    by (metis list.distinct(1) list.inject)
  have o: "outer s it = c" and f: "offset it = length xs"
    using a by (simp_all add: outer_def offset_def)
  have d: "list_erase_at (data c) (offset it) = xs @ ys" unfolding a(3) f by simp
  have r: "deref s it = r" by (rule cursor_deref[OF assms(1)])
  show ?thesis
  proof (cases "xs @ ys = []")
    case True
    then have "s' = A @ B" "it' = (length A, 0)"
      using assms(2) o r d a by (auto simp: crv_erase_def list_erase_at_split)
    moreover have "cursor_at (A @ B) (length A, 0) (ranges A) (ranges B)"
      using a(7,8)
      by (cases B) (auto simp: cursor_at_def valid_it_def it_end_def flat_pos_def nth_append chunk_ok_def)
    ultimately show ?thesis using True a by simp
  next
    case False
    define c' where "c' = \<lparr>data = xs @ ys, c_begin = fst (hd (xs @ ys)),
        c_end = snd (last (xs @ ys)), c_count = c_count c - (snd r - fst r)\<rparr>"
    have s': "s' = A @ c' # B"
      and it': "it' = (if ys \<noteq> [] then it else next_chunk it)"
      using assms(2) o r d False f a(1,2)
      by (auto simp: crv_erase_def Let_def c'_def put_outer_def split: if_splits)
    have ok: "chunk_ok c'"
      using False a(3,6) by (auto simp: c'_def chunk_ok_def len_r_def)
    show ?thesis
    proof (cases ys)
      case Nil
      then show ?thesis
        using cursor_next_chunk[OF s'] it' a ok s' by (simp add: next_chunk_def c'_def)
    next
      case (Cons y ys')
      have "cursor_at s' it' (ranges A @ xs) (y # ys' @ ranges B)"
        by (intro cursor_intro[where c = c']) (use s' it' a ok Cons in \<open>auto simp: c'_def\<close>)
      then show ?thesis using a Cons by simp
    qed
  qed
qed

lemmas cursor_rules = cursor_set cursor_adjust cursor_shift insert_cursor erase_cursor

end
