(* ===== verification/RangeVectorBuilder.thy ===== *)
theory RangeVectorBuilder
  imports ChunkedRangeVector
begin

text \<open>
  \<open>ChunkedRangeVectorBuilder\<close> of \<open>index_set.cpp\<close>: collects ranges, or single indices, in increasing
  order and joins neighbours. It preallocates as many chunks as the expected vector needs and
  appends further ones when they are used up.

  The central lemma is \<open>build_indices_wf\<close>: pushing single indices in strictly increasing order
  and finalizing gives a well-formed vector of exactly these indices. When a whole range is
  pushed into a chunk beyond the preallocated ones, \<open>push_back\<close> records a count of 1 for it;
  \<open>builder_inv\<close> carries the counts only as long as this does not happen.
\<close>

section \<open>The builder\<close>

record builder =
  m_data :: crv
  m_outer_pos :: nat

definition builder_init :: "crv \<Rightarrow> builder" where
  "builder_init expected =
     (let sz = sum_list (map (\<lambda>c. length (data c)) expected)
      in \<lparr>m_data = replicate (sz div max_size + 1) new_chunk, m_outer_pos = 0\<rparr>)"

text \<open>Opening the next chunk: a preallocated one, or a new one at the end of the vector.\<close>

definition start_chunk :: "crv \<Rightarrow> nat \<Rightarrow> range \<Rightarrow> builder" where
  "start_chunk d p r =
     (if p \<ge> length d then
        \<lparr>m_data = d @ [\<lparr>data = [r], c_begin = fst r, c_end = 0, c_count = 1\<rparr>], m_outer_pos = p\<rparr>
      else
        let c = d ! p in
        \<lparr>m_data = d[p := c\<lparr>data := data c @ [r], c_begin := fst r, c_count := snd r - fst r\<rparr>],
         m_outer_pos = p\<rparr>)"

definition push_range :: "builder \<Rightarrow> range \<Rightarrow> builder" where
  "push_range b r =
     (let p = m_outer_pos b; c = m_data b ! p in
      if data c = [] then
        b\<lparr>m_data := (m_data b)[p := c\<lparr>data := [r], c_count := snd r - fst r, c_begin := fst r\<rparr>]\<rparr>
      else if fst r = snd (last (data c)) then
        b\<lparr>m_data := (m_data b)[p := c\<lparr>data := butlast (data c) @ [(fst (last (data c)), snd r)],
                                       c_count := c_count c + (snd r - fst r)\<rparr>]\<rparr>
      else if length (data c) < max_size then
        b\<lparr>m_data := (m_data b)[p := c\<lparr>data := data c @ [r],
                                       c_count := c_count c + (snd r - fst r)\<rparr>]\<rparr>
      else start_chunk ((m_data b)[p := c\<lparr>c_end := snd (last (data c))\<rparr>]) (p + 1) r)"

definition push_index :: "builder \<Rightarrow> nat \<Rightarrow> builder" where
  "push_index b i = push_range b (i, i + 1)"

definition finalize :: "builder \<Rightarrow> crv" where
  "finalize b =
     (if m_data b = [] then []
      else
        let d = take (m_outer_pos b + 1) (m_data b); c = last d in
        if data c = [] then butlast d
        else butlast d @ [c\<lparr>c_end := snd (last (data c))\<rparr>])"

section \<open>The flat view\<close>

definition push_flat :: "range list \<Rightarrow> range \<Rightarrow> range list" where
  "push_flat rs r =
     (if rs \<noteq> [] \<and> fst r = snd (last rs) then butlast rs @ [(fst (last rs), snd r)]
      else rs @ [r])"

text \<open>
  The chunks left of the current one are finished; the current one is filled but its end is not
  recorded; those right of it are still empty. With \<open>cnt\<close> the recorded counts are right.
\<close>

definition part_ok :: "bool \<Rightarrow> chunk \<Rightarrow> bool" where
  "part_ok cnt c \<longleftrightarrow>
     length (data c) \<le> max_size \<and> (data c \<noteq> [] \<longrightarrow> c_begin c = fst (hd (data c))) \<and>
     (cnt \<and> data c \<noteq> [] \<longrightarrow> c_count c = size_r (data c))"

definition done_ok :: "bool \<Rightarrow> chunk \<Rightarrow> bool" where
  "done_ok cnt c \<longleftrightarrow> part_ok cnt c \<and> data c \<noteq> [] \<and> c_end c = snd (last (data c))"

definition builder_inv :: "bool \<Rightarrow> builder \<Rightarrow> range list \<Rightarrow> bool" where
  "builder_inv cnt b rs \<longleftrightarrow>
     (\<exists>A c B. m_data b = A @ c # B \<and> m_outer_pos b = length A \<and> rs = ranges A @ data c \<and>
        (\<forall>x \<in> set A. done_ok cnt x) \<and> part_ok cnt c \<and> (\<forall>x \<in> set B. data x = []) \<and>
        (data c = [] \<longrightarrow> A = []) \<and> (\<forall>r \<in> set rs. fst r \<le> snd r))"

lemma builder_invI:
  "m_data b = A @ c # B \<Longrightarrow> m_outer_pos b = length A \<Longrightarrow> rs = ranges A @ data c \<Longrightarrow>
     (\<And>x. x \<in> set A \<Longrightarrow> done_ok cnt x) \<Longrightarrow> part_ok cnt c \<Longrightarrow> (\<And>x. x \<in> set B \<Longrightarrow> data x = []) \<Longrightarrow>
     (data c = [] \<Longrightarrow> A = []) \<Longrightarrow> (\<And>r. r \<in> set rs \<Longrightarrow> fst r \<le> snd r) \<Longrightarrow> builder_inv cnt b rs"
  unfolding builder_inv_def by blast

lemma chunk_ok_iff_done: "chunk_ok c \<longleftrightarrow> done_ok True c"
  by (auto simp: chunk_ok_def done_ok_def part_ok_def)

lemma builder_inv_init: "builder_inv cnt (builder_init e) []"
proof -
  obtain n where "m_data (builder_init e) = new_chunk # replicate n new_chunk"
    by (simp add: builder_init_def)
  moreover have "m_outer_pos (builder_init e) = 0" by (simp add: builder_init_def Let_def)
  ultimately show ?thesis
    unfolding builder_inv_def
    by (intro exI[of _ "[]"] exI[of _ new_chunk] exI[of _ "replicate n new_chunk"])
      (auto simp: part_ok_def new_chunk_def)
qed

lemma builder_inv_weaken: "builder_inv True b rs \<Longrightarrow> builder_inv cnt b rs"
  by (fastforce simp: builder_inv_def done_ok_def part_ok_def)

text \<open>
  One push. The counts stay right unless a range of another length than 1 opens a chunk that was
  not preallocated.
\<close>

definition opens_chunk :: "builder \<Rightarrow> range \<Rightarrow> bool" where
  "opens_chunk b r \<longleftrightarrow>
     (let c = m_data b ! m_outer_pos b in
      data c \<noteq> [] \<and> fst r \<noteq> snd (last (data c)) \<and> length (data c) \<ge> max_size \<and>
      m_outer_pos b + 1 \<ge> length (m_data b))"

lemma builder_inv_push:
  assumes "builder_inv cnt b rs" and "fst r \<le> snd r"
    and "cnt \<Longrightarrow> opens_chunk b r \<Longrightarrow> len_r r = 1"
  shows "builder_inv cnt (push_range b r) (push_flat rs r)"
proof -
  obtain A c B where b: "m_data b = A @ c # B" "m_outer_pos b = length A" "rs = ranges A @ data c"
    "\<forall>x \<in> set A. done_ok cnt x" "part_ok cnt c" "\<forall>x \<in> set B. data x = []"
    "data c = [] \<longrightarrow> A = []" "\<forall>r \<in> set rs. fst r \<le> snd r"
    using assms(1) unfolding builder_inv_def by blast
  have cur: "m_data b ! m_outer_pos b = c" using b by simp
  consider (first) "data c = []"
    | (join) "data c \<noteq> []" "fst r = snd (last (data c))"
    | (room) "data c \<noteq> []" "fst r \<noteq> snd (last (data c))" "length (data c) < max_size"
    | (full) "data c \<noteq> []" "fst r \<noteq> snd (last (data c))" "\<not> length (data c) < max_size"
    by blast
  then show ?thesis
  proof cases
    case first
    let ?c = "c\<lparr>data := [r], c_count := snd r - fst r, c_begin := fst r\<rparr>"
    have "push_range b r = b\<lparr>m_data := A @ ?c # B\<rparr>"
      using first b cur by (simp add: push_range_def Let_def)
    moreover have "push_flat rs r = [r]" using first b by (simp add: push_flat_def)
    moreover have "part_ok cnt ?c" using max_size_ge by (simp add: part_ok_def len_r_def)
    ultimately show ?thesis
      unfolding builder_inv_def using b first assms(2)
      by (intro exI[of _ A] exI[of _ ?c] exI[of _ B]) simp
  next
    case join
    obtain d l where d: "data c = d @ [l]" using join(1) by (cases "data c" rule: rev_cases) auto
    let ?c = "c\<lparr>data := d @ [(fst l, snd r)], c_count := c_count c + (snd r - fst r)\<rparr>"
    have "push_range b r = b\<lparr>m_data := A @ ?c # B\<rparr>"
      using join b cur d by (simp add: push_range_def Let_def)
    moreover have "push_flat rs r = ranges A @ d @ [(fst l, snd r)]"
      using join b d by (simp add: push_flat_def butlast_append)
    moreover have "fst l \<le> snd l" using b d by auto
    moreover have "part_ok cnt ?c"
      using b(5) d join assms(2) \<open>fst l \<le> snd l\<close>
      by (cases d) (auto simp: part_ok_def len_r_def)
    ultimately show ?thesis
      unfolding builder_inv_def using b join d assms(2)
      by (intro exI[of _ A] exI[of _ ?c] exI[of _ B]) auto
  next
    case room
    let ?c = "c\<lparr>data := data c @ [r], c_count := c_count c + (snd r - fst r)\<rparr>"
    have "push_range b r = b\<lparr>m_data := A @ ?c # B\<rparr>"
      using room b cur by (simp add: push_range_def Let_def)
    moreover have "push_flat rs r = ranges A @ data c @ [r]"
      using room b by (simp add: push_flat_def)
    moreover have "part_ok cnt ?c" using b(5) room by (auto simp: part_ok_def len_r_def)
    ultimately show ?thesis
      unfolding builder_inv_def using b room assms(2)
      by (intro exI[of _ A] exI[of _ ?c] exI[of _ B]) auto
  next
    case full
    let ?e = "c\<lparr>c_end := snd (last (data c))\<rparr>"
    have finished: "\<forall>x \<in> set (A @ [?e]). done_ok cnt x"
      using b(4,5) full by (auto simp: done_ok_def part_ok_def)
    have flat: "push_flat rs r = ranges (A @ [?e]) @ [r]"
      using full b by (simp add: push_flat_def)
    define A' where "A' = A @ [?e]"
    have rA: "ranges A' = rs" using b(3) by (simp add: A'_def)
    have push: "push_range b r = start_chunk (A' @ B) (length A') r"
      using full b(1,2) cur by (simp add: push_range_def A'_def)
    show ?thesis
    proof (cases B)
      case Nil
      let ?n = "\<lparr>data = [r], c_begin = fst r, c_end = 0, c_count = 1\<rparr>"
      have "push_range b r = \<lparr>m_data = A' @ ?n # [], m_outer_pos = length A'\<rparr>"
        using Nil by (simp add: push start_chunk_def)
      moreover have "opens_chunk b r" using full b(1,2) Nil by (simp add: opens_chunk_def)
      then have "part_ok cnt ?n" using assms(3) max_size_ge by (simp add: part_ok_def)
      ultimately show ?thesis
        using b(8) rA finished flat assms(2) unfolding A'_def[symmetric]
        by (intro builder_invI[of _ A' ?n "[]"]) auto
    next
      case (Cons n B')
      let ?n = "n\<lparr>data := [r], c_begin := fst r, c_count := snd r - fst r\<rparr>"
      have "data n = []" using b(6) Cons by simp
      then have "push_range b r = \<lparr>m_data = A' @ ?n # B', m_outer_pos = length A'\<rparr>"
        by (simp add: push start_chunk_def Cons)
      moreover have "part_ok cnt ?n" using max_size_ge by (simp add: part_ok_def len_r_def)
      ultimately show ?thesis
        using b(6,8) rA Cons finished flat assms(2) unfolding A'_def[symmetric]
        by (intro builder_invI[of _ A' ?n B']) auto
    qed
  qed
qed

lemma finalize_ranges:
  assumes "builder_inv cnt b rs"
  shows "ranges (finalize b) = rs" and "cnt \<Longrightarrow> chunks_ok (finalize b)"
proof -
  obtain A c B where b: "m_data b = A @ c # B" "m_outer_pos b = length A" "rs = ranges A @ data c"
    "\<forall>x \<in> set A. done_ok cnt x" "part_ok cnt c" "data c = [] \<longrightarrow> A = []"
    using assms unfolding builder_inv_def by blast
  have t: "take (m_outer_pos b + 1) (m_data b) = A @ [c]" using b by simp
  have fin: "finalize b =
      (if data c = [] then A else A @ [c\<lparr>c_end := snd (last (data c))\<rparr>])"
    unfolding finalize_def t by (simp add: b(1))
  then show "ranges (finalize b) = rs" using b by auto
  assume cnt
  then have "chunks_ok A" using b(4) by (auto simp: chunks_ok_def chunk_ok_iff_done)
  then show "chunks_ok (finalize b)"
    using fin b(5) \<open>cnt\<close> by (auto simp: chunk_ok_def part_ok_def)
qed

section \<open>Pushing single indices in increasing order\<close>

lemma push_flat_index:
  assumes "ranges_ok rs" and "\<forall>x \<in> elems_r rs. x < i"
  shows "ranges_ok (push_flat rs (i, Suc i))"
    and "elems_r (push_flat rs (i, Suc i)) = insert i (elems_r rs)"
proof -
  have "ranges_ok (push_flat rs (i, Suc i)) \<and> elems_r (push_flat rs (i, Suc i)) = insert i (elems_r rs)"
  proof (cases rs rule: rev_cases)
    case Nil
    then show ?thesis by (auto simp: push_flat_def)
  next
    case (snoc d l)
    then have l: "fst l < snd l" and ok: "ranges_ok d" "d = [] \<or> snd (last d) < fst l"
      using assms(1) by (auto simp: ranges_ok_snoc)
    have "snd l - 1 \<in> elems_r rs" using snoc l by auto
    then have "snd l \<le> i" using assms(2) by force
    then show ?thesis
      using snoc l ok assms(1)
      using ranges_ok_snoc[of "d @ [l]" "(i, Suc i)"]
      by (cases "snd l = i") (auto simp: push_flat_def ranges_ok_snoc)
  qed
  then show "ranges_ok (push_flat rs (i, Suc i))"
    "elems_r (push_flat rs (i, Suc i)) = insert i (elems_r rs)" by auto
qed

definition push_indices :: "builder \<Rightarrow> nat list \<Rightarrow> builder" where
  "push_indices b xs = foldl push_index b xs"

lemma push_indices_simps [simp]:
  "push_indices b [] = b"
  "push_indices b (x # xs) = push_indices (push_index b x) xs"
  "push_indices b (xs @ ys) = push_indices (push_indices b xs) ys"
  by (simp_all add: push_indices_def)

lemma builder_inv_push_indices:
  assumes "builder_inv cnt b rs" and "ranges_ok rs" and "sorted_wrt (<) xs"
    and "\<forall>x \<in> elems_r rs. \<forall>y \<in> set xs. x < y"
  obtains rs' where "builder_inv cnt (push_indices b xs) rs'" and "ranges_ok rs'"
    and "elems_r rs' = elems_r rs \<union> set xs"
  using assms
proof (induction xs arbitrary: b rs thesis)
  case Nil
  then show ?case by simp
next
  case (Cons x xs)
  let ?rs = "push_flat rs (x, Suc x)"
  have "builder_inv cnt (push_index b x) ?rs"
    using builder_inv_push[OF Cons.prems(2), of "(x, Suc x)"] by (simp add: push_index_def len_r_def)
  moreover have "ranges_ok ?rs" "elems_r ?rs = insert x (elems_r rs)"
    using push_flat_index[OF Cons.prems(3)] Cons.prems(5) by auto
  ultimately show ?case
    using Cons.IH[of "push_index b x" ?rs] Cons.prems(1,4,5) by auto
qed

theorem build_indices_wf:
  assumes "sorted_wrt (<) xs"
  shows "crv_wf (finalize (push_indices (builder_init e) xs))"
    and "elems_r (ranges (finalize (push_indices (builder_init e) xs))) = set xs"
proof -
  obtain rs where "builder_inv True (push_indices (builder_init e) xs) rs" "ranges_ok rs"
    "elems_r rs = set xs"
    using builder_inv_push_indices[OF builder_inv_init[of True e] _ assms] by auto
  then show "crv_wf (finalize (push_indices (builder_init e) xs))"
    "elems_r (ranges (finalize (push_indices (builder_init e) xs))) = set xs"
    using finalize_ranges by (auto simp: crv_wf_def)
qed

end
