(* ===== verification/PositionSets.thy ===== *)
theory PositionSets
  imports Prelude
begin

text \<open>
  The abstract specification of an index set: a finite set of positions in a collection, and the
  two renumberings it induces. Removing the positions in \<open>S\<close> renumbers a kept position \<open>x\<close> to
  \<open>unshift_pos S x\<close>; inserting rows at the positions in \<open>S\<close> renumbers an old position to
  \<open>shift_pos S x\<close>. The functions below say what each operation of \<open>IndexSet\<close> must compute; the
  section on lists says what that means for a collection of rows, where a set \<open>S\<close> of
  deleted (or inserted) rows of \<open>xs\<close> leaves \<open>nths xs (- S)\<close>.
\<close>

section \<open>Counting and renumbering\<close>

definition below :: "nat set \<Rightarrow> nat \<Rightarrow> nat" where
  "below S i = card {x \<in> S. x < i}"

definition unshift_pos :: "nat set \<Rightarrow> nat \<Rightarrow> nat" where
  "unshift_pos S i = i - below S i"

definition shift_pos :: "nat set \<Rightarrow> nat \<Rightarrow> nat" where
  "shift_pos S i = (LEAST j. j \<notin> S \<and> j = i + below S j)"

lemma below_simps [simp]: "below {} i = 0" "below S 0 = 0"
  by (simp_all add: below_def)

lemma below_Suc: "below S (Suc i) = below S i + (if i \<in> S then 1 else 0)"
proof -
  have "{x \<in> S. x < Suc i} = (if i \<in> S then insert i {x \<in> S. x < i} else {x \<in> S. x < i})"
    by (auto simp: less_Suc_eq)
  then show ?thesis by (simp add: below_def)
qed

lemma below_le: "below S i \<le> i"
  by (induction i) (auto simp: below_Suc)

lemma below_mono: "i \<le> j \<Longrightarrow> below S i \<le> below S j"
  by (induction j) (auto simp: below_Suc le_Suc_eq)

lemma below_diff: "i \<le> j \<Longrightarrow> below S j \<le> below S i + (j - i)"
  by (induction j) (auto simp: below_Suc le_Suc_eq Suc_diff_le)

lemma below_Un: "A \<inter> B = {} \<Longrightarrow> below (A \<union> B) i = below A i + below B i"
  by (induction i) (auto simp: below_Suc)

lemma below_all: "finite S \<Longrightarrow> \<forall>x \<in> S. x < i \<Longrightarrow> below S i = card S"
  by (simp add: below_def Collect_conj_eq inf.absorb1 subset_iff)

lemma below_none: "\<forall>x \<in> S. i \<le> x \<Longrightarrow> below S i = 0"
proof -
  assume "\<forall>x \<in> S. i \<le> x"
  then have "{x \<in> S. x < i} = {}" by force
  then show ?thesis by (simp add: below_def)
qed

lemma below_card_le: "finite S \<Longrightarrow> below S i \<le> card S"
  by (auto simp: below_def intro: card_mono)

lemma unshift_mono: "i \<le> j \<Longrightarrow> unshift_pos S i \<le> unshift_pos S j"
  using below_diff[of i j S] by (simp add: unshift_pos_def)

lemma unshift_strict: "i < j \<Longrightarrow> i \<notin> S \<Longrightarrow> unshift_pos S i < unshift_pos S j"
proof -
  assume "i < j" "i \<notin> S"
  then have "unshift_pos S (Suc i) \<le> unshift_pos S j" by (simp add: unshift_mono)
  moreover have "unshift_pos S i < unshift_pos S (Suc i)"
    using \<open>i \<notin> S\<close> below_le[of S i] by (simp add: unshift_pos_def below_Suc)
  ultimately show ?thesis by simp
qed

lemma unshift_inj: "i \<notin> S \<Longrightarrow> j \<notin> S \<Longrightarrow> unshift_pos S i = unshift_pos S j \<longleftrightarrow> i = j"
  by (metis less_irrefl linorder_neqE_nat unshift_strict)

lemma shift_pos_eqI: "j \<notin> S \<Longrightarrow> j = i + below S j \<Longrightarrow> shift_pos S i = j"
proof -
  assume j: "j \<notin> S" "j = i + below S j"
  have "k = j" if "k \<notin> S" "k = i + below S k" for k
    using j that unshift_inj[of k S j] unfolding unshift_pos_def by (metis add_diff_cancel_right')
  with j show ?thesis unfolding shift_pos_def by (metis (mono_tags, lifting) LeastI)
qed

lemma shift_unshift [simp]: "x \<notin> S \<Longrightarrow> shift_pos S (unshift_pos S x) = x"
  by (rule shift_pos_eqI) (simp_all add: unshift_pos_def below_le)

lemma shift_pos_exists: "finite S \<Longrightarrow> \<exists>j. j \<notin> S \<and> j = i + below S j"
proof (induction i)
  case 0
  define j where "j = (LEAST j. j \<notin> S)"
  have ex: "\<exists>j. j \<notin> S" using 0 by (metis ex_new_if_finite infinite_UNIV_nat)
  have "j \<notin> S" unfolding j_def by (rule LeastI_ex[OF ex])
  moreover have "{x \<in> S. x < j} = {..<j}"
    unfolding j_def using not_less_Least by blast
  ultimately show ?case by (auto simp: below_def)
next
  case (Suc i)
  then obtain j where j: "j \<notin> S" "j = i + below S j" by blast
  define k where "k = (LEAST k. k \<notin> S \<and> j < k)"
  have ex: "\<exists>k. k \<notin> S \<and> j < k"
    using Suc.prems by (metis (mono_tags, lifting) Collect_mem_eq finite_nat_set_iff_bounded_le
        finite_Collect_le_nat finite_Un mem_Collect_eq not_less infinite_UNIV_nat UNIV_eq_I Un_iff)
  have k: "k \<notin> S" "j < k" using LeastI_ex[OF ex] unfolding k_def by auto
  have "x \<in> S" if "j < x" "x < k" for x
    using that not_less_Least[of x "\<lambda>k. k \<notin> S \<and> j < k"] unfolding k_def by auto
  then have "{x \<in> S. x < k} = {x \<in> S. x < j} \<union> {j<..<k}"
    using j(1) k(2) by (auto, metis linorder_neqE_nat)
  then have "below S k = below S j + (k - Suc j)"
    by (simp add: below_def card_Un_disjoint disjoint_iff)
  then show ?case using j k by (intro exI[of _ k]) simp
qed

lemma shift_pos_spec:
  assumes "finite S"
  shows "shift_pos S i \<notin> S" and "shift_pos S i = i + below S (shift_pos S i)"
  using shift_pos_exists[OF assms, of i] shift_pos_eqI by metis+

lemma unshift_shift [simp]: "finite S \<Longrightarrow> unshift_pos S (shift_pos S i) = i"
  using shift_pos_spec[of S i] by (simp add: unshift_pos_def)

lemma shift_pos_empty [simp]: "shift_pos {} i = i"
  by (rule shift_pos_eqI) auto

lemma shift_strict: "finite S \<Longrightarrow> i < j \<Longrightarrow> shift_pos S i < shift_pos S j"
  by (metis not_less unshift_mono unshift_shift)

lemma shift_eq_iff: "finite S \<Longrightarrow> shift_pos S i = shift_pos S j \<longleftrightarrow> i = j"
  by (metis unshift_shift)

lemma shift_ge: "finite S \<Longrightarrow> i \<le> shift_pos S i"
  using shift_pos_spec(2)[of S i] by simp

text \<open>What a renumbering through an index set promises, as an interface.\<close>

locale renumbering =
  fixes elems :: "'s \<Rightarrow> nat set"
    and wf :: "'s \<Rightarrow> bool"
    and up :: "'s \<Rightarrow> nat \<Rightarrow> nat"
    and down :: "'s \<Rightarrow> nat \<Rightarrow> nat"
  assumes fin: "wf s \<Longrightarrow> finite (elems s)"
    and up_eq: "wf s \<Longrightarrow> up s i = shift_pos (elems s) i"
    and down_eq: "wf s \<Longrightarrow> i \<notin> elems s \<Longrightarrow> down s i = unshift_pos (elems s) i"
begin

lemma up_avoids: "wf s \<Longrightarrow> up s i \<notin> elems s"
  by (simp add: up_eq fin shift_pos_spec(1))

lemma down_up: "wf s \<Longrightarrow> down s (up s i) = i"
  using up_avoids by (simp add: down_eq) (simp add: up_eq fin)

lemma up_down: "wf s \<Longrightarrow> i \<notin> elems s \<Longrightarrow> up s (down s i) = i"
  by (simp add: up_eq down_eq)

lemma up_mono: "wf s \<Longrightarrow> i < j \<longleftrightarrow> up s i < up s j"
  by (metis fin linorder_neqE_nat order_less_asym shift_strict up_eq)

lemma up_onto: "wf s \<Longrightarrow> range (up s) = - elems s"
proof (intro equalityI subsetI)
  assume w: "wf s"
  fix x
  show "x \<in> range (up s) \<Longrightarrow> x \<in> - elems s" using up_avoids[OF w] by auto
  show "x \<in> - elems s \<Longrightarrow> x \<in> range (up s)" using up_down[OF w, of x] by (metis ComplD range_eqI)
qed

end

section \<open>Composition, erasure and insertion of positions\<close>

text \<open>
  Removing \<open>A\<close> and then the positions \<open>U\<close> of what is left is removing \<open>compose_pos A U\<close> at once;
  read the other way it is the set \<open>U\<close> after the insertion of rows at \<open>A\<close>.
\<close>

definition compose_pos :: "nat set \<Rightarrow> nat set \<Rightarrow> nat set" where
  "compose_pos A U = A \<union> {x. x \<notin> A \<and> unshift_pos A x \<in> U}"

text \<open>The set after rows are inserted at \<open>A\<close> without becoming members.\<close>

definition shifted_pos :: "nat set \<Rightarrow> nat set \<Rightarrow> nat set" where
  "shifted_pos A U = {x. x \<notin> A \<and> unshift_pos A x \<in> U}"

text \<open>The set after the rows at \<open>A\<close> are removed.\<close>

definition erased_pos :: "nat set \<Rightarrow> nat set \<Rightarrow> nat set" where
  "erased_pos A U = unshift_pos A ` (U - A)"

lemma compose_pos_alt: "finite A \<Longrightarrow> compose_pos A U = A \<union> shift_pos A ` U"
  by (auto simp: compose_pos_def shift_pos_spec(1) image_iff) (metis shift_unshift)

lemma shifted_pos_alt: "finite A \<Longrightarrow> shifted_pos A U = shift_pos A ` U"
  by (auto simp: shifted_pos_def shift_pos_spec(1) image_iff) (metis shift_unshift)

lemma compose_pos_shifted: "compose_pos A U = A \<union> shifted_pos A U"
  by (auto simp: compose_pos_def shifted_pos_def)

lemma compose_pos_empty [simp]: "compose_pos {} U = U" "compose_pos A {} = A"
  by (auto simp: compose_pos_def unshift_pos_def)

lemma finite_compose_pos [intro]: "finite A \<Longrightarrow> finite U \<Longrightarrow> finite (compose_pos A U)"
  by (simp add: compose_pos_alt)

lemma finite_shifted_pos [intro]: "finite A \<Longrightarrow> finite U \<Longrightarrow> finite (shifted_pos A U)"
  by (simp add: shifted_pos_alt)

lemma finite_erased_pos [intro]: "finite U \<Longrightarrow> finite (erased_pos A U)"
  by (simp add: erased_pos_def)

lemma compose_erased: "compose_pos A (erased_pos A U) = A \<union> U"
  by (auto simp: compose_pos_def erased_pos_def unshift_inj)

lemma erased_shifted: "finite A \<Longrightarrow> erased_pos A (shifted_pos A U) = U"
proof -
  assume f: "finite A"
  have "shifted_pos A U - A = shift_pos A ` U"
    using shift_pos_spec(1)[OF f] by (auto simp: shifted_pos_alt[OF f])
  then show ?thesis by (simp add: erased_pos_def image_image f)
qed

lemma erased_compose: "finite A \<Longrightarrow> erased_pos A (compose_pos A U) = U"
  using erased_shifted[of A U] by (simp add: compose_pos_shifted erased_pos_def Un_Diff)

lemma below_single: "below {i} x = (if i < x then 1 else 0)"
  by (induction x) (auto simp: below_Suc)

lemma below_ivl: "below {i ..< i + n} x = (if x \<le> i then 0 else if x < i + n then x - i else n)"
  by (induction x) (auto simp: below_Suc)

lemma erased_single:
  "erased_pos {i} U = {x \<in> U. x < i} \<union> (\<lambda>x. x - 1) ` {x \<in> U. i < x}"
proof -
  have "U - {i} = {x \<in> U. x < i} \<union> {x \<in> U. i < x}" by auto
  then show ?thesis by (auto simp: erased_pos_def unshift_pos_def below_single image_Un)
qed

lemma shifted_ivl:
  "shifted_pos {i ..< i + n} U = {x \<in> U. x < i} \<union> (\<lambda>x. x + n) ` {x \<in> U. i \<le> x}" (is "?l = ?r")
proof (intro set_eqI iffI)
  fix x assume "x \<in> ?l"
  then show "x \<in> ?r"
    by (cases "x < i") (force simp: shifted_pos_def unshift_pos_def below_ivl split: if_splits)+
next
  fix x assume "x \<in> ?r"
  then consider "x \<in> U" "x < i" | y where "x = y + n" "y \<in> U" "i \<le> y" by auto
  then show "x \<in> ?l"
    by cases (cases "n = 0"; auto simp: shifted_pos_def unshift_pos_def below_ivl)+
qed

lemma compose_ivl:
  "compose_pos {i ..< i + n} U = {x \<in> U. x < i} \<union> {i ..< i + n} \<union> (\<lambda>x. x + n) ` {x \<in> U. i \<le> x}"
  by (auto simp: compose_pos_shifted shifted_ivl)

lemma compose_single: "finite D \<Longrightarrow> compose_pos D {u} = insert (shift_pos D u) D"
  by (simp add: compose_pos_alt)

section \<open>What the renumberings mean for a list of rows\<close>

lemma nths_compose: "nths (nths xs (- A)) (- U) = nths xs (- compose_pos A U)"
proof -
  have "card {i' \<in> - A. i' < i} = unshift_pos A i" for i
  proof -
    have "{i' \<in> - A. i' < i} = {..<i} - {x \<in> A. x < i}" by auto
    then show ?thesis
      by (simp add: unshift_pos_def below_def card_Diff_subset_Int Int_absorb1 subset_iff
          Int_absorb2 inf.absorb2)
  qed
  then have "{i \<in> - A. \<exists>j \<in> - U. card {i' \<in> - A. i' < i} = j} = - compose_pos A U"
    by (auto simp: compose_pos_def)
  then show ?thesis by (simp add: nths_nths)
qed

lemma nths_Compl_empty [simp]: "nths xs (- {}) = xs"
  by (simp add: nths_all)

lemma nths_erase_at: "i < length xs \<Longrightarrow> nths xs (- {i}) = list_erase_at xs i"
proof -
  assume i: "i < length xs"
  then have xs: "xs = take i xs @ xs ! i # drop (Suc i) xs" by (rule id_take_nth_drop)
  have 1: "nths (take i xs) (- {i}) = take i xs" by (rule nths_all) auto
  have 2: "nths (drop (Suc i) xs) {j. Suc (j + i) \<in> - {i}} = drop (Suc i) xs"
    by (rule nths_all) auto
  have "nths xs (- {i}) = nths (take i xs @ xs ! i # drop (Suc i) xs) (- {i})"
    using xs by simp
  also have "\<dots> = take i xs @ nths (drop (Suc i) xs) {j. Suc (j + i) \<in> - {i}}"
    using i 1 by (simp add: nths_append nths_Cons min_def del: append_take_drop_id)
  finally show ?thesis using 2 by (simp add: list_erase_at_def)
qed

lemma nths_insert_rows:
  assumes "i \<le> length ys"
  shows "nths (take i ys @ zs @ drop i ys) (- {i ..< i + length zs}) = ys"
proof -
  let ?A = "- {i ..< i + length zs}"
  have "nths (take i ys) ?A = take i ys" by (rule nths_all) (use assms in auto)
  moreover have "nths zs {j. j + i \<in> ?A} = []"
    by (auto simp: nths_def filter_empty_conv set_zip)
  moreover have "nths (drop i ys) {j. j + length zs \<in> {j. j + i \<in> ?A}} = drop i ys"
    by (rule nths_all) auto
  ultimately show ?thesis using assms by (simp add: nths_append min_def)
qed

end
