(* ===== verification/IndexSet.thy ===== *)
theory IndexSet
  imports RangeVectorBuilder PositionSets "HOL-Library.While_Combinator"
begin

text \<open>
  \<open>realm::IndexSet\<close> of \<open>index_set.cpp\<close> on top of the chunked vector: this theory holds the
  operations, each one the loop or case distinction of the code over chunk iterators. What they
  compute is proved in IndexSetCorrect. A \<open>for\<close> loop over iterators is a recursion on the
  iterator, with \<open>not_end\<close> as its test; the loops over two sets of single indices
  (\<open>IndexIterator\<close>) recurse on the indices that are left.
\<close>

type_synonym index_set = crv

section \<open>Iteration\<close>

text \<open>For every iterator the code can hold, \<open>not_end\<close> is \<open>it != end()\<close> (lemma \<open>not_end_iff\<close>).\<close>

definition not_end :: "crv \<Rightarrow> iter \<Rightarrow> bool" where
  "not_end s it \<longleftrightarrow> fst it < length s \<and> snd it < length (data (s ! fst it))"

lemma not_end_iff: "valid_it s it \<Longrightarrow> not_end s it \<longleftrightarrow> it \<noteq> it_end s"
  by (auto simp: not_end_def valid_it_def it_end_def)

text \<open>The measure of a loop that advances an iterator.\<close>

definition chunks_left :: "crv \<Rightarrow> iter \<Rightarrow> nat" where
  "chunks_left s it = length s - fst it"

definition offsets_left :: "crv \<Rightarrow> iter \<Rightarrow> nat" where
  "offsets_left s it = length (data (s ! fst it)) - snd it"

lemma it_next_left:
  "not_end s it \<Longrightarrow>
     chunks_left s (it_next s it) < chunks_left s it \<or>
     chunks_left s (it_next s it) = chunks_left s it \<and> offsets_left s (it_next s it) < offsets_left s it"
  by (auto simp: not_end_def it_next_def next_chunk_def offset_def outer_def chunks_left_def
      offsets_left_def Let_def)

lemma next_chunk_left: "not_end s it \<Longrightarrow> chunks_left s (next_chunk it) < chunks_left s it"
  by (auto simp: not_end_def next_chunk_def chunks_left_def)

lemma it_shift_shape:
  assumes "not_end s it"
  shows "length (it_shift s it d) = length s"
    and "length (data (it_shift s it d ! k)) = length (data (s ! k))"
  using assms
  by (auto simp: it_shift_def put_outer_def outer_def Let_def not_end_def nth_list_update)

text \<open>The single indices of a set, in order: what \<open>as_indexes()\<close> iterates over.\<close>

definition as_indexes :: "crv \<Rightarrow> nat list" where
  "as_indexes s = concat (map (\<lambda>r. [fst r ..< snd r]) (concat (map data s)))"

text \<open>The iterator over single indices: a range iterator and an offset in its range.\<close>

record index_iter =
  m_iterator :: iter
  m_offset :: nat

definition index_begin :: "crv \<Rightarrow> index_iter" where
  "index_begin s = \<lparr>m_iterator = it_begin s, m_offset = 0\<rparr>"

definition index_deref :: "crv \<Rightarrow> index_iter \<Rightarrow> nat" where
  "index_deref s i = fst (deref s (m_iterator i)) + m_offset i"

definition index_next :: "crv \<Rightarrow> index_iter \<Rightarrow> index_iter" where
  "index_next s i =
     (let i' = i\<lparr>m_offset := m_offset i + 1\<rparr>;
          r = deref s (m_iterator i)
      in if fst r + m_offset i' = snd r
         then \<lparr>m_iterator = it_next s (m_iterator i), m_offset = 0\<rparr> else i')"

section \<open>Searching and counting\<close>

text \<open>
  \<open>std::find_if\<close> over the chunks from the start iterator's one, then \<open>std::lower_bound\<close> in the
  chunk found, both by their contract on the partitioned input: the first position where the
  test holds.
\<close>

definition is_find_from :: "crv \<Rightarrow> nat \<Rightarrow> iter \<Rightarrow> iter" where
  "is_find_from s index b =
     (let o1 = fst b + length (takeWhile (\<lambda>c. \<not> c_end c > index) (drop (fst b) s)) in
      if o1 = length s then it_end s
      else if index < c_begin (s ! o1) then (o1, 0)
      else
        let inner_begin = (if o1 = fst b then offset b else 0)
        in (o1, inner_begin +
              length (takeWhile (\<lambda>r. snd r \<le> index) (drop inner_begin (data (s ! o1))))))"

definition is_find :: "crv \<Rightarrow> nat \<Rightarrow> iter" where
  "is_find s index = is_find_from s index (it_begin s)"

definition is_contains :: "crv \<Rightarrow> nat \<Rightarrow> bool" where
  "is_contains s index =
     (let it = is_find s index in not_end s it \<and> fst (deref s it) \<le> index)"

text \<open>The three loops of \<open>count\<close>: the rest of the first chunk, whole chunks, whole ranges.\<close>

function count_rest :: "crv \<Rightarrow> iter \<Rightarrow> nat \<Rightarrow> nat \<Rightarrow> iter \<times> nat" where
  "count_rest s it end_index ret =
     (if not_end s it \<and> snd (deref s it) < end_index \<and> offset it \<noteq> 0
      then count_rest s (it_next s it) end_index (ret + (snd (deref s it) - fst (deref s it)))
      else (it, ret))"
  by pat_completeness auto
termination
  by (relation "measures [\<lambda>(s, it, e, r). chunks_left s it, \<lambda>(s, it, e, r). offsets_left s it]")
    (use it_next_left in auto)

function count_chunks :: "crv \<Rightarrow> iter \<Rightarrow> nat \<Rightarrow> nat \<Rightarrow> iter \<times> nat" where
  "count_chunks s it end_index ret =
     (if not_end s it \<and> c_end (outer s it) \<le> end_index
      then count_chunks s (next_chunk it) end_index (ret + c_count (outer s it))
      else (it, ret))"
  by pat_completeness auto
termination
  by (relation "measure (\<lambda>(s, it, e, r). chunks_left s it)") (use next_chunk_left in auto)

function count_ranges :: "crv \<Rightarrow> iter \<Rightarrow> nat \<Rightarrow> nat \<Rightarrow> iter \<times> nat" where
  "count_ranges s it end_index ret =
     (if not_end s it \<and> snd (deref s it) \<le> end_index
      then count_ranges s (it_next s it) end_index (ret + (snd (deref s it) - fst (deref s it)))
      else (it, ret))"
  by pat_completeness auto
termination
  by (relation "measures [\<lambda>(s, it, e, r). chunks_left s it, \<lambda>(s, it, e, r). offsets_left s it]")
    (use it_next_left in auto)

definition is_count :: "crv \<Rightarrow> nat \<Rightarrow> nat \<Rightarrow> nat" where
  "is_count s start_index end_index =
     (let it = is_find s start_index; r = deref s it in
      if \<not> not_end s it \<or> fst r \<ge> end_index then 0
      else if snd r \<ge> end_index then sub_size (min (snd r) end_index) (max (fst r) start_index)
      else
        let first = start_index > fst r \<or> offset it \<noteq> 0;
            (it1, ret1) =
              (if first then count_rest s (it_next s it) end_index
                               (sub_size (snd r) (max (fst r) start_index))
               else (it, 0));
            r1 = deref s it1;
            ret2 =
              (if first \<and> not_end s it1 \<and> fst r1 < end_index \<and> offset it1 \<noteq> 0
               then ret1 + (end_index - fst r1) else ret1)
        in
          if first \<and> (\<not> not_end s it1 \<or> snd r1 \<ge> end_index) then ret2
          else
            let (it3, ret3) = count_chunks s it1 end_index ret2;
                (it4, ret4) = count_ranges s it3 end_index ret3
            in if not_end s it4 \<and> fst (deref s it4) < end_index
               then ret4 + (end_index - fst (deref s it4)) else ret4)"

section \<open>Adding indices\<close>

definition do_add :: "crv \<Rightarrow> iter \<Rightarrow> nat \<Rightarrow> crv \<times> iter" where
  "do_add s it index =
     (let more_before = it \<noteq> it_begin s; valid = not_end s it in
      if valid \<and> fst (deref s it) \<le> index \<and> snd (deref s it) > index then (s, it)
      else if more_before \<and> snd (deref s (it_prev s it)) = index then
        let prev = it_prev s it;
            s1 = it_adjust s prev 0 1
        in if valid \<and> snd (deref s1 prev) = fst (deref s1 it) then
             let r = deref s1 it;
                 s2 = it_adjust s1 prev 0 (int (snd r - fst r));
                 (s3, it3) = crv_erase s2 it
             in (s3, it_prev s3 it3)
           else (s1, prev)
      else if valid \<and> fst (deref s it) = index + 1 then (it_adjust s it (-1) 0, it)
      else crv_insert s it (index, index + 1))"

definition is_add :: "crv \<Rightarrow> nat \<Rightarrow> crv" where
  "is_add s index = fst (do_add s (is_find s index) index)"

fun add_all_loop :: "crv \<Rightarrow> iter \<Rightarrow> nat list \<Rightarrow> crv" where
  "add_all_loop s it [] = s"
| "add_all_loop s it (index # xs) =
     (let (s', it') = do_add s (is_find_from s index it) index in add_all_loop s' it' xs)"

definition is_add_all :: "crv \<Rightarrow> crv \<Rightarrow> crv" where
  "is_add_all s other = add_all_loop s (it_begin s) (as_indexes other)"

definition is_of_list :: "nat list \<Rightarrow> crv" where
  "is_of_list values = foldl is_add [] values"

function add_shifted_chunks :: "crv \<Rightarrow> iter \<Rightarrow> nat \<Rightarrow> iter \<times> nat" where
  "add_shifted_chunks s it index =
     (if not_end s it \<and> c_end (outer s it) \<le> index
      then add_shifted_chunks s (next_chunk it) (index + c_count (outer s it))
      else (it, index))"
  by pat_completeness auto
termination
  by (relation "measure (\<lambda>(s, it, e). chunks_left s it)") (use next_chunk_left in auto)

function add_shifted_ranges :: "crv \<Rightarrow> iter \<Rightarrow> nat \<Rightarrow> iter \<times> nat" where
  "add_shifted_ranges s it index =
     (if not_end s it \<and> fst (deref s it) \<le> index
      then add_shifted_ranges s (it_next s it) (index + (snd (deref s it) - fst (deref s it)))
      else (it, index))"
  by pat_completeness auto
termination
  by (relation "measures [\<lambda>(s, it, e). chunks_left s it, \<lambda>(s, it, e). offsets_left s it]")
    (use it_next_left in auto)

definition is_add_shifted :: "crv \<Rightarrow> nat \<Rightarrow> crv \<times> nat" where
  "is_add_shifted s index =
     (let (it1, index1) = add_shifted_chunks s (it_begin s) index;
          (it2, index2) = add_shifted_ranges s it1 index1
      in (fst (do_add s it2 index2), index2))"

text \<open>
  \<open>add_shifted_by\<close> walks the old ranges and the ranges of \<open>shifted_by\<close> with two iterators; both
  vectors are only read, so the ranges left of each are passed as a list.
\<close>

fun skip_shift_ranges :: "range list \<Rightarrow> nat \<Rightarrow> nat \<Rightarrow> nat \<Rightarrow> range list \<times> nat \<times> nat" where
  "skip_shift_ranges [] index new_shift skip_until = ([], new_shift, skip_until)"
| "skip_shift_ranges (r # rs) index new_shift skip_until =
     (if fst r \<le> index
      then skip_shift_ranges rs index (new_shift + (snd r - fst r)) (snd r)
      else (r # rs, new_shift, skip_until))"

fun copy_old_ranges ::
  "range list \<Rightarrow> nat \<Rightarrow> nat \<Rightarrow> nat \<Rightarrow> builder \<Rightarrow> range list \<times> nat \<times> builder" where
  "copy_old_ranges [] index new_shift old_shift b = ([], old_shift, b)"
| "copy_old_ranges (r # rs) index new_shift old_shift b =
     (if fst r \<le> sub_size index new_shift + old_shift
      then copy_old_ranges rs index new_shift (old_shift + (snd r - fst r))
             (push_indices b [fst r ..< snd r])
      else (r # rs, old_shift, b))"

fun add_shifted_by_loop ::
  "nat list \<Rightarrow> range list \<Rightarrow> range list \<Rightarrow> nat \<Rightarrow> nat \<Rightarrow> nat \<Rightarrow> builder \<Rightarrow> range list \<times> builder" where
  "add_shifted_by_loop [] old shifted skip_until old_shift new_shift b = (old, b)"
| "add_shifted_by_loop (index # values) old shifted skip_until old_shift new_shift b =
     (let (shifted', new_shift', skip_until') =
            skip_shift_ranges shifted index new_shift skip_until
      in if index < skip_until'
         then add_shifted_by_loop values old shifted' skip_until' old_shift new_shift' b
         else
           let (old', old_shift', b') = copy_old_ranges old index new_shift' old_shift b
           in add_shifted_by_loop values old' shifted' skip_until' old_shift' new_shift'
                (push_index b' (sub_size index new_shift' + old_shift')))"

definition is_add_shifted_by :: "crv \<Rightarrow> crv \<Rightarrow> crv \<Rightarrow> crv" where
  "is_add_shifted_by s shifted_by values =
     (if values = [] then s
      else
        let (old, b) =
              add_shifted_by_loop (as_indexes values) (concat (map data s))
                (concat (map data shifted_by)) 0 0 0 (builder_init s)
        in finalize (foldl push_range b old))"

definition is_clear :: "crv \<Rightarrow> crv" where
  "is_clear s = []"

definition is_set :: "crv \<Rightarrow> nat \<Rightarrow> crv" where
  "is_set s len = (let s' = is_clear s in if len \<noteq> 0 then crv_push_back s' (0, len) else s')"

section \<open>Inserting positions\<close>

text \<open>\<open>for (; it != end; ++it) it.shift(d)\<close>, the tail of several operations.\<close>

function shift_until_end :: "crv \<Rightarrow> iter \<Rightarrow> int \<Rightarrow> crv" where
  "shift_until_end s it d =
     (if not_end s it
      then let s' = it_shift s it d in shift_until_end s' (it_next s' it) d
      else s)"
  by pat_completeness auto
termination
proof (relation "measures [\<lambda>(s, it, d). chunks_left s it, \<lambda>(s, it, d). offsets_left s it]", goal_cases)
  case (2 s it d s')
  have "not_end s' it"
    using 2 it_shift_shape[OF 2(1)] by (simp add: not_end_def)
  from it_next_left[OF this] show ?case
    using 2 it_shift_shape[OF 2(1)] by (auto simp: chunks_left_def offsets_left_def)
qed simp

fun add_count_loop :: "crv \<Rightarrow> iter \<Rightarrow> nat \<Rightarrow> nat \<Rightarrow> crv" where
  "add_count_loop s pos index 0 = s"
| "add_count_loop s pos index (Suc n) =
     (let (s', p) = do_add s pos index in add_count_loop s' (it_next s' p) (index + 1) n)"

definition is_insert_at :: "crv \<Rightarrow> nat \<Rightarrow> nat \<Rightarrow> crv" where
  "is_insert_at s index count =
     (let pos = is_find s index;
          in_existing = (not_end s pos \<and> fst (deref s pos) \<le> index);
          s1 = (if not_end s pos then
                  let s' = (if in_existing then it_adjust s pos 0 (int count)
                            else it_shift s pos (int count))
                  in shift_until_end s' (it_next s' pos) (int count)
                else s)
      in if in_existing then s1 else add_count_loop s1 pos index count)"

fun insert_all_loop :: "nat list \<Rightarrow> nat list \<Rightarrow> nat \<Rightarrow> builder \<Rightarrow> builder" where
  "insert_all_loop (x # xs) (y # ys) shift b =
     (if x + shift < y then insert_all_loop xs (y # ys) shift (push_index b (x + shift))
      else insert_all_loop (x # xs) ys (shift + 1) (push_index b y))"
| "insert_all_loop xs ys shift b =
     push_indices (push_indices b (map (\<lambda>x. x + shift) xs)) ys"

definition is_insert_all :: "crv \<Rightarrow> crv \<Rightarrow> crv" where
  "is_insert_all s positions =
     (if positions = [] then s
      else if s = [] then positions
      else finalize
             (insert_all_loop (as_indexes s) (as_indexes positions) 0 (builder_init s)))"

definition is_shift_for_insert_at :: "crv \<Rightarrow> nat \<Rightarrow> nat \<Rightarrow> crv" where
  "is_shift_for_insert_at s index count =
     (let it = is_find s index in
      if \<not> not_end s it then s
      else
        let s1 = shift_until_end s it (int count) in
        if fst (deref s1 it) < index + count then
          let old_second = snd (deref s1 it);
              s2 = it_set s1 it (sub_size (fst (deref s1 it)) count) index
          in fst (crv_insert s2 (it_next s2 it) (index + count, old_second))
        else s1)"

fun shift_all_loop :: "nat list \<Rightarrow> nat list \<Rightarrow> nat \<Rightarrow> builder \<Rightarrow> builder" where
  "shift_all_loop (x # xs) (y # ys) shift b =
     (if x + shift < y then shift_all_loop xs (y # ys) shift (push_index b (x + shift))
      else shift_all_loop (x # xs) ys (shift + 1) b)"
| "shift_all_loop xs ys shift b = push_indices b (map (\<lambda>x. x + shift) xs)"

definition is_shift_for_insert_all :: "crv \<Rightarrow> crv \<Rightarrow> crv" where
  "is_shift_for_insert_all s values =
     (if s = [] \<or> values = [] then s
      else if c_begin (hd values) \<ge> c_end (last s) then s
      else finalize (shift_all_loop (as_indexes s) (as_indexes values) 0 (builder_init s)))"

section \<open>Erasing positions\<close>

definition do_erase :: "crv \<Rightarrow> iter \<Rightarrow> nat \<Rightarrow> crv" where
  "do_erase s it index =
     (let r = deref s it;
          (s', it') =
            (if fst r \<le> index then
               (if fst r + 1 = snd r then crv_erase s it
                else let s1 = it_adjust s it 0 (-1) in (s1, it_next s1 it))
             else if it \<noteq> it_begin s \<and> snd (deref s (it_prev s it)) + 1 = fst r then
               crv_erase (it_adjust s (it_prev s it) 0 (int (snd r - fst r))) it
             else (s, it))
      in shift_until_end s' it' (-1))"

definition is_erase_at :: "crv \<Rightarrow> nat \<Rightarrow> crv" where
  "is_erase_at s index =
     (let it = is_find s index in if not_end s it then do_erase s it index else s)"

fun erase_all_loop :: "nat list \<Rightarrow> nat list \<Rightarrow> nat \<Rightarrow> builder \<Rightarrow> builder" where
  "erase_all_loop (x # xs) (y # ys) shift b =
     (if x < y then erase_all_loop xs (y # ys) shift (push_index b (sub_size x shift))
      else if x = y then erase_all_loop xs ys (shift + 1) b
      else erase_all_loop (x # xs) ys (shift + 1) b)"
| "erase_all_loop xs ys shift b = push_indices b (map (\<lambda>x. sub_size x shift) xs)"

definition is_erase_all :: "crv \<Rightarrow> crv \<Rightarrow> crv" where
  "is_erase_all s positions =
     (if s = [] \<or> positions = [] then s
      else finalize (erase_all_loop (as_indexes s) (as_indexes positions) 0 (builder_init s)))"

function unshift_chunks :: "crv \<Rightarrow> iter \<Rightarrow> nat \<Rightarrow> nat \<Rightarrow> iter \<times> nat" where
  "unshift_chunks s it index shifted =
     (if not_end s it \<and> c_end (outer s it) \<le> index
      then unshift_chunks s (next_chunk it) index (sub_size shifted (c_count (outer s it)))
      else (it, shifted))"
  by pat_completeness auto
termination
  by (relation "measure (\<lambda>(s, it, e, r). chunks_left s it)") (use next_chunk_left in auto)

function unshift_ranges :: "crv \<Rightarrow> iter \<Rightarrow> nat \<Rightarrow> nat \<Rightarrow> iter \<times> nat" where
  "unshift_ranges s it index shifted =
     (if not_end s it \<and> snd (deref s it) \<le> index
      then unshift_ranges s (it_next s it) index
             (sub_size shifted (snd (deref s it) - fst (deref s it)))
      else (it, shifted))"
  by pat_completeness auto
termination
  by (relation "measures [\<lambda>(s, it, e, r). chunks_left s it, \<lambda>(s, it, e, r). offsets_left s it]")
    (use it_next_left in auto)

definition is_erase_or_unshift :: "crv \<Rightarrow> nat \<Rightarrow> crv \<times> nat" where
  "is_erase_or_unshift s index =
     (let (it1, shifted1) = unshift_chunks s (it_begin s) index index;
          (it, shifted) = unshift_ranges s it1 index shifted1
      in if \<not> not_end s it then (s, shifted)
         else (do_erase s it index, if fst (deref s it) \<le> index then npos else shifted))"

section \<open>Removing without shifting\<close>

definition remove_step :: "nat \<Rightarrow> crv \<times> iter \<times> nat \<Rightarrow> crv \<times> iter \<times> nat" where
  "remove_step e0 =
     (\<lambda>(s, it, b0).
        let r = deref s it;
            begin' = max (fst r) b0;
            (s', it') =
              (if fst r < begin' \<and> snd r > e0 then
                 let s1 = it_set s it (fst r) begin';
                     (s2, it2) = crv_insert s1 (it_next s1 it) (e0, snd r)
                 in (s2, it_prev s2 it2)
               else if begin' = fst r \<and> e0 \<ge> snd r then crv_erase s it
               else if begin' = fst r then (it_set s it e0 (snd r), it)
               else (it_set s it (fst r) begin', it))
        in (s', is_find_from s' begin' it', begin'))"

definition remove_test :: "nat \<Rightarrow> crv \<times> iter \<times> nat \<Rightarrow> bool" where
  "remove_test e0 = (\<lambda>(s, it, b0). not_end s it \<and> fst (deref s it) < e0)"

definition do_remove :: "crv \<Rightarrow> iter \<Rightarrow> nat \<Rightarrow> nat \<Rightarrow> crv \<times> iter" where
  "do_remove s it b0 e0 =
     (let (s', it', _) =
            while (remove_test e0) (remove_step e0) (s, is_find_from s b0 it, b0)
      in (s', it'))"

definition is_remove :: "crv \<Rightarrow> nat \<Rightarrow> nat \<Rightarrow> crv" where
  "is_remove s index count = fst (do_remove s (is_find s index) index (index + count))"

fun remove_all_loop :: "crv \<Rightarrow> iter \<Rightarrow> range list \<Rightarrow> crv" where
  "remove_all_loop s it [] = s"
| "remove_all_loop s it (r # rs) =
     (let (s', it') = do_remove s it (fst r) (snd r)
      in if it' = it_end s' then s' else remove_all_loop s' it' rs)"

definition is_remove_all :: "crv \<Rightarrow> crv \<Rightarrow> crv" where
  "is_remove_all s values = remove_all_loop s (it_begin s) (concat (map data values))"

section \<open>Shifting an index\<close>

fun shift_loop :: "range list \<Rightarrow> nat \<Rightarrow> nat" where
  "shift_loop [] index = index"
| "shift_loop (r # rs) index =
     (if fst r > index then index else shift_loop rs (index + (snd r - fst r)))"

definition is_shift :: "crv \<Rightarrow> nat \<Rightarrow> nat" where
  "is_shift s index = shift_loop (concat (map data s)) index"

definition is_unshift :: "crv \<Rightarrow> nat \<Rightarrow> nat" where
  "is_unshift s index = sub_size index (is_count s 0 index)"

end
