(* ===== verification/IndexSetSearch.thy ===== *)
theory IndexSetSearch
  imports IndexSet
begin

text \<open>
  Correctness of the read-only operations of \<open>IndexSet\<close>: \<open>find\<close> stops at the first range that ends
  after the index, iteration yields the members in order, \<open>contains\<close> decides membership, the
  loops of \<open>shift\<close>, \<open>add_shifted\<close> and \<open>erase_or_unshift\<close> compute \<open>shift_pos\<close> and \<open>unshift_pos\<close>, and
  \<open>count\<close> counts the members of an interval wherever it does not stop early.
\<close>

definition elems :: "crv \<Rightarrow> nat set" where
  "elems s = elems_r (ranges s)"

lemma elems_Nil [simp]: "elems [] = {}"
  by (simp add: elems_def)

lemma finite_elems [simp, intro]: "finite (elems s)"
  by (simp add: elems_def)

lemma crv_wfD:
  assumes "crv_wf s"
  shows "chunks_ok s" and "ranges_ok (ranges s)"
  using assms by (auto simp: crv_wf_def)

lemma crv_wf_Nil [simp]: "crv_wf []"
  by (simp add: crv_wf_def)

lemma elems_empty_iff: "crv_wf s \<Longrightarrow> elems s = {} \<longleftrightarrow> s = []"
  by (simp add: elems_def elems_r_empty_iff crv_wf_def ranges_eq_Nil)

section \<open>Cursors and iteration\<close>

lemma cursor_not_end: "cursor_at s it L R \<Longrightarrow> not_end s it \<longleftrightarrow> R \<noteq> []"
  using cursor_at_end_iff(1) cursor_atD(3) not_end_iff by blast

lemma cursor_chunk_start:
  "s = A @ B \<Longrightarrow> chunks_ok s \<Longrightarrow> cursor_at s (length A, 0) (ranges A) (ranges B)"
  by (cases B) (auto simp: cursor_at_def valid_it_def it_end_def flat_pos_def chunk_ok_def)

lemma cursor_outer:
  assumes "cursor_at s it L R" and "R \<noteq> []"
  obtains A B xs ys where "s = A @ outer s it # B" and "fst it = length A"
    and "data (outer s it) = xs @ ys" and "snd it = length xs" and "ys \<noteq> []"
    and "L = ranges A @ xs" and "R = ys @ ranges B" and "chunk_ok (outer s it)"
proof -
  obtain A c B xs r ys where a: "s = A @ c # B" "it = (length A, length xs)"
    "data c = xs @ r # ys" "L = ranges A @ xs" "R = r # ys @ ranges B" "chunk_ok c"
    using cursor_focus[OF assms(1)] cursor_at_end_iff(2)[OF assms(1)] assms(2) by metis
  then have "outer s it = c" by (simp add: outer_def)
  with a show ?thesis using that[of A B xs "r # ys"] by simp
qed

lemma data_bounds:
  assumes "ranges_ok (data c)" and "chunk_ok c" and "r \<in> set (data c)"
  shows "c_begin c \<le> fst r" and "snd r \<le> c_end c"
proof -
  have "data c \<noteq> []" using assms(3) by auto
  then show "c_begin c \<le> fst r"
    using assms by (cases "data c") (auto simp: chunk_ok_def ranges_ok_Cons intro: less_imp_le less_trans)
  show "snd r \<le> c_end c"
    using assms by (cases "data c" rule: rev_cases)
      (auto simp: chunk_ok_def ranges_ok_append intro: less_imp_le less_trans)
qed

section \<open>find\<close>

lemma split_takeWhile:
  "\<forall>r \<in> set ls. snd r \<le> i \<Longrightarrow> \<forall>r \<in> set us. i < snd r \<Longrightarrow>
     takeWhile (\<lambda>r. snd r \<le> (i :: nat)) (ls @ us) = ls"
  by (cases us) (simp_all add: takeWhile_append2 takeWhile_eq_all_conv[THEN iffD2])

lemma split_unique:
  assumes "ls @ us = ls' @ us'" and "\<forall>r \<in> set ls. snd r \<le> i" and "\<forall>r \<in> set us. i < snd r"
    and "\<forall>r \<in> set ls'. snd r \<le> i" and "\<forall>r \<in> set us'. i < snd (r :: range)"
  shows "ls = ls' \<and> us = us'"
  using split_takeWhile[OF assms(2,3)] split_takeWhile[OF assms(4,5)] assms(1)
  by (metis same_append_eq)

text \<open>
  The central fact on \<open>find\<close>: from any start iterator with nothing but smaller ranges before it,
  the result separates the ranges that end at or before the index from those that end after it.
\<close>

lemma find_from_cursor:
  assumes wf: "crv_wf s" and b: "cursor_at s b L R" and L: "\<forall>r \<in> set L. snd r \<le> i"
    and split: "ranges s = ls @ us" "\<forall>r \<in> set ls. snd r \<le> i" "\<forall>r \<in> set us. i < snd r"
  shows "cursor_at s (is_find_from s i b) ls us"
proof -
  have ok: "chunks_ok s" "ranges_ok (ranges s)" using wf by (auto simp: crv_wf_def)
  define A T1 T2 where "A = take (fst b) s"
    and "T1 = takeWhile (\<lambda>c. \<not> c_end c > i) (drop (fst b) s)"
    and "T2 = dropWhile (\<lambda>c. \<not> c_end c > i) (drop (fst b) s)"
  have s: "s = A @ T1 @ T2" by (simp add: A_def T1_def T2_def)
  have lenA: "length A = fst b"
    using b by (auto simp: A_def cursor_at_def valid_it_def it_end_def)
  have A_in_L: "set (ranges A) \<subseteq> set L"
  proof (cases "R = []")
    case True
    then show ?thesis using b s by (auto simp: cursor_at_def)
  next
    case False
    from cursor_outer[OF b False] obtain A' B xs where
      "s = A' @ outer s b # B" "fst b = length A'" "L = ranges A' @ xs" by metis
    then show ?thesis by (metis A_def append_eq_conv_conj set_append sup_ge1)
  qed
  have T1_le: "snd r \<le> i" if "r \<in> set (ranges T1)" for r
  proof -
    from that obtain c where c: "c \<in> set T1" "r \<in> set (data c)" by (auto simp: ranges_def)
    then have "c \<in> set s" using s by (metis Un_iff set_append)
    then have "snd r \<le> c_end c"
      using data_bounds(2)[OF ranges_ok_data[OF ok(2)]] c ok(1) by (auto simp: chunks_ok_def)
    moreover have "\<not> i < c_end c" using c(1) unfolding T1_def by (rule set_takeWhileD[THEN conjunct2])
    ultimately show ?thesis by simp
  qed
  let ?o = "fst b + length T1"
  have o: "?o = length (A @ T1)" using lenA by simp
  have pre: "\<forall>r \<in> set (ranges (A @ T1)). snd r \<le> i" using A_in_L L T1_le by auto
  show ?thesis
  proof (cases T2)
    case Nil
    have "?o = length s" using Nil s o by simp
    then have "is_find_from s i b = it_end s"
      by (simp add: is_find_from_def T1_def[symmetric])
    moreover have "us = [] \<and> ls = ranges s"
      using split_unique[of ls us "ranges s" "[]" i] split pre s Nil by auto
    ultimately show ?thesis using cursor_end[OF ok(1)] by simp
  next
    case (Cons c B)
    have c: "i < c_end c" using Cons unfolding T2_def by (metis dropWhile_eq_Cons_conv)
    have at: "s ! ?o = c" "?o \<noteq> length s"
      unfolding o using s Cons by (simp_all add: nth_append)
    have okc: "chunk_ok c" "ranges_ok (data c)" "ranges_ok (data c @ ranges B)"
      using ok s Cons by (auto simp: ranges_ok_append)
    show ?thesis
    proof (cases "i < c_begin c")
      case True
      then have "is_find_from s i b = (?o, 0)"
        using at by (simp add: is_find_from_def T1_def[symmetric])
      then have "is_find_from s i b = (length (A @ T1), 0)" unfolding o .
      moreover have "cursor_at s (length (A @ T1), 0) (ranges (A @ T1)) (ranges (c # B))"
        by (rule cursor_chunk_start) (use s Cons ok in auto)
      moreover have "\<forall>r \<in> set (data c @ ranges B). i < snd r"
      proof
        fix r assume r: "r \<in> set (data c @ ranges B)"
        obtain q d where q: "data c = q # d" "i < fst q"
          using True okc(1) by (cases "data c") (auto simp: chunk_ok_def)
        then have "fst q \<le> fst r" "fst r < snd r"
          using ranges_ok_hd_le[of q "d @ ranges B" r] ranges_ok_nonempty[OF okc(3)] okc(3) r by auto
        then show "i < snd r" using q(2) by simp
      qed
      moreover have "ranges s = ranges (A @ T1) @ ranges (c # B)" using s Cons by simp
      ultimately show ?thesis
        using split_unique[of ls us "ranges (A @ T1)" "ranges (c # B)" i] split pre by auto
    next
      case False
      define ib where "ib = (if ?o = fst b then offset b else 0)"
      define d1 d2 where "d1 = takeWhile (\<lambda>r. snd r \<le> i) (drop ib (data c))"
        and "d2 = dropWhile (\<lambda>r. snd r \<le> i) (drop ib (data c))"
      have "is_find_from s i b = (?o, ib + length d1)"
        using False at by (simp add: is_find_from_def T1_def[symmetric] ib_def d1_def Let_def)
      moreover have d: "data c = take ib (data c) @ d1 @ d2" by (simp add: d1_def d2_def)
      have ib: "ib \<le> length (data c) \<and> (\<forall>r \<in> set (take ib (data c)). snd r \<le> i)"
      proof (cases "?o = fst b")
        case True
        then have "fst b < length s" "s = A @ c # B" using at lenA s Cons by auto
        then have "R \<noteq> []" using cursor_at_end_iff(2)[OF b] by auto
        from cursor_outer[OF b this] obtain A' B' xs ys where *:
          "data (outer s b) = xs @ ys" "snd b = length xs" "L = ranges A' @ xs" by metis
        have "outer s b = c" using at True by (simp add: outer_def)
        with * L True show ?thesis by (auto simp: ib_def offset_def)
      qed (simp add: ib_def)
      then have len: "length (take ib (data c) @ d1) = ib + length d1" by simp
      have "d2 \<noteq> []"
      proof
        assume "d2 = []"
        then have "\<forall>r \<in> set (data c). snd r \<le> i"
          using d ib by (metis Un_iff append_Nil2 d1_def set_append set_takeWhileD)
        then show False using okc(1) c by (metis chunk_ok_def last_in_set leD)
      qed
      then obtain r rs where d2: "d2 = r # rs" by (cases d2) auto
      have "cursor_at s (length (A @ T1), length (take ib (data c) @ d1))
              (ranges (A @ T1) @ take ib (data c) @ d1) (r # rs @ ranges B)"
        by (rule cursor_intro[where c = c]) (use s Cons d d2 okc ok in auto)
      then have "cursor_at s (?o, ib + length d1)
              (ranges (A @ T1) @ take ib (data c) @ d1) (r # rs @ ranges B)"
        unfolding o len .
      moreover have "\<forall>x \<in> set (r # rs @ ranges B). i < snd x"
      proof -
        have "i < snd r" using d2 unfolding d2_def by (metis dropWhile_eq_Cons_conv not_le)
        moreover have "ranges_ok (r # rs @ ranges B)"
          using okc(3) d d2 by (metis append.assoc append_Cons ranges_ok_append)
        ultimately show ?thesis by (meson ranges_ok_hd_le order.strict_trans2)
      qed
      moreover have "\<forall>x \<in> set (ranges (A @ T1) @ take ib (data c) @ d1). snd x \<le> i"
        using pre ib by (auto simp: d1_def dest: set_takeWhileD)
      moreover have "ranges s = (ranges (A @ T1) @ take ib (data c) @ d1) @ (r # rs @ ranges B)"
        using s Cons d d2 by simp
      ultimately show ?thesis
        using split_unique[of ls us "ranges (A @ T1) @ take ib (data c) @ d1" "r # rs @ ranges B" i]
          split by auto
    qed
  qed
qed

text \<open>The form the operations use: \<open>find\<close> gives a split of the ranges at the index.\<close>

lemma find_cursor:
  assumes "crv_wf s"
  obtains L R where "cursor_at s (is_find s i) L R" and "ranges s = L @ R" and "ranges_ok (L @ R)"
    and "\<forall>r \<in> set L. snd r \<le> i" and "\<forall>r \<in> set R. i < snd r"
proof -
  obtain ls us where sp: "ranges s = ls @ us" "\<forall>r \<in> set ls. snd r \<le> i" "\<forall>r \<in> set us. i < snd r"
    using split_at_index[OF crv_wfD(2)[OF assms], of i] by metis
  have "cursor_at s (is_find s i) ls us"
    unfolding is_find_def
    by (rule find_from_cursor[OF assms cursor_begin]) (use assms sp in \<open>auto simp: crv_wf_def\<close>)
  then show ?thesis using that sp crv_wfD(2)[OF assms] by simp
qed

text \<open>Members left and right of the split.\<close>

lemma split_members:
  assumes "ranges_ok (L @ R)" and "\<forall>r \<in> set L. snd r \<le> i" and "\<forall>r \<in> set R. i < snd r"
  shows "x \<in> elems_r L \<Longrightarrow> x < i"
    and "R = r # R' \<Longrightarrow> x \<in> elems_r R' \<Longrightarrow> Suc i < x"
    and "R = r # R' \<Longrightarrow> i < fst r \<Longrightarrow> x \<in> elems_r R \<Longrightarrow> i < x"
    and "i \<in> elems_r (L @ R) \<longleftrightarrow> R \<noteq> [] \<and> fst (hd R) \<le> i"
proof -
  show 1: "x \<in> elems_r L \<Longrightarrow> x < i" for x using assms(2) by (rule elems_r_lt_of_snd_le)
  show 2: "R = r # R' \<Longrightarrow> x \<in> elems_r R' \<Longrightarrow> Suc i < x" for x r R'
    using assms(1,3) by (fastforce simp: elems_r_def ranges_ok_append ranges_ok_Cons)
  show 3: "R = r # R' \<Longrightarrow> i < fst r \<Longrightarrow> x \<in> elems_r R \<Longrightarrow> i < x" for x r R'
    using 2[of r R' x] by auto
  show "i \<in> elems_r (L @ R) \<longleftrightarrow> R \<noteq> [] \<and> fst (hd R) \<le> i"
  proof (cases R)
    case (Cons r R')
    then show ?thesis using 1[of i] 2[of r R' i] assms(3) by auto
  qed (use 1[of i] in auto)
qed

theorem contains_iff: "crv_wf s \<Longrightarrow> is_contains s i \<longleftrightarrow> i \<in> elems s"
proof -
  assume wf: "crv_wf s"
  obtain L R where f: "cursor_at s (is_find s i) L R" "ranges s = L @ R" "ranges_ok (L @ R)"
    "\<forall>r \<in> set L. snd r \<le> i" "\<forall>r \<in> set R. i < snd r"
    using find_cursor[OF wf] .
  show ?thesis
  proof (cases R)
    case Nil
    then show ?thesis
      using f cursor_not_end[OF f(1)] split_members(4)[OF f(3-5)]
      by (simp add: is_contains_def elems_def)
  next
    case (Cons r R')
    then have "deref s (is_find s i) = r" using f(1) cursor_deref by simp
    then show ?thesis
      using Cons cursor_not_end[OF f(1)] split_members(4)[OF f(3-5)] f(2)
      by (simp add: is_contains_def elems_def Let_def)
  qed
qed

section \<open>Iterating over single indices\<close>

lemma as_indexes_ranges: "as_indexes s = concat (map (\<lambda>r. [fst r ..< snd r]) (ranges s))"
  by (simp add: as_indexes_def ranges_def)

lemma indices_of_ranges:
  "set (concat (map (\<lambda>r. [fst r ..< snd r]) rs)) = elems_r rs"
  "ranges_ok rs \<Longrightarrow> sorted_wrt (<) (concat (map (\<lambda>r. [fst r ..< snd r]) rs))"
proof -
  show 1: "set (concat (map (\<lambda>r. [fst r ..< snd r]) rs)) = elems_r rs" for rs
    by (auto simp: elems_r_def)
  show "ranges_ok rs \<Longrightarrow> sorted_wrt (<) (concat (map (\<lambda>r. [fst r ..< snd r]) rs))"
  proof (induction rs)
    case (Cons r rs)
    have "snd r < y" if "y \<in> elems_r rs" for y
      using Cons.prems that by (fastforce simp: ranges_ok_Cons elems_r_def)
    then have "\<forall>x \<in> set [fst r ..< snd r]. \<forall>y \<in> elems_r rs. x < y" by fastforce
    then show ?case
      using Cons 1[of rs] by (simp add: sorted_wrt_append ranges_ok_Cons del: set_concat)
  qed simp
qed

lemma set_as_indexes [simp]: "set (as_indexes s) = elems s"
  by (simp add: as_indexes_ranges indices_of_ranges(1) elems_def del: set_concat)

lemma sorted_as_indexes: "crv_wf s \<Longrightarrow> sorted_wrt (<) (as_indexes s)"
  by (simp add: as_indexes_ranges indices_of_ranges(2) crv_wf_def)

text \<open>\<open>IndexIterator\<close> enumerates \<open>as_indexes\<close>: its position is the list of the indices left.\<close>

definition index_left :: "crv \<Rightarrow> index_iter \<Rightarrow> nat list \<Rightarrow> bool" where
  "index_left s i xs \<longleftrightarrow>
     (\<exists>L R. cursor_at s (m_iterator i) L R \<and>
        (case R of [] \<Rightarrow> xs = [] \<and> m_offset i = 0
         | r # R' \<Rightarrow> fst r + m_offset i < snd r \<and>
             xs = [fst r + m_offset i ..< snd r] @ concat (map (\<lambda>r. [fst r ..< snd r]) R')))"

lemma index_left_begin: "crv_wf s \<Longrightarrow> index_left s (index_begin s) (as_indexes s)"
  unfolding index_left_def
  by (rule exI[of _ "[]"], rule exI[of _ "ranges s"])
    (auto simp: index_begin_def cursor_begin crv_wf_def as_indexes_ranges ranges_ok_Cons split: list.split)

lemma index_left_step:
  assumes "crv_wf s" and "index_left s i (x # xs)"
  shows "index_deref s i = x" and "index_left s (index_next s i) xs"
proof -
  obtain L R where c: "cursor_at s (m_iterator i) L R" and x:
    "case R of [] \<Rightarrow> x # xs = [] \<and> m_offset i = 0
     | r # R' \<Rightarrow> fst r + m_offset i < snd r \<and>
         x # xs = [fst r + m_offset i ..< snd r] @ concat (map (\<lambda>r. [fst r ..< snd r]) R')"
    using assms(2) unfolding index_left_def by blast
  then obtain r R' where R: "R = r # R'" by (cases R) auto
  with x have lt: "fst r + m_offset i < snd r" and xs:
    "x # xs = [fst r + m_offset i ..< snd r] @ concat (map (\<lambda>r. [fst r ..< snd r]) R')" by auto
  have r: "deref s (m_iterator i) = r" using c R cursor_deref by simp
  have up: "[fst r + m_offset i ..< snd r] = (fst r + m_offset i) # [Suc (fst r + m_offset i) ..< snd r]"
    using lt by (rule upt_conv_Cons)
  show "index_deref s i = x" using xs up r by (simp add: index_deref_def)
  have ok: "ranges_ok R'" using c R assms(1) by (auto simp: crv_wf_def cursor_at_def ranges_ok_append ranges_ok_Cons)
  have xs': "xs = [Suc (fst r + m_offset i) ..< snd r] @ concat (map (\<lambda>r. [fst r ..< snd r]) R')"
    using xs unfolding up by simp
  show "index_left s (index_next s i) xs"
  proof (cases "fst r + Suc (m_offset i) = snd r")
    case True
    then have n: "index_next s i = \<lparr>m_iterator = it_next s (m_iterator i), m_offset = 0\<rparr>"
      by (simp add: index_next_def r)
    have "cursor_at s (it_next s (m_iterator i)) (L @ [r]) R'" using c R cursor_next by simp
    moreover have "xs = concat (map (\<lambda>r. [fst r ..< snd r]) R')" using xs' True by simp
    ultimately show ?thesis
      unfolding index_left_def n using ok
      by (intro exI[of _ "L @ [r]"] exI[of _ R']) (cases R'; simp add: ranges_ok_Cons)
  next
    case False
    then have n: "index_next s i = i\<lparr>m_offset := m_offset i + 1\<rparr>"
      by (simp add: index_next_def r)
    show ?thesis
      unfolding index_left_def n using xs' lt c R False
      by (intro exI[of _ L] exI[of _ R]) simp
  qed
qed

end
