(* ===== verification/IndexSetAdd.thy ===== *)
theory IndexSetAdd
  imports IndexSetSearch
begin

text \<open>
  Correctness of the operations that add indices without renumbering the others: \<open>do_add\<close>, \<open>add\<close>
  in its two forms, the constructor from a list, \<open>set\<close> and \<open>clear\<close>, and of \<open>add_shifted\<close>.
\<close>

text \<open>The iterator returned by \<open>do_add\<close> stands on the range that holds the index.\<close>

definition stands_on :: "crv \<Rightarrow> iter \<Rightarrow> nat \<Rightarrow> bool" where
  "stands_on s it i \<longleftrightarrow> (\<exists>L r R. cursor_at s it L (r # R) \<and> fst r \<le> i \<and> i < snd r)"

definition added :: "crv \<Rightarrow> crv \<times> iter \<Rightarrow> nat \<Rightarrow> bool" where
  "added s p i \<longleftrightarrow>
     crv_wf (fst p) \<and> elems (fst p) = insert i (elems s) \<and> stands_on (fst p) (snd p) i"

lemma addedI:
  assumes "cursor_at s' it' L (r # R)" and "ranges_ok (L @ r # R)" and "fst r \<le> i" and "i < snd r"
    and "elems_r (L @ r # R) = insert i (elems s)"
  shows "added s (s', it') i"
proof -
  have "stands_on s' it' i" unfolding stands_on_def using assms(1,3,4) by blast
  moreover have "crv_wf s'" "elems s' = insert i (elems s)"
    using assms(1,2,5) by (auto simp: crv_wf_def elems_def cursor_at_def)
  ultimately show ?thesis by (simp add: added_def)
qed

lemma do_add_added:
  assumes wf: "crv_wf s" and c: "cursor_at s it L R"
    and L: "\<forall>r \<in> set L. snd r \<le> i" and R: "\<forall>r \<in> set R. i < snd r"
  shows "added s (do_add s it i) i"
proof -
  have rs: "ranges s = L @ R" and ok: "ranges_ok (L @ R)"
    using wf c by (auto simp: crv_wf_def cursor_at_def)
  have el: "elems s = elems_r L \<union> elems_r R" by (simp add: elems_def rs)
  have ne: "not_end s it \<longleftrightarrow> R \<noteq> []" by (rule cursor_not_end[OF c])
  have nb: "it \<noteq> it_begin s \<longleftrightarrow> L \<noteq> []" using cursor_at_begin_iff[OF c] by simp
  have dr: "deref s it = r" if "R = r # R'" for r R' using c that cursor_deref by simp
  show ?thesis
  proof (cases "R \<noteq> [] \<and> fst (hd R) \<le> i")
    case True
    then obtain r R' where r: "R = r # R'" "fst r \<le> i" "i < snd r" using R by (cases R) auto
    then have "do_add s it i = (s, it)" using ne dr by (simp add: do_add_def Let_def)
    moreover have "elems_r (L @ r # R') = insert i (elems s)"
      unfolding el r(1) using r(2,3) by auto
    ultimately show ?thesis using addedI[of s it L r R' i s] c ok r by simp
  next
    case notin: False
    show ?thesis
    proof (cases "L \<noteq> [] \<and> snd (last L) = i")
      case True
      then obtain L' l where l: "L = L' @ [l]" "snd l = i" by (cases L rule: rev_cases) auto
      let ?p = "it_prev s it" and ?s1 = "it_adjust s (it_prev s it) 0 1"
      have p: "cursor_at s ?p L' (l # R)" using cursor_prev c l by blast
      have fl: "fst l < snd l" using ok l by (simp add: ranges_ok_append ranges_ok_Cons)
      have s1: "cursor_at ?s1 ?p L' ((fst l, Suc i) # R)" "same_shape s ?s1"
        using cursor_adjust[OF p, of 0 1] fl l by auto
      have it1: "cursor_at ?s1 it (L' @ [(fst l, Suc i)]) R"
        by (rule cursor_same_shape[OF c s1(2)]) (use s1(1) l in \<open>auto simp: cursor_at_def\<close>)
      have dp: "deref ?s1 ?p = (fst l, Suc i)" using s1(1) cursor_deref by blast
      have dl: "deref s ?p = l" using p cursor_deref by blast
      show ?thesis
      proof (cases "R \<noteq> [] \<and> fst (hd R) = Suc i")
        case join: True
        then obtain r R' where r: "R = r # R'" "fst r = Suc i" by (cases R) auto
        let ?s2 = "it_adjust ?s1 ?p 0 (int (snd r - fst r))"
        have fr: "fst r < snd r" using ok r by (simp add: ranges_ok_append ranges_ok_Cons)
        have d1: "deref ?s1 it = r" using it1 r cursor_deref by blast
        have off: "add_off (Suc i) (int (snd r - fst r)) = snd r"
          using r fr by (simp del: of_nat_diff)
        have s2: "cursor_at ?s2 ?p L' ((fst l, snd r) # R)" "same_shape ?s1 ?s2"
          using cursor_adjust[OF s1(1), of 0 "int (snd r - fst r)"] fl l(2) off
          by (simp_all del: of_nat_diff)
        have it2: "cursor_at ?s2 it (L' @ [(fst l, snd r)]) (r # R')"
          by (rule cursor_same_shape[OF it1 s2(2)]) (use s2(1) r in \<open>auto simp: cursor_at_def\<close>)
        obtain s3 it3 where e: "crv_erase ?s2 it = (s3, it3)" by (cases "crv_erase ?s2 it")
        have "cursor_at s3 (it_prev s3 it3) L' ((fst l, snd r) # R')"
          using cursor_prev erase_cursor[OF it2 e] by blast
        moreover have "do_add s it i = (s3, it_prev s3 it3)"
          using True notin join r ne nb dr[OF r(1)] dp dl d1 e l(2) by (simp add: do_add_def Let_def)
        moreover have "ranges_ok (L' @ (fst l, snd r) # R')"
          using ok l r fl fr by (auto simp: ranges_ok_append ranges_ok_Cons)
        moreover have "{fst l ..< snd r} = insert i ({fst l ..< snd l} \<union> {fst r ..< snd r})"
          using l(2) r(2) fl fr by auto
        then have "elems_r (L' @ (fst l, snd r) # R') = insert i (elems s)"
          unfolding el l(1) r(1) by (simp add: Un_assoc)
        ultimately show ?thesis using addedI[of s3 _ L' "(fst l, snd r)" R' i s] l fl r fr by simp
      next
        case apart: False
        then have "do_add s it i = (?s1, ?p)"
        proof (cases R)
          case Nil
          then show ?thesis using True ne nb dl l(2) by (simp add: do_add_def Let_def)
        next
          case (Cons r R')
          then have "deref ?s1 it = r" using it1 cursor_deref by blast
          then show ?thesis
            using True Cons notin apart ne nb dr[OF Cons] dp dl l(2) by (simp add: do_add_def Let_def)
        qed
        moreover have "ranges_ok (L' @ (fst l, Suc i) # R)"
          using ok l fl notin apart R
          by (cases R) (auto simp: ranges_ok_append ranges_ok_Cons)
        moreover have "{fst l ..< Suc i} = insert i {fst l ..< snd l}" using l(2) fl by auto
        then have "elems_r (L' @ (fst l, Suc i) # R) = insert i (elems s)"
          unfolding el l(1) by (simp add: Un_assoc)
        ultimately show ?thesis using addedI[of ?s1 ?p L' "(fst l, Suc i)" R i s] s1(1) l fl by simp
      qed
    next
      case gap: False
      have more: "(L \<noteq> [] \<and> snd (deref s (it_prev s it)) = i) = False"
      proof (cases L rule: rev_cases)
        case (snoc L' l)
        then show ?thesis using cursor_deref[OF cursor_prev, of s it L' l R] c gap by simp
      qed simp
      have Lt: "\<forall>l \<in> set L. snd l < i"
      proof (cases L rule: rev_cases)
        case (snoc ys y)
        have "snd y < i" using snoc L gap by auto
        moreover have "\<forall>x \<in> set ys. snd x < fst y" "fst y < snd y"
          using ok unfolding snoc by (auto simp: ranges_ok_append ranges_ok_Cons)
        ultimately show ?thesis unfolding snoc by fastforce
      qed simp
      show ?thesis
      proof (cases "R \<noteq> [] \<and> fst (hd R) = Suc i")
        case True
        then obtain r R' where r: "R = r # R'" "fst r = Suc i" by (cases R) auto
        have fr: "fst r < snd r" using ok r by (simp add: ranges_ok_append ranges_ok_Cons)
        have "cursor_at (it_adjust s it (-1) 0) it L ((i, snd r) # R')"
          using cursor_adjust(1)[of s it L r R' "-1" 0] c r fr by simp
        moreover have "do_add s it i = (it_adjust s it (-1) 0, it)"
          using True notin r ne nb dr[OF r(1)] more
          by (cases "L = []") (simp_all add: do_add_def Let_def)
        moreover have "ranges_ok (L @ (i, snd r) # R')"
          using ok r fr Lt by (auto simp: ranges_ok_append ranges_ok_Cons)
        moreover have "{i ..< snd r} = insert i {fst r ..< snd r}" using r(2) fr by auto
        then have "elems_r (L @ (i, snd r) # R') = insert i (elems s)"
          unfolding el r(1) by (simp add: Un_assoc)
        ultimately show ?thesis using addedI[of _ it L "(i, snd r)" R' i s] r fr by simp
      next
        case False
        obtain s' it' where e: "crv_insert s it (i, i + 1) = (s', it')"
          by (cases "crv_insert s it (i, i + 1)")
        have Rgt: "\<forall>r \<in> set R. Suc i < fst r"
          using notin False R ok
          by (cases R) (auto simp: ranges_ok_append ranges_ok_Cons)
        have ok': "ranges_ok (L @ (i, i + 1) # R)"
          using ok Lt Rgt by (auto simp: ranges_ok_append ranges_ok_Cons)
        have "do_add s it i = (s', it')"
        proof (cases R)
          case Nil
          then show ?thesis using e ne nb more by (cases "L = []") (simp_all add: do_add_def Let_def)
        next
          case (Cons r R')
          then show ?thesis
            using e ne nb more notin False dr[OF Cons]
            by (cases "L = []") (simp_all add: do_add_def Let_def)
        qed
        moreover have "cursor_at s' it' L ((i, i + 1) # R)"
          by (rule insert_cursor[OF c fits_of_ranges_ok[OF ok'] e])
        moreover have "elems_r (L @ (i, i + 1) # R) = insert i (elems s)" unfolding el by (simp add: Un_assoc)
        ultimately show ?thesis using addedI[of s' it' L "(i, i + 1)" R i s] ok' by simp
      qed
    qed
  qed
qed

lemma is_add_added: "crv_wf s \<Longrightarrow> added s (do_add s (is_find s i) i) i"
  using find_cursor do_add_added by metis

theorem is_add_wf [wf_intros]: "crv_wf s \<Longrightarrow> crv_wf (is_add s i)"
  using is_add_added by (simp add: is_add_def added_def)

theorem is_add_elems [elems_simps]: "crv_wf s \<Longrightarrow> elems (is_add s i) = insert i (elems s)"
  using is_add_added by (simp add: is_add_def added_def)

lemma stands_on_split:
  assumes "crv_wf s" and "stands_on s it i" and "i < j"
  obtains L R where "cursor_at s it L R" and "\<forall>r \<in> set L. snd r \<le> j"
proof -
  obtain L r R where c: "cursor_at s it L (r # R)" "fst r \<le> i"
    using assms(2) unfolding stands_on_def by blast
  then have "ranges_ok (L @ r # R)" using assms(1) by (simp add: crv_wf_def cursor_at_def)
  then have "\<forall>l \<in> set L. snd l < fst r" by (simp add: ranges_ok_append)
  then have "\<forall>l \<in> set L. snd l \<le> j" using c(2) assms(3) by fastforce
  with c(1) show ?thesis using that by blast
qed

lemma add_all_loop_correct:
  assumes "crv_wf s" and "cursor_at s it L R" and "\<forall>x \<in> set xs. \<forall>r \<in> set L. snd r \<le> x"
    and "sorted_wrt (<) xs"
  shows "crv_wf (add_all_loop s it xs) \<and> elems (add_all_loop s it xs) = elems s \<union> set xs"
  using assms
proof (induction xs arbitrary: s it L R)
  case Nil
  then show ?case by simp
next
  case (Cons x xs)
  obtain ls us where sp: "ranges s = ls @ us" "\<forall>r \<in> set ls. snd r \<le> x" "\<forall>r \<in> set us. x < snd r"
    using split_at_index[OF crv_wfD(2)[OF Cons.prems(1)], of x] by metis
  have "cursor_at s (is_find_from s x it) ls us"
    by (rule find_from_cursor[OF Cons.prems(1,2) _ sp]) (use Cons.prems(3) in auto)
  then have a: "added s (do_add s (is_find_from s x it) x) x"
    using do_add_added Cons.prems(1) sp by blast
  obtain s' it' where d: "do_add s (is_find_from s x it) x = (s', it')"
    by (cases "do_add s (is_find_from s x it) x")
  have wf': "crv_wf s'" "elems s' = insert x (elems s)" "stands_on s' it' x"
    using a d by (auto simp: added_def)
  show ?case
  proof (cases xs)
    case Nil
    then show ?thesis using d wf' by simp
  next
    case (Cons y ys)
    then have "x < y" using Cons.prems(4) by simp
    then obtain L' R' where c': "cursor_at s' it' L' R'" "\<forall>r \<in> set L'. snd r \<le> Suc x"
      using stands_on_split[OF wf'(1,3), of "Suc x"] by auto
    have "\<forall>z \<in> set xs. \<forall>r \<in> set L'. snd r \<le> z"
      using c'(2) Cons.prems(4) by fastforce
    then show ?thesis using Cons.IH[OF wf'(1) c'(1)] Cons.prems(4) d wf'(2) by auto
  qed
qed

theorem is_add_all_correct:
  assumes "crv_wf s" and "crv_wf t"
  shows "crv_wf (is_add_all s t)" and "elems (is_add_all s t) = elems s \<union> elems t"
proof -
  have "crv_wf (is_add_all s t) \<and> elems (is_add_all s t) = elems s \<union> set (as_indexes t)"
    unfolding is_add_all_def
    by (rule add_all_loop_correct[OF assms(1) cursor_begin])
      (use assms in \<open>auto simp: crv_wf_def sorted_as_indexes\<close>)
  then show "crv_wf (is_add_all s t)" "elems (is_add_all s t) = elems s \<union> elems t" by auto
qed

theorem is_of_list_correct: "crv_wf (is_of_list xs)" "elems (is_of_list xs) = set xs"
proof -
  have "crv_wf s \<Longrightarrow> crv_wf (foldl is_add s xs) \<and> elems (foldl is_add s xs) = elems s \<union> set xs" for s
    by (induction xs arbitrary: s) (auto simp: is_add_wf is_add_elems)
  from this[of "[]"] show "crv_wf (is_of_list xs)" "elems (is_of_list xs) = set xs"
    by (auto simp: is_of_list_def)
qed

theorem is_set_correct: "crv_wf (is_set s n)" "elems (is_set s n) = {..<n}"
  by (auto simp: is_set_def is_clear_def crv_push_back_def crv_wf_def chunk_ok_def elems_def
      len_r_def max_size_def)

theorem is_clear_correct: "crv_wf (is_clear s)" "elems (is_clear s) = {}"
  by (simp_all add: is_clear_def)

end
