(* ===== verification/IndexSetCount.thy ===== *)
theory IndexSetCount
  imports IndexSetAdd
begin

text \<open>
  Correctness of the counting loops of \<open>IndexSet\<close>. The chunk summaries let \<open>count\<close>, \<open>add_shifted\<close>
  and \<open>erase_or_unshift\<close> skip whole chunks; each loop is described by what it adds up and where its
  iterator stops. \<open>count\<close> is right except in one situation, \<open>count_stops_early\<close>: the interval
  begins inside a chunk and ends inside the first range of the next one.
\<close>

declare count_rest.simps [simp del] count_chunks.simps [simp del] count_ranges.simps [simp del]
declare add_shifted_chunks.simps [simp del] add_shifted_ranges.simps [simp del]
declare unshift_chunks.simps [simp del] unshift_ranges.simps [simp del]

section \<open>Counting below a bound\<close>

lemma below_elems_prefix:
  assumes "ranges_ok (D @ R)" and "\<forall>r \<in> set D. snd r \<le> e"
  shows "below (elems_r (D @ R)) e = size_r D + below (elems_r R) e"
proof -
  have lt: "x < e" if "x \<in> elems_r D" for x using elems_r_lt_of_snd_le assms(2) that by blast
  have "elems_r D \<inter> elems_r R = {}"
    using assms(1) by (fastforce simp: elems_r_def ranges_ok_append)
  moreover have "below (elems_r D) e = size_r D"
    using lt card_elems_r assms(1) by (simp add: below_all ranges_ok_append)
  ultimately show ?thesis by (simp add: below_Un)
qed

lemma below_elems_hd:
  assumes "ranges_ok (r # R)" and "e \<le> snd r"
  shows "below (elems_r (r # R)) e = e - fst r"
proof -
  have "snd r < x" if "x \<in> elems_r R" for x
    using assms(1) that by (fastforce simp: ranges_ok_Cons elems_r_def)
  then have "{x \<in> elems_r (r # R). x < e} = {fst r ..< e}" using assms(2) by fastforce
  then show ?thesis by (simp add: below_def)
qed

lemma cursor_whole_chunk:
  assumes "cursor_at s it L R" and "R \<noteq> []" and "snd it = 0"
  obtains R' where "R = data (outer s it) @ R'"
    and "cursor_at s (next_chunk it) (L @ data (outer s it)) R'" and "chunk_ok (outer s it)"
proof -
  obtain A B xs ys where a: "s = A @ outer s it # B" "fst it = length A"
    "data (outer s it) = xs @ ys" "snd it = length xs" "L = ranges A @ xs" "R = ys @ ranges B"
    "chunk_ok (outer s it)"
    using cursor_outer[OF assms(1,2)] by metis
  have "cursor_at s (Suc (length A), 0) (ranges A @ data (outer s it)) (ranges B)"
    using cursor_next_chunk[OF a(1) cursor_atD(1)[OF assms(1)]] .
  then show ?thesis using that[of "ranges B"] a assms(3) by (simp add: next_chunk_def)
qed

lemma snd_it_begin [simp]: "snd (it_begin s) = 0"
  by (simp add: it_begin_def it_end_def)

lemma chunk_end_le:
  assumes "ranges_ok (data c @ R)" and "chunk_ok c" and "c_end c \<le> e" and "r \<in> set (data c)"
  shows "snd r \<le> e"
  using data_bounds(2)[of c r] assms by (auto simp: ranges_ok_append)

lemma whole_chunk_le:
  assumes "ranges_ok ((L @ data c) @ R)" and "chunk_ok c"
    and "\<forall>r \<in> set L. snd r \<le> e" and "c_end c \<le> e"
  shows "\<forall>r \<in> set (L @ data c). snd r \<le> e"
proof -
  have "snd r \<le> e" if "r \<in> set (data c)" for r
    using data_bounds(2)[of c r] assms that by (simp add: ranges_ok_append)
  with assms(3) show ?thesis by auto
qed

lemma last_range_end: "chunk_ok c \<Longrightarrow> \<exists>r \<in> set (data c). c_end c = snd r"
  by (auto simp: chunk_ok_def intro!: bexI[OF _ last_in_set])

section \<open>The loops of add_shifted\<close>

lemma add_shifted_chunks_correct:
  assumes "cursor_at s it L R" and "snd it = 0" and "ranges_ok (L @ R)"
    and "\<forall>r \<in> set L. snd r \<le> i" and "add_shifted_chunks s it i = (it', i')"
  shows "\<exists>L' R'. cursor_at s it' L' R' \<and> L' @ R' = L @ R \<and> (\<forall>r \<in> set L'. snd r \<le> i') \<and>
           i' + size_r L = i + size_r L'"
  using assms
proof (induction s it i arbitrary: L R rule: add_shifted_chunks.induct)
  case (1 s it i)
  show ?case
  proof (cases "not_end s it \<and> c_end (outer s it) \<le> i")
    case True
    then have "R \<noteq> []" using cursor_not_end 1(2) by blast
    then obtain R' where c: "R = data (outer s it) @ R'"
      "cursor_at s (next_chunk it) (L @ data (outer s it)) R'" "chunk_ok (outer s it)"
      using cursor_whole_chunk[OF 1(2)] 1(3) by metis
    have sz: "c_count (outer s it) = size_r (data (outer s it))"
      using c(3) by (simp add: chunk_ok_def)
    let ?L = "L @ data (outer s it)"
    have ok: "ranges_ok (?L @ R')" using 1(4) c(1) by simp
    have "\<forall>r \<in> set ?L. snd r \<le> i + c_count (outer s it)"
      by (rule whole_chunk_le[OF ok c(3)]) (use 1(5) True in \<open>simp_all add: trans_le_add1\<close>)
    have run: "add_shifted_chunks s (next_chunk it) (i + c_count (outer s it)) = (it', i')"
      using 1(6) True by (simp add: add_shifted_chunks.simps[of s it i])
    have z: "snd (next_chunk it) = 0" by (simp add: next_chunk_def)
    obtain L' R'' where r: "cursor_at s it' L' R''" "L' @ R'' = ?L @ R'"
      "\<forall>r \<in> set L'. snd r \<le> i'" "i' + size_r ?L = i + c_count (outer s it) + size_r L'"
      using 1(1)[OF True c(2) z ok \<open>\<forall>r \<in> set ?L. snd r \<le> _\<close> run] by blast
    then have "L' @ R'' = L @ R" "i' + size_r L = i + size_r L'" using c(1) sz by simp_all
    with r show ?thesis by blast
  next
    case False
    then have "it' = it" "i' = i"
      using 1(6) by (auto simp: add_shifted_chunks.simps[of s it i])
    then show ?thesis using 1(2,5) by blast
  qed
qed

lemma add_shifted_ranges_correct:
  assumes "cursor_at s it L R" and "ranges_ok (L @ R)"
    and "\<forall>r \<in> set L. snd r \<le> i" and "add_shifted_ranges s it i = (it', i')"
  shows "\<exists>L' R'. cursor_at s it' L' R' \<and> L' @ R' = L @ R \<and> (\<forall>r \<in> set L'. snd r \<le> i') \<and>
           (R' = [] \<or> i' < fst (hd R')) \<and> i' + size_r L = i + size_r L'"
  using assms
proof (induction s it i arbitrary: L R rule: add_shifted_ranges.induct)
  case (1 s it i)
  show ?case
  proof (cases "not_end s it \<and> fst (deref s it) \<le> i")
    case True
    then obtain r R' where R: "R = r # R'" using cursor_not_end[OF 1(2)] by (cases R) auto
    have r: "deref s it = r" using 1(2) R cursor_deref by blast
    have ok: "fst r < snd r" using 1(3) R by (simp add: ranges_ok_append ranges_ok_Cons)
    have "cursor_at s (it_next s it) (L @ [r]) R'" using cursor_next 1(2) R by blast
    moreover have "snd x \<le> i + (snd r - fst r)" if "x \<in> set (L @ [r])" for x
    proof (cases "x = r")
      case True
      moreover have "fst r \<le> i" using \<open>not_end s it \<and> fst (deref s it) \<le> i\<close> r by simp
      ultimately have "snd r \<le> i + (snd r - fst r)" using ok by linarith
      then show ?thesis using \<open>x = r\<close> by simp
    next
      case False
      then have "snd x \<le> i" using that 1(4) by auto
      then show ?thesis by simp
    qed
    then have "\<forall>x \<in> set (L @ [r]). snd x \<le> i + (snd (deref s it) - fst (deref s it))"
      using r by simp
    ultimately show ?thesis
      using 1(1)[OF True, of "L @ [r]" R'] 1(3,5) R r True
      by (auto simp: add_shifted_ranges.simps[of s it i] len_r_def)
  next
    case False
    then have e: "it' = it" "i' = i"
      using 1(5) by (auto simp: add_shifted_ranges.simps[of s it i])
    have "R = [] \<or> i < fst (hd R)"
      using False cursor_not_end[OF 1(2)] cursor_deref[of s it L "hd R" "tl R"] 1(2)
      by (cases R) auto
    then show ?thesis using 1(2,4) e by blast
  qed
qed

lemma gap_is_shift_pos:
  assumes "ranges_ok (L @ R)" and "\<forall>r \<in> set L. snd r \<le> j" and "R = [] \<or> j < fst (hd R)"
    and "j = i + size_r L"
  shows "shift_pos (elems_r (L @ R)) i = j" and "\<forall>r \<in> set R. j < snd r"
proof -
  have gt: "\<forall>r \<in> set R. j < fst r"
    using assms(1,3) by (cases R) (auto simp: ranges_ok_append ranges_ok_Cons)
  have none: "\<forall>x \<in> elems_r R. j < x" using gt by (fastforce simp: elems_r_def)
  have "j \<notin> elems_r (L @ R)"
    using none elems_r_lt_of_snd_le[OF assms(2), of j] by auto
  moreover have "below (elems_r (L @ R)) j = size_r L"
    using below_elems_prefix[OF assms(1,2)] below_none[of "elems_r R" j] none by (simp add: less_imp_le)
  ultimately show "shift_pos (elems_r (L @ R)) i = j"
    using assms(4) by (intro shift_pos_eqI) auto
  show "\<forall>r \<in> set R. j < snd r"
    using gt assms(1) ranges_ok_nonempty[of R] less_trans by (simp add: ranges_ok_append) blast
qed

theorem is_add_shifted_correct:
  assumes "crv_wf s" and "is_add_shifted s i = (s', j)"
  shows "crv_wf s'" and "j = shift_pos (elems s) i"
    and "elems s' = insert (shift_pos (elems s) i) (elems s)"
proof -
  obtain it1 i1 where 1: "add_shifted_chunks s (it_begin s) i = (it1, i1)"
    by (cases "add_shifted_chunks s (it_begin s) i")
  obtain it2 i2 where 2: "add_shifted_ranges s it1 i1 = (it2, i2)"
    by (cases "add_shifted_ranges s it1 i1")
  have e: "s' = fst (do_add s it2 i2)" "j = i2" using assms(2) 1 2 by (auto simp: is_add_shifted_def)
  have ok: "ranges_ok (ranges s)" using assms(1) by (rule crv_wfD)
  obtain L1 R1 where c1: "cursor_at s it1 L1 R1" "L1 @ R1 = ranges s"
    "\<forall>r \<in> set L1. snd r \<le> i1" "i1 = i + size_r L1"
    using add_shifted_chunks_correct[OF cursor_begin[OF crv_wfD(1)[OF assms(1)]]
        snd_it_begin _ _ 1] ok by auto
  obtain L2 R2 where c2: "cursor_at s it2 L2 R2" "L2 @ R2 = ranges s"
    "\<forall>r \<in> set L2. snd r \<le> i2" "R2 = [] \<or> i2 < fst (hd R2)" "i2 + size_r L1 = i1 + size_r L2"
    using add_shifted_ranges_correct[OF c1(1) _ c1(3) 2] c1(2) ok by auto
  have "i2 = i + size_r L2" using c1(4) c2(5) by simp
  then have g: "shift_pos (elems s) i = i2" "\<forall>r \<in> set R2. i2 < snd r"
    using gap_is_shift_pos[of L2 R2 i2 i] c2 ok by (auto simp: elems_def)
  then have "added s (do_add s it2 i2) i2"
    using do_add_added[OF assms(1) c2(1,3)] by blast
  then show "crv_wf s'" "j = shift_pos (elems s) i"
    "elems s' = insert (shift_pos (elems s) i) (elems s)"
    using e g by (auto simp: added_def)
qed

section \<open>shift\<close>

lemma shift_loop_correct:
  assumes "ranges_ok rs"
  shows "shift_loop rs i = shift_pos (elems_r rs) i"
  using assms
proof (induction rs arbitrary: i)
  case Nil
  then show ?case by simp
next
  case (Cons r rs)
  show ?case
  proof (cases "fst r > i")
    case True
    then show ?thesis using gap_is_shift_pos(1)[of "[]" "r # rs" i i] Cons.prems by simp
  next
    case False
    let ?j = "shift_pos (elems_r rs) (i + len_r r)"
    have ok: "ranges_ok rs" "fst r < snd r" using Cons.prems by (auto simp: ranges_ok_Cons)
    have j: "?j \<notin> elems_r rs" "?j = i + len_r r + below (elems_r rs) ?j"
      using shift_pos_spec[of "elems_r rs" "i + len_r r"] by auto
    then have "snd r \<le> ?j" using False ok by (simp add: len_r_def)
    then have "?j \<notin> elems_r (r # rs)" "?j = i + below (elems_r (r # rs)) ?j"
      using j below_elems_prefix[of "[r]" rs ?j] Cons.prems by auto
    then have "shift_pos (elems_r (r # rs)) i = ?j" by (rule shift_pos_eqI)
    then show ?thesis using False Cons.IH[OF ok(1)] by (simp add: len_r_def)
  qed
qed

theorem is_shift_correct: "crv_wf s \<Longrightarrow> is_shift s i = shift_pos (elems s) i"
  using shift_loop_correct by (simp add: is_shift_def elems_def ranges_def[symmetric] crv_wf_def)

section \<open>The loops of erase_or_unshift\<close>

lemma unshift_chunks_correct:
  assumes "cursor_at s it L R" and "snd it = 0" and "ranges_ok (L @ R)"
    and "\<forall>r \<in> set L. snd r \<le> i" and "k = i - size_r L" and "unshift_chunks s it i k = (it', k')"
  shows "\<exists>L' R'. cursor_at s it' L' R' \<and> L' @ R' = L @ R \<and> (\<forall>r \<in> set L'. snd r \<le> i) \<and>
           k' = i - size_r L'"
  using assms
proof (induction s it i k arbitrary: L R rule: unshift_chunks.induct)
  case (1 s it i k)
  show ?case
  proof (cases "not_end s it \<and> c_end (outer s it) \<le> i")
    case True
    then have "R \<noteq> []" using cursor_not_end 1(2) by blast
    then obtain R' where c: "R = data (outer s it) @ R'"
      "cursor_at s (next_chunk it) (L @ data (outer s it)) R'" "chunk_ok (outer s it)"
      using cursor_whole_chunk[OF 1(2)] 1(3) by metis
    let ?L = "L @ data (outer s it)"
    have ok: "ranges_ok (?L @ R')" using 1(4) c(1) by simp
    have le: "\<forall>r \<in> set ?L. snd r \<le> i" by (rule whole_chunk_le[OF ok c(3) 1(5)]) (use True in simp)
    have "size_r ?L \<le> i"
      using below_elems_prefix[OF ok le] below_le[of "elems_r (?L @ R')" i] by simp
    then have "sub_size k (c_count (outer s it)) = i - size_r ?L"
      using 1(6) c(3) by (simp add: chunk_ok_def)
    have run: "unshift_chunks s (next_chunk it) i (sub_size k (c_count (outer s it))) = (it', k')"
      using 1(7) True by (simp add: unshift_chunks.simps[of s it i k])
    have z: "snd (next_chunk it) = 0" by (simp add: next_chunk_def)
    show ?thesis
      using 1(1)[OF True c(2) z ok le \<open>sub_size k _ = _\<close> run] c(1) by simp
  next
    case False
    then have "it' = it" "k' = k"
      using 1(7) by (auto simp: unshift_chunks.simps[of s it i k])
    then show ?thesis using 1(2,5,6) by blast
  qed
qed

lemma unshift_ranges_correct:
  assumes "cursor_at s it L R" and "ranges_ok (L @ R)"
    and "\<forall>r \<in> set L. snd r \<le> i" and "k = i - size_r L" and "unshift_ranges s it i k = (it', k')"
  shows "\<exists>L' R'. cursor_at s it' L' R' \<and> L' @ R' = L @ R \<and> (\<forall>r \<in> set L'. snd r \<le> i) \<and>
           (R' = [] \<or> i < snd (hd R')) \<and> k' = i - size_r L'"
  using assms
proof (induction s it i k arbitrary: L R rule: unshift_ranges.induct)
  case (1 s it i k)
  show ?case
  proof (cases "not_end s it \<and> snd (deref s it) \<le> i")
    case True
    then obtain r R' where R: "R = r # R'" using cursor_not_end[OF 1(2)] by (cases R) auto
    have r: "deref s it = r" using 1(2) R cursor_deref by blast
    have c: "cursor_at s (it_next s it) (L @ [r]) R'" using cursor_next 1(2) R by blast
    have ok: "ranges_ok ((L @ [r]) @ R')" using 1(3) R by simp
    have le: "\<forall>x \<in> set (L @ [r]). snd x \<le> i" using 1(4) r True by auto
    have "size_r (L @ [r]) \<le> i"
      using below_elems_prefix[OF ok le] below_le[of "elems_r ((L @ [r]) @ R')" i] by simp
    then have "sub_size k (snd (deref s it) - fst (deref s it)) = i - size_r (L @ [r])"
      using 1(5) r by (simp add: len_r_def)
    then show ?thesis
      using 1(1)[OF True c ok le] 1(6) R True by (auto simp: unshift_ranges.simps[of s it i k])
  next
    case False
    then have e: "it' = it" "k' = k"
      using 1(6) by (auto simp: unshift_ranges.simps[of s it i k])
    have "R = [] \<or> i < snd (hd R)"
      using False cursor_not_end[OF 1(2)] cursor_deref[of s it L "hd R" "tl R"] 1(2)
      by (cases R) auto
    then show ?thesis using 1(2,4,5) e by blast
  qed
qed

section \<open>The loops of count\<close>

lemma count_rest_correct:
  assumes "cursor_at s it L R" and "count_rest s it e n = (it', n')"
  shows "\<exists>D R'. cursor_at s it' (L @ D) R' \<and> R = D @ R' \<and> (\<forall>r \<in> set D. snd r \<le> e) \<and>
           n' = n + size_r D \<and> (R' = [] \<or> e \<le> snd (hd R') \<or> snd it' = 0)"
  using assms
proof (induction s it e n arbitrary: L R rule: count_rest.induct)
  case (1 s it e n)
  let ?c = "not_end s it \<and> snd (deref s it) < e \<and> offset it \<noteq> 0"
  show ?case
  proof (cases ?c)
    case True
    then obtain r R' where R: "R = r # R'" using cursor_not_end[OF 1(2)] by (cases R) auto
    have r: "deref s it = r" using 1(2) R cursor_deref by blast
    have c: "cursor_at s (it_next s it) (L @ [r]) R'" using cursor_next 1(2) R by blast
    have run: "count_rest s (it_next s it) e (n + (snd (deref s it) - fst (deref s it))) = (it', n')"
      using 1(3) True by (simp add: count_rest.simps[of s it e n])
    obtain D Q where q: "cursor_at s it' ((L @ [r]) @ D) Q" "R' = D @ Q" "\<forall>r \<in> set D. snd r \<le> e"
      "n' = n + (snd r - fst r) + size_r D" "Q = [] \<or> e \<le> snd (hd Q) \<or> snd it' = 0"
      using 1(1)[OF True c run] r by auto
    show ?thesis
      by (rule exI[of _ "r # D"], rule exI[of _ Q]) (use q R r True in \<open>auto simp: len_r_def\<close>)
  next
    case False
    then have e: "it' = it" "n' = n" using 1(3) by (auto simp: count_rest.simps[of s it e n])
    have "R = [] \<or> e \<le> snd (hd R) \<or> snd it = 0"
      using False cursor_not_end[OF 1(2)] cursor_deref[of s it L "hd R" "tl R"] 1(2)
      by (cases R) (auto simp: offset_def)
    then show ?thesis using 1(2) e by (intro exI[of _ "[]"] exI[of _ R]) simp
  qed
qed

lemma count_chunks_correct:
  assumes "cursor_at s it L R" and "snd it = 0" and "ranges_ok R" and "count_chunks s it e n = (it', n')"
  shows "\<exists>D R'. cursor_at s it' (L @ D) R' \<and> R = D @ R' \<and> (\<forall>r \<in> set D. snd r \<le> e) \<and>
           n' = n + size_r D"
  using assms
proof (induction s it e n arbitrary: L R rule: count_chunks.induct)
  case (1 s it e n)
  show ?case
  proof (cases "not_end s it \<and> c_end (outer s it) \<le> e")
    case True
    let ?d = "data (outer s it)"
    have "R \<noteq> []" using True cursor_not_end 1(2) by blast
    then obtain R' where c: "R = ?d @ R'"
      "cursor_at s (next_chunk it) (L @ ?d) R'" "chunk_ok (outer s it)"
      using cursor_whole_chunk[OF 1(2)] 1(3) by metis
    have ok: "ranges_ok R'" "ranges_ok (([] @ ?d) @ R')" using 1(4) c(1) by (simp_all add: ranges_ok_append)
    have le: "\<forall>r \<in> set ([] @ ?d). snd r \<le> e"
      by (rule whole_chunk_le[OF ok(2) c(3)]) (use True in simp_all)
    have run: "count_chunks s (next_chunk it) e (n + c_count (outer s it)) = (it', n')"
      using 1(5) True by (simp add: count_chunks.simps[of s it e n])
    have z: "snd (next_chunk it) = 0" by (simp add: next_chunk_def)
    obtain D Q where q: "cursor_at s it' ((L @ ?d) @ D) Q" "R' = D @ Q" "\<forall>r \<in> set D. snd r \<le> e"
      "n' = n + c_count (outer s it) + size_r D"
      using 1(1)[OF True c(2) z ok(1) run] by blast
    show ?thesis
      by (rule exI[of _ "?d @ D"], rule exI[of _ Q])
        (use q c le in \<open>simp_all add: chunk_ok_def ball_Un\<close>)
  next
    case False
    then have "it' = it" "n' = n" using 1(5) by (auto simp: count_chunks.simps[of s it e n])
    then show ?thesis using 1(2) by (intro exI[of _ "[]"] exI[of _ R]) simp
  qed
qed

lemma count_ranges_correct:
  assumes "cursor_at s it L R" and "count_ranges s it e n = (it', n')"
  shows "\<exists>D R'. cursor_at s it' (L @ D) R' \<and> R = D @ R' \<and> (\<forall>r \<in> set D. snd r \<le> e) \<and>
           n' = n + size_r D \<and> (R' = [] \<or> e < snd (hd R'))"
  using assms
proof (induction s it e n arbitrary: L R rule: count_ranges.induct)
  case (1 s it e n)
  let ?c = "not_end s it \<and> snd (deref s it) \<le> e"
  show ?case
  proof (cases ?c)
    case True
    then obtain r R' where R: "R = r # R'" using cursor_not_end[OF 1(2)] by (cases R) auto
    have r: "deref s it = r" using 1(2) R cursor_deref by blast
    have c: "cursor_at s (it_next s it) (L @ [r]) R'" using cursor_next 1(2) R by blast
    have run: "count_ranges s (it_next s it) e (n + (snd (deref s it) - fst (deref s it))) = (it', n')"
      using 1(3) True by (simp add: count_ranges.simps[of s it e n])
    obtain D Q where q: "cursor_at s it' ((L @ [r]) @ D) Q" "R' = D @ Q" "\<forall>r \<in> set D. snd r \<le> e"
      "n' = n + (snd r - fst r) + size_r D" "Q = [] \<or> e < snd (hd Q)"
      using 1(1)[OF True c run] r by auto
    show ?thesis
      by (rule exI[of _ "r # D"], rule exI[of _ Q]) (use q R r True in \<open>auto simp: len_r_def\<close>)
  next
    case False
    then have e: "it' = it" "n' = n" using 1(3) by (auto simp: count_ranges.simps[of s it e n])
    have "R = [] \<or> e < snd (hd R)"
      using False cursor_not_end[OF 1(2)] cursor_deref[of s it L "hd R" "tl R"] 1(2)
      by (cases R) auto
    then show ?thesis using 1(2) e by (intro exI[of _ "[]"] exI[of _ R]) simp
  qed
qed

text \<open>The second half of \<open>count\<close>, from the beginning of a chunk.\<close>

lemma count_tail_correct:
  assumes "cursor_at s it L R" and "snd it = 0" and "ranges_ok R"
    and "count_chunks s it e n = (it3, n3)" and "count_ranges s it3 e n3 = (it4, n4)"
  shows "(if not_end s it4 \<and> fst (deref s it4) < e then n4 + (e - fst (deref s it4)) else n4) =
           n + below (elems_r R) e"
proof -
  obtain D1 R1 where 1: "cursor_at s it3 (L @ D1) R1" "R = D1 @ R1" "\<forall>r \<in> set D1. snd r \<le> e"
    "n3 = n + size_r D1"
    using count_chunks_correct[OF assms(1-4)] by blast
  obtain D2 R2 where 2: "cursor_at s it4 ((L @ D1) @ D2) R2" "R1 = D2 @ R2"
    "\<forall>r \<in> set D2. snd r \<le> e" "n4 = n3 + size_r D2" "R2 = [] \<or> e < snd (hd R2)"
    using count_ranges_correct[OF 1(1) assms(5)] by blast
  have ok: "ranges_ok ((D1 @ D2) @ R2)" using assms(3) 1(2) 2(2) by simp
  have "below (elems_r R) e = size_r (D1 @ D2) + below (elems_r R2) e"
    using below_elems_prefix[OF ok] 1(2,3) 2(2,3) by (simp add: ball_Un)
  then have b: "n + below (elems_r R) e = n4 + below (elems_r R2) e" using 1(4) 2(4) by simp
  show ?thesis
  proof (cases R2)
    case Nil
    then show ?thesis using b cursor_not_end[OF 2(1)] by simp
  next
    case (Cons r R')
    have "ranges_ok (r # R')" using ok Cons by (simp add: ranges_ok_append)
    then have "below (elems_r R2) e = e - fst r"
      using below_elems_hd[of r R' e] 2(5) Cons by simp
    moreover have "deref s it4 = r" using cursor_deref 2(1) Cons by blast
    ultimately show ?thesis using b cursor_not_end[OF 2(1)] Cons by simp
  qed
qed

text \<open>
  What \<open>count\<close> leaves out: when its first block has run to the end of a chunk, a range at the
  beginning of the next chunk that reaches up to or past the end of the interval is not looked at.
\<close>

definition count_missing :: "crv \<Rightarrow> nat \<Rightarrow> nat \<Rightarrow> nat" where
  "count_missing s a b =
     (let it = is_find s a; r = deref s it in
      if \<not> not_end s it \<or> snd r \<ge> b \<or> \<not> (a > fst r \<or> offset it \<noteq> 0) then 0
      else
        let it1 = fst (count_rest s (it_next s it) b (sub_size (snd r) (max (fst r) a))) in
        if not_end s it1 \<and> offset it1 = 0 \<and> b \<le> snd (deref s it1) then b - fst (deref s it1) else 0)"

theorem is_count_correct:
  assumes "crv_wf s" and "a \<le> b"
  shows "is_count s a b + count_missing s a b = below (elems s) b - below (elems s) a"
proof -
  obtain L R where f: "cursor_at s (is_find s a) L R" "ranges s = L @ R" "ranges_ok (L @ R)"
    "\<forall>r \<in> set L. snd r \<le> a" "\<forall>r \<in> set R. a < snd r"
    using find_cursor[OF assms(1)] by metis
  let ?it = "is_find s a"
  have "\<forall>r \<in> set L. snd r \<le> b" using f(4) assms(2) le_trans by blast
  then have el: "below (elems s) b - below (elems s) a = below (elems_r R) b - below (elems_r R) a"
    using below_elems_prefix[OF f(3)] f(2,4) by (simp add: elems_def)
  show ?thesis
  proof (cases R)
    case Nil
    then show ?thesis using cursor_not_end[OF f(1)] el by (simp add: is_count_def count_missing_def Let_def)
  next
    case (Cons r R')
    have d: "deref s ?it = r" and ne: "not_end s ?it"
      using cursor_deref cursor_not_end[OF f(1)] f(1) Cons by auto
    have ok: "ranges_ok (r # R')" "ranges_ok R'" "fst r < snd r"
      using f(3) Cons by (auto simp: ranges_ok_append ranges_ok_Cons)
    have "below (elems_r R) a = a - fst r"
      using below_elems_hd[OF ok(1)] f(5) Cons by simp
    with el have el: "below (elems s) b - below (elems s) a = below (elems_r R) b - (a - fst r)" by simp
    show ?thesis
    proof (cases "b \<le> snd r")
      case True
      then have "below (elems_r R) b = b - fst r" using below_elems_hd[OF ok(1)] Cons by simp
      then show ?thesis using el d ne True assms(2)
        by (auto simp: is_count_def count_missing_def Let_def min_def max_def)
    next
      case False
      let ?q = "snd r - max (fst r) a" and ?first = "a > fst r \<or> offset ?it \<noteq> 0"
      have "a < snd r" using f(5) Cons by simp
      then have q: "sub_size (snd r) (max (fst r) a) = ?q" "len_r r - (a - fst r) = ?q"
        "a - fst r \<le> len_r r" using ok(3) by (auto simp: len_r_def max_def)
      have bR: "below (elems_r R) b = len_r r + below (elems_r R') b"
        using below_elems_prefix[of "[r]" R' b] ok(1) False Cons by simp
      obtain it1 n1 where 1: "count_rest s (it_next s ?it) b ?q = (it1, n1)"
        by (cases "count_rest s (it_next s ?it) b ?q")
      show ?thesis
      proof (cases ?first)
        case first: True
        have "cursor_at s (it_next s ?it) (L @ [r]) R'" using cursor_next f(1) Cons by blast
        from count_rest_correct[OF this 1] obtain D R1 where c1:
          "cursor_at s it1 ((L @ [r]) @ D) R1" "R' = D @ R1" "\<forall>r \<in> set D. snd r \<le> b"
          "n1 = ?q + size_r D" "R1 = [] \<or> b \<le> snd (hd R1) \<or> snd it1 = 0" by blast
        have "below (elems_r R') b = size_r D + below (elems_r R1) b"
          using below_elems_prefix[of D R1 b] c1(2,3) ok(2) by simp
        then have tot: "below (elems s) b - below (elems s) a = n1 + below (elems_r R1) b"
          using el bR q c1(4) by linarith
        have ok1: "ranges_ok R1" using ok(2) c1(2) by (simp add: ranges_ok_append)
        show ?thesis
        proof (cases "R1 \<noteq> [] \<and> snd (hd R1) < b")
          case True
          then have z: "snd it1 = 0" using c1(5) by auto
          have d1: "snd (deref s it1) < b" "not_end s it1"
            using True cursor_deref[of s it1 _ "hd R1" "tl R1"] c1(1) cursor_not_end[OF c1(1)] by auto
          obtain it3 n3 where 3: "count_chunks s it1 b n1 = (it3, n3)" by (cases "count_chunks s it1 b n1")
          obtain it4 n4 where 4: "count_ranges s it3 b n3 = (it4, n4)" by (cases "count_ranges s it3 b n3")
          show ?thesis
            using count_tail_correct[OF c1(1) z ok1 3 4] tot d1 ne d first False 1 3 4 z q(1) ok(3)
            by (simp add: is_count_def count_missing_def Let_def offset_def)
        next
          case stop: False
          show ?thesis
          proof (cases R1)
            case Nil
            then show ?thesis using tot ne d first False 1 q(1) cursor_not_end[OF c1(1)] ok(3)
              by (simp add: is_count_def count_missing_def Let_def)
          next
            case (Cons r1 R2)
            have d1: "deref s it1 = r1" "not_end s it1" "b \<le> snd r1"
              using c1(1) Cons cursor_deref cursor_not_end[OF c1(1)] stop by auto
            then have "below (elems_r R1) b = b - fst r1" using below_elems_hd ok1 Cons by simp
            then show ?thesis using tot ne d first False 1 q(1) d1 ok(3)
              by (simp add: is_count_def count_missing_def Let_def)
          qed
        qed
      next
        case notfirst: False
        then have z: "snd ?it = 0" "a - fst r = 0" by (auto simp: offset_def)
        have okR: "ranges_ok R" using ok(1) Cons by simp
        obtain it3 n3 where 3: "count_chunks s ?it b 0 = (it3, n3)" by (cases "count_chunks s ?it b 0")
        obtain it4 n4 where 4: "count_ranges s it3 b n3 = (it4, n4)" by (cases "count_ranges s it3 b n3")
        show ?thesis
          using count_tail_correct[OF f(1) z(1) okR 3 4] el ne d notfirst False 3 4 z ok(3)
          by (simp add: is_count_def count_missing_def Let_def offset_def)
      qed
    qed
  qed
qed

lemma count_from_zero_complete:
  assumes "crv_wf s"
  shows "count_missing s 0 i = 0"
proof -
  obtain L R where f: "cursor_at s (is_find s 0) L R" "ranges_ok (L @ R)" "\<forall>r \<in> set L. snd r \<le> 0"
    using find_cursor[OF assms] by metis
  have "ranges_ok L" using f(2) by (simp add: ranges_ok_append)
  then have "L = []" using f(3) ranges_ok_nonempty[of L "hd L"] by (cases L) auto
  then have "is_find s 0 = it_begin s" using cursor_at_begin_iff[OF f(1)] by simp
  then show ?thesis by (simp add: count_missing_def Let_def offset_def)
qed

lemma is_count_below: "crv_wf s \<Longrightarrow> is_count s 0 i = below (elems s) i"
  using is_count_correct[of s 0 i] count_from_zero_complete[of s i] by simp

theorem is_unshift_correct: "crv_wf s \<Longrightarrow> is_unshift s i = unshift_pos (elems s) i"
  by (simp add: is_unshift_def is_count_below unshift_pos_def below_le)

interpretation index_renumbering: renumbering elems crv_wf is_shift is_unshift
  by unfold_locales (simp_all add: is_shift_correct is_unshift_correct)

end
