(* ===== verification/IndexSetEdit.thy ===== *)
theory IndexSetEdit
  imports IndexSetCount
begin

text \<open>
  Correctness of the operations of \<open>IndexSet\<close> that renumber the positions behind one point:
  \<open>insert_at\<close>, \<open>shift_for_insert_at\<close>, \<open>erase_at\<close> and \<open>erase_or_unshift\<close>. Each is the corresponding
  operation on sets of positions, \<open>compose_pos\<close>, \<open>shifted_pos\<close> or \<open>erased_pos\<close>.
\<close>

declare shift_until_end.simps [simp del]

section \<open>Splitting the abstract operations at a position\<close>

lemma image_add_ivl: "(\<lambda>x. x + n) ` {a ..< b} = {a + n ..< b + (n :: nat)}"
  by (metis image_add_atLeastLessThan' add.commute)

lemma split_filter:
  assumes "\<forall>x \<in> A. x < i" and "\<forall>x \<in> B. i \<le> (x :: nat)"
  shows "{x \<in> A \<union> B. x < i} = A" and "{x \<in> A \<union> B. i \<le> x} = B"
  using assms by fastforce+

lemma compose_split:
  assumes "\<forall>x \<in> A. x < i" and "\<forall>x \<in> B. i \<le> x"
  shows "compose_pos {i ..< i + n} (A \<union> B) = A \<union> {i ..< i + n} \<union> (\<lambda>x. x + n) ` B"
    and "shifted_pos {i ..< i + n} (A \<union> B) = A \<union> (\<lambda>x. x + n) ` B"
  using split_filter[OF assms] by (simp_all only: compose_ivl shifted_ivl)

lemma erased_split:
  assumes "\<forall>x \<in> A. x < i" and "\<forall>x \<in> B. i < x"
  shows "erased_pos {i} (A \<union> B) = A \<union> (\<lambda>x. x - 1) ` B"
    and "erased_pos {i} (insert i (A \<union> B)) = A \<union> (\<lambda>x. x - 1) ` B"
proof -
  have e: "{x \<in> A \<union> B. x < i} = A" "{x \<in> A \<union> B. i < x} = B" using assms by fastforce+
  have e': "{x \<in> insert i (A \<union> B). x < i} = {x \<in> A \<union> B. x < i}"
    "{x \<in> insert i (A \<union> B). i < x} = {x \<in> A \<union> B. i < x}" by auto
  show "erased_pos {i} (A \<union> B) = A \<union> (\<lambda>x. x - 1) ` B" unfolding erased_single e ..
  show "erased_pos {i} (insert i (A \<union> B)) = A \<union> (\<lambda>x. x - 1) ` B"
    unfolding erased_single e' e ..
qed

section \<open>Shifting the tail\<close>

lemma shift_until_end_correct:
  assumes "cursor_at s it L R" and "\<forall>r \<in> set R. 0 \<le> int (fst r) + d \<and> fst r \<le> snd r"
  shows "ranges (shift_until_end s it d) = L @ map (shift_r d) R"
    and "chunks_ok (shift_until_end s it d)" and "same_shape s (shift_until_end s it d)"
proof -
  have "ranges (shift_until_end s it d) = L @ map (shift_r d) R \<and>
      chunks_ok (shift_until_end s it d) \<and> same_shape s (shift_until_end s it d)"
    using assms
  proof (induction R arbitrary: s it L)
    case Nil
    then show ?case using cursor_not_end[OF Nil(1)]
      by (auto simp: cursor_at_def shift_until_end.simps[of s it d])
  next
    case (Cons r R)
    let ?s = "it_shift s it d"
    have c: "cursor_at ?s it L (shift_r d r # R)" "same_shape s ?s"
      using cursor_shift[OF Cons.prems(1)] Cons.prems(2) by auto
    have "cursor_at ?s (it_next ?s it) (L @ [shift_r d r]) R" by (rule cursor_next[OF c(1)])
    from Cons.IH[OF this] have
      "ranges (shift_until_end ?s (it_next ?s it) d) = L @ map (shift_r d) (r # R)"
      "chunks_ok (shift_until_end ?s (it_next ?s it) d)"
      "same_shape ?s (shift_until_end ?s (it_next ?s it) d)"
      using Cons.prems(2) by auto
    moreover have "shift_until_end s it d = shift_until_end ?s (it_next ?s it) d"
      using cursor_not_end[OF Cons.prems(1)] by (simp add: shift_until_end.simps[of s it d] Let_def)
    ultimately show ?case using same_shape_trans[OF c(2)] by simp
  qed
  then show "ranges (shift_until_end s it d) = L @ map (shift_r d) R"
    "chunks_ok (shift_until_end s it d)" "same_shape s (shift_until_end s it d)" by auto
qed

lemma up_precond: "ranges_ok R \<Longrightarrow> \<forall>r \<in> set R. 0 \<le> int (fst r) + int n \<and> fst r \<le> snd r"
  by (simp add: ranges_ok_def less_imp_le)

lemma ranges_ok_split_up:
  assumes "ranges_ok (L @ R)"
  shows "ranges_ok (L @ map (shift_r (int n)) R)"
  using assms ranges_ok_shift_up[of R n] by (fastforce simp: ranges_ok_append)

section \<open>insert_at\<close>

lemma add_count_loop_correct:
  assumes "crv_wf s" and "cursor_at s it L R"
    and "0 < n \<Longrightarrow> \<forall>r \<in> set L. snd r \<le> i" and "0 < n \<Longrightarrow> \<forall>r \<in> set R. i < snd r"
    and "\<forall>x \<in> elems s. x < i \<or> i + n \<le> x"
  shows "crv_wf (add_count_loop s it i n) \<and> elems (add_count_loop s it i n) = elems s \<union> {i ..< i + n}"
  using assms
proof (induction n arbitrary: s it L R i)
  case 0
  then show ?case by simp
next
  case (Suc n)
  obtain s' p where d: "do_add s it i = (s', p)" by (cases "do_add s it i")
  have a: "crv_wf s'" "elems s' = insert i (elems s)" "stands_on s' p i"
    using do_add_added[OF Suc.prems(1,2), of i] Suc.prems(3,4) d by (auto simp: added_def)
  then obtain L' r R' where c: "cursor_at s' p L' (r # R')" "fst r \<le> i" "i < snd r"
    unfolding stands_on_def by blast
  have c': "cursor_at s' (it_next s' p) (L' @ [r]) R'" by (rule cursor_next[OF c(1)])
  have rs: "ranges s' = L' @ r # R'" "ranges_ok (L' @ r # R')"
    using c(1) a(1) by (auto simp: cursor_at_def crv_wf_def)
  have gap: "\<forall>x \<in> elems s'. x < Suc i \<or> Suc i + n \<le> x" using Suc.prems(5) a(2) by auto
  have "\<forall>x \<in> set (L' @ [r]). snd x \<le> i + 1" if "0 < n"
  proof -
    have "i + 1 \<notin> elems s'" using gap that by force
    moreover have "i + 1 \<in> elems s'" if "i + 1 < snd r"
      using that c(2) by (simp add: elems_def rs(1))
    ultimately have "snd r \<le> i + 1" using not_less by blast
    moreover have "\<forall>x \<in> set L'. snd x < fst r" using rs(2) by (simp add: ranges_ok_append)
    ultimately show ?thesis using c(2) by fastforce
  qed
  moreover have "\<forall>x \<in> set R'. i + 1 < snd x"
    using rs(2) c(3) ranges_ok_nonempty[of R'] by (fastforce simp: ranges_ok_append ranges_ok_Cons)
  ultimately have "crv_wf (add_count_loop s' (it_next s' p) (i + 1) n) \<and>
      elems (add_count_loop s' (it_next s' p) (i + 1) n) = elems s' \<union> {i + 1 ..< i + 1 + n}"
    using Suc.IH[OF a(1) c'] gap by simp
  moreover have "insert i (elems s) \<union> {Suc i ..< Suc i + n} = elems s \<union> {i ..< i + Suc n}" by auto
  ultimately show ?case using d a(2) by simp
qed

theorem is_insert_at_correct:
  assumes "crv_wf s"
  shows "crv_wf (is_insert_at s i n)"
    and "elems (is_insert_at s i n) = compose_pos {i ..< i + n} (elems s)"
proof -
  let ?it = "is_find s i"
  obtain L R where f: "cursor_at s ?it L R" "ranges s = L @ R" "ranges_ok (L @ R)"
    "\<forall>r \<in> set L. snd r \<le> i" "\<forall>r \<in> set R. i < snd r"
    using find_cursor[OF assms] by metis
  have lo: "\<forall>x \<in> elems_r L. x < i" using elems_r_lt_of_snd_le[OF f(4)] by blast
  have "crv_wf (is_insert_at s i n) \<and>
    elems (is_insert_at s i n) = compose_pos {i ..< i + n} (elems s)"
  proof (cases R)
    case Nil
    have el: "elems s = elems_r L" using f(2) Nil by (simp add: elems_def)
    have "crv_wf (add_count_loop s ?it i n) \<and>
        elems (add_count_loop s ?it i n) = elems s \<union> {i ..< i + n}"
      by (rule add_count_loop_correct[OF assms f(1)]) (use f Nil lo el in auto)
    then show ?thesis
      using compose_split(1)[OF lo, of "{}" n] cursor_not_end[OF f(1)] Nil el
      by (simp add: is_insert_at_def Let_def)
  next
    case (Cons r R')
    have d: "deref s ?it = r" "not_end s ?it"
      using f(1) Cons cursor_deref cursor_not_end[OF f(1)] by auto
    have ok: "ranges_ok (r # R')" "fst r < snd r" "i < snd r"
      using f(3,5) Cons by (auto simp: ranges_ok_append ranges_ok_Cons)
    have hi: "\<forall>x \<in> elems_r R'. i < x" using split_members(2)[OF f(3-5)] Cons by fastforce
    show ?thesis
    proof (cases "fst r \<le> i")
      case True
      let ?s1 = "it_adjust s ?it 0 (int n)" and ?q = "(fst r, snd r + n)"
      let ?s2 = "shift_until_end ?s1 (it_next ?s1 ?it) (int n)"
      have c1: "cursor_at ?s1 ?it L (?q # R')"
        using cursor_adjust(1)[of s ?it L r R' 0 "int n"] f(1) Cons ok(2) by simp
      have okR: "ranges_ok R'" using ok(1) by (simp add: ranges_ok_Cons)
      have s2: "ranges ?s2 = (L @ [?q]) @ map (shift_r (int n)) R'" "chunks_ok ?s2"
        using shift_until_end_correct[OF cursor_next[OF c1] up_precond[OF okR]] by auto
      have "ranges_ok (L @ ?q # map (shift_r (int n)) R')"
        using f(3) Cons okR by (auto simp: ranges_ok_append ranges_ok_Cons ranges_ok_shift_up; fastforce)
      then have wf: "crv_wf ?s2" using s2 by (simp add: crv_wf_def)
      have "elems s = elems_r L \<union> ({fst r ..< i} \<union> ({i ..< snd r} \<union> elems_r R'))"
        using f(2) Cons True ok(3) by (simp add: elems_def) (metis Un_assoc ivl_disj_un_two(3) less_imp_le)
      then have "compose_pos {i ..< i + n} (elems s) =
          compose_pos {i ..< i + n} ((elems_r L \<union> {fst r ..< i}) \<union> ({i ..< snd r} \<union> elems_r R'))"
        by (simp add: Un_assoc)
      also have "\<dots> = (elems_r L \<union> {fst r ..< i}) \<union> {i ..< i + n} \<union>
          (\<lambda>x. x + n) ` ({i ..< snd r} \<union> elems_r R')"
        by (rule compose_split(1)) (use lo hi in \<open>auto simp: less_imp_le\<close>)
      also have "\<dots> = elems_r L \<union> ({fst r ..< i} \<union> {i ..< i + n} \<union> {i + n ..< snd r + n}) \<union>
          (\<lambda>x. x + n) ` elems_r R'"
        by (simp add: image_Un image_add_ivl Un_assoc)
      also have "{fst r ..< i} \<union> {i ..< i + n} \<union> {i + n ..< snd r + n} = {fst r ..< snd r + n}"
        using True ok(3) by auto
      finally have "compose_pos {i ..< i + n} (elems s) = elems ?s2"
        using s2(1) by (simp add: elems_def elems_r_shift_up Un_assoc)
      then show ?thesis using wf d True by (simp add: is_insert_at_def Let_def)
    next
      case False
      let ?s1 = "it_shift s ?it (int n)"
      let ?s2 = "shift_until_end ?s1 (it_next ?s1 ?it) (int n)"
      have okR: "ranges_ok R" using f(3) by (simp add: ranges_ok_append)
      have "?s2 = shift_until_end s ?it (int n)"
        using d by (simp add: shift_until_end.simps[of s ?it "int n"] Let_def)
      then have s2: "ranges ?s2 = L @ map (shift_r (int n)) R" "chunks_ok ?s2" "same_shape s ?s2"
        using shift_until_end_correct[OF f(1) up_precond[OF okR]] by simp_all
      have wf: "crv_wf ?s2" using s2 ranges_ok_split_up[OF f(3)] by (simp add: crv_wf_def)
      have c2: "cursor_at ?s2 ?it L (map (shift_r (int n)) R)"
        by (rule cursor_same_shape[OF f(1) s2(3,2,1)]) simp
      have hiR: "\<forall>x \<in> elems_r R. i < x" using split_members(3)[OF f(3-5) Cons] False by auto
      have el2: "elems ?s2 = elems_r L \<union> (\<lambda>x. x + n) ` elems_r R"
        using s2(1) by (simp add: elems_def elems_r_shift_up)
      have gap: "\<forall>x \<in> elems ?s2. x < i \<or> i + n \<le> x" using lo hiR unfolding el2 by fastforce
      have "crv_wf (add_count_loop ?s2 ?it i n) \<and>
          elems (add_count_loop ?s2 ?it i n) = elems ?s2 \<union> {i ..< i + n}"
        by (rule add_count_loop_correct[OF wf c2 f(4) _ gap]) (use f(5) in \<open>auto simp: trans_less_add1\<close>)
      moreover have "compose_pos {i ..< i + n} (elems s) = elems ?s2 \<union> {i ..< i + n}"
        using compose_split(1)[OF lo, of "elems_r R" n] hiR f(2) el2
        by (simp add: elems_def less_imp_le Un_ac)
      ultimately show ?thesis using d False by (simp add: is_insert_at_def Let_def)
    qed
  qed
  then show "crv_wf (is_insert_at s i n)"
    "elems (is_insert_at s i n) = compose_pos {i ..< i + n} (elems s)" by auto
qed

section \<open>shift_for_insert_at\<close>

theorem is_shift_for_insert_at_correct:
  assumes "crv_wf s" and "0 < n"
  shows "crv_wf (is_shift_for_insert_at s i n)"
    and "elems (is_shift_for_insert_at s i n) = shifted_pos {i ..< i + n} (elems s)"
proof -
  let ?it = "is_find s i" and ?s1 = "shift_until_end s (is_find s i) (int n)"
  obtain L R where f: "cursor_at s ?it L R" "ranges s = L @ R" "ranges_ok (L @ R)"
    "\<forall>r \<in> set L. snd r \<le> i" "\<forall>r \<in> set R. i < snd r"
    using find_cursor[OF assms(1)] by metis
  have lo: "\<forall>x \<in> elems_r L. x < i" using elems_r_lt_of_snd_le[OF f(4)] by blast
  have "crv_wf (is_shift_for_insert_at s i n) \<and>
    elems (is_shift_for_insert_at s i n) = shifted_pos {i ..< i + n} (elems s)"
  proof (cases R)
    case Nil
    then have "is_shift_for_insert_at s i n = s"
      using cursor_not_end[OF f(1)] by (simp add: is_shift_for_insert_at_def)
    then show ?thesis
      using assms compose_split(2)[OF lo, of "{}" n] f(2) Nil by (simp add: elems_def)
  next
    case (Cons r R')
    have ok: "fst r < snd r" "i < snd r" "ranges_ok R'" "ranges_ok R"
      using f(3,5) Cons by (auto simp: ranges_ok_append ranges_ok_Cons)
    have s1: "ranges ?s1 = L @ map (shift_r (int n)) R" "chunks_ok ?s1" "same_shape s ?s1"
      using shift_until_end_correct[OF f(1) up_precond[OF ok(4)]] by auto
    have c1: "cursor_at ?s1 ?it L (shift_r (int n) r # map (shift_r (int n)) R')"
      by (rule cursor_same_shape[OF f(1) s1(3,2)]) (use s1 Cons in simp_all)
    have d: "deref ?s1 ?it = (fst r + n, snd r + n)"
      using cursor_deref[OF c1] by (simp add: shift_r_def)
    have ne: "not_end s ?it" using cursor_not_end[OF f(1)] Cons by simp
    have okS: "ranges_ok (L @ map (shift_r (int n)) R)" by (rule ranges_ok_split_up[OF f(3)])
    show ?thesis
    proof (cases "fst r < i")
      case False
      then have hiR: "\<forall>x \<in> elems_r R. i \<le> x"
        using f(3) Cons by (fastforce simp: elems_r_def ranges_ok_append ranges_ok_Cons)
      have "is_shift_for_insert_at s i n = ?s1"
        using ne d False by (simp add: is_shift_for_insert_at_def Let_def)
      then show ?thesis
        using s1 okS compose_split(2)[OF lo hiR, of n] f(2)
        by (simp add: crv_wf_def elems_def elems_r_shift_up)
    next
      case True
      let ?s2 = "it_set ?s1 ?it (fst r) i" and ?R = "map (shift_r (int n)) R'"
      obtain s3 it3 where e: "crv_insert ?s2 (it_next ?s2 ?it) (i + n, snd r + n) = (s3, it3)"
        by (cases "crv_insert ?s2 (it_next ?s2 ?it) (i + n, snd r + n)")
      have c2: "cursor_at ?s2 (it_next ?s2 ?it) (L @ [(fst r, i)]) ?R"
        by (rule cursor_next[OF cursor_set(1)[OF c1]])
      have ok3: "ranges_ok ((L @ [(fst r, i)]) @ (i + n, snd r + n) # ?R)"
        using okS Cons True ok(2) assms(2) f(3)
        by (auto simp: ranges_ok_append ranges_ok_Cons; fastforce)
      have c3: "cursor_at s3 it3 (L @ [(fst r, i)]) ((i + n, snd r + n) # ?R)"
        by (rule insert_cursor[OF c2 fits_of_ranges_ok[OF ok3] e])
      have r3: "is_shift_for_insert_at s i n = s3"
        using ne d True e by (simp add: is_shift_for_insert_at_def Let_def)
      have wf: "crv_wf s3" using c3 ok3 by (simp add: cursor_at_def crv_wf_def)
      have hi: "\<forall>x \<in> elems_r R'. i < x" using split_members(2)[OF f(3-5)] Cons by fastforce
      have "elems s = elems_r L \<union> ({fst r ..< i} \<union> ({i ..< snd r} \<union> elems_r R'))"
        using f(2) Cons True ok(2) by (simp add: elems_def) (metis Un_assoc ivl_disj_un_two(3) less_imp_le)
      then have "shifted_pos {i ..< i + n} (elems s) =
          shifted_pos {i ..< i + n} ((elems_r L \<union> {fst r ..< i}) \<union> ({i ..< snd r} \<union> elems_r R'))"
        by (simp add: Un_assoc)
      also have "\<dots> = (elems_r L \<union> {fst r ..< i}) \<union> (\<lambda>x. x + n) ` ({i ..< snd r} \<union> elems_r R')"
        by (rule compose_split(2)) (use lo hi in \<open>auto simp: less_imp_le\<close>)
      also have "\<dots> = elems s3"
        using c3 by (simp add: elems_def cursor_at_def elems_r_shift_up image_Un image_add_ivl Un_assoc)
      finally show ?thesis using wf r3 by simp
    qed
  qed
  then show "crv_wf (is_shift_for_insert_at s i n)"
    "elems (is_shift_for_insert_at s i n) = shifted_pos {i ..< i + n} (elems s)" by auto
qed

section \<open>erase_at and erase_or_unshift\<close>

lemma shift_down_tail:
  assumes "cursor_at s it L R" and "ranges_ok (L @ map (shift_r (-1)) R)" and "ranges_ok R"
    and "\<forall>r \<in> set R. 0 < fst r"
  shows "crv_wf (shift_until_end s it (-1))"
    and "elems (shift_until_end s it (-1)) = elems_r L \<union> (\<lambda>x. x - 1) ` elems_r R"
proof -
  have "\<forall>r \<in> set R. 0 \<le> int (fst r) + -1 \<and> fst r \<le> snd r"
    using assms(3,4) by (fastforce simp: ranges_ok_def less_imp_le)
  from shift_until_end_correct[OF assms(1) this] assms(2)
  show "crv_wf (shift_until_end s it (-1))"
    "elems (shift_until_end s it (-1)) = elems_r L \<union> (\<lambda>x. x - 1) ` elems_r R"
    using elems_r_shift_down[OF assms(4)] by (simp_all add: crv_wf_def elems_def)
qed

lemma ranges_ok_down:
  assumes "ranges_ok L" and "ranges_ok R" and "\<forall>l \<in> set L. \<forall>r \<in> set R. Suc (snd l) < fst r"
  and "\<forall>r \<in> set R. 0 < fst r"
  shows "ranges_ok (L @ map (shift_r (-1)) R)"
  using assms ranges_ok_shift_down[OF assms(2,4)] by (fastforce simp: ranges_ok_append)

lemma dec_ivl: "0 < a \<Longrightarrow> (\<lambda>x. x - 1) ` {a ..< b} = {a - 1 ..< b - (1 :: nat)}"
proof -
  assume a: "0 < a"
  have "x \<in> (\<lambda>x. x - 1) ` {a ..< b}" if "x \<in> {a - 1 ..< b - 1}" for x
    by (rule image_eqI[of _ _ "Suc x"]) (use that a in auto)
  then show ?thesis using a by fastforce
qed

lemma do_erase_correct:
  assumes wf: "crv_wf s" and c: "cursor_at s it L (r # R)"
    and lo: "\<forall>l \<in> set L. snd l \<le> i" and r: "i < snd r"
  shows "crv_wf (do_erase s it i)" and "elems (do_erase s it i) = erased_pos {i} (elems s)"
proof -
  have rs: "ranges s = L @ r # R" and ok: "ranges_ok (L @ r # R)"
    using wf c by (auto simp: crv_wf_def cursor_at_def)
  have okL: "ranges_ok L" and okr: "ranges_ok (r # R)" "ranges_ok R" "fst r < snd r"
    using ok by (auto simp: ranges_ok_append ranges_ok_Cons)
  have gap: "\<forall>x \<in> set R. snd r < fst x" "\<forall>l \<in> set L. snd l < fst r"
    using ok by (auto simp: ranges_ok_append ranges_ok_Cons)
  have el: "elems s = elems_r L \<union> ({fst r ..< snd r} \<union> elems_r R)" by (simp add: elems_def rs)
  have loL: "\<forall>x \<in> elems_r L. x < i" using elems_r_lt_of_snd_le[OF lo] by blast
  have hiR: "\<forall>x \<in> elems_r R. i < x" using gap(1) r by (fastforce simp: elems_r_def)
  have posR: "\<forall>x \<in> set R. 0 < fst x" using gap(1) by fastforce
  have farR: "\<forall>l \<in> set L. \<forall>x \<in> set R. Suc (snd l) < fst x" using gap okr(3) by fastforce
  have d: "deref s it = r" by (rule cursor_deref[OF c])
  have nb: "it \<noteq> it_begin s \<longleftrightarrow> L \<noteq> []" using cursor_at_begin_iff[OF c] by simp
  have "crv_wf (do_erase s it i) \<and> elems (do_erase s it i) = erased_pos {i} (elems s)"
  proof (cases "fst r \<le> i")
    case True
    have memb: "elems s = insert i ((elems_r L \<union> {fst r ..< i}) \<union> ({Suc i ..< snd r} \<union> elems_r R))"
    proof -
      have "{fst r ..< snd r} = insert i ({fst r ..< i} \<union> {Suc i ..< snd r})" using True r by auto
      then show ?thesis unfolding el by (simp add: Un_ac)
    qed
    have E: "erased_pos {i} (elems s) =
        (elems_r L \<union> {fst r ..< i}) \<union> (\<lambda>x. x - 1) ` ({Suc i ..< snd r} \<union> elems_r R)"
      unfolding memb by (rule erased_split(2)) (use loL hiR in auto)
    also have "\<dots> = elems_r L \<union> ({fst r ..< i} \<union> {i ..< snd r - 1}) \<union> (\<lambda>x. x - 1) ` elems_r R"
      using dec_ivl[of "Suc i" "snd r"] by (simp add: image_Un Un_ac)
    also have "{fst r ..< i} \<union> {i ..< snd r - 1} = {fst r ..< snd r - 1}" using True r by auto
    finally have E: "erased_pos {i} (elems s) =
        elems_r L \<union> {fst r ..< snd r - 1} \<union> (\<lambda>x. x - 1) ` elems_r R" .
    show ?thesis
    proof (cases "fst r + 1 = snd r")
      case single: True
      obtain s' it' where e: "crv_erase s it = (s', it')" by (cases "crv_erase s it")
      have "cursor_at s' it' L R" by (rule erase_cursor[OF c e])
      from shift_down_tail[OF this ranges_ok_down[OF okL okr(2) farR posR] okr(2) posR]
      have "crv_wf (do_erase s it i)"
        "elems (do_erase s it i) = elems_r L \<union> (\<lambda>x. x - 1) ` elems_r R"
        using d True single e by (simp_all add: do_erase_def Let_def)
      then show ?thesis using E single by simp
    next
      case False
      let ?s1 = "it_adjust s it 0 (-1)" and ?q = "(fst r, snd r - 1)"
      have "cursor_at ?s1 it L (?q # R)"
        using cursor_adjust(1)[OF c, of 0 "-1"] okr(3) by simp
      then have c1: "cursor_at ?s1 (it_next ?s1 it) (L @ [?q]) R" by (rule cursor_next)
      have "ranges_ok ((L @ [?q]) @ map (shift_r (-1)) R)"
        by (rule ranges_ok_down[OF _ okr(2) _ posR])
          (use okL okr(3) gap farR False in \<open>auto simp: ranges_ok_append\<close>)
      from shift_down_tail[OF c1 this okr(2) posR]
      have "crv_wf (do_erase s it i)"
        "elems (do_erase s it i) = elems_r (L @ [?q]) \<union> (\<lambda>x. x - 1) ` elems_r R"
        using d True False by (simp_all add: do_erase_def Let_def)
      then show ?thesis using E by simp
    qed
  next
    case False
    then have hir: "\<forall>x \<in> {fst r ..< snd r} \<union> elems_r R. i < x" using hiR by auto
    have "erased_pos {i} (elems s) = elems_r L \<union> (\<lambda>x. x - 1) ` ({fst r ..< snd r} \<union> elems_r R)"
      unfolding el by (rule erased_split(1)[OF loL hir])
    then have E: "erased_pos {i} (elems s) =
        elems_r L \<union> {fst r - 1 ..< snd r - 1} \<union> (\<lambda>x. x - 1) ` elems_r R"
      using dec_ivl[of "fst r" "snd r"] False by (simp add: image_Un Un_ac)
    have posr: "\<forall>x \<in> set (r # R). 0 < fst x" using posR False by auto
    show ?thesis
    proof (cases "L \<noteq> [] \<and> snd (last L) + 1 = fst r")
      case True
      then obtain L' l where l: "L = L' @ [l]" "Suc (snd l) = fst r" by (cases L rule: rev_cases) auto
      let ?p = "it_prev s it"
      let ?s1 = "it_adjust s ?p 0 (int (snd r - fst r))" and ?q = "(fst l, snd r - 1)"
      have p: "cursor_at s ?p L' (l # r # R)" using cursor_prev c l(1) by blast
      have fl: "fst l < snd l" using okL l(1) by (simp add: ranges_ok_append)
      have off: "add_off (snd l) (int (snd r - fst r)) = snd r - 1"
        using l(2) okr(3) by (simp del: of_nat_diff)
      have s1: "cursor_at ?s1 ?p L' (?q # r # R)" "same_shape s ?s1"
        using cursor_adjust[OF p, of 0 "int (snd r - fst r)"] fl off
        by (simp_all del: of_nat_diff)
      have it1: "cursor_at ?s1 it (L' @ [?q]) (r # R)"
        by (rule cursor_same_shape[OF c s1(2)]) (use s1(1) l(1) in \<open>auto simp: cursor_at_def\<close>)
      obtain s2 it2 where e: "crv_erase ?s1 it = (s2, it2)" by (cases "crv_erase ?s1 it")
      have c2: "cursor_at s2 it2 (L' @ [?q]) R" by (rule erase_cursor[OF it1 e])
      have "fst l < snd r - 1" using l(2) fl okr(3) by linarith
      then have "ranges_ok (L' @ [?q])" using okL l(1) by (simp add: ranges_ok_append)
      moreover have "Suc (snd ?q) = snd r" using okr(3) by simp
      then have "\<forall>l \<in> set (L' @ [?q]). \<forall>x \<in> set R. Suc (snd l) < fst x"
        using gap(1) farR l(1) by auto
      ultimately have "ranges_ok ((L' @ [?q]) @ map (shift_r (-1)) R)"
        by (intro ranges_ok_down[OF _ okr(2) _ posR])
      from shift_down_tail[OF c2 this okr(2) posR]
      have "crv_wf (do_erase s it i)"
        "elems (do_erase s it i) = elems_r (L' @ [?q]) \<union> (\<lambda>x. x - 1) ` elems_r R"
        using d False True l nb cursor_deref[OF p] e by (simp_all add: do_erase_def Let_def)
      moreover have "{fst l ..< snd r - 1} = {fst l ..< snd l} \<union> {fst r - 1 ..< snd r - 1}"
        using l(2) fl okr(3) by auto
      ultimately show ?thesis using E l(1) by (simp add: Un_assoc)
    next
      case apart: False
      have "do_erase s it i = shift_until_end s it (-1)"
      proof (cases L rule: rev_cases)
        case Nil
        then show ?thesis using d False nb by (simp add: do_erase_def Let_def)
      next
        case (snoc L' l)
        have "deref s (it_prev s it) = l" using cursor_deref cursor_prev c snoc by blast
        then show ?thesis using d False nb apart snoc by (simp add: do_erase_def Let_def)
      qed
      moreover have "\<forall>l \<in> set L. Suc (snd l) < fst r"
      proof (cases L rule: rev_cases)
        case (snoc L' l)
        have "Suc (snd l) < fst r" using gap(2) apart snoc by auto
        moreover have "\<forall>x \<in> set L'. snd x < snd l"
          using okL snoc by (fastforce simp: ranges_ok_append)
        ultimately show ?thesis unfolding snoc by fastforce
      qed simp
      then have "ranges_ok (L @ map (shift_r (-1)) (r # R))"
        by (intro ranges_ok_down[OF okL okr(1) _ posr]) (use farR in auto)
      from shift_down_tail[OF c this okr(1) posr]
      have "crv_wf (shift_until_end s it (-1))"
        "elems (shift_until_end s it (-1)) = elems_r L \<union> (\<lambda>x. x - 1) ` elems_r (r # R)" .
      ultimately show ?thesis using E dec_ivl[of "fst r" "snd r"] False by (simp add: image_Un Un_assoc)
    qed
  qed
  then show "crv_wf (do_erase s it i)" "elems (do_erase s it i) = erased_pos {i} (elems s)" by auto
qed

lemma erased_beyond: "\<forall>x \<in> U. x < i \<Longrightarrow> erased_pos {i} U = U"
  using erased_split(1)[of U i "{}"] by simp

theorem is_erase_at_correct:
  assumes "crv_wf s"
  shows "crv_wf (is_erase_at s i)" and "elems (is_erase_at s i) = erased_pos {i} (elems s)"
proof -
  obtain L R where f: "cursor_at s (is_find s i) L R" "ranges s = L @ R"
    "\<forall>r \<in> set L. snd r \<le> i" "\<forall>r \<in> set R. i < snd r"
    using find_cursor[OF assms] by metis
  have "crv_wf (is_erase_at s i) \<and> elems (is_erase_at s i) = erased_pos {i} (elems s)"
  proof (cases R)
    case Nil
    then show ?thesis
      using assms cursor_not_end[OF f(1)] erased_beyond elems_r_lt_of_snd_le[OF f(3)] f(2)
      by (simp add: is_erase_at_def elems_def)
  next
    case (Cons r R')
    then show ?thesis
      using do_erase_correct[OF assms, of "is_find s i" L r R' i] f cursor_not_end[OF f(1)]
      by (simp add: is_erase_at_def)
  qed
  then show "crv_wf (is_erase_at s i)" "elems (is_erase_at s i) = erased_pos {i} (elems s)" by auto
qed

theorem is_erase_or_unshift_correct:
  assumes "crv_wf s" and "is_erase_or_unshift s i = (s', k)"
  shows "crv_wf s'" and "elems s' = erased_pos {i} (elems s)"
    and "k = (if i \<in> elems s then npos else unshift_pos (elems s) i)"
proof -
  obtain it1 k1 where 1: "unshift_chunks s (it_begin s) i i = (it1, k1)"
    by (cases "unshift_chunks s (it_begin s) i i")
  obtain it2 k2 where 2: "unshift_ranges s it1 i k1 = (it2, k2)" by (cases "unshift_ranges s it1 i k1")
  have ok: "ranges_ok (ranges s)" using assms(1) by (rule crv_wfD)
  obtain L1 R1 where c1: "cursor_at s it1 L1 R1" "L1 @ R1 = ranges s"
    "\<forall>r \<in> set L1. snd r \<le> i" "k1 = i - size_r L1"
    using unshift_chunks_correct[OF cursor_begin[OF crv_wfD(1)[OF assms(1)]] snd_it_begin _ _ _ 1] ok
    by auto
  obtain L R where c: "cursor_at s it2 L R" "L @ R = ranges s" "\<forall>r \<in> set L. snd r \<le> i"
    "R = [] \<or> i < snd (hd R)" "k2 = i - size_r L"
    using unshift_ranges_correct[OF c1(1) _ c1(3,4) 2] c1(2) ok by auto
  have okLR: "ranges_ok (L @ R)" using ok c(2) by simp
  have el: "elems s = elems_r (L @ R)" using c(2) by (simp add: elems_def)
  have b: "below (elems s) i = size_r L + below (elems_r R) i"
    unfolding el by (rule below_elems_prefix[OF okLR c(3)])
  have "crv_wf s' \<and> elems s' = erased_pos {i} (elems s) \<and>
      k = (if i \<in> elems s then npos else unshift_pos (elems s) i)"
  proof (cases R)
    case Nil
    then have e: "s' = s" "k = k2"
      using assms(2) 1 2 cursor_not_end[OF c(1)] by (auto simp: is_erase_or_unshift_def)
    have lt: "\<forall>x \<in> elems s. x < i" using elems_r_lt_of_snd_le[OF c(3)] el Nil by simp
    then show ?thesis using e assms(1) erased_beyond[OF lt] b c(5) Nil
      by (auto simp: unshift_pos_def)
  next
    case (Cons r R')
    have i: "i < snd r" using c(4) Cons by simp
    have d: "deref s it2 = r" using cursor_deref c(1) Cons by blast
    have e: "s' = do_erase s it2 i" "k = (if fst r \<le> i then npos else k2)"
      using assms(2) 1 2 cursor_not_end[OF c(1)] Cons d by (auto simp: is_erase_or_unshift_def)
    have R: "\<forall>x \<in> set R. i < snd x"
      using okLR Cons i ranges_ok_hd_le[of r R'] by (fastforce simp: ranges_ok_append)
    have "i \<in> elems s \<longleftrightarrow> fst r \<le> i" using split_members(4)[OF okLR c(3) R] el Cons by simp
    moreover have "below (elems_r R) i = 0" if "i < fst r"
      by (rule below_none) (use split_members(3)[OF okLR c(3) R Cons that] in \<open>auto simp: less_imp_le\<close>)
    ultimately show ?thesis
      using do_erase_correct[OF assms(1) _ c(3) i, of it2 R'] c(1,5) Cons e b
      by (simp add: unshift_pos_def)
  qed
  then show "crv_wf s'" "elems s' = erased_pos {i} (elems s)"
    "k = (if i \<in> elems s then npos else unshift_pos (elems s) i)" by auto
qed

end
