(* ===== verification/IndexSetBulk.thy ===== *)
theory IndexSetBulk
  imports IndexSetEdit
begin

text \<open>
  Correctness of the operations that merge two index sets in one pass and rebuild the vector with
  the builder: \<open>insert_at\<close>, \<open>shift_for_insert_at\<close> and \<open>erase_at\<close> on a set of positions, and
  \<open>add_shifted_by\<close>. Each loop pushes an increasing list of indices; its members are what the
  operation on sets of positions asks for.
\<close>

declare sub_size_le [simp]

section \<open>Recursion equations of the renumberings\<close>

lemma shift_pos_insert:
  assumes "finite Y" and "y \<le> i" and "\<forall>z \<in> Y. y < z"
  shows "shift_pos (insert y Y) i = shift_pos Y (Suc i)"
proof (rule shift_pos_eqI)
  let ?j = "shift_pos Y (Suc i)"
  have j: "?j \<notin> Y" "?j = Suc i + below Y ?j" using shift_pos_spec[OF assms(1), of "Suc i"] by auto
  then have gt: "y < ?j" using assms(2) by simp
  then show "?j \<notin> insert y Y" using j(1) by simp
  have "below (insert y Y) ?j = below {y} ?j + below Y ?j"
    using below_Un[of "{y}" Y ?j] assms(3) by auto
  then show "?j = i + below (insert y Y) ?j" using j(2) gt by (simp add: below_single)
qed

lemma shift_pos_below: "\<forall>z \<in> Y. i < z \<Longrightarrow> shift_pos Y i = i"
  by (rule shift_pos_eqI) (auto intro!: below_none simp: less_imp_le)

lemma below_insert: "finite Y \<Longrightarrow> y \<notin> Y \<Longrightarrow> below (insert y Y) i = below Y i + (if y < i then 1 else 0)"
  using below_Un[of "{y}" Y i] by (simp add: below_single)

lemma sorted_shifted: "finite Y \<Longrightarrow> sorted_wrt (<) xs \<Longrightarrow> sorted_wrt (<) (map (\<lambda>x. shift_pos Y (x + k)) xs)"
  by (simp add: sorted_wrt_map) (erule sorted_wrt_mono_rel[rotated], simp add: shift_strict)

lemma build_indices_elems:
  "sorted_wrt (<) xs \<Longrightarrow> elems (finalize (push_indices (builder_init e) xs)) = set xs"
  using build_indices_wf(2) by (simp add: elems_def)

section \<open>insert_at with a set\<close>

lemma insert_all_loop_Nil1: "insert_all_loop [] ys k b = push_indices b ys"
  by simp

lemma insert_all_loop_Nil2: "insert_all_loop xs [] k b = push_indices b (map (\<lambda>x. x + k) xs)"
  by (cases xs) simp_all

lemma insert_all_loop_correct:
  assumes "sorted_wrt (<) xs" and "sorted_wrt (<) ys"
  shows "\<exists>zs. insert_all_loop xs ys k b = push_indices b zs \<and> sorted_wrt (<) zs \<and>
           set zs = set ys \<union> (\<lambda>x. shift_pos (set ys) (x + k)) ` set xs"
  using assms
proof (induction xs ys k b rule: insert_all_loop.induct)
  case (1 x xs y ys k b)
  show ?case
  proof (cases "x + k < y")
    case True
    obtain zs where z: "insert_all_loop xs (y # ys) k (push_index b (x + k)) =
        push_indices (push_index b (x + k)) zs" "sorted_wrt (<) zs"
      "set zs = set (y # ys) \<union> (\<lambda>x. shift_pos (set (y # ys)) (x + k)) ` set xs"
      using "1.IH"(1)[OF True] "1.prems" by auto
    have lt: "\<forall>z \<in> set (y # ys). x + k < z" using True "1.prems"(2) by auto
    have self: "shift_pos (set (y # ys)) (x + k) = x + k" by (rule shift_pos_below[OF lt])
    have "x + k < shift_pos (set (y # ys)) (x' + k)" if "x' \<in> set xs" for x'
      using shift_strict[of "set (y # ys)" "x + k" "x' + k"] that "1.prems"(1) self by auto
    then have "\<forall>z \<in> set zs. x + k < z" using z(3) lt by auto
    then show ?thesis
      using z self True by (intro exI[of _ "(x + k) # zs"]) simp
  next
    case False
    obtain zs where z: "insert_all_loop (x # xs) ys (k + 1) (push_index b y) =
        push_indices (push_index b y) zs" "sorted_wrt (<) zs"
      "set zs = set ys \<union> (\<lambda>x. shift_pos (set ys) (x + (k + 1))) ` set (x # xs)"
      using "1.IH"(2)[OF False] "1.prems" by auto
    have eq: "shift_pos (set (y # ys)) (x' + k) = shift_pos (set ys) (x' + (k + 1))" "y < x' + (k + 1)"
      if "x' \<in> set (x # xs)" for x'
      using shift_pos_insert[of "set ys" y "x' + k"] that False "1.prems" by auto
    have "\<forall>z \<in> set zs. y < z"
      using z(3) eq(2) shift_ge[of "set ys"] "1.prems"(2) less_le_trans by fastforce
    moreover have "set (y # zs) = set (y # ys) \<union> (\<lambda>x. shift_pos (set (y # ys)) (x + k)) ` set (x # xs)"
      using z(3) eq(1) by auto
    ultimately show ?thesis
      using z(1,2) False by (intro exI[of _ "y # zs"]) simp
  qed
next
  case "2_1"
  then show ?case by (intro exI conjI) (rule insert_all_loop_Nil1, simp_all)
next
  case "2_2"
  then show ?case by (intro exI conjI) (rule insert_all_loop_Nil2, simp_all add: sorted_wrt_map)
qed

theorem is_insert_all_correct:
  assumes "crv_wf s" and "crv_wf t"
  shows "crv_wf (is_insert_all s t)" and "elems (is_insert_all s t) = compose_pos (elems t) (elems s)"
proof -
  obtain zs where z: "insert_all_loop (as_indexes s) (as_indexes t) 0 (builder_init s) =
      push_indices (builder_init s) zs" "sorted_wrt (<) zs"
    "set zs = elems t \<union> shift_pos (elems t) ` elems s"
    using insert_all_loop_correct[OF sorted_as_indexes sorted_as_indexes, OF assms, of 0 "builder_init s"] by auto
  then show "crv_wf (is_insert_all s t)"
    using build_indices_wf[OF z(2), of s] assms by (simp add: is_insert_all_def)
  show "elems (is_insert_all s t) = compose_pos (elems t) (elems s)"
    using build_indices_elems[OF z(2), of s] z by (simp add: is_insert_all_def compose_pos_alt)
qed

section \<open>shift_for_insert_at with a set\<close>

lemma shift_all_loop_correct:
  assumes "sorted_wrt (<) xs" and "sorted_wrt (<) ys"
  shows "shift_all_loop xs ys k b = push_indices b (map (\<lambda>x. shift_pos (set ys) (x + k)) xs)"
  using assms
proof (induction xs ys k b rule: shift_all_loop.induct)
  case (1 x xs y ys k b)
  show ?case
  proof (cases "x + k < y")
    case True
    have "\<forall>z \<in> set (y # ys). x + k < z" using True "1.prems"(2) by auto
    then have "shift_pos (set (y # ys)) (x + k) = x + k" by (rule shift_pos_below)
    then show ?thesis using 1 True by simp
  next
    case False
    have "shift_pos (set (y # ys)) (x' + k) = shift_pos (set ys) (x' + (k + 1))"
      if "x' \<in> set (x # xs)" for x'
      using shift_pos_insert[of "set ys" y "x' + k"] that False "1.prems" by auto
    then have "map (\<lambda>x. shift_pos (set (y # ys)) (x + k)) (x # xs) =
        map (\<lambda>x. shift_pos (set ys) (x + (k + 1))) (x # xs)" by (intro map_cong refl)
    moreover have "shift_all_loop (x # xs) (y # ys) k b =
        push_indices b (map (\<lambda>x. shift_pos (set ys) (x + (k + 1))) (x # xs))"
      using "1.IH"(2)[OF False] "1.prems" False by simp
    ultimately show ?thesis by (simp only:)
  qed
qed simp_all

theorem is_shift_for_insert_all_correct:
  assumes "crv_wf s" and "crv_wf t"
  shows "crv_wf (is_shift_for_insert_all s t)"
    and "elems (is_shift_for_insert_all s t) = shifted_pos (elems t) (elems s)"
proof -
  let ?zs = "map (shift_pos (elems t)) (as_indexes s)"
  have z: "shift_all_loop (as_indexes s) (as_indexes t) 0 b = push_indices b ?zs" for b
    using shift_all_loop_correct[OF sorted_as_indexes sorted_as_indexes, OF assms] by simp
  have srt: "sorted_wrt (<) ?zs"
    using sorted_shifted[OF _ sorted_as_indexes[OF assms(1)], of "elems t" 0] by simp
  have skip: "elems s = shift_pos (elems t) ` elems s"
    if ne: "s \<noteq> []" "t \<noteq> []" and far: "c_begin (hd t) \<ge> c_end (last s)"
  proof -
    have ok: "ranges_ok (ranges s)" "ranges_ok (ranges t)" "chunk_ok (last s)" "chunk_ok (hd t)"
      using assms ne by (auto simp: crv_wf_def chunks_ok_def)
    have hi: "c_begin (hd t) \<le> y" if "y \<in> elems t" for y
      using that ok(2,4) ne(2) ranges_ok_hd_le[of "hd (ranges t)" "tl (ranges t)"]
      by (cases t; cases "data (hd t)") (fastforce simp: elems_def elems_r_def chunk_ok_def)+
    have lo: "x < c_end (last s)" if "x \<in> elems s" for x
    proof -
      have dl: "data (last s) \<noteq> []" "c_end (last s) = snd (last (data (last s)))"
        using ok(3) by (auto simp: chunk_ok_def)
      obtain s0 where s0: "s = s0 @ [last s]" using ne(1) by (metis append_butlast_last_id)
      then have "ranges s = ranges s0 @ butlast (data (last s)) @ [last (data (last s))]"
        using dl(1) by (metis append_butlast_last_id append_Nil2 ranges_simps)
      then obtain Z where Z: "ranges s = Z @ [last (data (last s))]" by (metis append_assoc)
      then have "\<forall>r \<in> set Z. snd r < fst (last (data (last s)))"
        "fst (last (data (last s))) < c_end (last s)"
        using ok(1) dl(2) by (simp_all add: ranges_ok_append)
      then have "\<forall>r \<in> set (ranges s). snd r \<le> c_end (last s)"
        unfolding Z using dl(2) by (simp add: less_imp_le) (meson less_imp_le less_trans)
      then show ?thesis using that elems_r_lt_of_snd_le by (simp add: elems_def)
    qed
    have "shift_pos (elems t) x = x" if "x \<in> elems s" for x
      by (rule shift_pos_below) (use hi lo[OF that] far in fastforce)
    then show ?thesis by simp
  qed
  have "crv_wf (is_shift_for_insert_all s t) \<and>
      elems (is_shift_for_insert_all s t) = shift_pos (elems t) ` elems s"
  proof -
    have "set ?zs = shift_pos (elems t) ` elems s" by simp
    then show ?thesis
      using build_indices_wf(1)[OF srt, of s] build_indices_elems[OF srt, of s] assms skip
      by (auto simp: is_shift_for_insert_all_def z simp del: set_map)
  qed
  then show "crv_wf (is_shift_for_insert_all s t)"
    "elems (is_shift_for_insert_all s t) = shifted_pos (elems t) (elems s)"
    by (simp_all add: shifted_pos_alt)
qed

section \<open>erase_at with a set\<close>

lemma erase_all_loop_Nil2:
  assumes "\<forall>x \<in> set xs. k \<le> x"
  shows "erase_all_loop xs [] k b = push_indices b (map (\<lambda>x. x - k) xs)"
proof -
  have e: "map (\<lambda>x. sub_size x k) xs = map (\<lambda>x. x - k) xs"
    by (rule map_cong) (use assms in simp_all)
  have "erase_all_loop xs [] k b = push_indices b (map (\<lambda>x. sub_size x k) xs)" by (cases xs) simp_all
  then show ?thesis unfolding e .
qed

lemma erase_all_loop_correct:
  assumes "sorted_wrt (<) xs" and "sorted_wrt (<) ys"
    and "\<forall>x \<in> set xs. k \<le> x" and "\<forall>y \<in> set ys. k \<le> y"
  shows "erase_all_loop xs ys k b =
           push_indices b (map (\<lambda>x. x - (k + below (set ys) x)) (filter (\<lambda>x. x \<notin> set ys) xs))"
  using assms
proof (induction xs ys k b rule: erase_all_loop.induct)
  case (1 x xs y ys k b)
  have step: "map (\<lambda>x. x - (k + below (set (y # ys)) x)) (filter (\<lambda>x. x \<notin> set (y # ys)) zs) =
      map (\<lambda>x. x - (k + 1 + below (set ys) x)) (filter (\<lambda>x. x \<notin> set ys) zs)"
    if "\<forall>z \<in> set zs. y < z" for zs
  proof -
    have "filter (\<lambda>x. x \<notin> set (y # ys)) zs = filter (\<lambda>x. x \<notin> set ys) zs"
      by (rule filter_cong) (use that in auto)
    moreover have "y \<notin> set ys" using "1.prems"(2) by auto
    then have "below (set (y # ys)) z = below (set ys) z + 1" if "z \<in> set zs" for z
      using that \<open>\<forall>z \<in> set zs. y < z\<close> by (simp add: below_insert)
    ultimately show ?thesis by (auto intro!: map_cong)
  qed
  consider (lt) "x < y" | (eq) "x = y" | (gt) "y < x" by linarith
  then show ?case
  proof cases
    case lt
    have b0: "below (set (y # ys)) x = 0" "x \<notin> set (y # ys)"
      using lt "1.prems"(2) by (auto intro!: below_none)
    have "erase_all_loop xs (y # ys) k (push_index b (x - k)) = push_indices (push_index b (x - k))
        (map (\<lambda>x. x - (k + below (set (y # ys)) x)) (filter (\<lambda>x. x \<notin> set (y # ys)) xs))"
      using "1.IH"(1)[OF lt] "1.prems" by simp
    then show ?thesis using lt b0 "1.prems"(3) by simp
  next
    case eq
    have gt: "\<forall>z \<in> set xs. y < z" using "1.prems"(1) eq by simp
    have "erase_all_loop xs ys (k + 1) b =
        push_indices b (map (\<lambda>x. x - (k + 1 + below (set ys) x)) (filter (\<lambda>x. x \<notin> set ys) xs))"
      using "1.IH"(2) eq "1.prems" by (fastforce simp: Suc_le_eq)
    then show ?thesis using step[OF gt] eq by simp
  next
    case gt
    have all: "\<forall>z \<in> set (x # xs). y < z" using "1.prems"(1) gt by auto
    have "erase_all_loop (x # xs) ys (k + 1) b =
        push_indices b (map (\<lambda>x. x - (k + 1 + below (set ys) x)) (filter (\<lambda>x. x \<notin> set ys) (x # xs)))"
      using "1.IH"(3) gt "1.prems" by (fastforce simp: Suc_le_eq)
    moreover have "erase_all_loop (x # xs) (y # ys) k b = erase_all_loop (x # xs) ys (k + 1) b"
      using gt by simp
    ultimately show ?thesis using step[OF all] by (simp only:)
  qed
next
  case "2_2"
  then show ?case by (simp add: erase_all_loop_Nil2 del: erase_all_loop.simps)
qed simp

lemma sorted_unshifted:
  "sorted_wrt (<) xs \<Longrightarrow> sorted_wrt (<) (map (unshift_pos Y) (filter (\<lambda>x. x \<notin> Y) xs))"
  by (induction xs) (auto simp: unshift_strict)

theorem is_erase_all_correct:
  assumes "crv_wf s" and "crv_wf t"
  shows "crv_wf (is_erase_all s t)" and "elems (is_erase_all s t) = erased_pos (elems t) (elems s)"
proof -
  let ?zs = "map (unshift_pos (elems t)) (filter (\<lambda>x. x \<notin> elems t) (as_indexes s))"
  have z: "erase_all_loop (as_indexes s) (as_indexes t) 0 b = push_indices b ?zs" for b
    using erase_all_loop_correct[OF sorted_as_indexes sorted_as_indexes, OF assms, of 0]
    by (simp add: unshift_pos_def[abs_def])
  have srt: "sorted_wrt (<) ?zs" by (rule sorted_unshifted[OF sorted_as_indexes[OF assms(1)]])
  have "set ?zs = erased_pos (elems t) (elems s)" by (auto simp: erased_pos_def)
  moreover have "erased_pos (elems t) {} = {}" "erased_pos {} (elems s) = elems s"
    by (simp_all add: erased_pos_def unshift_pos_def)
  ultimately show "crv_wf (is_erase_all s t)"
    "elems (is_erase_all s t) = erased_pos (elems t) (elems s)"
    using build_indices_wf(1)[OF srt, of s] build_indices_elems[OF srt, of s] assms
    by (auto simp: is_erase_all_def z simp del: set_map)
qed

section \<open>add_shifted_by\<close>

text \<open>
  The first loop advances over the ranges of \<open>shifted_by\<close> that begin at or before the index. After
  it, \<open>new_shift\<close> counts the members passed, and the index is a member if and only if it lies before
  \<open>skip_until\<close>, the end of the last range passed.
\<close>

lemma skip_shift_ranges_correct:
  assumes "ranges_ok (P @ S)" and "\<forall>r \<in> set P. fst r \<le> i" and "n = size_r P"
    and "u = (if P = [] then 0 else snd (last P))"
    and "skip_shift_ranges S i n u = (S', n', u')"
  obtains P' where "P' @ S' = P @ S" and "\<forall>r \<in> set P'. fst r \<le> i" and "n' = size_r P'"
    and "u' = (if P' = [] then 0 else snd (last P'))" and "S' = [] \<or> i < fst (hd S')"
  using assms
proof (induction S i n u arbitrary: P thesis rule: skip_shift_ranges.induct)
  case (1 i n u)
  then show ?case by simp
next
  case (2 r rs i n u)
  show ?case
  proof (cases "fst r \<le> i")
    case True
    show ?thesis
    proof (rule "2.IH"[OF True])
      show "ranges_ok ((P @ [r]) @ rs)" using "2.prems"(2) by simp
      show "\<forall>x \<in> set (P @ [r]). fst x \<le> i" using "2.prems"(3) True by simp
      show "n + (snd r - fst r) = size_r (P @ [r])" using "2.prems"(4) by (simp add: len_r_def)
      show "snd r = (if P @ [r] = [] then 0 else snd (last (P @ [r])))" by simp
      show "skip_shift_ranges rs i (n + (snd r - fst r)) (snd r) = (S', n', u')"
        using "2.prems"(6) True by simp
    qed (rule "2.prems"(1); simp)
  next
    case False
    then show ?thesis using "2.prems" by (intro "2.prems"(1)[of P]) auto
  qed
qed

lemma passed_ranges:
  assumes "ranges_ok (P @ S)" and "\<forall>r \<in> set P. fst r \<le> i" and "S = [] \<or> i < fst (hd S)"
  shows "i \<in> elems_r (P @ S) \<longleftrightarrow> P \<noteq> [] \<and> i < snd (last P)"
    and "i \<notin> elems_r (P @ S) \<Longrightarrow> below (elems_r (P @ S)) i = size_r P"
proof -
  have gt: "\<forall>x \<in> elems_r S. i < x"
    using assms(1,3) by (cases S) (fastforce simp: ranges_ok_append ranges_ok_Cons elems_r_def)+
  show m: "i \<in> elems_r (P @ S) \<longleftrightarrow> P \<noteq> [] \<and> i < snd (last P)"
  proof (cases P rule: rev_cases)
    case (snoc Q q)
    have "\<forall>x \<in> set Q. snd x < fst q" "fst q \<le> i"
      using assms(1,2) unfolding snoc by (auto simp: ranges_ok_append)
    then have "i \<notin> elems_r Q" by (fastforce simp: elems_r_def)
    then show ?thesis using gt \<open>fst q \<le> i\<close> unfolding snoc by auto
  qed (use gt in auto)
  assume n: "i \<notin> elems_r (P @ S)"
  have "snd r \<le> i" if "r \<in> set P" for r
  proof (rule ccontr)
    assume "\<not> snd r \<le> i"
    then have "i \<in> elems_r P" using assms(2) that by (auto simp: elems_r_def intro!: bexI[of _ r])
    with n show False by simp
  qed
  then show "below (elems_r (P @ S)) i = size_r P"
    using below_elems_prefix[OF assms(1)] below_none[of "elems_r S" i] gt by (simp add: less_imp_le)
qed

text \<open>The second loop copies the old ranges in front of the position the index is shifted to.\<close>

lemma copy_old_ranges_correct:
  assumes "ranges_ok (P @ R)" and "j \<le> i"
    and "\<forall>r \<in> set P. fst r \<le> i - j + size_r P" and "\<forall>r \<in> set P. snd r \<le> i - j + size_r P"
    and "copy_old_ranges R i j (size_r P) b = (R', n', b')"
  obtains C where "R = C @ R'" and "b' = push_indices b (concat (map (\<lambda>r. [fst r ..< snd r]) C))"
    and "n' = size_r (P @ C)" and "\<forall>r \<in> set (P @ C). snd r \<le> i - j + n'"
    and "R' = [] \<or> i - j + n' < fst (hd R')"
  using assms
proof (induction R i j "size_r P" b arbitrary: P thesis rule: copy_old_ranges.induct)
  case (1 i j b)
  then show ?case by simp
next
  case (2 r rs i j b)
  show ?case
  proof (cases "fst r \<le> i - j + size_r P")
    case True
    have ok: "fst r < snd r" using "2.prems"(2) by (simp add: ranges_ok_append ranges_ok_Cons)
    have n: "size_r P + (snd r - fst r) = size_r (P @ [r])" by (simp add: len_r_def)
    have le: "\<forall>x \<in> set (P @ [r]). snd x \<le> i - j + size_r (P @ [r])"
      using "2.prems"(5) True ok by (auto simp: len_r_def)
    have "fst x \<le> snd x" if "x \<in> set (P @ [r])" for x
      using ranges_ok_nonempty[of "P @ r # rs" x] "2.prems"(2) that by auto
    then have le': "\<forall>x \<in> set (P @ [r]). fst x \<le> i - j + size_r (P @ [r])"
      using le le_trans by blast
    show ?thesis
    proof (rule "2.hyps"[of "P @ [r]"])
      show "fst r \<le> sub_size i j + size_r P" using True "2.prems"(3) by simp
      show "size_r P + (snd r - fst r) = size_r (P @ [r])" by (rule n)
      show "ranges_ok ((P @ [r]) @ rs)" using "2.prems"(2) by simp
      show "copy_old_ranges rs i j (size_r (P @ [r])) (push_indices b [fst r ..< snd r]) = (R', n', b')"
        using "2.prems"(6,3) True n by simp
    next
      fix C
      assume "rs = C @ R'" "n' = size_r ((P @ [r]) @ C)"
        "b' = push_indices (push_indices b [fst r ..< snd r]) (concat (map (\<lambda>r. [fst r ..< snd r]) C))"
        "\<forall>x \<in> set ((P @ [r]) @ C). snd x \<le> i - j + n'" "R' = [] \<or> i - j + n' < fst (hd R')"
      then show ?thesis by (intro "2.prems"(1)[of "r # C"]) simp_all
    qed (use "2.prems"(3) le le' in auto)
  next
    case False
    then show ?thesis using "2.prems" by (intro "2.prems"(1)[of "[]"]) auto
  qed
qed

lemma push_flat_range:
  assumes "ranges_ok rs" and "\<forall>x \<in> elems_r rs. x < fst r" and "fst r < snd r"
  shows "ranges_ok (push_flat rs r)" and "elems_r (push_flat rs r) = elems_r rs \<union> {fst r ..< snd r}"
proof -
  have "ranges_ok (push_flat rs r) \<and> elems_r (push_flat rs r) = elems_r rs \<union> {fst r ..< snd r}"
  proof (cases rs rule: rev_cases)
    case Nil
    then show ?thesis using assms(3) by (auto simp: push_flat_def)
  next
    case (snoc d l)
    then have l: "fst l < snd l" and ok: "ranges_ok d" "d = [] \<or> snd (last d) < fst l"
      using assms(1) by (auto simp: ranges_ok_snoc)
    have "snd l - 1 \<in> elems_r rs" using snoc l by auto
    then have le: "snd l \<le> fst r" using assms(2) by force
    show ?thesis
    proof (cases "snd l = fst r")
      case True
      then have "{fst l ..< snd r} = {fst l ..< snd l} \<union> {fst r ..< snd r}" using l assms(3) by auto
      then show ?thesis using snoc l ok assms(3) True by (auto simp: push_flat_def ranges_ok_snoc)
    next
      case False
      then show ?thesis
        using snoc assms(1,3) le ranges_ok_snoc[of "d @ [l]" r] by (simp add: push_flat_def Un_assoc)
    qed
  qed
  then show "ranges_ok (push_flat rs r)" "elems_r (push_flat rs r) = elems_r rs \<union> {fst r ..< snd r}"
    by auto
qed

lemma length_push_flat: "length rs \<le> length (push_flat rs r)"
  by (cases rs rule: rev_cases) (auto simp: push_flat_def)

lemma opens_chunk_length:
  assumes "builder_inv cnt b rs" and "opens_chunk b r"
  shows "max_size < length (push_flat rs r)"
proof -
  obtain A c B where b: "m_data b = A @ c # B" "m_outer_pos b = length A" "rs = ranges A @ data c"
    using assms(1) unfolding builder_inv_def by blast
  then show ?thesis using assms(2) by (auto simp: opens_chunk_def push_flat_def)
qed

lemma builder_inv_push_ranges:
  assumes "builder_inv cnt b rs" and "ranges_ok rs" and "ranges_ok R"
    and "\<forall>x \<in> elems_r rs. \<forall>r \<in> set R. x < fst r"
    and "cnt \<Longrightarrow> length (foldl push_flat rs R) \<le> max_size"
  shows "builder_inv cnt (foldl push_range b R) (foldl push_flat rs R) \<and>
    ranges_ok (foldl push_flat rs R) \<and> elems_r (foldl push_flat rs R) = elems_r rs \<union> elems_r R"
  using assms
proof (induction R arbitrary: b rs)
  case Nil
  then show ?case by simp
next
  case (Cons r R)
  let ?rs = "push_flat rs r"
  have r: "fst r < snd r" "ranges_ok R" "\<forall>x \<in> set R. snd r < fst x"
    using Cons.prems(3) by (auto simp: ranges_ok_Cons)
  have p: "ranges_ok ?rs" "elems_r ?rs = elems_r rs \<union> {fst r ..< snd r}"
    using push_flat_range[OF Cons.prems(2) _ r(1)] Cons.prems(4) by auto
  have grow: "length xs \<le> length (foldl push_flat xs R)" for xs
    by (induction R arbitrary: xs) (auto intro: le_trans[OF length_push_flat])
  have few: "cnt \<Longrightarrow> length ?rs \<le> max_size" using Cons.prems(5) grow[of ?rs] by simp
  have inv: "builder_inv cnt (push_range b r) ?rs"
    by (rule builder_inv_push[OF Cons.prems(1)])
      (use r opens_chunk_length[OF Cons.prems(1)] few in \<open>auto simp: not_less[symmetric]\<close>)
  have "\<forall>x \<in> elems_r ?rs. \<forall>y \<in> set R. x < fst y"
    using p(2) r(3) Cons.prems(4) by fastforce
  from Cons.IH[OF inv p(1) r(2) this] Cons.prems(5) p(2) show ?case by (simp add: Un_assoc)
qed

lemma add_shifted_by_loop_correct:
  assumes U: "ranges_ok (P @ old)" and S: "ranges_ok (Q @ shifted)" and srt: "sorted_wrt (<) xs"
    and Q: "\<forall>v \<in> set xs. \<forall>r \<in> set Q. fst r \<le> v" and u: "u = (if Q = [] then 0 else snd (last Q))"
    and P: "\<forall>v \<in> set xs - elems_r (Q @ shifted). \<forall>r \<in> set P.
              snd r \<le> unshift_pos (elems_r (Q @ shifted)) v + size_r P"
    and run: "add_shifted_by_loop xs old shifted u (size_r P) (size_r Q) b = (old', b')"
    and T: "T = (\<lambda>v. shift_pos (elems_r (P @ old)) (unshift_pos (elems_r (Q @ shifted)) v)) `
              (set xs - elems_r (Q @ shifted))"
  shows "\<exists>C zs. old = C @ old' \<and> b' = push_indices b zs \<and> sorted_wrt (<) zs \<and>
           set zs = elems_r C \<union> T \<and> (\<forall>z \<in> set zs. \<forall>r \<in> set old'. z < fst r)"
  using assms
proof (induction xs arbitrary: P Q old shifted u b T)
  case Nil
  then show ?case by (intro exI[of _ "[]"]) simp
next
  case (Cons v xs)
  define SS where "SS = elems_r (Q @ shifted)"
  define UU where "UU = elems_r (P @ old)"
  define t where "t v = shift_pos UU (unshift_pos SS v)" for v
  have T: "T = t ` (set (v # xs) - SS)" using Cons.prems(8) by (simp only: t_def[abs_def] UU_def SS_def)
  have gt: "\<forall>w \<in> set xs. v < w" and srt: "sorted_wrt (<) xs" using Cons.prems(3) by auto
  obtain S' n' u' where sk: "skip_shift_ranges shifted v (size_r Q) u = (S', n', u')"
    by (cases "skip_shift_ranges shifted v (size_r Q) u") auto
  obtain Q' where q: "Q' @ S' = Q @ shifted" "\<forall>r \<in> set Q'. fst r \<le> v" "n' = size_r Q'"
    "u' = (if Q' = [] then 0 else snd (last Q'))" "S' = [] \<or> v < fst (hd S')"
    using skip_shift_ranges_correct[OF Cons.prems(2) _ refl Cons.prems(5) sk] Cons.prems(4) by auto
  have S': "ranges_ok (Q' @ S')" "elems_r (Q' @ S') = SS" using q(1) Cons.prems(2) SS_def by auto
  have memb: "v \<in> SS \<longleftrightarrow> v < u'"
    using passed_ranges(1)[OF S'(1) q(2,5)] q(4) unfolding S'(2) by simp
  have Q'x: "\<forall>w \<in> set xs. \<forall>r \<in> set Q'. fst r \<le> w" using q(2) gt by fastforce
  show ?case
  proof (cases "v < u'")
    case True
    have run: "add_shifted_by_loop xs old S' u' (size_r P) (size_r Q') b = (old', b')"
      using Cons.prems(7) sk q(3) True by simp
    have "T = t ` (set xs - SS)" using T memb True by auto
    from Cons.IH[OF Cons.prems(1) S'(1) srt Q'x q(4) _ run, of T] this
    show ?thesis using Cons.prems(6) unfolding S'(2) t_def UU_def SS_def[symmetric] by auto
  next
    case False
    then have vS: "v \<notin> SS" using memb by simp
    have n': "n' = below SS v" using passed_ranges(2)[OF S'(1) q(2,5)] vS q(3) unfolding S'(2) by simp
    then have un: "v - n' = unshift_pos SS v" "n' \<le> v" by (simp_all add: unshift_pos_def below_le)
    have Pv: "\<forall>r \<in> set P. snd r \<le> v - n' + size_r P"
      using Cons.prems(6) vS un(1) by (simp add: SS_def)
    have "fst r \<le> snd r" if "r \<in> set P" for r
      using ranges_ok_nonempty[of "P @ old" r] Cons.prems(1) that by auto
    then have Pv': "\<forall>r \<in> set P. fst r \<le> v - n' + size_r P" using Pv le_trans by blast
    obtain R1 m b1 where cp: "copy_old_ranges old v n' (size_r P) b = (R1, m, b1)"
      by (cases "copy_old_ranges old v n' (size_r P) b") auto
    obtain C where c: "old = C @ R1" "b1 = push_indices b (concat (map (\<lambda>r. [fst r ..< snd r]) C))"
      "m = size_r (P @ C)" "\<forall>r \<in> set (P @ C). snd r \<le> v - n' + m" "R1 = [] \<or> v - n' + m < fst (hd R1)"
      by (rule copy_old_ranges_correct[OF Cons.prems(1) un(2) Pv' Pv cp])
    let ?t = "v - n' + m" and ?cs = "concat (map (\<lambda>r. [fst r ..< snd r]) C)"
    have U1: "ranges_ok ((P @ C) @ R1)" "elems_r ((P @ C) @ R1) = UU"
      using Cons.prems(1) c(1) UU_def by auto
    have tv: "t v = ?t"
      using gap_is_shift_pos(1)[OF U1(1) c(4,5), of "v - n'"] c(3) un(1) U1(2) by (simp add: t_def)
    have P1: "\<forall>w \<in> set xs - elems_r (Q' @ S'). \<forall>r \<in> set (P @ C).
        snd r \<le> unshift_pos (elems_r (Q' @ S')) w + size_r (P @ C)"
    proof (intro ballI)
      fix w r assume w: "w \<in> set xs - elems_r (Q' @ S')" and r: "r \<in> set (P @ C)"
      have "unshift_pos SS v \<le> unshift_pos SS w" using w gt by (intro unshift_mono) auto
      moreover have "snd r \<le> unshift_pos SS v + size_r (P @ C)" using c(3,4) r un(1) by auto
      ultimately show "snd r \<le> unshift_pos (elems_r (Q' @ S')) w + size_r (P @ C)"
        unfolding S'(2) by simp
    qed
    have run: "add_shifted_by_loop xs R1 S' u' (size_r (P @ C)) (size_r Q') (push_index b1 ?t) = (old', b')"
      using Cons.prems(7) sk q(3) False cp c(3) un(2) by simp
    obtain D zs where z: "R1 = D @ old'" "b' = push_indices (push_index b1 ?t) zs" "sorted_wrt (<) zs"
      "set zs = elems_r D \<union> t ` (set xs - SS)" "\<forall>z \<in> set zs. \<forall>r \<in> set old'. z < fst r"
      using Cons.IH[OF U1(1) S'(1) srt Q'x q(4) P1 run refl] unfolding U1(2) S'(2) t_def by blast
    have okR1: "ranges_ok R1" "ranges_ok C" using U1(1) by (simp_all add: ranges_ok_append)
    have hdR1: "\<forall>r \<in> set R1. ?t < fst r"
      using c(5) okR1(1) by (cases R1) (auto simp: ranges_ok_Cons dest: order.strict_trans)
    have cs: "set ?cs = elems_r C" "sorted_wrt (<) ?cs" using indices_of_ranges okR1(2) by auto
    have lt: "\<forall>x \<in> elems_r C. x < ?t" using elems_r_lt_of_snd_le[of C ?t] c(4) by auto
    have gtt: "?t < z" if zz: "z \<in> set zs" for z
    proof -
      consider "z \<in> elems_r D" | w where "w \<in> set xs - SS" "z = t w" using z(4) zz by auto
      then show ?thesis
      proof cases
        case 1
        then obtain r where "r \<in> set D" "fst r \<le> z" by (auto simp: elems_r_def)
        moreover have "?t < fst r" using hdR1 z(1) \<open>r \<in> set D\<close> by simp
        ultimately show ?thesis by simp
      next
        case 2
        have "t v < t w"
          using unshift_strict[of v w SS] shift_strict[of UU] gt vS 2(1) by (auto simp: t_def UU_def)
        then show ?thesis using tv 2(2) by simp
      qed
    qed
    let ?zs = "?cs @ ?t # zs"
    have "set (v # xs) - SS = insert v (set xs - SS)" using vS by auto
    then have "T = insert ?t (t ` (set xs - SS))" unfolding T using tv by simp
    then have "set ?zs = elems_r (C @ D) \<union> T" using cs(1) z(4) by auto
    moreover have "sorted_wrt (<) ?zs"
      using cs lt z(3) gtt by (fastforce simp: sorted_wrt_append simp del: set_concat)
    moreover have "b' = push_indices b ?zs" using z(2) c(2) by simp
    moreover have "\<forall>z \<in> set ?zs. \<forall>r \<in> set old'. z < fst r"
    proof (intro ballI)
      fix x r assume x: "x \<in> set ?zs" and r: "r \<in> set old'"
      have "?t < fst r" using hdR1 z(1) r by auto
      moreover have "x \<in> elems_r C \<or> x = ?t \<or> x \<in> set zs"
        using x cs(1) by (auto simp del: set_concat)
      then have "x \<le> ?t \<or> x \<in> set zs" using lt by (auto simp: less_imp_le)
      ultimately show "x < fst r" using z(5) r by auto
    qed
    ultimately show ?thesis using c(1) z(1) by (intro exI[of _ "C @ D"] exI[of _ ?zs]) simp
  qed
qed

theorem is_add_shifted_by_ranges:
  assumes "crv_wf s" and "crv_wf t" and "crv_wf v"
  shows "ranges_ok (ranges (is_add_shifted_by s t v))"
    and "elems (is_add_shifted_by s t v) = compose_pos (elems s) (erased_pos (elems t) (elems v))"
    and "length (ranges (is_add_shifted_by s t v)) \<le> max_size \<Longrightarrow> crv_wf (is_add_shifted_by s t v)"
proof -
  let ?r = "is_add_shifted_by s t v"
  have "ranges_ok (ranges ?r) \<and> elems ?r = compose_pos (elems s) (erased_pos (elems t) (elems v)) \<and>
    (length (ranges ?r) \<le> max_size \<longrightarrow> crv_wf ?r)"
  proof (cases "v = []")
    case True
    then show ?thesis using assms(1) by (simp add: is_add_shifted_by_def crv_wf_def erased_pos_def)
  next
    case False
    have rs: "concat (map data s) = ranges s" "concat (map data t) = ranges t" by (simp_all add: ranges_def)
    obtain old b where run: "add_shifted_by_loop (as_indexes v) (ranges s) (ranges t) 0 0 0 (builder_init s) =
        (old, b)" by (cases "add_shifted_by_loop (as_indexes v) (ranges s) (ranges t) 0 0 0 (builder_init s)")
    let ?T = "(\<lambda>x. shift_pos (elems s) (unshift_pos (elems t) x)) ` (elems v - elems t)"
    have ok: "ranges_ok (ranges s)" "ranges_ok (ranges t)" using assms(1,2) by (auto simp: crv_wf_def)
    have "\<exists>C zs. ranges s = C @ old \<and> b = push_indices (builder_init s) zs \<and> sorted_wrt (<) zs \<and>
           set zs = elems_r C \<union> ?T \<and> (\<forall>z \<in> set zs. \<forall>r \<in> set old. z < fst r)"
      by (rule add_shifted_by_loop_correct[of "[]" _ "[]" "ranges t" "as_indexes v" 0])
        (use ok run sorted_as_indexes[OF assms(3)] in \<open>simp_all add: elems_def\<close>)
    then obtain C zs where z: "ranges s = C @ old" "b = push_indices (builder_init s) zs"
      "sorted_wrt (<) zs" "set zs = elems_r C \<union> ?T" "\<forall>z \<in> set zs. \<forall>r \<in> set old. z < fst r" by blast
    have r: "?r = finalize (foldl push_range b old)"
      using False run by (simp add: is_add_shifted_by_def rs)
    have oldok: "ranges_ok old" using ok(1) z(1) by (simp add: ranges_ok_append)
    obtain rs' where p: "builder_inv True b rs'" "ranges_ok rs'" "elems_r rs' = set zs"
      using builder_inv_push_indices[OF builder_inv_init[of True s] _ z(3)] z(2) by auto
    let ?rs = "foldl push_flat rs' old"
    have apart: "\<forall>x \<in> elems_r rs'. \<forall>r \<in> set old. x < fst r" using p(3) z(5) by simp
    have F: "builder_inv False (foldl push_range b old) ?rs" "ranges_ok ?rs"
      "elems_r ?rs = set zs \<union> elems_r old"
      using builder_inv_push_ranges[OF builder_inv_weaken[OF p(1)] p(2) oldok apart, of False] p(3)
      by auto
    have rr: "ranges ?r = ?rs" using finalize_ranges(1)[OF F(1)] r by simp
    have "elems ?r = elems s \<union> ?T" using rr F(3) z(1,4) by (auto simp: elems_def)
    also have "\<dots> = compose_pos (elems s) (erased_pos (elems t) (elems v))"
      by (simp add: compose_pos_alt erased_pos_def image_image)
    finally have E: "elems ?r = compose_pos (elems s) (erased_pos (elems t) (elems v))" .
    have "crv_wf ?r" if "length (ranges ?r) \<le> max_size"
    proof -
      have "builder_inv True (foldl push_range b old) ?rs"
        using builder_inv_push_ranges[OF p(1,2) oldok apart] that rr by simp
      then show ?thesis using finalize_ranges(2) F(2) rr r by (simp add: crv_wf_def)
    qed
    then show ?thesis using E F(2) rr by simp
  qed
  then show "ranges_ok (ranges ?r)" "elems ?r = compose_pos (elems s) (erased_pos (elems t) (elems v))"
    "length (ranges ?r) \<le> max_size \<Longrightarrow> crv_wf ?r" by auto
qed

end
