(* ===== verification/IndexSetRemove.thy ===== *)
theory IndexSetRemove
  imports IndexSetBulk
begin

text \<open>
  Correctness of \<open>remove\<close>, which takes indices out without renumbering the others. The loop of
  \<open>do_remove\<close> is a \<open>while\<close> over the vector, the iterator and the start of the interval; it ends
  because every round removes an index of the interval. The \<open>remove\<close> on a set walks its ranges with
  the iterator the last round left.
\<close>

text \<open>What holds before every round: the iterator is \<open>find(begin)\<close>, and the set is the old one but
  for indices of the interval in front of \<open>begin\<close>.\<close>

definition remove_inv :: "crv \<Rightarrow> nat \<Rightarrow> nat \<Rightarrow> crv \<times> iter \<times> nat \<Rightarrow> bool" where
  "remove_inv s b e p \<longleftrightarrow>
     (case p of (s', it, b') \<Rightarrow>
        crv_wf s' \<and> b \<le> b' \<and> b' < e \<and> elems s' - {b ..< e} = elems s - {b ..< e} \<and>
        elems s' \<inter> {b ..< b'} = {} \<and> elems s' \<subseteq> elems s \<and>
        (\<exists>L R. cursor_at s' it L R \<and> (\<forall>r \<in> set L. snd r \<le> b') \<and> (\<forall>r \<in> set R. b' < snd r)))"

lemma remove_inv_find:
  assumes "crv_wf s'" and "b \<le> b'" and "b' < e" and "elems s' - {b ..< e} = elems s - {b ..< e}"
    and "elems s' \<inter> {b ..< b'} = {}" and "elems s' \<subseteq> elems s"
    and "cursor_at s' it L R" and "\<forall>r \<in> set L. snd r \<le> b'"
  shows "remove_inv s b e (s', is_find_from s' b' it, b')"
proof -
  obtain ls us where sp: "ranges s' = ls @ us" "\<forall>r \<in> set ls. snd r \<le> b'" "\<forall>r \<in> set us. b' < snd r"
    using split_at_index[OF crv_wfD(2)[OF assms(1)], of b'] by metis
  have "cursor_at s' (is_find_from s' b' it) ls us"
    by (rule find_from_cursor[OF assms(1,7,8) sp])
  then show ?thesis using assms sp(2,3) unfolding remove_inv_def by auto
qed

lemma ivl_split_range: "f \<le> b \<Longrightarrow> b \<le> g \<Longrightarrow> {f ..< g :: nat} = {f ..< b} \<union> {b ..< g}"
  by auto

lemma remove_step_inv:
  assumes inv: "remove_inv s b e p" and test: "remove_test e p"
  shows "remove_inv s b e (remove_step e p)"
    and "elems (fst (remove_step e p)) \<inter> {b ..< e} \<subset> elems (fst p) \<inter> {b ..< e}"
proof -
  obtain s' it b' where p: "p = (s', it, b')" by (cases p) auto
  obtain L R where i: "crv_wf s'" "b \<le> b'" "b' < e" "elems s' - {b ..< e} = elems s - {b ..< e}"
    "elems s' \<inter> {b ..< b'} = {}" "elems s' \<subseteq> elems s"
    "cursor_at s' it L R" "\<forall>r \<in> set L. snd r \<le> b'" "\<forall>r \<in> set R. b' < snd r"
    using inv unfolding p remove_inv_def by auto
  have "not_end s' it" and lt: "fst (deref s' it) < e"
    using test unfolding p remove_test_def by auto
  then obtain r R' where R: "R = r # R'" using cursor_not_end[OF i(7)] by (cases R) auto
  have c: "cursor_at s' it L (r # R')" using i(7) R by simp
  have d: "deref s' it = r" by (rule cursor_deref[OF c])
  have rs: "ranges s' = L @ r # R'" and ok: "ranges_ok (L @ r # R')"
    using i(1) c by (auto simp: crv_wf_def cursor_at_def)
  have okr: "fst r < snd r" "ranges_ok L" "ranges_ok R'" "\<forall>x \<in> set L. snd x < fst r"
    "\<forall>x \<in> set R'. snd r < fst x"
    using ok by (auto simp: ranges_ok_append ranges_ok_Cons)
  define B where "B = max (fst r) b'"
  have B: "fst r \<le> B" "b' \<le> B" "B < e" "B < snd r"
    using lt d i(3,9) okr(1) R by (auto simp: B_def)
  have el: "elems s' = elems_r L \<union> {fst r ..< snd r} \<union> elems_r R'"
    by (simp add: elems_def rs Un_assoc)
  have lo: "x < fst r" if "x \<in> elems_r L" for x
    using elems_r_lt_of_snd_le[of L "fst r"] okr(4) that by (simp add: less_imp_le)
  have lo': "x < b'" if "x \<in> elems_r L" for x using elems_r_lt_of_snd_le[OF i(8)] that by blast
  have hi: "snd r < x" if "x \<in> elems_r R'" for x using okr(5) that by (fastforce simp: elems_r_def)
  have Blo: "B \<in> elems s'" using B el by auto
  have pre: "elems s' \<inter> {b ..< B} = {}"
  proof -
    have "x \<notin> elems s'" if "b' \<le> x" "x < B" for x
    proof -
      have "B = fst r" using that by (auto simp: B_def max_def split: if_splits)
      then show ?thesis using that lo'[of x] hi[of x] okr(1) el by auto
    qed
    then show ?thesis using i(5) by (metis IntE atLeastLessThan_iff disjoint_iff not_le)
  qed
  have goal: "remove_inv s b e (remove_step e p) \<and>
      elems (fst (remove_step e p)) \<inter> {b ..< e} \<subset> elems (fst p) \<inter> {b ..< e}"
    if st: "remove_step e p = (s2, is_find_from s2 B it2, B)"
      and c2: "cursor_at s2 it2 L Q" and okQ: "ranges_ok (L @ Q)"
      and Q: "elems_r Q = ({fst r ..< snd r} - {B ..< e}) \<union> elems_r R'" for s2 it2 Q
  proof -
    have wf2: "crv_wf s2" and el2: "elems s2 = elems_r L \<union> elems_r Q"
      using c2 okQ by (auto simp: crv_wf_def cursor_at_def elems_def)
    have sub: "elems s2 \<subseteq> elems s'" using el el2 Q by auto
    have "B \<notin> elems s2"
      using el2 Q B lo'[of B] hi[of B] by auto
    then have strict: "elems s2 \<inter> {b ..< e} \<subset> elems s' \<inter> {b ..< e}"
      using sub Blo B i(2) by auto
    have "elems s2 - {b ..< e} = elems s' - {b ..< e}"
      using el el2 Q B(2) i(2) by auto
    then have "remove_inv s b e (s2, is_find_from s2 B it2, B)"
      using i B pre sub c2 by (intro remove_inv_find[OF wf2 _ _ _ _ _ c2]) auto
    then show ?thesis using strict st p by simp
  qed
  consider (mid) "fst r < B" "e < snd r" | (whole) "fst r = B" "snd r \<le> e"
    | (front) "fst r = B" "e < snd r" | (rear) "fst r < B" "snd r \<le> e"
    using B(1) by linarith
  then have "remove_inv s b e (remove_step e p) \<and>
      elems (fst (remove_step e p)) \<inter> {b ..< e} \<subset> elems (fst p) \<inter> {b ..< e}"
  proof cases
    case mid
    let ?s1 = "it_set s' it (fst r) B"
    obtain s2 it2 where e2: "crv_insert ?s1 (it_next ?s1 it) (e, snd r) = (s2, it2)"
      by (cases "crv_insert ?s1 (it_next ?s1 it) (e, snd r)")
    have c1: "cursor_at ?s1 (it_next ?s1 it) (L @ [(fst r, B)]) R'"
      by (rule cursor_next[OF cursor_set(1)[OF c]])
    have ok2: "ranges_ok ((L @ [(fst r, B)]) @ (e, snd r) # R')"
      using okr mid B by (auto simp: ranges_ok_append ranges_ok_Cons; fastforce)
    have "cursor_at s2 it2 (L @ [(fst r, B)]) ((e, snd r) # R')"
      by (rule insert_cursor[OF c1 fits_of_ranges_ok[OF ok2] e2])
    then have c2: "cursor_at s2 (it_prev s2 it2) L ((fst r, B) # (e, snd r) # R')" by (rule cursor_prev)
    have "elems_r ((fst r, B) # (e, snd r) # R') = ({fst r ..< snd r} - {B ..< e}) \<union> elems_r R'"
    proof -
      have "{fst r ..< B} \<union> {e ..< snd r} = {fst r ..< snd r} - {B ..< e}" using mid B by auto
      then show ?thesis by (simp add: Un_assoc[symmetric])
    qed
    moreover have "remove_step e p = (s2, is_find_from s2 B (it_prev s2 it2), B)"
      using d mid e2 by (simp add: p remove_step_def Let_def B_def[symmetric] max_absorb1 B(2))
    ultimately show ?thesis using goal c2 ok2 by simp
  next
    case whole
    obtain s2 it2 where e2: "crv_erase s' it = (s2, it2)" by (cases "crv_erase s' it")
    have "cursor_at s2 it2 L R'" by (rule erase_cursor[OF c e2])
    moreover have "ranges_ok (L @ R')" using ok by (auto simp: ranges_ok_append ranges_ok_Cons)
    moreover have "elems_r R' = ({fst r ..< snd r} - {B ..< e}) \<union> elems_r R'" using whole by auto
    moreover have "remove_step e p = (s2, is_find_from s2 B it2, B)"
      using d whole e2 by (simp add: p remove_step_def Let_def B_def[symmetric] max_absorb1 B(2))
    ultimately show ?thesis using goal by blast
  next
    case front
    let ?s1 = "it_set s' it e (snd r)"
    have c1: "cursor_at ?s1 it L ((e, snd r) # R')" by (rule cursor_set(1)[OF c])
    moreover have "ranges_ok (L @ (e, snd r) # R')"
      using okr front B by (auto simp: ranges_ok_append ranges_ok_Cons; fastforce)
    moreover have "elems_r ((e, snd r) # R') = ({fst r ..< snd r} - {B ..< e}) \<union> elems_r R'"
    proof -
      have "{e ..< snd r} = {fst r ..< snd r} - {B ..< e}" using front B by auto
      then show ?thesis by simp
    qed
    moreover have "remove_step e p = (?s1, is_find_from ?s1 B it, B)"
      using d front by (simp add: p remove_step_def Let_def B_def[symmetric] max_absorb1 B(2))
    ultimately show ?thesis using goal by blast
  next
    case rear
    let ?s1 = "it_set s' it (fst r) B"
    have c1: "cursor_at ?s1 it L ((fst r, B) # R')" by (rule cursor_set(1)[OF c])
    moreover have "ranges_ok (L @ (fst r, B) # R')"
      using okr rear B by (auto simp: ranges_ok_append ranges_ok_Cons; fastforce)
    moreover have "elems_r ((fst r, B) # R') = ({fst r ..< snd r} - {B ..< e}) \<union> elems_r R'"
    proof -
      have "{fst r ..< B} = {fst r ..< snd r} - {B ..< e}" using rear B by auto
      then show ?thesis by simp
    qed
    moreover have "remove_step e p = (?s1, is_find_from ?s1 B it, B)"
      using d rear by (simp add: p remove_step_def Let_def B_def[symmetric] max_absorb1 B(2))
    ultimately show ?thesis using goal by blast
  qed
  then show "remove_inv s b e (remove_step e p)"
    "elems (fst (remove_step e p)) \<inter> {b ..< e} \<subset> elems (fst p) \<inter> {b ..< e}" by auto
qed

lemma do_remove_correct:
  assumes wf: "crv_wf s" and c: "cursor_at s it L R" and lo: "\<forall>r \<in> set L. snd r \<le> b" and be: "b < e"
    and run: "do_remove s it b e = (s', it')"
  shows "crv_wf s'" and "elems s' = elems s - {b ..< e}"
    and "\<exists>L R. cursor_at s' it' L R \<and> (\<forall>r \<in> set L. snd r \<le> e) \<and> (\<forall>r \<in> set R. e \<le> fst r)"
proof -
  let ?p0 = "(s, is_find_from s b it, b)"
  let ?Q = "\<lambda>p. remove_inv s b e p \<and> \<not> remove_test e p"
  have 0: "remove_inv s b e ?p0" by (rule remove_inv_find[OF wf _ be _ _ _ c lo]) auto
  have "?Q (while (remove_test e) (remove_step e) ?p0)"
  proof (rule while_rule[where P = "remove_inv s b e"
        and r = "measure (\<lambda>p. card (elems (fst p) \<inter> {b ..< e}))"])
    show "(remove_step e p, p) \<in> measure (\<lambda>p. card (elems (fst p) \<inter> {b ..< e}))"
      if "remove_inv s b e p" "remove_test e p" for p
      using psubset_card_mono[OF _ remove_step_inv(2)[OF that]] by simp
  qed (use 0 remove_step_inv(1) in auto)
  then obtain b' where q: "remove_inv s b e (s', it', b')" "\<not> remove_test e (s', it', b')"
    using run by (auto simp: do_remove_def split: prod.splits)
  obtain L' R' where i: "crv_wf s'" "b \<le> b'" "b' < e" "elems s' - {b ..< e} = elems s - {b ..< e}"
    "elems s' \<inter> {b ..< b'} = {}" "elems s' \<subseteq> elems s"
    "cursor_at s' it' L' R'" "\<forall>r \<in> set L'. snd r \<le> b'" "\<forall>r \<in> set R'. b' < snd r"
    using q(1) unfolding remove_inv_def by auto
  have ok: "ranges_ok R'" and el: "elems s' = elems_r L' \<union> elems_r R'"
    using i(1,7) by (auto simp: crv_wf_def cursor_at_def ranges_ok_append elems_def)
  have ge: "\<forall>r \<in> set R'. e \<le> fst r"
  proof (cases R')
    case (Cons r R)
    then have "e \<le> fst r"
      using q(2) cursor_not_end[OF i(7)] cursor_deref[of s' it' L' r R] i(7)
      by (auto simp: remove_test_def)
    then show ?thesis using ok ranges_ok_hd_le[of r R] Cons le_trans by blast
  qed simp
  have "x \<notin> elems s'" if "b' \<le> x" "x < e" for x
    using elems_r_lt_of_snd_le[OF i(8)] elems_r_ge_of_fst_ge[OF ge] that el by (metis UnE leD)
  then have "elems s' \<inter> {b ..< e} = {}" using i(5) by (metis IntE atLeastLessThan_iff disjoint_iff not_le)
  then show "elems s' = elems s - {b ..< e}" using i(4) by blast
  show "crv_wf s'" by (rule i(1))
  have "\<forall>r \<in> set L'. snd r \<le> e" using i(3,8) by fastforce
  then show "\<exists>L R. cursor_at s' it' L R \<and> (\<forall>r \<in> set L. snd r \<le> e) \<and> (\<forall>r \<in> set R. e \<le> fst r)"
    using i(7) ge by blast
qed

theorem is_remove_correct:
  assumes "crv_wf s" and "0 < n"
  shows "crv_wf (is_remove s i n)" and "elems (is_remove s i n) = elems s - {i ..< i + n}"
proof -
  obtain s' it' where e: "do_remove s (is_find s i) i (i + n) = (s', it')"
    by (cases "do_remove s (is_find s i) i (i + n)")
  obtain L R where f: "cursor_at s (is_find s i) L R" "\<forall>r \<in> set L. snd r \<le> i"
    using find_cursor[OF assms(1)] by metis
  show "crv_wf (is_remove s i n)" "elems (is_remove s i n) = elems s - {i ..< i + n}"
    using do_remove_correct[OF assms(1) f _ e] assms(2) e by (auto simp: is_remove_def)
qed

lemma remove_all_loop_correct:
  assumes "crv_wf s" and "cursor_at s it L R" and "ranges_ok rs" and "\<forall>r \<in> set L. \<forall>q \<in> set rs. snd r \<le> fst q"
  shows "crv_wf (remove_all_loop s it rs) \<and> elems (remove_all_loop s it rs) = elems s - elems_r rs"
  using assms
proof (induction rs arbitrary: s it L R)
  case Nil
  then show ?case by simp
next
  case (Cons q rs)
  obtain s' it' where e: "do_remove s it (fst q) (snd q) = (s', it')"
    by (cases "do_remove s it (fst q) (snd q)")
  have q: "fst q < snd q" "ranges_ok rs" "\<forall>x \<in> set rs. snd q < fst x"
    using Cons.prems(3) by (auto simp: ranges_ok_Cons)
  have lo: "\<forall>r \<in> set L. snd r \<le> fst q" using Cons.prems(4) by simp
  obtain L' R' where d: "crv_wf s'" "elems s' = elems s - {fst q ..< snd q}"
    "cursor_at s' it' L' R'" "\<forall>r \<in> set L'. snd r \<le> snd q" "\<forall>r \<in> set R'. snd q \<le> fst r"
    using do_remove_correct[OF Cons.prems(1,2) lo q(1) e] by blast
  show ?case
  proof (cases "it' = it_end s'")
    case True
    then have "R' = []" using cursor_at_end_iff(1)[OF d(3)] by simp
    then have "elems s' = elems_r L'" using d(3) by (simp add: cursor_at_def elems_def)
    then have "\<forall>x \<in> elems s'. x < snd q" using elems_r_lt_of_snd_le[OF d(4)] by simp
    moreover have "\<forall>x \<in> elems_r rs. snd q < x" using q(3) by (fastforce simp: elems_r_def)
    ultimately have "elems s' - elems_r rs = elems s'" by fastforce
    then show ?thesis using e True d(1,2) by auto
  next
    case False
    have "\<forall>r \<in> set L'. \<forall>x \<in> set rs. snd r \<le> fst x" using d(4) q(3) by (meson le_trans less_imp_le)
    from Cons.IH[OF d(1,3) q(2) this] show ?thesis using e False d(2) by auto
  qed
qed

theorem is_remove_all_correct:
  assumes "crv_wf s" and "crv_wf t"
  shows "crv_wf (is_remove_all s t)" and "elems (is_remove_all s t) = elems s - elems t"
proof -
  have "crv_wf (remove_all_loop s (it_begin s) (ranges t)) \<and>
      elems (remove_all_loop s (it_begin s) (ranges t)) = elems s - elems_r (ranges t)"
    by (rule remove_all_loop_correct[OF assms(1) cursor_begin]) (use assms in \<open>auto simp: crv_wf_def\<close>)
  then show "crv_wf (is_remove_all s t)" "elems (is_remove_all s t) = elems s - elems t"
    by (simp_all add: is_remove_all_def elems_def ranges_def[symmetric])
qed

text \<open>Two index sets with the same members hold the same ranges, however they are chunked.\<close>

lemma ranges_canonical:
  "crv_wf s \<Longrightarrow> crv_wf t \<Longrightarrow> elems s = elems t \<longleftrightarrow> ranges s = ranges t"
  using ranges_ok_inj by (auto simp: crv_wf_def elems_def)

lemma as_indexes_canonical: "crv_wf s \<Longrightarrow> as_indexes s = sorted_list_of_set (elems s)"
  using sorted_as_indexes[of s] set_as_indexes[of s]
  by (simp add: strict_sorted_iff[symmetric] sorted_list_of_set.idem_if_sorted_distinct strict_sorted_equal)

lemmas index_set_correct =
  contains_iff is_add_wf is_add_elems is_add_all_correct is_of_list_correct is_set_correct
  is_clear_correct is_shift_correct is_unshift_correct is_insert_at_correct is_insert_all_correct
  is_shift_for_insert_at_correct is_shift_for_insert_all_correct is_erase_at_correct
  is_erase_all_correct is_remove_correct is_remove_all_correct

end
