(* ===== verification/IndexSetProps.thy ===== *)
theory IndexSetProps
  imports IndexSetRemove
begin

text \<open>
  The properties of \<open>IndexSet\<close>: every operation refines the operation on sets of positions it stands
  for and keeps the representation invariant; the two places where the summaries kept in the chunks
  are wrong or are used wrongly are stated as what the code computes there.
\<close>

section \<open>Runs of operations\<close>









text \<open>
  \<open>find\<close> returns the position of the first range that ends behind the index: the ranges in
  front of the iterator end at or before it, those from the iterator on end behind it; and
  \<open>contains\<close> reads off membership there.
\<close>

theorem find_first_range:
  assumes "crv_wf s"
  shows "(\<exists>L R. cursor_at s (is_find s i) L R \<and> ranges s = L @ R \<and>
            list_all (\<lambda>r. snd r \<le> i) L \<and> list_all (\<lambda>r. i < snd r) R) \<and>
    (is_contains s i \<longleftrightarrow> i \<in> elems s)"
  using find_cursor[OF assms, of i] contains_iff[OF assms] unfolding list_all_iff by metis

text \<open>A concrete set with two chunks, used to instantiate the properties.\<close>

definition sample_set :: crv where
  "sample_set =
     [\<lparr>data = [(0, 1), (5, 6)], c_begin = 0, c_end = 6, c_count = 2\<rparr>,
      \<lparr>data = [(10, 20)], c_begin = 10, c_end = 20, c_count = 10\<rparr>]"

lemma sample_set_wf: "crv_wf sample_set"
  by (simp add: sample_set_def crv_wf_def chunk_ok_def max_size_def ranges_ok_Cons size_r_def len_r_def)

lemma sample_set_elems: "elems sample_set = {0, 5} \<union> {10 ..< 20}"
  by (auto simp: sample_set_def elems_def)

lemma find_first_range_witness:
  "(\<exists>L R. cursor_at sample_set (is_find sample_set 7) L R \<and> ranges sample_set = L @ R \<and>
      list_all (\<lambda>r. snd r \<le> 7) L \<and> list_all (\<lambda>r. 7 < snd r) R) \<and>
   (is_contains sample_set 7 \<longleftrightarrow> 7 \<in> elems sample_set)"
  by (rule find_first_range[OF sample_set_wf])

text \<open>
  C2. \<open>shift\<close> and \<open>unshift\<close> renumber between the positions of a list and those of the list with the
  rows of the set inserted: \<open>shift\<close> is strictly increasing, misses exactly the members, and \<open>unshift\<close>
  undoes it in both directions.
\<close>

theorem shift_unshift_inverse:
  assumes "crv_wf s"
  shows "(\<forall>i. is_unshift s (is_shift s i) = i) \<and>
    (\<forall>i. i \<in> elems s \<or> is_shift s (is_unshift s i) = i) \<and>
    range (is_shift s) = - elems s \<and> (\<forall>i j. i < j \<longleftrightarrow> is_shift s i < is_shift s j)"
  using index_renumbering.down_up[OF assms] index_renumbering.up_down[OF assms]
    index_renumbering.up_onto[OF assms] index_renumbering.up_mono[OF assms] by blast

lemma shift_unshift_inverse_witness:
  "(\<forall>i. is_unshift sample_set (is_shift sample_set i) = i) \<and>
    (\<forall>i. i \<in> elems sample_set \<or> is_shift sample_set (is_unshift sample_set i) = i) \<and>
    range (is_shift sample_set) = - elems sample_set \<and>
    (\<forall>i j. i < j \<longleftrightarrow> is_shift sample_set i < is_shift sample_set j)"
  by (rule shift_unshift_inverse[OF sample_set_wf])

text \<open>
  C3. Erasing the positions that were just inserted gives back the same ranges, and removing the rows
  of \<open>t\<close> and then those of \<open>u\<close> from a list is removing the rows of \<open>insert_at(t)\<close> applied to \<open>u\<close>.
\<close>

theorem insert_erase_roundtrip:
  assumes "crv_wf s" and "crv_wf t"
  shows "ranges (is_erase_all (is_insert_all s t) t) = ranges s \<and>
    nths (nths xs (- elems t)) (- elems s) = nths xs (- elems (is_insert_all s t))"
proof -
  have "elems (is_erase_all (is_insert_all s t) t) = elems s"
    using assms by (simp add: index_set_correct erased_compose)
  then have "ranges (is_erase_all (is_insert_all s t) t) = ranges s"
    using assms by (subst ranges_canonical[symmetric]) (simp_all add: index_set_correct)
  then show ?thesis using assms by (simp add: index_set_correct nths_compose)
qed

lemma insert_erase_roundtrip_witness:
  "ranges (is_erase_all (is_insert_all sample_set sample_set) sample_set) = ranges sample_set \<and>
   nths (nths [0 ..< 30] (- elems sample_set)) (- elems sample_set) =
     nths [0 ..< 30] (- elems (is_insert_all sample_set sample_set))"
  by (rule insert_erase_roundtrip[OF sample_set_wf sample_set_wf])

text \<open>
  C4. \<open>erase_or_unshift\<close> erases the position and reports \<open>npos\<close> for a member, the renumbered position
  otherwise; both agree with \<open>unshift\<close> and \<open>erase_at\<close>, although it computes them in one pass over the
  chunk summaries.
\<close>

theorem erase_or_unshift_agrees:
  assumes "crv_wf s"
  shows "snd (is_erase_or_unshift s i) = (if is_contains s i then npos else is_unshift s i) \<and>
    ranges (fst (is_erase_or_unshift s i)) = ranges (is_erase_at s i)"
proof -
  obtain s' k where e: "is_erase_or_unshift s i = (s', k)" by (cases "is_erase_or_unshift s i")
  have "ranges s' = ranges (is_erase_at s i)"
    using is_erase_or_unshift_correct(1,2)[OF assms e] is_erase_at_correct[OF assms, of i]
    by (subst ranges_canonical[symmetric]) auto
  then show ?thesis
    using is_erase_or_unshift_correct(3)[OF assms e] e assms by (simp add: index_set_correct)
qed

lemma erase_or_unshift_agrees_witness:
  "snd (is_erase_or_unshift sample_set 7) =
     (if is_contains sample_set 7 then npos else is_unshift sample_set 7) \<and>
   ranges (fst (is_erase_or_unshift sample_set 7)) = ranges (is_erase_at sample_set 7)"
  by (rule erase_or_unshift_agrees[OF sample_set_wf])

text \<open>
  \<open>add_shifted\<close> adds the index renumbered past the members in front of it, and returns it;
  \<open>unshift\<close> of the result is the index given, and the result was not a member before.
\<close>

theorem add_shifted_position:
  assumes "crv_wf s" and "is_add_shifted s i = (s', j)"
  shows "j = is_shift s i \<and> \<not> is_contains s j \<and> is_unshift s j = i \<and> elems s' = insert j (elems s)"
  using is_add_shifted_correct[OF assms] assms(1) shift_pos_spec(1)[of "elems s" i]
  by (simp add: index_set_correct)

lemma add_shifted_position_witness:
  "15 + 5 = is_shift sample_set (8 :: nat) \<and> \<not> is_contains sample_set (15 + 5) \<and>
   is_unshift sample_set (15 + 5) = 8 \<and>
   elems (fst (is_add_shifted sample_set 8)) = insert (15 + 5) (elems sample_set)"
proof -
  have "is_add_shifted sample_set 8 = (fst (is_add_shifted sample_set 8), 15 + 5)"
    by code_simp
  from add_shifted_position[OF sample_set_wf this] show ?thesis .
qed

text \<open>
  \<open>add_shifted_by\<close> composes: removing the rows of \<open>s\<close> from a list and then the rows of \<open>v\<close>, given
  by their positions before the rows of \<open>t\<close> went, is removing the rows of the result. The flat
  ranges are right in every case; the chunk summaries are right when the result has at most
  \<open>max_size\<close> ranges.
\<close>

theorem add_shifted_by_composes:
  assumes "crv_wf s" and "crv_wf t" and "crv_wf v"
  shows "nths xs (- elems (is_add_shifted_by s t v)) =
      nths (nths xs (- elems s)) (- erased_pos (elems t) (elems v)) \<and>
    verify_ranges None (ranges (is_add_shifted_by s t v)) \<and>
    (length (ranges (is_add_shifted_by s t v)) \<le> max_size \<longrightarrow> crv_verify (is_add_shifted_by s t v))"
  using is_add_shifted_by_ranges[OF assms] crv_verify_of_wf
  by (auto simp: nths_compose verify_ranges_iff)

lemma add_shifted_by_composes_witness:
  "nths [0 ..< 40] (- elems (is_add_shifted_by sample_set sample_set sample_set)) =
      nths (nths [0 ..< 40] (- elems sample_set)) (- erased_pos (elems sample_set) (elems sample_set)) \<and>
    verify_ranges None (ranges (is_add_shifted_by sample_set sample_set sample_set)) \<and>
    crv_verify (is_add_shifted_by sample_set sample_set sample_set)"
proof -
  have "length (ranges (is_add_shifted_by sample_set sample_set sample_set)) = 3"
    by code_simp
  then show ?thesis
    using add_shifted_by_composes[OF sample_set_wf sample_set_wf sample_set_wf, of "[0 ..< 40]"]
    by (simp add: max_size_def del: upt_rec_numeral)
qed

text \<open>
  \<open>count\<close> is exact for an interval that begins at 0, and in general short by exactly
  \<open>count_missing\<close>, the part of the first range of a chunk that its early return does not look at.
\<close>

theorem count_is_exact_up_to_missing:
  assumes "crv_wf s" and "a \<le> b"
  shows "is_count s a b + count_missing s a b = card {i \<in> elems s. a \<le> i \<and> i < b} \<and>
    is_count s 0 b = card {i \<in> elems s. i < b}"
proof -
  have "{i \<in> elems s. a \<le> i \<and> i < b} = {i \<in> elems s. i < b} - {i \<in> elems s. i < a}" by auto
  moreover have "{i \<in> elems s. i < a} \<subseteq> {i \<in> elems s. i < b}" using assms(2) by auto
  ultimately have "card {i \<in> elems s. a \<le> i \<and> i < b} = below (elems s) b - below (elems s) a"
    by (simp add: below_def card_Diff_subset)
  then show ?thesis
    using is_count_correct[OF assms] is_count_below[OF assms(1), of b] by (simp add: below_def)
qed

lemma count_is_exact_up_to_missing_witness:
  "is_count sample_set 5 15 + count_missing sample_set 5 15 =
     card {i \<in> elems sample_set. 5 \<le> i \<and> i < 15} \<and>
   is_count sample_set 0 15 = card {i \<in> elems sample_set. i < 15}"
  by (rule count_is_exact_up_to_missing[OF sample_set_wf]) simp

text \<open>
  \<open>count\<close> is not exact in general: for the set with the ranges \<open>[0, 1)\<close> and \<open>[5, 6)\<close> in one chunk
  and \<open>[10, 20)\<close> in the next it finds one member in the interval from 5 to 15, which has six.
\<close>

theorem count_misses_members:
  "crv_verify sample_set \<and> is_count sample_set 5 15 = 1 \<and>
   card {i \<in> elems sample_set. 5 \<le> i \<and> i < 15} = 6"
proof -
  have "{i \<in> elems sample_set. 5 \<le> i \<and> i < 15} = {5, 10, 11, 12, 13, 14}"
    by (auto simp: sample_set_elems)
  moreover have "is_count sample_set 5 15 = 1" by code_simp
  ultimately show ?thesis using crv_verify_of_wf[OF sample_set_wf] by simp
qed

text \<open>
  When a range opens a chunk that the builder did not preallocate, the builder records the count
  1 for it whatever its length, so that \<open>verify()\<close> fails on the finished vector if the range is longer.
\<close>

theorem builder_miscounts_new_chunk:
  assumes "builder_inv True b rs" and "opens_chunk b r" and "fst r + 1 < snd r"
  shows "c_count (last (finalize (push_range b r))) = 1 \<and>
    ranges (finalize (push_range b r)) = push_flat rs r \<and> \<not> crv_verify (finalize (push_range b r))"
proof -
  let ?c = "m_data b ! m_outer_pos b"
  have o: "data ?c \<noteq> []" "fst r \<noteq> snd (last (data ?c))" "\<not> length (data ?c) < max_size"
    "m_outer_pos b + 1 \<ge> length (m_data b)"
    using assms(2) by (auto simp: opens_chunk_def Let_def)
  obtain A c B where b: "m_data b = A @ c # B" "m_outer_pos b = length A"
    using assms(1) unfolding builder_inv_def by blast
  have B: "B = []" using o(4) b by simp
  define d where "d = A @ [c\<lparr>c_end := snd (last (data c))\<rparr>]"
  have p: "push_range b r =
      \<lparr>m_data = d @ [\<lparr>data = [r], c_begin = fst r, c_end = 0, c_count = 1\<rparr>], m_outer_pos = length d\<rparr>"
    using o b B by (simp add: push_range_def start_chunk_def Let_def d_def)
  have f: "finalize (push_range b r) =
      d @ [\<lparr>data = [r], c_begin = fst r, c_end = snd r, c_count = 1\<rparr>]"
    by (simp add: p finalize_def Let_def)
  have "ranges (finalize (push_range b r)) = push_flat rs r"
    using finalize_ranges(1)[OF builder_inv_push[OF builder_inv_weaken[OF assms(1)]]] assms(3) by simp
  then show ?thesis using f assms(3) by (auto simp: crv_verify_def verify_chunk_def)
qed

text \<open>A builder whose only chunk is full, as after 256 single indices.\<close>

definition full_builder :: builder where
  "full_builder =
     \<lparr>m_data = [\<lparr>data = map (\<lambda>k. (2 * k, 2 * k + 1)) [0 ..< 256], c_begin = 0, c_end = 0, c_count = 256\<rparr>],
      m_outer_pos = 0\<rparr>"

lemma full_builder_inv:
  "builder_inv True full_builder (map (\<lambda>k. (2 * k, 2 * k + 1)) [0 ..< 256])"
proof (rule builder_invI[of _ "[]" "hd (m_data full_builder)" "[]"])
  have "hd (map (\<lambda>k. (2 * k, 2 * k + 1)) [0 ..< 256]) = (0, 1 :: nat)"
    by (simp add: hd_map)
  moreover have "size_r (map (\<lambda>k. (2 * k, 2 * k + 1)) [0 ..< n]) = n" for n
    by (induction n) (simp_all add: len_r_def)
  ultimately show "part_ok True (hd (m_data full_builder))"
    by (simp add: full_builder_def part_ok_def max_size_def del: upt_rec_numeral)
qed (auto simp: full_builder_def simp del: upt_rec_numeral)

lemma builder_miscounts_new_chunk_witness:
  "c_count (last (finalize (push_range full_builder (1000, 1010)))) = 1 \<and>
   ranges (finalize (push_range full_builder (1000, 1010))) =
     push_flat (map (\<lambda>k. (2 * k, 2 * k + 1)) [0 ..< 256]) (1000, 1010) \<and>
   \<not> crv_verify (finalize (push_range full_builder (1000, 1010)))"
proof (rule builder_miscounts_new_chunk[OF full_builder_inv])
  have "last (map (\<lambda>k. (2 * k, 2 * k + 1)) [0 ..< 256]) = (510, 511 :: nat)"
    by (simp add: last_map del: upt_rec_numeral)
  then show "opens_chunk full_builder (1000, 1010)"
    by (simp add: full_builder_def opens_chunk_def max_size_def del: upt_rec_numeral)
qed simp

end
