(* ===== verification/ChangeDiff.thy ===== *)
theory ChangeDiff
  imports PositionSets
begin

text \<open>
  A difference between two lists of rows: the positions \<open>D\<close> deleted from the old list and the positions
  \<open>I\<close> inserted into the new one, so that what is kept of the two is the same list. The lemmas say how
  one row, one edit or a whole second difference changes the pair of sets.
\<close>

definition same_kept :: "nat set \<Rightarrow> nat set \<Rightarrow> 'a list \<Rightarrow> 'a list \<Rightarrow> bool" where
  "same_kept D I xs ys \<longleftrightarrow> nths xs (- D) = nths ys (- I)"

text \<open>A row that moved: deleted at one position, inserted at the other, with the same contents.\<close>

definition moved_row :: "nat set \<Rightarrow> nat set \<Rightarrow> 'a list \<Rightarrow> 'a list \<Rightarrow> nat \<Rightarrow> nat \<Rightarrow> bool" where
  "moved_row D I xs ys f t \<longleftrightarrow>
     f \<in> D \<and> t \<in> I \<and> f < length xs \<and> t < length ys \<and> xs ! f = ys ! t"

section \<open>Rows of the kept list\<close>

lemma length_kept: "length (nths xs (- A)) = unshift_pos A (length xs)"
proof (induction xs rule: rev_induct)
  case (snoc x xs)
  then show ?case
    using below_le[of A "length xs"] by (auto simp: nths_append unshift_pos_def below_Suc)
qed (simp add: unshift_pos_def)

lemma unshift_le_len: "unshift_pos A (length (take n xs)) \<le> unshift_pos A (length xs)"
  by (simp add: unshift_mono)

lemma kept_nth:
  assumes "p < length xs" and "p \<notin> A"
  shows "unshift_pos A p < length (nths xs (- A))" and "nths xs (- A) ! unshift_pos A p = xs ! p"
proof -
  obtain us vs where s: "xs = us @ xs ! p # vs" "length us = p" using nth_split[OF assms(1)] .
  have "nths xs (- A) = nths (us @ xs ! p # vs) (- A)" using s(1) by simp
  also have "\<dots> = nths us (- A) @ xs ! p # nths vs {j. Suc (j + length us) \<in> - A}"
    using assms(2) s(2) by (simp add: nths_append nths_Cons)
  finally have n: "nths xs (- A) = nths us (- A) @ xs ! p # nths vs {j. Suc (j + length us) \<in> - A}" .
  then show "nths xs (- A) ! unshift_pos A p = xs ! p"
    using length_kept[of us A] s(2) by (metis nth_append_length)
  show "unshift_pos A p < length (nths xs (- A))" using n length_kept[of us A] s(2) by simp
qed

lemma shift_kept_less:
  assumes "finite A" and "u < length (nths xs (- A))"
  shows "shift_pos A u < length xs"
proof (rule ccontr)
  assume "\<not> shift_pos A u < length xs"
  then have "unshift_pos A (length xs) \<le> unshift_pos A (shift_pos A u)" by (simp add: unshift_mono)
  then show False using assms length_kept[of xs A] by simp
qed

lemma kept_row:
  assumes "same_kept D I xs ys" and "finite D" and "p < length ys" and "p \<notin> I"
  shows "shift_pos D (unshift_pos I p) < length xs" and "shift_pos D (unshift_pos I p) \<notin> D"
    and "xs ! shift_pos D (unshift_pos I p) = ys ! p"
proof -
  let ?u = "unshift_pos I p"
  have u: "?u < length (nths ys (- I))" "nths ys (- I) ! ?u = ys ! p" using kept_nth assms(3,4) by auto
  then show q: "shift_pos D ?u < length xs" "shift_pos D ?u \<notin> D"
    using assms(1,2) shift_kept_less[of D ?u xs] shift_pos_spec(1) by (auto simp: same_kept_def)
  have "nths xs (- D) ! unshift_pos D (shift_pos D ?u) = xs ! shift_pos D ?u"
    by (rule kept_nth(2)[OF q])
  then show "xs ! shift_pos D ?u = ys ! p" using u(2) assms(1,2) by (simp add: same_kept_def)
qed

section \<open>One row more or less\<close>

lemma drop_kept_row:
  assumes "same_kept D I xs ys" and "finite D" and "finite I" and "p \<notin> I"
  shows "same_kept (insert (shift_pos D (unshift_pos I p)) D) (insert p I) xs ys"
proof -
  let ?u = "unshift_pos I p"
  have "nths ys (- insert p I) = nths (nths ys (- I)) (- {?u})"
    using nths_compose[of ys I "{?u}"] compose_single[OF assms(3), of ?u] assms(4) by simp
  also have "\<dots> = nths xs (- insert (shift_pos D ?u) D)"
    using assms(1) nths_compose[of xs D "{?u}"] compose_single[OF assms(2), of ?u]
    by (simp add: same_kept_def)
  finally show ?thesis by (simp add: same_kept_def)
qed

lemma nths_cong: "(\<And>i. i < length xs \<Longrightarrow> i \<in> A \<longleftrightarrow> i \<in> B) \<Longrightarrow> nths xs A = nths xs B"
proof (induction xs rule: rev_induct)
  case (snoc x xs)
  have "nths xs A = nths xs B" by (rule snoc.IH) (use snoc.prems in \<open>simp add: less_SucI\<close>)
  then show ?case using snoc.prems[of "length xs"] by (simp add: nths_append)
qed simp

lemma kept_with_row:
  assumes "t < length ys"
  shows "nths ys (- (I - {t})) =
    nths (take t ys) (- I) @ ys ! t # nths (drop (Suc t) ys) {j. Suc (j + t) \<in> - I}"
    and "t \<in> I \<Longrightarrow>
      nths ys (- I) = nths (take t ys) (- I) @ nths (drop (Suc t) ys) {j. Suc (j + t) \<in> - I}"
proof -
  obtain us vs where s: "ys = us @ ys ! t # vs" "length us = t" using nth_split[OF assms] .
  have td: "take t ys = us" "drop (Suc t) ys = vs"
    using arg_cong[OF s(1), of "take t"] arg_cong[OF s(1), of "drop (Suc t)"] s(2) by simp_all
  have 1: "nths us (- (I - {t})) = nths us (- I)" by (rule nths_cong) (use s(2) in auto)
  have 2: "nths vs {j. Suc (j + t) \<in> - (I - {t})} = nths vs {j. Suc (j + t) \<in> - I}"
    by (rule nths_cong) auto
  have "nths (us @ ys ! t # vs) (- (I - {t})) = nths us (- (I - {t})) @ ys ! t #
      nths vs {j. Suc (j + t) \<in> - (I - {t})}"
    unfolding nths_append nths_Cons s(2) by simp
  then show "nths ys (- (I - {t})) =
    nths (take t ys) (- I) @ ys ! t # nths (drop (Suc t) ys) {j. Suc (j + t) \<in> - I}"
    unfolding 1 2 td s(1)[symmetric] .
  assume "t \<in> I"
  then have "nths (us @ ys ! t # vs) (- I) = nths us (- I) @ nths vs {j. Suc (j + t) \<in> - I}"
    unfolding nths_append nths_Cons s(2) by simp
  then show "nths ys (- I) =
    nths (take t ys) (- I) @ nths (drop (Suc t) ys) {j. Suc (j + t) \<in> - I}"
    unfolding td s(1)[symmetric] .
qed

lemma unmove_row:
  assumes "same_kept D I xs ys" and "moved_row D I xs ys f t" and "unshift_pos D f = unshift_pos I t"
  shows "same_kept (D - {f}) (I - {t}) xs ys"
proof -
  have m: "f \<in> D" "t \<in> I" "f < length xs" "t < length ys" "xs ! f = ys ! t"
    using assms(2) by (auto simp: moved_row_def)
  let ?a = "nths (take f xs) (- D)" and ?b = "nths (drop (Suc f) xs) {j. Suc (j + f) \<in> - D}"
  let ?c = "nths (take t ys) (- I)" and ?d = "nths (drop (Suc t) ys) {j. Suc (j + t) \<in> - I}"
  have "?a @ ?b = ?c @ ?d"
    using kept_with_row(2)[OF m(3,1)] kept_with_row(2)[OF m(4,2)] assms(1) by (simp add: same_kept_def)
  moreover have "length ?a = length ?c"
    using length_kept[of "take f xs" D] length_kept[of "take t ys" I] assms(3) m(3,4) by (simp add: min_def)
  ultimately have "?a = ?c" "?b = ?d" by auto
  then show ?thesis
    using kept_with_row(1)[OF m(3), of D] kept_with_row(1)[OF m(4), of I] m(5) by (simp add: same_kept_def)
qed

section \<open>Edits of the new list\<close>

lemma same_kept_refl: "same_kept {} {} xs xs"
  by (simp add: same_kept_def)

lemma same_kept_insert:
  assumes "same_kept D I xs ys" and "i \<le> length ys"
  shows "same_kept D (compose_pos {i ..< i + length zs} I) xs (take i ys @ zs @ drop i ys)"
  using assms nths_insert_rows[OF assms(2), of zs] by (simp add: same_kept_def nths_compose[symmetric])

lemma same_kept_erase:
  assumes "same_kept D I xs ys" and "i < length ys" and "finite D" and "finite I"
  shows "i \<in> I \<Longrightarrow> same_kept D (erased_pos {i} I) xs (list_erase_at ys i)"
    and "i \<notin> I \<Longrightarrow>
      same_kept (insert (shift_pos D (unshift_pos I i)) D) (erased_pos {i} I) xs (list_erase_at ys i)"
proof -
  have e: "nths (list_erase_at ys i) (- erased_pos {i} I) = nths ys (- insert i I)"
    using nths_erase_at[OF assms(2)] nths_compose[of ys "{i}" "erased_pos {i} I"]
    by (simp add: compose_erased)
  then show "i \<in> I \<Longrightarrow> same_kept D (erased_pos {i} I) xs (list_erase_at ys i)"
    using assms(1) by (simp add: same_kept_def insert_absorb)
  show "i \<notin> I \<Longrightarrow>
      same_kept (insert (shift_pos D (unshift_pos I i)) D) (erased_pos {i} I) xs (list_erase_at ys i)"
    using drop_kept_row[OF assms(1,3,4)] e by (simp add: same_kept_def)
qed

lemma same_kept_all: "same_kept {..< length xs} {} xs []"
proof -
  have "nths xs (- {..< length xs}) = nths xs {}" by (rule nths_cong) auto
  then show ?thesis by (simp add: same_kept_def)
qed

section \<open>Two differences in a row\<close>

lemma same_kept_compose:
  assumes "same_kept D I xs ys" and "same_kept E J ys zs" and "finite E" and "finite I"
  shows "same_kept (compose_pos D (erased_pos I E)) (compose_pos J (erased_pos E I)) xs zs"
proof -
  have "nths zs (- compose_pos J (erased_pos E I)) = nths (nths ys (- E)) (- erased_pos E I)"
    using assms(2) by (simp add: nths_compose[symmetric] same_kept_def)
  also have "\<dots> = nths (nths ys (- I)) (- erased_pos I E)"
    by (simp add: nths_compose compose_erased Un_commute)
  also have "\<dots> = nths xs (- compose_pos D (erased_pos I E))"
    using assms(1) by (simp add: nths_compose[symmetric] same_kept_def)
  finally show ?thesis by (simp add: same_kept_def)
qed

lemma compose_pos_bound:
  assumes "finite A" and "A \<subseteq> {..< length xs}" and "U \<subseteq> {..< length (nths xs (- A))}"
  shows "compose_pos A U \<subseteq> {..< length xs}"
  using assms shift_kept_less[OF assms(1), of _ xs] by (auto simp: compose_pos_alt)

lemma erased_pos_bound:
  "U \<subseteq> {..< length xs} \<Longrightarrow> erased_pos A U \<subseteq> {..< length (nths xs (- A))}"
  using kept_nth(1)[of _ xs A] by (auto simp: erased_pos_def subset_iff)


text \<open>
  The abstract specification of a change builder: a difference between two lists of rows, with the
  rows known to have moved, and a set of marked rows. Two differences in a row have a composition;
  every operation of the builder must be the composition with the difference of one edit, and
  \<open>merge\<close> the composition with the other builder.
\<close>

lemma nths_UNIV [simp]: "nths xs UNIV = xs"
  by (simp add: nths_all)

lemma inj_pairs:
  assumes "inj_on fst P" and "inj_on snd P"
  shows "(f, t) \<in> P \<Longrightarrow> (f, t') \<in> P \<Longrightarrow> t = t'" and "(f, t) \<in> P \<Longrightarrow> (f', t) \<in> P \<Longrightarrow> f = f'"
proof -
  show "(f, t) \<in> P \<Longrightarrow> (f, t') \<in> P \<Longrightarrow> t = t'"
    using inj_onD[OF assms(1), of "(f, t)" "(f, t')"] by simp
  show "(f, t) \<in> P \<Longrightarrow> (f', t) \<in> P \<Longrightarrow> f = f'"
    using inj_onD[OF assms(2), of "(f, t)" "(f', t)"] by simp
qed

section \<open>Differences with moves\<close>

definition diff_ok :: "nat set \<Rightarrow> nat set \<Rightarrow> (nat \<times> nat) set \<Rightarrow> 'a list \<Rightarrow> 'a list \<Rightarrow> bool" where
  "diff_ok D I P xs ys \<longleftrightarrow>
     D \<subseteq> {..< length xs} \<and> I \<subseteq> {..< length ys} \<and> same_kept D I xs ys \<and>
     (\<forall>(f, t) \<in> P. moved_row D I xs ys f t) \<and> inj_on fst P \<and> inj_on snd P"

definition merge_del :: "nat set \<Rightarrow> nat set \<Rightarrow> nat set \<Rightarrow> nat set" where
  "merge_del D I E = compose_pos D (erased_pos I E)"

definition merge_ins :: "nat set \<Rightarrow> nat set \<Rightarrow> nat set \<Rightarrow> nat set" where
  "merge_ins I E J = compose_pos J (erased_pos E I)"

text \<open>
  The moves of a composition: a move continued by a move of the second difference, a move whose row
  the second difference keeps, and a move of the second difference of a row the first one kept.
\<close>

definition merge_moves ::
  "nat set \<Rightarrow> nat set \<Rightarrow> nat set \<Rightarrow> nat set \<Rightarrow> (nat \<times> nat) set \<Rightarrow> (nat \<times> nat) set \<Rightarrow> (nat \<times> nat) set"
where
  "merge_moves D I E J P Q =
     P O Q \<union>
     (\<lambda>(f, t). (f, shift_pos J (unshift_pos E t))) ` {(f, t) \<in> P. t \<notin> E} \<union>
     (\<lambda>(f, t). (shift_pos D (unshift_pos I f), t)) ` {(f, t) \<in> Q. f \<notin> I}"

text \<open>The marks of a composition: marks follow their rows, and those of the second difference join.\<close>

definition merge_marks :: "nat set \<Rightarrow> nat set \<Rightarrow> (nat \<times> nat) set \<Rightarrow> nat set \<Rightarrow> nat set \<Rightarrow> nat set" where
  "merge_marks E J Q M N = shifted_pos J (erased_pos E M) \<union> N \<union> Q `` M"

lemma diff_okD:
  assumes "diff_ok D I P xs ys"
  shows "D \<subseteq> {..< length xs}" "I \<subseteq> {..< length ys}" "finite D" "finite I" "same_kept D I xs ys"
    "inj_on fst P" "inj_on snd P"
  using assms by (auto simp: diff_ok_def intro: finite_subset)

lemma diff_ok_move: "diff_ok D I P xs ys \<Longrightarrow> (f, t) \<in> P \<Longrightarrow> moved_row D I xs ys f t"
  by (auto simp: diff_ok_def)

lemma diff_ok_moveD:
  assumes "diff_ok D I P xs ys" and "(f, t) \<in> P"
  shows "f \<in> D" "t \<in> I" "f < length xs" "t < length ys" "xs ! f = ys ! t"
  using diff_ok_move[OF assms] by (auto simp: moved_row_def)

lemma diff_ok_refl: "diff_ok {} {} {} xs xs"
  by (simp add: diff_ok_def same_kept_refl)

lemma diff_ok_subset: "diff_ok D I P xs ys \<Longrightarrow> Q \<subseteq> P \<Longrightarrow> diff_ok D I Q xs ys"
  by (auto simp: diff_ok_def intro: inj_on_subset)

lemma merge_moves_cases:
  assumes "(f, t) \<in> merge_moves D I E J P Q"
  obtains (cont) m where "(f, m) \<in> P" and "(m, t) \<in> Q"
  | (kept) m where "(f, m) \<in> P" and "m \<notin> E" and "t = shift_pos J (unshift_pos E m)"
  | (new) m where "(m, t) \<in> Q" and "m \<notin> I" and "f = shift_pos D (unshift_pos I m)"
  using assms by (auto simp: merge_moves_def)

lemma merge_del_intros:
  assumes "finite D" and "finite I"
  shows "f \<in> D \<Longrightarrow> f \<in> merge_del D I E"
    and "m \<in> E \<Longrightarrow> m \<notin> I \<Longrightarrow> shift_pos D (unshift_pos I m) \<in> merge_del D I E"
  using assms by (auto simp: merge_del_def compose_pos_alt erased_pos_def)

lemma merge_ins_intros:
  assumes "finite J" and "finite E"
  shows "t \<in> J \<Longrightarrow> t \<in> merge_ins I E J"
    and "m \<in> I \<Longrightarrow> m \<notin> E \<Longrightarrow> shift_pos J (unshift_pos E m) \<in> merge_ins I E J"
  using assms by (auto simp: merge_ins_def compose_pos_alt erased_pos_def)

lemma same_kept_sym: "same_kept D I xs ys \<longleftrightarrow> same_kept I D ys xs"
  by (auto simp: same_kept_def)

theorem diff_merge:
  assumes 1: "diff_ok D I P xs ys" and 2: "diff_ok E J Q ys zs"
  shows "diff_ok (merge_del D I E) (merge_ins I E J) (merge_moves D I E J P Q) xs zs"
proof -
  note d1 = diff_okD[OF 1] and d2 = diff_okD[OF 2]
  have k2: "same_kept J E zs ys" using d2(5) same_kept_sym by blast
  have len: "length (nths xs (- D)) = length (nths ys (- I))"
    "length (nths zs (- J)) = length (nths ys (- E))" using d1(5) d2(5) by (auto simp: same_kept_def)
  have b1: "merge_del D I E \<subseteq> {..< length xs}"
    unfolding merge_del_def
    by (rule compose_pos_bound[OF d1(3,1)]) (use erased_pos_bound[OF d2(1)] len in simp)
  have b2: "merge_ins I E J \<subseteq> {..< length zs}"
    unfolding merge_ins_def
    by (rule compose_pos_bound[OF d2(4,2)]) (use erased_pos_bound[OF d1(2)] len in simp)
  have sk: "same_kept (merge_del D I E) (merge_ins I E J) xs zs"
    unfolding merge_del_def merge_ins_def by (rule same_kept_compose[OF d1(5) d2(5,3) d1(4)])
  have mv: "moved_row (merge_del D I E) (merge_ins I E J) xs zs f t"
    if "(f, t) \<in> merge_moves D I E J P Q" for f t
    using that
  proof (cases rule: merge_moves_cases)
    case (cont m)
    then show ?thesis
      using diff_ok_moveD[OF 1 cont(1)] diff_ok_moveD[OF 2 cont(2)] d1(3,4) d2(3,4)
      by (simp add: moved_row_def merge_del_intros merge_ins_intros)
  next
    case (kept m)
    have m: "f \<in> D" "m \<in> I" "m < length ys" "f < length xs" "xs ! f = ys ! m"
      using diff_ok_moveD[OF 1 kept(1)] by auto
    have "shift_pos J (unshift_pos E m) < length zs" "zs ! shift_pos J (unshift_pos E m) = ys ! m"
      using kept_row[OF k2 d2(4) m(3) kept(2)] by auto
    then show ?thesis
      using m kept(2,3) d1(3,4) d2(3,4) by (simp add: moved_row_def merge_del_intros merge_ins_intros)
  next
    case (new m)
    have m: "m \<in> E" "t \<in> J" "m < length ys" "t < length zs" "ys ! m = zs ! t"
      using diff_ok_moveD[OF 2 new(1)] by auto
    have "shift_pos D (unshift_pos I m) < length xs" "xs ! shift_pos D (unshift_pos I m) = ys ! m"
      using kept_row[OF d1(5,3) m(3) new(2)] by auto
    then show ?thesis
      using m new(2,3) d1(3,4) d2(3,4) by (simp add: moved_row_def merge_del_intros merge_ins_intros)
  qed
  have notD: "shift_pos D u \<notin> D" "shift_pos J u \<notin> J" for u
    using shift_pos_spec(1) d1(3) d2(4) by auto
  note injP = inj_pairs[OF d1(6,7)] and injQ = inj_pairs[OF d2(6,7)]
  have eqD: "shift_pos D (unshift_pos I m) = shift_pos D (unshift_pos I m') \<longleftrightarrow> m = m'"
    if "m \<notin> I" "m' \<notin> I" for m m'
    using that d1(3) by (simp add: shift_eq_iff unshift_inj)
  have eqJ: "shift_pos J (unshift_pos E m) = shift_pos J (unshift_pos E m') \<longleftrightarrow> m = m'"
    if "m \<notin> E" "m' \<notin> E" for m m'
    using that d2(4) by (simp add: shift_eq_iff unshift_inj)
  have "t = t'" if a: "(f, t) \<in> merge_moves D I E J P Q" and b: "(f, t') \<in> merge_moves D I E J P Q" for f t t'
    using a
  proof (cases rule: merge_moves_cases)
    case (cont m)
    then have m: "f \<in> D" "m \<in> E" using diff_ok_moveD[OF 1 cont(1)] diff_ok_moveD[OF 2 cont(2)] by auto
    from b show ?thesis
      by (cases rule: merge_moves_cases) (use cont m injP injQ notD in \<open>blast+\<close>)
  next
    case (kept m)
    then have m: "f \<in> D" using diff_ok_moveD[OF 1 kept(1)] by auto
    from b show ?thesis
    proof (cases rule: merge_moves_cases)
      case c: (cont m')
      then have "m = m'" using kept injP by blast
      then show ?thesis using kept(2) diff_ok_moveD(1)[OF 2 c(2)] by simp
    qed (use kept m injP notD in \<open>blast+\<close>)
  next
    case (new m)
    then have nD: "f \<notin> D" using notD by simp
    from b show ?thesis
    proof (cases rule: merge_moves_cases)
      case n': (new m')
      then have "m = m'" using new eqD by metis
      then show ?thesis using new(1) n'(1) injQ by blast
    qed (use nD diff_ok_moveD(1)[OF 1] in \<open>blast+\<close>)
  qed
  then have i1: "inj_on fst (merge_moves D I E J P Q)" by (force simp: inj_on_def)
  have "f = f'" if a: "(f, t) \<in> merge_moves D I E J P Q" and b: "(f', t) \<in> merge_moves D I E J P Q" for f f' t
    using a
  proof (cases rule: merge_moves_cases)
    case (cont m)
    then have m: "t \<in> J" "m \<in> I" using diff_ok_moveD[OF 1 cont(1)] diff_ok_moveD[OF 2 cont(2)] by auto
    from b show ?thesis
      by (cases rule: merge_moves_cases) (use cont m injP injQ notD in \<open>blast+\<close>)
  next
    case (kept m)
    then have nJ: "t \<notin> J" using notD by simp
    from b show ?thesis
    proof (cases rule: merge_moves_cases)
      case k': (kept m')
      then have "m = m'" using kept eqJ by metis
      then show ?thesis using kept(1) k'(1) injP by blast
    qed (use nJ diff_ok_moveD(2)[OF 2] in \<open>blast+\<close>)
  next
    case (new m)
    then have m: "t \<in> J" using diff_ok_moveD[OF 2 new(1)] by auto
    from b show ?thesis
    proof (cases rule: merge_moves_cases)
      case c: (cont m')
      then have "m = m'" using new injQ by blast
      then show ?thesis using new(2) diff_ok_moveD(2)[OF 1 c(1)] by simp
    next
      case k: (kept m')
      then show ?thesis using m notD by simp
    next
      case n': (new m')
      then have "m = m'" using new injQ by blast
      then show ?thesis using new n' by simp
    qed
  qed
  then have i2: "inj_on snd (merge_moves D I E J P Q)" by (force simp: inj_on_def)
  show ?thesis unfolding diff_ok_def using b1 b2 sk mv i1 i2 by blast
qed

section \<open>Taking back a move that goes nowhere\<close>

lemma below_remove:
  assumes "finite D" and "f \<in> D"
  shows "below (D - {f}) x + (if f < x then 1 else 0) = below D x"
proof -
  have "D = {f} \<union> (D - {f})" using assms(2) by auto
  then have "below D x = below {f} x + below (D - {f}) x" using below_Un[of "{f}" "D - {f}" x] by simp
  then show ?thesis by (simp add: below_single)
qed

lemma diff_unmove:
  assumes "diff_ok D I (insert (f, t) P) xs ys" and "(f, t) \<notin> P" and "unshift_pos D f = unshift_pos I t"
  shows "diff_ok (D - {f}) (I - {t}) P xs ys"
proof -
  have m: "moved_row D I xs ys f t" using diff_ok_move[OF assms(1)] by simp
  have sk: "same_kept (D - {f}) (I - {t}) xs ys"
    by (rule unmove_row[OF diff_okD(5)[OF assms(1)] m assms(3)])
  have inj: "f' \<noteq> f \<and> t' \<noteq> t" if "(f', t') \<in> P" for f' t'
    using that assms(2) diff_okD(6,7)[OF assms(1)] by (auto simp: inj_on_def)
  have "moved_row (D - {f}) (I - {t}) xs ys f' t'" if "(f', t') \<in> P" for f' t'
    using diff_ok_move[OF assms(1), of f' t'] inj[OF that] that by (auto simp: moved_row_def)
  then show ?thesis
    using sk diff_okD[OF assms(1)] by (auto simp: diff_ok_def)
qed

section \<open>The differences of single edits\<close>

lemma insert_rows_diff:
  assumes "i \<le> length ys"
  shows "diff_ok {} {i ..< i + length rs} {} ys (take i ys @ rs @ drop i ys)"
  using assms nths_insert_rows[OF assms, of rs] by (auto simp: diff_ok_def same_kept_def)

lemma erase_row_diff:
  assumes "i < length ys"
  shows "diff_ok {i} {} {} ys (list_erase_at ys i)"
  using assms nths_erase_at[OF assms] by (auto simp: diff_ok_def same_kept_def)

lemma clear_diff: "diff_ok {..< length ys} {} {} ys []"
  using same_kept_all by (auto simp: diff_ok_def)

text \<open>A permutation of rows by an exchange at a few positions: deleted and inserted at the same ones.\<close>

lemma update_rows_diff:
  assumes "length zs = length ys" and "\<And>p. p < length ys \<Longrightarrow> p \<notin> S \<Longrightarrow> zs ! p = ys ! p"
    and "S \<subseteq> {..< length ys}"
    and "\<forall>(f, t) \<in> Q. f \<in> S \<and> t \<in> S \<and> ys ! f = zs ! t" and "inj_on fst Q" and "inj_on snd Q"
  shows "diff_ok S S Q ys zs"
proof -
  have "nths ys (- S) = nths zs (- S)" if "length zs = length ys" "\<And>p. p < length ys \<Longrightarrow> p \<notin> S \<Longrightarrow> zs ! p = ys ! p"
    for ys zs :: "'a list"
    using that(1,2)
  proof (induction ys zs rule: rev_induct2)
    case (4 y ys z zs)
    have "zs ! p = ys ! p" if "p < length ys" "p \<notin> S" for p
      using 4(3)[of p] that 4(2) by (simp add: nth_append)
    then have "nths ys (- S) = nths zs (- S)" using 4 by simp
    moreover have "length ys \<notin> S \<Longrightarrow> y = z" using 4(3)[of "length ys"] 4(2) by (simp add: nth_append)
    ultimately show ?case using 4(2) by (auto simp: nths_append)
  qed auto
  from this[OF assms(1,2)] have "same_kept S S ys zs" by (simp add: same_kept_def)
  moreover have "moved_row S S ys zs f t" if "(f, t) \<in> Q" for f t
  proof -
    have "f \<in> S" "t \<in> S" "ys ! f = zs ! t" using assms(4) that by blast+
    moreover from this have "f < length ys" "t < length zs" using assms(1,3) by auto
    ultimately show ?thesis by (simp add: moved_row_def)
  qed
  ultimately show ?thesis using assms(1,3,5,6) unfolding diff_ok_def by auto
qed

lemma swap_rows_diff:
  assumes "i < length ys" and "j < length ys" and "i \<noteq> j"
  shows "diff_ok {i, j} {i, j} {(i, j), (j, i)} ys (ys[i := ys ! j, j := ys ! i])"
  by (rule update_rows_diff) (use assms in \<open>auto simp: nth_list_update inj_on_def\<close>)

lemma diff_ok_erase_last:
  assumes "diff_ok S S Q ys zs" and "zs \<noteq> []"
    and "length ys - 1 \<in> S" and "length zs = length ys" and "\<forall>(f, t) \<in> Q. t \<noteq> length zs - 1"
  shows "diff_ok S (S - {length zs - 1}) Q ys (butlast zs)"
proof -
  let ?l = "length zs - 1"
  have z: "zs = butlast zs @ [last zs]" using assms(2) by simp
  have "nths zs (- S) = nths (butlast zs @ [last zs]) (- S)" using z by simp
  also have "\<dots> = nths (butlast zs) (- S)"
    unfolding nths_append using assms(3,4) by simp
  also have "\<dots> = nths (butlast zs) (- (S - {?l}))" by (rule nths_cong) auto
  finally have "same_kept S (S - {?l}) ys (butlast zs)"
    using diff_okD(5)[OF assms(1)] by (simp add: same_kept_def)
  moreover have "moved_row S (S - {?l}) ys (butlast zs) f t" if "(f, t) \<in> Q" for f t
    using diff_ok_moveD[OF assms(1) that] assms(5) that by (auto simp: moved_row_def nth_butlast)
  moreover have "S - {?l} \<subseteq> {..< length (butlast zs)}"
    using diff_okD(2)[OF assms(1)] by auto
  ultimately show ?thesis using diff_okD[OF assms(1)] by (auto simp: diff_ok_def)
qed

text \<open>\<open>move_last_over\<close>: the last row replaces the row at \<open>i\<close>.\<close>

lemma move_over_diff:
  assumes "i < length ys - 1"
  shows "diff_ok {i, length ys - 1} {i} {(length ys - 1, i)} ys (butlast (ys[i := last ys]))"
proof -
  let ?l = "length ys - 1" and ?zs = "ys[i := last ys, length ys - 1 := ys ! i]"
  have ne: "ys \<noteq> []" using assms by auto
  have s: "diff_ok {i, ?l} {i, ?l} {(i, ?l), (?l, i)} ys ?zs"
    using swap_rows_diff[of i ys ?l] assms ne by (simp add: last_conv_nth)
  have "diff_ok {i, ?l} ({i, ?l} - {length ?zs - 1}) {(?l, i)} ys (butlast ?zs)"
    by (rule diff_ok_erase_last[OF diff_ok_subset[OF s]]) (use assms in auto)
  moreover have "{i, ?l} - {length ?zs - 1} = {i}" using assms by auto
  moreover have "butlast ?zs = butlast (ys[i := last ys])" by (simp add: butlast_list_update)
  ultimately show ?thesis by simp
qed

text \<open>A row that is taken out at one position and put back at another.\<close>

definition list_move :: "'a list \<Rightarrow> nat \<Rightarrow> nat \<Rightarrow> 'a list" where
  "list_move ys from to = list_insert_at (list_erase_at ys from) to (ys ! from)"

lemma move_row_diff:
  assumes "from < length ys" and "to < length ys"
  shows "diff_ok {from} {to} {(from, to)} ys (list_move ys from to)"
proof -
  let ?es = "list_erase_at ys from"
  have len: "length ?es = length ys - 1" using assms by simp
  then have to: "to \<le> length ?es" using assms by simp
  have e: "list_move ys from to = take to ?es @ [ys ! from] @ drop to ?es"
    by (simp add: list_move_def list_insert_at_def)
  have "same_kept {} {to ..< to + length [ys ! from]} ?es (list_move ys from to)"
    using diff_okD(5)[OF insert_rows_diff[OF to, of "[ys ! from]"]] e by simp
  then have "nths (list_move ys from to) (- {to}) = ?es" by (simp add: same_kept_def)
  moreover have "nths ys (- {from}) = ?es" by (rule nths_erase_at[OF assms(1)])
  ultimately have "same_kept {from} {to} ys (list_move ys from to)" by (simp add: same_kept_def)
  moreover have "list_move ys from to ! to = ys ! from"
    using to by (simp add: e nth_append min_def)
  moreover have "length (list_move ys from to) = length ys" using assms len by (simp add: list_move_def)
  ultimately show ?thesis using assms by (auto simp: diff_ok_def moved_row_def)
qed

end
