(* ===== verification/ChangeBuilder.thy ===== *)
theory ChangeBuilder
  imports IndexSetRemove ChangeDiff "HOL-Library.AList"
begin

text \<open>
  \<open>CollectionChangeSet\<close> of \<open>collection_notifications.hpp\<close> and \<open>CollectionChangeBuilder\<close> of
  \<open>impl/collection_change_builder.cpp\<close>: the changes of one collection, as index sets and a list of
  moves. This theory holds the operations that record one edit, merge two builders and finish one.
  The hash map \<open>m_move_mapping\<close> is an association list, whose order stands for the unspecified order
  in which the map is iterated.
\<close>

section \<open>State\<close>

record move =
  mv_from :: nat
  mv_to :: nat

record change_set =
  deletions :: crv
  insertions :: crv
  modifications :: crv
  modifications_new :: crv
  moves :: "move list"
  columns :: "crv list"

record change_builder = change_set +
  move_mapping :: "(nat \<times> nat) list"
  track_columns :: bool

definition set_empty :: "'a change_set_scheme \<Rightarrow> bool" where
  "set_empty c \<longleftrightarrow>
     deletions c = [] \<and> insertions c = [] \<and> modifications c = [] \<and> modifications_new c = [] \<and>
     moves c = []"

text \<open>The constructor from index sets and moves: every move is also a deletion and an insertion.\<close>

definition builder_of :: "crv \<Rightarrow> crv \<Rightarrow> crv \<Rightarrow> move list \<Rightarrow> change_builder" where
  "builder_of d i m mvs =
     \<lparr>deletions = foldl (\<lambda>s mv. is_add s (mv_from mv)) d mvs,
      insertions = foldl (\<lambda>s mv. is_add s (mv_to mv)) i mvs,
      modifications = m, modifications_new = [], moves = mvs, columns = [],
      move_mapping = [], track_columns = True\<rparr>"

definition verify_moves :: "'a change_set_scheme \<Rightarrow> bool" where
  "verify_moves b \<longleftrightarrow>
     (\<forall>mv \<in> set (moves b). is_contains (deletions b) (mv_from mv) \<and>
                            is_contains (insertions b) (mv_to mv))"

section \<open>Columns\<close>

text \<open>\<open>vector::resize\<close> with empty sets.\<close>

definition resize_columns :: "nat \<Rightarrow> crv list \<Rightarrow> crv list" where
  "resize_columns n cs = take n cs @ replicate (n - length cs) []"

definition for_each_col :: "(crv \<Rightarrow> crv) \<Rightarrow> change_builder \<Rightarrow> change_builder" where
  "for_each_col f b =
     (let b1 = b\<lparr>modifications := f (modifications b)\<rparr>
      in if track_columns b1 then b1\<lparr>columns := map f (columns b1)\<rparr> else b1)"

definition cb_modify :: "change_builder \<Rightarrow> nat \<Rightarrow> nat \<Rightarrow> change_builder" where
  "cb_modify b ndx col =
     (let b1 = b\<lparr>modifications := is_add (modifications b) ndx\<rparr> in
      if \<not> track_columns b1 \<or> col = npos then b1
      else
        let cs = (if col \<ge> length (columns b1) then resize_columns (col + 1) (columns b1)
                  else columns b1)
        in b1\<lparr>columns := cs[col := is_add (cs ! col) ndx]\<rparr>)"

definition insert_column :: "change_builder \<Rightarrow> nat \<Rightarrow> change_builder" where
  "insert_column b ndx =
     (if ndx < length (columns b) then b\<lparr>columns := list_insert_at (columns b) ndx []\<rparr> else b)"

text \<open>\<open>std::rotate\<close> of the columns from \<open>i\<close> to before \<open>k\<close> so that \<open>j\<close> comes first.\<close>

definition rotate_range :: "'a list \<Rightarrow> nat \<Rightarrow> nat \<Rightarrow> nat \<Rightarrow> 'a list" where
  "rotate_range xs i j k =
     take i xs @ drop (j - i) (take (k - i) (drop i xs)) @ take (j - i) (drop i xs) @ drop k xs"

definition move_column :: "change_builder \<Rightarrow> nat \<Rightarrow> nat \<Rightarrow> change_builder" where
  "move_column b from to =
     (if from \<ge> length (columns b) \<and> to \<ge> length (columns b) then b
      else
        let cs = (if from \<ge> length (columns b) \<or> to \<ge> length (columns b)
                  then resize_columns (max from to + 1) (columns b) else columns b)
        in b\<lparr>columns :=
               (if from < to then rotate_range cs from (from + 1) (to + 1)
                else rotate_range cs to from (from + 1))\<rparr>)"

section \<open>Recording one edit\<close>

definition shift_mapping :: "nat \<Rightarrow> nat \<Rightarrow> (nat \<times> nat) list \<Rightarrow> (nat \<times> nat) list" where
  "shift_mapping index count ps =
     (let kept = filter (\<lambda>p. \<not> fst p \<ge> index) ps;
          shifted = map (\<lambda>p. (fst p + count, snd p)) (filter (\<lambda>p. fst p \<ge> index) ps)
      in foldl (\<lambda>acc p. if fst p \<in> fst ` set acc then acc else acc @ [p]) kept shifted)"

definition cb_insert :: "change_builder \<Rightarrow> nat \<Rightarrow> nat \<Rightarrow> bool \<Rightarrow> change_builder" where
  "cb_insert b index count track_moves =
     (let b1 = for_each_col (\<lambda>col. is_shift_for_insert_at col index count) b in
      if \<not> track_moves then b1
      else
        let b2 = b1\<lparr>insertions := is_insert_at (insertions b1) index count\<rparr>;
            b3 = b2\<lparr>moves := map (\<lambda>mv. if mv_to mv \<ge> index then mv\<lparr>mv_to := mv_to mv + count\<rparr> else mv)
                                (moves b2)\<rparr>
        in if move_mapping b3 = [] then b3
           else b3\<lparr>move_mapping := shift_mapping index count (move_mapping b3)\<rparr>)"

fun erase_moves :: "nat \<Rightarrow> move list \<Rightarrow> move list" where
  "erase_moves index [] = []"
| "erase_moves index (mv # mvs) =
     (if mv_to mv = index then erase_moves index mvs
      else if mv_to mv > index then mv\<lparr>mv_to := mv_to mv - 1\<rparr> # erase_moves index mvs
      else mv # erase_moves index mvs)"

definition cb_erase :: "change_builder \<Rightarrow> nat \<Rightarrow> change_builder" where
  "cb_erase b index =
     (let b1 = for_each_col (\<lambda>col. is_erase_at col index) b;
          (ins, unshifted) = is_erase_or_unshift (insertions b1) index;
          b2 = b1\<lparr>insertions := ins\<rparr>;
          b3 = (if unshifted \<noteq> npos
                then b2\<lparr>deletions := fst (is_add_shifted (deletions b2) unshifted)\<rparr> else b2)
      in b3\<lparr>moves := erase_moves index (moves b3)\<rparr>)"

definition cb_clear :: "change_builder \<Rightarrow> nat \<Rightarrow> change_builder" where
  "cb_clear b old_size =
     (let n = (if old_size \<noteq> npos
               then foldl (\<lambda>n r. sub_size n (snd r - fst r))
                      (foldl (\<lambda>n r. n + (snd r - fst r)) old_size (concat (map data (deletions b))))
                      (concat (map data (insertions b)))
               else old_size)
      in b\<lparr>modifications := is_clear (modifications b), insertions := is_clear (insertions b),
           moves := [], move_mapping := [], columns := [], deletions := is_set (deletions b) n\<rparr>)"

text \<open>
  \<open>move\<close>: the moves whose row lies between the two positions are shifted, and a move that ends at
  \<open>from\<close> now ends at \<open>to\<close>. The fold carries the insertions and whether such a move was found.
\<close>

definition move_step :: "nat \<Rightarrow> nat \<Rightarrow> move \<Rightarrow> crv \<times> bool \<Rightarrow> move \<times> crv \<times> bool" where
  "move_step from to mv st =
     (if mv_to mv \<noteq> from then
        ((if mv_to mv \<ge> to \<and> mv_to mv < from then mv\<lparr>mv_to := mv_to mv + 1\<rparr>
          else if mv_to mv \<le> to \<and> mv_to mv > from then mv\<lparr>mv_to := mv_to mv - 1\<rparr>
          else mv), st)
      else (mv\<lparr>mv_to := to\<rparr>, is_insert_at (is_erase_at (fst st) from) to 1, True))"

fun move_loop :: "nat \<Rightarrow> nat \<Rightarrow> move list \<Rightarrow> crv \<times> bool \<Rightarrow> move list \<times> crv \<times> bool" where
  "move_loop from to [] st = ([], st)"
| "move_loop from to (mv # mvs) st =
     (let (mv', st') = move_step from to mv st; (mvs', st'') = move_loop from to mvs st'
      in (mv' # mvs', st''))"

definition move_col :: "nat \<Rightarrow> nat \<Rightarrow> crv \<Rightarrow> crv" where
  "move_col from to col =
     (let modified = is_contains col from; col1 = is_erase_at col from
      in if modified then is_insert_at col1 to 1 else is_shift_for_insert_at col1 to 1)"

definition cb_move :: "change_builder \<Rightarrow> nat \<Rightarrow> nat \<Rightarrow> change_builder" where
  "cb_move b from to =
     (let (mvs, ins, updated) = move_loop from to (moves b) (insertions b, False);
          b1 = b\<lparr>moves := mvs, insertions := ins\<rparr>;
          b2 =
            (if updated then b1
             else
               let (ins', shifted_from) = is_erase_or_unshift (insertions b1) from;
                   b' = b1\<lparr>insertions := is_insert_at ins' to 1\<rparr>
               in if shifted_from \<noteq> npos then
                    let (del, f) = is_add_shifted (deletions b') shifted_from
                    in b'\<lparr>deletions := del, moves := moves b' @ [\<lparr>mv_from = f, mv_to = to\<rparr>]\<rparr>
                  else b')
      in for_each_col (move_col from to) b2)"

definition move_over_col :: "nat \<Rightarrow> nat \<Rightarrow> crv \<Rightarrow> crv" where
  "move_over_col row_ndx last_row col =
     (if is_contains col last_row then is_add (is_remove col last_row 1) row_ndx
      else is_remove col row_ndx 1)"

definition last_is_insertion :: "crv \<Rightarrow> nat \<Rightarrow> bool" where
  "last_is_insertion ins last_row \<longleftrightarrow>
     ins \<noteq> [] \<and> snd (deref ins (it_prev ins (it_end ins))) = last_row + 1"

definition cb_move_over :: "change_builder \<Rightarrow> nat \<Rightarrow> nat \<Rightarrow> bool \<Rightarrow> change_builder" where
  "cb_move_over b row_ndx last_row track_moves =
     (if row_ndx = last_row then
        let b1 =
              (if track_moves then
                 let (ins, f) = is_erase_or_unshift (insertions b) row_ndx;
                     b' = b\<lparr>insertions := ins\<rparr>;
                     b'' = (if f \<noteq> npos then b'\<lparr>deletions := fst (is_add_shifted (deletions b') f)\<rparr>
                            else b')
                 in b''\<lparr>move_mapping := AList.delete row_ndx (move_mapping b'')\<rparr>
               else b)
        in for_each_col (\<lambda>col. is_remove col row_ndx 1) b1
      else
        let b1 = for_each_col (move_over_col row_ndx last_row) b in
        if \<not> track_moves then b1
        else
          let row_ins = is_contains (insertions b1) row_ndx;
              last_ins = last_is_insertion (insertions b1) last_row;
              moved = (if last_ins then map_of (move_mapping b1) last_row else None);
              b2 = (case moved of
                      Some old \<Rightarrow>
                        b1\<lparr>move_mapping :=
                             AList.delete last_row (AList.update row_ndx old (move_mapping b1))\<rparr>
                    | None \<Rightarrow>
                        if row_ins then b1\<lparr>move_mapping := AList.delete row_ndx (move_mapping b1)\<rparr>
                        else b1);
              b3 = (if last_ins then b2\<lparr>insertions := is_remove (insertions b2) last_row 1\<rparr>
                    else if moved = None then
                      let (del, f) = is_add_shifted (deletions b2) (is_unshift (insertions b2) last_row)
                      in b2\<lparr>deletions := del, move_mapping := AList.update row_ndx f (move_mapping b2)\<rparr>
                    else b2)
          in if \<not> row_ins then
               b3\<lparr>deletions := fst (is_add_shifted (deletions b3) (is_unshift (insertions b3) row_ndx)),
                  insertions := is_add (insertions b3) row_ndx\<rparr>
             else b3)"

section \<open>Swapping and replacing rows\<close>

definition swap_col :: "nat \<Rightarrow> nat \<Rightarrow> crv \<Rightarrow> crv" where
  "swap_col ndx_1 ndx_2 col =
     (let m1 = is_contains col ndx_1; m2 = is_contains col ndx_2
      in if m1 \<noteq> m2 then
           (if m1 then is_add (is_remove col ndx_1 1) ndx_2 else is_add (is_remove col ndx_2 1) ndx_1)
         else col)"

text \<open>Row \<open>at\<close> of the old order goes to \<open>dest\<close>, unless it is a new insertion.\<close>

definition add_row_move :: "nat \<Rightarrow> nat \<Rightarrow> change_builder \<Rightarrow> change_builder" where
  "add_row_move at dest b =
     (if \<not> is_contains (insertions b) at then
        let (del, f) = is_add_shifted (deletions b) (is_unshift (insertions b) at)
        in b\<lparr>deletions := del, move_mapping := AList.update dest f (move_mapping b),
             insertions := is_add (insertions b) at\<rparr>
      else b)"

text \<open>The move to \<open>ndx_2\<close> is redirected to \<open>ndx_1\<close>.\<close>

definition update_move :: "nat \<Rightarrow> nat \<Rightarrow> nat \<Rightarrow> change_builder \<Rightarrow> change_builder" where
  "update_move original ndx_1 ndx_2 b =
     (let m = AList.delete ndx_2 (move_mapping b);
          b1 = b\<lparr>move_mapping := AList.update ndx_1 original m\<rparr>
      in add_row_move ndx_1 ndx_2 b1)"

definition cb_swap :: "change_builder \<Rightarrow> nat \<Rightarrow> nat \<Rightarrow> bool \<Rightarrow> change_builder" where
  "cb_swap b n1 n2 track_moves =
     (let ndx_1 = min n1 n2; ndx_2 = max n1 n2;
          b1 = for_each_col (swap_col ndx_1 ndx_2) b
      in if \<not> track_moves then b1
         else
           case (map_of (move_mapping b1) ndx_1, map_of (move_mapping b1) ndx_2) of
             (Some f1, Some f2) \<Rightarrow>
               b1\<lparr>move_mapping := AList.update ndx_1 f2 (AList.update ndx_2 f1 (move_mapping b1))\<rparr>
           | (Some f1, None) \<Rightarrow> update_move f1 ndx_2 ndx_1 b1
           | (None, Some f2) \<Rightarrow> update_move f2 ndx_1 ndx_2 b1
           | (None, None) \<Rightarrow> add_row_move ndx_1 ndx_2 (add_row_move ndx_2 ndx_1 b1))"

definition subsume_col :: "nat \<Rightarrow> nat \<Rightarrow> crv \<Rightarrow> crv" where
  "subsume_col old_ndx new_ndx col = (if is_contains col old_ndx then is_add col new_ndx else col)"

definition cb_subsume :: "change_builder \<Rightarrow> nat \<Rightarrow> nat \<Rightarrow> bool \<Rightarrow> change_builder" where
  "cb_subsume b old_ndx new_ndx track_moves =
     (let b1 = for_each_col (subsume_col old_ndx new_ndx) b in
      if \<not> track_moves then b1
      else
        case map_of (move_mapping b1) old_ndx of
          Some f \<Rightarrow>
            b1\<lparr>move_mapping := AList.delete old_ndx (AList.update new_ndx f (move_mapping b1))\<rparr>
        | None \<Rightarrow>
            if \<not> is_contains (insertions b1) old_ndx then
              b1\<lparr>move_mapping :=
                   AList.update new_ndx
                     (is_shift (deletions b1) (is_unshift (insertions b1) old_ndx)) (move_mapping b1)\<rparr>
            else b1)"

section \<open>Finishing\<close>

definition parse_move :: "change_builder \<Rightarrow> nat \<times> nat \<Rightarrow> change_builder" where
  "parse_move b mv =
     (if fst mv = snd mv then
        b\<lparr>deletions := is_remove (deletions b) (snd mv) 1, insertions := is_remove (insertions b) (fst mv) 1\<rparr>
      else b\<lparr>moves := moves b @ [\<lparr>mv_from = snd mv, mv_to = fst mv\<rparr>]\<rparr>)"

definition parse_complete :: "change_builder \<Rightarrow> change_builder" where
  "parse_complete b =
     (let b1 = foldl parse_move b (move_mapping b)
      in b1\<lparr>move_mapping := [], moves := sort_key mv_from (moves b1)\<rparr>)"

definition stale :: "crv \<Rightarrow> crv \<Rightarrow> move \<Rightarrow> bool" where
  "stale del ins mv \<longleftrightarrow>
     sub_size (mv_from mv) (is_count del 0 (mv_from mv)) =
     sub_size (mv_to mv) (is_count ins 0 (mv_to mv))"

fun drop_stale :: "crv \<Rightarrow> crv \<Rightarrow> move list \<Rightarrow> crv \<times> crv \<times> move list" where
  "drop_stale del ins [] = (del, ins, [])"
| "drop_stale del ins (mv # mvs) =
     (if \<not> stale del ins mv then
        let (d, i, kept) = drop_stale del ins mvs in (d, i, mv # kept)
      else drop_stale (is_remove del (mv_from mv) 1) (is_remove ins (mv_to mv) 1) mvs)"

definition clean_up_stale_moves :: "change_builder \<Rightarrow> change_builder" where
  "clean_up_stale_moves b =
     (let (d, i, kept) = drop_stale (deletions b) (insertions b) (moves b)
      in b\<lparr>deletions := d, insertions := i, moves := kept\<rparr>)"

definition cb_finalize :: "change_builder \<Rightarrow> change_set" where
  "cb_finalize b =
     (let in_old = is_shift_for_insert_all (is_erase_all (modifications b) (insertions b)) (deletions b);
          new = is_remove_all (modifications b) (insertions b)
      in \<lparr>deletions = deletions b, insertions = insertions b, modifications = in_old,
          modifications_new = new, moves = moves b, columns = columns b\<rparr>)"

section \<open>Merging\<close>

text \<open>\<open>for_each_col\<close> of \<open>merge\<close>: the columns of both builders are first padded to one length.\<close>

definition for_each_col2 ::
  "(crv \<Rightarrow> crv \<Rightarrow> crv \<times> crv) \<Rightarrow> change_builder \<times> change_builder \<Rightarrow> change_builder \<times> change_builder"
where
  "for_each_col2 f p =
     (let b = fst p; c = snd p; m = f (modifications b) (modifications c);
          b1 = b\<lparr>modifications := fst m\<rparr>; c1 = c\<lparr>modifications := snd m\<rparr>
      in if track_columns b1 then
           let n = max (length (columns b1)) (length (columns c1));
               cs = map2 f (resize_columns n (columns b1)) (resize_columns n (columns c1))
           in (b1\<lparr>columns := map fst cs\<rparr>, c1\<lparr>columns := map snd cs\<rparr>)
         else (b1, c1))"

definition mark_moved :: "nat \<Rightarrow> nat \<Rightarrow> crv \<Rightarrow> crv \<Rightarrow> crv \<times> crv" where
  "mark_moved from to col other = (col, if is_contains col from then is_add other to else other)"

fun find_move :: "nat \<Rightarrow> move list \<Rightarrow> nat option" where
  "find_move p [] = None"
| "find_move p (mv # mvs) = (if p = mv_from mv then Some 0 else map_option Suc (find_move p mvs))"

text \<open>\<open>*it = back(); pop_back()\<close>.\<close>

definition swap_remove :: "'a list \<Rightarrow> nat \<Rightarrow> 'a list" where
  "swap_remove xs k = butlast (xs[k := last xs])"

definition merge_old_move ::
  "move \<Rightarrow> change_builder \<times> change_builder \<Rightarrow> move option \<times> change_builder \<times> change_builder"
where
  "merge_old_move old p =
     (case find_move (mv_to old) (moves (snd p)) of
        Some k \<Rightarrow>
          let m = moves (snd p) ! k; (b1, c1) = for_each_col2 (mark_moved (mv_from m) (mv_to m)) p
          in (Some (old\<lparr>mv_to := mv_to m\<rparr>), b1, c1\<lparr>moves := swap_remove (moves c1) k\<rparr>)
      | None \<Rightarrow>
          if is_contains (deletions (snd p)) (mv_to old) then (None, p)
          else (Some (old\<lparr>mv_to := is_shift (insertions (snd p))
                                      (is_unshift (deletions (snd p)) (mv_to old))\<rparr>), p))"

fun merge_old_moves ::
  "move list \<Rightarrow> change_builder \<times> change_builder \<Rightarrow> move list \<times> change_builder \<times> change_builder"
where
  "merge_old_moves [] p = ([], p)"
| "merge_old_moves (old # olds) p =
     (let (m, p') = merge_old_move old p; (ms, p'') = merge_old_moves olds p'
      in (case m of None \<Rightarrow> ms | Some x \<Rightarrow> x # ms, p''))"

definition update_old_moves :: "change_builder \<times> change_builder \<Rightarrow> change_builder \<times> change_builder" where
  "update_old_moves p =
     (if moves (snd p) \<noteq> [] \<or> deletions (snd p) \<noteq> [] \<or> insertions (snd p) \<noteq> [] then
        let (ms, b, c) = merge_old_moves (moves (fst p)) p in (b\<lparr>moves := ms\<rparr>, c)
      else p)"

definition drop_inserted_moves :: "change_builder \<times> change_builder \<Rightarrow> change_builder \<times> change_builder" where
  "drop_inserted_moves p =
     (if insertions (fst p) \<noteq> [] \<and> moves (snd p) \<noteq> [] then
        (fst p, (snd p)\<lparr>moves := filter (\<lambda>m. \<not> is_contains (insertions (fst p)) (mv_from m)) (moves (snd p))\<rparr>)
      else p)"

definition keep_modified :: "change_builder \<times> change_builder \<Rightarrow> change_builder \<times> change_builder" where
  "keep_modified p =
     (if modifications (fst p) \<noteq> [] \<and> moves (snd p) \<noteq> [] then
        foldl (\<lambda>q m. for_each_col2 (mark_moved (mv_from m) (mv_to m)) q) p (moves (snd p))
      else p)"

definition update_new_moves :: "change_builder \<times> change_builder \<Rightarrow> change_builder \<times> change_builder" where
  "update_new_moves p =
     (let b = fst p; c = snd p in
      if deletions b \<noteq> [] \<or> insertions b \<noteq> [] then
        (b, c\<lparr>moves := map (\<lambda>m. m\<lparr>mv_from := is_shift (deletions b) (is_unshift (insertions b) (mv_from m))\<rparr>)
                            (moves c)\<rparr>)
      else p)"

definition merge_col :: "change_builder \<Rightarrow> crv \<Rightarrow> crv \<Rightarrow> crv \<times> crv" where
  "merge_col c col other =
     (is_add_all (is_shift_for_insert_all (is_erase_all col (deletions c)) (insertions c)) other, other)"

definition merge_sets :: "change_builder \<Rightarrow> change_builder \<Rightarrow> change_builder" where
  "merge_sets b c =
     (let b1 = b\<lparr>moves := moves b @ moves c\<rparr>;
          b2 = b1\<lparr>deletions := is_add_shifted_by (deletions b1) (insertions b1) (deletions c)\<rparr>;
          b3 = b2\<lparr>insertions := is_insert_all (is_erase_all (insertions b2) (deletions c)) (insertions c)\<rparr>
      in clean_up_stale_moves b3)"

definition cb_merge :: "change_builder \<Rightarrow> change_builder \<Rightarrow> change_builder" where
  "cb_merge b c =
     (if set_empty c then b
      else if set_empty b then c
      else
        let (b1, c1) = update_new_moves (keep_modified (drop_inserted_moves (update_old_moves (b, c))));
            b2 = merge_sets b1 c1
        in fst (for_each_col2 (merge_col c1) (b2, c1)))"

end
