(* ===== verification/ChangeEdits.thy ===== *)
theory ChangeEdits
  imports ChangeBuilder ChangeDiff
begin

text \<open>
  The operations of the change builder that record one edit: each is the composition of what the
  builder holds with the difference of the edit, and its column function carries the marks along.
\<close>

section \<open>What a builder describes\<close>

definition sets_ok :: "change_builder \<Rightarrow> bool" where
  "sets_ok b \<longleftrightarrow>
     crv_wf (deletions b) \<and> crv_wf (insertions b) \<and> crv_wf (modifications b) \<and>
     (\<forall>c \<in> set (columns b). crv_wf c)"

definition pair_of :: "move \<Rightarrow> nat \<times> nat" where
  "pair_of m = (mv_from m, mv_to m)"

definition known_moves :: "change_builder \<Rightarrow> (nat \<times> nat) set" where
  "known_moves b = pair_of ` set (moves b) \<union> (set (move_mapping b))\<inverse>"

definition describes :: "change_builder \<Rightarrow> 'a list \<Rightarrow> 'a list \<Rightarrow> bool" where
  "describes b xs ys \<longleftrightarrow>
     sets_ok b \<and> diff_ok (elems (deletions b)) (elems (insertions b)) (known_moves b) xs ys \<and>
     distinct (moves b) \<and> distinct (map fst (move_mapping b))"

lemma pair_of_inject [simp]: "pair_of m = pair_of m' \<longleftrightarrow> m = m'"
  by (auto simp: pair_of_def intro: move.equality)

lemma inj_pair_of: "inj pair_of"
  by (simp add: inj_on_def)

lemma describesD:
  assumes "describes b xs ys"
  shows "sets_ok b" and "crv_wf (deletions b)" and "crv_wf (insertions b)" and "crv_wf (modifications b)"
    and "diff_ok (elems (deletions b)) (elems (insertions b)) (known_moves b) xs ys"
    and "distinct (moves b)" and "distinct (map fst (move_mapping b))"
  using assms by (auto simp: describes_def sets_ok_def)

lemma for_each_col_sel [simp]:
  "deletions (for_each_col f b) = deletions b"
  "insertions (for_each_col f b) = insertions b"
  "modifications (for_each_col f b) = f (modifications b)"
  "moves (for_each_col f b) = moves b"
  "move_mapping (for_each_col f b) = move_mapping b"
  "track_columns (for_each_col f b) = track_columns b"
  "columns (for_each_col f b) = (if track_columns b then map f (columns b) else columns b)"
  by (simp_all add: for_each_col_def Let_def)

lemma sets_ok_for_each_col:
  "sets_ok b \<Longrightarrow> (\<And>c. crv_wf c \<Longrightarrow> crv_wf (f c)) \<Longrightarrow> sets_ok (for_each_col f b)"
  by (auto simp: sets_ok_def)

lemma known_moves_for_each_col [simp]: "known_moves (for_each_col f b) = known_moves b"
  by (simp add: known_moves_def)

section \<open>Compositions with single edits\<close>

lemma erased_pos_empty [simp]: "erased_pos {} U = U" "erased_pos A {} = {}"
  by (simp_all add: erased_pos_def unshift_pos_def)

lemma shifted_pos_empty [simp]: "shifted_pos {} U = U"
  by (simp add: shifted_pos_def unshift_pos_def)

lemma unshift_pos_empty [simp]: "unshift_pos {} i = i"
  by (simp add: unshift_pos_def)

lemma merge_nothing [simp]: "merge_del D I {} = D" "merge_ins I {} J = compose_pos J I"
  by (simp_all add: merge_del_def merge_ins_def)

lemma merge_del_single:
  "finite D \<Longrightarrow> merge_del D I {i} = (if i \<in> I then D else insert (shift_pos D (unshift_pos I i)) D)"
proof -
  assume "finite D"
  moreover have "erased_pos I {i} = (if i \<in> I then {} else {unshift_pos I i})"
    by (auto simp: erased_pos_def)
  ultimately show ?thesis by (simp add: merge_del_def compose_single)
qed

lemma merge_moves_simple:
  "merge_moves D I E J P {} = (\<lambda>(f, t). (f, shift_pos J (unshift_pos E t))) ` {(f, t) \<in> P. t \<notin> E}"
  by (simp add: merge_moves_def)

lemma shift_pos_ivl: "shift_pos {i ..< i + n} t = (if i \<le> t then t + n else t)"
  by (rule shift_pos_eqI) (auto simp: below_ivl)

lemma unshift_single: "unshift_pos {i} t = (if i < t then t - 1 else t)"
  by (simp add: unshift_pos_def below_single)

lemma shift_single: "shift_pos {i} t = (if i \<le> t then t + 1 else t)"
  using shift_pos_ivl[of i 1 t] by simp

section \<open>insert\<close>

lemma shift_mapping_eq:
  assumes "distinct (map fst ps)"
  shows "shift_mapping i n ps =
    filter (\<lambda>p. \<not> fst p \<ge> i) ps @ map (\<lambda>p. (fst p + n, snd p)) (filter (\<lambda>p. fst p \<ge> i) ps)"
proof -
  have fold: "distinct (map fst (acc @ qs)) \<Longrightarrow>
      foldl (\<lambda>acc p. if fst p \<in> fst ` set acc then acc else acc @ [p]) acc qs = acc @ qs"
    for acc qs :: "(nat \<times> nat) list"
    by (induction qs arbitrary: acc) auto
  have "distinct (map fst (filter P ps))" for P using assms by (simp add: distinct_map_filter)
  moreover have "map fst (map (\<lambda>p. (fst p + n, snd p)) qs) = map (\<lambda>k. k + n) (map fst qs)"
    for qs :: "(nat \<times> nat) list" by simp
  ultimately have "distinct (map fst (map (\<lambda>p. (fst p + n, snd p)) (filter (\<lambda>p. fst p \<ge> i) ps)))"
    by (simp only: distinct_map) (auto simp: inj_on_def)
  then show ?thesis
    unfolding shift_mapping_def Let_def
    by (intro fold) (use assms in \<open>auto simp: distinct_map_filter\<close>)
qed

lemma shift_mapping_props:
  assumes "distinct (map fst ps)"
  shows "set (shift_mapping i n ps) = (\<lambda>p. (shift_pos {i ..< i + n} (fst p), snd p)) ` set ps"
    and "distinct (map fst (shift_mapping i n ps))"
proof -
  show "set (shift_mapping i n ps) = (\<lambda>p. (shift_pos {i ..< i + n} (fst p), snd p)) ` set ps"
  proof -
    have s: "set ps = {p \<in> set ps. \<not> i \<le> fst p} \<union> {p \<in> set ps. i \<le> fst p}" by auto
    have "(\<lambda>p. (shift_pos {i ..< i + n} (fst p), snd p)) ` {p \<in> set ps. \<not> i \<le> fst p} =
        {p \<in> set ps. \<not> i \<le> fst p}"
      by (force simp: shift_pos_ivl)
    moreover have "(\<lambda>p. (shift_pos {i ..< i + n} (fst p), snd p)) ` {p \<in> set ps. i \<le> fst p} =
        (\<lambda>p. (fst p + n, snd p)) ` {p \<in> set ps. i \<le> fst p}"
      by (rule image_cong) (auto simp: shift_pos_ivl)
    ultimately show ?thesis
      unfolding shift_mapping_eq[OF assms] by (subst s) (simp only: image_Un set_append set_map set_filter)
  qed
  have "map fst (shift_mapping i n ps) =
      map fst (filter (\<lambda>p. \<not> fst p \<ge> i) ps) @ map (\<lambda>k. k + n) (map fst (filter (\<lambda>p. fst p \<ge> i) ps))"
    unfolding shift_mapping_eq[OF assms] by simp
  also have "distinct \<dots>"
    unfolding distinct_append distinct_map[of "\<lambda>k. k + n"]
    using assms by (auto simp: distinct_map_filter inj_on_def)
  finally show "distinct (map fst (shift_mapping i n ps))" .
qed

definition put_to :: "(nat \<Rightarrow> nat) \<Rightarrow> move \<Rightarrow> move" where
  "put_to f m = m\<lparr>mv_to := f (mv_to m)\<rparr>"

lemma pair_of_put_to: "pair_of (put_to f m) = (mv_from m, f (mv_to m))"
  by (simp add: pair_of_def put_to_def)

lemma pair_of_put_to_case: "pair_of (put_to f m) = (case pair_of m of (a, t) \<Rightarrow> (a, f t))"
  by (simp add: pair_of_def put_to_def)

lemma pair_of_image_put_to: "pair_of ` put_to f ` S = (\<lambda>(a, t). (a, f t)) ` pair_of ` S"
  unfolding image_image by (rule image_cong) (simp_all only: pair_of_put_to_case)

lemma distinct_put_to:
  assumes "distinct mvs" and "inj_on f (mv_to ` set mvs)"
  shows "distinct (map (put_to f) mvs)"
proof -
  have "inj_on (put_to f) (set mvs)"
  proof (rule inj_onI)
    fix m m' assume m: "m \<in> set mvs" "m' \<in> set mvs" "put_to f m = put_to f m'"
    then have "pair_of (put_to f m) = pair_of (put_to f m')" by simp
    then have "mv_from m = mv_from m'" "f (mv_to m) = f (mv_to m')" by (simp_all add: pair_of_put_to)
    moreover from this(2) have "mv_to m = mv_to m'" using m(1,2) inj_onD[OF assms(2)] by blast
    ultimately show "m = m'" by (auto intro: move.equality)
  qed
  then show ?thesis using assms(1) by (simp add: distinct_map)
qed

theorem cb_insert_describes:
  assumes d: "describes b xs ys" and i: "i \<le> length ys" and rs: "rs \<noteq> []"
  shows "describes (cb_insert b i (length rs) True) xs (take i ys @ rs @ drop i ys)"
proof -
  let ?n = "length rs" and ?J = "{i ..< i + length rs}"
  let ?b = "cb_insert b i ?n True"
  have n: "0 < ?n" using rs by simp
  note w = describesD[OF d]
  have del: "deletions ?b = deletions b" and ins: "insertions ?b = is_insert_at (insertions b) i ?n"
    and mvs: "moves ?b = map (put_to (shift_pos ?J)) (moves b)"
    by (auto simp: cb_insert_def Let_def put_to_def shift_pos_ivl)
  have mm: "move_mapping ?b = shift_mapping i ?n (move_mapping b)"
    by (simp add: cb_insert_def Let_def shift_mapping_def)
  have cs: "columns ?b = columns (for_each_col (\<lambda>col. is_shift_for_insert_at col i ?n) b)"
    "modifications ?b = is_shift_for_insert_at (modifications b) i ?n"
    by (simp_all add: cb_insert_def Let_def)
  have "sets_ok ?b"
    using w(1) n by (auto simp: sets_ok_def del ins cs is_shift_for_insert_at_correct is_insert_at_correct)
  moreover have "known_moves ?b = merge_moves (elems (deletions b)) (elems (insertions b)) {} ?J (known_moves b) {}"
  proof -
    have 1: "pair_of ` set (map (put_to (shift_pos ?J)) (moves b)) =
        (\<lambda>(f, t). (f, shift_pos ?J t)) ` pair_of ` set (moves b)"
      by (simp only: set_map pair_of_image_put_to)
    have 2: "(set (shift_mapping i ?n (move_mapping b)))\<inverse> =
        (\<lambda>(f, t). (f, shift_pos ?J t)) ` (set (move_mapping b))\<inverse>"
      unfolding shift_mapping_props(1)[OF w(7)] by force
    show ?thesis
    proof -
      have "{(f, t) \<in> P. t \<notin> {}} = P" for P :: "(nat \<times> nat) set" by auto
      then show ?thesis
        unfolding known_moves_def mvs mm 1 2 merge_moves_simple by (simp only: image_Un unshift_pos_empty)
    qed
  qed
  moreover have "elems (insertions ?b) = merge_ins (elems (insertions b)) {} ?J"
    using w(3) by (simp add: ins is_insert_at_correct)
  ultimately have "diff_ok (elems (deletions ?b)) (elems (insertions ?b)) (known_moves ?b) xs
      (take i ys @ rs @ drop i ys)"
    using diff_merge[OF w(5) insert_rows_diff[OF i, of rs]] by (simp add: del)
  moreover have "distinct (moves ?b)"
    unfolding mvs by (rule distinct_put_to[OF w(6)]) (auto simp: inj_on_def shift_eq_iff)
  ultimately show ?thesis
    using \<open>sets_ok ?b\<close> shift_mapping_props(2)[OF w(7)] by (simp add: describes_def mm)
qed

section \<open>erase and clear\<close>

lemma erase_moves_eq:
  "erase_moves i mvs = map (put_to (unshift_pos {i})) (filter (\<lambda>m. mv_to m \<noteq> i) mvs)"
  by (induction mvs) (auto simp: put_to_def unshift_single)

text \<open>The part of several operations that takes one row out.\<close>

definition take_out :: "nat \<Rightarrow> change_builder \<Rightarrow> change_builder" where
  "take_out index b =
     (let (ins, u) = is_erase_or_unshift (insertions b) index; b2 = b\<lparr>insertions := ins\<rparr>
      in if u \<noteq> npos then b2\<lparr>deletions := fst (is_add_shifted (deletions b2) u)\<rparr> else b2)"

lemma take_out_correct:
  assumes "crv_wf (deletions b)" and "crv_wf (insertions b)" and "i < npos"
  shows "crv_wf (deletions (take_out i b))" and "crv_wf (insertions (take_out i b))"
    and "elems (deletions (take_out i b)) = merge_del (elems (deletions b)) (elems (insertions b)) {i}"
    and "elems (insertions (take_out i b)) = erased_pos {i} (elems (insertions b))"
proof -
  obtain ins u where e: "is_erase_or_unshift (insertions b) i = (ins, u)"
    by (cases "is_erase_or_unshift (insertions b) i")
  note r = is_erase_or_unshift_correct[OF assms(2) e]
  obtain del f where a: "is_add_shifted (deletions b) u = (del, f)" by (cases "is_add_shifted (deletions b) u")
  note s = is_add_shifted_correct[OF assms(1) a]
  have "unshift_pos (elems (insertions b)) i \<noteq> npos" using assms(3) by (simp add: unshift_pos_def)
  then show "crv_wf (deletions (take_out i b))" "crv_wf (insertions (take_out i b))"
    "elems (deletions (take_out i b)) = merge_del (elems (deletions b)) (elems (insertions b)) {i}"
    "elems (insertions (take_out i b)) = erased_pos {i} (elems (insertions b))"
    using r s e a assms(1)
    by (cases "i \<in> elems (insertions b)"; simp add: take_out_def merge_del_single)+
qed

lemma take_out_sel [simp]:
  "modifications (take_out i b) = modifications b" "columns (take_out i b) = columns b"
  "moves (take_out i b) = moves b" "move_mapping (take_out i b) = move_mapping b"
  by (simp_all add: take_out_def Let_def split: prod.splits)

theorem cb_erase_describes:
  assumes d: "describes b xs ys" and i: "i < length ys" "length ys < npos" and mm: "move_mapping b = []"
  shows "describes (cb_erase b i) xs (list_erase_at ys i)"
proof -
  let ?b = "cb_erase b i" and ?c = "for_each_col (\<lambda>col. is_erase_at col i) b"
  note w = describesD[OF d]
  have b: "?b = (take_out i ?c)\<lparr>moves := erase_moves i (moves b)\<rparr>"
    by (simp add: cb_erase_def take_out_def Let_def split: prod.splits)
  have t: "crv_wf (deletions ?b)" "crv_wf (insertions ?b)"
    "elems (deletions ?b) = merge_del (elems (deletions b)) (elems (insertions b)) {i}"
    "elems (insertions ?b) = merge_ins (elems (insertions b)) {i} {}"
    using take_out_correct[of ?c i] w(2,3) i unfolding b by (simp_all add: merge_ins_def)
  have "sets_ok ?b"
    using w(1) t(1,2) unfolding b by (auto simp: sets_ok_def is_erase_at_correct)
  moreover have "known_moves ?b = merge_moves (elems (deletions b)) (elems (insertions b)) {i} {} (known_moves b) {}"
  proof -
    have "pair_of ` set (filter (\<lambda>m. mv_to m \<noteq> i) mvs) = {(f, t) \<in> pair_of ` set mvs. t \<notin> {i}}" for mvs
      by (auto simp: pair_of_def)
    then show ?thesis
      unfolding merge_moves_simple known_moves_def b
      by (simp add: mm erase_moves_eq pair_of_image_put_to)
  qed
  ultimately have "diff_ok (elems (deletions ?b)) (elems (insertions ?b)) (known_moves ?b) xs (list_erase_at ys i)"
    using diff_merge[OF w(5) erase_row_diff[OF i(1)]] t(3,4) by simp
  moreover have "distinct (moves ?b)"
    unfolding b using w(6)
    by (auto simp: erase_moves_eq inj_on_def unshift_inj intro!: distinct_put_to)
  ultimately show ?thesis using \<open>sets_ok ?b\<close> by (simp add: describes_def b mm)
qed

lemma foldl_add_len: "foldl (\<lambda>n r. n + (snd r - fst r)) k rs = k + size_r rs"
  by (induction rs arbitrary: k) (simp_all add: len_r_def)

lemma foldl_sub_len: "size_r rs \<le> k \<Longrightarrow> foldl (\<lambda>n r. sub_size n (snd r - fst r)) k rs = k - size_r rs"
  by (induction rs arbitrary: k) (simp_all add: len_r_def)

lemma size_ranges_card: "crv_wf s \<Longrightarrow> size_r (ranges s) = card (elems s)"
  by (simp add: elems_def card_elems_r crv_wf_def)

theorem cb_clear_describes:
  assumes d: "describes b xs ys" and "length ys < npos"
  shows "describes (cb_clear b (length ys)) xs []"
    and "elems (deletions (cb_clear b (length ys))) = {..< length xs}"
proof -
  let ?b = "cb_clear b (length ys)"
  note w = describesD[OF d]
  let ?D = "elems (deletions b)" and ?I = "elems (insertions b)"
  note dd = diff_okD[OF w(5)]
  have "below ?D (length xs) = card ?D" "below ?I (length ys) = card ?I"
    using dd(1,2) by (auto intro!: below_all)
  then have "length xs - card ?D = length ys - card ?I"
    using arg_cong[OF dd(5)[unfolded same_kept_def], of length] by (simp add: length_kept unshift_pos_def)
  moreover have "card ?D \<le> length xs" "card ?I \<le> length ys"
    using dd(1,2) by (metis card_lessThan card_mono finite_lessThan)+
  ultimately have n: "length ys + card ?D - card ?I = length xs" "card ?I \<le> length ys + card ?D" by auto
  have rs: "concat (map data (deletions b)) = ranges (deletions b)"
    "concat (map data (insertions b)) = ranges (insertions b)" by (simp_all add: ranges_def)
  have ne: "length ys \<noteq> npos" using assms(2) by simp
  have cleared: "deletions ?b = is_set (deletions b) (length xs)"
    using ne n w(2,3)
    by (simp add: cb_clear_def Let_def rs foldl_add_len foldl_sub_len size_ranges_card)
  then show "elems (deletions ?b) = {..< length xs}" by (simp add: is_set_correct)
  then show "describes ?b xs []"
    using diff_ok_refl same_kept_all cleared
    by (auto simp: describes_def sets_ok_def cb_clear_def Let_def known_moves_def index_set_correct
        diff_ok_def)
qed

section \<open>move\<close>

lemma pos_move: "shift_pos {to} (unshift_pos {from} t) =
    (if t \<ge> to \<and> t < from then t + 1 else if t \<le> to \<and> t > from then t - 1 else t)"
  if "t \<noteq> from" "from \<noteq> to"
  using that by (auto simp: shift_single unshift_single)

lemma move_step_eq:
  assumes "from \<noteq> to"
  shows "move_step from to mv st =
    (if mv_to mv = from then (put_to (\<lambda>_. to) mv, is_insert_at (is_erase_at (fst st) from) to 1, True)
     else (put_to (\<lambda>t. shift_pos {to} (unshift_pos {from} t)) mv, st))"
  using pos_move[OF _ assms, of "mv_to mv"] by (auto simp: move_step_def put_to_def)

definition moved_to :: "nat \<Rightarrow> nat \<Rightarrow> nat \<Rightarrow> nat" where
  "moved_to from to t = (if t = from then to else shift_pos {to} (unshift_pos {from} t))"

lemma moved_to_image:
  "(\<lambda>(f, t). (f, moved_to from to t)) ` P =
     P O {(from, to)} \<union> (\<lambda>(f, t). (f, shift_pos {to} (unshift_pos {from} t))) ` {(f, t) \<in> P. t \<notin> {from}}"
proof -
  have s: "P = {(f, t) \<in> P. t = from} \<union> {(f, t) \<in> P. t \<notin> {from}}" by auto
  have "(\<lambda>(f, t). (f, moved_to from to t)) ` {(f, t) \<in> P. t = from} = P O {(from, to)}"
    by (force simp: moved_to_def image_iff)
  moreover have "(\<lambda>(f, t). (f, moved_to from to t)) ` {(f, t) \<in> P. t \<notin> {from}} =
      (\<lambda>(f, t). (f, shift_pos {to} (unshift_pos {from} t))) ` {(f, t) \<in> P. t \<notin> {from}}"
    by (rule image_cong) (auto simp: moved_to_def)
  ultimately show ?thesis by (subst s) (simp only: image_Un)
qed

lemma move_loop_eq:
  assumes "from \<noteq> to" and "inj_on mv_to (set mvs)" and "distinct mvs"
  shows "move_loop from to mvs (ins, up) =
    (map (put_to (moved_to from to)) mvs,
     (if from \<in> mv_to ` set mvs then is_insert_at (is_erase_at ins from) to 1 else ins),
     up \<or> from \<in> mv_to ` set mvs)"
  using assms(2,3)
proof (induction mvs arbitrary: ins up)
  case Nil
  then show ?case by simp
next
  case (Cons m mvs)
  have m: "put_to (moved_to from to) m = (if mv_to m = from then put_to (\<lambda>_. to) m
      else put_to (\<lambda>t. shift_pos {to} (unshift_pos {from} t)) m)"
    by (simp add: put_to_def moved_to_def)
  have "from \<notin> mv_to ` set mvs" if "mv_to m = from"
    using that Cons.prems by (auto simp: inj_on_def)
  then show ?case using Cons m by (auto simp: move_step_eq[OF assms(1)] inj_on_def)
qed

lemma move_col_correct:
  assumes "crv_wf col"
  shows "crv_wf (move_col from to col)"
    and "elems (move_col from to col) = merge_marks {from} {to} {(from, to)} (elems col) {}"
  using assms
  by (auto simp: move_col_def Let_def index_set_correct merge_marks_def compose_pos_shifted
      is_insert_at_correct(2)[where n = 1, simplified] is_shift_for_insert_at_correct(2)[where n = 1, simplified])

theorem cb_move_describes:
  assumes d: "describes b xs ys" and ft: "from < length ys" "to < length ys" "from \<noteq> to"
    and len: "length ys < npos" and mm: "move_mapping b = []"
  shows "describes (cb_move b from to) xs (list_move ys from to)"
proof -
  let ?b = "cb_move b from to" and ?D = "elems (deletions b)" and ?I = "elems (insertions b)"
  let ?mv = "map (put_to (moved_to from to)) (moves b)"
  note w = describesD[OF d]
  note dd = diff_okD[OF w(5)]
  have inj: "inj_on mv_to (set (moves b))"
  proof (rule inj_onI)
    fix m m' assume "m \<in> set (moves b)" "m' \<in> set (moves b)" "mv_to m = mv_to m'"
    then have "pair_of m \<in> known_moves b" "pair_of m' \<in> known_moves b" "snd (pair_of m) = snd (pair_of m')"
      by (auto simp: known_moves_def pair_of_def)
    then show "m = m'" using inj_onD[OF dd(7)] by (metis pair_of_inject)
  qed
  have loop: "move_loop from to (moves b) (insertions b, False) =
    (?mv, (if from \<in> mv_to ` set (moves b) then is_insert_at (is_erase_at (insertions b) from) to 1
           else insertions b), from \<in> mv_to ` set (moves b))"
    using move_loop_eq[OF ft(3) inj w(6)] by simp
  have P: "known_moves b = pair_of ` set (moves b)" using mm by (simp add: known_moves_def)
  have fromI: "from \<in> mv_to ` set (moves b) \<Longrightarrow> from \<in> ?I"
    using diff_ok_moveD(2)[OF w(5)] by (auto simp: P pair_of_def)
  have shape: "crv_wf (deletions ?b) \<and> crv_wf (insertions ?b) \<and>
      elems (deletions ?b) = merge_del ?D ?I {from} \<and> elems (insertions ?b) = merge_ins ?I {from} {to} \<and>
      moves ?b = ?mv @ (if from \<in> ?I then []
                        else [\<lparr>mv_from = shift_pos ?D (unshift_pos ?I from), mv_to = to\<rparr>])"
  proof (cases "from \<in> mv_to ` set (moves b)")
    case True
    then have "deletions ?b = deletions b" "moves ?b = ?mv"
      "insertions ?b = is_insert_at (is_erase_at (insertions b) from) to 1"
      using loop by (simp_all add: cb_move_def)
    then show ?thesis
      using w(2,3) fromI[OF True] dd(3)
      by (simp add: is_insert_at_correct is_erase_at_correct merge_del_single merge_ins_def)
  next
    case False
    obtain ins u where e: "is_erase_or_unshift (insertions b) from = (ins, u)"
      by (cases "is_erase_or_unshift (insertions b) from")
    note r = is_erase_or_unshift_correct[OF w(3) e]
    obtain del f where a: "is_add_shifted (deletions b) u = (del, f)" by (cases "is_add_shifted (deletions b) u")
    note s = is_add_shifted_correct[OF w(2) a]
    have u: "u = npos \<longleftrightarrow> from \<in> ?I"
      using r(3) ft(1) len by (auto simp: unshift_pos_def)
    show ?thesis
    proof (cases "from \<in> ?I")
      case True
      then have "deletions ?b = deletions b" "moves ?b = ?mv" "insertions ?b = is_insert_at ins to 1"
        using loop False e u by (simp_all add: cb_move_def)
      then show ?thesis
        using w(2) r True dd(3) by (simp add: is_insert_at_correct merge_del_single merge_ins_def)
    next
      case nI: False
      then have "deletions ?b = del" "moves ?b = ?mv @ [\<lparr>mv_from = f, mv_to = to\<rparr>]"
        "insertions ?b = is_insert_at ins to 1"
        using loop False e u a by (simp_all add: cb_move_def)
      then show ?thesis
        using r s nI dd(3) by (simp add: is_insert_at_correct merge_del_single merge_ins_def)
    qed
  qed
  have cols: "modifications ?b = move_col from to (modifications b)"
    "columns ?b = (if track_columns b then map (move_col from to) (columns b) else columns b)"
    "move_mapping ?b = []"
    using loop mm by (auto simp: cb_move_def Let_def split: prod.splits if_splits)
  have "sets_ok ?b" using w(1) shape by (auto simp: sets_ok_def cols move_col_correct)
  moreover have km: "known_moves ?b = merge_moves ?D ?I {from} {to} (known_moves b) {(from, to)}"
  proof -
    have "pair_of ` set ?mv = known_moves b O {(from, to)} \<union>
        (\<lambda>(f, t). (f, shift_pos {to} (unshift_pos {from} t))) ` {(f, t) \<in> known_moves b. t \<notin> {from}}"
    proof -
      have "pair_of ` set ?mv = (\<lambda>(f, t). (f, moved_to from to t)) ` known_moves b"
        unfolding P by (simp only: set_map pair_of_image_put_to)
      then show ?thesis by (simp only: moved_to_image)
    qed
    then show ?thesis
      using shape cols(3) by (auto simp: known_moves_def merge_moves_def pair_of_def)
  qed
  ultimately have diff: "diff_ok (elems (deletions ?b)) (elems (insertions ?b)) (known_moves ?b) xs (list_move ys from to)"
    using diff_merge[OF w(5) move_row_diff[OF ft(1,2)]] shape by simp
  moreover have "distinct (moves ?b)"
  proof -
    have ne: "shift_pos {to} u \<noteq> to" "to \<noteq> shift_pos {to} u" for u
      using shift_pos_spec(1)[of "{to}" u] by auto
    then have "moved_to from to t = to \<Longrightarrow> t = from" for t
      by (simp add: moved_to_def split: if_splits)
    moreover have "inj (moved_to from to)"
      by (rule injI) (auto simp: ne moved_to_def shift_eq_iff unshift_inj split: if_splits)
    then have "distinct ?mv" by (intro distinct_put_to[OF w(6)]) (auto intro: inj_on_subset)
    moreover have "\<lparr>mv_from = f, mv_to = to\<rparr> \<notin> set ?mv" if "from \<notin> ?I" for f
    proof
      assume "\<lparr>mv_from = f, mv_to = to\<rparr> \<in> set ?mv"
      then obtain m where m: "m \<in> set (moves b)" "\<lparr>mv_from = f, mv_to = to\<rparr> = put_to (moved_to from to) m"
        by auto
      have "moved_to from to (mv_to m) = to" using arg_cong[OF m(2), of mv_to] by (simp add: put_to_def)
      then have "mv_to m = from" by (rule calculation(1))
      then have "from \<in> mv_to ` set (moves b)" using m(1) by blast
      then show False using that fromI by blast
    qed
    ultimately show ?thesis using shape by auto
  qed
  ultimately show ?thesis using \<open>sets_ok ?b\<close> by (simp add: describes_def cols(3))
qed

end
