(* ===== verification/ChangeRows.thy ===== *)
theory ChangeRows
  imports ChangeEdits
begin

text \<open>
  The operations for the rows of a table: \<open>move_over\<close> (the last row replaces a deleted one), \<open>swap\<close> and
  \<open>parse_complete\<close>. They track moves in \<open>m_move_mapping\<close>, from the new position to the old one.
\<close>

section \<open>Association lists as relations\<close>

lemma set_alist_update:
  "distinct (map fst ps) \<Longrightarrow> set (AList.update k v ps) = insert (k, v) {(a, b) \<in> set ps. a \<noteq> k}"
  by (induction ps) (auto simp: image_iff)

lemma set_alist_delete: "set (AList.delete k ps) = {(a, b) \<in> set ps. a \<noteq> k}"
  by (auto simp: AList.delete_eq)

lemma map_of_known:
  "distinct (map fst ps) \<Longrightarrow> map_of ps k = Some v \<longleftrightarrow> (k, v) \<in> set ps"
  by (rule map_of_eq_Some_iff)

lemma distinct_alist_ops [simp]:
  "distinct (map fst ps) \<Longrightarrow> distinct (map fst (AList.update k v ps))"
  "distinct (map fst ps) \<Longrightarrow> distinct (map fst (AList.delete k ps))"
  by (simp_all add: distinct_update distinct_delete)

section \<open>Two rows at once\<close>

lemma merge_del_rows:
  "finite D \<Longrightarrow> merge_del D I E = D \<union> (\<lambda>p. shift_pos D (unshift_pos I p)) ` (E - I)"
  by (simp add: merge_del_def compose_pos_alt erased_pos_def image_image)

lemma shift_insert_above:
  assumes "finite D" and "u < v"
  shows "shift_pos (insert (shift_pos D v) D) u = shift_pos D u"
proof (rule shift_pos_eqI)
  have lt: "shift_pos D u < shift_pos D v" using assms by (rule shift_strict)
  then show "shift_pos D u \<notin> insert (shift_pos D v) D" using shift_pos_spec(1)[OF assms(1)] by auto
  have "below (insert (shift_pos D v) D) (shift_pos D u) = below D (shift_pos D u)"
  proof -
    have "{x \<in> insert (shift_pos D v) D. x < shift_pos D u} = {x \<in> D. x < shift_pos D u}" using lt by auto
    then show ?thesis by (simp add: below_def)
  qed
  then show "shift_pos D u = u + below (insert (shift_pos D v) D) (shift_pos D u)"
    using shift_pos_spec(2)[OF assms(1), of u] by simp
qed

lemma unshift_same_below: "(\<And>x. x < p \<Longrightarrow> x \<in> A \<longleftrightarrow> x \<in> B) \<Longrightarrow> unshift_pos A p = unshift_pos B p"
proof -
  assume "\<And>x. x < p \<Longrightarrow> x \<in> A \<longleftrightarrow> x \<in> B"
  then have "{x \<in> A. x < p} = {x \<in> B. x < p}" by auto
  then show ?thesis by (simp add: unshift_pos_def below_def)
qed

lemma compose_in_place:
  assumes "I \<subseteq> {..l}" and "r < l"
  shows "compose_pos {r} (erased_pos {r, l} I) = insert r (I - {l})"
    and "t < l \<Longrightarrow> t \<noteq> r \<Longrightarrow> shift_pos {r} (unshift_pos {r, l} t) = t"
proof -
  have u: "unshift_pos {r, l} t = unshift_pos {r} t" if "t < l" for t
    by (rule unshift_same_below) (use that in auto)
  show "t < l \<Longrightarrow> t \<noteq> r \<Longrightarrow> shift_pos {r} (unshift_pos {r, l} t) = t" by (simp add: u)
  have "erased_pos {r, l} I = erased_pos {r} (I - {l})"
  proof -
    have "I - {r, l} = I - {l} - {r}" by auto
    moreover have "unshift_pos {r, l} ` (I - {l} - {r}) = unshift_pos {r} ` (I - {l} - {r})"
    proof (rule image_cong[OF refl])
      fix x assume "x \<in> I - {l} - {r}"
      then have "x < l" using assms(1) by force
      then show "unshift_pos {r, l} x = unshift_pos {r} x" by (rule u)
    qed
    ultimately show ?thesis by (simp add: erased_pos_def)
  qed
  then show "compose_pos {r} (erased_pos {r, l} I) = insert r (I - {l})"
    by (simp add: compose_erased)
qed

lemma last_is_insertion_iff:
  assumes "crv_wf ins" and "elems ins \<subseteq> {..l}"
  shows "last_is_insertion ins l \<longleftrightarrow> l \<in> elems ins"
proof (cases "ranges ins" rule: rev_cases)
  case Nil
  then have "ins = []" using assms(1) by (simp add: crv_wf_def ranges_eq_Nil)
  then show ?thesis by (simp add: last_is_insertion_def)
next
  case (snoc rs r)
  then have ne: "ins \<noteq> []" by auto
  have "cursor_at ins (it_end ins) (rs @ [r]) []"
    using cursor_end[OF crv_wfD(1)[OF assms(1)]] snoc by simp
  then have d: "deref ins (it_prev ins (it_end ins)) = r" using cursor_deref[OF cursor_prev] by blast
  have ok: "fst r < snd r" "\<forall>x \<in> set rs. snd x < fst r"
    using assms(1) snoc by (auto simp: crv_wf_def ranges_ok_append)
  have el: "elems ins = elems_r rs \<union> {fst r ..< snd r}" by (simp add: elems_def snoc)
  have "snd r - 1 \<in> elems ins" using ok(1) el by auto
  then have "snd r - 1 \<le> l" using assms(2) by auto
  moreover have "x < fst r" if "x \<in> elems_r rs" for x
    using elems_r_lt_of_snd_le[of rs "fst r" x] ok(2) that by (simp add: less_imp_le)
  then have "l \<in> elems ins \<longleftrightarrow> fst r \<le> l \<and> l < snd r"
    using \<open>snd r - 1 \<le> l\<close> ok(1) el by fastforce
  ultimately show ?thesis using ne d ok(1) by (auto simp: last_is_insertion_def)
qed

lemma add_shifted_fst:
  assumes "crv_wf s"
  shows "crv_wf (fst (is_add_shifted s i))" and "snd (is_add_shifted s i) = shift_pos (elems s) i"
    and "elems (fst (is_add_shifted s i)) = insert (shift_pos (elems s) i) (elems s)"
  using is_add_shifted_correct[OF assms, of i] by (cases "is_add_shifted s i"; simp)+

section \<open>move_over\<close>

lemma move_over_col_correct:
  assumes "crv_wf col" and "elems col \<subseteq> {..l}" and "r < l"
  shows "crv_wf (move_over_col r l col)"
    and "elems (move_over_col r l col) = merge_marks {r, l} {r} {(l, r)} (elems col) {}"
proof -
  show "crv_wf (move_over_col r l col)" using assms(1) by (simp add: move_over_col_def index_set_correct)
  have "shifted_pos {r} (erased_pos {r, l} (elems col)) = compose_pos {r} (erased_pos {r, l} (elems col)) - {r}"
    by (auto simp: compose_pos_shifted shifted_pos_def)
  also have "\<dots> = elems col - {r, l}" using compose_in_place(1)[OF assms(2,3)] by auto
  finally show "elems (move_over_col r l col) = merge_marks {r, l} {r} {(l, r)} (elems col) {}"
    using assms(1,3) by (auto simp: move_over_col_def index_set_correct merge_marks_def
        is_remove_correct(2)[where n = 1, simplified])
qed

text \<open>The state \<open>move_over\<close> leaves, in closed form.\<close>

definition after_move_over :: "change_builder \<Rightarrow> nat \<Rightarrow> nat \<Rightarrow> change_builder \<Rightarrow> bool" where
  "after_move_over b r l b' \<longleftrightarrow>
     (let D = elems (deletions b); I = elems (insertions b); M = set (move_mapping b) in
      crv_wf (deletions b') \<and> crv_wf (insertions b') \<and> moves b' = moves b \<and>
      distinct (map fst (move_mapping b')) \<and>
      elems (deletions b') = D \<union> (\<lambda>p. shift_pos D (unshift_pos I p)) ` ({r, l} - I) \<and>
      elems (insertions b') = insert r (I - {l}) \<and>
      set (move_mapping b') =
        {(r, f) | f. (l, f) \<in> M} \<union> {(a, f) \<in> M. a \<noteq> r \<and> a \<noteq> l} \<union>
        (if l \<in> I then {} else {(r, shift_pos D (unshift_pos I l))}))"

lemma move_over_state:
  assumes w: "crv_wf (deletions b)" "crv_wf (insertions b)" "distinct (map fst (move_mapping b))"
    and I: "elems (insertions b) \<subseteq> {..l}" and M: "fst ` set (move_mapping b) \<subseteq> elems (insertions b)"
    and r: "r < l"
  shows "after_move_over b r l (cb_move_over b r l True)"
proof -
  let ?D = "elems (deletions b)" and ?I = "elems (insertions b)" and ?M = "set (move_mapping b)"
  have li: "last_is_insertion (insertions b) l \<longleftrightarrow> l \<in> ?I" by (rule last_is_insertion_iff[OF w(2) I])
  have ri: "is_contains (insertions b) r \<longleftrightarrow> r \<in> ?I" by (rule contains_iff[OF w(2)])
  have un: "unshift_pos (?I - {l}) r = unshift_pos ?I r"
    by (rule unshift_same_below) (use r in auto)
  have sh: "shift_pos (insert (shift_pos ?D (unshift_pos ?I l)) ?D) (unshift_pos ?I r) =
      shift_pos ?D (unshift_pos ?I r)" if "r \<notin> ?I"
    by (rule shift_insert_above[OF finite_elems unshift_strict[OF r that]])
  have Mr: "r \<notin> ?I \<Longrightarrow> (r, f) \<notin> ?M" and Ml: "l \<notin> ?I \<Longrightarrow> (l, f) \<notin> ?M" for f using M by force+
  show ?thesis
  proof (cases "map_of (move_mapping b) l")
    case None
    then have noL: "(l, f) \<notin> ?M" for f by (simp add: map_of_eq_None_iff) force
    show ?thesis
    proof (cases "l \<in> ?I"; cases "r \<in> ?I")
      assume "l \<in> ?I" "r \<in> ?I"
      then show ?thesis
        using r w noL None
        by (auto simp: after_move_over_def cb_move_over_def Let_def li ri is_remove_correct
            set_alist_delete is_remove_correct(2)[where n = 1, simplified])
    next
      assume a: "l \<in> ?I" "r \<notin> ?I"
      then show ?thesis
        using r w noL None Mr[OF a(2)] un
        by (auto simp: after_move_over_def cb_move_over_def Let_def li ri is_remove_correct
            is_remove_correct(2)[where n = 1, simplified] is_unshift_correct is_add_wf is_add_elems
            add_shifted_fst)
    next
      assume a: "l \<notin> ?I" "r \<in> ?I"
      obtain del f where e: "is_add_shifted (deletions b) (is_unshift (insertions b) l) = (del, f)"
        by (cases "is_add_shifted (deletions b) (is_unshift (insertions b) l)")
      note s = is_add_shifted_correct[OF w(1) e]
      show ?thesis
        using r w noL None a e s
        by (auto simp: after_move_over_def cb_move_over_def Let_def li ri set_alist_update
            set_alist_delete is_unshift_correct)
    next
      assume a: "l \<notin> ?I" "r \<notin> ?I"
      obtain del f where e: "is_add_shifted (deletions b) (is_unshift (insertions b) l) = (del, f)"
        by (cases "is_add_shifted (deletions b) (is_unshift (insertions b) l)")
      note s = is_add_shifted_correct[OF w(1) e]
      show ?thesis
        using r w noL None a e s sh[OF a(2)] Mr[OF a(2)]
        by (auto simp: after_move_over_def cb_move_over_def Let_def li ri set_alist_update
            is_unshift_correct is_add_wf is_add_elems add_shifted_fst)
    qed
  next
    case (Some old)
    then have L: "(l, old) \<in> ?M" by (rule map_of_SomeD)
    then have lI: "l \<in> ?I" using Ml by blast
    have uniq: "(l, f) \<in> ?M \<longleftrightarrow> f = old" for f
      using Some map_of_known[OF w(3)] by (metis option.inject)
    show ?thesis
    proof (cases "r \<in> ?I")
      case True
      then show ?thesis
        using r w lI Some uniq
        by (auto simp: after_move_over_def cb_move_over_def Let_def li ri set_alist_update
            set_alist_delete is_remove_correct is_remove_correct(2)[where n = 1, simplified])
    next
      case False
      then show ?thesis
        using r w lI Some uniq un Mr[OF False]
        by (auto simp: after_move_over_def cb_move_over_def Let_def li ri set_alist_update
            set_alist_delete is_remove_correct is_remove_correct(2)[where n = 1, simplified]
            is_unshift_correct is_add_wf is_add_elems add_shifted_fst)
    qed
  qed
qed

lemma moves_in_place:
  assumes "I \<subseteq> {..l}" and "r < l" and "\<forall>(f, t) \<in> P. t \<in> I"
  shows "merge_moves D I {r, l} {r} P {(l, r)} =
    {(f, r) | f. (f, l) \<in> P} \<union> {(f, t) \<in> P. t \<noteq> r \<and> t \<noteq> l} \<union>
    (if l \<in> I then {} else {(shift_pos D (unshift_pos I l), r)})"
proof -
  have "(\<lambda>(f, t). (f, shift_pos {r} (unshift_pos {r, l} t))) ` {(f, t) \<in> P. t \<notin> {r, l}} =
      (\<lambda>p. p) ` {(f, t) \<in> P. t \<notin> {r, l}}"
  proof (rule image_cong[OF refl])
    fix p assume p: "p \<in> {(f, t) \<in> P. t \<notin> {r, l}}"
    obtain f t where ft: "p = (f, t)" by (cases p)
    have "t < l" using p ft assms(1,3) by force
    then show "(case p of (f, t) \<Rightarrow> (f, shift_pos {r} (unshift_pos {r, l} t))) = p"
      using compose_in_place(2)[OF assms(1,2)] p ft by auto
  qed
  moreover have "P O {(l, r)} = {(f, r) | f. (f, l) \<in> P}" by auto
  moreover have "(\<lambda>(f, t). (shift_pos D (unshift_pos I f), t)) ` {(f, t) \<in> {(l, r)}. f \<notin> I} =
      (if l \<in> I then {} else {(shift_pos D (unshift_pos I l), r)})" by auto
  moreover have "{(f, t) \<in> P. t \<notin> {r, l}} = {(f, t) \<in> P. t \<noteq> r \<and> t \<noteq> l}" by auto
  ultimately show ?thesis unfolding merge_moves_def by (simp only: image_ident)
qed

lemma mapping_inserted:
  assumes "describes b xs ys"
  shows "fst ` set (move_mapping b) \<subseteq> elems (insertions b)"
proof
  fix a assume "a \<in> fst ` set (move_mapping b)"
  then obtain f where "(a, f) \<in> set (move_mapping b)" by force
  then have "(f, a) \<in> known_moves b" by (simp add: known_moves_def)
  then show "a \<in> elems (insertions b)" by (rule diff_ok_moveD(2)[OF describesD(5)[OF assms]])
qed

lemma move_over_columns:
  "r \<noteq> l \<Longrightarrow> modifications (cb_move_over b r l tr) = move_over_col r l (modifications b)"
  "r \<noteq> l \<Longrightarrow> columns (cb_move_over b r l tr) =
     (if track_columns b then map (move_over_col r l) (columns b) else columns b)"
  by (auto simp: cb_move_over_def Let_def split: prod.splits option.splits)

lemma cb_move_over_sets:
  assumes d: "describes b xs ys" and r: "r < length ys - 1"
  shows "elems (deletions (cb_move_over b r (length ys - 1) True)) =
      merge_del (elems (deletions b)) (elems (insertions b)) {r, length ys - 1}"
    and "elems (insertions (cb_move_over b r (length ys - 1) True)) =
      merge_ins (elems (insertions b)) {r, length ys - 1} {r}"
proof -
  note w = describesD[OF d]
  note dd = diff_okD[OF w(5)]
  have I: "elems (insertions b) \<subseteq> {..length ys - 1}" using dd(2) by auto
  have "after_move_over b r (length ys - 1) (cb_move_over b r (length ys - 1) True)"
    by (rule move_over_state[OF w(2,3,7) I mapping_inserted[OF d] r])
  then show "elems (deletions (cb_move_over b r (length ys - 1) True)) =
      merge_del (elems (deletions b)) (elems (insertions b)) {r, length ys - 1}"
    "elems (insertions (cb_move_over b r (length ys - 1) True)) =
      merge_ins (elems (insertions b)) {r, length ys - 1} {r}"
    using compose_in_place(1)[OF I r] dd(3)
    by (simp_all add: after_move_over_def Let_def merge_del_rows merge_ins_def)
qed

theorem cb_move_over_describes:
  assumes d: "describes b xs ys" and r: "r < length ys - 1" and mv: "moves b = []"
  shows "describes (cb_move_over b r (length ys - 1) True) xs (butlast (ys[r := last ys]))"
proof -
  let ?l = "length ys - 1" and ?D = "elems (deletions b)" and ?I = "elems (insertions b)"
  let ?b = "cb_move_over b r ?l True"
  note w = describesD[OF d]
  note dd = diff_okD[OF w(5)]
  have I: "?I \<subseteq> {..?l}" using dd(2) by auto
  have a: "after_move_over b r ?l ?b"
    by (rule move_over_state[OF w(2,3,7) I mapping_inserted[OF d] r])
  have "sets_ok ?b"
    using w(1) a r by (auto simp: sets_ok_def after_move_over_def Let_def move_over_columns
        move_over_col_def index_set_correct)
  moreover have "known_moves ?b = merge_moves ?D ?I {r, ?l} {r} (known_moves b) {(?l, r)}"
  proof -
    have "\<forall>(f, t) \<in> known_moves b. t \<in> ?I" using diff_ok_moveD(2)[OF w(5)] by auto
    from moves_in_place[OF I r this, of ?D] show ?thesis
      using a mv by (auto simp: known_moves_def after_move_over_def Let_def)
  qed
  ultimately show ?thesis
    using cb_move_over_sets[OF d r] diff_merge[OF w(5) move_over_diff[OF r]] a mv
    by (simp add: describes_def after_move_over_def Let_def)
qed

lemma list_erase_last: "ys \<noteq> [] \<Longrightarrow> list_erase_at ys (length ys - 1) = butlast ys"
  by (simp add: list_erase_at_def butlast_conv_take)

theorem cb_move_over_last_describes:
  assumes d: "describes b xs ys" and ne: "ys \<noteq> []" and len: "length ys < npos" and mv: "moves b = []"
  shows "describes (cb_move_over b (length ys - 1) (length ys - 1) True) xs (butlast ys)"
proof -
  let ?l = "length ys - 1" and ?D = "elems (deletions b)" and ?I = "elems (insertions b)"
  let ?b = "cb_move_over b ?l ?l True"
  let ?c = "(take_out ?l b)\<lparr>move_mapping := AList.delete ?l (move_mapping b)\<rparr>"
  note w = describesD[OF d]
  have b: "?b = for_each_col (\<lambda>col. is_remove col ?l 1) ?c"
    by (simp add: cb_move_over_def take_out_def Let_def split: prod.splits)
  have l: "?l < npos" "?l < length ys" using len ne by auto
  have t: "crv_wf (deletions ?b)" "crv_wf (insertions ?b)" "elems (deletions ?b) = merge_del ?D ?I {?l}"
    "elems (insertions ?b) = merge_ins ?I {?l} {}"
    using take_out_correct[OF w(2,3) l(1)] unfolding b by (simp_all add: merge_ins_def)
  have "sets_ok ?b" using w(1) t(1,2) unfolding b by (auto simp: sets_ok_def is_remove_correct)
  moreover have "known_moves ?b = merge_moves ?D ?I {?l} {} (known_moves b) {}"
  proof -
    have "(\<lambda>(f, t). (f, shift_pos {} (unshift_pos {?l} t))) ` {(f, t) \<in> known_moves b. t \<notin> {?l}} =
        (\<lambda>p. p) ` {(f, t) \<in> known_moves b. t \<notin> {?l}}"
    proof (rule image_cong[OF refl])
      fix p assume p: "p \<in> {(f, t) \<in> known_moves b. t \<notin> {?l}}"
      then have "snd p < length ys" using diff_ok_moveD(4)[OF w(5)] by auto
      then show "(case p of (f, t) \<Rightarrow> (f, shift_pos {} (unshift_pos {?l} t))) = p"
        using p by (auto simp: unshift_single)
    qed
    then show ?thesis
      unfolding merge_moves_simple b using mv by (auto simp: known_moves_def set_alist_delete)
  qed
  ultimately have "diff_ok (elems (deletions ?b)) (elems (insertions ?b)) (known_moves ?b) xs (butlast ys)"
    using diff_merge[OF w(5) erase_row_diff[OF l(2)]] t(3,4) list_erase_last[OF ne] by simp
  moreover have "distinct (moves ?b)" "distinct (map fst (move_mapping ?b))"
    unfolding b using mv w(7) by simp_all
  ultimately show ?thesis using \<open>sets_ok ?b\<close> unfolding describes_def by blast
qed

section \<open>swap\<close>

lemma swap_col_correct:
  assumes "crv_wf col" and "i \<noteq> j"
  shows "crv_wf (swap_col i j col)"
    and "elems (swap_col i j col) = merge_marks {i, j} {i, j} {(i, j), (j, i)} (elems col) {}"
proof -
  show "crv_wf (swap_col i j col)"
    using assms(1) by (auto simp: swap_col_def Let_def index_set_correct)
  have "shifted_pos {i, j} (erased_pos {i, j} (elems col)) =
      compose_pos {i, j} (erased_pos {i, j} (elems col)) - {i, j}"
    by (auto simp: compose_pos_shifted shifted_pos_def)
  then show "elems (swap_col i j col) = merge_marks {i, j} {i, j} {(i, j), (j, i)} (elems col) {}"
    using assms by (auto simp: swap_col_def Let_def index_set_correct merge_marks_def compose_erased
        is_remove_correct(2)[where n = 1, simplified])
qed

lemma add_row_move_correct:
  assumes "crv_wf (deletions b)" and "crv_wf (insertions b)" and "distinct (map fst (move_mapping b))"
  shows "crv_wf (deletions (add_row_move p q b))" and "crv_wf (insertions (add_row_move p q b))"
    and "distinct (map fst (move_mapping (add_row_move p q b)))"
    and "elems (insertions (add_row_move p q b)) = insert p (elems (insertions b))"
    and "elems (deletions (add_row_move p q b)) =
      (if p \<in> elems (insertions b) then elems (deletions b)
       else insert (shift_pos (elems (deletions b)) (unshift_pos (elems (insertions b)) p)) (elems (deletions b)))"
    and "set (move_mapping (add_row_move p q b)) =
      (if p \<in> elems (insertions b) then set (move_mapping b)
       else insert (q, shift_pos (elems (deletions b)) (unshift_pos (elems (insertions b)) p))
              {(a, f) \<in> set (move_mapping b). a \<noteq> q})"
    and "modifications (add_row_move p q b) = modifications b" "columns (add_row_move p q b) = columns b"
    and "moves (add_row_move p q b) = moves b"
proof -
  obtain del f where e: "is_add_shifted (deletions b) (is_unshift (insertions b) p) = (del, f)"
    by (cases "is_add_shifted (deletions b) (is_unshift (insertions b) p)")
  note s = is_add_shifted_correct[OF assms(1) e]
    have c: "is_contains (insertions b) p \<longleftrightarrow> p \<in> elems (insertions b)" by (rule contains_iff[OF assms(2)])
    have f: "f = shift_pos (elems (deletions b)) (unshift_pos (elems (insertions b)) p)"
      using s(2) assms(2) by (simp add: is_unshift_correct)
    have el: "elems del = insert f (elems (deletions b))" using s(2,3) by simp
    have *: "add_row_move p q b = (if p \<in> elems (insertions b) then b else
        b\<lparr>deletions := del, move_mapping := AList.update q f (move_mapping b),
          insertions := is_add (insertions b) p\<rparr>)"
      by (simp add: add_row_move_def e c)
    show "crv_wf (deletions (add_row_move p q b))" "crv_wf (insertions (add_row_move p q b))"
      "distinct (map fst (move_mapping (add_row_move p q b)))"
      "elems (insertions (add_row_move p q b)) = insert p (elems (insertions b))"
      "modifications (add_row_move p q b) = modifications b" "columns (add_row_move p q b) = columns b"
      "moves (add_row_move p q b) = moves b"
      unfolding * using assms s(1) by (simp_all add: is_add_wf is_add_elems insert_absorb)
    show "elems (deletions (add_row_move p q b)) =
      (if p \<in> elems (insertions b) then elems (deletions b)
       else insert (shift_pos (elems (deletions b)) (unshift_pos (elems (insertions b)) p)) (elems (deletions b)))"
      unfolding * f[symmetric] using el by simp
    show "set (move_mapping (add_row_move p q b)) =
      (if p \<in> elems (insertions b) then set (move_mapping b)
       else insert (q, shift_pos (elems (deletions b)) (unshift_pos (elems (insertions b)) p))
              {(a, f) \<in> set (move_mapping b). a \<noteq> q})"
      unfolding * f[symmetric] using assms(3) by (simp add: set_alist_update)
qed

text \<open>The state \<open>swap\<close> leaves, in closed form.\<close>

definition after_swap :: "change_builder \<Rightarrow> nat \<Rightarrow> nat \<Rightarrow> change_builder \<Rightarrow> bool" where
  "after_swap b i j b' \<longleftrightarrow>
     (let D = elems (deletions b); I = elems (insertions b); M = set (move_mapping b);
          old = (\<lambda>p. shift_pos D (unshift_pos I p)) in
      crv_wf (deletions b') \<and> crv_wf (insertions b') \<and> moves b' = moves b \<and>
      distinct (map fst (move_mapping b')) \<and>
      elems (deletions b') = D \<union> old ` ({i, j} - I) \<and> elems (insertions b') = I \<union> {i, j} \<and>
      set (move_mapping b') =
        {(j, f) | f. (i, f) \<in> M} \<union> {(i, f) | f. (j, f) \<in> M} \<union> {(a, f) \<in> M. a \<noteq> i \<and> a \<noteq> j} \<union>
        (if i \<in> I then {} else {(j, old i)}) \<union> (if j \<in> I then {} else {(i, old j)}))"

lemma swap_state:
  assumes w: "crv_wf (deletions b)" "crv_wf (insertions b)" "distinct (map fst (move_mapping b))"
    and M: "fst ` set (move_mapping b) \<subseteq> elems (insertions b)" and ij: "i < j"
  shows "after_swap b i j (cb_swap b i j True)"
proof -
  let ?D = "elems (deletions b)" and ?I = "elems (insertions b)" and ?M = "set (move_mapping b)"
  let ?c = "for_each_col (swap_col i j) b"
  have wc: "crv_wf (deletions ?c)" "crv_wf (insertions ?c)" "distinct (map fst (move_mapping ?c))"
    using w by simp_all
  have inI: "(p, f) \<in> ?M \<Longrightarrow> p \<in> ?I" for p f using M by force
  have uniq: "map_of (move_mapping b) p = Some g \<Longrightarrow> (p, f) \<in> ?M \<longleftrightarrow> f = g" for p f g
    using map_of_known[OF w(3)] by (metis option.inject)
  have none: "map_of (move_mapping b) p = None \<Longrightarrow> (p, f) \<notin> ?M" for p f
    by (simp add: map_of_eq_None_iff) force
  have mm: "min i j = i" "max i j = j" using ij by auto
  have upd: "update_move g p q ?c =
      add_row_move p q (?c\<lparr>move_mapping := AList.update p g (AList.delete q (move_mapping b))\<rparr>)" for g p q
    by (simp add: update_move_def Let_def)
  note arm = add_row_move_correct
  show ?thesis
  proof (cases "map_of (move_mapping b) i"; cases "map_of (move_mapping b) j")
    assume a: "map_of (move_mapping b) i = None" "map_of (move_mapping b) j = None"
    let ?c1 = "add_row_move j i ?c"
    have s: "cb_swap b i j True = add_row_move i j ?c1" by (simp add: cb_swap_def mm a)
    note c1 = arm[OF wc, of j i]
    note c2 = arm[OF c1(1-3), of i j]
    have un: "unshift_pos (insert j ?I) i = unshift_pos ?I i"
      by (rule unshift_same_below) (use ij in auto)
    have sh: "shift_pos (insert (shift_pos ?D (unshift_pos ?I j)) ?D) (unshift_pos ?I i) =
        shift_pos ?D (unshift_pos ?I i)" if "i \<notin> ?I"
      by (rule shift_insert_above[OF finite_elems unshift_strict[OF ij that]])
    have nM: "(i, f) \<notin> ?M" "(j, f) \<notin> ?M" for f using none a by auto
    show ?thesis
      unfolding s after_swap_def Let_def using c2(1-3) ij nM
      by (auto simp: c2(4-) c1(4-) un sh)
  next
    fix g assume a: "map_of (move_mapping b) i = Some g" "map_of (move_mapping b) j = None"
    let ?c1 = "?c\<lparr>move_mapping := AList.update j g (AList.delete i (move_mapping b))\<rparr>"
    have s: "cb_swap b i j True = add_row_move j i ?c1" by (simp add: cb_swap_def mm a upd)
    have wc1: "crv_wf (deletions ?c1)" "crv_wf (insertions ?c1)" "distinct (map fst (move_mapping ?c1))"
      using w by simp_all
    note c2 = arm[OF wc1, of j i]
    have iI: "i \<in> ?I" using map_of_SomeD[OF a(1)] inI by blast
    have nM: "(j, f) \<notin> ?M" for f using none a by auto
    show ?thesis
      unfolding s after_swap_def Let_def using c2(1-3) ij nM iI uniq[OF a(1)] w(3)
      by (auto simp: c2(4-) set_alist_update set_alist_delete)
  next
    fix g assume a: "map_of (move_mapping b) i = None" "map_of (move_mapping b) j = Some g"
    let ?c1 = "?c\<lparr>move_mapping := AList.update i g (AList.delete j (move_mapping b))\<rparr>"
    have s: "cb_swap b i j True = add_row_move i j ?c1" by (simp add: cb_swap_def mm a upd)
    have wc1: "crv_wf (deletions ?c1)" "crv_wf (insertions ?c1)" "distinct (map fst (move_mapping ?c1))"
      using w by simp_all
    note c2 = arm[OF wc1, of i j]
    have jI: "j \<in> ?I" using map_of_SomeD[OF a(2)] inI by blast
    have nM: "(i, f) \<notin> ?M" for f using none a by auto
    show ?thesis
      unfolding s after_swap_def Let_def using c2(1-3) ij nM jI uniq[OF a(2)] w(3)
      by (auto simp: c2(4-) set_alist_update set_alist_delete)
  next
    fix g h assume a: "map_of (move_mapping b) i = Some g" "map_of (move_mapping b) j = Some h"
    have s: "cb_swap b i j True =
        ?c\<lparr>move_mapping := AList.update i h (AList.update j g (move_mapping b))\<rparr>"
      by (simp add: cb_swap_def mm a)
    have I: "i \<in> ?I" "j \<in> ?I" using map_of_SomeD[OF a(1)] map_of_SomeD[OF a(2)] inI by blast+
    show ?thesis
      unfolding s after_swap_def Let_def using w I ij uniq[OF a(1)] uniq[OF a(2)]
      by (auto simp: set_alist_update)
  qed
qed

lemma moves_swapped:
  assumes "i \<noteq> j"
  shows "merge_moves D I {i, j} {i, j} P {(i, j), (j, i)} =
    {(f, j) | f. (f, i) \<in> P} \<union> {(f, i) | f. (f, j) \<in> P} \<union> {(f, t) \<in> P. t \<noteq> i \<and> t \<noteq> j} \<union>
    (if i \<in> I then {} else {(shift_pos D (unshift_pos I i), j)}) \<union>
    (if j \<in> I then {} else {(shift_pos D (unshift_pos I j), i)})"
proof -
  have "(\<lambda>(f, t). (f, shift_pos {i, j} (unshift_pos {i, j} t))) ` {(f, t) \<in> P. t \<notin> {i, j}} =
      (\<lambda>p. p) ` {(f, t) \<in> P. t \<notin> {i, j}}"
    by (rule image_cong) auto
  moreover have "P O {(i, j), (j, i)} = {(f, j) | f. (f, i) \<in> P} \<union> {(f, i) | f. (f, j) \<in> P}" by auto
  moreover have "(\<lambda>(f, t). (shift_pos D (unshift_pos I f), t)) ` {(f, t) \<in> {(i, j), (j, i)}. f \<notin> I} =
      (if i \<in> I then {} else {(shift_pos D (unshift_pos I i), j)}) \<union>
      (if j \<in> I then {} else {(shift_pos D (unshift_pos I j), i)})" by auto
  moreover have "{(f, t) \<in> P. t \<notin> {i, j}} = {(f, t) \<in> P. t \<noteq> i \<and> t \<noteq> j}" by auto
  ultimately show ?thesis unfolding merge_moves_def by (simp only: image_ident Un_assoc)
qed

lemma add_row_move_columns:
  "modifications (add_row_move p q b) = modifications b" "columns (add_row_move p q b) = columns b"
  by (simp_all add: add_row_move_def split: prod.splits)

lemma swap_columns:
  "i < j \<Longrightarrow> modifications (cb_swap b i j tr) = swap_col i j (modifications b)"
  "i < j \<Longrightarrow> columns (cb_swap b i j tr) = (if track_columns b then map (swap_col i j) (columns b) else columns b)"
  by (auto simp: cb_swap_def update_move_def add_row_move_columns min_def max_def Let_def split: option.splits)

lemma cb_swap_sets:
  assumes d: "describes b xs ys" and ij: "i < j"
  shows "elems (deletions (cb_swap b i j True)) = merge_del (elems (deletions b)) (elems (insertions b)) {i, j}"
    and "elems (insertions (cb_swap b i j True)) = merge_ins (elems (insertions b)) {i, j} {i, j}"
proof -
  note w = describesD[OF d]
  have "after_swap b i j (cb_swap b i j True)"
    by (rule swap_state[OF w(2,3,7) mapping_inserted[OF d] ij(1)])
  then show "elems (deletions (cb_swap b i j True)) = merge_del (elems (deletions b)) (elems (insertions b)) {i, j}"
    "elems (insertions (cb_swap b i j True)) = merge_ins (elems (insertions b)) {i, j} {i, j}"
    using diff_okD(3)[OF w(5)] by (auto simp: after_swap_def Let_def merge_del_rows merge_ins_def compose_erased)
qed

theorem cb_swap_describes:
  assumes d: "describes b xs ys" and ij: "i < j" "j < length ys" and mv: "moves b = []"
  shows "describes (cb_swap b i j True) xs (ys[i := ys ! j, j := ys ! i])"
proof -
  let ?D = "elems (deletions b)" and ?I = "elems (insertions b)" and ?b = "cb_swap b i j True"
  note w = describesD[OF d]
  note dd = diff_okD[OF w(5)]
  have a: "after_swap b i j ?b" by (rule swap_state[OF w(2,3,7) mapping_inserted[OF d] ij(1)])
  have "sets_ok ?b"
    using w(1) a ij(1)
    by (auto simp: sets_ok_def after_swap_def Let_def swap_columns swap_col_correct)
  moreover have "known_moves ?b = merge_moves ?D ?I {i, j} {i, j} (known_moves b) {(i, j), (j, i)}"
    using a mv moves_swapped[of i j ?D ?I "known_moves b"] ij(1)
    by (auto simp: known_moves_def after_swap_def Let_def)
  ultimately show ?thesis
    using cb_swap_sets[OF d ij(1)] diff_merge[OF w(5) swap_rows_diff[of i ys j]] a mv ij
    by (simp add: describes_def after_swap_def Let_def)
qed

end
