(* ===== verification/ChangeParse.thy ===== *)
theory ChangeParse
  imports ChangeRows
begin

text \<open>
  \<open>parse_complete\<close> turns the mapping of moved rows into moves, after it has taken back the entries
  that map a position to itself. That is right for a table whose rows stay where they are unless they
  are moved over or swapped, the invariant \<open>in_place\<close>, and wrong in general.
\<close>

section \<open>The source of a kept row\<close>

lemma below_compose:
  assumes "finite A" and "finite U" and "p \<notin> A"
  shows "below (compose_pos A U) p = below A p + below U (unshift_pos A p)"
proof -
  have "below (compose_pos A U) p = below A p + below (shift_pos A ` U) p"
    unfolding compose_pos_alt[OF assms(1)]
    by (rule below_Un) (use shift_pos_spec(1)[OF assms(1)] in auto)
  moreover have "shift_pos A u < p \<longleftrightarrow> u < unshift_pos A p" for u
    by (metis assms(1,3) not_less_iff_gr_or_eq shift_strict shift_unshift)
  then have "{x \<in> shift_pos A ` U. x < p} = shift_pos A ` {u \<in> U. u < unshift_pos A p}" by auto
  then have "below (shift_pos A ` U) p = below U (unshift_pos A p)"
    by (simp add: below_def card_image inj_on_def shift_eq_iff[OF assms(1)])
  ultimately show ?thesis by simp
qed

lemma unshift_compose:
  "finite A \<Longrightarrow> finite U \<Longrightarrow> p \<notin> A \<Longrightarrow> unshift_pos (compose_pos A U) p = unshift_pos U (unshift_pos A p)"
  by (simp add: below_compose unshift_pos_def)

lemma shift_compose:
  assumes "finite A" and "finite U"
  shows "shift_pos (compose_pos A U) i = shift_pos A (shift_pos U i)"
proof (rule shift_pos_eqI)
  let ?j = "shift_pos A (shift_pos U i)"
  have j: "?j \<notin> A" "unshift_pos A ?j = shift_pos U i" using assms by (simp_all add: shift_pos_spec(1))
  then show "?j \<notin> compose_pos A U" using shift_pos_spec(1)[OF assms(2)] by (simp add: compose_pos_def)
  have "unshift_pos (compose_pos A U) ?j = i" using unshift_compose[OF assms j(1)] j(2) assms by simp
  then show "?j = i + below (compose_pos A U) ?j"
    using below_le[of "compose_pos A U" ?j] by (simp add: unshift_pos_def)
qed

definition source :: "nat set \<Rightarrow> nat set \<Rightarrow> nat \<Rightarrow> nat" where
  "source D I p = shift_pos D (unshift_pos I p)"

lemma source_merge:
  assumes fin: "finite D" "finite I" "finite E" "finite J" and p: "p \<notin> merge_ins I E J"
  shows "source (merge_del D I E) (merge_ins I E J) p = source D I (source E J p)"
    and "p \<notin> J" and "source E J p \<notin> I"
proof -
  let ?q = "source E J p"
  show pJ: "p \<notin> J" using p by (simp add: merge_ins_def compose_pos_def)
  have q: "?q \<notin> E" "unshift_pos E ?q = unshift_pos J p"
    using fin(3) by (simp_all add: source_def shift_pos_spec(1))
  have np: "unshift_pos J p \<notin> erased_pos E I" using p pJ by (simp add: merge_ins_def compose_pos_def)
  show qI: "?q \<notin> I"
  proof
    assume "?q \<in> I"
    then have "unshift_pos E ?q \<in> erased_pos E I" using q(1) by (simp add: erased_pos_def)
    then show False using np q(2) by simp
  qed
  have "unshift_pos (merge_ins I E J) p = unshift_pos (erased_pos E I) (unshift_pos E ?q)"
    unfolding merge_ins_def q(2) using fin by (intro unshift_compose[OF _ _ pJ]) auto
  also have "\<dots> = unshift_pos (E \<union> I) ?q"
    using unshift_compose[OF fin(3) _ q(1), of "erased_pos E I"] fin by (simp add: compose_erased finite_erased_pos)
  also have "\<dots> = unshift_pos (erased_pos I E) (unshift_pos I ?q)"
    using unshift_compose[OF fin(2) _ qI, of "erased_pos I E"] fin
    by (simp add: compose_erased finite_erased_pos Un_commute)
  finally have u: "unshift_pos (merge_ins I E J) p = unshift_pos (erased_pos I E) (unshift_pos I ?q)" .
  have "unshift_pos I ?q \<notin> erased_pos I E"
    using q(1) qI by (auto simp: erased_pos_def unshift_inj)
  then show "source (merge_del D I E) (merge_ins I E J) p = source D I ?q"
    unfolding source_def[of "merge_del D I E"] u unfolding merge_del_def source_def[of D]
    using fin by (simp add: shift_compose finite_erased_pos)
qed

section \<open>Rows that stay in place\<close>

definition in_place :: "nat set \<Rightarrow> nat set \<Rightarrow> nat \<Rightarrow> bool" where
  "in_place D I n \<longleftrightarrow> (\<forall>p < n. p \<notin> I \<longrightarrow> source D I p = p)"

lemma in_place_merge:
  assumes "diff_ok D I P xs ys" and "diff_ok E J Q ys zs"
    and "in_place D I (length ys)" and "in_place E J (length zs)"
  shows "in_place (merge_del D I E) (merge_ins I E J) (length zs)"
  unfolding in_place_def
proof (intro allI impI)
  fix p assume p: "p < length zs" "p \<notin> merge_ins I E J"
  note fin = diff_okD(3,4)[OF assms(1)] diff_okD(3,4)[OF assms(2)]
  note s = source_merge[OF fin p(2)]
  have q: "source E J p = p" using assms(4) p(1) s(2) by (simp add: in_place_def)
  have "source E J p < length ys"
    using kept_row(1)[of E J ys zs p] diff_okD[OF assms(2)] p(1) s(2) by (simp add: source_def)
  then show "source (merge_del D I E) (merge_ins I E J) p = p"
    using s(1,3) q assms(3) by (simp add: in_place_def)
qed

lemma in_place_refl: "in_place {} {} n"
  by (simp add: in_place_def source_def)

lemma in_place_append: "in_place {} {n ..< n + k} (n + k)"
  by (auto simp: in_place_def source_def unshift_pos_def below_ivl)

lemma in_place_move_over: "r < l \<Longrightarrow> in_place {r, l} {r} l"
proof -
  assume r: "r < l"
  have "shift_pos {r, l} (unshift_pos {r} p) = p" if "p < l" "p \<noteq> r" for p
  proof -
    have "unshift_pos {r} p = unshift_pos {r, l} p" by (rule unshift_same_below) (use that r in auto)
    then show ?thesis using that by simp
  qed
  then show ?thesis by (simp add: in_place_def source_def)
qed

lemma in_place_same: "in_place S S n"
  by (simp add: in_place_def source_def)

lemma in_place_erase_last: "in_place {l} {} l"
  by (simp add: in_place_def source_def shift_single)

text \<open>Under the invariant the two sets agree in front of every position both contain.\<close>

lemma in_place_unshift:
  assumes d: "diff_ok D I P xs ys" and ip: "in_place D I (length ys)"
    and n: "n \<in> D" "n \<in> I"
  shows "unshift_pos D n = unshift_pos I n"
proof -
  note dd = diff_okD[OF d]
  have len: "n < length xs" "n < length ys" using dd(1,2) n by auto
  have k: "same_kept I D ys xs" using dd(5) same_kept_sym by blast
  have "q \<in> D \<longleftrightarrow> q \<in> I" if "q < n" for q
  proof
    assume "q \<in> D"
    show "q \<in> I"
    proof (rule ccontr)
      assume "q \<notin> I"
      then have "source D I q = q" using ip that len(2) by (simp add: in_place_def)
      then show False
        using kept_row(2)[OF dd(5,3) _ \<open>q \<notin> I\<close>] that len(2) \<open>q \<in> D\<close> by (simp add: source_def)
    qed
  next
    assume qI: "q \<in> I"
    show "q \<in> D"
    proof (rule ccontr)
      assume qD: "q \<notin> D"
      let ?p = "shift_pos I (unshift_pos D q)"
      have p: "?p < length ys" "?p \<notin> I" using kept_row(1,2)[OF k dd(4) _ qD] that len(1) by auto
      then have "source D I ?p = ?p" using ip by (simp add: in_place_def)
      moreover have "source D I ?p = q" using qD dd(3,4) by (simp add: source_def)
      ultimately show False using p(2) qI by simp
    qed
  qed
  then show ?thesis by (intro unshift_same_below) auto
qed

section \<open>parse_complete\<close>

lemma unshift_remove:
  assumes "finite D" and "f \<in> D"
  shows "unshift_pos (D - {f}) x = unshift_pos D x + (if f < x then 1 else 0)"
  using below_remove[OF assms, of x] below_le[of D x] by (auto simp: unshift_pos_def)

lemma parse_loop_correct:
  assumes "diff_ok (elems (deletions b)) (elems (insertions b)) (pair_of ` set (moves b) \<union> (set ps)\<inverse>) xs ys"
    and "crv_wf (deletions b)" and "crv_wf (insertions b)" and "distinct ps" and "distinct (moves b)"
    and "pair_of ` set (moves b) \<inter> (set ps)\<inverse> = {}"
    and "\<forall>n. (n, n) \<in> set ps \<longrightarrow>
           unshift_pos (elems (deletions b)) n = unshift_pos (elems (insertions b)) n"
  shows "crv_wf (deletions (foldl parse_move b ps)) \<and> crv_wf (insertions (foldl parse_move b ps)) \<and>
    distinct (moves (foldl parse_move b ps)) \<and>
    diff_ok (elems (deletions (foldl parse_move b ps))) (elems (insertions (foldl parse_move b ps)))
      (pair_of ` set (moves (foldl parse_move b ps))) xs ys \<and>
    pair_of ` set (moves (foldl parse_move b ps)) = pair_of ` set (moves b) \<union> {(f, t). (t, f) \<in> set ps \<and> t \<noteq> f}"
  using assms
proof (induction ps arbitrary: b)
  case Nil
  then show ?case by simp
next
  case (Cons p ps)
  obtain n f where p: "p = (n, f)" by (cases p)
  show ?case
  proof (cases "n = f")
    case True
    let ?b = "parse_move b p"
    have b: "deletions ?b = is_remove (deletions b) n 1" "insertions ?b = is_remove (insertions b) n 1"
      "moves ?b = moves b" using True p by (simp_all add: parse_move_def)
    have el: "elems (deletions ?b) = elems (deletions b) - {n}"
      "elems (insertions ?b) = elems (insertions b) - {n}"
      using Cons.prems(2,3) b by (simp_all add: is_remove_correct)
    have wf: "crv_wf (deletions ?b)" "crv_wf (insertions ?b)"
      using Cons.prems(2,3) b by (simp_all add: is_remove_correct)
    let ?P = "pair_of ` set (moves b) \<union> (set ps)\<inverse>"
    have ins: "pair_of ` set (moves b) \<union> (set (p # ps))\<inverse> = insert (n, n) ?P" using True p by auto
    have nP: "(n, n) \<notin> ?P" using Cons.prems(4,6) True p by auto
    have d0: "diff_ok (elems (deletions b)) (elems (insertions b)) (insert (n, n) ?P) xs ys"
      using Cons.prems(1) ins by simp
    have d: "diff_ok (elems (deletions ?b)) (elems (insertions ?b)) ?P xs ys"
      unfolding el by (rule diff_unmove[OF d0 nP]) (use Cons.prems(7) True p in auto)
    have mem: "n \<in> elems (deletions b)" "n \<in> elems (insertions b)"
      using diff_ok_moveD(1,2)[OF d0, of n n] by auto
    have un: "\<forall>m. (m, m) \<in> set ps \<longrightarrow>
        unshift_pos (elems (deletions ?b)) m = unshift_pos (elems (insertions ?b)) m"
      using Cons.prems(7) mem unfolding el by (simp add: unshift_remove)
    have step: "foldl parse_move b (p # ps) = foldl parse_move ?b ps" by simp
    have same: "{(f, t). (t, f) \<in> set (p # ps) \<and> t \<noteq> f} = {(f, t). (t, f) \<in> set ps \<and> t \<noteq> f}"
      using True p by auto
    have dis: "pair_of ` set (moves b) \<inter> (set ps)\<inverse> = {}" using Cons.prems(6) by auto
    have dp: "distinct ps" using Cons.prems(4) by simp
    show ?thesis
      unfolding step same by (rule Cons.IH[of ?b, unfolded b(3), OF d wf dp Cons.prems(5) dis un])
  next
    case False
    let ?b = "parse_move b p"
    have b: "deletions ?b = deletions b" "insertions ?b = insertions b"
      "moves ?b = moves b @ [\<lparr>mv_from = f, mv_to = n\<rparr>]" using False p by (simp_all add: parse_move_def)
    have pr: "pair_of ` set (moves ?b) = insert (f, n) (pair_of ` set (moves b))"
      by (simp add: b(3) pair_of_def)
    have P: "pair_of ` set (moves ?b) \<union> (set ps)\<inverse> = pair_of ` set (moves b) \<union> (set (p # ps))\<inverse>"
      unfolding pr using p by auto
    have fresh: "\<lparr>mv_from = f, mv_to = n\<rparr> \<notin> set (moves b)"
    proof
      assume "\<lparr>mv_from = f, mv_to = n\<rparr> \<in> set (moves b)"
      then have "pair_of \<lparr>mv_from = f, mv_to = n\<rparr> \<in> pair_of ` set (moves b)" by blast
      then have "(f, n) \<in> pair_of ` set (moves b)" by (simp add: pair_of_def)
      then show False using Cons.prems(6) p by auto
    qed
    have dis: "pair_of ` set (moves ?b) \<inter> (set ps)\<inverse> = {}"
      unfolding pr using Cons.prems(4,6) p by auto
    have step: "foldl parse_move b (p # ps) = foldl parse_move ?b ps" by simp
    have hyps: "crv_wf (deletions ?b)" "crv_wf (insertions ?b)" "distinct ps" "distinct (moves ?b)"
      using Cons.prems(2-5) fresh b by auto
    have d: "diff_ok (elems (deletions ?b)) (elems (insertions ?b))
        (pair_of ` set (moves ?b) \<union> (set ps)\<inverse>) xs ys"
      unfolding P b(1,2) by (rule Cons.prems(1))
    have un: "\<forall>n. (n, n) \<in> set ps \<longrightarrow>
        unshift_pos (elems (deletions ?b)) n = unshift_pos (elems (insertions ?b)) n"
      using Cons.prems(7) b by simp
    have same: "pair_of ` set (moves b) \<union> {(f, t). (t, f) \<in> set (p # ps) \<and> t \<noteq> f} =
        pair_of ` set (moves ?b) \<union> {(f, t). (t, f) \<in> set ps \<and> t \<noteq> f}"
      unfolding pr using False p by auto
    show ?thesis unfolding step same by (rule Cons.IH[of ?b, OF d hyps dis un])
  qed
qed

lemma parse_move_sel [simp]:
  "modifications (foldl parse_move b ps) = modifications b" "columns (foldl parse_move b ps) = columns b"
  by (induction ps arbitrary: b) (simp_all add: parse_move_def)

theorem parse_complete_describes:
  assumes d: "describes b xs ys" and mv: "moves b = []"
    and ip: "in_place (elems (deletions b)) (elems (insertions b)) (length ys)"
  shows "describes (parse_complete b) xs ys" and "move_mapping (parse_complete b) = []"
    and "sorted (map mv_from (moves (parse_complete b)))"
    and "pair_of ` set (moves (parse_complete b)) = {(f, t). (t, f) \<in> set (move_mapping b) \<and> t \<noteq> f}"
proof -
  note w = describesD[OF d]
  let ?c = "foldl parse_move b (move_mapping b)"
  have "\<forall>n. (n, n) \<in> set (move_mapping b) \<longrightarrow>
      unshift_pos (elems (deletions b)) n = unshift_pos (elems (insertions b)) n"
  proof (intro allI impI)
    fix n assume "(n, n) \<in> set (move_mapping b)"
    then have "(n, n) \<in> known_moves b" by (simp add: known_moves_def)
    then show "unshift_pos (elems (deletions b)) n = unshift_pos (elems (insertions b)) n"
      using in_place_unshift[OF w(5) ip] diff_ok_moveD(1,2)[OF w(5)] by blast
  qed
  then have c: "crv_wf (deletions ?c)" "crv_wf (insertions ?c)" "distinct (moves ?c)"
    "diff_ok (elems (deletions ?c)) (elems (insertions ?c)) (pair_of ` set (moves ?c)) xs ys"
    "pair_of ` set (moves ?c) = {(f, t). (t, f) \<in> set (move_mapping b) \<and> t \<noteq> f}"
    using parse_loop_correct[of b "move_mapping b" xs ys] w mv by (auto simp: known_moves_def distinct_map)
  show "describes (parse_complete b) xs ys"
    using c(1-4) w(1) by (simp add: describes_def sets_ok_def parse_complete_def Let_def known_moves_def)
  show "move_mapping (parse_complete b) = []" "sorted (map mv_from (moves (parse_complete b)))"
    by (simp_all add: parse_complete_def Let_def)
  show "pair_of ` set (moves (parse_complete b)) = {(f, t). (t, f) \<in> set (move_mapping b) \<and> t \<noteq> f}"
    using c(5) by (simp add: parse_complete_def Let_def)
qed

end
