(* ===== verification/ChangeMerge.thy ===== *)
theory ChangeMerge
  imports ChangeParse
begin

text \<open>
  \<open>merge\<close>: if the first builder describes the step from \<open>xs\<close> to \<open>ys\<close> and the second the step from \<open>ys\<close>
  to \<open>zs\<close>, the merged one describes the step from \<open>xs\<close> to \<open>zs\<close>. The lemmas follow the stages of the
  function; each stage is characterised by the set of its moves and by what it leaves alone.
\<close>

section \<open>Columns of two builders\<close>

lemma for_each_col2_sel [simp]:
  "deletions (fst (for_each_col2 f p)) = deletions (fst p)"
  "deletions (snd (for_each_col2 f p)) = deletions (snd p)"
  "insertions (fst (for_each_col2 f p)) = insertions (fst p)"
  "insertions (snd (for_each_col2 f p)) = insertions (snd p)"
  "moves (fst (for_each_col2 f p)) = moves (fst p)"
  "moves (snd (for_each_col2 f p)) = moves (snd p)"
  "move_mapping (fst (for_each_col2 f p)) = move_mapping (fst p)"
  "move_mapping (snd (for_each_col2 f p)) = move_mapping (snd p)"
  "modifications (fst (for_each_col2 f p)) = fst (f (modifications (fst p)) (modifications (snd p)))"
  "modifications (snd (for_each_col2 f p)) = snd (f (modifications (fst p)) (modifications (snd p)))"
  by (simp_all add: for_each_col2_def Let_def)

lemma resize_columns_wf: "\<forall>c \<in> set cs. crv_wf c \<Longrightarrow> \<forall>c \<in> set (resize_columns n cs). crv_wf c"
  by (auto simp: resize_columns_def dest: in_set_takeD)

lemma map2_wf:
  assumes "\<forall>c \<in> set cs. crv_wf c" and "\<forall>c \<in> set ds. crv_wf c"
    and "\<And>c d. crv_wf c \<Longrightarrow> crv_wf d \<Longrightarrow> crv_wf (fst (f c d)) \<and> crv_wf (snd (f c d))"
  shows "\<forall>q \<in> set (map2 f cs ds). crv_wf (fst q) \<and> crv_wf (snd q)"
proof
  fix q assume "q \<in> set (map2 f cs ds)"
  then obtain c d where "(c, d) \<in> set (zip cs ds)" "q = f c d" by auto
  then show "crv_wf (fst q) \<and> crv_wf (snd q)"
    using assms by (metis set_zip_leftD set_zip_rightD)
qed

lemma sets_ok_for_each_col2:
  assumes "sets_ok (fst p)" and "sets_ok (snd p)"
    and f: "\<And>c d. crv_wf c \<Longrightarrow> crv_wf d \<Longrightarrow> crv_wf (fst (f c d)) \<and> crv_wf (snd (f c d))"
  shows "sets_ok (fst (for_each_col2 f p))" and "sets_ok (snd (for_each_col2 f p))"
proof -
  let ?n = "max (length (columns (fst p))) (length (columns (snd p)))"
  let ?cs = "resize_columns ?n (columns (fst p))" and ?ds = "resize_columns ?n (columns (snd p))"
  have "\<forall>c \<in> set ?cs. crv_wf c" "\<forall>c \<in> set ?ds. crv_wf c"
    using assms(1,2) unfolding sets_ok_def by (intro resize_columns_wf; blast)+
  then have "\<forall>q \<in> set (map2 f ?cs ?ds). crv_wf (fst q) \<and> crv_wf (snd q)"
    using f by (intro map2_wf) auto
  then show "sets_ok (fst (for_each_col2 f p))" "sets_ok (snd (for_each_col2 f p))"
    using assms(1,2) f[of "modifications (fst p)" "modifications (snd p)"]
    by (auto simp: sets_ok_def for_each_col2_def Let_def)
qed

lemma mark_moved_wf:
  "crv_wf c \<Longrightarrow> crv_wf d \<Longrightarrow> crv_wf (fst (mark_moved f t c d)) \<and> crv_wf (snd (mark_moved f t c d))"
  by (simp add: mark_moved_def is_add_wf)

lemma mark_moved_elems:
  "crv_wf c \<Longrightarrow> crv_wf d \<Longrightarrow>
     elems (snd (mark_moved f t c d)) = (if f \<in> elems c then insert t (elems d) else elems d)"
  "fst (mark_moved f t c d) = c"
  by (simp_all add: mark_moved_def contains_iff is_add_elems)

section \<open>Old moves\<close>

lemma find_move_Some:
  "find_move p mvs = Some k \<Longrightarrow> k < length mvs \<and> mv_from (mvs ! k) = p"
  by (induction mvs arbitrary: k) (auto split: if_splits)

lemma find_move_None: "find_move p mvs = None \<longleftrightarrow> p \<notin> mv_from ` set mvs"
  by (induction mvs) auto

lemma swap_remove_props:
  assumes "k < length xs" and "distinct xs"
  shows "set (swap_remove xs k) = set xs - {xs ! k}" and "distinct (swap_remove xs k)"
proof -
  obtain ys y where xs: "xs = ys @ [y]" using assms(1) by (cases xs rule: rev_cases) auto
  have "set (swap_remove xs k) = set xs - {xs ! k} \<and> distinct (swap_remove xs k)"
  proof (cases "k = length ys")
    case True
    then show ?thesis using xs assms(2) by (auto simp: swap_remove_def)
  next
    case False
    then have k: "k < length ys" using assms(1) xs by simp
    then have s: "swap_remove xs k = ys[k := y]" using xs by (simp add: swap_remove_def list_update_append)
    have d: "distinct ys" "y \<notin> set ys" using assms(2) xs by auto
    have "set (ys[k := y]) = insert y (set ys - {ys ! k})" using set_update_distinct[OF d(1) k] .
    moreover have "distinct (ys[k := y])" using d by (simp add: distinct_list_update)
    moreover have "xs ! k = ys ! k" "ys ! k \<noteq> y" using xs k d(2) by (auto simp: nth_append)
    ultimately show ?thesis using s xs by auto
  qed
  then show "set (swap_remove xs k) = set xs - {xs ! k}" "distinct (swap_remove xs k)" by auto
qed

lemma pair_of_to: "pair_of (m\<lparr>mv_to := t\<rparr>) = (mv_from m, t)"
  by (simp add: pair_of_def)

lemma relcomp_single: "{(a, b)} O pair_of ` S = (\<lambda>m. (a, mv_to m)) ` {m \<in> S. mv_from m = b}"
proof (rule set_eqI)
  fix p show "p \<in> {(a, b)} O pair_of ` S \<longleftrightarrow> p \<in> (\<lambda>m. (a, mv_to m)) ` {m \<in> S. mv_from m = b}"
    by (cases p) (auto simp: pair_of_def relcomp_unfold image_iff)
qed

lemma relcomp_drop:
  assumes "mv_from m \<notin> mv_to ` A"
  shows "pair_of ` A O pair_of ` S = pair_of ` A O pair_of ` (S - {m})"
proof (rule set_eqI)
  fix p show "p \<in> pair_of ` A O pair_of ` S \<longleftrightarrow> p \<in> pair_of ` A O pair_of ` (S - {m})"
  proof (cases p)
    case (Pair f t)
    have "\<exists>s' \<in> S - {m}. (u, t) = pair_of s'" if "a \<in> A" "(f, u) = pair_of a" "s \<in> S" "(u, t) = pair_of s" for u a s
    proof -
      have "mv_to a \<in> mv_to ` A" using that(1) by blast
      then have "s \<noteq> m" using that(2,4) assms by (auto simp: pair_of_def)
      then show ?thesis using that by blast
    qed
    then show ?thesis unfolding Pair relcomp_unfold by blast
  qed
qed

text \<open>What the stages of \<open>merge\<close> leave alone.\<close>

definition same_frame :: "change_builder \<times> change_builder \<Rightarrow> change_builder \<times> change_builder \<Rightarrow> bool" where
  "same_frame p q \<longleftrightarrow>
     deletions (fst q) = deletions (fst p) \<and> deletions (snd q) = deletions (snd p) \<and>
     insertions (fst q) = insertions (fst p) \<and> insertions (snd q) = insertions (snd p) \<and>
     modifications (fst q) = modifications (fst p) \<and>
     move_mapping (fst q) = move_mapping (fst p) \<and>
     (sets_ok (fst p) \<and> sets_ok (snd p) \<longrightarrow> sets_ok (fst q) \<and> sets_ok (snd q))"

lemma same_frame_refl: "same_frame p p"
  by (simp add: same_frame_def)

lemma same_frame_trans: "same_frame p q \<Longrightarrow> same_frame q r \<Longrightarrow> same_frame p r"
  by (simp add: same_frame_def)

lemma sets_ok_moves [simp]: "sets_ok (b\<lparr>moves := ms\<rparr>) = sets_ok b"
  by (simp add: sets_ok_def)

lemma mark_moved_frame:
  "same_frame p (for_each_col2 (mark_moved f t) p)"
  using sets_ok_for_each_col2[of p "mark_moved f t"] mark_moved_wf
  by (simp add: same_frame_def mark_moved_elems(2))

lemma same_frame_moves [simp]:
  "same_frame p (b\<lparr>moves := ms\<rparr>, c) = same_frame p (b, c)"
  "same_frame p (b, c\<lparr>moves := ms\<rparr>) = same_frame p (b, c)"
  by (simp_all add: same_frame_def)

lemma merge_old_moves_correct:
  assumes "sets_ok (fst p)" and "sets_ok (snd p)" and "distinct (moves (snd p))"
    and "inj_on mv_from (set (moves (snd p)))"
    and "mv_from ` set (moves (snd p)) \<subseteq> elems (deletions (snd p))"
    and "distinct olds" and "inj_on mv_to (set olds)"
    and "merge_old_moves olds p = (ms, q)"
  shows "same_frame p q \<and> moves (fst q) = moves (fst p) \<and>
    pair_of ` set ms =
      pair_of ` set olds O pair_of ` set (moves (snd p)) \<union>
      (\<lambda>(f, t). (f, shift_pos (elems (insertions (snd p))) (unshift_pos (elems (deletions (snd p))) t))) `
        {(f, t) \<in> pair_of ` set olds. t \<notin> elems (deletions (snd p))} \<and>
    set (moves (snd q)) = {m \<in> set (moves (snd p)). mv_from m \<notin> mv_to ` set olds} \<and>
    distinct (moves (snd q)) \<and>
    elems (modifications (snd q)) = elems (modifications (snd p)) \<union>
      mv_to ` {m \<in> set (moves (snd p)). mv_from m \<in> mv_to ` set olds \<and>
                                        mv_from m \<in> elems (modifications (fst p))}"
  using assms
proof (induction olds arbitrary: p ms q)
  case Nil
  then show ?case by (auto simp: same_frame_refl)
next
  case (Cons old olds)
  let ?Q = "moves (snd p)" and ?E = "elems (deletions (snd p))" and ?J = "elems (insertions (snd p))"
  obtain m p1 where s1: "merge_old_move old p = (m, p1)" by (cases "merge_old_move old p")
  obtain ms1 q1 where s2: "merge_old_moves olds p1 = (ms1, q1)" by (cases "merge_old_moves olds p1")
  have q: "q = q1" "ms = (case m of None \<Rightarrow> ms1 | Some x \<Rightarrow> x # ms1)"
    using Cons.prems(8) s1 s2 by auto
  have olds: "distinct olds" "inj_on mv_to (set olds)" "mv_to old \<notin> mv_to ` set olds"
    using Cons.prems(6,7) by (auto simp: inj_on_def)
  have po: "pair_of old = (mv_from old, mv_to old)" by (simp add: pair_of_def)
  have wf: "crv_wf (deletions (snd p))" "crv_wf (insertions (snd p))" "crv_wf (modifications (fst p))"
    "crv_wf (modifications (snd p))"
    using Cons.prems(1,2) by (auto simp: sets_ok_def)
  show ?case
  proof (cases "find_move (mv_to old) ?Q")
    case (Some k)
    let ?m = "?Q ! k" and ?g = "for_each_col2 (mark_moved (mv_from (?Q ! k)) (mv_to (?Q ! k))) p"
    have k: "k < length ?Q" "mv_from ?m = mv_to old" using find_move_Some[OF Some] by auto
    have mQ: "?m \<in> set ?Q" using k(1) by simp
    have p1: "p1 = (fst ?g, (snd ?g)\<lparr>moves := swap_remove ?Q k\<rparr>)" "m = Some (old\<lparr>mv_to := mv_to ?m\<rparr>)"
    proof -
      obtain b1 c1 where g: "?g = (b1, c1)" by (cases "?g")
      have "moves c1 = ?Q" using g for_each_col2_sel(6)[of "mark_moved (mv_from ?m) (mv_to ?m)" p] by simp
      then have "merge_old_move old p = (Some (old\<lparr>mv_to := mv_to ?m\<rparr>), b1, c1\<lparr>moves := swap_remove ?Q k\<rparr>)"
        using Some g by (simp add: merge_old_move_def Let_def)
      then show "p1 = (fst ?g, (snd ?g)\<lparr>moves := swap_remove ?Q k\<rparr>)" "m = Some (old\<lparr>mv_to := mv_to ?m\<rparr>)"
        using s1 g by simp_all
    qed
    have fr: "same_frame p p1" unfolding p1 using mark_moved_frame by simp
    have mv1: "set (moves (snd p1)) = set ?Q - {?m}" "distinct (moves (snd p1))" "moves (fst p1) = moves (fst p)"
      unfolding p1 using swap_remove_props[OF k(1) Cons.prems(3)] by auto
    have md: "elems (modifications (snd p1)) = elems (modifications (snd p)) \<union>
        (if mv_to old \<in> elems (modifications (fst p)) then {mv_to ?m} else {})"
      unfolding p1 using mark_moved_elems(1)[OF wf(3,4)] k(2) by simp
    have fr': "deletions (snd p1) = deletions (snd p)" "insertions (snd p1) = insertions (snd p)"
      "modifications (fst p1) = modifications (fst p)" "sets_ok (fst p1)" "sets_ok (snd p1)"
      using fr Cons.prems(1,2) by (auto simp: same_frame_def)
    have only: "m' = ?m" if "m' \<in> set ?Q" "mv_from m' = mv_to old" for m'
      using that Cons.prems(4) mQ k(2) by (auto simp: inj_on_def)
    have single: "{m \<in> set ?Q. mv_from m = mv_to old} = {?m}" using only mQ k(2) by blast
    have IH: "same_frame p1 q1 \<and> moves (fst q1) = moves (fst p1) \<and>
      pair_of ` set ms1 = pair_of ` set olds O pair_of ` set (moves (snd p1)) \<union>
        (\<lambda>(f, t). (f, shift_pos ?J (unshift_pos ?E t))) ` {(f, t) \<in> pair_of ` set olds. t \<notin> ?E} \<and>
      set (moves (snd q1)) = {m \<in> set (moves (snd p1)). mv_from m \<notin> mv_to ` set olds} \<and>
      distinct (moves (snd q1)) \<and>
      elems (modifications (snd q1)) = elems (modifications (snd p1)) \<union>
        mv_to ` {m \<in> set (moves (snd p1)). mv_from m \<in> mv_to ` set olds \<and>
                                           mv_from m \<in> elems (modifications (fst p))}"
    proof -
      have i1: "inj_on mv_from (set (moves (snd p1)))"
        unfolding mv1(1) by (rule inj_on_subset[OF Cons.prems(4)]) auto
      have i2: "mv_from ` set (moves (snd p1)) \<subseteq> elems (deletions (snd p1))"
        unfolding mv1(1) fr'(1) using Cons.prems(5) by auto
      from Cons.IH[OF fr'(4,5) mv1(2) i1 i2 olds(1,2) s2] show ?thesis unfolding fr'(1,2,3) .
    qed
    have "pair_of ` set ms = insert (mv_from old, mv_to ?m) (pair_of ` set ms1)"
      unfolding q(2) p1(2) by (simp only: option.case list.set image_insert pair_of_to)
    moreover have "pair_of ` set (old # olds) O pair_of ` set ?Q =
        insert (mv_from old, mv_to ?m) (pair_of ` set olds O pair_of ` set (moves (snd p1)))"
    proof -
      have 1: "{pair_of old} O pair_of ` set ?Q = {(mv_from old, mv_to ?m)}"
        unfolding po relcomp_single single by simp
      have 2: "pair_of ` set olds O pair_of ` set ?Q = pair_of ` set olds O pair_of ` set (moves (snd p1))"
        unfolding mv1(1) by (rule relcomp_drop) (use olds(3) k(2) in simp)
      have 3: "pair_of ` set (old # olds) = {pair_of old} \<union> pair_of ` set olds" by simp
      show ?thesis unfolding 3 relcomp_distrib2 1 2 by simp
    qed
    moreover have "mv_to old \<in> ?E" using mQ k(2) Cons.prems(5) by force
    then have "{(f, t) \<in> pair_of ` set (old # olds). t \<notin> ?E} = {(f, t) \<in> pair_of ` set olds. t \<notin> ?E}"
      by (auto simp: po)
    moreover have "set (moves (snd q)) = {m \<in> set ?Q. mv_from m \<notin> mv_to ` set (old # olds)}"
      using IH mv1(1) only k(2) by (auto simp: q)
    moreover have "elems (modifications (snd q)) = elems (modifications (snd p)) \<union>
      mv_to ` {m \<in> set ?Q. mv_from m \<in> mv_to ` set (old # olds) \<and>
                            mv_from m \<in> elems (modifications (fst p))}"
    proof -
      let ?M = "elems (modifications (fst p))"
      let ?R = "{m \<in> set ?Q. mv_from m \<in> mv_to ` set olds \<and> mv_from m \<in> ?M}"
      have 1: "{m \<in> set (moves (snd p1)). mv_from m \<in> mv_to ` set olds \<and> mv_from m \<in> ?M} = ?R"
      proof -
        have "mv_from ?m \<notin> mv_to ` set olds" using olds(3) k(2) by simp
        then show ?thesis unfolding mv1(1) by blast
      qed
      have 2: "{m \<in> set ?Q. mv_from m = mv_to old \<and> mv_from m \<in> ?M} =
          (if mv_to old \<in> ?M then {?m} else {})"
      proof (cases "mv_to old \<in> ?M")
        case True
        then have "{m \<in> set ?Q. mv_from m = mv_to old \<and> mv_from m \<in> ?M} =
            {m \<in> set ?Q. mv_from m = mv_to old}" by auto
        also have "\<dots> = {?m}" by (rule single)
        finally have "{m \<in> set ?Q. mv_from m = mv_to old \<and> mv_from m \<in> ?M} = {?m}" .
        then show ?thesis using True by simp
      next
        case False
        then have "{m \<in> set ?Q. mv_from m = mv_to old \<and> mv_from m \<in> ?M} = {}" by auto
        then show ?thesis using False by simp
      qed
      have 3: "{m \<in> set ?Q. mv_from m \<in> mv_to ` set (old # olds) \<and> mv_from m \<in> ?M} =
          {m \<in> set ?Q. mv_from m = mv_to old \<and> mv_from m \<in> ?M} \<union> ?R" by auto
      have 4: "elems (modifications (snd q)) = elems (modifications (snd p1)) \<union> mv_to ` ?R"
        using IH unfolding q(1) 1 by blast
      show ?thesis unfolding 3 2 4 md by (cases "mv_to old \<in> ?M") (simp_all add: Un_ac)
    qed
    ultimately show ?thesis using IH same_frame_trans[OF fr] mv1(3) by (simp add: q)
  next
    case None
    have nf: "mv_to old \<notin> mv_from ` set ?Q" using None find_move_None by blast
    have p1: "p1 = p" using s1 None by (auto simp: merge_old_move_def split: if_splits)
    note IH = Cons.IH[OF Cons.prems(1-5) olds(1,2) s2[unfolded p1]]
    have rel: "pair_of ` set (old # olds) O pair_of ` set ?Q = pair_of ` set olds O pair_of ` set ?Q"
      using nf by (force simp: pair_of_def)
    have mv: "{m \<in> set ?Q. mv_from m \<notin> mv_to ` set (old # olds)} =
        {m \<in> set ?Q. mv_from m \<notin> mv_to ` set olds}"
      "{m \<in> set ?Q. mv_from m \<in> mv_to ` set (old # olds) \<and> mv_from m \<in> M} =
        {m \<in> set ?Q. mv_from m \<in> mv_to ` set olds \<and> mv_from m \<in> M}" for M
    proof -
      have "mv_from m \<noteq> mv_to old" if "m \<in> set ?Q" for m using nf that by (metis imageI)
      then show "{m \<in> set ?Q. mv_from m \<notin> mv_to ` set (old # olds)} =
          {m \<in> set ?Q. mv_from m \<notin> mv_to ` set olds}"
        "{m \<in> set ?Q. mv_from m \<in> mv_to ` set (old # olds) \<and> mv_from m \<in> M} =
          {m \<in> set ?Q. mv_from m \<in> mv_to ` set olds \<and> mv_from m \<in> M}" by auto
    qed
    show ?thesis
    proof (cases "mv_to old \<in> ?E")
      case True
      then have "m = None" using s1 None wf(1) by (simp add: merge_old_move_def contains_iff)
      moreover have "{(f, t) \<in> pair_of ` set (old # olds). t \<notin> ?E} = {(f, t) \<in> pair_of ` set olds. t \<notin> ?E}"
        using True by (auto simp: po)
      ultimately show ?thesis using IH unfolding rel mv q by simp
    next
      case False
      then have m: "m = Some (old\<lparr>mv_to := shift_pos ?J (unshift_pos ?E (mv_to old))\<rparr>)"
        using s1 None wf(1,2)
        by (auto simp: merge_old_move_def contains_iff is_shift_correct is_unshift_correct)
      have "pair_of ` set ms =
          insert (mv_from old, shift_pos ?J (unshift_pos ?E (mv_to old))) (pair_of ` set ms1)"
        by (simp add: q m pair_of_def)
      moreover have "{(f, t) \<in> pair_of ` set (old # olds). t \<notin> ?E} =
          insert (pair_of old) {(f, t) \<in> pair_of ` set olds. t \<notin> ?E}"
        using False by (auto simp: po)
      ultimately show ?thesis using IH unfolding rel mv q by (simp add: po)
    qed
  qed
qed

section \<open>Stale moves\<close>

lemma stale_iff:
  "crv_wf d \<Longrightarrow> crv_wf i \<Longrightarrow>
     stale d i m \<longleftrightarrow> unshift_pos (elems d) (mv_from m) = unshift_pos (elems i) (mv_to m)"
  by (simp add: stale_def is_count_below below_le unshift_pos_def)

lemma drop_stale_correct:
  assumes "crv_wf d" and "crv_wf i" and "distinct mvs"
    and "diff_ok (elems d) (elems i) (pair_of ` set mvs \<union> K) xs ys" and "pair_of ` set mvs \<inter> K = {}"
    and "drop_stale d i mvs = (d', i', kept)"
  shows "crv_wf d' \<and> crv_wf i' \<and> distinct kept \<and> set kept \<subseteq> set mvs \<and>
    diff_ok (elems d') (elems i') (pair_of ` set kept \<union> K) xs ys"
  using assms
proof (induction mvs arbitrary: d i d' i' kept K)
  case Nil
  then show ?case by simp
next
  case (Cons m mvs)
  let ?m = "(mv_from m, mv_to m)"
  have pm: "pair_of m = ?m" by (simp add: pair_of_def)
  have dis: "distinct mvs" "m \<notin> set mvs" using Cons.prems(3) by auto
  have fresh: "?m \<notin> pair_of ` set mvs" using dis(2) pm by (metis imageE pair_of_inject)
  have un: "pair_of ` set (m # mvs) \<union> K = insert ?m (pair_of ` set mvs \<union> K)" by (simp add: pm)
  show ?case
  proof (cases "stale d i m")
    case True
    let ?d = "is_remove d (mv_from m) 1" and ?i = "is_remove i (mv_to m) 1"
    have el: "elems ?d = elems d - {mv_from m}" "elems ?i = elems i - {mv_to m}"
      "crv_wf ?d" "crv_wf ?i"
      using Cons.prems(1,2) by (simp_all add: is_remove_correct)
    have nin: "?m \<notin> pair_of ` set mvs \<union> K" using fresh Cons.prems(5) pm by auto
    have dd: "diff_ok (elems ?d) (elems ?i) (pair_of ` set mvs \<union> K) xs ys"
      unfolding el
      by (rule diff_unmove[OF Cons.prems(4)[unfolded un] nin])
        (use True stale_iff[OF Cons.prems(1,2)] in simp)
    have ndis: "pair_of ` set mvs \<inter> K = {}" using Cons.prems(5) by auto
    have run: "drop_stale ?d ?i mvs = (d', i', kept)" using Cons.prems(6) True by simp
    show ?thesis using Cons.IH[OF el(3,4) dis(1) dd ndis run] by auto
  next
    case False
    obtain d1 i1 k1 where r: "drop_stale d i mvs = (d1, i1, k1)" by (cases "drop_stale d i mvs")
    have e: "d' = d1" "i' = i1" "kept = m # k1" using Cons.prems(6) False r by auto
    have "pair_of ` set mvs \<inter> insert ?m K = {}" using Cons.prems(5) fresh by auto
    moreover have "diff_ok (elems d) (elems i) (pair_of ` set mvs \<union> insert ?m K) xs ys"
      using Cons.prems(4) un by simp
    ultimately have IH: "crv_wf d1 \<and> crv_wf i1 \<and> distinct k1 \<and> set k1 \<subseteq> set mvs \<and>
        diff_ok (elems d1) (elems i1) (pair_of ` set k1 \<union> insert ?m K) xs ys"
      using Cons.IH[OF Cons.prems(1,2) dis(1) _ _ r] by blast
    moreover have "pair_of ` set (m # k1) \<union> K = pair_of ` set k1 \<union> insert ?m K" by (simp add: pm)
    ultimately show ?thesis unfolding e using dis(2) by auto
  qed
qed

section \<open>The stages of merge\<close>

text \<open>The moves of a builder, as pairs, are all it knows when its mapping has been parsed.\<close>

lemma known_moves_parsed: "move_mapping b = [] \<Longrightarrow> known_moves b = pair_of ` set (moves b)"
  by (simp add: known_moves_def)

lemma inj_of_pairs:
  "inj_on fst (pair_of ` S) \<Longrightarrow> inj_on mv_from S" "inj_on snd (pair_of ` S) \<Longrightarrow> inj_on mv_to S"
proof -
  have c: "fst \<circ> pair_of = mv_from" "snd \<circ> pair_of = mv_to" by (auto simp: pair_of_def)
  have i: "inj_on pair_of S" by (simp add: inj_on_def)
  show "inj_on fst (pair_of ` S) \<Longrightarrow> inj_on mv_from S" "inj_on snd (pair_of ` S) \<Longrightarrow> inj_on mv_to S"
    using comp_inj_on[OF i, of fst] comp_inj_on[OF i, of snd] unfolding c by auto
qed

lemma inj_on_known:
  assumes "describes b xs ys" and "move_mapping b = []"
  shows "inj_on mv_from (set (moves b))" and "inj_on mv_to (set (moves b))"
    and "mv_from ` set (moves b) \<subseteq> elems (deletions b)"
    and "mv_to ` set (moves b) \<subseteq> elems (insertions b)"
proof -
  note d = describesD(5)[OF assms(1), unfolded known_moves_parsed[OF assms(2)]]
  show "inj_on mv_from (set (moves b))" "inj_on mv_to (set (moves b))"
    using inj_of_pairs diff_okD(6,7)[OF d] by auto
  show "mv_from ` set (moves b) \<subseteq> elems (deletions b)" "mv_to ` set (moves b) \<subseteq> elems (insertions b)"
  proof -
    have "mv_from m \<in> elems (deletions b) \<and> mv_to m \<in> elems (insertions b)" if "m \<in> set (moves b)" for m
    proof -
      have "(mv_from m, mv_to m) \<in> pair_of ` set (moves b)" using that by (metis imageI pair_of_def)
      then show ?thesis using diff_ok_moveD(1,2)[OF d] by blast
    qed
    then show "mv_from ` set (moves b) \<subseteq> elems (deletions b)" "mv_to ` set (moves b) \<subseteq> elems (insertions b)"
      by auto
  qed
qed

definition after_old :: "change_builder \<times> change_builder \<Rightarrow> change_builder \<times> change_builder \<Rightarrow> bool" where
  "after_old p q \<longleftrightarrow>
     (let P = pair_of ` set (moves (fst p)); Q = pair_of ` set (moves (snd p));
          E = elems (deletions (snd p)); J = elems (insertions (snd p)) in
      same_frame p q \<and>
      pair_of ` set (moves (fst q)) =
        P O Q \<union> (\<lambda>(f, t). (f, shift_pos J (unshift_pos E t))) ` {(f, t) \<in> P. t \<notin> E} \<and>
      pair_of ` set (moves (snd q)) = {(f, t) \<in> Q. f \<notin> snd ` P} \<and>
      distinct (moves (snd q)) \<and>
      elems (modifications (snd q)) = elems (modifications (snd p)) \<union>
        {t. \<exists>f. (f, t) \<in> Q \<and> f \<in> snd ` P \<and> f \<in> elems (modifications (fst p))})"

lemma update_old_moves_correct:
  assumes "describes b xs ys" and "describes c ys zs"
    and "move_mapping b = []" and "move_mapping c = []"
  shows "after_old (b, c) (update_old_moves (b, c))"
proof -
  note db = describesD[OF assms(1)] and dc = describesD[OF assms(2)]
  note ib = inj_on_known[OF assms(1,3)] and ic = inj_on_known[OF assms(2,4)]
  have sndP: "snd ` pair_of ` set (moves b) = mv_to ` set (moves b)" by (force simp: pair_of_def)
  show ?thesis
  proof (cases "moves c \<noteq> [] \<or> deletions c \<noteq> [] \<or> insertions c \<noteq> []")
    case True
    obtain ms b1 c1 where r: "merge_old_moves (moves b) (b, c) = (ms, b1, c1)"
      by (cases "merge_old_moves (moves b) (b, c)") auto
    have u: "update_old_moves (b, c) = (b1\<lparr>moves := ms\<rparr>, c1)" using True r by (simp add: update_old_moves_def)
    have k: "same_frame (b, c) (b1, c1) \<and> moves b1 = moves b \<and>
      pair_of ` set ms = pair_of ` set (moves b) O pair_of ` set (moves c) \<union>
        (\<lambda>(f, t). (f, shift_pos (elems (insertions c)) (unshift_pos (elems (deletions c)) t))) `
          {(f, t) \<in> pair_of ` set (moves b). t \<notin> elems (deletions c)} \<and>
      set (moves c1) = {m \<in> set (moves c). mv_from m \<notin> mv_to ` set (moves b)} \<and> distinct (moves c1) \<and>
      elems (modifications c1) = elems (modifications c) \<union>
        mv_to ` {m \<in> set (moves c). mv_from m \<in> mv_to ` set (moves b) \<and> mv_from m \<in> elems (modifications b)}"
      using merge_old_moves_correct[of "(b, c)" "moves b" ms "(b1, c1)"] db(1,6) dc(1,6) ic(1,3) ib(2) r
      by simp
    have "pair_of ` {m \<in> set (moves c). mv_from m \<notin> mv_to ` set (moves b)} =
        {(f, t) \<in> pair_of ` set (moves c). f \<notin> mv_to ` set (moves b)}"
      by (auto simp: pair_of_def)
    moreover have "mv_to ` {m \<in> set (moves c). mv_from m \<in> mv_to ` set (moves b) \<and> mv_from m \<in> M} =
        {t. \<exists>f. (f, t) \<in> pair_of ` set (moves c) \<and> f \<in> mv_to ` set (moves b) \<and> f \<in> M}" for M
      by (force simp: pair_of_def)
    ultimately show ?thesis using k unfolding after_old_def u Let_def by (simp add: sndP)
  next
    case False
    then have "deletions c = []" "insertions c = []" "moves c = []" by auto
    moreover have "update_old_moves (b, c) = (b, c)" using False by (simp add: update_old_moves_def)
    moreover have "(\<lambda>(f, t). (f, t)) ` {(f, t) \<in> P. t \<notin> {}} = P" for P :: "(nat \<times> nat) set" by auto
    ultimately show ?thesis by (simp add: after_old_def same_frame_refl)
  qed
qed

lemma keep_modified_correct:
  assumes "sets_ok (fst p)" and "sets_ok (snd p)"
  shows "same_frame p (keep_modified p)" and "moves (fst (keep_modified p)) = moves (fst p)"
    and "moves (snd (keep_modified p)) = moves (snd p)"
    and "elems (modifications (snd (keep_modified p))) = elems (modifications (snd p)) \<union>
      (pair_of ` set (moves (snd p))) `` elems (modifications (fst p))"
proof -
  let ?step = "\<lambda>q m. for_each_col2 (mark_moved (mv_from m) (mv_to m)) q"
  have fold: "same_frame q (foldl ?step q ms) \<and> moves (fst (foldl ?step q ms)) = moves (fst q) \<and>
      moves (snd (foldl ?step q ms)) = moves (snd q) \<and>
      elems (modifications (snd (foldl ?step q ms))) = elems (modifications (snd q)) \<union>
        (pair_of ` set ms) `` elems (modifications (fst q))"
    if "sets_ok (fst q)" "sets_ok (snd q)" for q ms
    using that
  proof (induction ms arbitrary: q)
    case Nil
    then show ?case by (simp add: same_frame_refl)
  next
    case (Cons m ms)
    let ?q = "?step q m"
    have fr: "same_frame q ?q" by (rule mark_moved_frame)
    have ok: "sets_ok (fst ?q)" "sets_ok (snd ?q)" "modifications (fst ?q) = modifications (fst q)"
      using fr Cons.prems by (auto simp: same_frame_def)
    have md: "elems (modifications (snd ?q)) = elems (modifications (snd q)) \<union>
        {pair_of m} `` elems (modifications (fst q))"
      using mark_moved_elems(1)[of "modifications (fst q)" "modifications (snd q)"] Cons.prems
      by (auto simp: sets_ok_def pair_of_def)
    have "(pair_of ` set (m # ms)) `` X = {pair_of m} `` X \<union> (pair_of ` set ms) `` X" for X by auto
    then show ?case
      using Cons.IH[OF ok(1,2)] same_frame_trans[OF fr] md ok(3) by (simp add: Un_assoc)
  qed
  have "same_frame p (keep_modified p) \<and> moves (fst (keep_modified p)) = moves (fst p) \<and>
    moves (snd (keep_modified p)) = moves (snd p) \<and>
    elems (modifications (snd (keep_modified p))) = elems (modifications (snd p)) \<union>
      (pair_of ` set (moves (snd p))) `` elems (modifications (fst p))"
  proof (cases "modifications (fst p) \<noteq> [] \<and> moves (snd p) \<noteq> []")
    case True
    then show ?thesis using fold[OF assms, of "moves (snd p)"] by (simp add: keep_modified_def)
  next
    case False
    then show ?thesis by (auto simp: keep_modified_def same_frame_refl)
  qed
  then show "same_frame p (keep_modified p)" "moves (fst (keep_modified p)) = moves (fst p)"
    "moves (snd (keep_modified p)) = moves (snd p)"
    "elems (modifications (snd (keep_modified p))) = elems (modifications (snd p)) \<union>
      (pair_of ` set (moves (snd p))) `` elems (modifications (fst p))" by auto
qed

end
