(* ===== verification/ChangeMergeCorrect.thy ===== *)
theory ChangeMergeCorrect
  imports ChangeMerge
begin

text \<open>
  The correctness of \<open>merge\<close> from its stages: the merged builder describes the two steps together, and
  its marks are those of the first builder carried along and those of the second.
\<close>

lemma merge_old_move_from:
  "merge_old_move old p = (Some m, q) \<Longrightarrow> mv_from m = mv_from old"
  by (auto simp: merge_old_move_def Let_def split: option.splits prod.splits if_splits)

lemma merge_old_moves_distinct:
  "merge_old_moves olds p = (ms, q) \<Longrightarrow> distinct (map mv_from olds) \<Longrightarrow>
     mv_from ` set ms \<subseteq> mv_from ` set olds \<and> distinct (map mv_from ms)"
proof (induction olds arbitrary: p ms q)
  case Nil
  then show ?case by simp
next
  case (Cons old olds)
  obtain m p1 where s1: "merge_old_move old p = (m, p1)" by (cases "merge_old_move old p")
  obtain ms1 q1 where s2: "merge_old_moves olds p1 = (ms1, q1)" by (cases "merge_old_moves olds p1")
  have ms: "ms = (case m of None \<Rightarrow> ms1 | Some x \<Rightarrow> x # ms1)" using Cons.prems(1) s1 s2 by auto
  have IH: "mv_from ` set ms1 \<subseteq> mv_from ` set olds" "distinct (map mv_from ms1)"
    using Cons.IH[OF s2] Cons.prems(2) by auto
  show ?case
  proof (cases m)
    case None
    then show ?thesis using IH ms by auto
  next
    case (Some x)
    then have "mv_from x = mv_from old" using merge_old_move_from s1 by blast
    then show ?thesis using IH ms Some Cons.prems(2) by auto
  qed
qed

lemma update_old_moves_distinct:
  assumes "distinct (moves b)" and "inj_on mv_from (set (moves b))"
  shows "distinct (moves (fst (update_old_moves (b, c))))"
proof -
  have d: "distinct (map mv_from (moves b))" using assms by (simp add: distinct_map)
  obtain ms b1 c1 where r: "merge_old_moves (moves b) (b, c) = (ms, b1, c1)"
    by (cases "merge_old_moves (moves b) (b, c)") auto
  have "distinct ms" using merge_old_moves_distinct[OF r d] by (simp add: distinct_map)
  then show ?thesis using assms(1) r by (auto simp: update_old_moves_def)
qed

lemma clean_up_sel [simp]:
  "modifications (clean_up_stale_moves b) = modifications b" "columns (clean_up_stale_moves b) = columns b"
  "move_mapping (clean_up_stale_moves b) = move_mapping b"
  by (simp_all add: clean_up_stale_moves_def split: prod.splits)

theorem clean_up_describes:
  assumes "describes b xs ys" and "move_mapping b = []"
  shows "describes (clean_up_stale_moves b) xs ys"
proof -
  note w = describesD[OF assms(1)]
  obtain d i kept where r: "drop_stale (deletions b) (insertions b) (moves b) = (d, i, kept)"
    by (cases "drop_stale (deletions b) (insertions b) (moves b)")
  have "crv_wf d \<and> crv_wf i \<and> distinct kept \<and> diff_ok (elems d) (elems i) (pair_of ` set kept) xs ys"
    using drop_stale_correct[OF w(2,3,6) _ _ r, of "{}" xs ys] w(5) assms(2) by (simp add: known_moves_def)
  then show ?thesis
    using w(1) r assms(2)
    by (simp add: describes_def sets_ok_def clean_up_stale_moves_def known_moves_def)
qed

lemma inj_on_to: "inj_on snd Q \<Longrightarrow> pair_of ` S \<subseteq> Q \<Longrightarrow> inj_on mv_to S"
  by (rule inj_onI) (metis image_subset_iff inj_onD pair_of_def pair_of_inject snd_conv)

lemma merge_col_wf:
  assumes "crv_wf (deletions c)" and "crv_wf (insertions c)"
  shows "crv_wf m \<Longrightarrow> crv_wf n \<Longrightarrow> crv_wf (fst (merge_col c m n)) \<and> crv_wf (snd (merge_col c m n))"
    and "crv_wf m \<Longrightarrow> crv_wf n \<Longrightarrow> elems (fst (merge_col c m n)) =
           shifted_pos (elems (insertions c)) (erased_pos (elems (deletions c)) (elems m)) \<union> elems n"
  using assms
  by (simp_all add: merge_col_def is_add_all_correct is_shift_for_insert_all_correct is_erase_all_correct)

lemma empty_describes:
  assumes "describes c ys zs" and "set_empty c"
  shows "ys = zs"
  using describesD(5)[OF assms(1)] assms(2) by (simp add: set_empty_def diff_ok_def same_kept_def)

text \<open>The moves of the second builder whose marks are kept: not those of rows the first one inserted.\<close>

definition marking_moves :: "change_builder \<Rightarrow> change_builder \<Rightarrow> (nat \<times> nat) set" where
  "marking_moves b c =
     {(f, t) \<in> known_moves c. f \<in> elems (insertions b) \<longrightarrow> f \<in> snd ` known_moves b}"

theorem cb_merge_correct:
  assumes b: "describes b xs ys" and c: "describes c ys zs"
    and mb: "move_mapping b = []" and mc: "move_mapping c = []"
    and few: "length (ranges (is_add_shifted_by (deletions b) (insertions b) (deletions c))) \<le> max_size"
  shows "describes (cb_merge b c) xs zs"
    and "move_mapping (cb_merge b c) = []"
    and "elems (modifications (cb_merge b c)) =
      merge_marks (elems (deletions c)) (elems (insertions c)) (marking_moves b c)
        (elems (modifications b)) (elems (modifications c))"
proof -
  let ?D = "elems (deletions b)" and ?I = "elems (insertions b)" and ?M = "elems (modifications b)"
  let ?E = "elems (deletions c)" and ?J = "elems (insertions c)" and ?N = "elems (modifications c)"
  let ?P = "known_moves b" and ?Q = "known_moves c"
  note wb = describesD[OF b] and wc = describesD[OF c]
  note kb = known_moves_parsed[OF mb] and kc = known_moves_parsed[OF mc]
  note db = wb(5) and dc = wc(5)
  have "describes (cb_merge b c) xs zs \<and> move_mapping (cb_merge b c) = [] \<and>
    elems (modifications (cb_merge b c)) = merge_marks ?E ?J (marking_moves b c) ?M ?N"
  proof (cases "set_empty c \<or> set_empty b")
    case True
    show ?thesis
    proof (cases "set_empty c")
      case True
      then have "ys = zs" "cb_merge b c = b" using empty_describes[OF c] by (simp_all add: cb_merge_def)
      moreover have "merge_marks ?E ?J (marking_moves b c) ?M ?N = ?M"
        using True kc by (auto simp: merge_marks_def set_empty_def marking_moves_def)
      ultimately show ?thesis using b mb by simp
    next
      case False
      then have e: "set_empty b" using True by simp
      have "xs = ys" "cb_merge b c = c" using empty_describes[OF b e] e False by (simp_all add: cb_merge_def)
      moreover have "merge_marks ?E ?J (marking_moves b c) ?M ?N = ?N"
        using e by (auto simp: merge_marks_def set_empty_def shifted_pos_def)
      ultimately show ?thesis using c mc by simp
    qed
  next
    case False
    let ?p1 = "update_old_moves (b, c)"
    let ?p2 = "drop_inserted_moves ?p1"
    let ?p3 = "keep_modified ?p2"
    let ?p4 = "update_new_moves ?p3"
    have a: "after_old (b, c) ?p1" by (rule update_old_moves_correct[OF b c mb mc])
    have f1: "same_frame (b, c) ?p1" using a by (simp add: after_old_def Let_def)
    have m1: "pair_of ` set (moves (fst ?p1)) =
        ?P O ?Q \<union> (\<lambda>(f, t). (f, shift_pos ?J (unshift_pos ?E t))) ` {(f, t) \<in> ?P. t \<notin> ?E}"
      "pair_of ` set (moves (snd ?p1)) = {(f, t) \<in> ?Q. f \<notin> snd ` ?P}" "distinct (moves (snd ?p1))"
      "elems (modifications (snd ?p1)) = ?N \<union> {t. \<exists>f. (f, t) \<in> ?Q \<and> f \<in> snd ` ?P \<and> f \<in> ?M}"
      using a by (simp_all add: after_old_def Let_def kb kc)
    have PI: "snd ` ?P \<subseteq> ?I" using diff_ok_moveD(2)[OF db] by auto
    have fr1: "insertions (fst ?p1) = insertions b" "crv_wf (insertions b)"
      using f1 wb(3) by (simp_all add: same_frame_def)
    have p2: "fst ?p2 = fst ?p1" "same_frame ?p1 ?p2" "distinct (moves (snd ?p2))"
      "modifications (snd ?p2) = modifications (snd ?p1)"
      using m1(3) same_frame_refl[of ?p1] by (auto simp: drop_inserted_moves_def same_frame_def)
    have m2: "pair_of ` set (moves (snd ?p2)) = {(f, t) \<in> ?Q. f \<notin> ?I}"
    proof -
      have "set (moves (snd ?p2)) = {m \<in> set (moves (snd ?p1)). mv_from m \<notin> ?I}"
        using fr1 by (auto simp: drop_inserted_moves_def contains_iff)
      then have "pair_of ` set (moves (snd ?p2)) = {(f, t) \<in> pair_of ` set (moves (snd ?p1)). f \<notin> ?I}"
        by (auto simp: pair_of_def)
      then show ?thesis using m1(2) PI by auto
    qed
    have ok2: "sets_ok (fst ?p2)" "sets_ok (snd ?p2)"
      using same_frame_trans[OF f1 p2(2)] wb(1) wc(1) by (simp_all add: same_frame_def)
    note k3 = keep_modified_correct[OF ok2]
    have f3: "same_frame (b, c) ?p3" using same_frame_trans[OF same_frame_trans[OF f1 p2(2)] k3(1)] .
    obtain b3 c3 where p3: "?p3 = (b3, c3)" by (cases "?p3")
    have fr: "deletions b3 = deletions b" "insertions b3 = insertions b" "deletions c3 = deletions c"
      "insertions c3 = insertions c" "modifications b3 = modifications b" "move_mapping b3 = []"
      "sets_ok b3" "sets_ok c3"
      using f3 wb(1) wc(1) mb by (simp_all add: same_frame_def p3)
    have mods: "elems (modifications c3) = ?N \<union> marking_moves b c `` ?M"
    proof -
      have "modifications (fst ?p2) = modifications b"
        using same_frame_trans[OF f1 p2(2)] by (simp add: same_frame_def)
      then have "elems (modifications c3) =
          ?N \<union> {t. \<exists>f. (f, t) \<in> ?Q \<and> f \<in> snd ` ?P \<and> f \<in> ?M} \<union> {(f, t) \<in> ?Q. f \<notin> ?I} `` ?M"
        using k3(4) p2(4) m1(4) unfolding p3 m2 by simp
      also have "\<dots> = ?N \<union> marking_moves b c `` ?M"
        using PI by (auto simp: marking_moves_def Image_def)
      finally show ?thesis .
    qed
    let ?new = "\<lambda>m. m\<lparr>mv_from := is_shift (deletions b) (is_unshift (insertions b) (mv_from m))\<rparr>"
    have p4: "?p4 = (b3, c3\<lparr>moves := map ?new (moves c3)\<rparr>)"
    proof (cases "deletions b \<noteq> [] \<or> insertions b \<noteq> []")
      case True
      then show ?thesis by (simp add: p3 update_new_moves_def fr)
    next
      case F: False
      then have e: "deletions b = []" "insertions b = []" by auto
      have "is_shift [] (is_unshift [] i) = i" for i by (simp add: is_shift_correct is_unshift_correct)
      then have "map ?new (moves c3) = moves c3" by (intro map_idI) (simp add: e)
      then show ?thesis using F by (simp add: p3 update_new_moves_def fr)
    qed
    let ?c4 = "c3\<lparr>moves := map ?new (moves c3)\<rparr>"
    have mvb: "pair_of ` set (moves b3) =
        ?P O ?Q \<union> (\<lambda>(f, t). (f, shift_pos ?J (unshift_pos ?E t))) ` {(f, t) \<in> ?P. t \<notin> ?E}"
      using m1(1) k3(2) p2(1) by (simp add: p3)
    have mvc: "pair_of ` set (moves c3) = {(f, t) \<in> ?Q. f \<notin> ?I}" "distinct (moves c3)"
      using m2 k3(3) p2(3) by (simp_all add: p3)
    have "pair_of (?new m) = (\<lambda>(f, t). (shift_pos ?D (unshift_pos ?I f), t)) (pair_of m)" for m
      using wb(2,3) by (simp add: pair_of_def is_shift_correct is_unshift_correct)
    then have "pair_of ` set (map ?new (moves c3)) =
        (\<lambda>(f, t). (shift_pos ?D (unshift_pos ?I f), t)) ` pair_of ` set (moves c3)"
      by (simp add: image_image)
    then have mv4: "pair_of ` set (map ?new (moves c3)) =
        (\<lambda>(f, t). (shift_pos ?D (unshift_pos ?I f), t)) ` {(f, t) \<in> ?Q. f \<notin> ?I}"
      unfolding mvc(1) .
    let ?all = "moves b3 @ map ?new (moves c3)"
    have all: "pair_of ` set ?all = merge_moves ?D ?I ?E ?J ?P ?Q"
      unfolding merge_moves_def set_append image_Un mvb mv4 by (simp add: Un_assoc)
    have dist: "distinct ?all"
    proof -
      have tos: "inj_on mv_to (set (moves c3))"
        by (rule inj_on_to[OF diff_okD(7)[OF dc]]) (unfold mvc(1), blast)
      have "distinct (map ?new (moves c3))"
        unfolding distinct_map
      proof (intro conjI inj_onI mvc(2))
        fix m m' assume m: "m \<in> set (moves c3)" "m' \<in> set (moves c3)" "?new m = ?new m'"
        then have "mv_to (?new m) = mv_to (?new m')" by simp
        then show "m = m'" using m(1,2) inj_onD[OF tos] by simp
      qed
      moreover have "distinct (moves b3)"
        using update_old_moves_distinct[OF wb(6), of c] inj_on_known(1)[OF b mb] k3(2) p2(1)
        by (simp add: p3)
      moreover have "set (moves b3) \<inter> set (map ?new (moves c3)) = {}"
      proof -
        have "fst ` pair_of ` set (moves b3) \<subseteq> ?D"
          unfolding mvb using diff_ok_moveD(1)[OF db] by auto
        moreover have "fst ` pair_of ` set (map ?new (moves c3)) \<inter> ?D = {}"
          unfolding mv4 using shift_pos_spec(1)[of ?D] by auto
        ultimately show ?thesis by blast
      qed
      ultimately show ?thesis by simp
    qed
    let ?b5 = "b3\<lparr>moves := ?all, deletions := is_add_shifted_by (deletions b) (insertions b) (deletions c),
                  insertions := is_insert_all (is_erase_all (insertions b) (deletions c)) (insertions c)\<rparr>"
    have ms: "merge_sets b3 ?c4 = clean_up_stale_moves ?b5"
      by (simp add: merge_sets_def Let_def fr)
    note asb = is_add_shifted_by_ranges[OF wb(2,3) wc(2)]
    have b5: "describes ?b5 xs zs"
      unfolding describes_def
    proof (intro conjI)
      show "sets_ok ?b5"
        using fr(7) asb(3)[OF few] wb(3) wc(2,3)
        by (simp add: sets_ok_def is_insert_all_correct is_erase_all_correct)
      have "elems (deletions ?b5) = merge_del ?D ?I ?E" using asb(2) by (simp add: merge_del_def)
      moreover have "elems (insertions ?b5) = merge_ins ?I ?E ?J"
        using wb(3) wc(2,3) by (simp add: merge_ins_def is_insert_all_correct is_erase_all_correct)
      moreover have "known_moves ?b5 = merge_moves ?D ?I ?E ?J ?P ?Q"
        using all fr(6) by (simp add: known_moves_def)
      ultimately show "diff_ok (elems (deletions ?b5)) (elems (insertions ?b5)) (known_moves ?b5) xs zs"
        using diff_merge[OF db dc] by simp
    qed (use dist fr(6) in simp_all)
    let ?b6 = "clean_up_stale_moves ?b5"
    have b6: "describes ?b6 xs zs" by (rule clean_up_describes[OF b5]) (use fr(6) in simp)
    let ?r = "for_each_col2 (merge_col ?c4) (?b6, ?c4)"
    have res: "cb_merge b c = fst ?r" using False p4 ms by (simp add: cb_merge_def)
    have c4: "crv_wf (deletions ?c4)" "crv_wf (insertions ?c4)" using fr wc(2,3) by simp_all
    have "sets_ok (fst ?r)"
      by (rule sets_ok_for_each_col2(1)) (use describesD(1)[OF b6] fr(8) merge_col_wf(1)[OF c4] in simp_all)
    then have "describes (fst ?r) xs zs"
      using describesD(5-7)[OF b6] by (simp add: describes_def known_moves_def)
    moreover have "elems (modifications (fst ?r)) = shifted_pos ?J (erased_pos ?E ?M) \<union> elems (modifications c3)"
      using merge_col_wf(2)[OF c4, of "modifications b" "modifications c3"] wb(4) fr(3,4,5,8)
      by (simp add: sets_ok_def)
    ultimately show ?thesis
      unfolding res using fr(6) mods by (simp add: merge_marks_def Un_assoc)
  qed
  then show "describes (cb_merge b c) xs zs" "move_mapping (cb_merge b c) = []"
    "elems (modifications (cb_merge b c)) =
      merge_marks ?E ?J (marking_moves b c) ?M ?N" by auto
qed

end
