(* ===== verification/ChangeRuns.thy ===== *)
theory ChangeRuns
  imports ChangeMergeCorrect
begin

text \<open>
  Whole runs of edits: a list of edits is applied to a list of rows and recorded in a builder at the
  same time, and the builder must describe the difference between the first and the last list. Rows
  carry a mark that says whether they were modified; the modifications of the builder are the
  positions of the marked rows, wherever later edits take them.
\<close>

section \<open>Marked rows\<close>

definition marked :: "('a \<times> bool) list \<Rightarrow> nat set" where
  "marked ys = {p. p < length ys \<and> snd (ys ! p)}"

lemma kept_source:
  assumes d: "diff_ok E J Q ys zs" and p: "p < length zs" "p \<notin> J"
  shows "source E J p < length ys" and "source E J p \<notin> E" and "zs ! p = ys ! source E J p"
  using kept_row[OF diff_okD(5)[OF d] diff_okD(3)[OF d] p] by (simp_all add: source_def)

text \<open>A difference of marked rows carries the marks along, if the rows it brings in are unmarked.\<close>

lemma marked_diff:
  assumes d: "diff_ok E J Q ys zs" and new: "\<And>p. p \<in> J \<Longrightarrow> p \<in> snd ` Q \<or> \<not> snd (zs ! p)"
  shows "marked zs = merge_marks E J Q (marked ys) {}"
proof (intro set_eqI)
  fix p
  note dd = diff_okD[OF d]
  show "p \<in> marked zs \<longleftrightarrow> p \<in> merge_marks E J Q (marked ys) {}"
  proof (cases "p \<in> J")
    case True
    then have "p \<in> shifted_pos J (erased_pos E (marked ys)) \<longleftrightarrow> False" by (simp add: shifted_pos_def)
    moreover have "p \<in> marked zs \<longleftrightarrow> (\<exists>f. (f, p) \<in> Q \<and> f \<in> marked ys)"
    proof
      assume m: "p \<in> marked zs"
      then obtain f where f: "(f, p) \<in> Q" using new[OF True] by (force simp: marked_def)
      then show "\<exists>f. (f, p) \<in> Q \<and> f \<in> marked ys"
        using diff_ok_moveD(3,5)[OF d f] m by (auto simp: marked_def)
    next
      assume "\<exists>f. (f, p) \<in> Q \<and> f \<in> marked ys"
      then obtain f where f: "(f, p) \<in> Q" "f \<in> marked ys" by blast
      then show "p \<in> marked zs" using diff_ok_moveD(4,5)[OF d f(1)] by (simp add: marked_def)
    qed
    ultimately show ?thesis unfolding merge_marks_def by blast
  next
    case False
    then have "p \<notin> Q `` marked ys" using diff_ok_moveD(2)[OF d] by blast
    moreover have "p \<in> shifted_pos J (erased_pos E (marked ys)) \<longleftrightarrow> source E J p \<in> marked ys - E"
    proof -
      have "p \<in> shifted_pos J (erased_pos E (marked ys)) \<longleftrightarrow> unshift_pos J p \<in> unshift_pos E ` (marked ys - E)"
        using False by (simp add: shifted_pos_def erased_pos_def)
      also have "\<dots> \<longleftrightarrow> source E J p \<in> marked ys - E"
      proof
        assume "unshift_pos J p \<in> unshift_pos E ` (marked ys - E)"
        then obtain x where x: "x \<in> marked ys - E" "unshift_pos J p = unshift_pos E x" by blast
        have "source E J p = x" unfolding source_def x(2) by (rule shift_unshift) (use x(1) in blast)
        then show "source E J p \<in> marked ys - E" using x(1) by simp
      next
        assume s: "source E J p \<in> marked ys - E"
        have "unshift_pos J p = unshift_pos E (source E J p)" unfolding source_def by (simp add: dd(3))
        then show "unshift_pos J p \<in> unshift_pos E ` (marked ys - E)" using s by blast
      qed
      finally show ?thesis .
    qed
    moreover have "p \<in> marked zs \<longleftrightarrow> source E J p \<in> marked ys - E"
    proof (cases "p < length zs")
      case True
      then show ?thesis using kept_source[OF d True False] by (auto simp: marked_def)
    next
      case F: False
      have "\<not> source E J p < length ys" if "source E J p \<notin> E"
      proof
        assume s: "source E J p < length ys"
        have "same_kept J E zs ys" using dd(5) same_kept_sym by blast
        from kept_row(1)[OF this dd(4) s that] have "shift_pos J (unshift_pos E (source E J p)) < length zs" .
        then show False using F False dd(3) by (simp add: source_def)
      qed
      then show ?thesis using F by (auto simp: marked_def)
    qed
    ultimately show ?thesis unfolding merge_marks_def by blast
  qed
qed

section \<open>Runs\<close>

fun run_rows :: "('e \<Rightarrow> 'r list \<Rightarrow> 'r list) \<Rightarrow> 'e list \<Rightarrow> 'r list \<Rightarrow> 'r list" where
  "run_rows edit [] ys = ys"
| "run_rows edit (e # es) ys = run_rows edit es (edit e ys)"

fun run_ok :: "('e \<Rightarrow> 'r list \<Rightarrow> bool) \<Rightarrow> ('e \<Rightarrow> 'r list \<Rightarrow> 'r list) \<Rightarrow> 'e list \<Rightarrow> 'r list \<Rightarrow> bool" where
  "run_ok ok edit [] ys \<longleftrightarrow> True"
| "run_ok ok edit (e # es) ys \<longleftrightarrow> ok e ys \<and> run_ok ok edit es (edit e ys)"

text \<open>The recorder sees an edit and the number of rows in front of it, not the rows.\<close>

fun run_record ::
  "('e \<Rightarrow> 'r list \<Rightarrow> 'r list) \<Rightarrow> ('e \<Rightarrow> nat \<Rightarrow> 'b \<Rightarrow> 'b) \<Rightarrow> 'e list \<Rightarrow> 'r list \<Rightarrow> 'b \<Rightarrow> 'b"
where
  "run_record edit rec [] ys b = b"
| "run_record edit rec (e # es) ys b = run_record edit rec es (edit e ys) (rec e (length ys) b)"

text \<open>What a recorder promises of one edit, it keeps for a run.\<close>

locale recording =
  fixes edit :: "'e \<Rightarrow> 'r list \<Rightarrow> 'r list"
    and ok :: "'e \<Rightarrow> 'r list \<Rightarrow> bool"
    and rec :: "'e \<Rightarrow> nat \<Rightarrow> 'b \<Rightarrow> 'b"
    and tracks :: "'b \<Rightarrow> 'r list \<Rightarrow> 'r list \<Rightarrow> bool"
  assumes step: "tracks b xs ys \<Longrightarrow> ok e ys \<Longrightarrow> tracks (rec e (length ys) b) xs (edit e ys)"
begin

lemma run:
  "tracks b xs ys \<Longrightarrow> run_ok ok edit es ys \<Longrightarrow> tracks (run_record edit rec es ys b) xs (run_rows edit es ys)"
  by (induction es arbitrary: b ys) (simp_all add: step)

end

section \<open>Edits of a list of links\<close>

datatype 'a list_edit =
    InsertRows nat "'a list" | EraseRow nat | MoveRow nat nat | ClearRows | ModifyRow nat nat

fun list_rows :: "'a list_edit \<Rightarrow> ('a \<times> bool) list \<Rightarrow> ('a \<times> bool) list" where
  "list_rows (InsertRows i rs) ys = take i ys @ map (\<lambda>r. (r, False)) rs @ drop i ys"
| "list_rows (EraseRow i) ys = list_erase_at ys i"
| "list_rows (MoveRow f t) ys = list_move ys f t"
| "list_rows ClearRows ys = []"
| "list_rows (ModifyRow i col) ys = ys[i := (fst (ys ! i), True)]"

fun list_edit_ok :: "'a list_edit \<Rightarrow> ('a \<times> bool) list \<Rightarrow> bool" where
  "list_edit_ok (InsertRows i rs) ys \<longleftrightarrow> i \<le> length ys \<and> rs \<noteq> []"
| "list_edit_ok (EraseRow i) ys \<longleftrightarrow> i < length ys \<and> length ys < npos"
| "list_edit_ok (MoveRow f t) ys \<longleftrightarrow> f < length ys \<and> t < length ys \<and> f \<noteq> t \<and> length ys < npos"
| "list_edit_ok ClearRows ys \<longleftrightarrow> length ys < npos"
| "list_edit_ok (ModifyRow i col) ys \<longleftrightarrow> i < length ys"

fun record_list :: "'a list_edit \<Rightarrow> nat \<Rightarrow> change_builder \<Rightarrow> change_builder" where
  "record_list (InsertRows i rs) n b = cb_insert b i (length rs) True"
| "record_list (EraseRow i) n b = cb_erase b i"
| "record_list (MoveRow f t) n b = cb_move b f t"
| "record_list ClearRows n b = cb_clear b n"
| "record_list (ModifyRow i col) n b = cb_modify b i col"

definition list_tracks :: "change_builder \<Rightarrow> ('a \<times> bool) list \<Rightarrow> ('a \<times> bool) list \<Rightarrow> bool" where
  "list_tracks b xs ys \<longleftrightarrow>
     describes b (map fst xs) (map fst ys) \<and> move_mapping b = [] \<and> elems (modifications b) = marked ys"

lemma map_list_erase_at: "map f (list_erase_at ys i) = list_erase_at (map f ys) i"
  by (simp add: list_erase_at_def take_map drop_map)

lemma map_list_move: "from < length ys \<Longrightarrow> map f (list_move ys from to) = list_move (map f ys) from to"
  by (simp add: list_move_def list_insert_at_def map_list_erase_at take_map[symmetric] drop_map[symmetric])

lemma marked_modify: "i < length ys \<Longrightarrow> marked (ys[i := (r, True)]) = insert i (marked ys)"
  by (auto simp: marked_def nth_list_update)

lemma map_fst_modify: "map fst (ys[i := (fst (ys ! i), b)]) = map fst ys"
  by (simp add: map_update list_update_same_conv) (metis list_update_id list_update_beyond nth_map not_less length_map)

lemma cb_modify_describes:
  assumes "describes b xs ys"
  shows "describes (cb_modify b i col) xs ys" and "move_mapping (cb_modify b i col) = move_mapping b"
    and "elems (modifications (cb_modify b i col)) = insert i (elems (modifications b))"
    and "moves (cb_modify b i col) = moves b" and "deletions (cb_modify b i col) = deletions b"
    and "insertions (cb_modify b i col) = insertions b"
proof -
  note w = describesD[OF assms]
  let ?c = "cb_modify b i col"
  have sel: "deletions ?c = deletions b" "insertions ?c = insertions b" "moves ?c = moves b"
    "move_mapping ?c = move_mapping b" "modifications ?c = is_add (modifications b) i"
    by (simp_all add: cb_modify_def Let_def)
  have res: "set (resize_columns n cs) \<subseteq> insert [] (set cs)" for n cs
    by (auto simp: resize_columns_def dest: in_set_takeD)
  have upd: "\<forall>c \<in> set (cs[k := is_add (cs ! k) i]). crv_wf c"
    if "\<forall>c \<in> set cs. crv_wf c" "k < length cs" for cs k
    using that is_add_wf set_update_subset_insert[of cs k "is_add (cs ! k) i"] nth_mem by blast
  have "\<forall>c \<in> set (columns ?c). crv_wf c"
  proof (cases "\<not> track_columns b \<or> col = npos")
    case True
    then show ?thesis using w(1) by (auto simp: cb_modify_def Let_def sets_ok_def)
  next
    case False
    let ?cs = "if col \<ge> length (columns b) then resize_columns (col + 1) (columns b) else columns b"
    have "columns ?c = ?cs[col := is_add (?cs ! col) i]" using False by (simp add: cb_modify_def Let_def)
    moreover have "\<forall>c \<in> set ?cs. crv_wf c"
      using w(1) res[of "col + 1" "columns b"] by (auto simp: sets_ok_def)
    moreover have "col < length ?cs" by (simp add: resize_columns_def)
    ultimately show ?thesis using upd by presburger
  qed
  then show "describes ?c xs ys"
    using w is_add_wf[OF w(4)] is_add_elems[OF w(4)] by (simp add: describes_def sets_ok_def sel known_moves_def)
  show "move_mapping ?c = move_mapping b" "elems (modifications ?c) = insert i (elems (modifications b))"
    "moves ?c = moves b" "deletions ?c = deletions b" "insertions ?c = insertions b"
    using is_add_wf[OF w(4)] is_add_elems[OF w(4)] by (simp_all add: sel)
qed

lemma cb_insert_sel:
  "modifications (cb_insert b i n True) = is_shift_for_insert_at (modifications b) i n"
  "move_mapping (cb_insert b i n True) = shift_mapping i n (move_mapping b)"
  "moves (cb_insert b i n True) = map (put_to (shift_pos {i ..< i + n})) (moves b)"
  "deletions (cb_insert b i n True) = deletions b"
  "insertions (cb_insert b i n True) = is_insert_at (insertions b) i n"
  by (auto simp: cb_insert_def Let_def shift_mapping_def put_to_def shift_pos_ivl)

lemma cb_erase_sel:
  "modifications (cb_erase b i) = is_erase_at (modifications b) i"
  "move_mapping (cb_erase b i) = move_mapping b"
  by (simp_all add: cb_erase_def Let_def split: prod.splits)

lemma cb_clear_sel:
  "modifications (cb_clear b n) = []" "move_mapping (cb_clear b n) = []"
  by (simp_all add: cb_clear_def Let_def is_clear_def)

lemma cb_move_sel:
  "modifications (cb_move b f t) = move_col f t (modifications b)"
  "move_mapping (cb_move b f t) = move_mapping b"
  by (simp_all add: cb_move_def Let_def split: prod.splits)

lemma marks_inserted: "shifted_pos {i ..< i + n} U = merge_marks {} {i ..< i + n} {} U {}"
  by (simp add: merge_marks_def)

lemma list_step:
  assumes t: "list_tracks b xs ys" and ok: "list_edit_ok e ys"
  shows "list_tracks (record_list e (length ys) b) xs (list_rows e ys)"
proof -
  have d: "describes b (map fst xs) (map fst ys)" and mm: "move_mapping b = []"
    and m: "elems (modifications b) = marked ys" using t by (simp_all add: list_tracks_def)
  note wf = describesD(4)[OF d]
  have cong: "map fst (list_rows e ys) = zs \<Longrightarrow> describes b' (map fst xs) zs \<Longrightarrow>
      move_mapping b' = [] \<Longrightarrow> elems (modifications b') = marked (list_rows e ys) \<Longrightarrow>
      list_tracks b' xs (list_rows e ys)" for b' zs by (simp add: list_tracks_def)
  show ?thesis
  proof (cases e)
    case (InsertRows i rs)
    then have i: "i \<le> length ys" "rs \<noteq> []" using ok by auto
    have "marked (list_rows e ys) = merge_marks {} {i ..< i + length rs} {} (marked ys) {}"
      unfolding InsertRows list_rows.simps
      by (rule marked_diff[OF insert_rows_diff[OF i(1), of "map (\<lambda>r. (r, False)) rs", unfolded length_map]])
        (use i(1) in \<open>auto simp: nth_append\<close>)
    then show ?thesis
      using cb_insert_describes[OF d, of i rs] i
      by (intro cong[OF refl]) (simp_all add: InsertRows cb_insert_sel mm m wf shift_mapping_def comp_def
          take_map drop_map marks_inserted is_shift_for_insert_at_correct)
  next
    case (EraseRow i)
    then have i: "i < length ys" "length ys < npos" using ok by auto
    have "marked (list_rows e ys) = merge_marks {i} {} {} (marked ys) {}"
      using marked_diff[OF erase_row_diff[OF i(1)]] by (simp add: EraseRow)
    then show ?thesis
      using cb_erase_describes[OF d _ _ mm, of i] i
      by (intro cong[OF refl]) (simp_all add: EraseRow cb_erase_sel mm m wf merge_marks_def
          map_list_erase_at is_erase_at_correct)
  next
    case (MoveRow f g)
    then have i: "f < length ys" "g < length ys" "f \<noteq> g" "length ys < npos" using ok by auto
    have "marked (list_rows e ys) = merge_marks {f} {g} {(f, g)} (marked ys) {}"
      using marked_diff[OF move_row_diff[OF i(1,2)]] by (simp add: MoveRow)
    then show ?thesis
      using cb_move_describes[OF d _ _ i(3) _ mm] i
      by (intro cong[OF refl]) (simp_all add: MoveRow cb_move_sel mm m wf map_list_move move_col_correct)
  next
    case ClearRows
    then show ?thesis
      using cb_clear_describes(1)[OF d] ok
      by (intro cong[OF refl]) (simp_all add: cb_clear_sel marked_def)
  next
    case (ModifyRow i col)
    then show ?thesis
      using cb_modify_describes[OF d, of i col] ok
      by (intro cong[of "map fst ys"]) (simp_all add: ModifyRow marked_modify mm m map_fst_modify)
  qed
qed

interpretation list_recording: recording list_rows list_edit_ok record_list list_tracks
  by unfold_locales (rule list_step)

section \<open>Edits of a table\<close>

text \<open>
  Rows are appended, the last row replaces an erased one, two rows change places, a row is modified.
  Such a run keeps every row that is not an insertion at its old position, which is what
  \<open>parse_complete\<close> needs to drop the moves that end where they began.
\<close>

datatype 'a table_edit = AppendRows "'a list" | MoveLastOver nat | SwapRows nat nat | SetRow nat nat

fun table_rows :: "'a table_edit \<Rightarrow> ('a \<times> bool) list \<Rightarrow> ('a \<times> bool) list" where
  "table_rows (AppendRows rs) ys = ys @ map (\<lambda>r. (r, False)) rs"
| "table_rows (MoveLastOver i) ys = butlast (ys[i := last ys])"
| "table_rows (SwapRows i j) ys = ys[i := ys ! j, j := ys ! i]"
| "table_rows (SetRow i col) ys = ys[i := (fst (ys ! i), True)]"

fun table_edit_ok :: "'a table_edit \<Rightarrow> ('a \<times> bool) list \<Rightarrow> bool" where
  "table_edit_ok (AppendRows rs) ys \<longleftrightarrow> rs \<noteq> []"
| "table_edit_ok (MoveLastOver i) ys \<longleftrightarrow> i < length ys \<and> length ys < npos"
| "table_edit_ok (SwapRows i j) ys \<longleftrightarrow> i < j \<and> j < length ys"
| "table_edit_ok (SetRow i col) ys \<longleftrightarrow> i < length ys"

fun record_table :: "'a table_edit \<Rightarrow> nat \<Rightarrow> change_builder \<Rightarrow> change_builder" where
  "record_table (AppendRows rs) n b = cb_insert b n (length rs) True"
| "record_table (MoveLastOver i) n b = cb_move_over b i (n - 1) True"
| "record_table (SwapRows i j) n b = cb_swap b i j True"
| "record_table (SetRow i col) n b = cb_modify b i col"

definition table_tracks :: "change_builder \<Rightarrow> ('a \<times> bool) list \<Rightarrow> ('a \<times> bool) list \<Rightarrow> bool" where
  "table_tracks b xs ys \<longleftrightarrow>
     describes b (map fst xs) (map fst ys) \<and> moves b = [] \<and>
     in_place (elems (deletions b)) (elems (insertions b)) (length ys) \<and>
     elems (modifications b) = marked ys"

lemma cb_move_over_mods:
  "r < l \<Longrightarrow> modifications (cb_move_over b r l True) = move_over_col r l (modifications b)"
  "modifications (cb_move_over b l l True) = is_remove (modifications b) l 1"
  by (auto simp: cb_move_over_def Let_def split: prod.splits option.splits)

lemma cb_swap_mods: "i < j \<Longrightarrow> modifications (cb_swap b i j True) = swap_col i j (modifications b)"
  by (auto simp: cb_swap_def update_move_def add_row_move_def min_def max_def Let_def
      split: option.splits prod.splits)

lemma marked_butlast: "marked (butlast ys) = marked ys - {length ys - 1}"
  by (auto simp: marked_def nth_butlast)

lemma append_step:
  assumes t: "table_tracks b xs ys" and "rs \<noteq> []"
  shows "table_tracks (cb_insert b (length ys) (length rs) True) xs (ys @ map (\<lambda>r. (r, False)) rs)"
proof -
  let ?b = "cb_insert b (length ys) (length rs) True" and ?J = "{length ys ..< length ys + length rs}"
  have d: "describes b (map fst xs) (map fst ys)" and mv: "moves b = []"
    and ip: "in_place (elems (deletions b)) (elems (insertions b)) (length ys)"
    and m: "elems (modifications b) = marked ys" using t by (simp_all add: table_tracks_def)
  note w = describesD[OF d]
  have diff: "diff_ok {} ?J {} ys (ys @ map (\<lambda>r. (r, False)) rs)"
    using insert_rows_diff[of "length ys" ys "map (\<lambda>r. (r, False)) rs"] by simp
  have "marked (ys @ map (\<lambda>r. (r, False)) rs) = merge_marks {} ?J {} (marked ys) {}"
    by (rule marked_diff[OF diff]) (auto simp: nth_append)
  moreover have "in_place (elems (deletions ?b)) (elems (insertions ?b)) (length ys + length rs)"
    using in_place_merge[OF w(5) insert_rows_diff[of "length ys" "map fst ys" rs]] ip w(3) assms(2)
    by (simp add: in_place_append cb_insert_sel is_insert_at_correct)
  moreover have "describes ?b (map fst xs) (map fst ys @ rs)"
    using cb_insert_describes[OF d _ assms(2), of "length ys"] by simp
  ultimately show ?thesis
    using mv m w(4) assms(2)
    by (simp add: table_tracks_def cb_insert_sel comp_def marks_inserted is_shift_for_insert_at_correct)
qed

lemma move_over_step:
  assumes t: "table_tracks b xs ys" and i: "i < length ys - 1"
  shows "table_tracks (cb_move_over b i (length ys - 1) True) xs (butlast (ys[i := last ys]))"
proof -
  let ?l = "length ys - 1" let ?b = "cb_move_over b i ?l True"
  have d: "describes b (map fst xs) (map fst ys)" and mv: "moves b = []"
    and ip: "in_place (elems (deletions b)) (elems (insertions b)) (length ys)"
    and m: "elems (modifications b) = marked ys" using t by (simp_all add: table_tracks_def)
  note w = describesD[OF d]
  have i': "i < length (map fst ys) - 1" and ne: "ys \<noteq> []" using i by auto
  have f: "map fst (butlast (ys[i := last ys])) = butlast ((map fst ys)[i := last (map fst ys)])"
    using last_map[OF ne, of fst] by (simp only: map_butlast map_update)
  have U: "elems (modifications b) \<subseteq> {..?l}" unfolding m marked_def by auto
  have "marked (butlast (ys[i := last ys])) = merge_marks {i, ?l} {i} {(?l, i)} (marked ys) {}"
    by (rule marked_diff[OF move_over_diff[OF i]]) simp
  moreover have "in_place (elems (deletions ?b)) (elems (insertions ?b)) ?l"
    using in_place_merge[OF w(5) move_over_diff[OF i']] ip cb_move_over_sets[OF d i'] in_place_move_over[OF i]
    by simp
  moreover have "describes ?b (map fst xs) (map fst (butlast (ys[i := last ys])))"
    using cb_move_over_describes[OF d i' mv] unfolding f by simp
  moreover have "moves ?b = []" using mv by (auto simp: cb_move_over_def Let_def split: prod.splits option.splits)
  ultimately show ?thesis
    using m move_over_col_correct(2)[OF w(4) U i] i by (simp add: table_tracks_def cb_move_over_mods(1))
qed

lemma swap_step:
  assumes t: "table_tracks b xs ys" and ij: "i < j" "j < length ys"
  shows "table_tracks (cb_swap b i j True) xs (ys[i := ys ! j, j := ys ! i])"
proof -
  let ?b = "cb_swap b i j True"
  have d: "describes b (map fst xs) (map fst ys)" and mv: "moves b = []"
    and ip: "in_place (elems (deletions b)) (elems (insertions b)) (length ys)"
    and m: "elems (modifications b) = marked ys" using t by (simp_all add: table_tracks_def)
  note w = describesD[OF d]
  have f: "map fst (ys[i := ys ! j, j := ys ! i]) = (map fst ys)[i := map fst ys ! j, j := map fst ys ! i]"
    using ij by (simp add: map_update)
  have "marked (ys[i := ys ! j, j := ys ! i]) = merge_marks {i, j} {i, j} {(i, j), (j, i)} (marked ys) {}"
    by (rule marked_diff[OF swap_rows_diff]) (use ij in auto)
  moreover have "in_place (elems (deletions ?b)) (elems (insertions ?b)) (length ys)"
    using in_place_merge[OF w(5) swap_rows_diff[of i "map fst ys" j]] ip cb_swap_sets[OF d ij(1)] ij
    by (simp add: in_place_same)
  moreover have "describes ?b (map fst xs) (map fst (ys[i := ys ! j, j := ys ! i]))"
    using cb_swap_describes[OF d ij(1) _ mv] ij unfolding f by simp
  moreover have "moves ?b = []"
    using mv by (auto simp: cb_swap_def update_move_def add_row_move_def Let_def split: prod.splits option.splits)
  ultimately show ?thesis
    using m swap_col_correct(2)[OF w(4), of i j] ij by (simp add: table_tracks_def cb_swap_mods)
qed

lemma cb_pop_eq:
  "cb_move_over b l l True =
     for_each_col (\<lambda>col. is_remove col l 1) ((take_out l b)\<lparr>move_mapping := AList.delete l (move_mapping b)\<rparr>)"
  by (simp add: cb_move_over_def take_out_def Let_def split: prod.splits)

lemma pop_step:
  assumes t: "table_tracks b xs ys" and ne: "ys \<noteq> []" "length ys < npos"
  shows "table_tracks (cb_move_over b (length ys - 1) (length ys - 1) True) xs (butlast ys)"
proof -
  let ?l = "length ys - 1" let ?b = "cb_move_over b ?l ?l True"
  have d: "describes b (map fst xs) (map fst ys)" and mv: "moves b = []"
    and ip: "in_place (elems (deletions b)) (elems (insertions b)) (length ys)"
    and m: "elems (modifications b) = marked ys" using t by (simp_all add: table_tracks_def)
  note w = describesD[OF d]
  have l: "?l < npos" "?l < length (map fst ys)" using ne by (cases ys; simp)+
  have sets: "elems (deletions ?b) = merge_del (elems (deletions b)) (elems (insertions b)) {?l}"
    "elems (insertions ?b) = merge_ins (elems (insertions b)) {?l} {}" "moves ?b = []"
    using take_out_correct[OF w(2,3) l(1)] mv by (simp_all add: cb_pop_eq merge_ins_def)
  have "in_place (elems (deletions ?b)) (elems (insertions ?b)) ?l"
    using in_place_merge[OF w(5) erase_row_diff[OF l(2)]] ip l(2) sets in_place_erase_last[of ?l] by simp
  moreover have "describes ?b (map fst xs) (map fst (butlast ys))"
    using cb_move_over_last_describes[OF d _ _ mv] ne by (simp add: map_butlast)
  ultimately show ?thesis
    using m w(4) sets(3)
    by (simp add: table_tracks_def cb_move_over_mods(2) is_remove_correct marked_butlast atLeastLessThanSuc)
qed

lemma table_step:
  assumes t: "table_tracks b xs ys" and ok: "table_edit_ok e ys"
  shows "table_tracks (record_table e (length ys) b) xs (table_rows e ys)"
proof (cases e)
  case (MoveLastOver i)
  show ?thesis
  proof (cases "i = length ys - 1")
    case True
    moreover have "butlast (ys[length ys - 1 := last ys]) = butlast ys"
      by (metis butlast_list_update length_butlast)
    ultimately show ?thesis using pop_step[OF t] ok MoveLastOver by (cases ys) auto
  qed (use move_over_step[OF t] ok MoveLastOver in auto)
next
  case (SetRow i col)
  have "describes b (map fst xs) (map fst ys)" using t by (simp add: table_tracks_def)
  note c = cb_modify_describes[OF this, of i col]
  show ?thesis
    using t c ok SetRow by (simp add: table_tracks_def marked_modify map_fst_modify)
qed (use append_step[OF t] swap_step[OF t] ok in auto)

interpretation table_recording: recording table_rows table_edit_ok record_table table_tracks
  by unfold_locales (rule table_step)

end
