(* ===== verification/ChangeProps.thy ===== *)
theory ChangeProps
  imports ChangeRuns "HOL-Library.Code_Target_Nat"
begin

text \<open>
  The properties of \<open>CollectionChangeBuilder\<close>: runs of list edits, runs of table edits with
  \<open>parse_complete\<close>, \<open>merge\<close> and \<open>finalize\<close>; and two places where the result is not what the callers
  are told.
\<close>

lemma list_tracks_new: "list_all (\<lambda>r. \<not> snd r) xs \<Longrightarrow> list_tracks (builder_of [] [] [] []) xs xs"
  by (auto simp: list_tracks_def describes_def sets_ok_def builder_of_def known_moves_def diff_ok_refl
      marked_def list_all_length)

lemma table_tracks_new: "list_all (\<lambda>r. \<not> snd r) xs \<Longrightarrow> table_tracks (builder_of [] [] [] []) xs xs"
  by (auto simp: table_tracks_def describes_def sets_ok_def builder_of_def known_moves_def diff_ok_refl
      marked_def list_all_length in_place_refl)

lemma describes_verify: "describes b xs ys \<Longrightarrow> verify_moves b"
  using diff_ok_moveD(1,2)[OF describesD(5)]
  by (auto simp: verify_moves_def known_moves_def pair_of_def contains_iff[OF describesD(2)] contains_iff[OF describesD(3)]
      image_iff) blast+

text \<open>
  C5. A run of list edits (rows inserted, erased, moved, cleared, modified) leaves a builder that
  describes the difference between the first and the last list: without the deletions the first is
  the last without the insertions, each reported move names two positions with the same row, and the
  modifications are the rows modified since they were inserted, wherever they are now. The
  expectations of \<open>verify()\<close> hold.
\<close>

theorem list_run_described:
  assumes "run_ok list_edit_ok list_rows es xs" and "list_all (\<lambda>r. \<not> snd r) xs"
  shows "describes (run_record list_rows record_list es xs (builder_of [] [] [] []))
      (map fst xs) (map fst (run_rows list_rows es xs)) \<and>
    elems (modifications (run_record list_rows record_list es xs (builder_of [] [] [] []))) =
      marked (run_rows list_rows es xs) \<and>
    verify_moves (run_record list_rows record_list es xs (builder_of [] [] [] []))"
  using list_recording.run[OF list_tracks_new[OF assms(2)] assms(1)] describes_verify
  by (auto simp: list_tracks_def)

definition sample_rows :: "(nat \<times> bool) list" where
  "sample_rows = map (\<lambda>r. (r, False)) [10, 11, 12, 13, 14]"

definition sample_edits :: "nat list_edit list" where
  "sample_edits = [InsertRows 1 [20, 21], MoveRow 0 4, ModifyRow 4 0, EraseRow 1, ModifyRow 2 1]"

lemma sample_edits_ok: "run_ok list_edit_ok list_rows sample_edits sample_rows"
  by (simp add: sample_edits_def sample_rows_def npos_def list_erase_at_def list_move_def list_insert_at_def)

lemma sample_rows_unmarked: "list_all (\<lambda>r. \<not> snd r) sample_rows"
  by (simp add: sample_rows_def)

lemma list_run_described_witness:
  "describes (run_record list_rows record_list sample_edits sample_rows (builder_of [] [] [] []))
      [10 :: nat, 11, 12, 13, 14] [20, 11, 12, 10, 13, 14] \<and>
   elems (modifications (run_record list_rows record_list sample_edits sample_rows (builder_of [] [] [] []))) =
      marked (run_rows list_rows sample_edits sample_rows) \<and>
   verify_moves (run_record list_rows record_list sample_edits sample_rows (builder_of [] [] [] []))"
proof -
  have "map fst sample_rows = [10, 11, 12, 13, 14]"
    "map fst (run_rows list_rows sample_edits sample_rows) = [20, 11, 12, 10, 13, 14]"
    by (simp_all add: sample_edits_def sample_rows_def list_erase_at_def list_move_def list_insert_at_def)
  then show ?thesis
    using list_run_described[OF sample_edits_ok sample_rows_unmarked] by simp
qed

lemma table_tracks_complete:
  assumes "table_tracks b xs ys"
  shows "describes (parse_complete b) (map fst xs) (map fst ys) \<and> elems (modifications (parse_complete b)) = marked ys \<and>
    move_mapping (parse_complete b) = [] \<and> sorted (map mv_from (moves (parse_complete b)))"
proof -
  have "modifications (foldl parse_move b ps) = modifications b" for b ps
    by (induction ps arbitrary: b) (simp_all add: parse_move_def)
  then have "modifications (parse_complete b) = modifications b" by (simp add: parse_complete_def Let_def)
  then show ?thesis
    using assms parse_complete_describes[of b "map fst xs" "map fst ys"] by (simp add: table_tracks_def)
qed

text \<open>
  C6. A run of table edits (rows appended, erased by \<open>move_last_over\<close>, exchanged, modified) followed
  by \<open>parse_complete\<close> leaves a builder that describes the difference between the first and the last
  table, with no pending move and the moves in the order of their old rows.
\<close>

theorem table_run_described:
  assumes "run_ok table_edit_ok table_rows es xs" and "list_all (\<lambda>r. \<not> snd r) xs"
  shows "describes (parse_complete (run_record table_rows record_table es xs (builder_of [] [] [] [])))
      (map fst xs) (map fst (run_rows table_rows es xs)) \<and>
    elems (modifications (parse_complete (run_record table_rows record_table es xs (builder_of [] [] [] [])))) =
      marked (run_rows table_rows es xs) \<and>
    move_mapping (parse_complete (run_record table_rows record_table es xs (builder_of [] [] [] []))) = [] \<and>
    sorted (map mv_from (moves (parse_complete
      (run_record table_rows record_table es xs (builder_of [] [] [] [])))))"
  by (rule table_tracks_complete[OF table_recording.run[OF table_tracks_new[OF assms(2)] assms(1)]])

definition sample_table_edits :: "nat table_edit list" where
  "sample_table_edits = [SwapRows 0 3, AppendRows [20], MoveLastOver 1, SwapRows 0 3, SetRow 1 0, MoveLastOver 2]"

lemma table_run_described_witness:
  "describes (parse_complete (run_record table_rows record_table sample_table_edits sample_rows (builder_of [] [] [] [])))
      [10 :: nat, 11, 12, 13, 14] [10, 20, 14, 13] \<and>
    elems (modifications (parse_complete
      (run_record table_rows record_table sample_table_edits sample_rows (builder_of [] [] [] [])))) = {1} \<and>
    move_mapping (parse_complete
      (run_record table_rows record_table sample_table_edits sample_rows (builder_of [] [] [] []))) = []"
proof -
  have ok: "run_ok table_edit_ok table_rows sample_table_edits sample_rows"
    by (simp add: sample_table_edits_def sample_rows_def npos_def)
  have r: "run_rows table_rows sample_table_edits sample_rows = [(10, False), (20, True), (14, False), (13, False)]"
    "map fst sample_rows = [10, 11, 12, 13, 14]"
    by (simp_all add: sample_table_edits_def sample_rows_def)
  have "marked [(10 :: nat, False), (20, True), (14, False), (13, False)] = {1}"
    by (auto simp: marked_def nth_Cons' split: if_splits)
  then show ?thesis
    using table_run_described[OF ok sample_rows_unmarked] unfolding r by simp
qed


definition sample_first :: change_builder where
  "sample_first = run_record list_rows record_list sample_edits sample_rows (builder_of [] [] [] [])"




text \<open>
  C8. \<open>finalize\<close> reports the modified rows that are not insertions, by their new positions in
  \<open>modifications_new\<close> and by their old positions in \<open>modifications\<close>: renumbering past the insertions and
  the deletions is a bijection between the two sets, and takes each row to the same row.
\<close>

theorem finalize_modifications:
  assumes "describes b xs ys" and "elems (modifications b) \<subseteq> {..< length ys}"
  shows "elems (modifications_new (cb_finalize b)) = elems (modifications b) - elems (insertions b) \<and>
    bij_betw (\<lambda>p. is_shift (deletions b) (is_unshift (insertions b) p))
      (elems (modifications_new (cb_finalize b))) (elems (modifications (cb_finalize b))) \<and>
    (\<forall>p \<in> elems (modifications_new (cb_finalize b)).
       ys ! p = xs ! is_shift (deletions b) (is_unshift (insertions b) p))"
proof -
  note w = describesD[OF assms(1)]
  let ?D = "elems (deletions b)" and ?I = "elems (insertions b)" and ?M = "elems (modifications b)"
  have new: "elems (modifications_new (cb_finalize b)) = ?M - ?I"
    using w(3,4) by (simp add: cb_finalize_def Let_def is_remove_all_correct)
  have s: "is_shift (deletions b) (is_unshift (insertions b) p) = source ?D ?I p" if "p \<in> ?M - ?I" for p
    using w(2,3) that by (simp add: is_shift_correct is_unshift_correct source_def)
  have "elems (modifications (cb_finalize b)) = source ?D ?I ` (?M - ?I)"
    using w(2,3,4) diff_okD(3)[OF w(5)]
    by (simp add: cb_finalize_def Let_def is_shift_for_insert_all_correct is_erase_all_correct
        shifted_pos_alt erased_pos_def source_def image_image)
  moreover have "inj_on (source ?D ?I) (?M - ?I)"
    using diff_okD(3)[OF w(5)] by (auto simp: inj_on_def source_def shift_eq_iff unshift_inj)
  ultimately have "bij_betw (source ?D ?I) (?M - ?I) (elems (modifications (cb_finalize b)))"
    by (simp add: bij_betw_def)
  then have "bij_betw (\<lambda>p. is_shift (deletions b) (is_unshift (insertions b) p)) (?M - ?I)
      (elems (modifications (cb_finalize b)))"
    by (subst bij_betw_cong[OF s]) simp_all
  moreover have "ys ! p = xs ! is_shift (deletions b) (is_unshift (insertions b) p)" if "p \<in> ?M - ?I" for p
    using kept_source(3)[OF w(5), of p] assms(2) that s[OF that] by auto
  ultimately show ?thesis unfolding new by blast
qed

lemma finalize_modifications_witness:
  "elems (modifications_new (cb_finalize sample_first)) =
     elems (modifications sample_first) - elems (insertions sample_first) \<and>
   bij_betw (\<lambda>p. is_shift (deletions sample_first) (is_unshift (insertions sample_first) p))
     (elems (modifications_new (cb_finalize sample_first))) (elems (modifications (cb_finalize sample_first)))"
proof -
  have "list_tracks sample_first sample_rows (run_rows list_rows sample_edits sample_rows)"
    unfolding sample_first_def
    by (rule list_recording.run[OF list_tracks_new[OF sample_rows_unmarked] sample_edits_ok])
  then have "describes sample_first (map fst sample_rows) (map fst (run_rows list_rows sample_edits sample_rows))"
    "elems (modifications sample_first) \<subseteq> {..< length (map fst (run_rows list_rows sample_edits sample_rows))}"
    by (auto simp: list_tracks_def marked_def)
  from finalize_modifications[OF this] show ?thesis by blast
qed

text \<open>
  \<open>parse_complete\<close> takes a pending move that ends at the index where it began for no move, even if
  rows were inserted in front of it: after two rows are inserted in front of three and the first and
  the last of the three are exchanged, the finished deletions and insertions do not turn the old list
  into the new one.
\<close>

theorem parse_complete_drops_move:
  "(let b = parse_complete (cb_swap (cb_insert (builder_of [] [] [] []) 0 2 True) 2 4 True) in
     nths [10 :: nat, 11, 12] (- elems (deletions b)) = [11, 12] \<and>
     nths [20 :: nat, 21, 12, 11, 10] (- elems (insertions b)) = [12, 11])"
proof -
  let ?b = "parse_complete (cb_swap (cb_insert (builder_of [] [] [] []) 0 2 True) 2 4 True)"
  have "ranges (deletions ?b) = [(0, 1)]" "ranges (insertions ?b) = [(0, 2), (4, 5)]" by code_simp+
  then have e: "elems (deletions ?b) = {0}" "elems (insertions ?b) = {0, 1} \<union> {4}"
    unfolding elems_def by auto
  show ?thesis unfolding Let_def e by (simp add: nths_Cons nths_nil)
qed

text \<open>
  \<open>finalize\<close> hands on the sets per column as they are, in new positions and with insertions, while
  \<open>modifications\<close> is in old positions: for a list of one row, with one row inserted in front and both
  modified in column 0, the reported modification is row 0 and the rows of column 0 are 0 and 1.
\<close>

theorem finalize_columns_new_positions:
  "(let c = cb_finalize (cb_modify (cb_modify (cb_insert (builder_of [] [] [] []) 0 1 True) 1 0) 0 0) in
     ranges (modifications c) = [(0, 1)] \<and> ranges (modifications_new c) = [(1, 2)] \<and>
     map ranges (columns c) = [[(0, 2)]])"
  by code_simp

end
