(* ===== verification/ChangeCalculate.thy ===== *)
theory ChangeCalculate
  imports ChangeBuilder "HOL-Library.Product_Lexorder"
begin

text \<open>
  \<open>CollectionChangeBuilder::calculate\<close> of \<open>impl/collection_change_builder.cpp\<close>: the changes between
  two runs of a query, as lists of row indices. The rows are matched by index with a merge join; rows
  in both results that moved are found by the longest common subsequence of the two orders, or, in
  table order, by following the position at which each row is expected. \<open>std::sort\<close> is a stable sort
  here; where equal keys can occur the library leaves the order open.
\<close>

section \<open>Rows\<close>

record row_info =
  row_index :: nat
  prev_tv_index :: nat
  tv_index :: nat
  shifted_tv_index :: nat

record lcs_row =
  lr_row :: nat
  lr_tv :: nat

record lcs_match =
  m_i :: nat
  m_j :: nat
  m_size :: nat
  m_modified :: nat

text \<open>The rows of the old result that still exist; the others are deletions at once.\<close>

fun old_rows_loop :: "nat list \<Rightarrow> nat \<Rightarrow> nat \<Rightarrow> crv \<Rightarrow> row_info list \<times> crv" where
  "old_rows_loop [] i deleted del = ([], del)"
| "old_rows_loop (r # rs) i deleted del =
     (if r = npos then old_rows_loop rs (i + 1) (deleted + 1) (is_add del i)
      else
        let (infos, del') = old_rows_loop rs (i + 1) deleted del
        in (\<lparr>row_index = r, prev_tv_index = npos, tv_index = i, shifted_tv_index = i - deleted\<rparr> # infos, del'))"

fun new_rows_loop :: "nat list \<Rightarrow> nat \<Rightarrow> row_info list" where
  "new_rows_loop [] i = []"
| "new_rows_loop (r # rs) i =
     \<lparr>row_index = r, prev_tv_index = npos, tv_index = i, shifted_tv_index = 0\<rparr> # new_rows_loop rs (i + 1)"

text \<open>The merge join of the two lists by row index.\<close>

fun join_rows ::
  "row_info list \<Rightarrow> row_info list \<Rightarrow> crv \<Rightarrow> crv \<Rightarrow> row_info list \<times> crv \<times> crv"
where
  "join_rows [] [] removed ins = ([], removed, ins)"
| "join_rows (old # olds) [] removed ins = join_rows olds [] (is_add removed (tv_index old)) ins"
| "join_rows [] (new # news) removed ins =
     (let (rows, removed', ins') = join_rows [] news removed (is_add ins (tv_index new))
      in (new # rows, removed', ins'))"
| "join_rows (old # olds) (new # news) removed ins =
     (if row_index old = row_index new then
        let (rows, removed', ins') = join_rows olds news removed ins
        in (new\<lparr>prev_tv_index := tv_index old, shifted_tv_index := shifted_tv_index old\<rparr> # rows, removed', ins')
      else if row_index old < row_index new then
        join_rows olds (new # news) (is_add removed (tv_index old)) ins
      else
        let (rows, removed', ins') = join_rows (old # olds) news removed (is_add ins (tv_index new))
        in (new # rows, removed', ins'))"

section \<open>Moves in table order\<close>

fun calculate_moves_unsorted ::
  "row_info list \<Rightarrow> nat \<Rightarrow> crv \<Rightarrow> crv \<Rightarrow> change_builder \<Rightarrow> crv \<times> change_builder"
where
  "calculate_moves_unsorted [] expected removed candidates c = (removed, c)"
| "calculate_moves_unsorted (row # rows) expected removed candidates c =
     (if shifted_tv_index row = expected then
        calculate_moves_unsorted rows (expected + 1) removed candidates c
      else if \<not> is_contains candidates (row_index row) then
        calculate_moves_unsorted rows (shifted_tv_index row + 1) removed candidates c
      else
        let calc_expected =
              sub_size (tv_index row) (is_count (insertions c) 0 (tv_index row)) +
              is_count removed 0 (prev_tv_index row)
        in if shifted_tv_index row = calc_expected then
             calculate_moves_unsorted rows (calc_expected + 1) removed candidates c
           else
             calculate_moves_unsorted rows expected (is_add removed (prev_tv_index row)) candidates
               (c\<lparr>moves := moves c @ [\<lparr>mv_from = prev_tv_index row, mv_to = tv_index row\<rparr>],
                  insertions := is_add (insertions c) (tv_index row)\<rparr>))"

section \<open>Longest common subsequence\<close>

text \<open>The positions of one row index in the new order, within the range searched.\<close>

definition b_matches :: "lcs_row list \<Rightarrow> nat \<Rightarrow> nat \<Rightarrow> nat \<Rightarrow> nat list" where
  "b_matches b ai begin2 end2 =
     (let its = takeWhile (\<lambda>r. lr_row r = ai) (dropWhile (\<lambda>r. lr_row r < ai) b)
      in filter (\<lambda>j. \<not> j < begin2) (takeWhile (\<lambda>j. j < begin2 \<or> \<not> j \<ge> end2) (map lr_tv its)))"

text \<open>The length of the matching block that ends at \<open>j\<close>, from the blocks of the previous row.\<close>

definition block_length :: "(nat \<times> nat) list \<Rightarrow> nat \<Rightarrow> nat" where
  "block_length prev j =
     (case find (\<lambda>p. fst p + 1 = j) prev of Some p \<Rightarrow> snd p + 1 | None \<Rightarrow> 1)"

definition match_step ::
  "crv \<Rightarrow> nat \<Rightarrow> (nat \<times> nat) list \<Rightarrow> (nat \<times> nat) list \<times> lcs_match \<Rightarrow> nat \<Rightarrow> (nat \<times> nat) list \<times> lcs_match"
where
  "match_step modified i prev st j =
     (let (cur, best) = st; size = block_length prev j; cur' = cur @ [(j, size)] in
      if size > m_size best then
        (cur', \<lparr>m_i = sub_size (i + 1) size, m_j = sub_size (j + 1) size, m_size = size, m_modified = npos\<rparr>)
      else if size = m_size best then
        let best' = (if m_modified best = npos
                     then best\<lparr>m_modified := is_count modified (sub_size (m_j best + 1) size) (m_j best + 1)\<rparr>
                     else best);
            count = is_count modified (sub_size (j + 1) size) (j + 1)
        in if count < m_modified best' then
             (cur', \<lparr>m_i = sub_size (i + 1) size, m_j = sub_size (j + 1) size, m_size = size, m_modified = count\<rparr>)
           else (cur', best')
      else (cur', best))"

definition match_row ::
  "lcs_row list \<Rightarrow> lcs_row list \<Rightarrow> crv \<Rightarrow> nat \<Rightarrow> nat \<Rightarrow> (nat \<times> nat) list \<times> lcs_match \<Rightarrow> nat \<Rightarrow>
     (nat \<times> nat) list \<times> lcs_match"
where
  "match_row a b modified begin2 end2 st i =
     foldl (match_step modified i (fst st)) ([], snd st) (b_matches b (lr_row (a ! i)) begin2 end2)"

definition find_longest_match ::
  "lcs_row list \<Rightarrow> lcs_row list \<Rightarrow> crv \<Rightarrow> nat \<Rightarrow> nat \<Rightarrow> nat \<Rightarrow> nat \<Rightarrow> lcs_match"
where
  "find_longest_match a b modified begin1 end1 begin2 end2 =
     snd (foldl (match_row a b modified begin2 end2)
            ([], \<lparr>m_i = begin1, m_j = begin2, m_size = 0, m_modified = 0\<rparr>) [begin1 ..< end1])"

text \<open>The block found lies within the rows searched, which is why the search below ends.\<close>

lemma block_length_cases:
  obtains (new) "block_length prev j = 1"
  | (more) p where "p \<in> set prev" and "fst p + 1 = j" and "block_length prev j = snd p + 1"
proof (cases "find (\<lambda>p. fst p + 1 = j) prev")
  case None
  then show ?thesis using new by (simp add: block_length_def)
next
  case (Some p)
  then have "p \<in> set prev" "fst p + 1 = j" unfolding find_Some_iff by (auto simp: in_set_conv_nth)
  then show ?thesis using more Some by (simp add: block_length_def)
qed

definition best_in :: "nat \<Rightarrow> nat \<Rightarrow> lcs_match \<Rightarrow> bool" where
  "best_in begin1 end1 m \<longleftrightarrow> begin1 \<le> m_i m \<and> m_i m + m_size m \<le> end1"

definition scan_in :: "nat \<Rightarrow> nat \<Rightarrow> (nat \<times> nat) list \<times> lcs_match \<Rightarrow> bool" where
  "scan_in begin1 i st \<longleftrightarrow> best_in begin1 i (snd st) \<and> (\<forall>p \<in> set (fst st). begin1 + snd p \<le> i)"

lemma match_step_in:
  assumes "\<forall>p \<in> set prev. begin1 + snd p \<le> i" and "begin1 \<le> i" and "scan_in begin1 (Suc i) st"
  shows "scan_in begin1 (Suc i) (match_step modified i prev st j)"
proof -
  have "begin1 + block_length prev j \<le> Suc i"
    using assms(1,2) by (cases rule: block_length_cases[of prev j]) auto
  then show ?thesis
    using assms(3) by (auto simp: match_step_def scan_in_def best_in_def Let_def split: prod.splits)
qed

lemma match_row_in:
  assumes "scan_in begin1 i st" and "begin1 \<le> i"
  shows "scan_in begin1 (Suc i) (match_row a b modified begin2 end2 st i)"
proof -
  have p: "\<forall>p \<in> set (fst st). begin1 + snd p \<le> i" using assms(1) by (simp add: scan_in_def)
  have "scan_in begin1 (Suc i) s \<Longrightarrow> scan_in begin1 (Suc i) (foldl (match_step modified i (fst st)) s js)" for s js
    by (induction js arbitrary: s) (simp_all add: match_step_in[OF p assms(2)])
  moreover have "scan_in begin1 (Suc i) ([], snd st)" using assms(1) by (simp add: scan_in_def best_in_def)
  ultimately show ?thesis by (simp add: match_row_def)
qed

lemma find_longest_match_in:
  assumes "begin1 \<le> end1"
  shows "best_in begin1 end1 (find_longest_match a b modified begin1 end1 begin2 end2)"
proof -
  have "scan_in begin1 (begin1 + n) (foldl (match_row a b modified begin2 end2)
            ([], \<lparr>m_i = begin1, m_j = begin2, m_size = 0, m_modified = 0\<rparr>) [begin1 ..< begin1 + n])" for n
    by (induction n) (simp_all add: match_row_in, simp add: scan_in_def best_in_def)
  from this[of "end1 - begin1"] show ?thesis
    using assms by (simp add: find_longest_match_def scan_in_def)
qed

lemma find_longest_match_none: "\<not> begin1 < end1 \<Longrightarrow> m_size (find_longest_match a b modified begin1 end1 begin2 end2) = 0"
  by (simp add: find_longest_match_def)

function find_longest_matches ::
  "lcs_row list \<Rightarrow> lcs_row list \<Rightarrow> crv \<Rightarrow> nat \<Rightarrow> nat \<Rightarrow> nat \<Rightarrow> nat \<Rightarrow> lcs_match list"
where
  "find_longest_matches a b modified begin1 end1 begin2 end2 =
     (let m = find_longest_match a b modified begin1 end1 begin2 end2 in
      if m_size m = 0 then []
      else
        (if m_i m > begin1 \<and> m_j m > begin2
         then find_longest_matches a b modified begin1 (m_i m) begin2 (m_j m) else []) @
        [m] @
        (if m_i m + m_size m < end2 \<and> m_j m + m_size m < end2
         then find_longest_matches a b modified (m_i m + m_size m) end1 (m_j m + m_size m) end2 else []))"
  by pat_completeness auto
termination
proof (relation "measure (\<lambda>(a, b, modified, begin1, end1, begin2, end2). end1 - begin1)", goal_cases)
  case (2 a b modified begin1 end1 begin2 end2 m)
  then have "begin1 < end1" using find_longest_match_none by metis
  then have "best_in begin1 end1 m" using find_longest_match_in 2(1) by simp
  then show ?case using 2(2,3) \<open>begin1 < end1\<close> by (simp add: best_in_def) arith
next
  case (3 a b modified begin1 end1 begin2 end2 m)
  then have "begin1 < end1" using find_longest_match_none by metis
  then have "best_in begin1 end1 m" using find_longest_match_in 3(1) by simp
  then show ?case using 3(2) \<open>begin1 < end1\<close> by (simp add: best_in_def) arith
qed simp

declare find_longest_matches.simps [simp del]

definition longest_matches :: "lcs_row list \<Rightarrow> lcs_row list \<Rightarrow> nat \<Rightarrow> crv \<Rightarrow> lcs_match list" where
  "longest_matches a b start_index modified =
     find_longest_matches a b modified start_index (length a) start_index (length b) @
     [\<lparr>m_i = length a, m_j = length b, m_size = 0, m_modified = 0\<rparr>]"

section \<open>Moves in any order\<close>

fun first_difference :: "lcs_row list \<Rightarrow> row_info list \<Rightarrow> nat \<Rightarrow> nat" where
  "first_difference [] rows i = npos"
| "first_difference (x # xs) rows i =
     (if lr_row x \<noteq> row_index (rows ! i) then i else first_difference xs rows (i + 1))"

text \<open>The walk over the matches: what lies between two of them is deleted and inserted.\<close>

fun align_matches ::
  "lcs_row list \<Rightarrow> row_info list \<Rightarrow> lcs_match list \<Rightarrow> nat \<Rightarrow> nat \<Rightarrow> change_builder \<Rightarrow> change_builder"
where
  "align_matches a rows [] i j c = c"
| "align_matches a rows (m # ms) i j c =
     (let c1 = c\<lparr>deletions := foldl (\<lambda>s k. is_add s (lr_tv (a ! k))) (deletions c) [i ..< m_i m]\<rparr>;
          c2 = c1\<lparr>insertions := foldl (\<lambda>s k. is_add s (tv_index (rows ! k))) (insertions c1) [j ..< m_j m]\<rparr>
      in align_matches a rows ms (max i (m_i m) + m_size m) (max j (m_j m) + m_size m) c2)"

definition calculate_moves_sorted :: "row_info list \<Rightarrow> change_builder \<Rightarrow> change_builder" where
  "calculate_moves_sorted rows c =
     (let a = sort_key (\<lambda>r. (lr_tv r, lr_row r))
                (map (\<lambda>r. \<lparr>lr_row = row_index r, lr_tv = prev_tv_index r\<rparr>) rows);
          fd = first_difference a rows 0
      in if fd = npos then c
         else
           let b = sort_key (\<lambda>r. (lr_row r, lr_tv r))
                     (map (\<lambda>i. \<lparr>lr_row = row_index (rows ! i), lr_tv = i\<rparr>) [0 ..< length rows]);
               matches = longest_matches a b fd (modifications c)
           in align_matches a rows matches fd fd c)"

definition calculate ::
  "nat list \<Rightarrow> nat list \<Rightarrow> (nat \<Rightarrow> bool) \<Rightarrow> crv option \<Rightarrow> change_builder"
where
  "calculate prev_rows next_rows row_did_change move_candidates =
     (let ret = builder_of [] [] [] [];
          (old, del) = old_rows_loop prev_rows 0 0 (deletions ret);
          old_rows = sort_key row_index old;
          new_rows = sort_key row_index (new_rows_loop next_rows 0);
          (joined, removed, ins) = join_rows old_rows new_rows [] (insertions ret);
          rows = sort_key tv_index (filter (\<lambda>r. prev_tv_index r \<noteq> npos) joined);
          mods = foldl (\<lambda>s r. if row_did_change (row_index r) then is_add s (tv_index r) else s)
                   (modifications ret) rows;
          ret1 = ret\<lparr>deletions := del, insertions := ins, modifications := mods\<rparr>;
          (removed', ret2) =
            (case move_candidates of
               Some candidates \<Rightarrow> calculate_moves_unsorted rows 0 removed candidates ret1
             | None \<Rightarrow> (removed, calculate_moves_sorted rows ret1))
      in ret2\<lparr>deletions := is_add_all (deletions ret2) removed'\<rparr>)"

end
