(* ===== verification/ChangeCalculateCorrect.thy ===== *)
theory ChangeCalculateCorrect
  imports ChangeCalculate ChangeEdits "HOL-Library.Multiset"
begin

text \<open>
  Correctness of \<open>calculate\<close> for rows in any order: the deletions and insertions turn the old list of
  rows into the new one. The proof follows the code: the merge join pairs rows of the same index, the
  matches found are an ascending chain of blocks on which the two orders agree, and what lies between
  them is deleted and inserted.
\<close>

section \<open>Rows kept, by their positions\<close>

lemma nths_positions:
  assumes "sorted_wrt (<) ps" and "set ps = {..< length xs} - D"
  shows "nths xs (- D) = map ((!) xs) ps"
proof -
  have "nths xs A = map ((!) xs) (filter (\<lambda>i. i \<in> A) [0 ..< length xs])" for A :: "nat set"
  proof (induction xs rule: rev_induct)
    case (snoc x xs)
    have "map ((!) (xs @ [x])) (filter (\<lambda>i. i \<in> A) [0 ..< length xs]) =
        map ((!) xs) (filter (\<lambda>i. i \<in> A) [0 ..< length xs])"
      by (rule map_cong) (auto simp: nth_append)
    then show ?case using snoc by (simp add: nths_append)
  qed simp
  moreover have "filter (\<lambda>i. i \<in> - D) [0 ..< length xs] = ps"
    by (rule strict_sorted_equal)
      (use assms in \<open>auto simp: sorted_wrt_filter\<close>)
  ultimately show ?thesis by metis
qed

section \<open>The merge join\<close>

definition tv_row :: "row_info \<Rightarrow> nat \<times> nat" where
  "tv_row r = (tv_index r, row_index r)"

lemma zip_upt_Cons: "zip [i ..< i + length (r # rs)] (r # rs) = (i, r) # zip [Suc i ..< Suc i + length rs] rs"
  by (simp add: upt_conv_Cons del: upt_Suc)

lemma old_rows_correct:
  assumes "old_rows_loop rs i k del = (infos, del')" and "crv_wf del"
  shows "crv_wf del' \<and>
    elems del' = elems del \<union> fst ` set (filter (\<lambda>p. snd p = npos) (zip [i ..< i + length rs] rs)) \<and>
    map tv_row infos = filter (\<lambda>p. snd p \<noteq> npos) (zip [i ..< i + length rs] rs)"
  using assms
proof (induction rs arbitrary: i k del infos del')
  case Nil
  then show ?case by simp
next
  case (Cons r rs)
  show ?case
  proof (cases "r = npos")
    case True
    then have "old_rows_loop rs (Suc i) (Suc k) (is_add del i) = (infos, del')" using Cons.prems by simp
    from Cons.IH[OF this is_add_wf[OF Cons.prems(2)]] show ?thesis
      unfolding zip_upt_Cons using True is_add_elems[OF Cons.prems(2)] by auto
  next
    case False
    obtain infos1 d where s: "old_rows_loop rs (Suc i) k del = (infos1, d)" by (cases "old_rows_loop rs (Suc i) k del")
    then have "infos = \<lparr>row_index = r, prev_tv_index = npos, tv_index = i, shifted_tv_index = i - k\<rparr> # infos1" "del' = d"
      using Cons.prems False by auto
    then show ?thesis
      using Cons.IH[OF s Cons.prems(2)] False unfolding zip_upt_Cons by (simp add: tv_row_def)
  qed
qed

lemma new_rows_tv: "map tv_row (new_rows_loop rs i) = zip [i ..< i + length rs] rs"
proof (induction rs arbitrary: i)
  case (Cons r rs)
  show ?case unfolding zip_upt_Cons new_rows_loop.simps Cons[of "Suc i", symmetric] by (simp add: tv_row_def)
qed simp

lemma new_rows_prev: "r \<in> set (new_rows_loop rs i) \<Longrightarrow> prev_tv_index r = npos"
  by (induction rs arbitrary: i) auto

text \<open>
  How the join may pair rows: \<open>us\<close> are the old positions left over, \<open>vs\<close> the new ones. The join makes
  one such choice, and every such choice partitions the two lists.
\<close>

inductive joined :: "row_info list \<Rightarrow> row_info list \<Rightarrow> row_info list \<Rightarrow> nat list \<Rightarrow> nat list \<Rightarrow> bool" where
  Nil: "joined [] [] [] [] []"
| Old: "joined olds news rows us vs \<Longrightarrow> joined (q # olds) news rows (tv_index q # us) vs"
| New: "joined olds news rows us vs \<Longrightarrow> prev_tv_index n = npos \<Longrightarrow>
    joined olds (n # news) (n # rows) us (tv_index n # vs)"
| Pair: "joined olds news rows us vs \<Longrightarrow> row_index q = row_index n \<Longrightarrow> tv_index q < npos \<Longrightarrow>
    joined (q # olds) (n # news)
      (n\<lparr>prev_tv_index := tv_index q, shifted_tv_index := shifted_tv_index q\<rparr> # rows) us vs"

lemma join_rows_joined:
  assumes "join_rows olds news rem ins = (rows, rem', ins')"
    and "\<forall>r \<in> set olds. tv_index r < npos" and "\<forall>r \<in> set news. prev_tv_index r = npos"
  shows "\<exists>us vs. joined olds news rows us vs \<and> rem' = foldl is_add rem us \<and> ins' = foldl is_add ins vs"
  using assms
proof (induction olds news rem ins arbitrary: rows rem' ins' rule: join_rows.induct)
  case (1 removed ins)
  have "joined [] [] [] [] [] \<and> removed = foldl is_add removed [] \<and> ins = foldl is_add ins []"
    by (simp add: joined.Nil)
  then show ?case using 1 by (metis join_rows.simps(1) prod.inject)
next
  case (2 old olds removed ins)
  then obtain us vs where "joined olds [] rows us vs" "rem' = foldl is_add (is_add removed (tv_index old)) us"
    "ins' = foldl is_add ins vs" by force
  then have "joined (old # olds) [] rows (tv_index old # us) vs \<and> rem' = foldl is_add removed (tv_index old # us) \<and>
      ins' = foldl is_add ins vs" by (simp add: joined.Old)
  then show ?case by blast
next
  case (3 new news removed ins)
  obtain r1 d1 i1 where s: "join_rows [] news removed (is_add ins (tv_index new)) = (r1, d1, i1)"
    by (cases "join_rows [] news removed (is_add ins (tv_index new))") auto
  then obtain us vs where "joined [] news r1 us vs" "d1 = foldl is_add removed us"
    "i1 = foldl is_add (is_add ins (tv_index new)) vs" using 3(1)[OF s] 3(3,4) by auto
  then have "joined [] (new # news) (new # r1) us (tv_index new # vs) \<and> d1 = foldl is_add removed us \<and>
      i1 = foldl is_add ins (tv_index new # vs)" using 3(4) by (simp add: joined.New)
  moreover have "rows = new # r1" "rem' = d1" "ins' = i1" using 3(2) s by auto
  ultimately show ?case by blast
next
  case (4 old olds new news removed ins)
  note prems = 4(4-6)
  consider (eq) "row_index old = row_index new" | (less) "row_index old < row_index new"
    | (gt) "row_index new < row_index old" by linarith
  then show ?case
  proof cases
    case eq
    obtain r1 d1 i1 where s: "join_rows olds news removed ins = (r1, d1, i1)"
      by (cases "join_rows olds news removed ins") auto
    then obtain us vs where "joined olds news r1 us vs" "d1 = foldl is_add removed us"
      "i1 = foldl is_add ins vs" using 4(1)[OF eq s] prems(2,3) by auto
    then show ?thesis
      using prems s eq joined.Pair[of olds news r1 us vs old new] by auto
  next
    case less
    then have "join_rows olds (new # news) (is_add removed (tv_index old)) ins = (rows, rem', ins')"
      using prems(1) by simp
    then obtain us vs where "joined olds (new # news) rows us vs"
      "rem' = foldl is_add (is_add removed (tv_index old)) us" "ins' = foldl is_add ins vs"
      using 4(2)[OF _ less] prems(2,3) less by auto
    then have "joined (old # olds) (new # news) rows (tv_index old # us) vs \<and>
        rem' = foldl is_add removed (tv_index old # us) \<and> ins' = foldl is_add ins vs" by (simp add: joined.Old)
    then show ?thesis by blast
  next
    case gt
    obtain r1 d1 i1 where s: "join_rows (old # olds) news removed (is_add ins (tv_index new)) = (r1, d1, i1)"
      by (cases "join_rows (old # olds) news removed (is_add ins (tv_index new))") auto
    then obtain us vs where "joined (old # olds) news r1 us vs" "d1 = foldl is_add removed us"
      "i1 = foldl is_add (is_add ins (tv_index new)) vs" using 4(3)[OF _ _ s] prems(2,3) gt by auto
    then have "joined (old # olds) (new # news) (new # r1) us (tv_index new # vs) \<and>
        d1 = foldl is_add removed us \<and> i1 = foldl is_add ins (tv_index new # vs)"
      using prems(3) by (simp add: joined.New)
    moreover have "rows = new # r1" "rem' = d1" "ins' = i1" using prems(1) s gt by auto
    ultimately show ?thesis by blast
  qed
qed

definition paired :: "row_info list \<Rightarrow> row_info list" where
  "paired rows = filter (\<lambda>r. prev_tv_index r \<noteq> npos) rows"

lemma joined_partition:
  assumes "joined olds news rows us vs"
  shows "mset (map tv_index olds) = mset (map prev_tv_index (paired rows)) + mset us"
    and "mset (map tv_index news) = mset (map tv_index (paired rows)) + mset vs"
    and "\<forall>r \<in> set (paired rows). \<exists>q \<in> set olds. tv_index q = prev_tv_index r \<and> row_index q = row_index r"
    and "\<forall>r \<in> set (paired rows). \<exists>q \<in> set news. tv_index q = tv_index r \<and> row_index q = row_index r"
proof -
  show "mset (map tv_index olds) = mset (map prev_tv_index (paired rows)) + mset us"
    using assms by (induction rule: joined.induct) (simp_all add: paired_def)
  show "mset (map tv_index news) = mset (map tv_index (paired rows)) + mset vs"
    using assms by (induction rule: joined.induct) (simp_all add: paired_def)
  show "\<forall>r \<in> set (paired rows). \<exists>q \<in> set olds. tv_index q = prev_tv_index r \<and> row_index q = row_index r"
    using assms by (induction rule: joined.induct) (auto simp: paired_def)
  show "\<forall>r \<in> set (paired rows). \<exists>q \<in> set news. tv_index q = tv_index r \<and> row_index q = row_index r"
    using assms by (induction rule: joined.induct) (auto simp: paired_def)
qed

section \<open>Matching blocks\<close>

text \<open>The two orders agree on a block of \<open>n\<close> rows that ends in front of \<open>i\<close> and \<open>j\<close>.\<close>

definition agree_before :: "lcs_row list \<Rightarrow> row_info list \<Rightarrow> nat \<Rightarrow> nat \<Rightarrow> nat \<Rightarrow> bool" where
  "agree_before a rows i j n \<longleftrightarrow>
     n \<le> i \<and> n \<le> j \<and> (\<forall>k < n. lr_row (a ! (i - n + k)) = row_index (rows ! (j - n + k)))"

lemma agree_before_0 [simp]: "agree_before a rows i j 0"
  by (simp add: agree_before_def)

lemma agree_before_Suc:
  "agree_before a rows (Suc i) (Suc j) (Suc n) \<longleftrightarrow>
     agree_before a rows i j n \<and> lr_row (a ! i) = row_index (rows ! j)"
  by (auto simp: agree_before_def less_Suc_eq)

definition rows_table :: "lcs_row list \<Rightarrow> row_info list \<Rightarrow> bool" where
  "rows_table b rows \<longleftrightarrow> (\<forall>r \<in> set b. lr_tv r < length rows \<and> row_index (rows ! lr_tv r) = lr_row r)"

lemma b_matches_in:
  assumes "rows_table b rows" and "j \<in> set (b_matches b ai begin2 end2)"
  shows "begin2 \<le> j" and "j < end2" and "j < length rows" and "row_index (rows ! j) = ai"
proof -
  have j: "j \<in> set (takeWhile (\<lambda>j. j < begin2 \<or> \<not> j \<ge> end2)
      (map lr_tv (takeWhile (\<lambda>r. lr_row r = ai) (dropWhile (\<lambda>r. lr_row r < ai) b))))" "\<not> j < begin2"
    using assms(2) by (auto simp: b_matches_def Let_def)
  then show "begin2 \<le> j" "j < end2" using set_takeWhileD[OF j(1)] by auto
  obtain r where r: "lr_tv r = j" "r \<in> set (takeWhile (\<lambda>r. lr_row r = ai) (dropWhile (\<lambda>r. lr_row r < ai) b))"
    using set_takeWhileD[OF j(1)] by auto
  then have "lr_row r = ai" "r \<in> set b" using set_takeWhileD set_dropWhileD by fastforce+
  then show "j < length rows" "row_index (rows ! j) = ai" using assms(1) r(1) by (auto simp: rows_table_def)
qed

text \<open>The invariant of the search: every block it holds is an agreement within the ranges.\<close>

definition cell_ok :: "lcs_row list \<Rightarrow> row_info list \<Rightarrow> nat \<Rightarrow> nat \<Rightarrow> nat \<Rightarrow> nat \<Rightarrow> nat \<times> nat \<Rightarrow> bool" where
  "cell_ok a rows begin1 begin2 end2 i p \<longleftrightarrow>
     begin1 + snd p \<le> i \<and> begin2 + snd p \<le> Suc (fst p) \<and> fst p < end2 \<and>
     agree_before a rows i (Suc (fst p)) (snd p)"

definition block_ok :: "lcs_row list \<Rightarrow> row_info list \<Rightarrow> nat \<Rightarrow> nat \<Rightarrow> nat \<Rightarrow> nat \<Rightarrow> lcs_match \<Rightarrow> bool" where
  "block_ok a rows begin1 end1 begin2 end2 m \<longleftrightarrow>
     begin1 \<le> m_i m \<and> m_i m + m_size m \<le> end1 \<and> begin2 \<le> m_j m \<and> m_j m + m_size m \<le> end2 \<and>
     agree_before a rows (m_i m + m_size m) (m_j m + m_size m) (m_size m)"

definition scan_ok ::
  "lcs_row list \<Rightarrow> row_info list \<Rightarrow> nat \<Rightarrow> nat \<Rightarrow> nat \<Rightarrow> nat \<Rightarrow> (nat \<times> nat) list \<times> lcs_match \<Rightarrow> bool"
where
  "scan_ok a rows begin1 begin2 end2 i st \<longleftrightarrow>
     list_all (cell_ok a rows begin1 begin2 end2 i) (fst st) \<and> block_ok a rows begin1 i begin2 end2 (snd st)"

lemma block_length_ok:
  assumes "list_all (cell_ok a rows begin1 begin2 end2 i) prev" and "begin1 \<le> i"
    and "begin2 \<le> j" "j < end2" and "row_index (rows ! j) = lr_row (a ! i)"
  shows "cell_ok a rows begin1 begin2 end2 (Suc i) (j, block_length prev j)"
proof (cases rule: block_length_cases[of prev j])
  case new
  then show ?thesis using assms(2-5) by (simp add: cell_ok_def agree_before_Suc)
next
  case (more p)
  then have "cell_ok a rows begin1 begin2 end2 i p" using assms(1) by (simp add: list_all_iff)
  then show ?thesis
    using more(2,3) assms(4,5) by (auto simp: cell_ok_def agree_before_Suc simp flip: more(2))
qed

lemma match_step_ok:
  assumes "list_all (cell_ok a rows begin1 begin2 end2 i) prev" and "begin1 \<le> i"
    and "begin2 \<le> j" "j < end2" and "row_index (rows ! j) = lr_row (a ! i)"
    and "scan_ok a rows begin1 begin2 end2 (Suc i) st"
  shows "scan_ok a rows begin1 begin2 end2 (Suc i) (match_step modified i prev st j)"
proof -
  let ?n = "block_length prev j"
  have c: "cell_ok a rows begin1 begin2 end2 (Suc i) (j, ?n)" by (rule block_length_ok[OF assms(1-5)])
  then have n: "begin1 + ?n \<le> Suc i" "begin2 + ?n \<le> Suc j" by (simp_all add: cell_ok_def)
  have new: "block_ok a rows begin1 (Suc i) begin2 end2
      \<lparr>m_i = sub_size (i + 1) ?n, m_j = sub_size (j + 1) ?n, m_size = ?n, m_modified = k\<rparr>" for k
    using c n assms(4) by (simp add: block_ok_def cell_ok_def le_diff_conv2)
  have old: "block_ok a rows begin1 (Suc i) begin2 end2 (snd st)" using assms(6) by (simp add: scan_ok_def)
  have "block_ok a rows begin1 (Suc i) begin2 end2 (snd (match_step modified i prev st j))"
    using new old by (auto simp: match_step_def Let_def block_ok_def split: prod.splits)
  moreover have "list_all (cell_ok a rows begin1 begin2 end2 (Suc i)) (fst (match_step modified i prev st j))"
    using c assms(6) by (auto simp: match_step_def Let_def scan_ok_def split: prod.splits)
  ultimately show ?thesis by (simp add: scan_ok_def)
qed

lemma match_row_ok:
  assumes "rows_table b rows" and "scan_ok a rows begin1 begin2 end2 i st" and "begin1 \<le> i"
  shows "scan_ok a rows begin1 begin2 end2 (Suc i) (match_row a b modified begin2 end2 st i)"
proof -
  have p: "list_all (cell_ok a rows begin1 begin2 end2 i) (fst st)" using assms(2) by (simp add: scan_ok_def)
  have "\<forall>j \<in> set js. begin2 \<le> j \<and> j < end2 \<and> row_index (rows ! j) = lr_row (a ! i) \<Longrightarrow>
      scan_ok a rows begin1 begin2 end2 (Suc i) s \<Longrightarrow>
      scan_ok a rows begin1 begin2 end2 (Suc i) (foldl (match_step modified i (fst st)) s js)" for s js
    by (induction js arbitrary: s) (simp_all add: match_step_ok[OF p assms(3)])
  moreover have "scan_ok a rows begin1 begin2 end2 (Suc i) ([], snd st)"
    using assms(2) by (simp add: scan_ok_def block_ok_def)
  ultimately show ?thesis
    using b_matches_in[OF assms(1)] by (simp add: match_row_def)
qed

lemma find_longest_match_ok:
  assumes "rows_table b rows" and "begin1 \<le> end1" and "begin2 \<le> end2"
  shows "block_ok a rows begin1 end1 begin2 end2 (find_longest_match a b modified begin1 end1 begin2 end2)"
proof -
  have "scan_ok a rows begin1 begin2 end2 (begin1 + n) (foldl (match_row a b modified begin2 end2)
            ([], \<lparr>m_i = begin1, m_j = begin2, m_size = 0, m_modified = 0\<rparr>) [begin1 ..< begin1 + n])" for n
    by (induction n) (simp_all add: match_row_ok[OF assms(1)], simp add: scan_ok_def block_ok_def assms(3))
  from this[of "end1 - begin1"] show ?thesis
    using assms(2) by (simp add: find_longest_match_def scan_ok_def)
qed

text \<open>An ascending chain of blocks.\<close>

fun chain :: "lcs_row list \<Rightarrow> row_info list \<Rightarrow> nat \<Rightarrow> nat \<Rightarrow> nat \<Rightarrow> nat \<Rightarrow> lcs_match list \<Rightarrow> bool" where
  "chain a rows lo1 lo2 hi1 hi2 [] \<longleftrightarrow> lo1 \<le> hi1 \<and> lo2 \<le> hi2"
| "chain a rows lo1 lo2 hi1 hi2 (m # ms) \<longleftrightarrow>
     block_ok a rows lo1 hi1 lo2 hi2 m \<and> chain a rows (m_i m + m_size m) (m_j m + m_size m) hi1 hi2 ms"

lemma chain_le: "chain a rows lo1 lo2 hi1 hi2 ms \<Longrightarrow> lo1 \<le> hi1 \<and> lo2 \<le> hi2"
  by (cases ms) (auto simp: block_ok_def)

lemma block_ok_wider:
  "block_ok a rows lo1 hi1 lo2 hi2 m \<Longrightarrow> hi1 \<le> hi1' \<Longrightarrow> hi2 \<le> hi2' \<Longrightarrow> block_ok a rows lo1 hi1' lo2 hi2' m"
  by (auto simp: block_ok_def)

lemma chain_append:
  "chain a rows lo1 lo2 mid1 mid2 ms \<Longrightarrow> chain a rows mid1 mid2 hi1 hi2 ns \<Longrightarrow>
     chain a rows lo1 lo2 hi1 hi2 (ms @ ns)"
proof (induction ms arbitrary: lo1 lo2)
  case Nil
  then show ?case by (cases ns) (auto simp: block_ok_def)
next
  case (Cons m ms)
  then show ?case using chain_le[OF Cons.prems(2)] block_ok_wider by auto
qed

lemma find_longest_matches_chain:
  assumes "rows_table b rows" and "begin1 \<le> end1" and "begin2 \<le> end2"
  shows "chain a rows begin1 begin2 end1 end2 (find_longest_matches a b modified begin1 end1 begin2 end2)"
  using assms
proof (induction a b modified begin1 end1 begin2 end2 rule: find_longest_matches.induct)
  case (1 a b modified begin1 end1 begin2 end2)
  let ?m = "find_longest_match a b modified begin1 end1 begin2 end2"
  have ok: "block_ok a rows begin1 end1 begin2 end2 ?m" by (rule find_longest_match_ok[OF 1(3-5)])
  then have le: "begin1 \<le> m_i ?m" "begin2 \<le> m_j ?m" "m_i ?m + m_size ?m \<le> end1" "m_j ?m + m_size ?m \<le> end2"
    by (auto simp: block_ok_def)
  show ?case
  proof (cases "m_size ?m = 0")
    case True
    then show ?thesis using 1(4,5) by (simp add: find_longest_matches.simps Let_def)
  next
    case False
    let ?l = "if m_i ?m > begin1 \<and> m_j ?m > begin2
      then find_longest_matches a b modified begin1 (m_i ?m) begin2 (m_j ?m) else []"
    let ?r = "if m_i ?m + m_size ?m < end2 \<and> m_j ?m + m_size ?m < end2
      then find_longest_matches a b modified (m_i ?m + m_size ?m) end1 (m_j ?m + m_size ?m) end2 else []"
    have e: "find_longest_matches a b modified begin1 end1 begin2 end2 = ?l @ [?m] @ ?r"
      using False by (subst find_longest_matches.simps) (simp only: Let_def if_False)
    have l: "chain a rows begin1 begin2 (m_i ?m) (m_j ?m) ?l"
      using 1(1)[OF refl False] 1(3) le by simp
    have r: "chain a rows (m_i ?m + m_size ?m) (m_j ?m + m_size ?m) end1 end2 ?r"
      using 1(2)[OF refl False] 1(3) le by simp
    have "chain a rows (m_i ?m) (m_j ?m) end1 end2 (?m # ?r)"
      using ok r by (simp add: block_ok_def)
    from chain_append[OF l this] show ?thesis unfolding e by simp
  qed
qed

section \<open>Aligning the two orders\<close>

definition blocks_i :: "lcs_match list \<Rightarrow> nat list" where
  "blocks_i ms = concat (map (\<lambda>m. [m_i m ..< m_i m + m_size m]) ms)"

definition blocks_j :: "lcs_match list \<Rightarrow> nat list" where
  "blocks_j ms = concat (map (\<lambda>m. [m_j m ..< m_j m + m_size m]) ms)"

lemma blocks_simps [simp]:
  "blocks_i [] = []" "blocks_i (m # ms) = [m_i m ..< m_i m + m_size m] @ blocks_i ms"
  "blocks_j [] = []" "blocks_j (m # ms) = [m_j m ..< m_j m + m_size m] @ blocks_j ms"
  by (simp_all add: blocks_i_def blocks_j_def)

lemma chain_blocks:
  assumes "chain a rows lo1 lo2 hi1 hi2 ms"
  shows "set (blocks_i ms) \<subseteq> {lo1 ..< hi1} \<and> set (blocks_j ms) \<subseteq> {lo2 ..< hi2} \<and>
    sorted_wrt (<) (blocks_i ms) \<and> sorted_wrt (<) (blocks_j ms) \<and>
    map (\<lambda>k. lr_row (a ! k)) (blocks_i ms) = map (\<lambda>k. row_index (rows ! k)) (blocks_j ms)"
  using assms
proof (induction ms arbitrary: lo1 lo2)
  case (Cons m ms)
  then have ok: "block_ok a rows lo1 hi1 lo2 hi2 m" by simp
  have IH: "set (blocks_i ms) \<subseteq> {m_i m + m_size m ..< hi1}" "set (blocks_j ms) \<subseteq> {m_j m + m_size m ..< hi2}"
    "sorted_wrt (<) (blocks_i ms)" "sorted_wrt (<) (blocks_j ms)"
    "map (\<lambda>k. lr_row (a ! k)) (blocks_i ms) = map (\<lambda>k. row_index (rows ! k)) (blocks_j ms)"
    using Cons.IH[of "m_i m + m_size m" "m_j m + m_size m"] Cons.prems by simp_all
  have "map (\<lambda>k. lr_row (a ! k)) [m_i m ..< m_i m + m_size m] =
      map (\<lambda>k. row_index (rows ! k)) [m_j m ..< m_j m + m_size m]"
    by (rule nth_equalityI) (use ok in \<open>auto simp: block_ok_def agree_before_def\<close>)
  then show ?case
    using IH ok by (auto simp: block_ok_def sorted_wrt_append subset_iff)
qed simp

lemma foldl_is_add:
  "crv_wf s \<Longrightarrow> crv_wf (foldl (\<lambda>s k. is_add s (f k)) s xs) \<and>
     elems (foldl (\<lambda>s k. is_add s (f k)) s xs) = elems s \<union> f ` set xs"
  by (induction xs arbitrary: s) (simp_all add: is_add_wf is_add_elems)

lemma gap_split:
  fixes lo n k hi :: nat
  assumes "lo \<le> k" and "k + n \<le> hi" and "S \<subseteq> {k + n ..< hi}"
  shows "{lo ..< hi} - ({k ..< k + n} \<union> S) = {lo ..< k} \<union> ({k + n ..< hi} - S)"
  using assms by auto

lemma align_correct:
  assumes "chain a rows i j (length a) (length rows) ms"
    and "crv_wf (deletions c)" and "crv_wf (insertions c)"
  defines "r \<equiv> align_matches a rows
    (ms @ [\<lparr>m_i = length a, m_j = length rows, m_size = 0, m_modified = 0\<rparr>]) i j c"
  shows "crv_wf (deletions r) \<and> crv_wf (insertions r) \<and>
    elems (deletions r) = elems (deletions c) \<union> (\<lambda>k. lr_tv (a ! k)) ` ({i ..< length a} - set (blocks_i ms)) \<and>
    elems (insertions r) = elems (insertions c) \<union> (\<lambda>k. tv_index (rows ! k)) ` ({j ..< length rows} - set (blocks_j ms)) \<and>
    r = c\<lparr>deletions := deletions r, insertions := insertions r\<rparr>"
  using assms(1-3) unfolding r_def
proof (induction ms arbitrary: i j c)
  case Nil
  then show ?case by (simp add: foldl_is_add Let_def)
next
  case (Cons m ms)
  have ok: "block_ok a rows i (length a) j (length rows) m"
    and ch: "chain a rows (m_i m + m_size m) (m_j m + m_size m) (length a) (length rows) ms"
    using Cons.prems(1) by simp_all
  then have le: "i \<le> m_i m" "j \<le> m_j m" "m_i m + m_size m \<le> length a" "m_j m + m_size m \<le> length rows"
    by (auto simp: block_ok_def)
  let ?c = "c\<lparr>deletions := foldl (\<lambda>s k. is_add s (lr_tv (a ! k))) (deletions c) [i ..< m_i m],
              insertions := foldl (\<lambda>s k. is_add s (tv_index (rows ! k))) (insertions c) [j ..< m_j m]\<rparr>"
  have "max i (m_i m) = m_i m" "max j (m_j m) = m_j m" using le by auto
  then have step: "align_matches a rows (m # ns) i j c =
      align_matches a rows ns (m_i m + m_size m) (m_j m + m_size m) ?c" for ns
    by (simp add: Let_def)
  note d = foldl_is_add[OF Cons.prems(2), of "\<lambda>k. lr_tv (a ! k)" "[i ..< m_i m]"]
  note e = foldl_is_add[OF Cons.prems(3), of "\<lambda>k. tv_index (rows ! k)" "[j ..< m_j m]"]
  note IH = Cons.IH[OF ch, of ?c]
  note b = chain_blocks[OF ch]
  have "{i ..< length a} - set (blocks_i (m # ms)) = {i ..< m_i m} \<union> ({m_i m + m_size m ..< length a} - set (blocks_i ms))"
    "{j ..< length rows} - set (blocks_j (m # ms)) = {j ..< m_j m} \<union> ({m_j m + m_size m ..< length rows} - set (blocks_j ms))"
    using gap_split[OF le(1,3)] gap_split[OF le(2,4)] b by simp_all
  then show ?case
    unfolding append_Cons step using IH d e by (simp add: image_Un Un_assoc)
qed

lemma first_difference_agrees:
  assumes "first_difference xs rows i = fd"
  shows "fd = npos \<and> (\<forall>k < length xs. lr_row (xs ! k) = row_index (rows ! (i + k))) \<or>
    i \<le> fd \<and> fd - i < length xs \<and> (\<forall>k < fd - i. lr_row (xs ! k) = row_index (rows ! (i + k)))"
  using assms
proof (induction xs arbitrary: i)
  case (Cons x xs)
  show ?case
  proof (cases "lr_row x = row_index (rows ! i)")
    case True
    then have "first_difference xs rows (Suc i) = fd" using Cons.prems by simp
    from Cons.IH[OF this] show ?thesis
    proof
      assume "fd = npos \<and> (\<forall>k < length xs. lr_row (xs ! k) = row_index (rows ! (Suc i + k)))"
      then show ?thesis using True by (auto simp: nth_Cons split: nat.splits)
    next
      assume r: "Suc i \<le> fd \<and> fd - Suc i < length xs \<and>
        (\<forall>k < fd - Suc i. lr_row (xs ! k) = row_index (rows ! (Suc i + k)))"
      then have "lr_row ((x # xs) ! k) = row_index (rows ! (i + k))" if "k < fd - i" for k
        using True that by (cases k) auto
      then show ?thesis using r by auto
    qed
  qed (use Cons.prems in auto)
qed simp

section \<open>calculate\<close>

definition old_order :: "row_info list \<Rightarrow> lcs_row list" where
  "old_order rows =
     sort_key (\<lambda>r. (lr_tv r, lr_row r)) (map (\<lambda>r. \<lparr>lr_row = row_index r, lr_tv = prev_tv_index r\<rparr>) rows)"

lemma old_order_props:
  assumes "distinct (map prev_tv_index rows)"
  shows "length (old_order rows) = length rows" and "sorted_wrt (<) (map lr_tv (old_order rows))"
    and "set (old_order rows) = (\<lambda>r. \<lparr>lr_row = row_index r, lr_tv = prev_tv_index r\<rparr>) ` set rows"
proof -
  let ?a = "old_order rows"
  show "length ?a = length rows" "set ?a = (\<lambda>r. \<lparr>lr_row = row_index r, lr_tv = prev_tv_index r\<rparr>) ` set rows"
    by (simp_all add: old_order_def)
  have "mset (map lr_tv ?a) = mset (map prev_tv_index rows)"
    unfolding old_order_def mset_map mset_sort by (simp add: multiset.map_comp comp_def flip: mset_map)
  then have d: "distinct (map lr_tv ?a)" using assms by (metis mset_eq_imp_distinct_iff)
  have "sorted (map (\<lambda>r. (lr_tv r, lr_row r)) ?a)" unfolding old_order_def by simp
  then have "sorted_wrt (\<lambda>x y. lr_tv x \<le> lr_tv y) ?a"
    unfolding sorted_map by (rule sorted_wrt_mono_rel[rotated]) (auto simp: less_eq_prod_def)
  then have "sorted (map lr_tv ?a)" by (simp add: sorted_map)
  then show "sorted_wrt (<) (map lr_tv ?a)" using d strict_sorted_iff by blast
qed

lemma calculate_moves_sorted_correct:
  assumes "length rows < npos" and "crv_wf (deletions c)" and "crv_wf (insertions c)"
    and "length a = length rows" and "a = old_order rows"
  defines "r \<equiv> calculate_moves_sorted rows c"
  shows "crv_wf (deletions r) \<and> crv_wf (insertions r) \<and> r = c\<lparr>deletions := deletions r, insertions := insertions r\<rparr> \<and>
    (\<exists>Ka Kb. sorted_wrt (<) Ka \<and> sorted_wrt (<) Kb \<and> set Ka \<subseteq> {..< length rows} \<and> set Kb \<subseteq> {..< length rows} \<and>
      map (\<lambda>k. lr_row (a ! k)) Ka = map (\<lambda>k. row_index (rows ! k)) Kb \<and>
      elems (deletions r) = elems (deletions c) \<union> (\<lambda>k. lr_tv (a ! k)) ` ({..< length rows} - set Ka) \<and>
      elems (insertions r) = elems (insertions c) \<union> (\<lambda>k. tv_index (rows ! k)) ` ({..< length rows} - set Kb))"
proof -
  let ?n = "length rows" and ?fd = "first_difference a rows 0"
  let ?b = "sort_key (\<lambda>r. (lr_row r, lr_tv r)) (map (\<lambda>i. \<lparr>lr_row = row_index (rows ! i), lr_tv = i\<rparr>) [0 ..< ?n])"
  have r: "r = (if ?fd = npos then c else align_matches a rows (longest_matches a ?b ?fd (modifications c)) ?fd ?fd c)"
    by (simp add: r_def calculate_moves_sorted_def assms(5) old_order_def Let_def)
  note fd = first_difference_agrees[OF refl, of a rows 0]
  show ?thesis
  proof (cases "?fd = npos")
    case True
    then have "\<forall>k < ?n. lr_row (a ! k) = row_index (rows ! k)" using fd assms(1,4) by auto
    then have "sorted_wrt (<) [0 ..< ?n] \<and> set [0 ..< ?n] \<subseteq> {..< ?n} \<and>
        map (\<lambda>k. lr_row (a ! k)) [0 ..< ?n] = map (\<lambda>k. row_index (rows ! k)) [0 ..< ?n] \<and>
        {..< ?n} - set [0 ..< ?n] = {}" by auto
    moreover have "r = c" using r True by simp
    ultimately show ?thesis
      using assms(2,3) by (intro conjI exI[of _ "[0 ..< ?n]"]) (simp_all add: atLeast0LessThan)
  next
    case False
    then have f: "?fd < ?n" "\<forall>k < ?fd. lr_row (a ! k) = row_index (rows ! k)" using fd assms(4) by auto
    let ?ms = "find_longest_matches a ?b (modifications c) ?fd ?n ?fd ?n"
    have "rows_table ?b rows" by (auto simp: rows_table_def)
    then have ch: "chain a rows ?fd ?fd ?n ?n ?ms" using find_longest_matches_chain f(1) by simp
    have lb: "length ?b = ?n" by simp
    have r': "r = align_matches a rows (?ms @ [\<lparr>m_i = length a, m_j = ?n, m_size = 0, m_modified = 0\<rparr>]) ?fd ?fd c"
      using r False unfolding longest_matches_def assms(4) lb by simp
    have al: "crv_wf (deletions r)" "crv_wf (insertions r)"
      "elems (deletions r) = elems (deletions c) \<union> (\<lambda>k. lr_tv (a ! k)) ` ({?fd ..< ?n} - set (blocks_i ?ms))"
      "elems (insertions r) = elems (insertions c) \<union> (\<lambda>k. tv_index (rows ! k)) ` ({?fd ..< ?n} - set (blocks_j ?ms))"
      "r = c\<lparr>deletions := deletions r, insertions := insertions r\<rparr>"
      using align_correct[of a rows ?fd ?fd ?ms c] ch assms(2,3) unfolding assms(4) r' by blast+
    note bl = chain_blocks[OF ch]
    let ?Ka = "[0 ..< ?fd] @ blocks_i ?ms" and ?Kb = "[0 ..< ?fd] @ blocks_j ?ms"
    have srt: "sorted_wrt (<) ?Ka" "sorted_wrt (<) ?Kb"
      using bl by (auto simp: sorted_wrt_append subset_iff)
    have sub: "set ?Ka \<subseteq> {..< ?n}" "set ?Kb \<subseteq> {..< ?n}" using bl f(1) by auto
    have gap: "{?fd ..< ?n} - set (blocks_i ?ms) = {..< ?n} - set ?Ka"
      "{?fd ..< ?n} - set (blocks_j ?ms) = {..< ?n} - set ?Kb"
      by auto
    have "map (\<lambda>k. lr_row (a ! k)) ?Ka = map (\<lambda>k. row_index (rows ! k)) ?Kb" using bl f(2) by simp
    then show ?thesis
      using al(1,2,5) srt sub al(3,4)[unfolded gap] by blast
  qed
qed

text \<open>The rows in both results, with the positions they have in each, and the rest of the positions.\<close>

definition common_rows :: "nat list \<Rightarrow> nat list \<Rightarrow> row_info list \<Rightarrow> nat set \<Rightarrow> nat set \<Rightarrow> bool" where
  "common_rows P N rows R I \<longleftrightarrow>
     sorted_wrt (<) (map tv_index rows) \<and> distinct (map prev_tv_index rows) \<and>
     (\<forall>r \<in> set rows. P ! prev_tv_index r = row_index r \<and> N ! tv_index r = row_index r) \<and>
     {p. p < length P \<and> P ! p \<noteq> npos} = prev_tv_index ` set rows \<union> R \<and> prev_tv_index ` set rows \<inter> R = {} \<and>
     {..< length N} = tv_index ` set rows \<union> I \<and> tv_index ` set rows \<inter> I = {}"

lemma zip_upt_row: "(p, r) \<in> set (zip [0 ..< length rs] rs) \<longleftrightarrow> p < length rs \<and> rs ! p = r"
  by (force simp: set_zip)

lemma distinct_zip_upt: "distinct (map fst (filter Q (zip [0 ..< length rs] rs)))"
  by (rule distinct_map_filter) simp

lemma joined_common:
  assumes "length P < npos" and "map tv_row old = filter (\<lambda>p. snd p \<noteq> npos) (zip [0 ..< length P] P)"
    and "joined (sort_key row_index old) (sort_key row_index (new_rows_loop N 0)) rs us vs"
  shows "common_rows P N (sort_key tv_index (paired rs)) (set us) (set vs)"
proof -
  let ?new = "new_rows_loop N 0" and ?rows = "sort_key tv_index (paired rs)"
  note j = joined_partition[OF assms(3)]
  have tv: "map tv_index xs = map fst (map tv_row xs)" for xs by (simp add: tv_row_def)
  have s: "tv_index ` set xs = fst ` set (map tv_row xs)" for xs by (simp add: image_image tv_row_def)
  have "set (filter (\<lambda>p. snd p \<noteq> npos) (zip [0 ..< length P] P)) = {(p, P ! p) | p. p < length P \<and> P ! p \<noteq> npos}"
    by (auto simp: zip_upt_row)
  then have old: "distinct (map tv_index old)" "tv_index ` set old = {p. p < length P \<and> P ! p \<noteq> npos}"
    unfolding tv[of old] s[of old] assms(2) using distinct_zip_upt[of _ P] by (auto simp: image_iff)
  have new: "distinct (map tv_index ?new)" "tv_index ` set ?new = {..< length N}"
    unfolding tv[of ?new] s[of ?new] new_rows_tv by (auto simp flip: set_map)
  have row: "P ! tv_index q = row_index q" if "q \<in> set old" for q
  proof -
    have "tv_row q \<in> set (filter (\<lambda>p. snd p \<noteq> npos) (zip [0 ..< length P] P))"
      using that unfolding assms(2)[symmetric] by simp
    then show ?thesis by (simp add: tv_row_def zip_upt_row)
  qed
  have row': "N ! tv_index q = row_index q" if "q \<in> set ?new" for q
  proof -
    have "tv_row q \<in> set (zip [0 ..< length N] N)" using that new_rows_tv[of N 0] by (metis add_0 image_eqI list.set_map)
    then show ?thesis by (simp add: tv_row_def zip_upt_row)
  qed
  have m1: "mset (map tv_index old) = mset (map prev_tv_index (paired rs) @ us)"
    and m2: "mset (map tv_index ?new) = mset (map tv_index (paired rs) @ vs)"
    using j(1,2) by (simp_all add: mset_map)
  have d1: "distinct (map prev_tv_index (paired rs) @ us)" "distinct (map tv_index (paired rs) @ vs)"
    using old(1) new(1) mset_eq_imp_distinct_iff[OF m1] mset_eq_imp_distinct_iff[OF m2] by auto
  have s1: "tv_index ` set old = prev_tv_index ` set (paired rs) \<union> set us"
    "tv_index ` set ?new = tv_index ` set (paired rs) \<union> set vs"
    using mset_eq_setD[OF m1] mset_eq_setD[OF m2] by simp_all
  have "mset (map prev_tv_index ?rows) = mset (map prev_tv_index (paired rs))"
    "mset (map tv_index ?rows) = mset (map tv_index (paired rs))" by (simp_all add: mset_map)
  then have dr: "distinct (map prev_tv_index ?rows)" "distinct (map tv_index ?rows)"
    using d1 by (metis distinct_append mset_eq_imp_distinct_iff)+
  have "sorted (map tv_index ?rows)" by simp
  then have "sorted_wrt (<) (map tv_index ?rows)" using dr(2) strict_sorted_iff by blast
  moreover have "P ! prev_tv_index r = row_index r \<and> N ! tv_index r = row_index r" if "r \<in> set (paired rs)" for r
    using j(3,4) that row row' by (metis set_sort)
  ultimately show ?thesis
    using dr(1) s1 old(2) new(2) d1 by (simp add: common_rows_def)
qed

lemma kept_partition:
  assumes "U = A \<union> R \<union> Z" and "A \<inter> R = {}" and "A \<inter> Z = {}"
  shows "A - L = U - (Z \<union> R \<union> L)"
  using assms by blast

text \<open>What is kept after the two orders are aligned is the same on both sides.\<close>

lemma aligned_same_kept:
  assumes cr: "common_rows P N rows R I"
    and K: "sorted_wrt (<) Ka" "sorted_wrt (<) Kb" "set Ka \<subseteq> {..< length rows}" "set Kb \<subseteq> {..< length rows}"
    and eq: "map (\<lambda>k. lr_row (old_order rows ! k)) Ka = map (\<lambda>k. row_index (rows ! k)) Kb"
    and D: "D = {p. p < length P \<and> P ! p = npos} \<union> R \<union> (\<lambda>k. lr_tv (old_order rows ! k)) ` ({..< length rows} - set Ka)"
    and J: "J = I \<union> (\<lambda>k. tv_index (rows ! k)) ` ({..< length rows} - set Kb)"
  shows "same_kept D J P N" and "D \<subseteq> {..< length P}" and "J \<subseteq> {..< length N}"
proof -
  let ?a = "old_order rows"
  note cr' = cr[unfolded common_rows_def]
  have "distinct (map prev_tv_index rows)" using cr' by simp
  note a = old_order_props[OF this]
  have len: "length ?a = length rows" and sa: "sorted_wrt (<) (map lr_tv ?a)"
    and seta: "set ?a = (\<lambda>r. \<lparr>lr_row = row_index r, lr_tv = prev_tv_index r\<rparr>) ` set rows"
    by (rule a)+
  have mono: "sorted_wrt (<) (map (\<lambda>k. f (xs ! k)) ks)"
    if "sorted_wrt (<) (map f xs)" "sorted_wrt (<) ks" "set ks \<subseteq> {..< length xs}" for f :: "'b \<Rightarrow> nat" and xs ks
    using that by (auto simp: sorted_wrt_iff_nth_less subset_iff)
  have inj: "f (xs ! k) = f (xs ! l) \<longleftrightarrow> k = l" if "sorted_wrt (<) (map f xs)" "k < length xs" "l < length xs"
    for f :: "'b \<Rightarrow> nat" and xs k l
    using that nth_eq_iff_index_eq[of "map f xs" k l] strict_sorted_iff[of "map f xs"] by auto
  have ta: "(\<lambda>k. lr_tv (?a ! k)) ` {..< length rows} = prev_tv_index ` set rows"
  proof -
    have "(\<lambda>k. lr_tv (?a ! k)) ` {..< length rows} = lr_tv ` set ?a"
      using len by (auto simp: set_conv_nth)
    then show ?thesis unfolding seta by (simp add: image_image)
  qed
  have tb: "(\<lambda>k. tv_index (rows ! k)) ` {..< length rows} = tv_index ` set rows"
    by (auto simp: set_conv_nth)
  have split: "f ` K = f ` A - f ` (A - K)" if "inj_on f A" "K \<subseteq> A" for f :: "nat \<Rightarrow> nat" and A K
    using that by (auto simp: inj_on_def)
  have ia: "inj_on (\<lambda>k. lr_tv (?a ! k)) {..< length rows}" using inj[OF sa] len by (auto simp: inj_on_def)
  have ib: "inj_on (\<lambda>k. tv_index (rows ! k)) {..< length rows}"
    using inj[of tv_index rows] cr' by (auto simp: inj_on_def)
  have cover: "{..< length P} = prev_tv_index ` set rows \<union> R \<union> {p. p < length P \<and> P ! p = npos}"
    using cr' by auto
  have apart: "prev_tv_index ` set rows \<inter> {p. p < length P \<and> P ! p = npos} = {}" using cr' by auto
  have old: "nths P (- D) = map ((!) P) (map (\<lambda>k. lr_tv (?a ! k)) Ka)"
  proof (rule nths_positions)
    show "sorted_wrt (<) (map (\<lambda>k. lr_tv (?a ! k)) Ka)" using mono[OF sa K(1)] K(3) len by simp
    show "set (map (\<lambda>k. lr_tv (?a ! k)) Ka) = {..< length P} - D"
      unfolding set_map split[OF ia K(3)] ta D
      by (rule kept_partition[OF cover _ apart]) (use cr' in simp)
  qed
  have new: "nths N (- J) = map ((!) N) (map (\<lambda>k. tv_index (rows ! k)) Kb)"
  proof (rule nths_positions)
    show "sorted_wrt (<) (map (\<lambda>k. tv_index (rows ! k)) Kb)" using mono[of tv_index rows Kb] cr' K(2,4) by simp
    show "set (map (\<lambda>k. tv_index (rows ! k)) Kb) = {..< length N} - J"
      using kept_partition[of "{..< length N}" "tv_index ` set rows" I "{}"] cr'
      unfolding set_map split[OF ib K(4)] tb J by simp
  qed
  have "map ((!) P) (map (\<lambda>k. lr_tv (?a ! k)) Ka) = map (\<lambda>k. lr_row (?a ! k)) Ka"
  proof (simp, intro ballI)
    fix k assume "k \<in> set Ka"
    then have "?a ! k \<in> set ?a" using K(3) len by auto
    then show "P ! lr_tv (?a ! k) = lr_row (?a ! k)" unfolding seta using cr' by auto
  qed
  moreover have "map ((!) N) (map (\<lambda>k. tv_index (rows ! k)) Kb) = map (\<lambda>k. row_index (rows ! k)) Kb"
    using K(4) cr' by auto
  ultimately show "same_kept D J P N" using old new eq by (simp add: same_kept_def)
  have "(\<lambda>k. lr_tv (?a ! k)) ` ({..< length rows} - set Ka) \<subseteq> prev_tv_index ` set rows"
    "(\<lambda>k. tv_index (rows ! k)) ` ({..< length rows} - set Kb) \<subseteq> tv_index ` set rows" using ta tb by auto
  moreover have "{p. p < length P \<and> P ! p = npos} \<union> R \<union> prev_tv_index ` set rows = {..< length P}"
    unfolding cover by blast
  moreover have "I \<union> tv_index ` set rows = {..< length N}" using cr' by auto
  ultimately show "D \<subseteq> {..< length P}" "J \<subseteq> {..< length N}" unfolding D J by blast+
qed

lemma changed_marks:
  "crv_wf s \<Longrightarrow> crv_wf (foldl (\<lambda>s r. if f (row_index r) then is_add s (tv_index r) else s) s rows) \<and>
     elems (foldl (\<lambda>s r. if f (row_index r) then is_add s (tv_index r) else s) s rows) =
       elems s \<union> tv_index ` {r \<in> set rows. f (row_index r)}"
  by (induction rows arbitrary: s) (auto simp: is_add_wf is_add_elems)

theorem calculate_correct:
  assumes "length P < npos" and "length N < npos"
  shows "describes (calculate P N f None) P N"
    and "moves (calculate P N f None) = []"
    and "\<And>t. t < length N \<Longrightarrow> t \<notin> elems (insertions (calculate P N f None)) \<Longrightarrow>
      t \<in> elems (modifications (calculate P N f None)) \<longleftrightarrow> f (N ! t)"
    and "elems (modifications (calculate P N f None)) \<subseteq> {t. t < length N \<and> f (N ! t)}"
proof -
  let ?c = "calculate P N f None"
  obtain old del where o: "old_rows_loop P 0 0 [] = (old, del)" by (cases "old_rows_loop P 0 0 []")
  note op = old_rows_correct[OF o crv_wf_Nil, simplified]
  obtain rs rem ins where jn: "join_rows (sort_key row_index old) (sort_key row_index (new_rows_loop N 0)) [] [] = (rs, rem, ins)"
    by (cases "join_rows (sort_key row_index old) (sort_key row_index (new_rows_loop N 0)) [] []") auto
  have "tv_index r < npos" if "r \<in> set old" for r
  proof -
    have "tv_row r \<in> set (filter (\<lambda>p. snd p \<noteq> npos) (zip [0 ..< length P] P))"
      using op that by (metis image_eqI list.set_map)
    then show ?thesis using assms(1) by (simp add: tv_row_def zip_upt_row)
  qed
  then obtain us vs where j: "joined (sort_key row_index old) (sort_key row_index (new_rows_loop N 0)) rs us vs"
    "rem = foldl is_add [] us" "ins = foldl is_add [] vs"
    using join_rows_joined[OF jn] new_rows_prev by auto
  let ?rows = "sort_key tv_index (paired rs)"
  have cr: "common_rows P N ?rows (set us) (set vs)" by (rule joined_common[OF assms(1) _ j(1)]) (use op in simp)
  let ?m = "foldl (\<lambda>s r. if f (row_index r) then is_add s (tv_index r) else s) [] ?rows"
  let ?r1 = "(builder_of [] [] [] [])\<lparr>deletions := del, insertions := ins, modifications := ?m\<rparr>"
  let ?s = "calculate_moves_sorted ?rows ?r1"
  have c: "?c = ?s\<lparr>deletions := is_add_all (deletions ?s) rem\<rparr>"
    by (simp add: calculate_def Let_def builder_of_def o jn paired_def)
  have wf: "crv_wf rem" "elems rem = set us" "crv_wf ins" "elems ins = set vs"
    using foldl_is_add[OF crv_wf_Nil, of id us] foldl_is_add[OF crv_wf_Nil, of id vs] j(2,3) by simp_all
  have del: "crv_wf del" "elems del = {p. p < length P \<and> P ! p = npos}"
    using op by (auto simp: zip_upt_row image_iff) 
  note m = changed_marks[OF crv_wf_Nil, of f ?rows]
  have "card (set (map tv_index ?rows)) = length ?rows"
    using cr distinct_card[of "map tv_index ?rows"] strict_sorted_iff[of "map tv_index ?rows"]
    by (simp add: common_rows_def)
  moreover have "set (map tv_index ?rows) \<subseteq> {..< length N}" using cr by (auto simp: common_rows_def)
  ultimately have "length ?rows \<le> length N" by (metis card_lessThan card_mono finite_lessThan)
  then have len: "length ?rows < npos" using assms(2) by simp
  have la: "length (old_order ?rows) = length ?rows" by (simp add: old_order_def)
  obtain Ka Kb where k: "crv_wf (deletions ?s)" "crv_wf (insertions ?s)"
    "?s = ?r1\<lparr>deletions := deletions ?s, insertions := insertions ?s\<rparr>"
    "sorted_wrt (<) Ka" "sorted_wrt (<) Kb" "set Ka \<subseteq> {..< length ?rows}" "set Kb \<subseteq> {..< length ?rows}"
    "map (\<lambda>k. lr_row (old_order ?rows ! k)) Ka = map (\<lambda>k. row_index (?rows ! k)) Kb"
    "elems (deletions ?s) = elems del \<union> (\<lambda>k. lr_tv (old_order ?rows ! k)) ` ({..< length ?rows} - set Ka)"
    "elems (insertions ?s) = elems ins \<union> (\<lambda>k. tv_index (?rows ! k)) ` ({..< length ?rows} - set Kb)"
    using calculate_moves_sorted_correct[OF len _ _ la refl, of ?r1] del(1) wf(3) by auto
  have D: "elems (deletions ?c) = {p. p < length P \<and> P ! p = npos} \<union> set us \<union>
      (\<lambda>k. lr_tv (old_order ?rows ! k)) ` ({..< length ?rows} - set Ka)" "crv_wf (deletions ?c)"
    using is_add_all_correct[OF k(1) wf(1)] k(9) del(2) wf(2) unfolding c by auto
  have J: "elems (insertions ?c) = set vs \<union> (\<lambda>k. tv_index (?rows ! k)) ` ({..< length ?rows} - set Kb)"
    "crv_wf (insertions ?c)" using k(2,10) wf(4) unfolding c by auto
  note sk = aligned_same_kept[OF cr k(4-8) D(1) J(1)]
  have sel: "moves ?c = []" "move_mapping ?c = []" "columns ?c = []" "modifications ?c = ?m"
    unfolding c by (subst k(3), simp add: builder_of_def)+
  then show "moves ?c = []" by simp
  show "describes ?c P N"
    using sk D(2) J(2) m sel
    by (simp add: describes_def sets_ok_def known_moves_def diff_ok_def)
  have em: "elems (modifications ?c) = tv_index ` {r \<in> set ?rows. f (row_index r)}" using m sel by simp
  show "elems (modifications ?c) \<subseteq> {t. t < length N \<and> f (N ! t)}"
    unfolding em using cr by (auto simp: common_rows_def)
  show "t \<in> elems (modifications ?c) \<longleftrightarrow> f (N ! t)"
    if "t < length N" "t \<notin> elems (insertions ?c)" for t
  proof -
    have "t \<in> tv_index ` set ?rows" using that cr unfolding J(1) by (auto simp: common_rows_def)
    then obtain r where r: "r \<in> set ?rows" "t = tv_index r" "N ! t = row_index r"
      using cr by (auto simp: common_rows_def)
    have n: "N ! tv_index q = row_index q" if "q \<in> set ?rows" for q using cr that by (auto simp: common_rows_def)
    show ?thesis
    proof
      assume "t \<in> elems (modifications ?c)"
      then obtain q where "q \<in> set ?rows" "t = tv_index q" "f (row_index q)" unfolding em by blast
      then show "f (N ! t)" using n by metis
    next
      assume "f (N ! t)"
      then show "t \<in> elems (modifications ?c)" unfolding em using r by auto
    qed
  qed
qed

end
