(* ===== verification/ChangeCalculateProps.thy ===== *)
theory ChangeCalculateProps
  imports ChangeCalculateCorrect "HOL-Library.Code_Target_Nat"
begin

text \<open>The properties of \<open>calculate\<close>.\<close>

section \<open>Rows in any order\<close>

text \<open>
  C9. For results in any order, with or without duplicates, \<open>calculate\<close> returns deletions and
  insertions that turn the old list of rows into the new one; a row that is not an insertion is marked
  as modified exactly if the caller says that it changed, and nothing else is marked.
\<close>

theorem calculate_describes:
  assumes "length P < npos" and "length N < npos"
  shows "describes (calculate P N f None) P N \<and>
    elems (modifications (calculate P N f None)) - elems (insertions (calculate P N f None)) =
      {t. t < length N \<and> f (N ! t)} - elems (insertions (calculate P N f None))"
  using calculate_correct[OF assms] by blast

lemma calculate_describes_witness:
  "describes (calculate [1, 2, npos, 3, 4] [2, 1, 3, 5, 4] (\<lambda>r. r = 3) None) [1, 2, npos, 3, 4] [2, 1, 3, 5, 4]"
proof -
  have "length [1, 2, npos, 3, 4] < npos" "length [2 :: nat, 1, 3, 5, 4] < npos" by (simp_all add: npos_def)
  from calculate_describes[OF this] show ?thesis by blast
qed

definition sample_old :: "lcs_row list" where
  "sample_old = map (\<lambda>i. \<lparr>lr_row = i + 1, lr_tv = i\<rparr>) [0 ..< 9]"

definition sample_new :: "lcs_row list" where
  "sample_new = sort_key lr_row
     (map (\<lambda>i. \<lparr>lr_row = [3, 9, 5, 7, 8, 6, 2, 1, 4] ! i, lr_tv = i\<rparr>) [0 ..< 9])"

text \<open>
  The search for matches gives up too early: its last condition compares the end of a match in the
  old order with the end of the range of the new order. For the old order 1 to 9 and the new order
  below it finds the blocks of row 3 and of the rows 7, 8 and nothing between them, although row 5 lies
  between the two blocks in both orders.
\<close>

theorem longest_matches_misses_row:
  "map (\<lambda>m. (m_i m, m_j m, m_size m)) (longest_matches sample_old sample_new 0 []) =
     [(2, 0, 1), (6, 3, 2), (9, 9, 0)] \<and>
   lr_row (sample_old ! 4) = 5 \<and> \<lparr>lr_row = 5, lr_tv = 2\<rparr> \<in> set sample_new"
proof -
  have len: "length sample_old = 9" "length sample_new = 9" by (simp_all add: sample_old_def sample_new_def)
  have 1: "find_longest_match sample_old sample_new [] 0 9 0 9 =
      \<lparr>m_i = 6, m_j = 3, m_size = 2, m_modified = npos\<rparr>" by code_simp
  have 2: "find_longest_match sample_old sample_new [] 0 6 0 3 =
      \<lparr>m_i = 2, m_j = 0, m_size = 1, m_modified = 0\<rparr>" by code_simp
  have 3: "m_size (find_longest_match sample_old sample_new [] 8 9 5 9) = 0" by code_simp
  have r: "find_longest_matches sample_old sample_new [] 8 9 5 9 = []"
    by (subst find_longest_matches.simps) (simp add: 3 Let_def)
  have l: "find_longest_matches sample_old sample_new [] 0 6 0 3 = [\<lparr>m_i = 2, m_j = 0, m_size = 1, m_modified = 0\<rparr>]"
    by (subst find_longest_matches.simps) (simp add: 2 Let_def)
  have "find_longest_matches sample_old sample_new [] 0 9 0 9 =
      [\<lparr>m_i = 2, m_j = 0, m_size = 1, m_modified = 0\<rparr>, \<lparr>m_i = 6, m_j = 3, m_size = 2, m_modified = npos\<rparr>]"
    by (subst find_longest_matches.simps) (simp add: 1 l r Let_def)
  moreover have "lr_row (sample_old ! 4) = 5 \<and> \<lparr>lr_row = 5, lr_tv = 2\<rparr> \<in> set sample_new" by code_simp
  ultimately show ?thesis by (simp add: longest_matches_def len)
qed

section \<open>Rows in table order\<close>

lemma unsorted_moves:
  assumes "calculate_moves_unsorted rows expected removed cand c = (removed', c')"
    and "crv_wf removed" and "crv_wf (insertions c)"
    and "\<forall>m \<in> set (moves c). mv_from m \<in> elems removed \<and> mv_to m \<in> elems (insertions c)"
  shows "crv_wf removed' \<and> crv_wf (insertions c') \<and> deletions c' = deletions c \<and>
    (\<forall>m \<in> set (moves c'). mv_from m \<in> elems removed' \<and> mv_to m \<in> elems (insertions c'))"
  using assms
proof (induction rows expected removed cand c rule: calculate_moves_unsorted.induct)
  case (1 expected removed candidates c)
  then show ?case by simp
next
  case (2 row rows expected removed candidates c)
  let ?calc = "sub_size (tv_index row) (is_count (insertions c) 0 (tv_index row)) +
              is_count removed 0 (prev_tv_index row)"
  consider (e) "shifted_tv_index row = expected"
    | (n) "shifted_tv_index row \<noteq> expected" "\<not> is_contains candidates (row_index row)"
    | (c) "shifted_tv_index row \<noteq> expected" "is_contains candidates (row_index row)" "shifted_tv_index row = ?calc"
    | (m) "shifted_tv_index row \<noteq> expected" "is_contains candidates (row_index row)" "shifted_tv_index row \<noteq> ?calc"
    by blast
  then show ?case
  proof cases
    case m
    let ?c = "c\<lparr>moves := moves c @ [\<lparr>mv_from = prev_tv_index row, mv_to = tv_index row\<rparr>],
                insertions := is_add (insertions c) (tv_index row)\<rparr>"
    have r: "calculate_moves_unsorted rows expected (is_add removed (prev_tv_index row)) candidates ?c = (removed', c')"
      using 2(5) m by (simp add: Let_def)
    have "\<forall>mv \<in> set (moves ?c). mv_from mv \<in> elems (is_add removed (prev_tv_index row)) \<and>
        mv_to mv \<in> elems (insertions ?c)"
      using 2(8) by (auto simp: is_add_elems[OF 2(6)] is_add_elems[OF 2(7)])
    then show ?thesis
      using 2(4)[OF m(1) _ refl m(3) r] m(2) is_add_wf[OF 2(6)] is_add_wf[OF 2(7)] by simp
  qed (use 2 in \<open>simp_all add: Let_def\<close>)
qed

text \<open>
  For results in table order every reported move starts at a deletion and ends at an insertion:
  \<open>verify()\<close> holds at the end of \<open>calculate\<close> whatever the move candidates are.
\<close>

theorem calculate_table_order_verify: "verify_moves (calculate P N f (Some candidates))"
proof -
  let ?c = "calculate P N f (Some candidates)"
  obtain old del where o: "old_rows_loop P 0 0 [] = (old, del)" by (cases "old_rows_loop P 0 0 []")
  have del: "crv_wf del" using old_rows_correct[OF o crv_wf_Nil] by blast
  obtain rs rem ins where jn: "join_rows (sort_key row_index old) (sort_key row_index (new_rows_loop N 0)) [] [] = (rs, rem, ins)"
    by (cases "join_rows (sort_key row_index old) (sort_key row_index (new_rows_loop N 0)) [] []") auto
  have wf: "crv_wf rem' \<and> crv_wf ins'" if "join_rows a b r i = (rs', rem', ins')" "crv_wf r" "crv_wf i"
    for a b r i rs' rem' ins'
    using that
    by (induction a b r i arbitrary: rs' rem' ins' rule: join_rows.induct)
      (auto simp: is_add_wf split: prod.splits if_splits)
  note w = wf[OF jn crv_wf_Nil crv_wf_Nil]
  let ?rows = "sort_key tv_index (filter (\<lambda>r. prev_tv_index r \<noteq> npos) rs)"
  let ?m = "foldl (\<lambda>s r. if f (row_index r) then is_add s (tv_index r) else s) [] ?rows"
  let ?r1 = "(builder_of [] [] [] [])\<lparr>deletions := del, insertions := ins, modifications := ?m\<rparr>"
  obtain rem' c' where u: "calculate_moves_unsorted ?rows 0 rem candidates ?r1 = (rem', c')"
    by (cases "calculate_moves_unsorted ?rows 0 rem candidates ?r1")
  have c: "?c = c'\<lparr>deletions := is_add_all (deletions c') rem'\<rparr>"
    using u by (simp add: calculate_def Let_def builder_of_def o jn)
  have v: "crv_wf rem'" "crv_wf (insertions c')" "deletions c' = del"
    "\<forall>m \<in> set (moves c'). mv_from m \<in> elems rem' \<and> mv_to m \<in> elems (insertions c')"
    using unsorted_moves[OF u] w by (simp_all add: builder_of_def)
  show ?thesis
    using v del is_add_all_correct[OF del v(1)] unfolding c by (simp add: verify_moves_def contains_iff)
qed

end
