(* ===== verification/SafeInt.thy ===== *)
theory SafeInt
  imports Prelude
begin

text \<open>
  \<open>util/safe_int_ops.hpp\<close>: comparison and overflow-checked arithmetic on integers of different widths
  and signedness. An integer type is given by \<open>numeric_limits\<close>: its value digits and whether it is
  signed. Values are mathematical integers, reduced where the code converts to an unsigned type. In
  the four templates \<open>cu\<close> is the number of digits of the common unsigned type, which the public
  functions pick with \<open>FastestUnsigned\<close>.
\<close>

section \<open>Integer types\<close>

text \<open>The widths are those of the 64 bit targets.\<close>

record int_type =
  digits :: nat
  is_signed :: bool

definition int_t :: int_type where
  "int_t = \<lparr>digits = 31, is_signed = True\<rparr>"

definition int64_type :: int_type where
  "int64_type = \<lparr>digits = 63, is_signed = True\<rparr>"

definition size_type :: int_type where
  "size_type = \<lparr>digits = 64, is_signed = False\<rparr>"

definition char_type :: int_type where
  "char_type = \<lparr>digits = 7, is_signed = True\<rparr>"

lemmas int_types = int_t_def int64_type_def size_type_def char_type_def

definition lim_max :: "int_type \<Rightarrow> int" where
  "lim_max t = 2 ^ digits t - 1"

definition lim_min :: "int_type \<Rightarrow> int" where
  "lim_min t = (if is_signed t then - (2 ^ digits t) else 0)"

definition in_type :: "int_type \<Rightarrow> int \<Rightarrow> bool" where
  "in_type t x \<longleftrightarrow> lim_min t \<le> x \<and> x \<le> lim_max t"

definition is_negative :: "int_type \<Rightarrow> int \<Rightarrow> bool" where
  "is_negative t x \<longleftrightarrow> (if is_signed t then x < 0 else False)"

text \<open>The conversion to an unsigned type of \<open>k\<close> digits; \<open>bool\<close> is the case of one digit.\<close>

definition cast_to_unsigned :: "nat \<Rightarrow> int \<Rightarrow> int" where
  "cast_to_unsigned k x = x mod 2 ^ k"

definition needed_bits :: "int_type \<Rightarrow> int_type \<Rightarrow> nat" where
  "needed_bits L R =
     max (digits L + (if is_signed L then 1 else 0)) (digits R + (if is_signed R then 1 else 0))"

definition machine_type :: "int_type \<Rightarrow> bool" where
  "machine_type t \<longleftrightarrow> digits t + (if is_signed t then 1 else 0) \<le> 64"

text \<open>The choice of the common unsigned type (\<open>util/type_traits.hpp\<close>): the first of \<open>unsigned char\<close>,
  \<open>short\<close>, \<open>int\<close>, \<open>long\<close> and \<open>long long\<close> with enough digits, but at least \<open>unsigned int\<close>. The widths are
  those of the 64 bit targets; no type is an error at compile time.\<close>

definition least_unsigned :: "nat \<Rightarrow> nat option" where
  "least_unsigned bits = List.find (\<lambda>d. d \<ge> bits) [8, 16, 32, 64, 64]"

definition fastest_unsigned :: "nat \<Rightarrow> nat" where
  "fastest_unsigned bits = (case least_unsigned bits of None \<Rightarrow> 0 | Some d \<Rightarrow> if 32 \<ge> d then 32 else d)"

definition common_digits :: "int_type \<Rightarrow> int_type \<Rightarrow> nat" where
  "common_digits L R = fastest_unsigned (needed_bits L R)"

definition from_twos_compl :: "int_type \<Rightarrow> nat \<Rightarrow> int \<Rightarrow> int" where
  "from_twos_compl To cu x =
     (if \<not> is_signed To then x mod 2 ^ digits To
      else if x < 2 ^ (cu - 1) then x
      else - 1 - (2 ^ cu - 1 - x))"

section \<open>Both unsigned\<close>

definition uu_equal :: "nat \<Rightarrow> int \<Rightarrow> int \<Rightarrow> bool" where
  "uu_equal cu l r \<longleftrightarrow> cast_to_unsigned cu l = cast_to_unsigned cu r"

definition uu_less :: "nat \<Rightarrow> int \<Rightarrow> int \<Rightarrow> bool" where
  "uu_less cu l r \<longleftrightarrow> cast_to_unsigned cu l < cast_to_unsigned cu r"

definition uu_add :: "int_type \<Rightarrow> nat \<Rightarrow> int \<Rightarrow> int \<Rightarrow> bool \<times> int" where
  "uu_add L cu l r =
     (let l2 = cast_to_unsigned (digits L) (l + r)
      in if cast_to_unsigned cu l2 < cast_to_unsigned cu r then (True, l) else (False, l2))"

definition uu_sub :: "int_type \<Rightarrow> nat \<Rightarrow> int \<Rightarrow> int \<Rightarrow> bool \<times> int" where
  "uu_sub L cu l r =
     (let l2 = cast_to_unsigned cu (cast_to_unsigned cu l - cast_to_unsigned cu r)
      in if l2 > cast_to_unsigned cu l then (True, l) else (False, cast_to_unsigned (digits L) l2))"

section \<open>Unsigned and signed\<close>

definition us_equal :: "int_type \<Rightarrow> int_type \<Rightarrow> int \<Rightarrow> int \<Rightarrow> bool" where
  "us_equal L R l r \<longleftrightarrow>
     (if digits L > digits R then r \<ge> 0 \<and> l = cast_to_unsigned (digits L) r else l = r)"

definition us_less :: "int_type \<Rightarrow> int_type \<Rightarrow> int \<Rightarrow> int \<Rightarrow> bool" where
  "us_less L R l r \<longleftrightarrow>
     (if digits L > digits R then r \<ge> 0 \<and> l < cast_to_unsigned (digits L) r else l < r)"

definition us_add :: "int_type \<Rightarrow> nat \<Rightarrow> int \<Rightarrow> int \<Rightarrow> bool \<times> int" where
  "us_add L cu l r =
     (let l2 = cast_to_unsigned cu (l + cast_to_unsigned cu r);
          overflow = (if digits L < cu then l2 > lim_max L else (l2 < l) = (r \<ge> 0))
      in if overflow then (True, l) else (False, cast_to_unsigned (digits L) l2))"

definition us_sub :: "int_type \<Rightarrow> nat \<Rightarrow> int \<Rightarrow> int \<Rightarrow> bool \<times> int" where
  "us_sub L cu l r =
     (let l2 = cast_to_unsigned cu (l - cast_to_unsigned cu r);
          overflow = (if digits L < cu then l2 > lim_max L else (l2 > l) = (r \<ge> 0))
      in if overflow then (True, l) else (False, cast_to_unsigned (digits L) l2))"

section \<open>Signed and unsigned\<close>

definition su_equal :: "int_type \<Rightarrow> int_type \<Rightarrow> int \<Rightarrow> int \<Rightarrow> bool" where
  "su_equal L R l r \<longleftrightarrow>
     (if digits L < digits R then l \<ge> 0 \<and> cast_to_unsigned (digits R) l = r else l = r)"

definition su_less :: "int_type \<Rightarrow> int_type \<Rightarrow> int \<Rightarrow> int \<Rightarrow> bool" where
  "su_less L R l r \<longleftrightarrow>
     (if digits L < digits R then l < 0 \<or> cast_to_unsigned (digits R) l < r else l < r)"

definition su_add :: "int_type \<Rightarrow> nat \<Rightarrow> int \<Rightarrow> int \<Rightarrow> bool \<times> int" where
  "su_add L cu l r =
     (let max_add = cast_to_unsigned cu (cast_to_unsigned cu (lim_max L) - cast_to_unsigned cu l)
      in if cast_to_unsigned cu r > max_add then (True, l)
         else (False, from_twos_compl L cu (cast_to_unsigned cu (cast_to_unsigned cu l + r))))"

definition su_sub :: "int_type \<Rightarrow> nat \<Rightarrow> int \<Rightarrow> int \<Rightarrow> bool \<times> int" where
  "su_sub L cu l r =
     (let max_sub = cast_to_unsigned cu (cast_to_unsigned cu l - cast_to_unsigned cu (lim_min L))
      in if cast_to_unsigned cu r > max_sub then (True, l)
         else (False, from_twos_compl L cu (cast_to_unsigned cu (cast_to_unsigned cu l - r))))"

section \<open>Both signed\<close>

definition ss_add :: "int_type \<Rightarrow> int \<Rightarrow> int \<Rightarrow> bool \<times> int" where
  "ss_add L l r =
     (if r < 0 then if l < lim_min L - r then (True, l) else (False, l + r)
      else if l > lim_max L - r then (True, l) else (False, l + r))"

definition ss_sub :: "int_type \<Rightarrow> int \<Rightarrow> int \<Rightarrow> bool \<times> int" where
  "ss_sub L l r =
     (if r < 0 then if l > lim_max L + r then (True, l) else (False, l - r)
      else if l < lim_min L + r then (True, l) else (False, l - r))"

section \<open>The public functions\<close>

text \<open>They dispatch on the signedness of the two types; an operation with a check returns whether it
  overflowed and the new value of its first operand.\<close>

definition int_equal_to :: "int_type \<Rightarrow> int_type \<Rightarrow> int \<Rightarrow> int \<Rightarrow> bool" where
  "int_equal_to L R l r =
     (if is_signed L then if is_signed R then l = r else su_equal L R l r
      else if is_signed R then us_equal L R l r else uu_equal (common_digits L R) l r)"

definition int_less_than :: "int_type \<Rightarrow> int_type \<Rightarrow> int \<Rightarrow> int \<Rightarrow> bool" where
  "int_less_than L R l r =
     (if is_signed L then if is_signed R then l < r else su_less L R l r
      else if is_signed R then us_less L R l r else uu_less (common_digits L R) l r)"

definition int_not_equal_to :: "int_type \<Rightarrow> int_type \<Rightarrow> int \<Rightarrow> int \<Rightarrow> bool" where
  "int_not_equal_to A B a b \<longleftrightarrow> \<not> int_equal_to A B a b"

definition int_less_than_or_equal :: "int_type \<Rightarrow> int_type \<Rightarrow> int \<Rightarrow> int \<Rightarrow> bool" where
  "int_less_than_or_equal A B a b \<longleftrightarrow> \<not> int_less_than B A b a"

definition int_greater_than :: "int_type \<Rightarrow> int_type \<Rightarrow> int \<Rightarrow> int \<Rightarrow> bool" where
  "int_greater_than A B a b \<longleftrightarrow> int_less_than B A b a"

definition int_greater_than_or_equal :: "int_type \<Rightarrow> int_type \<Rightarrow> int \<Rightarrow> int \<Rightarrow> bool" where
  "int_greater_than_or_equal A B a b \<longleftrightarrow> \<not> int_less_than A B a b"

definition int_add_with_overflow_detect :: "int_type \<Rightarrow> int_type \<Rightarrow> int \<Rightarrow> int \<Rightarrow> bool \<times> int" where
  "int_add_with_overflow_detect L R l r =
     (if is_signed L then if is_signed R then ss_add L l r else su_add L (common_digits L R) l r
      else if is_signed R then us_add L (common_digits L R) l r else uu_add L (common_digits L R) l r)"

definition int_subtract_with_overflow_detect :: "int_type \<Rightarrow> int_type \<Rightarrow> int \<Rightarrow> int \<Rightarrow> bool \<times> int" where
  "int_subtract_with_overflow_detect L R l r =
     (if is_signed L then if is_signed R then ss_sub L l r else su_sub L (common_digits L R) l r
      else if is_signed R then us_sub L (common_digits L R) l r else uu_sub L (common_digits L R) l r)"

text \<open>The type of an arithmetic expression over operands of types \<open>A\<close> and \<open>B\<close>: both are promoted to
  \<open>int\<close> when they fit, and the wider one wins, the unsigned one when their ranks are equal.\<close>

definition promote :: "int_type \<Rightarrow> int_type" where
  "promote t = (if digits t \<le> 31 then \<lparr>digits = 31, is_signed = True\<rparr> else t)"

definition arith_type :: "int_type \<Rightarrow> int_type \<Rightarrow> int_type" where
  "arith_type A B =
     (let a = promote A; b = promote B
      in if digits a \<ge> digits b then a else b)"

definition int_multiply_with_overflow_detect :: "int_type \<Rightarrow> int_type \<Rightarrow> int \<Rightarrow> int \<Rightarrow> bool \<times> int" where
  "int_multiply_with_overflow_detect L R l r =
     (if int_less_than (arith_type L R) L (lim_max L div r) l then (True, l) else (False, l * r))"

definition int_shift_left_with_overflow_detect :: "int_type \<Rightarrow> int \<Rightarrow> nat \<Rightarrow> bool \<times> int" where
  "int_shift_left_with_overflow_detect T l i =
     (if lim_max T div 2 ^ i < l then (True, l) else (False, l * 2 ^ i))"

definition int_cast_has_overflow :: "int_type \<Rightarrow> int_type \<Rightarrow> int \<Rightarrow> bool" where
  "int_cast_has_overflow To From from \<longleftrightarrow>
     int_less_than From To from (lim_min To) \<or> int_less_than To From (lim_max To) from"

definition int_cast_with_overflow_detect :: "int_type \<Rightarrow> int_type \<Rightarrow> int \<Rightarrow> int \<Rightarrow> bool \<times> int" where
  "int_cast_with_overflow_detect To From from to =
     (if \<not> int_cast_has_overflow To From from then (False, from) else (True, to))"

section \<open>Correctness\<close>

lemma cast_small [simp]: "0 \<le> x \<Longrightarrow> x < 2 ^ k \<Longrightarrow> cast_to_unsigned k x = x"
  by (simp add: cast_to_unsigned_def)

lemma pow_le: "m \<le> k \<Longrightarrow> (2 :: int) ^ m \<le> 2 ^ k"
  by (simp add: power_increasing)

lemma cast_range: "0 \<le> cast_to_unsigned k x" "cast_to_unsigned k x < 2 ^ k"
  by (simp_all add: cast_to_unsigned_def)

lemma cast_eqI: "0 \<le> y \<Longrightarrow> y < 2 ^ k \<Longrightarrow> x = y + n * 2 ^ k \<Longrightarrow> cast_to_unsigned k x = y"
  by (simp add: cast_to_unsigned_def)

lemma cast_neg: "x < 0 \<Longrightarrow> - (2 ^ k) \<le> x \<Longrightarrow> cast_to_unsigned k x = x + 2 ^ k"
  by (rule cast_eqI[where n = "-1"]) auto

lemma cast_over: "2 ^ k \<le> x \<Longrightarrow> x < 2 * 2 ^ k \<Longrightarrow> cast_to_unsigned k x = x - 2 ^ k"
  by (rule cast_eqI[where n = 1]) auto

lemma cast_add_cast:
  "cast_to_unsigned k (cast_to_unsigned k x + y) = cast_to_unsigned k (x + y)"
  "cast_to_unsigned k (x + cast_to_unsigned k y) = cast_to_unsigned k (x + y)"
  "cast_to_unsigned k (cast_to_unsigned k x - y) = cast_to_unsigned k (x - y)"
  "cast_to_unsigned k (x - cast_to_unsigned k y) = cast_to_unsigned k (x - y)"
  by (simp_all add: cast_to_unsigned_def mod_simps)

lemma pow_double: "m < k \<Longrightarrow> 2 * (2 :: int) ^ m \<le> 2 ^ k"
  using pow_le[of "Suc m" k] by simp

lemmas int_type_defs = in_type_def lim_max_def lim_min_def needed_bits_def

lemma uu_add_correct:
  assumes "0 \<le> l" "l < 2 ^ digits L" "0 \<le> r" "r < 2 ^ k" "digits L \<le> cu" "k \<le> cu"
  shows "uu_add L cu l r = (if l + r < 2 ^ digits L then (False, l + r) else (True, l))"
proof -
  have p: "2 ^ digits L \<le> (2 :: int) ^ cu" "2 ^ k \<le> (2 :: int) ^ cu" using assms(5,6) pow_le by auto
  have r: "cast_to_unsigned cu r = r" using assms(3,4) p by (intro cast_small) linarith+
  let ?l2 = "cast_to_unsigned (digits L) (l + r)"
  have c: "cast_to_unsigned cu ?l2 = ?l2"
    using cast_range[of "digits L" "l + r"] p by (intro cast_small) linarith+
  show ?thesis
  proof (cases "l + r < 2 ^ digits L")
    case True
    then have "?l2 = l + r" using assms by simp
    then show ?thesis using True assms c r by (simp add: uu_add_def Let_def)
  next
    case False
    have "?l2 < r"
    proof (cases "r < 2 ^ digits L")
      case True
      then have "?l2 = l + r - 2 ^ digits L" using False assms by (intro cast_over) auto
      then show ?thesis using assms(2) by simp
    next
      case False
      then show ?thesis using cast_range(2)[of "digits L" "l + r"] by linarith
    qed
    then show ?thesis using False c r by (simp add: uu_add_def Let_def)
  qed
qed

lemma uu_sub_correct:
  assumes "0 \<le> l" "l < 2 ^ digits L" "0 \<le> r" "r < 2 ^ k" "digits L \<le> cu" "k \<le> cu"
  shows "uu_sub L cu l r = (if 0 \<le> l - r then (False, l - r) else (True, l))"
proof -
  have p: "2 ^ digits L \<le> (2 :: int) ^ cu" "2 ^ k \<le> (2 :: int) ^ cu" using assms(5,6) pow_le by auto
  have c: "cast_to_unsigned cu r = r" "cast_to_unsigned cu l = l"
    using assms(1-4) p by (auto intro!: cast_small simp del: power_increasing_iff elim: order_less_le_trans)
  show ?thesis
  proof (cases "0 \<le> l - r")
    case True
    then have "cast_to_unsigned cu (l - r) = l - r" "cast_to_unsigned (digits L) (l - r) = l - r"
      using assms(1-4) p by (auto intro!: cast_small simp del: power_increasing_iff)
    then show ?thesis using True assms(3) by (simp add: uu_sub_def Let_def c)
  next
    case False
    then have "cast_to_unsigned cu (l - r) = l - r + 2 ^ cu" using assms(1-4) p by (intro cast_neg) linarith+
    moreover have "l - r + 2 ^ cu > l" using assms(4) p by linarith
    ultimately show ?thesis using False by (simp add: uu_sub_def Let_def c)
  qed
qed

lemma us_add_correct:
  assumes "0 \<le> l" "l < 2 ^ digits L" "- (2 ^ k) \<le> r" "r < 2 ^ k" "digits L \<le> cu" "k < cu" "\<not> is_signed L"
  shows "us_add L cu l r = (if in_type L (l + r) then (False, l + r) else (True, l))"
proof -
  have p: "2 ^ digits L \<le> (2 :: int) ^ cu" "2 * 2 ^ k \<le> (2 :: int) ^ cu" using assms(5,6) pow_le pow_double by auto
  have l2: "cast_to_unsigned cu (l + cast_to_unsigned cu r) = cast_to_unsigned cu (l + r)" by (simp add: cast_add_cast)
  consider (neg) "l + r < 0" | (fit) "0 \<le> l + r" "l + r < 2 ^ cu" | (over) "2 ^ cu \<le> l + r" by linarith
  then show ?thesis
  proof cases
    case neg
    then have c: "cast_to_unsigned cu (l + r) = l + r + 2 ^ cu" using assms p by (intro cast_neg) auto
    have "digits L < cu \<Longrightarrow> 2 * 2 ^ digits L \<le> (2 :: int) ^ cu" by (rule pow_double)
    then show ?thesis
      using neg assms p unfolding us_add_def Let_def l2 c by (auto simp: int_type_defs)
  next
    case fit
    then have c: "cast_to_unsigned cu (l + r) = l + r" by simp
    have "digits L = cu \<or> digits L < cu" using assms(5) by auto
    then show ?thesis
      using fit assms unfolding us_add_def Let_def l2 c by (auto simp: int_type_defs)
  next
    case over
    then have c: "cast_to_unsigned cu (l + r) = l + r - 2 ^ cu" using assms(1-4) p by (intro cast_over) linarith+
    have "\<not> digits L < cu"
    proof
      assume "digits L < cu"
      then have "2 * 2 ^ digits L \<le> (2 :: int) ^ cu" by (rule pow_double)
      then show False using over assms(2,4) p by linarith
    qed
    then show ?thesis
      using over assms(1-5,7) p unfolding us_add_def Let_def l2 c by (auto simp: int_type_defs)
  qed
qed

lemma us_sub_correct:
  assumes "0 \<le> l" "l < 2 ^ digits L" "- (2 ^ k) \<le> r" "r < 2 ^ k" "digits L \<le> cu" "k < cu" "\<not> is_signed L"
  shows "us_sub L cu l r = (if in_type L (l - r) then (False, l - r) else (True, l))"
proof -
  have p: "2 ^ digits L \<le> (2 :: int) ^ cu" "2 * 2 ^ k \<le> (2 :: int) ^ cu" using assms(5,6) pow_le pow_double by auto
  have l2: "cast_to_unsigned cu (l - cast_to_unsigned cu r) = cast_to_unsigned cu (l - r)" by (simp add: cast_add_cast)
  consider (neg) "l - r < 0" | (fit) "0 \<le> l - r" "l - r < 2 ^ cu" | (over) "2 ^ cu \<le> l - r" by linarith
  then show ?thesis
  proof cases
    case neg
    then have c: "cast_to_unsigned cu (l - r) = l - r + 2 ^ cu" using assms p by (intro cast_neg) auto
    have "digits L < cu \<Longrightarrow> 2 * 2 ^ digits L \<le> (2 :: int) ^ cu" by (rule pow_double)
    then show ?thesis
      using neg assms p unfolding us_sub_def Let_def l2 c by (auto simp: int_type_defs)
  next
    case fit
    then have c: "cast_to_unsigned cu (l - r) = l - r" by simp
    have "digits L = cu \<or> digits L < cu" using assms(5) by auto
    then show ?thesis
      using fit assms unfolding us_sub_def Let_def l2 c by (auto simp: int_type_defs)
  next
    case over
    then have c: "cast_to_unsigned cu (l - r) = l - r - 2 ^ cu" using assms(1-4) p by (intro cast_over) linarith+
    have "\<not> digits L < cu"
    proof
      assume "digits L < cu"
      then have "2 * 2 ^ digits L \<le> (2 :: int) ^ cu" by (rule pow_double)
      then show False using over assms(2,3) p by linarith
    qed
    then show ?thesis
      using over assms(1-5,7) p unfolding us_sub_def Let_def l2 c by (auto simp: int_type_defs)
  qed
qed

lemma twos_compl_correct:
  assumes "is_signed L" "- (2 ^ digits L) \<le> x" "x < 2 ^ digits L" "digits L < cu"
  shows "from_twos_compl L cu (cast_to_unsigned cu x) = x"
proof -
  have p: "2 * 2 ^ digits L \<le> (2 :: int) ^ cu" using pow_double assms(4) by auto
  have "(2 :: int) ^ cu = 2 * 2 ^ (cu - 1)" using assms(4) by (cases cu) auto
  then have q: "2 ^ digits L \<le> (2 :: int) ^ (cu - 1)" "(2 :: int) ^ cu = 2 * 2 ^ (cu - 1)" using p by auto
  show ?thesis
  proof (cases "x < 0")
    case True
    then have "cast_to_unsigned cu x = x + 2 ^ cu" using assms p by (intro cast_neg) auto
    moreover have "\<not> x + 2 ^ cu < 2 ^ (cu - 1)" using assms(2) q by linarith
    ultimately show ?thesis using assms(1) by (simp add: from_twos_compl_def)
  next
    case False
    then have "cast_to_unsigned cu x = x" using assms p by (intro cast_small) auto
    moreover have "x < 2 ^ (cu - 1)" using assms(3) q by linarith
    ultimately show ?thesis using assms(1) by (simp add: from_twos_compl_def)
  qed
qed

lemma su_add_correct:
  assumes "is_signed L" "in_type L l" "0 \<le> r" "r < 2 ^ k" "digits L < cu" "k \<le> cu"
  shows "su_add L cu l r = (if in_type L (l + r) then (False, l + r) else (True, l))"
proof -
  have p: "2 * 2 ^ digits L \<le> (2 :: int) ^ cu" "2 ^ k \<le> (2 :: int) ^ cu" using assms(5,6) pow_le pow_double by auto
  have m: "cast_to_unsigned cu (lim_max L - l) = lim_max L - l"
    using assms(1,2) p by (intro cast_small) (auto simp: int_type_defs)
  have r: "cast_to_unsigned cu r = r" using assms(3,4) p by (intro cast_small) linarith+
  have t: "from_twos_compl L cu (cast_to_unsigned cu (l + r)) = l + r" if "in_type L (l + r)"
    using that assms(1,5) by (intro twos_compl_correct) (auto simp: int_type_defs)
  have "in_type L (l + r) \<longleftrightarrow> \<not> r > lim_max L - l" using assms(1-3) by (auto simp: int_type_defs)
  then show ?thesis using t by (auto simp: su_add_def Let_def cast_add_cast m r)
qed

lemma su_sub_correct:
  assumes "is_signed L" "in_type L l" "0 \<le> r" "r < 2 ^ k" "digits L < cu" "k \<le> cu"
  shows "su_sub L cu l r = (if in_type L (l - r) then (False, l - r) else (True, l))"
proof -
  have p: "2 * 2 ^ digits L \<le> (2 :: int) ^ cu" "2 ^ k \<le> (2 :: int) ^ cu" using assms(5,6) pow_le pow_double by auto
  have m: "cast_to_unsigned cu (l - lim_min L) = l - lim_min L"
    using assms(1,2) p by (intro cast_small) (auto simp: int_type_defs)
  have r: "cast_to_unsigned cu r = r" using assms(3,4) p by (intro cast_small) linarith+
  have t: "from_twos_compl L cu (cast_to_unsigned cu (l - r)) = l - r" if "in_type L (l - r)"
    using that assms(1,5) by (intro twos_compl_correct) (auto simp: int_type_defs)
  have "in_type L (l - r) \<longleftrightarrow> \<not> r > l - lim_min L" using assms(1-3) by (auto simp: int_type_defs)
  then show ?thesis using t by (auto simp: su_sub_def Let_def cast_add_cast m r)
qed

lemma fastest_enough: "bits \<le> 64 \<Longrightarrow> bits \<le> fastest_unsigned bits"
  by (simp add: fastest_unsigned_def least_unsigned_def)

lemma common_enough: "machine_type L \<Longrightarrow> machine_type R \<Longrightarrow> needed_bits L R \<le> common_digits L R"
  unfolding common_digits_def by (rule fastest_enough) (simp add: needed_bits_def machine_type_def)

lemma int_add_correct:
  assumes "in_type L l" "in_type R r" "machine_type L" "machine_type R"
  shows "int_add_with_overflow_detect L R l r = (if in_type L (l + r) then (False, l + r) else (True, l))"
  using assms(1,2) common_enough[OF assms(3,4)] uu_add_correct[of l L r "digits R" "common_digits L R"] us_add_correct[of l L "digits R" r "common_digits L R"]
    su_add_correct[of L l r "digits R" "common_digits L R"]
  by (auto simp: int_add_with_overflow_detect_def int_type_defs ss_add_def)

lemma int_sub_correct:
  assumes "in_type L l" "in_type R r" "machine_type L" "machine_type R"
  shows "int_subtract_with_overflow_detect L R l r = (if in_type L (l - r) then (False, l - r) else (True, l))"
  using assms(1,2) common_enough[OF assms(3,4)] uu_sub_correct[of l L r "digits R" "common_digits L R"] us_sub_correct[of l L "digits R" r "common_digits L R"]
    su_sub_correct[of L l r "digits R" "common_digits L R"]
  by (auto simp: int_subtract_with_overflow_detect_def int_type_defs ss_sub_def)

lemma type_bound: "in_type T x \<Longrightarrow> digits T \<le> k \<Longrightarrow> x < 2 ^ k"
  using pow_le[of "digits T" k] unfolding in_type_def lim_max_def by linarith

lemma type_nonneg: "in_type T x \<Longrightarrow> \<not> is_signed T \<Longrightarrow> 0 \<le> x"
  by (simp add: int_type_defs)

lemma cast_in_type:
  "in_type T x \<Longrightarrow> 0 \<le> x \<Longrightarrow> digits T \<le> k \<Longrightarrow> cast_to_unsigned k x = x"
  by (intro cast_small type_bound)

lemma less_digits_cast:
  "in_type T x \<Longrightarrow> digits T < digits U \<Longrightarrow> x < 0 \<or> 0 \<le> x \<and> cast_to_unsigned (digits U) x = x"
  using cast_in_type[of T x "digits U"] by linarith

lemma lim_max_nonneg: "0 \<le> lim_max T"
  by (simp add: lim_max_def)

lemma div_less_mult: "0 < (k :: int) \<Longrightarrow> m div k < l \<longleftrightarrow> m < l * k"
  using pos_imp_zdiv_neg_iff[of k "m - l * k"] div_mult_self1[of k "m" "- l"] by simp

lemma int_less_correct:
  assumes "in_type L l" "in_type R r" "machine_type L" "machine_type R"
  shows "int_less_than L R l r \<longleftrightarrow> l < r"
proof -
  have cu: "digits L \<le> common_digits L R" "digits R \<le> common_digits L R"
    using common_enough[OF assms(3,4)] by (auto simp: needed_bits_def split: if_splits)
  note c = cast_in_type[OF assms(1) _ cu(1)] cast_in_type[OF assms(2) _ cu(2)]
    less_digits_cast[OF assms(1), of R] less_digits_cast[OF assms(2), of L]
  show ?thesis
    using c type_nonneg[OF assms(1)] type_nonneg[OF assms(2)]
    by (auto simp: int_less_than_def uu_less_def us_less_def su_less_def)
qed

lemma int_equal_correct:
  assumes "in_type L l" "in_type R r" "machine_type L" "machine_type R"
  shows "int_equal_to L R l r \<longleftrightarrow> l = r"
proof -
  have cu: "digits L \<le> common_digits L R" "digits R \<le> common_digits L R"
    using common_enough[OF assms(3,4)] by (auto simp: needed_bits_def split: if_splits)
  note c = cast_in_type[OF assms(1) _ cu(1)] cast_in_type[OF assms(2) _ cu(2)]
    less_digits_cast[OF assms(1), of R] less_digits_cast[OF assms(2), of L]
  show ?thesis
    using c type_nonneg[OF assms(1)] type_nonneg[OF assms(2)]
    by (auto simp: int_equal_to_def uu_equal_def us_equal_def su_equal_def)
qed

lemma machine_arith: "machine_type A \<Longrightarrow> machine_type B \<Longrightarrow> machine_type (arith_type A B)"
  by (auto simp: arith_type_def promote_def machine_type_def Let_def)

lemma digits_arith: "digits A \<le> digits (arith_type A B)"
  by (auto simp: arith_type_def promote_def Let_def)

lemma lim_max_mono: "digits A \<le> digits B \<Longrightarrow> lim_max A \<le> lim_max B"
  unfolding lim_max_def by (drule pow_le) linarith

lemma nonneg_in_type: "0 \<le> x \<Longrightarrow> in_type T x \<longleftrightarrow> x \<le> lim_max T"
  by (auto simp: in_type_def lim_min_def intro: order_trans[of _ 0])

lemma int_multiply_correct:
  assumes "in_type L l" "0 \<le> l" "0 < r" "machine_type L" "machine_type R"
  shows "int_multiply_with_overflow_detect L R l r = (if in_type L (l * r) then (False, l * r) else (True, l))"
proof -
  have q: "lim_max L div r \<le> lim_max L" "0 \<le> lim_max L div r"
    using assms(3) lim_max_nonneg[of L] zdiv_mono2[of "lim_max L" 1 r] pos_imp_zdiv_nonneg_iff[of r "lim_max L"]
    by simp_all
  then have "in_type (arith_type L R) (lim_max L div r)"
    using lim_max_mono[OF digits_arith[of L R]] by (simp add: nonneg_in_type)
  then have "int_less_than (arith_type L R) L (lim_max L div r) l \<longleftrightarrow> lim_max L div r < l"
    using int_less_correct assms(1,4,5) machine_arith by blast
  moreover have "lim_max L div r < l \<longleftrightarrow> lim_max L < l * r" using assms(3) by (rule div_less_mult)
  moreover have "in_type L (l * r) \<longleftrightarrow> \<not> lim_max L < l * r"
    using mult_nonneg_nonneg[of l r] assms(2,3) by (auto simp: nonneg_in_type)
  ultimately show ?thesis by (simp add: int_multiply_with_overflow_detect_def)
qed

lemma int_shift_left_correct:
  assumes "0 \<le> l"
  shows "int_shift_left_with_overflow_detect T l i =
    (if in_type T (l * 2 ^ i) then (False, l * 2 ^ i) else (True, l))"
proof -
  have "lim_max T div 2 ^ i < l \<longleftrightarrow> lim_max T < l * 2 ^ i" by (rule div_less_mult) simp
  moreover have "in_type T (l * 2 ^ i) \<longleftrightarrow> \<not> lim_max T < l * 2 ^ i"
    using assms by (auto simp: in_type_def lim_min_def intro: order_trans[of _ 0])
  ultimately show ?thesis by (simp add: int_shift_left_with_overflow_detect_def)
qed

lemma int_cast_correct:
  assumes "in_type From x" "machine_type From" "machine_type To"
  shows "int_cast_with_overflow_detect To From x y = (if in_type To x then (False, x) else (True, y))"
proof -
  have "in_type To (lim_min To)" "in_type To (lim_max To)" by (simp_all add: int_type_defs)
  then have "int_cast_has_overflow To From x \<longleftrightarrow> \<not> in_type To x"
    using int_less_correct assms by (auto simp: int_cast_has_overflow_def in_type_def)
  then show ?thesis by (simp add: int_cast_with_overflow_detect_def)
qed

end
