(* ===== verification/Buffers.thy ===== *)
theory Buffers
  imports SafeInt
begin

text \<open>
  \<open>util/buffer.hpp\<close>: \<open>Buffer\<close>, an array whose elements have no value until they are written, and
  \<open>AppendBuffer\<close>, which grows one by a factor of 1.5. A buffer is the list of its elements, \<open>None\<close> for
  an element without a value. The arithmetic on capacities is the checked arithmetic of \<open>SafeInt\<close>;
  \<open>None\<close> in place of a buffer is the exception \<open>BufferSizeOverflow\<close>.
\<close>

type_synonym 'a buffer = "'a option list"

section \<open>Buffer\<close>

definition buf_set_size :: "nat \<Rightarrow> 'a buffer" where
  "buf_set_size n = replicate n None"

definition buf_resize :: "nat \<Rightarrow> nat \<Rightarrow> nat \<Rightarrow> nat \<Rightarrow> 'a buffer \<Rightarrow> 'a buffer" where
  "buf_resize new_size copy_begin copy_end copy_to b =
     (let n = copy_end - copy_begin; new_data = replicate new_size None
      in take copy_to new_data @ take n (drop copy_begin b) @ drop (copy_to + n) new_data)"

definition buf_reserve :: "nat \<Rightarrow> nat \<Rightarrow> 'a buffer \<Rightarrow> 'a buffer" where
  "buf_reserve used_size min_capacity b =
     (if length b \<ge> min_capacity then b
      else
        let (overflow, c) = int_multiply_with_overflow_detect size_type int_t (int (length b)) 3;
            grown = nat (if overflow then lim_max size_type else c) div 2;
            new_capacity = (if grown < min_capacity then min_capacity else grown)
        in buf_resize new_capacity 0 used_size 0 b)"

definition buf_reserve_extra :: "nat \<Rightarrow> nat \<Rightarrow> 'a buffer \<Rightarrow> 'a buffer option" where
  "buf_reserve_extra used_size min_extra b =
     (case int_add_with_overflow_detect size_type size_type (int used_size) (int min_extra) of
        (True, _) \<Rightarrow> None
      | (False, min_capacity) \<Rightarrow> Some (buf_reserve used_size (nat min_capacity) b))"

section \<open>AppendBuffer\<close>

record 'a append_buffer =
  ab_buffer :: "'a buffer"
  ab_size :: nat

definition ab_append :: "'a list \<Rightarrow> 'a append_buffer \<Rightarrow> 'a append_buffer option" where
  "ab_append xs a =
     (case buf_reserve_extra (ab_size a) (length xs) (ab_buffer a) of
        None \<Rightarrow> None
      | Some b \<Rightarrow>
          Some \<lparr>ab_buffer = take (ab_size a) b @ map Some xs @ drop (ab_size a + length xs) b,
                ab_size = ab_size a + length xs\<rparr>)"

definition ab_reserve :: "nat \<Rightarrow> 'a append_buffer \<Rightarrow> 'a append_buffer" where
  "ab_reserve min_capacity a = a\<lparr>ab_buffer := buf_reserve (ab_size a) min_capacity (ab_buffer a)\<rparr>"

definition ab_resize :: "nat \<Rightarrow> 'a append_buffer \<Rightarrow> 'a append_buffer" where
  "ab_resize new_size a = (ab_reserve new_size a)\<lparr>ab_size := new_size\<rparr>"

definition ab_clear :: "'a append_buffer \<Rightarrow> 'a append_buffer" where
  "ab_clear a = a\<lparr>ab_size := 0\<rparr>"

definition ab_release :: "'a append_buffer \<Rightarrow> 'a buffer \<times> 'a append_buffer" where
  "ab_release a = (ab_buffer a, \<lparr>ab_buffer = [], ab_size = 0\<rparr>)"

section \<open>What the buffers keep\<close>

definition ab_ok :: "'a append_buffer \<Rightarrow> bool" where
  "ab_ok a \<longleftrightarrow> ab_size a \<le> length (ab_buffer a) \<and> length (ab_buffer a) < 2 ^ 64"

definition ab_contents :: "'a append_buffer \<Rightarrow> 'a option list" where
  "ab_contents a = take (ab_size a) (ab_buffer a)"

lemma length_buf_resize:
  "copy_begin \<le> copy_end \<Longrightarrow> copy_end \<le> length b \<Longrightarrow> copy_to + (copy_end - copy_begin) \<le> n \<Longrightarrow>
   length (buf_resize n copy_begin copy_end copy_to b) = n"
  by (simp add: buf_resize_def Let_def)

lemma grown_capacity:
  assumes "c < 2 ^ 64"
  shows "int_multiply_with_overflow_detect size_type int_t (int c) 3 =
    (if c * 3 < 2 ^ 64 then (False, int (c * 3)) else (True, int c))"
  using int_multiply_correct[of size_type "int c" 3 int_t] assms
  by (auto simp: int_type_defs machine_type_def size_type_def int_t_def)

lemma buf_reserve_spec:
  assumes "used \<le> length b" "length b < 2 ^ 64"
  shows "take used (buf_reserve used n b) = take used b"
    and "n \<le> length (buf_reserve used n b)"
    and "length b \<le> length (buf_reserve used n b)"
    and "n < 2 ^ 64 \<Longrightarrow> length (buf_reserve used n b) < 2 ^ 64"
    and "length b < n \<Longrightarrow> length b * 3 < 2 ^ 64 \<Longrightarrow> length b * 3 div 2 \<le> length (buf_reserve used n b)"
proof -
  have "take used (buf_reserve used n b) = take used b \<and> n \<le> length (buf_reserve used n b)
    \<and> length b \<le> length (buf_reserve used n b) \<and> (n < 2 ^ 64 \<longrightarrow> length (buf_reserve used n b) < 2 ^ 64)
    \<and> (length b < n \<longrightarrow> length b * 3 < 2 ^ 64 \<longrightarrow> length b * 3 div 2 \<le> length (buf_reserve used n b))"
  proof (cases "n \<le> length b")
    case True
    then show ?thesis using assms by (simp add: buf_reserve_def)
  next
    case False
    obtain c where c: "buf_reserve used n b = buf_resize c 0 used 0 b" "n \<le> c" "n < 2 ^ 64 \<longrightarrow> c < 2 ^ 64"
      "length b * 3 < 2 ^ 64 \<longrightarrow> length b * 3 div 2 \<le> c"
    proof
      let ?g = "nat (if length b * 3 < 2 ^ 64 then int (length b * 3) else lim_max size_type) div 2"
      show "buf_reserve used n b = buf_resize (if ?g < n then n else ?g) 0 used 0 b"
        using False assms(2) by (auto simp: buf_reserve_def grown_capacity)
      show "n \<le> (if ?g < n then n else ?g)" by simp
      show "n < 2 ^ 64 \<longrightarrow> (if ?g < n then n else ?g) < 2 ^ 64" by (auto simp: lim_max_def size_type_def)
      show "length b * 3 < 2 ^ 64 \<longrightarrow> length b * 3 div 2 \<le> (if ?g < n then n else ?g)" by auto
    qed
    then have "length (buf_reserve used n b) = c" using assms False by (simp add: length_buf_resize)
    moreover have "take used (buf_reserve used n b) = take used b" using c(1) assms(1) by (simp add: buf_resize_def)
    ultimately show ?thesis using c False by auto
  qed
  then show "take used (buf_reserve used n b) = take used b"
    and "n \<le> length (buf_reserve used n b)"
    and "length b \<le> length (buf_reserve used n b)"
    and "n < 2 ^ 64 \<Longrightarrow> length (buf_reserve used n b) < 2 ^ 64"
    and "length b < n \<Longrightarrow> length b * 3 < 2 ^ 64 \<Longrightarrow> length b * 3 div 2 \<le> length (buf_reserve used n b)" by blast+
qed

lemma buf_reserve_extra_eq:
  assumes "used < 2 ^ 64" "extra < 2 ^ 64"
  shows "buf_reserve_extra used extra b =
    (if used + extra < 2 ^ 64 then Some (buf_reserve used (used + extra) b) else None)"
proof -
  have "int_add_with_overflow_detect size_type size_type (int used) (int extra) =
      (if used + extra < 2 ^ 64 then (False, int (used + extra)) else (True, int used))"
    using int_add_correct[of size_type "int used" size_type "int extra"] assms
    by (auto simp: int_type_defs machine_type_def size_type_def)
  moreover have "nat (int used + int extra) = used + extra" by simp
  ultimately show ?thesis by (simp add: buf_reserve_extra_def)
qed

lemma ab_append_spec:
  assumes "ab_ok a" "length xs < 2 ^ 64"
  shows "case ab_append xs a of
      None \<Rightarrow> 2 ^ 64 \<le> ab_size a + length xs
    | Some a' \<Rightarrow> ab_ok a' \<and> ab_contents a' = ab_contents a @ map Some xs"
proof (cases "ab_size a + length xs < 2 ^ 64")
  case True
  have a: "ab_size a \<le> length (ab_buffer a)" "length (ab_buffer a) < 2 ^ 64" using assms(1) by (auto simp: ab_ok_def)
  let ?b = "buf_reserve (ab_size a) (ab_size a + length xs) (ab_buffer a)"
  have e: "buf_reserve_extra (ab_size a) (length xs) (ab_buffer a) = Some ?b"
    using True a assms(2) buf_reserve_extra_eq[of "ab_size a" "length xs" "ab_buffer a"] by simp
  note b = buf_reserve_spec[OF a, of "ab_size a + length xs"]
  have "ab_append xs a = Some \<lparr>ab_buffer = take (ab_size a) (ab_buffer a) @ map Some xs @ drop (ab_size a + length xs) ?b,
      ab_size = ab_size a + length xs\<rparr>"
    by (simp add: ab_append_def e b(1))
  then show ?thesis using a b(2) b(4)[OF True] by (simp add: ab_ok_def ab_contents_def)
next
  case False
  then have "buf_reserve_extra (ab_size a) (length xs) (ab_buffer a) = None"
    using assms buf_reserve_extra_eq[of "ab_size a" "length xs" "ab_buffer a"] by (simp add: ab_ok_def)
  then show ?thesis using False by (simp add: ab_append_def)
qed

lemma ab_resize_spec:
  assumes "ab_ok a" "n < 2 ^ 64"
  shows "ab_ok (ab_resize n a) \<and> ab_size (ab_resize n a) = n
    \<and> take (min n (ab_size a)) (ab_contents (ab_resize n a)) = take n (ab_contents a)"
proof -
  have a: "ab_size a \<le> length (ab_buffer a)" "length (ab_buffer a) < 2 ^ 64" using assms(1) by (auto simp: ab_ok_def)
  note b = buf_reserve_spec[OF a, of n]
  have "take n (take (ab_size a) (buf_reserve (ab_size a) n (ab_buffer a))) = take n (take (ab_size a) (ab_buffer a))"
    using b(1) by simp
  then show ?thesis
    using b(2) b(4)[OF assms(2)] by (simp add: ab_resize_def ab_reserve_def ab_ok_def ab_contents_def min.commute)
qed

end
