(* ===== verification/BaseProps.thy ===== *)
theory BaseProps
  imports SafeInt Buffers
begin

text \<open>
  The properties of the checked integer arithmetic and of the growing buffers, on which the
  transaction log rests.
\<close>

section \<open>Integers of different types\<close>

text \<open>
  C19. The comparisons of integers of any two machine types, signed or not and of any width, are those of
  the numbers they stand for.\<close>

theorem compare_exact:
  assumes "in_type L l" "in_type R r" "machine_type L" "machine_type R"
  shows "(int_equal_to L R l r \<longleftrightarrow> l = r) \<and> (int_not_equal_to L R l r \<longleftrightarrow> l \<noteq> r) \<and>
    (int_less_than L R l r \<longleftrightarrow> l < r) \<and> (int_less_than_or_equal L R l r \<longleftrightarrow> l \<le> r) \<and>
    (int_greater_than L R l r \<longleftrightarrow> l > r) \<and> (int_greater_than_or_equal L R l r \<longleftrightarrow> l \<ge> r)"
  using int_equal_correct[OF assms] int_less_correct[OF assms] int_less_correct[OF assms(2,1,4,3)]
  by (simp add: int_not_equal_to_def int_less_than_or_equal_def int_greater_than_def
      int_greater_than_or_equal_def not_less)

theorem compare_exact_witness:
  "int_less_than int_t size_type (- 1) 18446744073709551615 \<and> \<not> int_equal_to int_t size_type (- 1) 18446744073709551615"
  using compare_exact[of int_t "- 1" size_type 18446744073709551615]
  by (simp add: int_type_defs int_types machine_type_def)

text \<open>
  C20. Addition and subtraction on integers of any two machine types report an overflow exactly when the
  result does not fit the type of the first operand; otherwise the result is exact, and on an overflow
  the operand keeps its value.\<close>

theorem add_sub_exact:
  assumes "in_type L l" "in_type R r" "machine_type L" "machine_type R"
  shows "int_add_with_overflow_detect L R l r = (if in_type L (l + r) then (False, l + r) else (True, l)) \<and>
    int_subtract_with_overflow_detect L R l r = (if in_type L (l - r) then (False, l - r) else (True, l))"
  using int_add_correct[OF assms] int_sub_correct[OF assms] by simp

theorem add_sub_exact_witness:
  "int_add_with_overflow_detect size_type int_t 18446744073709551615 1 = (True, 18446744073709551615) \<and>
   int_subtract_with_overflow_detect size_type int_t 18446744073709551615 1 = (False, 18446744073709551614)"
  using add_sub_exact[of size_type 18446744073709551615 int_t 1]
  by (simp add: int_type_defs int_types machine_type_def)

text \<open>
  Multiplication by a positive factor, shift to the left and conversion to another type report an
  overflow exactly when the result does not fit, and are exact otherwise.\<close>

theorem multiply_shift_cast_exact:
  assumes "in_type L l" "0 \<le> l" "0 < r" "in_type R r" "machine_type L" "machine_type R"
  shows "int_multiply_with_overflow_detect L R l r = (if in_type L (l * r) then (False, l * r) else (True, l)) \<and>
    int_shift_left_with_overflow_detect L l i = (if in_type L (l * 2 ^ i) then (False, l * 2 ^ i) else (True, l)) \<and>
    int_cast_with_overflow_detect R L l r = (if in_type R l then (False, l) else (True, r))"
  using int_multiply_correct[OF assms(1,2,3,5,6)] int_shift_left_correct[OF assms(2), of L i]
    int_cast_correct[OF assms(1,5,6), of r] by simp

theorem multiply_shift_cast_exact_witness:
  "int_multiply_with_overflow_detect size_type int_t 6148914691236517206 3 = (True, 6148914691236517206) \<and>
   int_shift_left_with_overflow_detect size_type 6148914691236517206 1 = (False, 12297829382473034412) \<and>
   int_cast_with_overflow_detect int_t size_type 6148914691236517206 3 = (True, 3)"
  using multiply_shift_cast_exact[of size_type 6148914691236517206 3 int_t 1]
  by (simp add: int_type_defs int_types machine_type_def)

section \<open>Buffers\<close>

text \<open>
  C21. \<open>AppendBuffer::append\<close> fails exactly when the size would overflow; otherwise the contents become the
  old contents followed by the new elements, and the size stays within the capacity.\<close>

theorem append_buffer_append:
  assumes "ab_ok a" "length xs < 2 ^ 64"
  shows "case ab_append xs a of
      None \<Rightarrow> 2 ^ 64 \<le> ab_size a + length xs
    | Some a' \<Rightarrow> ab_ok a' \<and> ab_contents a' = ab_contents a @ map Some xs"
  using assms by (rule ab_append_spec)

theorem append_buffer_append_witness:
  "\<exists>a. ab_append [3, 4] \<lparr>ab_buffer = [Some (7 :: nat), Some 2, None], ab_size = 2\<rparr> = Some a \<and>
    ab_contents a = [Some 7, Some 2, Some 3, Some 4]"
  using append_buffer_append[of "\<lparr>ab_buffer = [Some (7 :: nat), Some 2, None], ab_size = 2\<rparr>" "[3, 4]"]
  by (simp add: ab_ok_def ab_contents_def split: option.splits)

end
