(* ===== verification/ByteStreams.thy ===== *)
theory ByteStreams
  imports Prelude "HOL-Library.Word"
begin

text \<open>
  \<open>impl/input_stream.hpp\<close>: where the parser of transaction logs gets its bytes from. An
  \<open>InputStream\<close> copies up to a number of bytes into a buffer; a \<open>NoCopyInputStream\<close> hands out one
  block of memory after another. A stream is a state with a function; the two interfaces are the
  locales \<open>input_stream\<close> and \<open>block_stream\<close>, and every stream class of the header is an instance of
  one of them. A block is never empty, and the blocks together are the bytes of the stream.
  The iterator over a history entry (\<open>column_binary.hpp\<close>) reads a binary column whose
  implementation is not in the repository, so the column is a function from a position to the piece
  there and the position after it, zero at the end.
\<close>

type_synonym byte = "8 word"

section \<open>Streams over memory\<close>

text \<open>\<open>SimpleInputStream\<close>: the bytes between \<open>m_ptr\<close> and \<open>m_end\<close>.\<close>

definition simple_read :: "nat \<Rightarrow> byte list \<Rightarrow> byte list \<times> byte list" where
  "simple_read n bytes = (let k = min n (length bytes) in (take k bytes, drop k bytes))"

text \<open>\<open>NoCopyInputStreamAdaptor\<close> over an \<open>InputStream\<close> with a buffer of the given size.\<close>

definition adaptor_next :: "(nat \<Rightarrow> 's \<Rightarrow> byte list \<times> 's) \<Rightarrow> nat \<Rightarrow> 's \<Rightarrow> (byte list \<times> 's) option" where
  "adaptor_next read buffer_size s =
     (let (data, s') = read buffer_size s in if data = [] then None else Some (data, s'))"

text \<open>\<open>SimpleNoCopyInputStream\<close>: everything at once, then nothing.\<close>

definition simple_next :: "byte list \<Rightarrow> (byte list \<times> byte list) option" where
  "simple_next data = (if data = [] then None else Some (data, []))"

text \<open>\<open>MultiLogNoCopyInputStream\<close>: the logs from \<open>m_logs_begin\<close> on, and how much of the first one
  \<open>read\<close> has left.\<close>

record multi_log =
  logs :: "byte list list"
  remaining :: nat

definition multi_init :: "byte list list \<Rightarrow> multi_log" where
  "multi_init ls = \<lparr>logs = ls, remaining = (case ls of [] \<Rightarrow> 0 | l # _ \<Rightarrow> length l)\<rparr>"

function multi_read :: "nat \<Rightarrow> multi_log \<Rightarrow> byte list \<times> multi_log" where
  "multi_read n s =
     (case logs s of
        [] \<Rightarrow> ([], s)
      | l # ls \<Rightarrow>
          if remaining s > 0 then
            let offset = length l - remaining s; k = min (remaining s) n
            in (take k (drop offset l), s\<lparr>remaining := remaining s - k\<rparr>)
          else (case ls of [] \<Rightarrow> ([], s\<lparr>logs := []\<rparr>)
                | l2 # _ \<Rightarrow> multi_read n \<lparr>logs = ls, remaining = length l2\<rparr>))"
  by pat_completeness auto
termination
  by (relation "measure (\<lambda>(n, s). length (logs s))") auto

declare multi_read.simps [simp del]

fun multi_skip :: "byte list list \<Rightarrow> (byte list \<times> byte list list) option" where
  "multi_skip [] = None"
| "multi_skip (l # ls) = (if l = [] then multi_skip ls else Some (l, ls))"

definition multi_next :: "multi_log \<Rightarrow> (byte list \<times> multi_log) option" where
  "multi_next s =
     (case multi_skip (logs s) of None \<Rightarrow> None | Some (l, ls) \<Rightarrow> Some (l, s\<lparr>logs := ls\<rparr>))"

section \<open>Streams over a history\<close>

record binary_iterator =
  end_of_data :: bool
  binary_col :: "(nat \<Rightarrow> byte list \<times> nat) option"
  binary_pos :: nat
  binary_data :: "byte list option"

definition iter_get_next :: "binary_iterator \<Rightarrow> byte list \<times> binary_iterator" where
  "iter_get_next it =
     (if end_of_data it then ([], it)
      else case binary_col it of
             Some col \<Rightarrow> (let (data, p) = col (binary_pos it)
                         in (data, it\<lparr>binary_pos := p, end_of_data := (p = 0)\<rparr>))
           | None \<Rightarrow> (case binary_data it of
                       Some data \<Rightarrow> (data, it\<lparr>end_of_data := True\<rparr>)
                     | None \<Rightarrow> ([], it)))"

text \<open>\<open>ChangesetInputStream\<close>: the versions still to be fetched from the history and the changesets
  fetched but not finished. The history is the parameter \<open>changeset\<close>, the iterator over the
  changeset of a version.\<close>

record changeset_stream =
  begin_version :: nat
  end_version :: nat
  changesets :: "binary_iterator list"
  valid :: bool

definition nb_buffers :: nat where
  "nb_buffers = 8"

definition get_changeset :: "(nat \<Rightarrow> binary_iterator) \<Rightarrow> changeset_stream \<Rightarrow> changeset_stream" where
  "get_changeset changeset s =
     (let n = end_version s - begin_version s
      in if n > 0 then
           let k = (if n > nb_buffers then nb_buffers else n); e = begin_version s + k
           in s\<lparr>valid := True, changesets := map changeset [begin_version s ..< e], begin_version := e\<rparr>
         else s\<lparr>valid := False\<rparr>)"

definition changeset_init :: "(nat \<Rightarrow> binary_iterator) \<Rightarrow> nat \<Rightarrow> nat \<Rightarrow> changeset_stream" where
  "changeset_init changeset b e =
     get_changeset changeset \<lparr>begin_version = b, end_version = e, changesets = [], valid = False\<rparr>"

function changeset_next ::
  "(nat \<Rightarrow> binary_iterator) \<Rightarrow> changeset_stream \<Rightarrow> (byte list \<times> changeset_stream) option" where
  "changeset_next changeset s =
     (case changesets s of
        [] \<Rightarrow> None
      | c # cs \<Rightarrow>
          if \<not> valid s then None
          else let (actual, c') = iter_get_next c
               in if actual \<noteq> [] then Some (actual, s\<lparr>changesets := c' # cs\<rparr>)
                  else changeset_next changeset
                         (if cs = [] then get_changeset changeset (s\<lparr>changesets := cs\<rparr>)
                          else s\<lparr>changesets := cs\<rparr>))"
  by pat_completeness auto
termination
  by (relation "measure (\<lambda>(h, s). (end_version s - begin_version s) + length (changesets s))")
    (auto simp: get_changeset_def Let_def nb_buffers_def)

declare changeset_next.simps [simp del]

section \<open>The two interfaces\<close>

text \<open>\<open>yields s bs\<close> reads: from state \<open>s\<close> on the stream delivers exactly \<open>bs\<close>.\<close>

locale input_stream =
  fixes read :: "nat \<Rightarrow> 's \<Rightarrow> byte list \<times> 's"
    and yields :: "'s \<Rightarrow> byte list \<Rightarrow> bool"
  assumes read_data: "yields s bs \<Longrightarrow> read n s = (data, s') \<Longrightarrow> \<exists>rest. bs = data @ rest \<and> yields s' rest"
    and read_size: "yields s bs \<Longrightarrow> read n s = (data, s') \<Longrightarrow> length data \<le> n"
    and read_some: "yields s bs \<Longrightarrow> read n s = (data, s') \<Longrightarrow> 0 < n \<Longrightarrow> bs \<noteq> [] \<Longrightarrow> data \<noteq> []"

locale block_stream =
  fixes next_block :: "'s \<Rightarrow> (byte list \<times> 's) option"
    and yields :: "'s \<Rightarrow> byte list \<Rightarrow> bool"
  assumes block_some: "yields s bs \<Longrightarrow> next_block s = Some (b, s') \<Longrightarrow>
      b \<noteq> [] \<and> (\<exists>rest. bs = b @ rest \<and> yields s' rest)"
    and block_none: "yields s bs \<Longrightarrow> next_block s = None \<Longrightarrow> bs = []"
begin

lemma block_cases:
  assumes "yields s bs"
  obtains (empty) "next_block s = None" "bs = []"
  | (block) b s' rest where "next_block s = Some (b, s')" "b \<noteq> []" "bs = b @ rest" "yields s' rest"
proof (cases "next_block s")
  case None
  then show ?thesis using empty block_none assms by blast
next
  case (Some p)
  then show ?thesis using block block_some assms by (metis prod.collapse)
qed

end

text \<open>The adaptor makes a block stream of any input stream, as long as its buffer is not empty.\<close>

lemma adaptor_block_stream:
  assumes "input_stream read yields" "0 < n"
  shows "block_stream (adaptor_next read n) yields"
proof -
  note data = input_stream.read_data[OF assms(1)] and some = input_stream.read_some[OF assms(1) _ _ assms(2)]
  show ?thesis
  proof
    fix s bs b s'
    assume "yields s bs" "adaptor_next read n s = Some (b, s')"
    then show "b \<noteq> [] \<and> (\<exists>rest. bs = b @ rest \<and> yields s' rest)"
      using data by (auto simp: adaptor_next_def split: prod.splits if_splits)
  next
    fix s bs
    assume "yields s bs" "adaptor_next read n s = None"
    then show "bs = []" using some by (fastforce simp: adaptor_next_def split: prod.splits if_splits)
  qed
qed

section \<open>The stream classes are instances\<close>

interpretation simple_in: input_stream simple_read "\<lambda>s bs. s = bs"
  by unfold_locales (auto simp: simple_read_def Let_def min_def split: if_splits)

interpretation simple_adaptor: block_stream "adaptor_next simple_read 1024" "\<lambda>s bs. s = bs"
  by (rule adaptor_block_stream) (unfold_locales, simp)

interpretation simple_blocks: block_stream simple_next "\<lambda>s bs. s = bs"
  by unfold_locales (auto simp: simple_next_def split: if_splits)

definition multi_yields :: "multi_log \<Rightarrow> byte list \<Rightarrow> bool" where
  "multi_yields s bs \<longleftrightarrow> bs = concat (logs s)"

lemma multi_skip_some: "multi_skip ls = Some (b, r) \<Longrightarrow> b \<noteq> [] \<and> concat ls = b @ concat r"
  by (induction ls) (auto split: if_splits)

lemma multi_skip_none: "multi_skip ls = None \<longleftrightarrow> concat ls = []"
  by (induction ls) auto

interpretation multi_blocks: block_stream multi_next multi_yields
proof
  fix s bs b s'
  assume "multi_yields s bs" "multi_next s = Some (b, s')"
  then show "b \<noteq> [] \<and> (\<exists>rest. bs = b @ rest \<and> multi_yields s' rest)"
    by (auto simp: multi_next_def multi_yields_def split: option.splits dest: multi_skip_some)
next
  fix s bs
  assume "multi_yields s bs" "multi_next s = None"
  then show "bs = []" by (auto simp: multi_next_def multi_yields_def multi_skip_none split: option.splits)
qed

definition multi_left :: "multi_log \<Rightarrow> byte list \<Rightarrow> bool" where
  "multi_left s bs \<longleftrightarrow>
     (case logs s of [] \<Rightarrow> bs = []
      | l # ls \<Rightarrow> remaining s \<le> length l \<and> bs = drop (length l - remaining s) l @ concat ls)"

lemma multi_left_init: "multi_left (multi_init ls) (concat ls)"
  by (auto simp: multi_left_def multi_init_def split: list.splits)

lemma multi_read_spec:
  "multi_left s bs \<Longrightarrow> multi_read n s = (data, s') \<Longrightarrow>
   (\<exists>rest. bs = data @ rest \<and> multi_left s' rest) \<and> length data \<le> n \<and> (0 < n \<longrightarrow> bs \<noteq> [] \<longrightarrow> data \<noteq> [])"
proof (induction n s arbitrary: bs data s' rule: multi_read.induct)
  case (1 n s)
  consider (none) "logs s = []" | (left) l ls where "logs s = l # ls" "remaining s > 0"
    | (last) l where "logs s = [l]" "remaining s = 0"
    | (more) l l2 ls where "logs s = l # l2 # ls" "remaining s = 0"
    by (metis gr0I neq_Nil_conv)
  then show ?case
  proof cases
    case none
    then show ?thesis using 1(2,3) by (auto simp: multi_left_def multi_read.simps[of n s])
  next
    case left
    let ?k = "min (remaining s) n"
    have d: "data = take ?k (drop (length l - remaining s) l)" "s' = s\<lparr>remaining := remaining s - ?k\<rparr>"
      using left 1(3) by (auto simp: multi_read.simps[of n s] Let_def)
    have le: "remaining s \<le> length l" and bs: "bs = drop (length l - remaining s) l @ concat ls"
      using left 1(2) by (auto simp: multi_left_def)
    have "length l - (remaining s - ?k) = ?k + (length l - remaining s)" using le by auto
    then have "bs = data @ drop (length l - (remaining s - ?k)) l @ concat ls"
      using bs d by (simp flip: drop_drop append_assoc)
    moreover have "multi_left s' (drop (length l - (remaining s - ?k)) l @ concat ls)"
      using left(1) d le by (auto simp: multi_left_def)
    moreover have "length data = ?k" using d le by simp
    ultimately show ?thesis using left(2) by auto
  next
    case last
    then show ?thesis using 1(2,3) by (auto simp: multi_left_def multi_read.simps[of n s])
  next
    case more
    then have "multi_left \<lparr>logs = l2 # ls, remaining = length l2\<rparr> bs" using 1(2) by (auto simp: multi_left_def)
    then show ?thesis using 1(1)[of l "l2 # ls" l2 ls] 1(3) more by (simp add: multi_read.simps[of n s])
  qed
qed

interpretation multi_in: input_stream multi_read multi_left
  by unfold_locales (use multi_read_spec in blast)+

interpretation multi_adaptor: block_stream "adaptor_next multi_read 1024" multi_left
  by (rule adaptor_block_stream) (unfold_locales, simp)

inductive iter_yields :: "binary_iterator \<Rightarrow> byte list \<Rightarrow> bool" where
  exhausted: "iter_get_next it = ([], it') \<Longrightarrow> iter_yields it []"
| piece: "iter_get_next it = (b, it') \<Longrightarrow> b \<noteq> [] \<Longrightarrow> iter_yields it' bs \<Longrightarrow> iter_yields it (b @ bs)"

definition changeset_yields :: "(nat \<Rightarrow> binary_iterator) \<Rightarrow> changeset_stream \<Rightarrow> byte list \<Rightarrow> bool" where
  "changeset_yields h s bs \<longleftrightarrow>
     (\<exists>fetched later. list_all2 iter_yields (changesets s) fetched
        \<and> list_all2 (\<lambda>v. iter_yields (h v)) [begin_version s ..< end_version s] later
        \<and> (valid s \<longleftrightarrow> changesets s \<noteq> []) \<and> (changesets s = [] \<longrightarrow> end_version s \<le> begin_version s)
        \<and> bs = concat fetched @ concat later)"

lemma get_changeset_yields:
  assumes "list_all2 (\<lambda>v. iter_yields (h v)) [begin_version s ..< end_version s] later" "changesets s = []"
  shows "changeset_yields h (get_changeset h s) (concat later)"
proof (cases "begin_version s < end_version s")
  case False
  then show ?thesis using assms by (auto simp: changeset_yields_def get_changeset_def)
next
  case True
  define e where "e = begin_version s + (if end_version s - begin_version s > nb_buffers then nb_buffers
    else end_version s - begin_version s)"
  have e: "begin_version s < e" "e \<le> end_version s" using True by (auto simp: e_def nb_buffers_def)
  then have "[begin_version s ..< end_version s] = [begin_version s ..< e] @ [e ..< end_version s]"
    by (metis le_add_diff_inverse less_imp_le upt_add_eq_append)
  then obtain xs ys where l: "later = xs @ ys" "list_all2 (\<lambda>v. iter_yields (h v)) [begin_version s ..< e] xs"
    "list_all2 (\<lambda>v. iter_yields (h v)) [e ..< end_version s] ys"
    using assms(1) by (auto simp: list_all2_append1)
  have g: "get_changeset h s = s\<lparr>valid := True, changesets := map h [begin_version s ..< e], begin_version := e\<rparr>"
    using True by (simp add: get_changeset_def Let_def e_def)
  have "list_all2 iter_yields (map h [begin_version s ..< e]) xs" using l(2) by (simp add: list_all2_map1)
  then show ?thesis using l e unfolding changeset_yields_def g by auto
qed

lemma changeset_init_yields:
  assumes "list_all2 (\<lambda>v. iter_yields (h v)) [b ..< e] later"
  shows "changeset_yields h (changeset_init h b e) (concat later)"
  unfolding changeset_init_def using assms by (intro get_changeset_yields) simp_all

lemma changeset_next_spec:
  "changeset_yields h s bs \<Longrightarrow>
   (case changeset_next h s of None \<Rightarrow> bs = []
    | Some (b, s') \<Rightarrow> b \<noteq> [] \<and> (\<exists>rest. bs = b @ rest \<and> changeset_yields h s' rest))"
proof (induction h s arbitrary: bs rule: changeset_next.induct)
  case (1 h s)
  from 1(2) obtain fetched later where
    s: "list_all2 iter_yields (changesets s) fetched"
       "list_all2 (\<lambda>v. iter_yields (h v)) [begin_version s ..< end_version s] later"
       "valid s \<longleftrightarrow> changesets s \<noteq> []" "changesets s = [] \<longrightarrow> end_version s \<le> begin_version s"
       "bs = concat fetched @ concat later"
    unfolding changeset_yields_def by blast
  show ?case
  proof (cases "changesets s")
    case Nil
    then show ?thesis using s by (simp add: changeset_next.simps[of h s])
  next
    case (Cons c cs)
    then obtain f fs where f: "fetched = f # fs" "iter_yields c f" "list_all2 iter_yields cs fs"
      using s(1) by (auto simp: list_all2_Cons1)
    have v: "valid s" using s(3) Cons by simp
    from f(2) show ?thesis
    proof cases
      case (piece b c' rest)
      have "changeset_yields h (s\<lparr>changesets := c' # cs\<rparr>) (rest @ concat fs @ concat later)"
        unfolding changeset_yields_def
        by (rule exI[of _ "rest # fs"], rule exI[of _ later]) (use piece f s v in auto)
      then show ?thesis using piece f s v Cons by (auto simp: changeset_next.simps[of h s])
    next
      case (exhausted c')
      let ?t = "if cs = [] then get_changeset h (s\<lparr>changesets := cs\<rparr>) else s\<lparr>changesets := cs\<rparr>"
      have "changeset_yields h ?t bs"
      proof (cases "cs = []")
        case True
        then show ?thesis using get_changeset_yields[of h "s\<lparr>changesets := []\<rparr>" later] s f exhausted by auto
      next
        case False
        then show ?thesis unfolding changeset_yields_def using s f v exhausted by auto
      qed
      then show ?thesis using 1(1)[OF Cons _ refl exhausted(2)[symmetric]] exhausted v Cons
        by (simp add: changeset_next.simps[of h s])
    qed
  qed
qed

interpretation changeset_blocks: block_stream "changeset_next h" "changeset_yields h" for h
proof
  fix s bs b s'
  assume "changeset_yields h s bs" "changeset_next h s = Some (b, s')"
  then show "b \<noteq> [] \<and> (\<exists>rest. bs = b @ rest \<and> changeset_yields h s' rest)"
    using changeset_next_spec[of h s bs] by simp
next
  fix s bs
  assume "changeset_yields h s bs" "changeset_next h s = None"
  then show "bs = []" using changeset_next_spec[of h s bs] by simp
qed

end
