(* ===== verification/TransactInt.thy ===== *)
theory TransactInt
  imports SafeInt ByteStreams
begin

text \<open>
  \<open>impl/transact_log.hpp\<close>, the integers of the transaction log: \<open>TransactLogEncoder::encode_int\<close>, the
  parser's position in its input (\<open>next_input_buffer\<close>, \<open>read_char\<close>, \<open>has_next\<close>) and
  \<open>TransactLogParser::read_int\<close>. A number takes seven bits in every byte but the last, which holds six
  and the sign. A reader is a function from the input to an error or a value and the rest of the
  input; the input is what is left of the current block and the state of the stream, whose
  \<open>next_block\<close> is the first argument of every reader.
\<close>

unbundle bit_operations_syntax

section \<open>Encoding\<close>

definition max_bytes :: "int_type \<Rightarrow> nat" where
  "max_bytes t = (digits t + 1 + 6) div 7"

fun encode_loop :: "nat \<Rightarrow> int \<Rightarrow> byte list \<times> int" where
  "encode_loop 0 v = ([], v)"
| "encode_loop (Suc n) v =
     (if drop_bit 6 v = 0 then ([], v)
      else let (bs, v') = encode_loop n (drop_bit 7 v)
           in (word_of_int (0x80 OR (v AND 0x7F)) # bs, v'))"

definition encode_int :: "int_type \<Rightarrow> int \<Rightarrow> byte list" where
  "encode_int t v =
     (let negative = is_negative t v;
          (bs, v') = encode_loop (max_bytes t) (if negative then - (v + 1) else v)
      in bs @ [word_of_int (if negative then 0x40 OR v' else v')])"

section \<open>Decoding\<close>

datatype parse_error = BadTransactLog

type_synonym 's input = "byte list \<times> 's"
type_synonym 's next_block = "'s \<Rightarrow> (byte list \<times> 's) option"
type_synonym ('s, 'a) reader = "'s input \<Rightarrow> parse_error + 'a \<times> 's input"

definition ret :: "'a \<Rightarrow> ('s, 'a) reader" where
  "ret x inp = Inr (x, inp)"

definition parser_error :: "('s, 'a) reader" where
  "parser_error inp = Inl BadTransactLog"

definition bind :: "('s, 'a) reader \<Rightarrow> ('a \<Rightarrow> ('s, 'b) reader) \<Rightarrow> ('s, 'b) reader" where
  "bind p f inp = (case p inp of Inl e \<Rightarrow> Inl e | Inr (x, inp') \<Rightarrow> f x inp')"

definition next_input_buffer :: "'s next_block \<Rightarrow> 's input \<Rightarrow> 's input option" where
  "next_input_buffer nb inp = nb (snd inp)"

definition has_next :: "'s next_block \<Rightarrow> 's input \<Rightarrow> 's input option" where
  "has_next nb inp = (if fst inp \<noteq> [] then Some inp else next_input_buffer nb inp)"

definition read_char :: "'s next_block \<Rightarrow> ('s, byte) reader" where
  "read_char nb inp =
     (case (if fst inp = [] then next_input_buffer nb inp else Some inp) of
        None \<Rightarrow> Inl BadTransactLog
      | Some inp' \<Rightarrow> Inr (hd (fst inp'), (tl (fst inp'), snd inp')))"

text \<open>\<open>read_loop nb t n i v part\<close>: \<open>n\<close> more bytes may be read, the next of them is byte \<open>i\<close>.\<close>

fun read_loop :: "'s next_block \<Rightarrow> int_type \<Rightarrow> nat \<Rightarrow> nat \<Rightarrow> int \<Rightarrow> int \<Rightarrow> ('s, int \<times> int) reader" where
  "read_loop nb t 0 i v part = ret (v, part)"
| "read_loop nb t (Suc n) i v part =
     bind (read_char nb) (\<lambda>c.
       let part = uint c
       in if part AND 0x80 = 0 then
            (case int_shift_left_with_overflow_detect t (part AND 0x3F) (i * 7) of
               (True, _) \<Rightarrow> parser_error
             | (False, p) \<Rightarrow> ret (v OR p, part))
          else if n = 0 then parser_error
          else read_loop nb t n (i + 1) (v OR push_bit (i * 7) (part AND 0x7F)) part)"

definition negate_in :: "int_type \<Rightarrow> int \<Rightarrow> int" where
  "negate_in t v = (if is_signed t then - v else cast_to_unsigned (digits t) (- v))"

definition read_int :: "'s next_block \<Rightarrow> int_type \<Rightarrow> ('s, int) reader" where
  "read_int nb t =
     bind (read_loop nb t (max_bytes t) 0 0 0) (\<lambda>(v, part).
       if part AND 0x40 \<noteq> 0 then
         (case int_subtract_with_overflow_detect t int_t (negate_in t v) 1 of
            (True, _) \<Rightarrow> parser_error
          | (False, v') \<Rightarrow> ret v')
       else ret v)"


text \<open>
  What a reader of transaction logs does, as statements on bytes that do not mention how the stream
  cuts them into blocks: it \<open>reads\<close> a value from a byte string, it \<open>rejects\<close> every input that starts
  with a byte string, and two readers over different streams \<open>agree\<close> when equal bytes give equal
  results and leave equal rests. The rules follow the code of a reader. Below them, the integers of the log: \<open>read_int\<close> on
  the bytes that \<open>encode_int\<close> writes, for every pair of integer types.
\<close>

unbundle bit_operations_syntax

named_theorems reads_intros \<open>what a reader reads\<close>
named_theorems agree_intros \<open>readers that depend on the bytes only\<close>

section \<open>Readers and bytes\<close>

definition inp_yields :: "('s \<Rightarrow> byte list \<Rightarrow> bool) \<Rightarrow> 's input \<Rightarrow> byte list \<Rightarrow> bool" where
  "inp_yields Y inp bs \<longleftrightarrow> (\<exists>rest. bs = fst inp @ rest \<and> Y (snd inp) rest)"

definition reads :: "('s \<Rightarrow> byte list \<Rightarrow> bool) \<Rightarrow> ('s, 'a) reader \<Rightarrow> byte list \<Rightarrow> 'a \<Rightarrow> bool" where
  "reads Y p bs x \<longleftrightarrow>
     (\<forall>inp rest. inp_yields Y inp (bs @ rest) \<longrightarrow> (\<exists>inp'. p inp = Inr (x, inp') \<and> inp_yields Y inp' rest))"

definition rejects :: "('s \<Rightarrow> byte list \<Rightarrow> bool) \<Rightarrow> ('s, 'a) reader \<Rightarrow> byte list \<Rightarrow> bool" where
  "rejects Y p bs \<longleftrightarrow> (\<forall>inp rest. inp_yields Y inp (bs @ rest) \<longrightarrow> p inp = Inl BadTransactLog)"

definition both_left ::
  "('s \<Rightarrow> byte list \<Rightarrow> bool) \<Rightarrow> ('t \<Rightarrow> byte list \<Rightarrow> bool) \<Rightarrow> byte list \<Rightarrow> 's input \<Rightarrow> 't input \<Rightarrow> bool" where
  "both_left Y Z bs i j \<longleftrightarrow> (\<exists>used rest. bs = used @ rest \<and> inp_yields Y i rest \<and> inp_yields Z j rest)"

definition agree ::
  "('s \<Rightarrow> byte list \<Rightarrow> bool) \<Rightarrow> ('t \<Rightarrow> byte list \<Rightarrow> bool) \<Rightarrow> ('s, 'a) reader \<Rightarrow> ('t, 'a) reader \<Rightarrow> bool" where
  "agree Y Z p q \<longleftrightarrow>
     (\<forall>i j bs. inp_yields Y i bs \<longrightarrow> inp_yields Z j bs \<longrightarrow>
        rel_sum (=) (rel_prod (=) (both_left Y Z bs)) (p i) (q j))"

lemma readsI:
  "(\<And>inp rest. inp_yields Y inp (bs @ rest) \<Longrightarrow> \<exists>inp'. p inp = Inr (x, inp') \<and> inp_yields Y inp' rest) \<Longrightarrow>
   reads Y p bs x"
  by (simp add: reads_def)

lemma readsD: "reads Y p bs x \<Longrightarrow> inp_yields Y inp (bs @ rest) \<Longrightarrow>
    \<exists>inp'. p inp = Inr (x, inp') \<and> inp_yields Y inp' rest"
  unfolding reads_def by blast

lemma rejectsD: "rejects Y p bs \<Longrightarrow> inp_yields Y inp (bs @ rest) \<Longrightarrow> p inp = Inl BadTransactLog"
  unfolding rejects_def by blast

lemma reads_ret [reads_intros]: "reads Y (ret x) [] x"
  by (simp add: reads_def ret_def)

lemma reads_bind [reads_intros]:
  assumes "reads Y p bs x" "reads Y (f x) cs y"
  shows "reads Y (bind p f) (bs @ cs) y"
proof (rule readsI)
  fix inp rest
  assume "inp_yields Y inp ((bs @ cs) @ rest)"
  then obtain i where "p inp = Inr (x, i)" "inp_yields Y i (cs @ rest)" using readsD[OF assms(1)] by fastforce
  then show "\<exists>inp'. bind p f inp = Inr (y, inp') \<and> inp_yields Y inp' rest"
    using readsD[OF assms(2)] by (simp add: bind_def)
qed

lemma reads_bind_eq: "reads Y p bs x \<Longrightarrow> reads Y (f x) cs y \<Longrightarrow> ds = bs @ cs \<Longrightarrow> reads Y (bind p f) ds y"
  by (simp add: reads_bind)

lemma rejects_error [reads_intros]: "rejects Y parser_error []"
  by (simp add: rejects_def parser_error_def)

lemma rejects_bind:
  assumes "reads Y p bs x" "rejects Y (f x) cs"
  shows "rejects Y (bind p f) (bs @ cs)"
  unfolding rejects_def
proof (intro allI impI)
  fix inp rest
  assume "inp_yields Y inp ((bs @ cs) @ rest)"
  then obtain i where "p inp = Inr (x, i)" "inp_yields Y i (cs @ rest)" using readsD[OF assms(1)] by fastforce
  then show "bind p f inp = Inl BadTransactLog"
    using rejectsD[OF assms(2)] by (simp add: bind_def)
qed

lemma rejects_bind_first: "rejects Y p bs \<Longrightarrow> rejects Y (bind p f) bs"
  by (simp add: rejects_def bind_def)

lemma rejects_longer: "rejects Y p bs \<Longrightarrow> rejects Y p (bs @ cs)"
  unfolding rejects_def append_assoc by blast

lemma agreeD: "agree Y Z p q \<Longrightarrow> inp_yields Y i bs \<Longrightarrow> inp_yields Z j bs \<Longrightarrow>
    rel_sum (=) (rel_prod (=) (both_left Y Z bs)) (p i) (q j)"
  unfolding agree_def by blast

lemma both_left_refl: "inp_yields Y i bs \<Longrightarrow> inp_yields Z j bs \<Longrightarrow> both_left Y Z bs i j"
  unfolding both_left_def by (rule exI[of _ "[]"]) simp

lemma both_left_longer: "both_left Y Z rest i j \<Longrightarrow> both_left Y Z (used @ rest) i j"
  unfolding both_left_def by (metis append_assoc)

lemma agree_ret [agree_intros]: "agree Y Z (ret x) (ret x)"
  by (auto simp: agree_def ret_def intro: both_left_refl)

lemma agree_error [agree_intros]: "agree Y Z parser_error parser_error"
  by (auto simp: agree_def parser_error_def)

lemma agree_bind [agree_intros]:
  assumes "agree Y Z p q" "\<And>x. agree Y Z (f x) (g x)"
  shows "agree Y Z (bind p f) (bind q g)"
  unfolding agree_def
proof (intro allI impI)
  fix i j bs
  assume i: "inp_yields Y i bs" "inp_yields Z j bs"
  from agreeD[OF assms(1) i]
  consider e where "p i = Inl e" "q j = Inl e"
    | x i' j' where "p i = Inr (x, i')" "q j = Inr (x, j')" "both_left Y Z bs i' j'"
    by (auto elim!: rel_sum.cases)
  then show "rel_sum (=) (rel_prod (=) (both_left Y Z bs)) (bind p f i) (bind q g j)"
  proof cases
    case 1
    then show ?thesis by (simp add: bind_def)
  next
    case (2 x i' j')
    then obtain used rest where r: "bs = used @ rest" "inp_yields Y i' rest" "inp_yields Z j' rest"
      by (auto simp: both_left_def)
    from agreeD[OF assms(2) r(2,3), of x] show ?thesis
      by (cases "f x i'"; cases "g x j'") (auto simp: bind_def 2 r(1) intro: both_left_longer)
  qed
qed

context block_stream
begin

lemma has_next_spec:
  assumes "inp_yields yields inp bs"
  shows "has_next next_block inp = None \<longleftrightarrow> bs = []"
    and "has_next next_block inp = Some inp' \<Longrightarrow> inp_yields yields inp' bs \<and> fst inp' \<noteq> []"
proof -
  obtain cur s rest where i: "inp = (cur, s)" "bs = cur @ rest" "yields s rest"
    using assms by (cases inp) (auto simp: inp_yields_def)
  from i(3) have "(has_next next_block inp = None \<longleftrightarrow> bs = []) \<and>
      (\<forall>j. has_next next_block inp = Some j \<longrightarrow> inp_yields yields j bs \<and> fst j \<noteq> [])"
    using i by (cases rule: block_cases) (auto simp: has_next_def next_input_buffer_def inp_yields_def)
  then show "has_next next_block inp = None \<longleftrightarrow> bs = []"
    "has_next next_block inp = Some inp' \<Longrightarrow> inp_yields yields inp' bs \<and> fst inp' \<noteq> []" by blast+
qed

lemma read_char_spec:
  assumes "inp_yields yields inp bs"
  shows "read_char next_block inp = (case has_next next_block inp of
      None \<Rightarrow> Inl BadTransactLog | Some i \<Rightarrow> Inr (hd (fst i), (tl (fst i), snd i)))"
  by (simp add: read_char_def has_next_def)

lemma read_char_reads [reads_intros]: "reads yields (read_char next_block) [c] c"
proof (rule readsI)
  fix inp rest
  assume i: "inp_yields yields inp ([c] @ rest)"
  then obtain i where s: "has_next next_block inp = Some i" using has_next_spec(1) by fastforce
  then have "inp_yields yields i ([c] @ rest)" "fst i \<noteq> []" using has_next_spec(2)[OF i] by auto
  then have "hd (fst i) = c" "inp_yields yields (tl (fst i), snd i) rest"
    by (cases "fst i"; auto simp: inp_yields_def)+
  then show "\<exists>inp'. read_char next_block inp = Inr (c, inp') \<and> inp_yields yields inp' rest"
    using read_char_spec[OF i] s by simp
qed

lemma read_char_end: "inp_yields yields inp [] \<Longrightarrow> read_char next_block inp = Inl BadTransactLog"
  using has_next_spec(1)[of inp "[]"] read_char_spec by simp

end

text \<open>Two streams that deliver the same bytes.\<close>

locale two_streams =
  one: block_stream next_block yields + two: block_stream next_block2 yields2
  for next_block :: "'s \<Rightarrow> (byte list \<times> 's) option" and yields
    and next_block2 :: "'t \<Rightarrow> (byte list \<times> 't) option" and yields2
begin

lemma agree_read_char [agree_intros]:
  "agree yields yields2 (read_char next_block) (read_char next_block2)"
  unfolding agree_def
proof (intro allI impI)
  fix i j bs
  assume i: "inp_yields yields i bs" "inp_yields yields2 j bs"
  show "rel_sum (=) (rel_prod (=) (both_left yields yields2 bs)) (read_char next_block i) (read_char next_block2 j)"
  proof (cases bs)
    case Nil
    then show ?thesis using one.read_char_end two.read_char_end i by simp
  next
    case (Cons c rest)
    then obtain i' j' where "read_char next_block i = Inr (c, i')" "inp_yields yields i' rest"
      "read_char next_block2 j = Inr (c, j')" "inp_yields yields2 j' rest"
      using readsD[OF one.read_char_reads, of i c rest] readsD[OF two.read_char_reads, of j c rest] i by auto
    then show ?thesis using both_left_longer[OF both_left_refl, of yields i' rest yields2 j' "[c]"] Cons by simp
  qed
qed

lemma agree_read_loop [agree_intros]:
  "agree yields yields2 (read_loop next_block t n i v part) (read_loop next_block2 t n i v part)"
  by (induction n arbitrary: i v part)
    (auto simp: Let_def intro!: agree_intros split: prod.splits bool.splits)

lemma agree_read_int [agree_intros]: "agree yields yields2 (read_int next_block t) (read_int next_block2 t)"
  by (auto simp: read_int_def intro!: agree_intros split: prod.splits bool.splits)

end

end
