(* ===== verification/TransactIntCorrect.thy ===== *)
theory TransactIntCorrect
  imports TransactInt
begin

text \<open>
  The integers of the log, for every pair of integer types: what \<open>read_int\<close> makes of the bytes that
  \<open>encode_int\<close> writes, and how many bytes those are.
\<close>

unbundle bit_operations_syntax

section \<open>Bits as arithmetic\<close>

lemma and_63: "(p :: int) AND 0x3F = p mod 64"
  using take_bit_eq_mask[of 6 p] by (simp add: take_bit_eq_mod mask_eq_exp_minus_1)

lemma and_127: "(p :: int) AND 0x7F = p mod 128"
  using take_bit_eq_mask[of 7 p] by (simp add: take_bit_eq_mod mask_eq_exp_minus_1)

lemma and_128: "(p :: int) AND 0x80 = 0 \<longleftrightarrow> even (p div 128)"
  using and_exp_eq_0_iff_not_bit[of p 7] by (simp add: bit_iff_odd)

lemma and_64: "(p :: int) AND 0x40 = 0 \<longleftrightarrow> even (p div 64)"
  using and_exp_eq_0_iff_not_bit[of p 6] by (simp add: bit_iff_odd)

lemma or_shift: "0 \<le> a \<Longrightarrow> a < 2 ^ k \<Longrightarrow> (a :: int) OR p * 2 ^ k = a + p * 2 ^ k"
  using concat_bit_eq[of k a p] unfolding concat_bit_def by (simp add: take_bit_int_eq_self push_bit_eq_mult)

lemma or_128: "0 \<le> a \<Longrightarrow> a < 128 \<Longrightarrow> (0x80 :: int) OR a = a + 128"
  using or_shift[of a 7 1] by (simp add: or.commute)

lemma or_64: "0 \<le> a \<Longrightarrow> a < 64 \<Longrightarrow> (0x40 :: int) OR a = a + 64"
  using or_shift[of a 6 1] by (simp add: or.commute)

lemma uint_byte: "0 \<le> x \<Longrightarrow> x < 256 \<Longrightarrow> uint (word_of_int x :: byte) = x"
  by (simp add: uint_word_of_int)

lemma byte_range: "0 \<le> uint (c :: byte)" "uint (c :: byte) < 256"
  using uint_lt2p[of c] by auto

lemma pow_multiple_le:
  assumes "a \<le> b" "x * 2 ^ a < 2 ^ b" "acc < 2 ^ a"
  shows "acc + x * 2 ^ a < (2 :: int) ^ b"
proof -
  have b: "(2 :: int) ^ b = 2 ^ (b - a) * 2 ^ a" using assms(1) by (simp flip: power_add)
  then have "x < 2 ^ (b - a)" using assms(2) by simp
  then have "(x + 1) * 2 ^ a \<le> 2 ^ (b - a) * (2 :: int) ^ a" by (intro mult_right_mono) auto
  then show ?thesis using b assms(3) by (simp add: algebra_simps)
qed

lemma low_digit: "r + 128 * q = v \<Longrightarrow> acc + r * p + q * (128 * p) = acc + v * (p :: int)"
  by (auto simp: algebra_simps)

section \<open>One number\<close>

text \<open>A non-negative number of at most \<open>7 * n - 1\<close> bits, encoded and read from byte \<open>i\<close> on, where the
  reader may use \<open>m\<close> more bytes and has \<open>acc\<close> from the bytes before. The sign bit \<open>s\<close> is the caller's.\<close>

lemma encode_small: "0 \<le> v \<Longrightarrow> v < 64 \<Longrightarrow> encode_loop n v = ([], v)"
  by (cases n) (auto simp: drop_bit_eq_div)

lemma encode_big:
  "64 \<le> v \<Longrightarrow> encode_loop (Suc n) v =
    (word_of_int (v mod 128 + 128) # fst (encode_loop n (v div 128)), snd (encode_loop n (v div 128)))"
  by (simp add: drop_bit_eq_div and_127 or_128 split: prod.splits)

lemma encode_loop_last:
  "0 \<le> v \<Longrightarrow> v < 2 ^ (7 * n) * 64 \<Longrightarrow> 0 \<le> snd (encode_loop n v) \<and> snd (encode_loop n v) < 64"
proof (induction n arbitrary: v)
  case 0
  then show ?case by simp
next
  case (Suc n)
  then have "v div 128 < 2 ^ (7 * n) * 64" by (simp add: power_add)
  then show ?case using Suc encode_small[of v "Suc n"] encode_big[of v n] by (cases "v < 64") auto
qed

lemma encode_loop_length:
  "0 \<le> v \<Longrightarrow> v < 2 ^ (7 * k) * 64 \<Longrightarrow> length (fst (encode_loop n v)) \<le> k"
proof (induction k arbitrary: n v)
  case 0
  then show ?case by (simp add: encode_small)
next
  case (Suc k)
  then have "v div 128 < 2 ^ (7 * k) * 64" by (simp add: power_add)
  then show ?case
    using Suc encode_small[of v n] encode_big[of v "n - 1"] by (cases "v < 64"; cases n) auto
qed

lemma max_bytes_eq: "max_bytes t = Suc (digits t div 7)"
  by (simp add: max_bytes_def)

definition loop_body ::
  "'s next_block \<Rightarrow> int_type \<Rightarrow> nat \<Rightarrow> nat \<Rightarrow> int \<Rightarrow> byte \<Rightarrow> ('s, int \<times> int) reader" where
  "loop_body nb t m i acc c =
     (let part = uint c
      in if part AND 0x80 = 0 then
           (case int_shift_left_with_overflow_detect t (part AND 0x3F) (i * 7) of
              (True, _) \<Rightarrow> parser_error
            | (False, p) \<Rightarrow> ret (acc OR p, part))
         else if m = 0 then parser_error
         else read_loop nb t m (i + 1) (acc OR push_bit (i * 7) (part AND 0x7F)) part)"

lemma read_loop_body: "read_loop nb t (Suc m) i acc part = bind (read_char nb) (loop_body nb t m i acc)"
  unfolding read_loop.simps by (rule arg_cong[where f = "bind (read_char nb)"]) (simp add: loop_body_def fun_eq_iff)

lemma loop_body_last:
  assumes "uint c = v + s" "0 \<le> v" "v < 64" "s = 0 \<or> s = 64" "0 \<le> acc" "acc < 2 ^ (7 * i)"
  shows "loop_body nb t m i acc c =
    (if v * 2 ^ (7 * i) \<le> lim_max t then ret (acc + v * 2 ^ (7 * i), v + s) else parser_error)"
proof -
  have "(v + s) div 128 = 0" "(v + s) mod 64 = v" using assms by auto
  moreover have "in_type t (v * 2 ^ (7 * i)) \<longleftrightarrow> v * 2 ^ (7 * i) \<le> lim_max t" using assms(2) by (simp add: nonneg_in_type)
  ultimately show ?thesis
    using assms by (simp add: loop_body_def Let_def and_128 and_63 int_shift_left_correct or_shift mult.commute)
qed

lemma loop_body_more:
  assumes "uint c = b + 128" "0 \<le> b" "b < 128" "0 \<le> acc" "acc < 2 ^ (7 * i)"
  shows "loop_body nb t m i acc c =
    (if m = 0 then parser_error else read_loop nb t m (i + 1) (acc + b * 2 ^ (7 * i)) (uint c))"
proof -
  have "(b + 128) div 128 = 1" "(b + 128) mod 128 = b" using assms by auto
  then show ?thesis
    using assms by (simp add: loop_body_def Let_def and_128 and_127 push_bit_eq_mult or_shift mult.commute)
qed

lemma last_fits:
  assumes "0 \<le> v" "acc < 2 ^ (7 * i)" "0 \<le> acc" "7 * i \<le> digits t"
  shows "v * 2 ^ (7 * i) \<le> lim_max t \<longleftrightarrow> acc + v * 2 ^ (7 * i) \<le> lim_max t"
  using pow_multiple_le[of "7 * i" "digits t" v acc] assms unfolding lim_max_def by linarith

declare read_loop.simps [simp del]

context block_stream
begin

lemma reads_char_bind: "reads yields (f c) bs y \<Longrightarrow> reads yields (bind (read_char next_block) f) (c # bs) y"
  using reads_bind[OF read_char_reads] by fastforce

lemma rejects_char_bind: "rejects yields (f c) bs \<Longrightarrow> rejects yields (bind (read_char next_block) f) (c # bs)"
  using rejects_bind[OF read_char_reads] by fastforce

lemma read_loop_last:
  assumes "uint c = v + s" "0 \<le> v" "v < 64" "s = 0 \<or> s = 64" "0 \<le> acc" "acc < 2 ^ (7 * i)"
  shows "if v * 2 ^ (7 * i) \<le> lim_max t
    then reads yields (read_loop next_block t (Suc m) i acc part) [c] (acc + v * 2 ^ (7 * i), v + s)
    else rejects yields (read_loop next_block t (Suc m) i acc part) [c]"
  unfolding read_loop_body
  by (auto intro!: reads_char_bind rejects_char_bind simp: loop_body_last[OF assms] reads_ret rejects_error)

lemma read_loop_encoded:
  assumes "0 \<le> v" "v < 2 ^ (7 * n) * 64" "s = 0 \<or> s = 64" "0 \<le> acc" "acc < 2 ^ (7 * i)"
    "m + i = max_bytes t" "0 < m"
  shows "if acc + v * 2 ^ (7 * i) \<le> lim_max t
    then reads yields (read_loop next_block t m i acc part)
      (fst (encode_loop n v) @ [word_of_int (snd (encode_loop n v) + s)])
      (acc + v * 2 ^ (7 * i), snd (encode_loop n v) + s)
    else rejects yields (read_loop next_block t m i acc part)
      (fst (encode_loop n v) @ [word_of_int (snd (encode_loop n v) + s)])"
  using assms
proof (induction n arbitrary: v m i acc part)
  case 0
  then obtain k where "m = Suc k" using not0_implies_Suc by blast
  moreover have "7 * i \<le> digits t" using 0 by (simp add: max_bytes_eq)
  moreover have "uint (word_of_int (v + s) :: byte) = v + s" using 0 by (intro uint_byte) auto
  ultimately show ?case
    using read_loop_last[of _ v s acc i t k part] last_fits[of v acc i t] 0 by (simp del: of_int_add)
next
  case (Suc n)
  obtain k where m: "m = Suc k" using Suc.prems(7) not0_implies_Suc by blast
  have i: "7 * i \<le> digits t" using Suc.prems m by (simp add: max_bytes_eq)
  show ?case
  proof (cases "v < 64")
    case True
    have "uint (word_of_int (v + s) :: byte) = v + s" using Suc.prems(1,3) True by (intro uint_byte) auto
    then show ?thesis
      using read_loop_last[of _ v s acc i t k part] last_fits[of v acc i t] Suc.prems i m encode_small[of v "Suc n"] True
      by (simp del: of_int_add)
  next
    case False
    let ?c = "word_of_int (v mod 128 + 128) :: byte"
    let ?acc = "acc + v mod 128 * 2 ^ (7 * i)"
    have u: "uint ?c = v mod 128 + 128" by (intro uint_byte) auto
    obtain f where f: "read_loop next_block t m i acc part = bind (read_char next_block) f"
        "f ?c = (if k = 0 then parser_error else read_loop next_block t k (i + 1) ?acc (uint ?c))"
      using read_loop_body[of next_block t k i acc part] loop_body_more[OF u, of acc i next_block t k] Suc.prems(4,5) m
      by simp
    have enc: "encode_loop (Suc n) v = (?c # fst (encode_loop n (v div 128)), snd (encode_loop n (v div 128)))"
      using encode_big False by simp
    let ?bs = "fst (encode_loop n (v div 128)) @ [word_of_int (snd (encode_loop n (v div 128)) + s)]"
    have total: "?acc + v div 128 * 2 ^ (7 * (i + 1)) = acc + v * 2 ^ (7 * i)"
      using low_digit[OF mod_mult_div_eq[of v 128]] by (simp add: power_add)
    show ?thesis
    proof (cases "k = 0")
      case True
      have "64 * 2 ^ (7 * i) \<le> v * (2 :: int) ^ (7 * i)" using False by (intro mult_right_mono) auto
      moreover have "digits t \<le> 7 * i + 6" using Suc.prems(6) m True by (simp add: max_bytes_eq)
      then have "(2 :: int) ^ digits t \<le> 64 * 2 ^ (7 * i)" using pow_le[of "digits t" "7 * i + 6"] by (simp add: power_add)
      ultimately have "\<not> acc + v * 2 ^ (7 * i) \<le> lim_max t" using Suc.prems(4) unfolding lim_max_def by linarith
      moreover have "rejects yields (read_loop next_block t m i acc part) (?c # ?bs)"
        unfolding f(1) using rejects_longer[OF rejects_error, of _ ?bs] True
        by (intro rejects_char_bind) (simp only: f(2) append_Nil if_True refl)
      ultimately show ?thesis unfolding enc by (simp del: of_int_add)
    next
      case False2: False
      have "?acc < 2 ^ (7 * (i + 1))"
        using pow_multiple_le[of "7 * i" "7 * (i + 1)" "v mod 128" acc] Suc.prems(5)
        by (simp add: power_add)
      moreover have "v div 128 < 2 ^ (7 * n) * 64" using Suc.prems(2) by (simp add: power_add)
      moreover have "0 \<le> v div 128" "0 \<le> ?acc" using Suc.prems(1,4) by auto
      ultimately have ih: "if acc + v * 2 ^ (7 * i) \<le> lim_max t
        then reads yields (read_loop next_block t k (i + 1) ?acc (uint ?c)) ?bs
          (acc + v * 2 ^ (7 * i), snd (encode_loop n (v div 128)) + s)
        else rejects yields (read_loop next_block t k (i + 1) ?acc (uint ?c)) ?bs"
        by (intro Suc.IH[of "v div 128" ?acc "i + 1" k "uint ?c", unfolded total]) (use Suc.prems(3,6) m False2 in simp_all)
      have fc: "f ?c = read_loop next_block t k (i + 1) ?acc (uint ?c)" using f(2) False2 by (simp only: if_False)
      have g: "if acc + v * 2 ^ (7 * i) \<le> lim_max t
        then reads yields (f ?c) ?bs (acc + v * 2 ^ (7 * i), snd (encode_loop n (v div 128)) + s)
        else rejects yields (f ?c) ?bs" unfolding fc by (rule ih)
      show ?thesis
        using g unfolding f(1) enc by (auto intro!: reads_char_bind rejects_char_bind split: if_splits)
    qed
  qed
qed

text \<open>A negative value \<open>v\<close> is written as \<open>- (v + 1)\<close> with the sign bit. An unsigned reader takes it for
  \<open>v + 2 ^ digits\<close>, unless \<open>v\<close> is \<open>-1\<close>.\<close>

end

definition magnitude :: "int \<Rightarrow> int" where
  "magnitude v = (if v < 0 then - (v + 1) else v)"

definition decoded :: "int_type \<Rightarrow> int \<Rightarrow> int option" where
  "decoded t v =
     (if in_type t v then Some v
      else if \<not> is_signed t \<and> v < - 1 \<and> magnitude v \<le> lim_max t then Some (v + 2 ^ digits t)
      else None)"

lemma decoded_fits: "(decoded t v = None \<and> v \<noteq> - 1) \<longleftrightarrow> (\<not> magnitude v \<le> lim_max t \<and> v \<noteq> - 1)"
  by (auto simp: decoded_def magnitude_def int_type_defs)

lemma encode_int_split:
  assumes "in_type T v"
  obtains bs last s where "encode_int T v = bs @ [word_of_int (last + s)]"
    "fst (encode_loop (max_bytes T) (magnitude v)) = bs" "snd (encode_loop (max_bytes T) (magnitude v)) = last"
    "0 \<le> last" "last < 64" "s = (if v < 0 then 64 else 0)" "0 \<le> magnitude v"
    "magnitude v < 2 ^ (7 * max_bytes T) * 64"
proof -
  have n: "is_negative T v \<longleftrightarrow> v < 0" using assms by (auto simp: is_negative_def int_type_defs)
  have "digits T \<le> 7 * max_bytes T" by (simp add: max_bytes_eq)
  then have "(2 :: int) ^ digits T \<le> 2 ^ (7 * max_bytes T)" by (rule pow_le)
  moreover have "magnitude v < 2 ^ digits T" "0 \<le> magnitude v"
    using assms by (auto simp: magnitude_def int_type_defs split: if_splits)
  ultimately have m: "0 \<le> magnitude v" "magnitude v < 2 ^ (7 * max_bytes T) * 64" by linarith+
  let ?e = "encode_loop (max_bytes T) (magnitude v)"
  have "encode_int T v = fst ?e @ [word_of_int (if v < 0 then 0x40 OR snd ?e else snd ?e)]"
    unfolding encode_int_def n magnitude_def by (simp add: Let_def split: prod.splits)
  then show ?thesis
    using that[of "fst ?e" "snd ?e" "if v < 0 then 64 else 0"] encode_loop_last[OF m] m
    by (auto simp: or_64 add.commute)
qed

context block_stream
begin

lemma read_int_encoded:
  assumes "in_type T v" "machine_type U"
  shows "case decoded U v of
      Some x \<Rightarrow> reads yields (read_int next_block U) (encode_int T v) x
    | None \<Rightarrow> rejects yields (read_int next_block U) (encode_int T v)"
proof -
  obtain bs l s where e: "encode_int T v = bs @ [word_of_int (l + s)]"
    "fst (encode_loop (max_bytes T) (magnitude v)) = bs" "snd (encode_loop (max_bytes T) (magnitude v)) = l"
    "0 \<le> l" "l < 64" "s = (if v < 0 then 64 else 0)" "0 \<le> magnitude v"
    "magnitude v < 2 ^ (7 * max_bytes T) * 64"
    using encode_int_split[OF assms(1)] .
  have loop: "if magnitude v \<le> lim_max U
      then reads yields (read_loop next_block U (max_bytes U) 0 0 0) (encode_int T v) (magnitude v, l + s)
      else rejects yields (read_loop next_block U (max_bytes U) 0 0 0) (encode_int T v)"
  proof -
    have "0 < max_bytes U" by (simp add: max_bytes_eq)
    then show ?thesis
      using read_loop_encoded[of "magnitude v" "max_bytes T" s 0 0 "max_bytes U" U 0] e(6,7,8)
      unfolding e(1,2,3) by (auto split: if_splits simp del: of_int_add)
  qed
  have s: "(l + s) AND 0x40 \<noteq> 0 \<longleftrightarrow> v < 0"
  proof -
    have "l div 64 = 0" "(l + 64) div 64 = 1" using e(4,5) by auto
    then show ?thesis using e(6) by (simp add: and_64)
  qed
  show ?thesis
  proof (cases "magnitude v \<le> lim_max U")
    case False
    then have "decoded U v = None" using decoded_fits[of U v] by (auto simp: magnitude_def lim_max_def)
    then show ?thesis using loop False by (simp add: read_int_def rejects_bind_first)
  next
    case True
    then have r: "reads yields (read_loop next_block U (max_bytes U) 0 0 0) (encode_int T v) (magnitude v, l + s)"
      using loop by simp
    show ?thesis
    proof (cases "v < 0")
      case False
      then have "decoded U v = Some v" using True by (auto simp: decoded_def magnitude_def nonneg_in_type)
      then show ?thesis
        using reads_bind[OF r reads_ret, of "\<lambda>_. v"] s False r
        unfolding read_int_def by (auto intro!: reads_bind_eq[OF r] reads_ret simp: magnitude_def)
    next
      case neg: True
      let ?m = "magnitude v"
      have m: "0 \<le> ?m" "?m \<le> lim_max U" "v = - ?m - 1" using True neg by (auto simp: magnitude_def)
      have i: "in_type U (negate_in U ?m)"
        using m cast_range[of "digits U" "- ?m"] by (auto simp: negate_in_def int_type_defs)
      have sub: "int_subtract_with_overflow_detect U int_t (negate_in U ?m) 1 =
          (if in_type U (negate_in U ?m - 1) then (False, negate_in U ?m - 1) else (True, negate_in U ?m))"
        using i assms(2) by (intro int_sub_correct) (simp_all add: int_t_def int_type_defs machine_type_def)
      have d: "decoded U v = (if in_type U (negate_in U ?m - 1) then Some (negate_in U ?m - 1) else None)"
      proof (cases "is_signed U")
        case True
        then show ?thesis using m by (auto simp: decoded_def negate_in_def)
      next
        case False
        then have "negate_in U ?m = (if ?m = 0 then 0 else 2 ^ digits U - ?m)"
          using m cast_neg[of "- ?m" "digits U"] by (auto simp: negate_in_def lim_max_def)
        then show ?thesis using False m by (auto simp: decoded_def int_type_defs)
      qed
      show ?thesis
        unfolding read_int_def d using neg s sub
        by (auto intro!: reads_bind_eq[OF r] reads_ret rejects_bind[OF r, of _ "[]", simplified] rejects_error)
    qed
  qed
qed

end

end
