(* ===== verification/TransactOps.thy ===== *)
theory TransactOps
  imports TransactIntCorrect
begin

text \<open>
  The vocabulary of the transaction log (\<open>impl/transact_log.hpp\<close>, \<open>data_type.hpp\<close>): its instructions, the
  types of columns and links with their numbers, the values of a mixed column, and one constructor of
  \<open>operation\<close> for every method that the parser calls on its handler. Rows, columns, tables and sizes are
  natural numbers; a value of a floating point type is its object representation, a list of bytes.
\<close>

section \<open>Instructions\<close>

datatype instruction =
    instr_InsertGroupLevelTable | instr_EraseGroupLevelTable | instr_RenameGroupLevelTable |
    instr_MoveGroupLevelTable | instr_SelectTable | instr_Set | instr_SetUnique |
    instr_SetDefault | instr_AddInteger | instr_NullifyLink | instr_InsertSubstring |
    instr_EraseFromString | instr_InsertEmptyRows | instr_EraseRows | instr_SwapRows |
    instr_MoveRow | instr_MergeRows | instr_ClearTable | instr_OptimizeTable |
    instr_SelectDescriptor | instr_InsertColumn | instr_InsertLinkColumn |
    instr_InsertNullableColumn | instr_EraseColumn | instr_EraseLinkColumn | instr_RenameColumn |
    instr_MoveColumn | instr_AddSearchIndex | instr_RemoveSearchIndex | instr_SetLinkType |
    instr_SelectLinkList | instr_LinkListSet | instr_LinkListInsert | instr_LinkListMove |
    instr_LinkListSwap | instr_LinkListErase | instr_LinkListNullify | instr_LinkListClear |
    instr_LinkListSetAll | instr_AddRowWithKey

fun instr_code :: "instruction \<Rightarrow> int" where
  "instr_code instr_InsertGroupLevelTable = 1"
| "instr_code instr_EraseGroupLevelTable = 2"
| "instr_code instr_RenameGroupLevelTable = 3"
| "instr_code instr_MoveGroupLevelTable = 4"
| "instr_code instr_SelectTable = 5"
| "instr_code instr_Set = 6"
| "instr_code instr_SetUnique = 7"
| "instr_code instr_SetDefault = 8"
| "instr_code instr_AddInteger = 9"
| "instr_code instr_NullifyLink = 10"
| "instr_code instr_InsertSubstring = 11"
| "instr_code instr_EraseFromString = 12"
| "instr_code instr_InsertEmptyRows = 13"
| "instr_code instr_EraseRows = 14"
| "instr_code instr_SwapRows = 15"
| "instr_code instr_MoveRow = 16"
| "instr_code instr_MergeRows = 17"
| "instr_code instr_ClearTable = 18"
| "instr_code instr_OptimizeTable = 19"
| "instr_code instr_SelectDescriptor = 20"
| "instr_code instr_InsertColumn = 21"
| "instr_code instr_InsertLinkColumn = 22"
| "instr_code instr_InsertNullableColumn = 23"
| "instr_code instr_EraseColumn = 24"
| "instr_code instr_EraseLinkColumn = 25"
| "instr_code instr_RenameColumn = 26"
| "instr_code instr_MoveColumn = 27"
| "instr_code instr_AddSearchIndex = 28"
| "instr_code instr_RemoveSearchIndex = 29"
| "instr_code instr_SetLinkType = 30"
| "instr_code instr_SelectLinkList = 31"
| "instr_code instr_LinkListSet = 32"
| "instr_code instr_LinkListInsert = 33"
| "instr_code instr_LinkListMove = 34"
| "instr_code instr_LinkListSwap = 35"
| "instr_code instr_LinkListErase = 36"
| "instr_code instr_LinkListNullify = 37"
| "instr_code instr_LinkListClear = 38"
| "instr_code instr_LinkListSetAll = 39"
| "instr_code instr_AddRowWithKey = 40"

definition instructions :: "instruction list" where
  "instructions =
    [instr_InsertGroupLevelTable, instr_EraseGroupLevelTable, instr_RenameGroupLevelTable,
     instr_MoveGroupLevelTable, instr_SelectTable, instr_Set, instr_SetUnique, instr_SetDefault,
     instr_AddInteger, instr_NullifyLink, instr_InsertSubstring, instr_EraseFromString,
     instr_InsertEmptyRows, instr_EraseRows, instr_SwapRows, instr_MoveRow, instr_MergeRows,
     instr_ClearTable, instr_OptimizeTable, instr_SelectDescriptor, instr_InsertColumn,
     instr_InsertLinkColumn, instr_InsertNullableColumn, instr_EraseColumn, instr_EraseLinkColumn,
     instr_RenameColumn, instr_MoveColumn, instr_AddSearchIndex, instr_RemoveSearchIndex,
     instr_SetLinkType, instr_SelectLinkList, instr_LinkListSet, instr_LinkListInsert,
     instr_LinkListMove, instr_LinkListSwap, instr_LinkListErase, instr_LinkListNullify,
     instr_LinkListClear, instr_LinkListSetAll, instr_AddRowWithKey]"

text \<open>The conversion of the byte of an instruction, and the label of the \<open>switch\<close> it reaches.\<close>

definition instr_of :: "byte \<Rightarrow> instruction option" where
  "instr_of c = List.find (\<lambda>i. instr_code i = sint c) instructions"

section \<open>Types of columns and links\<close>

datatype data_type =
    type_Int | type_Bool | type_Float | type_Double | type_String | type_Binary | type_OldDateTime
  | type_Timestamp | type_Table | type_Mixed | type_Link | type_LinkList

fun type_code :: "data_type \<Rightarrow> int" where
  "type_code type_Int = 0"
| "type_code type_Bool = 1"
| "type_code type_Float = 9"
| "type_code type_Double = 10"
| "type_code type_String = 2"
| "type_code type_Binary = 4"
| "type_code type_OldDateTime = 7"
| "type_code type_Timestamp = 8"
| "type_code type_Table = 5"
| "type_code type_Mixed = 6"
| "type_code type_Link = 12"
| "type_code type_LinkList = 13"

definition data_types :: "data_type list" where
  "data_types =
    [type_Int, type_Bool, type_Float, type_Double, type_String, type_Binary, type_OldDateTime,
     type_Timestamp, type_Table, type_Mixed, type_Link, type_LinkList]"

definition type_of_code :: "int \<Rightarrow> data_type option" where
  "type_of_code c = List.find (\<lambda>t. type_code t = c) data_types"

definition is_valid_data_type :: "int \<Rightarrow> bool" where
  "is_valid_data_type c \<longleftrightarrow> type_of_code c \<noteq> None"

datatype link_type = link_Strong | link_Weak

fun link_code :: "link_type \<Rightarrow> int" where
  "link_code link_Strong = 0"
| "link_code link_Weak = 1"

definition link_of_code :: "int \<Rightarrow> link_type option" where
  "link_of_code c = List.find (\<lambda>t. link_code t = c) [link_Strong, link_Weak]"

definition is_valid_link_type :: "int \<Rightarrow> bool" where
  "is_valid_link_type c \<longleftrightarrow> link_of_code c \<noteq> None"

section \<open>Operations\<close>

datatype mixed =
    Mixed_Int int | Mixed_Bool bool | Mixed_Float "byte list" | Mixed_Double "byte list"
  | Mixed_OldDateTime int | Mixed_Timestamp int int | Mixed_String "byte list" | Mixed_Binary "byte list"
  | Mixed_Table

text \<open>No selection needed.\<close>

datatype group_op =
    OpSelectTable nat "(nat \<times> nat) list"
  | OpSelectDescriptor "nat list"
  | OpSelectLinkList nat nat nat
  | OpInsertGroupLevelTable nat nat "byte list"
  | OpEraseGroupLevelTable nat nat
  | OpRenameGroupLevelTable nat "byte list"

text \<open>Must have a table selected: its rows, and the fields of its rows.\<close>

datatype row_op =
    OpInsertEmptyRows nat nat nat bool
  | OpAddRowWithKey nat nat nat int
  | OpEraseRows nat nat nat bool
  | OpSwapRows nat nat
  | OpMoveRow nat nat
  | OpMergeRows nat nat
  | OpClearTable nat
  | OpOptimizeTable

datatype field_op =
    OpSetInt nat nat int instruction nat
  | OpAddInt nat nat int
  | OpSetBool nat nat bool instruction
  | OpSetFloat nat nat "byte list" instruction
  | OpSetDouble nat nat "byte list" instruction
  | OpSetString nat nat "byte list" instruction nat
  | OpSetBinary nat nat "byte list" instruction
  | OpSetOldDateTime nat nat int instruction
  | OpSetTimestamp nat nat int int instruction
  | OpSetTable nat nat instruction
  | OpSetMixed nat nat mixed instruction
  | OpSetLink nat nat nat nat instruction
  | OpSetNull nat nat instruction nat
  | OpNullifyLink nat nat nat
  | OpInsertSubstring nat nat nat "byte list"
  | OpEraseSubstring nat nat nat nat

text \<open>Must have a descriptor selected.\<close>

datatype column_op =
    OpInsertLinkColumn nat data_type "byte list" nat nat
  | OpInsertColumn nat data_type "byte list" bool
  | OpEraseLinkColumn nat nat nat
  | OpEraseColumn nat
  | OpRenameColumn nat "byte list"
  | OpAddSearchIndex nat
  | OpRemoveSearchIndex nat
  | OpSetLinkType nat link_type

text \<open>Must have a link list selected.\<close>

datatype link_list_op =
    OpLinkListSet nat nat nat
  | OpLinkListInsert nat nat nat
  | OpLinkListMove nat nat
  | OpLinkListSwap nat nat
  | OpLinkListErase nat nat
  | OpLinkListNullify nat nat
  | OpLinkListClear nat

datatype operation =
    GroupOp group_op
  | RowOp row_op
  | FieldOp field_op
  | ColumnOp column_op
  | LinkListOp link_list_op

lemma instr_of_code [simp]: "instr_of (word_of_int (instr_code i)) = Some i"
  by (cases i) (simp_all add: instr_of_def instructions_def)

lemma type_of_code [simp]: "type_of_code (type_code t) = Some t"
  by (cases t) (simp_all add: type_of_code_def data_types_def)

lemma link_of_code [simp]: "link_of_code (link_code t) = Some t"
  by (cases t) (simp_all add: link_of_code_def)

lemma type_code_range: "0 \<le> type_code t \<and> type_code t < 64"
  by (cases t) simp_all

lemma type_of_code_SomeD: "type_of_code c = Some t \<Longrightarrow> c = type_code t"
  by (auto simp: type_of_code_def find_Some_iff)

lemma instr_of_SomeD: "instr_of c = Some i \<Longrightarrow> sint c = instr_code i"
  by (auto simp: instr_of_def find_Some_iff)

end
