(* ===== verification/TransactEncode.thy ===== *)
theory TransactEncode
  imports TransactOps Buffers
begin

text \<open>
  \<open>TransactLogEncoder\<close> (\<open>impl/transact_log.hpp\<close>): every method appends one instruction, a code followed by
  its arguments. The encoder keeps a pointer into a chunk of free space of its stream; \<open>reserve\<close> asks for
  enough of it for the largest encoding of all the arguments, the arguments are written, and \<open>advance\<close>
  moves the pointer. \<open>enc_log\<close> is what was written before the pointer and \<open>enc_free\<close> how much room there
  is behind it. The stream is the parameter \<open>rsv\<close>, its \<open>transact_log_reserve\<close>: from the bytes in use, the
  free bytes and the request to the new number of free bytes, or the exception \<open>BufferSizeOverflow\<close>.
  Writing past the free space is undefined in C++ and the error \<open>Overrun\<close> here. The methods that
  write the three selections are in a file that the repository does not have, and parameters.
\<close>

section \<open>Writing into reserved space\<close>

record encoder =
  enc_log :: "byte list"
  enc_free :: nat

datatype encode_error = BufferSizeOverflow | Overrun

type_synonym reserve_fun = "nat \<Rightarrow> nat \<Rightarrow> nat \<Rightarrow> nat option"

text \<open>\<open>TransactLogBufferStream\<close>, over a buffer of \<open>used + free\<close> bytes.\<close>

definition buffer_stream_reserve :: reserve_fun where
  "buffer_stream_reserve used free n =
     (case buf_reserve_extra used n (replicate (used + free) (Some (0 :: byte))) of
        None \<Rightarrow> None
      | Some b \<Rightarrow> Some (length b - used))"

definition enc_reserve :: "reserve_fun \<Rightarrow> nat \<Rightarrow> encoder \<Rightarrow> encode_error + encoder" where
  "enc_reserve rsv n e =
     (if enc_free e < n then
        (case rsv (length (enc_log e)) (enc_free e) n of
           None \<Rightarrow> Inl BufferSizeOverflow
         | Some free \<Rightarrow> Inr (e\<lparr>enc_free := free\<rparr>))
      else Inr e)"

text \<open>A position: the encoder and what was written behind its pointer.\<close>

type_synonym position = "encoder \<times> byte list"

definition enc_advance :: "position \<Rightarrow> encoder" where
  "enc_advance p = (fst p)\<lparr>enc_log := enc_log (fst p) @ snd p, enc_free := enc_free (fst p) - length (snd p)\<rparr>"

definition put :: "byte list \<Rightarrow> position \<Rightarrow> encode_error + position" where
  "put bs p =
     (if length (snd p) + length bs \<le> enc_free (fst p) then Inr (fst p, snd p @ bs) else Inl Overrun)"

section \<open>Arguments\<close>

text \<open>The argument types for which \<open>encode\<close> and \<open>max_size\<close> are specialised.\<close>

datatype arg =
    AInstr instruction
  | ABool bool
  | AFloat "byte list"
  | ADouble "byte list"
  | AType data_type
  | AInt int_type int
  | AString "byte list"
  | AIntegerList "int list"
  | AUnsignedList "nat list"

definition max_enc_bytes_per_int :: nat where
  "max_enc_bytes_per_int = 10"

definition max_enc_bytes_per_num :: nat where
  "max_enc_bytes_per_num = (if max_enc_bytes_per_int < 8 then 8 else max_enc_bytes_per_int)"

definition max_numbers_per_chunk :: nat where
  "max_numbers_per_chunk = 8"

definition encode_char :: "int \<Rightarrow> byte list" where
  "encode_char v = [word_of_int v]"

function encode_integers :: "reserve_fun \<Rightarrow> int list \<Rightarrow> position \<Rightarrow> encode_error + position" where
  "encode_integers rsv vs p =
     (if length vs > max_numbers_per_chunk then
        (case put (concat (map (encode_int int64_type) (take max_numbers_per_chunk vs))) p of
           Inl e \<Rightarrow> Inl e
         | Inr p' \<Rightarrow>
             (case enc_reserve rsv (max_enc_bytes_per_num * max_numbers_per_chunk) (enc_advance p') of
                Inl e \<Rightarrow> Inl e
              | Inr e \<Rightarrow> encode_integers rsv (drop max_numbers_per_chunk vs) (e, [])))
      else put (concat (map (encode_int int64_type) vs)) p)"
  by pat_completeness auto
termination
  by (relation "measure (\<lambda>(rsv, vs, p). length vs)") (auto simp: max_numbers_per_chunk_def)

declare encode_integers.simps [simp del]

fun encode :: "reserve_fun \<Rightarrow> arg \<Rightarrow> position \<Rightarrow> encode_error + position" where
  "encode rsv (AInstr i) p = put (encode_char (instr_code i)) p"
| "encode rsv (ABool b) p = put (encode_char (if b then 1 else 0)) p"
| "encode rsv (AFloat f) p = put f p"
| "encode rsv (ADouble d) p = put d p"
| "encode rsv (AType t) p = put (encode_char (type_code t)) p"
| "encode rsv (AInt t v) p = put (encode_int (promote t) v) p"
| "encode rsv (AString s) p = put (encode_int size_type (int (length s)) @ s) p"
| "encode rsv (AIntegerList vs) p = encode_integers rsv vs p"
| "encode rsv (AUnsignedList ns) p = put (concat (map (\<lambda>n. encode_int size_type (int n)) ns)) p"

fun arg_max_size :: "arg \<Rightarrow> nat" where
  "arg_max_size (AInstr i) = 1"
| "arg_max_size (ABool b) = 1"
| "arg_max_size (AFloat f) = max_enc_bytes_per_num"
| "arg_max_size (ADouble d) = max_enc_bytes_per_num"
| "arg_max_size (AType t) = 1"
| "arg_max_size (AInt t v) = max_enc_bytes_per_num"
| "arg_max_size (AString s) = max_enc_bytes_per_num + length s"
| "arg_max_size (AIntegerList vs) = max_enc_bytes_per_num * max_numbers_per_chunk"
| "arg_max_size (AUnsignedList ns) = max_enc_bytes_per_num * length ns"

fun max_size_list :: "arg list \<Rightarrow> nat" where
  "max_size_list [] = 0"
| "max_size_list (a # args) = arg_max_size a + max_size_list args"

fun encode_list :: "reserve_fun \<Rightarrow> arg list \<Rightarrow> position \<Rightarrow> encode_error + encoder" where
  "encode_list rsv [] p = Inr (enc_advance p)"
| "encode_list rsv (a # args) p =
     (case encode rsv a p of Inl e \<Rightarrow> Inl e | Inr p' \<Rightarrow> encode_list rsv args p')"

definition append_simple_instr :: "reserve_fun \<Rightarrow> arg list \<Rightarrow> encoder \<Rightarrow> encode_error + encoder" where
  "append_simple_instr rsv numbers e =
     (case enc_reserve rsv (max_size_list numbers) e of
        Inl err \<Rightarrow> Inl err
      | Inr e' \<Rightarrow> encode_list rsv numbers (e', []))"

abbreviation ASize :: "nat \<Rightarrow> arg" where
  "ASize n \<equiv> AInt size_type (int n)"

fun append_mixed_instr ::
  "reserve_fun \<Rightarrow> instruction \<Rightarrow> mixed \<Rightarrow> arg list \<Rightarrow> encoder \<Rightarrow> encode_error + encoder" where
  "append_mixed_instr rsv i (Mixed_Int v) args =
     append_simple_instr rsv (AInstr i # args @ [AType type_Int, AInt int64_type v])"
| "append_mixed_instr rsv i (Mixed_Bool b) args =
     append_simple_instr rsv (AInstr i # args @ [AType type_Bool, ABool b])"
| "append_mixed_instr rsv i (Mixed_Float f) args =
     append_simple_instr rsv (AInstr i # args @ [AType type_Float, AFloat f])"
| "append_mixed_instr rsv i (Mixed_Double d) args =
     append_simple_instr rsv (AInstr i # args @ [AType type_Double, ADouble d])"
| "append_mixed_instr rsv i (Mixed_OldDateTime v) args =
     append_simple_instr rsv (AInstr i # args @ [AType type_OldDateTime, AInt int64_type v])"
| "append_mixed_instr rsv i (Mixed_String s) args =
     append_simple_instr rsv (AInstr i # args @ [AType type_String, AString s])"
| "append_mixed_instr rsv i (Mixed_Binary s) args =
     append_simple_instr rsv (AInstr i # args @ [AType type_Binary, AString s])"
| "append_mixed_instr rsv i (Mixed_Timestamp s ns) args =
     append_simple_instr rsv (AInstr i # args @ [AType type_Timestamp, AInt int64_type s, AInt int_t ns])"
| "append_mixed_instr rsv i Mixed_Table args =
     append_simple_instr rsv (AInstr i # args @ [AType type_Table])"

section \<open>Tables of the group\<close>

definition enc_insert_group_level_table ::
  "reserve_fun \<Rightarrow> nat \<Rightarrow> nat \<Rightarrow> byte list \<Rightarrow> encoder \<Rightarrow> encode_error + encoder" where
  "enc_insert_group_level_table rsv table_ndx prior_num_tables name =
     append_simple_instr rsv [AInstr instr_InsertGroupLevelTable, ASize table_ndx, ASize prior_num_tables, AString name]"

definition enc_erase_group_level_table ::
  "reserve_fun \<Rightarrow> nat \<Rightarrow> nat \<Rightarrow> encoder \<Rightarrow> encode_error + encoder" where
  "enc_erase_group_level_table rsv table_ndx prior_num_tables =
     append_simple_instr rsv [AInstr instr_EraseGroupLevelTable, ASize table_ndx, ASize prior_num_tables]"

definition enc_rename_group_level_table ::
  "reserve_fun \<Rightarrow> nat \<Rightarrow> byte list \<Rightarrow> encoder \<Rightarrow> encode_error + encoder" where
  "enc_rename_group_level_table rsv table_ndx new_name =
     append_simple_instr rsv [AInstr instr_RenameGroupLevelTable, ASize table_ndx, AString new_name]"

section \<open>Columns\<close>

definition enc_insert_column ::
  "reserve_fun \<Rightarrow> nat \<Rightarrow> data_type \<Rightarrow> byte list \<Rightarrow> bool \<Rightarrow> encoder \<Rightarrow> encode_error + encoder" where
  "enc_insert_column rsv col_ndx t name nullable =
     append_simple_instr rsv
       [AInstr (if nullable then instr_InsertNullableColumn else instr_InsertColumn), ASize col_ndx, AType t,
        AString name]"

definition enc_insert_link_column ::
  "reserve_fun \<Rightarrow> nat \<Rightarrow> data_type \<Rightarrow> byte list \<Rightarrow> nat \<Rightarrow> nat \<Rightarrow> encoder \<Rightarrow> encode_error + encoder" where
  "enc_insert_link_column rsv col_ndx t name link_target_table_ndx backlink_col_ndx =
     append_simple_instr rsv
       [AInstr instr_InsertLinkColumn, ASize col_ndx, AType t, ASize link_target_table_ndx,
        ASize backlink_col_ndx, AString name]"

definition enc_erase_column ::
  "reserve_fun \<Rightarrow> nat \<Rightarrow> encoder \<Rightarrow> encode_error + encoder" where
  "enc_erase_column rsv col_ndx =
     append_simple_instr rsv [AInstr instr_EraseColumn, ASize col_ndx]"

definition enc_erase_link_column ::
  "reserve_fun \<Rightarrow> nat \<Rightarrow> nat \<Rightarrow> nat \<Rightarrow> encoder \<Rightarrow> encode_error + encoder" where
  "enc_erase_link_column rsv col_ndx link_target_table_ndx backlink_col_ndx =
     append_simple_instr rsv [AInstr instr_EraseLinkColumn, ASize col_ndx, ASize link_target_table_ndx, ASize backlink_col_ndx]"

definition enc_rename_column ::
  "reserve_fun \<Rightarrow> nat \<Rightarrow> byte list \<Rightarrow> encoder \<Rightarrow> encode_error + encoder" where
  "enc_rename_column rsv col_ndx new_name =
     append_simple_instr rsv [AInstr instr_RenameColumn, ASize col_ndx, AString new_name]"

section \<open>Fields\<close>

definition enc_set_int ::
  "reserve_fun \<Rightarrow> nat \<Rightarrow> nat \<Rightarrow> int \<Rightarrow> instruction \<Rightarrow> nat \<Rightarrow> encoder \<Rightarrow> encode_error + encoder" where
  "enc_set_int rsv col_ndx ndx v variant prior_num_rows =
     (if variant = instr_SetUnique then
        append_simple_instr rsv [AInstr variant, AType type_Int, ASize col_ndx, ASize ndx, ASize prior_num_rows, AInt int64_type v]
      else append_simple_instr rsv [AInstr variant, AType type_Int, ASize col_ndx, ASize ndx, AInt int64_type v])"

definition enc_add_int ::
  "reserve_fun \<Rightarrow> nat \<Rightarrow> nat \<Rightarrow> int \<Rightarrow> encoder \<Rightarrow> encode_error + encoder" where
  "enc_add_int rsv col_ndx ndx v =
     append_simple_instr rsv [AInstr instr_AddInteger, ASize col_ndx, ASize ndx, AInt int64_type v]"

definition enc_set_bool ::
  "reserve_fun \<Rightarrow> nat \<Rightarrow> nat \<Rightarrow> bool \<Rightarrow> instruction \<Rightarrow> encoder \<Rightarrow> encode_error + encoder" where
  "enc_set_bool rsv col_ndx ndx v variant =
     append_simple_instr rsv [AInstr variant, AType type_Bool, ASize col_ndx, ASize ndx, ABool v]"

definition enc_set_float ::
  "reserve_fun \<Rightarrow> nat \<Rightarrow> nat \<Rightarrow> byte list \<Rightarrow> instruction \<Rightarrow> encoder \<Rightarrow> encode_error + encoder" where
  "enc_set_float rsv col_ndx ndx v variant =
     append_simple_instr rsv [AInstr variant, AType type_Float, ASize col_ndx, ASize ndx, AFloat v]"

definition enc_set_double ::
  "reserve_fun \<Rightarrow> nat \<Rightarrow> nat \<Rightarrow> byte list \<Rightarrow> instruction \<Rightarrow> encoder \<Rightarrow> encode_error + encoder" where
  "enc_set_double rsv col_ndx ndx v variant =
     append_simple_instr rsv [AInstr instr_Set, AType type_Double, ASize col_ndx, ASize ndx, ADouble v]"

definition enc_set_null ::
  "reserve_fun \<Rightarrow> nat \<Rightarrow> nat \<Rightarrow> instruction \<Rightarrow> nat \<Rightarrow> encoder \<Rightarrow> encode_error + encoder" where
  "enc_set_null rsv col_ndx ndx variant prior_num_rows =
     (if variant = instr_SetUnique then
        append_simple_instr rsv [AInstr variant, AInt int_t (- 1), ASize col_ndx, ASize ndx, ASize prior_num_rows]
      else append_simple_instr rsv [AInstr variant, AInt int_t (- 1), ASize col_ndx, ASize ndx])"

definition enc_set_string ::
  "reserve_fun \<Rightarrow> nat \<Rightarrow> nat \<Rightarrow> byte list option \<Rightarrow> instruction \<Rightarrow> nat \<Rightarrow> encoder \<Rightarrow> encode_error + encoder" where
  "enc_set_string rsv col_ndx ndx v variant prior_num_rows =
     (case v of
        None \<Rightarrow> enc_set_null rsv col_ndx ndx variant prior_num_rows
      | Some s \<Rightarrow>
          (if variant = instr_SetUnique then
             append_simple_instr rsv
               [AInstr variant, AType type_String, ASize col_ndx, ASize ndx, ASize prior_num_rows, AString s]
           else append_simple_instr rsv
               [AInstr variant, AType type_String, ASize col_ndx, ASize ndx, AString s]))"

definition enc_set_binary ::
  "reserve_fun \<Rightarrow> nat \<Rightarrow> nat \<Rightarrow> byte list option \<Rightarrow> instruction \<Rightarrow> encoder \<Rightarrow> encode_error + encoder" where
  "enc_set_binary rsv col_ndx row_ndx v variant =
     (case v of
        None \<Rightarrow> enc_set_null rsv col_ndx row_ndx variant 0
      | Some s \<Rightarrow>
          append_simple_instr rsv [AInstr variant, AType type_Binary, ASize col_ndx, ASize row_ndx, AString s])"

definition enc_set_olddatetime ::
  "reserve_fun \<Rightarrow> nat \<Rightarrow> nat \<Rightarrow> int \<Rightarrow> instruction \<Rightarrow> encoder \<Rightarrow> encode_error + encoder" where
  "enc_set_olddatetime rsv col_ndx ndx v variant =
     append_simple_instr rsv [AInstr variant, AType type_OldDateTime, ASize col_ndx, ASize ndx, AInt int64_type v]"

definition enc_set_timestamp ::
  "reserve_fun \<Rightarrow> nat \<Rightarrow> nat \<Rightarrow> int \<Rightarrow> int \<Rightarrow> instruction \<Rightarrow> encoder \<Rightarrow> encode_error + encoder" where
  "enc_set_timestamp rsv col_ndx ndx seconds nanoseconds variant =
     append_simple_instr rsv [AInstr variant, AType type_Timestamp, ASize col_ndx, ASize ndx, AInt int64_type seconds, AInt int_t nanoseconds]"

definition enc_set_table ::
  "reserve_fun \<Rightarrow> nat \<Rightarrow> nat \<Rightarrow> instruction \<Rightarrow> encoder \<Rightarrow> encode_error + encoder" where
  "enc_set_table rsv col_ndx ndx variant =
     append_simple_instr rsv [AInstr variant, AType type_Table, ASize col_ndx, ASize ndx]"

definition enc_set_mixed ::
  "reserve_fun \<Rightarrow> nat \<Rightarrow> nat \<Rightarrow> mixed \<Rightarrow> instruction \<Rightarrow> encoder \<Rightarrow> encode_error + encoder" where
  "enc_set_mixed rsv col_ndx ndx v variant =
     append_mixed_instr rsv variant v [AType type_Mixed, ASize col_ndx, ASize ndx]"

definition enc_set_link ::
  "reserve_fun \<Rightarrow> nat \<Rightarrow> nat \<Rightarrow> nat \<Rightarrow> nat \<Rightarrow> instruction \<Rightarrow> encoder \<Rightarrow> encode_error + encoder" where
  "enc_set_link rsv col_ndx ndx v target_group_level_ndx variant =
     append_simple_instr rsv
       [AInstr variant, AType type_Link, ASize col_ndx, ASize ndx, ASize ((1 + v) mod 2 ^ 64),
        ASize target_group_level_ndx]"

definition enc_nullify_link ::
  "reserve_fun \<Rightarrow> nat \<Rightarrow> nat \<Rightarrow> nat \<Rightarrow> encoder \<Rightarrow> encode_error + encoder" where
  "enc_nullify_link rsv col_ndx ndx target_group_level_ndx =
     append_simple_instr rsv [AInstr instr_NullifyLink, ASize col_ndx, ASize ndx, ASize target_group_level_ndx]"

definition enc_insert_substring ::
  "reserve_fun \<Rightarrow> nat \<Rightarrow> nat \<Rightarrow> nat \<Rightarrow> byte list \<Rightarrow> encoder \<Rightarrow> encode_error + encoder" where
  "enc_insert_substring rsv col_ndx row_ndx pos v =
     append_simple_instr rsv [AInstr instr_InsertSubstring, ASize col_ndx, ASize row_ndx, ASize pos, AString v]"

definition enc_erase_substring ::
  "reserve_fun \<Rightarrow> nat \<Rightarrow> nat \<Rightarrow> nat \<Rightarrow> nat \<Rightarrow> encoder \<Rightarrow> encode_error + encoder" where
  "enc_erase_substring rsv col_ndx row_ndx pos len =
     append_simple_instr rsv [AInstr instr_EraseFromString, ASize col_ndx, ASize row_ndx, ASize pos, ASize len]"

section \<open>Rows\<close>

definition enc_insert_empty_rows ::
  "reserve_fun \<Rightarrow> nat \<Rightarrow> nat \<Rightarrow> nat \<Rightarrow> bool \<Rightarrow> encoder \<Rightarrow> encode_error + encoder" where
  "enc_insert_empty_rows rsv row_ndx num_rows_to_insert prior_num_rows unordered =
     append_simple_instr rsv [AInstr instr_InsertEmptyRows, ASize row_ndx, ASize num_rows_to_insert, ASize prior_num_rows, ABool unordered]"

definition enc_add_row_with_key ::
  "reserve_fun \<Rightarrow> nat \<Rightarrow> nat \<Rightarrow> nat \<Rightarrow> int \<Rightarrow> encoder \<Rightarrow> encode_error + encoder" where
  "enc_add_row_with_key rsv row_ndx prior_num_rows key_col_ndx key =
     append_simple_instr rsv [AInstr instr_AddRowWithKey, ASize row_ndx, ASize prior_num_rows, ASize key_col_ndx, AInt int64_type key]"

definition enc_erase_rows ::
  "reserve_fun \<Rightarrow> nat \<Rightarrow> nat \<Rightarrow> nat \<Rightarrow> bool \<Rightarrow> encoder \<Rightarrow> encode_error + encoder" where
  "enc_erase_rows rsv row_ndx num_rows_to_erase prior_num_rows unordered =
     append_simple_instr rsv [AInstr instr_EraseRows, ASize row_ndx, ASize num_rows_to_erase, ASize prior_num_rows, ABool unordered]"

definition enc_swap_rows ::
  "reserve_fun \<Rightarrow> nat \<Rightarrow> nat \<Rightarrow> encoder \<Rightarrow> encode_error + encoder" where
  "enc_swap_rows rsv row_ndx_1 row_ndx_2 =
     append_simple_instr rsv [AInstr instr_SwapRows, ASize row_ndx_1, ASize row_ndx_2]"

definition enc_move_row ::
  "reserve_fun \<Rightarrow> nat \<Rightarrow> nat \<Rightarrow> encoder \<Rightarrow> encode_error + encoder" where
  "enc_move_row rsv from_ndx to_ndx =
     append_simple_instr rsv [AInstr instr_MoveRow, ASize from_ndx, ASize to_ndx]"

definition enc_merge_rows ::
  "reserve_fun \<Rightarrow> nat \<Rightarrow> nat \<Rightarrow> encoder \<Rightarrow> encode_error + encoder" where
  "enc_merge_rows rsv row_ndx new_row_ndx =
     append_simple_instr rsv [AInstr instr_MergeRows, ASize row_ndx, ASize new_row_ndx]"

definition enc_add_search_index ::
  "reserve_fun \<Rightarrow> nat \<Rightarrow> encoder \<Rightarrow> encode_error + encoder" where
  "enc_add_search_index rsv col_ndx =
     append_simple_instr rsv [AInstr instr_AddSearchIndex, ASize col_ndx]"

definition enc_remove_search_index ::
  "reserve_fun \<Rightarrow> nat \<Rightarrow> encoder \<Rightarrow> encode_error + encoder" where
  "enc_remove_search_index rsv col_ndx =
     append_simple_instr rsv [AInstr instr_RemoveSearchIndex, ASize col_ndx]"

definition enc_set_link_type ::
  "reserve_fun \<Rightarrow> nat \<Rightarrow> link_type \<Rightarrow> encoder \<Rightarrow> encode_error + encoder" where
  "enc_set_link_type rsv col_ndx t =
     append_simple_instr rsv [AInstr instr_SetLinkType, ASize col_ndx, AInt int_t (link_code t)]"

definition enc_clear_table ::
  "reserve_fun \<Rightarrow> nat \<Rightarrow> encoder \<Rightarrow> encode_error + encoder" where
  "enc_clear_table rsv old_size =
     append_simple_instr rsv [AInstr instr_ClearTable, ASize old_size]"

definition enc_optimize_table ::
  "reserve_fun \<Rightarrow> encoder \<Rightarrow> encode_error + encoder" where
  "enc_optimize_table rsv =
     append_simple_instr rsv [AInstr instr_OptimizeTable]"

section \<open>Link lists\<close>

definition enc_link_list_set ::
  "reserve_fun \<Rightarrow> nat \<Rightarrow> nat \<Rightarrow> nat \<Rightarrow> encoder \<Rightarrow> encode_error + encoder" where
  "enc_link_list_set rsv link_ndx v prior_size =
     append_simple_instr rsv [AInstr instr_LinkListSet, ASize link_ndx, ASize v, ASize prior_size]"

definition enc_link_list_nullify ::
  "reserve_fun \<Rightarrow> nat \<Rightarrow> nat \<Rightarrow> encoder \<Rightarrow> encode_error + encoder" where
  "enc_link_list_nullify rsv link_ndx prior_size =
     append_simple_instr rsv [AInstr instr_LinkListNullify, ASize link_ndx, ASize prior_size]"

definition enc_link_list_set_all ::
  "reserve_fun \<Rightarrow> int list \<Rightarrow> encoder \<Rightarrow> encode_error + encoder" where
  "enc_link_list_set_all rsv vs =
     append_simple_instr rsv [AInstr instr_LinkListSetAll, ASize (length vs), AIntegerList vs]"

definition enc_link_list_insert ::
  "reserve_fun \<Rightarrow> nat \<Rightarrow> nat \<Rightarrow> nat \<Rightarrow> encoder \<Rightarrow> encode_error + encoder" where
  "enc_link_list_insert rsv link_ndx v prior_size =
     append_simple_instr rsv [AInstr instr_LinkListInsert, ASize link_ndx, ASize v, ASize prior_size]"

definition enc_link_list_move ::
  "reserve_fun \<Rightarrow> nat \<Rightarrow> nat \<Rightarrow> encoder \<Rightarrow> encode_error + encoder" where
  "enc_link_list_move rsv from_link_ndx to_link_ndx =
     append_simple_instr rsv [AInstr instr_LinkListMove, ASize from_link_ndx, ASize to_link_ndx]"

definition enc_link_list_swap ::
  "reserve_fun \<Rightarrow> nat \<Rightarrow> nat \<Rightarrow> encoder \<Rightarrow> encode_error + encoder" where
  "enc_link_list_swap rsv link1_ndx link2_ndx =
     append_simple_instr rsv [AInstr instr_LinkListSwap, ASize link1_ndx, ASize link2_ndx]"

definition enc_link_list_erase ::
  "reserve_fun \<Rightarrow> nat \<Rightarrow> nat \<Rightarrow> encoder \<Rightarrow> encode_error + encoder" where
  "enc_link_list_erase rsv link_ndx prior_size =
     append_simple_instr rsv [AInstr instr_LinkListErase, ASize link_ndx, ASize prior_size]"

definition enc_link_list_clear ::
  "reserve_fun \<Rightarrow> nat \<Rightarrow> encoder \<Rightarrow> encode_error + encoder" where
  "enc_link_list_clear rsv old_list_size =
     append_simple_instr rsv [AInstr instr_LinkListClear, ASize old_list_size]"

end
