(* ===== verification/TransactEncodeCorrect.thy ===== *)
theory TransactEncodeCorrect
  imports TransactEncode
begin

text \<open>
  What the encoder writes: an instruction that it appends adds the encodings of its arguments to the
  log, and nothing is ever written behind the space that was reserved. The only error is that of the
  stream. The law of a stream is the locale \<open>log_stream\<close>, of which \<open>TransactLogBufferStream\<close> is an
  instance by the lemmas on buffers.
\<close>

section \<open>The bytes of an argument\<close>

fun arg_bytes :: "arg \<Rightarrow> byte list" where
  "arg_bytes (AInstr i) = encode_char (instr_code i)"
| "arg_bytes (ABool b) = encode_char (if b then 1 else 0)"
| "arg_bytes (AFloat f) = f"
| "arg_bytes (ADouble d) = d"
| "arg_bytes (AType t) = encode_char (type_code t)"
| "arg_bytes (AInt t v) = encode_int (promote t) v"
| "arg_bytes (AString s) = encode_int size_type (int (length s)) @ s"
| "arg_bytes (AIntegerList vs) = concat (map (encode_int int64_type) vs)"
| "arg_bytes (AUnsignedList ns) = concat (map (\<lambda>n. encode_int size_type (int n)) ns)"

definition args_bytes :: "arg list \<Rightarrow> byte list" where
  "args_bytes args = concat (map arg_bytes args)"

fun arg_ok :: "arg \<Rightarrow> bool" where
  "arg_ok (AFloat f) \<longleftrightarrow> length f = 4"
| "arg_ok (ADouble d) \<longleftrightarrow> length d = 8"
| "arg_ok (AInt t v) \<longleftrightarrow> machine_type t \<and> in_type t v"
| "arg_ok (AString s) \<longleftrightarrow> length s < 2 ^ 64"
| "arg_ok (AIntegerList vs) \<longleftrightarrow> list_all (in_type int64_type) vs"
| "arg_ok (AUnsignedList ns) \<longleftrightarrow> list_all (\<lambda>n. n < 2 ^ 64) ns"
| "arg_ok _ \<longleftrightarrow> True"

text \<open>A list of integers reserves space of its own while it is written, so it must be the last.\<close>

fun is_integers :: "arg \<Rightarrow> bool" where
  "is_integers (AIntegerList vs) = True"
| "is_integers _ = False"

definition args_ok :: "arg list \<Rightarrow> bool" where
  "args_ok args \<longleftrightarrow> list_all arg_ok args \<and> list_all (\<lambda>a. \<not> is_integers a) (butlast args)
     \<and> max_size_list args < 2 ^ 64"

lemma length_encode_int:
  assumes "machine_type t" "in_type t v"
  shows "length (encode_int t v) \<le> max_enc_bytes_per_num"
proof -
  have "magnitude v < 2 ^ digits t" "0 \<le> magnitude v"
    using assms(2) by (auto simp: magnitude_def int_type_defs split: if_splits)
  moreover have "(2 :: int) ^ digits t \<le> 2 ^ 64" using assms(1) by (intro pow_le) (simp add: machine_type_def split: if_splits)
  ultimately have "length (fst (encode_loop (max_bytes t) (magnitude v))) \<le> 9"
    by (intro encode_loop_length) auto
  moreover obtain bs c where "encode_int t v = bs @ [c]" "fst (encode_loop (max_bytes t) (magnitude v)) = bs"
    using encode_int_split[OF assms(2)] by blast
  ultimately show ?thesis by (simp add: max_enc_bytes_per_num_def max_enc_bytes_per_int_def)
qed

lemma promote_in_type: "in_type t v \<Longrightarrow> in_type (promote t) v"
  using pow_le[of "digits t" 31] by (auto simp: promote_def int_type_defs split: if_splits)

lemma promote_machine: "machine_type t \<Longrightarrow> machine_type (promote t)"
  by (auto simp: promote_def machine_type_def)

lemma length_concat_le: "list_all (\<lambda>x. length (f x) \<le> k) xs \<Longrightarrow> length (concat (map f xs)) \<le> k * length xs"
  by (induction xs) auto

lemma length_encode_ints:
  "list_all (in_type int64_type) vs \<Longrightarrow> length (concat (map (encode_int int64_type) vs)) \<le> max_enc_bytes_per_num * length vs"
  by (rule length_concat_le) (auto simp: list_all_iff machine_type_def int64_type_def intro!: length_encode_int)

lemma size_in_type: "in_type size_type (int n) \<longleftrightarrow> n < 2 ^ 64"
  by (auto simp: int_type_defs size_type_def)

lemma size_machine [simp]: "machine_type size_type" "machine_type int_t" "machine_type int64_type" "machine_type char_type"
  by (simp_all add: machine_type_def int_types)

lemma length_arg_bytes:
  assumes "arg_ok a" "\<not> is_integers a"
  shows "length (arg_bytes a) \<le> arg_max_size a"
  using assms
proof (cases a)
  case (AInt t v)
  then show ?thesis using assms length_encode_int promote_in_type promote_machine by simp
next
  case (AString s)
  then show ?thesis using assms length_encode_int[of size_type "int (length s)"] by (simp add: size_in_type)
next
  case (AUnsignedList ns)
  then show ?thesis
    using assms by (auto simp: list_all_iff size_in_type intro!: length_concat_le length_encode_int)
qed (auto simp: encode_char_def max_enc_bytes_per_num_def max_enc_bytes_per_int_def)

section \<open>Appending\<close>

definition written :: "position \<Rightarrow> byte list" where
  "written p = enc_log (fst p) @ snd p"

definition room :: "position \<Rightarrow> nat \<Rightarrow> bool" where
  "room p n \<longleftrightarrow> length (snd p) + n \<le> enc_free (fst p)"

definition sized :: "encoder \<Rightarrow> bool" where
  "sized e \<longleftrightarrow> length (enc_log e) + enc_free e < 2 ^ 64"

lemma put_ok: "room p (length bs + k) \<Longrightarrow>
    \<exists>p'. put bs p = Inr p' \<and> fst p' = fst p \<and> written p' = written p @ bs \<and> room p' k"
  by (auto simp: put_def room_def written_def)

lemma encode_ok:
  assumes "arg_ok a" "\<not> is_integers a" "room p (arg_max_size a + k)"
  shows "\<exists>p'. encode rsv a p = Inr p' \<and> fst p' = fst p \<and> written p' = written p @ arg_bytes a \<and> room p' k"
proof -
  have "encode rsv a p = put (arg_bytes a) p" using assms(2) by (cases a) auto
  moreover have "room p (length (arg_bytes a) + k)"
    using length_arg_bytes[OF assms(1,2)] assms(3) by (simp add: room_def)
  ultimately show ?thesis using put_ok by simp
qed

lemma enc_log_advance [simp]: "enc_log (enc_advance p) = written p"
  by (simp add: enc_advance_def written_def)

lemma sized_advance: "sized (fst p) \<Longrightarrow> room p n \<Longrightarrow> sized (enc_advance p)"
  by (simp add: sized_def enc_advance_def room_def)

locale log_stream =
  fixes rsv :: reserve_fun
  assumes enough: "used + free < 2 ^ 64 \<Longrightarrow> n < 2 ^ 64 \<Longrightarrow> rsv used free n = Some k \<Longrightarrow>
      n \<le> k \<and> used + k < 2 ^ 64"
begin

lemma enc_reserve_cases:
  assumes "sized e" "n < 2 ^ 64"
  obtains "enc_reserve rsv n e = Inl BufferSizeOverflow"
  | e' where "enc_reserve rsv n e = Inr e'" "enc_log e' = enc_log e" "n \<le> enc_free e'" "sized e'"
proof (cases "enc_free e < n")
  case False
  then show ?thesis using that(2)[of e] assms(1) by (simp add: enc_reserve_def)
next
  case True
  show ?thesis
  proof (cases "rsv (length (enc_log e)) (enc_free e) n")
    case None
    then show ?thesis using that(1) True by (simp add: enc_reserve_def)
  next
    case (Some k)
    then have "n \<le> k \<and> length (enc_log e) + k < 2 ^ 64" using enough assms by (auto simp: sized_def)
    then show ?thesis using that(2)[of "e\<lparr>enc_free := k\<rparr>"] True Some by (simp add: enc_reserve_def sized_def)
  qed
qed

lemma encode_integers_ok:
  assumes "list_all (in_type int64_type) vs" "room p (max_enc_bytes_per_num * max_numbers_per_chunk)"
    "sized (fst p)"
  shows "encode_integers rsv vs p = Inl BufferSizeOverflow \<or>
    (\<exists>p'. encode_integers rsv vs p = Inr p' \<and> sized (enc_advance p')
        \<and> written p' = written p @ concat (map (encode_int int64_type) vs))"
  using assms
proof (induction vs arbitrary: p rule: length_induct)
  case (1 vs)
  show ?case
  proof (cases "length vs > max_numbers_per_chunk")
    case False
    then have "max_enc_bytes_per_num * length vs \<le> max_enc_bytes_per_num * max_numbers_per_chunk" by simp
    then have "room p (length (concat (map (encode_int int64_type) vs)) + 0)"
      using length_encode_ints[OF 1(2)] 1(3) unfolding room_def by linarith
    from put_ok[OF this] show ?thesis
      using False 1(4) sized_advance by (fastforce simp: encode_integers.simps[of rsv vs p])
  next
    case True
    let ?c = "take max_numbers_per_chunk vs" and ?d = "drop max_numbers_per_chunk vs"
    have l: "list_all (in_type int64_type) ?c" "list_all (in_type int64_type) ?d"
      using 1(2) by (auto simp: list_all_iff dest: in_set_takeD in_set_dropD)
    have "length (concat (map (encode_int int64_type) ?c)) \<le> max_enc_bytes_per_num * max_numbers_per_chunk"
      using length_encode_ints[OF l(1)] True by simp
    then have "room p (length (concat (map (encode_int int64_type) ?c)) + 0)"
      using 1(3) unfolding room_def by linarith
    from put_ok[OF this] obtain p' where p': "put (concat (map (encode_int int64_type) ?c)) p = Inr p'"
      "written p' = written p @ concat (map (encode_int int64_type) ?c)" "sized (enc_advance p')"
      using 1(4) sized_advance by (metis add_0_right)
    have "max_enc_bytes_per_num * max_numbers_per_chunk < 2 ^ 64"
      by (simp add: max_enc_bytes_per_num_def max_enc_bytes_per_int_def max_numbers_per_chunk_def)
    then show ?thesis
    proof (rule enc_reserve_cases[OF p'(3)])
      assume "enc_reserve rsv (max_enc_bytes_per_num * max_numbers_per_chunk) (enc_advance p') = Inl BufferSizeOverflow"
      then show ?thesis using True p' by (simp add: encode_integers.simps[of rsv vs p])
    next
      fix e
      assume e: "enc_reserve rsv (max_enc_bytes_per_num * max_numbers_per_chunk) (enc_advance p') = Inr e"
        "enc_log e = enc_log (enc_advance p')" "max_enc_bytes_per_num * max_numbers_per_chunk \<le> enc_free e" "sized e"
      have "length ?d < length vs" using True by (simp add: max_numbers_per_chunk_def)
      moreover have "room (e, []) (max_enc_bytes_per_num * max_numbers_per_chunk)" using e(3) by (simp add: room_def)
      ultimately have ih: "encode_integers rsv ?d (e, []) = Inl BufferSizeOverflow \<or>
          (\<exists>q. encode_integers rsv ?d (e, []) = Inr q \<and> sized (enc_advance q)
            \<and> written q = written (e, []) @ concat (map (encode_int int64_type) ?d))"
        using 1(1) l(2) e(4) by simp
      have "written (e, []) = written p @ concat (map (encode_int int64_type) ?c)"
        using e(2) p'(2) by (simp add: written_def[of "(e, [])"])
      moreover have "concat (map (encode_int int64_type) vs)
          = concat (map (encode_int int64_type) ?c) @ concat (map (encode_int int64_type) ?d)"
        by (simp flip: concat_append map_append)
      ultimately show ?thesis using ih True p'(1) e(1) by (simp add: encode_integers.simps[of rsv vs p])
    qed
  qed
qed

lemma encode_list_ok:
  "args_ok args \<Longrightarrow> room p (max_size_list args) \<Longrightarrow> sized (fst p) \<Longrightarrow>
   encode_list rsv args p = Inl BufferSizeOverflow \<or>
   (\<exists>e. encode_list rsv args p = Inr e \<and> sized e \<and> enc_log e = written p @ args_bytes args)"
proof (induction args arbitrary: p)
  case Nil
  then show ?case using sized_advance by (auto simp: args_bytes_def)
next
  case (Cons a args)
  have a: "arg_ok a" using Cons.prems(1) by (simp add: args_ok_def)
  show ?case
  proof (cases "is_integers a")
    case False
    obtain p' where p': "encode rsv a p = Inr p'" "fst p' = fst p" "written p' = written p @ arg_bytes a"
      "room p' (max_size_list args)"
      using encode_ok[OF a False] Cons.prems(2) by fastforce
    have "args_ok args" using Cons.prems(1) by (cases args) (auto simp: args_ok_def)
    then show ?thesis using Cons.IH[of p'] p' Cons.prems(3) by (auto simp: args_bytes_def)
  next
    case True
    then obtain vs where v: "a = AIntegerList vs" by (cases a) auto
    have n: "args = []" using Cons.prems(1) True by (auto simp: args_ok_def split: if_splits)
    show ?thesis
      using encode_integers_ok[of vs p] a Cons.prems(2,3) by (auto simp: v n args_bytes_def)
  qed
qed

lemma append_simple_instr_ok:
  assumes "args_ok args" "sized e"
  shows "append_simple_instr rsv args e = Inl BufferSizeOverflow \<or>
    (\<exists>e'. append_simple_instr rsv args e = Inr e' \<and> sized e' \<and> enc_log e' = enc_log e @ args_bytes args)"
proof (rule enc_reserve_cases[OF assms(2), of "max_size_list args"])
  show "max_size_list args < 2 ^ 64" using assms(1) by (simp add: args_ok_def)
next
  assume "enc_reserve rsv (max_size_list args) e = Inl BufferSizeOverflow"
  then show ?thesis by (simp add: append_simple_instr_def)
next
  fix e'
  assume e': "enc_reserve rsv (max_size_list args) e = Inr e'" "enc_log e' = enc_log e"
    "max_size_list args \<le> enc_free e'" "sized e'"
  then show ?thesis
    using encode_list_ok[OF assms(1), of "(e', [])"] by (simp add: append_simple_instr_def room_def written_def)
qed

end

interpretation buffer_stream: log_stream buffer_stream_reserve
proof
  fix used free n k
  assume a: "used + free < 2 ^ 64" "n < 2 ^ 64" "buffer_stream_reserve used free n = Some k"
  let ?b = "replicate (used + free) (Some (0 :: byte))"
  have u: "used \<le> length ?b" "length ?b < 2 ^ 64" using a(1) by auto
  have e: "buf_reserve_extra used n ?b = (if used + n < 2 ^ 64 then Some (buf_reserve used (used + n) ?b) else None)"
    using a(1,2) by (intro buf_reserve_extra_eq) auto
  then have "used + n < 2 ^ 64" "k = length (buf_reserve used (used + n) ?b) - used"
    using a(3) by (auto simp: buffer_stream_reserve_def split: if_splits)
  then show "n \<le> k \<and> used + k < 2 ^ 64" using buf_reserve_spec(2,4)[OF u, of "used + n"] by auto
qed

end
