(* ===== verification/TransactParse.thy ===== *)
theory TransactParse
  imports TransactOps Buffers
begin

text \<open>
  \<open>TransactLogParser\<close> (\<open>impl/transact_log.hpp\<close>): the readers of the values of the log, one definition per
  instruction of the \<open>switch\<close> of \<open>parse_one\<close>, and the loop \<open>parse\<close>. The handler is a parameter: a function
  that takes an operation in a state, which is the state after the call and whether the call returned
  true. All instructions make one call, but for \<open>LinkListSetAll\<close>, which calls the handler while it reads.
\<close>

unbundle bit_operations_syntax

section \<open>Values\<close>

definition read_size :: "'s next_block \<Rightarrow> ('s, nat) reader" where
  "read_size nb = bind (read_int nb size_type) (\<lambda>v. ret (nat v))"

text \<open>The loop of \<open>read_bytes\<close> takes all of a block that is too short and fetches the next one; with
  blocks that are not empty it runs at most \<open>size + 2\<close> times, which is the fuel (\<open>read_bytes_loop_reads\<close>
  in \<open>TransactRoundtrip\<close>).\<close>

fun read_bytes_loop :: "'s next_block \<Rightarrow> nat \<Rightarrow> nat \<Rightarrow> ('s, byte list option) reader" where
  "read_bytes_loop nb 0 n inp = ret None inp"
| "read_bytes_loop nb (Suc fuel) n inp =
     (if n \<le> length (fst inp) then ret (Some (take n (fst inp))) (drop n (fst inp), snd inp)
      else case next_input_buffer nb inp of
             None \<Rightarrow> Inl BadTransactLog
           | Some inp' \<Rightarrow>
               bind (read_bytes_loop nb fuel (n - length (fst inp)))
                 (\<lambda>r. ret (map_option ((@) (fst inp)) r)) inp')"

definition read_bytes :: "'s next_block \<Rightarrow> nat \<Rightarrow> ('s, byte list) reader" where
  "read_bytes nb n =
     bind (read_bytes_loop nb (Suc (Suc n)) n) (\<lambda>r. case r of None \<Rightarrow> parser_error | Some bs \<Rightarrow> ret bs)"

definition read_buffer :: "'s next_block \<Rightarrow> nat \<Rightarrow> ('s, byte list) reader" where
  "read_buffer nb n inp =
     (if length (fst inp) \<ge> n then ret (take n (fst inp)) (drop n (fst inp), snd inp)
      else read_bytes nb n inp)"

definition read_bool :: "'s next_block \<Rightarrow> ('s, bool) reader" where
  "read_bool nb = bind (read_int nb char_type) (\<lambda>v. ret (v \<noteq> 0))"

definition read_float :: "'s next_block \<Rightarrow> ('s, byte list) reader" where
  "read_float nb = read_bytes nb 4"

definition read_double :: "'s next_block \<Rightarrow> ('s, byte list) reader" where
  "read_double nb = read_bytes nb 8"

definition max_string_size :: nat where
  "max_string_size = 0xFFFFF8 - 8 - 1"

definition read_string :: "'s next_block \<Rightarrow> ('s, byte list) reader" where
  "read_string nb =
     bind (read_size nb) (\<lambda>n. if n > max_string_size then parser_error else read_buffer nb n)"

definition read_timestamp :: "'s next_block \<Rightarrow> ('s, int \<times> int) reader" where
  "read_timestamp nb =
     bind (read_int nb int64_type) (\<lambda>seconds. bind (read_int nb int_t) (\<lambda>nanoseconds.
       ret (seconds, nanoseconds)))"

definition read_binary :: "'s next_block \<Rightarrow> ('s, byte list) reader" where
  "read_binary nb = bind (read_size nb) (read_buffer nb)"

definition read_mixed :: "'s next_block \<Rightarrow> ('s, mixed) reader" where
  "read_mixed nb = bind (read_int nb int_t) (\<lambda>t.
     case type_of_code t of
       Some type_Int \<Rightarrow> bind (read_int nb int64_type) (\<lambda>v. ret (Mixed_Int v))
     | Some type_Bool \<Rightarrow> bind (read_bool nb) (\<lambda>v. ret (Mixed_Bool v))
     | Some type_Float \<Rightarrow> bind (read_float nb) (\<lambda>v. ret (Mixed_Float v))
     | Some type_Double \<Rightarrow> bind (read_double nb) (\<lambda>v. ret (Mixed_Double v))
     | Some type_OldDateTime \<Rightarrow> bind (read_int nb int64_type) (\<lambda>v. ret (Mixed_OldDateTime v))
     | Some type_Timestamp \<Rightarrow> bind (read_timestamp nb) (\<lambda>(s, n). ret (Mixed_Timestamp s n))
     | Some type_String \<Rightarrow> bind (read_string nb) (\<lambda>v. ret (Mixed_String v))
     | Some type_Binary \<Rightarrow> bind (read_binary nb) (\<lambda>v. ret (Mixed_Binary v))
     | Some type_Table \<Rightarrow> ret Mixed_Table
     | _ \<Rightarrow> parser_error)"

section \<open>Set\<close>

definition parse_set_value ::
  "'s next_block \<Rightarrow> instruction \<Rightarrow> data_type option \<Rightarrow> nat \<Rightarrow> nat \<Rightarrow> nat \<Rightarrow> ('s, field_op) reader" where
  "parse_set_value nb instr t col_ndx row_ndx prior_num_rows =
     (case t of
        Some type_Int \<Rightarrow>
          bind (read_int nb int64_type) (\<lambda>v. ret (OpSetInt col_ndx row_ndx v instr prior_num_rows))
      | Some type_Bool \<Rightarrow> bind (read_bool nb) (\<lambda>v. ret (OpSetBool col_ndx row_ndx v instr))
      | Some type_Float \<Rightarrow> bind (read_float nb) (\<lambda>v. ret (OpSetFloat col_ndx row_ndx v instr))
      | Some type_Double \<Rightarrow> bind (read_double nb) (\<lambda>v. ret (OpSetDouble col_ndx row_ndx v instr))
      | Some type_String \<Rightarrow>
          bind (read_string nb) (\<lambda>v. ret (OpSetString col_ndx row_ndx v instr prior_num_rows))
      | Some type_Binary \<Rightarrow> bind (read_binary nb) (\<lambda>v. ret (OpSetBinary col_ndx row_ndx v instr))
      | Some type_OldDateTime \<Rightarrow>
          bind (read_int nb int64_type) (\<lambda>v. ret (OpSetOldDateTime col_ndx row_ndx v instr))
      | Some type_Timestamp \<Rightarrow>
          bind (read_int nb int64_type) (\<lambda>seconds. bind (read_int nb int_t) (\<lambda>nanoseconds.
            ret (OpSetTimestamp col_ndx row_ndx seconds nanoseconds instr)))
      | Some type_Table \<Rightarrow> ret (OpSetTable col_ndx row_ndx instr)
      | Some type_Mixed \<Rightarrow> bind (read_mixed nb) (\<lambda>v. ret (OpSetMixed col_ndx row_ndx v instr))
      | Some type_Link \<Rightarrow>
          bind (read_size nb) (\<lambda>v. bind (read_size nb) (\<lambda>target_group_level_ndx.
            ret (OpSetLink col_ndx row_ndx (sub_size v 1) target_group_level_ndx instr)))
      | Some type_LinkList \<Rightarrow> parser_error
      | None \<Rightarrow> parser_error)"

definition parse_set :: "'s next_block \<Rightarrow> instruction \<Rightarrow> ('s, field_op) reader" where
  "parse_set nb instr =
     bind (read_int nb int_t) (\<lambda>t.
     bind (read_size nb) (\<lambda>col_ndx.
     bind (read_size nb) (\<lambda>row_ndx.
     bind (if instr = instr_SetUnique then read_size nb else ret 0) (\<lambda>prior_num_rows.
       if t = - 1 then ret (OpSetNull col_ndx row_ndx instr prior_num_rows)
       else parse_set_value nb instr (type_of_code t) col_ndx row_ndx prior_num_rows))))"

section \<open>Fields and rows\<close>

definition parse_add_integer :: "'s next_block \<Rightarrow> ('s, field_op) reader" where
  "parse_add_integer nb =
     bind (read_size nb) (\<lambda>col_ndx.
     bind (read_size nb) (\<lambda>row_ndx.
     bind (read_int nb int64_type) (\<lambda>v.
       ret (OpAddInt col_ndx row_ndx v))))"

definition parse_nullify_link :: "'s next_block \<Rightarrow> ('s, field_op) reader" where
  "parse_nullify_link nb =
     bind (read_size nb) (\<lambda>col_ndx.
     bind (read_size nb) (\<lambda>row_ndx.
     bind (read_size nb) (\<lambda>target_group_level_ndx.
       ret (OpNullifyLink col_ndx row_ndx target_group_level_ndx))))"

definition parse_insert_substring :: "'s next_block \<Rightarrow> ('s, field_op) reader" where
  "parse_insert_substring nb =
     bind (read_size nb) (\<lambda>col_ndx.
     bind (read_size nb) (\<lambda>row_ndx.
     bind (read_size nb) (\<lambda>pos.
     bind (read_string nb) (\<lambda>v.
       ret (OpInsertSubstring col_ndx row_ndx pos v)))))"

definition parse_erase_from_string :: "'s next_block \<Rightarrow> ('s, field_op) reader" where
  "parse_erase_from_string nb =
     bind (read_size nb) (\<lambda>col_ndx.
     bind (read_size nb) (\<lambda>row_ndx.
     bind (read_size nb) (\<lambda>pos.
     bind (read_size nb) (\<lambda>len.
       ret (OpEraseSubstring col_ndx row_ndx pos len)))))"

definition parse_insert_empty_rows :: "'s next_block \<Rightarrow> ('s, row_op) reader" where
  "parse_insert_empty_rows nb =
     bind (read_size nb) (\<lambda>row_ndx.
     bind (read_size nb) (\<lambda>num_rows_to_insert.
     bind (read_size nb) (\<lambda>prior_num_rows.
     bind (read_bool nb) (\<lambda>unordered.
       ret (OpInsertEmptyRows row_ndx num_rows_to_insert prior_num_rows unordered)))))"

definition parse_add_row_with_key :: "'s next_block \<Rightarrow> ('s, row_op) reader" where
  "parse_add_row_with_key nb =
     bind (read_size nb) (\<lambda>row_ndx.
     bind (read_size nb) (\<lambda>prior_num_rows.
     bind (read_size nb) (\<lambda>key_col_ndx.
     bind (read_int nb int64_type) (\<lambda>key.
       ret (OpAddRowWithKey row_ndx prior_num_rows key_col_ndx key)))))"

definition parse_erase_rows :: "'s next_block \<Rightarrow> ('s, row_op) reader" where
  "parse_erase_rows nb =
     bind (read_size nb) (\<lambda>row_ndx.
     bind (read_size nb) (\<lambda>num_rows_to_erase.
     bind (read_size nb) (\<lambda>prior_num_rows.
     bind (read_bool nb) (\<lambda>unordered.
       ret (OpEraseRows row_ndx num_rows_to_erase prior_num_rows unordered)))))"

definition parse_swap_rows :: "'s next_block \<Rightarrow> ('s, row_op) reader" where
  "parse_swap_rows nb =
     bind (read_size nb) (\<lambda>row_ndx_1.
     bind (read_size nb) (\<lambda>row_ndx_2.
       ret (OpSwapRows row_ndx_1 row_ndx_2)))"

definition parse_move_row :: "'s next_block \<Rightarrow> ('s, row_op) reader" where
  "parse_move_row nb =
     bind (read_size nb) (\<lambda>from_ndx.
     bind (read_size nb) (\<lambda>to_ndx.
       ret (OpMoveRow from_ndx to_ndx)))"

definition parse_merge_rows :: "'s next_block \<Rightarrow> ('s, row_op) reader" where
  "parse_merge_rows nb =
     bind (read_size nb) (\<lambda>row_ndx.
     bind (read_size nb) (\<lambda>new_row_ndx.
       ret (OpMergeRows row_ndx new_row_ndx)))"

section \<open>Selections\<close>

definition max_levels :: int where
  "max_levels = 1024"

fun read_times :: "nat \<Rightarrow> ('s, 'a) reader \<Rightarrow> ('s, 'a list) reader" where
  "read_times 0 p = ret []"
| "read_times (Suc n) p = bind p (\<lambda>x. bind (read_times n p) (\<lambda>xs. ret (x # xs)))"

definition parse_select_table :: "'s next_block \<Rightarrow> ('s, group_op) reader" where
  "parse_select_table nb =
     bind (read_int nb int_t) (\<lambda>levels.
       if levels < 0 \<or> levels > max_levels then parser_error
       else
         bind (read_size nb) (\<lambda>group_level_ndx.
         bind (read_times (nat levels)
           (bind (read_size nb) (\<lambda>col_ndx. bind (read_size nb) (\<lambda>row_ndx. ret (col_ndx, row_ndx)))))
           (\<lambda>path. ret (OpSelectTable group_level_ndx path))))"

definition parse_clear_table :: "'s next_block \<Rightarrow> ('s, row_op) reader" where
  "parse_clear_table nb =
     bind (read_size nb) (\<lambda>old_size.
       ret (OpClearTable old_size))"

section \<open>Link lists\<close>

definition parse_link_list_set :: "'s next_block \<Rightarrow> ('s, link_list_op) reader" where
  "parse_link_list_set nb =
     bind (read_size nb) (\<lambda>link_ndx.
     bind (read_size nb) (\<lambda>v.
     bind (read_size nb) (\<lambda>prior_size.
       ret (OpLinkListSet link_ndx v prior_size))))"

definition parse_link_list_insert :: "'s next_block \<Rightarrow> ('s, link_list_op) reader" where
  "parse_link_list_insert nb =
     bind (read_size nb) (\<lambda>link_ndx.
     bind (read_size nb) (\<lambda>v.
     bind (read_size nb) (\<lambda>prior_size.
       ret (OpLinkListInsert link_ndx v prior_size))))"

definition parse_link_list_move :: "'s next_block \<Rightarrow> ('s, link_list_op) reader" where
  "parse_link_list_move nb =
     bind (read_size nb) (\<lambda>from_link_ndx.
     bind (read_size nb) (\<lambda>to_link_ndx.
       ret (OpLinkListMove from_link_ndx to_link_ndx)))"

definition parse_link_list_swap :: "'s next_block \<Rightarrow> ('s, link_list_op) reader" where
  "parse_link_list_swap nb =
     bind (read_size nb) (\<lambda>link1_ndx.
     bind (read_size nb) (\<lambda>link2_ndx.
       ret (OpLinkListSwap link1_ndx link2_ndx)))"

definition parse_link_list_erase :: "'s next_block \<Rightarrow> ('s, link_list_op) reader" where
  "parse_link_list_erase nb =
     bind (read_size nb) (\<lambda>link_ndx.
     bind (read_size nb) (\<lambda>prior_size.
       ret (OpLinkListErase link_ndx prior_size)))"

definition parse_link_list_nullify :: "'s next_block \<Rightarrow> ('s, link_list_op) reader" where
  "parse_link_list_nullify nb =
     bind (read_size nb) (\<lambda>link_ndx.
     bind (read_size nb) (\<lambda>prior_size.
       ret (OpLinkListNullify link_ndx prior_size)))"

definition parse_link_list_clear :: "'s next_block \<Rightarrow> ('s, link_list_op) reader" where
  "parse_link_list_clear nb =
     bind (read_size nb) (\<lambda>old_list_size.
       ret (OpLinkListClear old_list_size))"

definition parse_select_link_list :: "'s next_block \<Rightarrow> ('s, group_op) reader" where
  "parse_select_link_list nb =
     bind (read_size nb) (\<lambda>col_ndx.
     bind (read_size nb) (\<lambda>row_ndx.
     bind (read_size nb) (\<lambda>target_group_level_ndx.
       ret (OpSelectLinkList col_ndx row_ndx target_group_level_ndx))))"

section \<open>Columns\<close>

definition parse_add_search_index :: "'s next_block \<Rightarrow> ('s, column_op) reader" where
  "parse_add_search_index nb =
     bind (read_size nb) (\<lambda>col_ndx.
       ret (OpAddSearchIndex col_ndx))"

definition parse_remove_search_index :: "'s next_block \<Rightarrow> ('s, column_op) reader" where
  "parse_remove_search_index nb =
     bind (read_size nb) (\<lambda>col_ndx.
       ret (OpRemoveSearchIndex col_ndx))"

definition parse_set_link_type :: "'s next_block \<Rightarrow> ('s, column_op) reader" where
  "parse_set_link_type nb =
     bind (read_size nb) (\<lambda>col_ndx.
     bind (read_int nb int_t) (\<lambda>t.
       case link_of_code t of
         None \<Rightarrow> parser_error
       | Some l \<Rightarrow> ret (OpSetLinkType col_ndx l)))"

definition parse_insert_column :: "'s next_block \<Rightarrow> instruction \<Rightarrow> ('s, column_op) reader" where
  "parse_insert_column nb instr =
     bind (read_size nb) (\<lambda>col_ndx.
     bind (read_int nb int_t) (\<lambda>c.
       case type_of_code c of
         None \<Rightarrow> parser_error
       | Some t \<Rightarrow>
           if t = type_Link \<or> t = type_LinkList then parser_error
           else
             bind (read_string nb) (\<lambda>name.
               let nullable = (instr = instr_InsertNullableColumn)
               in if nullable \<and> t = type_Mixed then parser_error
                  else ret (OpInsertColumn col_ndx t name nullable))))"

definition parse_insert_link_column :: "'s next_block \<Rightarrow> ('s, column_op) reader" where
  "parse_insert_link_column nb =
     bind (read_size nb) (\<lambda>col_ndx.
     bind (read_int nb int_t) (\<lambda>c.
       case type_of_code c of
         None \<Rightarrow> parser_error
       | Some t \<Rightarrow>
           if t \<noteq> type_Link \<and> t \<noteq> type_LinkList then parser_error
           else
             bind (read_size nb) (\<lambda>link_target_table_ndx.
             bind (read_size nb) (\<lambda>backlink_col_ndx.
             bind (read_string nb) (\<lambda>name.
               ret (OpInsertLinkColumn col_ndx t name link_target_table_ndx backlink_col_ndx))))))"

definition parse_erase_column :: "'s next_block \<Rightarrow> ('s, column_op) reader" where
  "parse_erase_column nb =
     bind (read_size nb) (\<lambda>col_ndx.
       ret (OpEraseColumn col_ndx))"

definition parse_erase_link_column :: "'s next_block \<Rightarrow> ('s, column_op) reader" where
  "parse_erase_link_column nb =
     bind (read_size nb) (\<lambda>col_ndx.
     bind (read_size nb) (\<lambda>link_target_table_ndx.
     bind (read_size nb) (\<lambda>backlink_col_ndx.
       ret (OpEraseLinkColumn col_ndx link_target_table_ndx backlink_col_ndx))))"

definition parse_rename_column :: "'s next_block \<Rightarrow> ('s, column_op) reader" where
  "parse_rename_column nb =
     bind (read_size nb) (\<lambda>col_ndx.
     bind (read_string nb) (\<lambda>name.
       ret (OpRenameColumn col_ndx name)))"

section \<open>Descriptors and tables of the group\<close>

definition parse_select_descriptor :: "'s next_block \<Rightarrow> ('s, group_op) reader" where
  "parse_select_descriptor nb =
     bind (read_int nb int_t) (\<lambda>levels.
       if levels < 0 \<or> levels > max_levels then parser_error
       else bind (read_times (nat levels) (read_size nb)) (\<lambda>path. ret (OpSelectDescriptor path)))"

definition parse_insert_group_level_table :: "'s next_block \<Rightarrow> ('s, group_op) reader" where
  "parse_insert_group_level_table nb =
     bind (read_size nb) (\<lambda>table_ndx.
     bind (read_size nb) (\<lambda>num_tables.
     bind (read_string nb) (\<lambda>name.
       ret (OpInsertGroupLevelTable table_ndx num_tables name))))"

definition parse_erase_group_level_table :: "'s next_block \<Rightarrow> ('s, group_op) reader" where
  "parse_erase_group_level_table nb =
     bind (read_size nb) (\<lambda>table_ndx.
     bind (read_size nb) (\<lambda>prior_num_tables.
       ret (OpEraseGroupLevelTable table_ndx prior_num_tables)))"

definition parse_rename_group_level_table :: "'s next_block \<Rightarrow> ('s, group_op) reader" where
  "parse_rename_group_level_table nb =
     bind (read_size nb) (\<lambda>table_ndx.
     bind (read_string nb) (\<lambda>new_name.
       ret (OpRenameGroupLevelTable table_ndx new_name)))"

section \<open>The switch\<close>

definition map_reader :: "('a \<Rightarrow> 'b) \<Rightarrow> ('s, 'a) reader \<Rightarrow> ('s, 'b) reader" where
  "map_reader f p = bind p (\<lambda>x. ret (f x))"

fun parse_instr :: "'s next_block \<Rightarrow> instruction \<Rightarrow> ('s, operation) reader" where
  "parse_instr nb instr_SetDefault = map_reader FieldOp (parse_set nb instr_SetDefault)"
| "parse_instr nb instr_SetUnique = map_reader FieldOp (parse_set nb instr_SetUnique)"
| "parse_instr nb instr_Set = map_reader FieldOp (parse_set nb instr_Set)"
| "parse_instr nb instr_AddInteger = map_reader FieldOp (parse_add_integer nb)"
| "parse_instr nb instr_NullifyLink = map_reader FieldOp (parse_nullify_link nb)"
| "parse_instr nb instr_InsertSubstring = map_reader FieldOp (parse_insert_substring nb)"
| "parse_instr nb instr_EraseFromString = map_reader FieldOp (parse_erase_from_string nb)"
| "parse_instr nb instr_InsertEmptyRows = map_reader RowOp (parse_insert_empty_rows nb)"
| "parse_instr nb instr_AddRowWithKey = map_reader RowOp (parse_add_row_with_key nb)"
| "parse_instr nb instr_EraseRows = map_reader RowOp (parse_erase_rows nb)"
| "parse_instr nb instr_SwapRows = map_reader RowOp (parse_swap_rows nb)"
| "parse_instr nb instr_MoveRow = map_reader RowOp (parse_move_row nb)"
| "parse_instr nb instr_MergeRows = map_reader RowOp (parse_merge_rows nb)"
| "parse_instr nb instr_SelectTable = map_reader GroupOp (parse_select_table nb)"
| "parse_instr nb instr_ClearTable = map_reader RowOp (parse_clear_table nb)"
| "parse_instr nb instr_LinkListSet = map_reader LinkListOp (parse_link_list_set nb)"
| "parse_instr nb instr_LinkListInsert = map_reader LinkListOp (parse_link_list_insert nb)"
| "parse_instr nb instr_LinkListMove = map_reader LinkListOp (parse_link_list_move nb)"
| "parse_instr nb instr_LinkListSwap = map_reader LinkListOp (parse_link_list_swap nb)"
| "parse_instr nb instr_LinkListErase = map_reader LinkListOp (parse_link_list_erase nb)"
| "parse_instr nb instr_LinkListNullify = map_reader LinkListOp (parse_link_list_nullify nb)"
| "parse_instr nb instr_LinkListClear = map_reader LinkListOp (parse_link_list_clear nb)"
| "parse_instr nb instr_SelectLinkList = map_reader GroupOp (parse_select_link_list nb)"
| "parse_instr nb instr_MoveColumn = parser_error"
| "parse_instr nb instr_AddSearchIndex = map_reader ColumnOp (parse_add_search_index nb)"
| "parse_instr nb instr_RemoveSearchIndex = map_reader ColumnOp (parse_remove_search_index nb)"
| "parse_instr nb instr_SetLinkType = map_reader ColumnOp (parse_set_link_type nb)"
| "parse_instr nb instr_InsertColumn = map_reader ColumnOp (parse_insert_column nb instr_InsertColumn)"
| "parse_instr nb instr_InsertNullableColumn = map_reader ColumnOp (parse_insert_column nb instr_InsertNullableColumn)"
| "parse_instr nb instr_InsertLinkColumn = map_reader ColumnOp (parse_insert_link_column nb)"
| "parse_instr nb instr_EraseColumn = map_reader ColumnOp (parse_erase_column nb)"
| "parse_instr nb instr_EraseLinkColumn = map_reader ColumnOp (parse_erase_link_column nb)"
| "parse_instr nb instr_RenameColumn = map_reader ColumnOp (parse_rename_column nb)"
| "parse_instr nb instr_SelectDescriptor = map_reader GroupOp (parse_select_descriptor nb)"
| "parse_instr nb instr_InsertGroupLevelTable = map_reader GroupOp (parse_insert_group_level_table nb)"
| "parse_instr nb instr_EraseGroupLevelTable = map_reader GroupOp (parse_erase_group_level_table nb)"
| "parse_instr nb instr_RenameGroupLevelTable = map_reader GroupOp (parse_rename_group_level_table nb)"
| "parse_instr nb instr_MoveGroupLevelTable = parser_error"
| "parse_instr nb instr_LinkListSetAll = parser_error"
| "parse_instr nb instr_OptimizeTable = ret (RowOp OpOptimizeTable)"

text \<open>The calls of the handler. A call that returns false is a parser error.\<close>

type_synonym 'h handler = "operation \<Rightarrow> 'h \<Rightarrow> 'h \<times> bool"

definition call_handler :: "'h handler \<Rightarrow> operation \<Rightarrow> 'h \<Rightarrow> 's input \<Rightarrow> 'h \<times> (parse_error + 's input)" where
  "call_handler handler p h inp =
     (let (h', ok) = handler p h in (h', if ok then Inr inp else Inl BadTransactLog))"

fun parse_set_all ::
  "'s next_block \<Rightarrow> 'h handler \<Rightarrow> nat \<Rightarrow> nat \<Rightarrow> nat \<Rightarrow> 'h \<Rightarrow> 's input \<Rightarrow> 'h \<times> (parse_error + 's input)" where
  "parse_set_all nb handler 0 i n h inp = (h, Inr inp)"
| "parse_set_all nb handler (Suc k) i n h inp =
     (case read_size nb inp of
        Inl e \<Rightarrow> (h, Inl e)
      | Inr (link, inp') \<Rightarrow>
          (case call_handler handler (LinkListOp (OpLinkListSet i link n)) h inp' of
             (h', Inl e) \<Rightarrow> (h', Inl e)
           | (h', Inr inp'') \<Rightarrow> parse_set_all nb handler k (i + 1) n h' inp''))"

definition parse_one :: "'s next_block \<Rightarrow> 'h handler \<Rightarrow> 'h \<Rightarrow> 's input \<Rightarrow> 'h \<times> (parse_error + 's input)" where
  "parse_one nb handler h inp =
     (case read_char nb inp of
        Inl e \<Rightarrow> (h, Inl e)
      | Inr (instr_ch, inp1) \<Rightarrow>
          (case instr_of instr_ch of
             None \<Rightarrow> (h, Inl BadTransactLog)
           | Some instr \<Rightarrow>
               if instr = instr_LinkListSetAll then
                 (case read_size nb inp1 of
                    Inl e \<Rightarrow> (h, Inl e)
                  | Inr (n, inp2) \<Rightarrow> parse_set_all nb handler n 0 n h inp2)
               else
                 (case parse_instr nb instr inp1 of
                    Inl e \<Rightarrow> (h, Inl e)
                  | Inr (p, inp2) \<Rightarrow> call_handler handler p h inp2)))"

text \<open>The loop may run for ever on a stream without an end; its result is then \<open>None\<close>.\<close>

partial_function (option) parse_loop ::
  "'s next_block \<Rightarrow> 'h handler \<Rightarrow> 'h \<Rightarrow> 's input \<Rightarrow> ('h \<times> parse_error option) option" where
  "parse_loop nb handler h inp =
     (case has_next nb inp of
        None \<Rightarrow> Some (h, None)
      | Some inp' \<Rightarrow>
          (case parse_one nb handler h inp' of
             (h', Inl e) \<Rightarrow> Some (h', Some e)
           | (h', Inr inp'') \<Rightarrow> parse_loop nb handler h' inp''))"

definition parse :: "'s next_block \<Rightarrow> 'h handler \<Rightarrow> 's \<Rightarrow> 'h \<Rightarrow> ('h \<times> parse_error option) option" where
  "parse nb handler s h = parse_loop nb handler h ([], s)"

text \<open>The other \<open>parse\<close>, over an \<open>InputStream\<close> and the parser's own buffer.\<close>

definition parse_input ::
  "(nat \<Rightarrow> 's \<Rightarrow> byte list \<times> 's) \<Rightarrow> 'h handler \<Rightarrow> 's \<Rightarrow> 'h \<Rightarrow> ('h \<times> parse_error option) option" where
  "parse_input read handler s h = parse (adaptor_next read 1024) handler s h"

end
