(* ===== verification/TransactRoundtrip.thy ===== *)
theory TransactRoundtrip
  imports TransactEncodeCorrect TransactParse
begin

text \<open>
  Reading back what the encoder wrote: the readers of values on the encodings of values, for every
  stream that satisfies the contract of \<open>block_stream\<close>.
\<close>

lemma promote_types [simp]:
  "promote size_type = size_type" "promote int64_type = int64_type" "promote int_t = int_t"
  by (simp_all add: promote_def int_types)

lemma encode_char_int:
  assumes "0 \<le> v" "v < 64" "in_type t v"
  shows "encode_char v = encode_int t v"
proof -
  have "is_negative t v = False" using assms(1) by (simp add: is_negative_def)
  then show ?thesis using encode_small[OF assms(1,2), of "max_bytes t"] by (simp add: encode_int_def encode_char_def)
qed

context block_stream
begin

lemma reads_int:
  assumes "in_type t v" "machine_type t"
  shows "reads yields (read_int next_block t) (encode_int t v) v"
  using read_int_encoded[OF assms] assms(1) by (simp add: decoded_def)

lemma reads_size: "n < 2 ^ 64 \<Longrightarrow> reads yields (read_size next_block) (encode_int size_type (int n)) n"
  unfolding read_size_def
  by (rule reads_bind_eq[OF reads_int[of size_type "int n"] _ append_Nil2[symmetric]])
    (use reads_ret[of yields n] in \<open>simp_all add: size_in_type\<close>)

lemma reads_code:
  assumes "0 \<le> v" "v < 64"
  shows "reads yields (read_int next_block int_t) (encode_char v) v"
    and "reads yields (read_int next_block char_type) (encode_char v) v"
proof -
  have "in_type int_t v" "in_type char_type v" using assms by (auto simp: int_type_defs int_types)
  then show "reads yields (read_int next_block int_t) (encode_char v) v"
    "reads yields (read_int next_block char_type) (encode_char v) v"
    using encode_char_int[OF assms, of int_t] encode_char_int[OF assms, of char_type]
      reads_int[of int_t v] reads_int[of char_type v] by (metis size_machine)+
qed

lemma reads_bind_last: "reads yields p bs x \<Longrightarrow> reads yields (f x) [] y \<Longrightarrow> reads yields (bind p f) bs y"
  using reads_bind by fastforce

lemma reads_bool: "reads yields (read_bool next_block) (encode_char (if b then 1 else 0)) b"
  unfolding read_bool_def
  by (rule reads_bind_last[OF reads_code(2)]) (use reads_ret[of yields b] in \<open>auto split: if_splits\<close>)

lemma read_bytes_loop_reads:
  "length bs = n \<Longrightarrow> (fst inp \<noteq> [] \<and> n < fuel \<or> n + 1 < fuel) \<Longrightarrow> inp_yields yields inp (bs @ rest) \<Longrightarrow>
   \<exists>inp'. read_bytes_loop next_block fuel n inp = Inr (Some bs, inp') \<and> inp_yields yields inp' rest"
proof (induction fuel arbitrary: n inp bs)
  case 0
  then show ?case by simp
next
  case (Suc fuel)
  note 2 = Suc
  obtain r where r: "bs @ rest = fst inp @ r" "yields (snd inp) r" using 2(4) by (auto simp: inp_yields_def)
  show ?case
  proof (cases "n \<le> length (fst inp)")
    case True
    then have "take n (fst inp) = bs" "drop n (fst inp) @ r = rest"
      using r(1) 2(2) by (auto simp: append_eq_append_conv_if)
    then show ?thesis using True r(2) by (auto simp: ret_def inp_yields_def)
  next
    case False
    then obtain bs' where bs': "bs = fst inp @ bs'" "r = bs' @ rest"
      using r(1) 2(2) by (auto simp: append_eq_append_conv2 dest: arg_cong[of _ _ length])
    have "bs' \<noteq> []" using False bs'(1) 2(2) by auto
    then obtain b s' where nb: "next_block (snd inp) = Some (b, s')" "b \<noteq> []" "\<exists>rest'. r = b @ rest' \<and> yields s' rest'"
      using r(2) bs'(2) by (auto elim: block_cases)
    then have y: "inp_yields yields (b, s') (bs' @ rest)" using bs'(2) by (auto simp: inp_yields_def)
    have "length bs' = n - length (fst inp)" using bs'(1) 2(2) by auto
    moreover have "fst (b, s') \<noteq> [] \<and> n - length (fst inp) < fuel" using nb(2) 2(3) False by (auto simp: neq_Nil_conv)
    ultimately obtain inp' where
      "read_bytes_loop next_block fuel (n - length (fst inp)) (b, s') = Inr (Some bs', inp')" "inp_yields yields inp' rest"
      using 2(1)[of bs' "n - length (fst inp)" "(b, s')"] False nb(1) y by (auto simp: next_input_buffer_def)
    then show ?thesis using False nb(1) bs'(1) by (simp add: next_input_buffer_def bind_def ret_def)
  qed
qed

lemma reads_bytes: "length bs = n \<Longrightarrow> reads yields (read_bytes next_block n) bs bs"
proof (rule readsI)
  fix inp rest
  assume "length bs = n" "inp_yields yields inp (bs @ rest)"
  then obtain inp' where "read_bytes_loop next_block (Suc (Suc n)) n inp = Inr (Some bs, inp')" "inp_yields yields inp' rest"
    using read_bytes_loop_reads[of bs n inp "Suc (Suc n)" rest] by auto
  then show "\<exists>inp'. read_bytes next_block n inp = Inr (bs, inp') \<and> inp_yields yields inp' rest"
    by (simp add: read_bytes_def bind_def ret_def)
qed

lemma reads_buffer: "length bs = n \<Longrightarrow> reads yields (read_buffer next_block n) bs bs"
proof (rule readsI)
  fix inp rest
  assume l: "length bs = n" and i: "inp_yields yields inp (bs @ rest)"
  show "\<exists>inp'. read_buffer next_block n inp = Inr (bs, inp') \<and> inp_yields yields inp' rest"
  proof (cases "n \<le> length (fst inp)")
    case True
    obtain r where r: "bs @ rest = fst inp @ r" "yields (snd inp) r" using i by (auto simp: inp_yields_def)
    then have "take n (fst inp) = bs" "drop n (fst inp) @ r = rest"
      using True l by (auto simp: append_eq_append_conv_if)
    then show ?thesis using True r(2) by (auto simp: read_buffer_def ret_def inp_yields_def)
  next
    case False
    then show ?thesis using readsD[OF reads_bytes[OF l] i] by (simp add: read_buffer_def)
  qed
qed

lemma reads_string:
  assumes "length s \<le> max_string_size"
  shows "reads yields (read_string next_block) (encode_int size_type (int (length s)) @ s) s"
proof -
  have "length s < 2 ^ 64" using assms by (simp add: max_string_size_def)
  from reads_size[OF this] show ?thesis
    unfolding read_string_def by (rule reads_bind) (use assms reads_buffer[of s] in simp)
qed

lemma reads_binary:
  assumes "length s < 2 ^ 64"
  shows "reads yields (read_binary next_block) (encode_int size_type (int (length s)) @ s) s"
  unfolding read_binary_def by (rule reads_bind[OF reads_size[OF assms]]) (rule reads_buffer[OF refl])


lemma reads_code_bind:
  "0 \<le> v \<Longrightarrow> v < 64 \<Longrightarrow> reads yields (f v) bs y \<Longrightarrow>
   reads yields (bind (read_int next_block int_t) f) (encode_char v @ bs) y"
  by (rule reads_bind[OF reads_code(1)])

lemmas reads_values = reads_size reads_int reads_bool reads_bytes reads_string reads_binary

end

section \<open>The encoder as a handler\<close>

text \<open>The encoder has a method for every operation. \<open>sel\<close> stands for the three selections.\<close>

fun enc_handle ::
  "(group_op \<Rightarrow> arg list) \<Rightarrow> reserve_fun \<Rightarrow> operation \<Rightarrow> encoder \<Rightarrow> encode_error + encoder" where
  "enc_handle sel rsv (GroupOp (OpSelectTable g path)) = append_simple_instr rsv (AInstr instr_SelectTable # sel (OpSelectTable g path))"
| "enc_handle sel rsv (GroupOp (OpSelectDescriptor path)) = append_simple_instr rsv (AInstr instr_SelectDescriptor # sel (OpSelectDescriptor path))"
| "enc_handle sel rsv (GroupOp (OpSelectLinkList c r g)) = append_simple_instr rsv (AInstr instr_SelectLinkList # sel (OpSelectLinkList c r g))"
| "enc_handle sel rsv (GroupOp (OpInsertGroupLevelTable t n s)) = enc_insert_group_level_table rsv t n s"
| "enc_handle sel rsv (GroupOp (OpEraseGroupLevelTable t n)) = enc_erase_group_level_table rsv t n"
| "enc_handle sel rsv (GroupOp (OpRenameGroupLevelTable t s)) = enc_rename_group_level_table rsv t s"
| "enc_handle sel rsv (RowOp (OpInsertEmptyRows r n p u)) = enc_insert_empty_rows rsv r n p u"
| "enc_handle sel rsv (RowOp (OpAddRowWithKey r p c k)) = enc_add_row_with_key rsv r p c k"
| "enc_handle sel rsv (RowOp (OpEraseRows r n p u)) = enc_erase_rows rsv r n p u"
| "enc_handle sel rsv (RowOp (OpSwapRows r q)) = enc_swap_rows rsv r q"
| "enc_handle sel rsv (RowOp (OpMoveRow r q)) = enc_move_row rsv r q"
| "enc_handle sel rsv (RowOp (OpMergeRows r q)) = enc_merge_rows rsv r q"
| "enc_handle sel rsv (RowOp (OpClearTable n)) = enc_clear_table rsv n"
| "enc_handle sel rsv (RowOp OpOptimizeTable) = enc_optimize_table rsv"
| "enc_handle sel rsv (FieldOp (OpSetInt c r v i p)) = enc_set_int rsv c r v i p"
| "enc_handle sel rsv (FieldOp (OpAddInt c r v)) = enc_add_int rsv c r v"
| "enc_handle sel rsv (FieldOp (OpSetBool c r v i)) = enc_set_bool rsv c r v i"
| "enc_handle sel rsv (FieldOp (OpSetFloat c r v i)) = enc_set_float rsv c r v i"
| "enc_handle sel rsv (FieldOp (OpSetDouble c r v i)) = enc_set_double rsv c r v i"
| "enc_handle sel rsv (FieldOp (OpSetString c r v i p)) = enc_set_string rsv c r (Some v) i p"
| "enc_handle sel rsv (FieldOp (OpSetBinary c r v i)) = enc_set_binary rsv c r (Some v) i"
| "enc_handle sel rsv (FieldOp (OpSetOldDateTime c r v i)) = enc_set_olddatetime rsv c r v i"
| "enc_handle sel rsv (FieldOp (OpSetTimestamp c r s n i)) = enc_set_timestamp rsv c r s n i"
| "enc_handle sel rsv (FieldOp (OpSetTable c r i)) = enc_set_table rsv c r i"
| "enc_handle sel rsv (FieldOp (OpSetMixed c r v i)) = enc_set_mixed rsv c r v i"
| "enc_handle sel rsv (FieldOp (OpSetLink c r v g i)) = enc_set_link rsv c r v g i"
| "enc_handle sel rsv (FieldOp (OpSetNull c r i p)) = enc_set_null rsv c r i p"
| "enc_handle sel rsv (FieldOp (OpNullifyLink c r g)) = enc_nullify_link rsv c r g"
| "enc_handle sel rsv (FieldOp (OpInsertSubstring c r q s)) = enc_insert_substring rsv c r q s"
| "enc_handle sel rsv (FieldOp (OpEraseSubstring c r q n)) = enc_erase_substring rsv c r q n"
| "enc_handle sel rsv (ColumnOp (OpInsertLinkColumn c t s g b)) = enc_insert_link_column rsv c t s g b"
| "enc_handle sel rsv (ColumnOp (OpInsertColumn c t s u)) = enc_insert_column rsv c t s u"
| "enc_handle sel rsv (ColumnOp (OpEraseLinkColumn c g b)) = enc_erase_link_column rsv c g b"
| "enc_handle sel rsv (ColumnOp (OpEraseColumn c)) = enc_erase_column rsv c"
| "enc_handle sel rsv (ColumnOp (OpRenameColumn c s)) = enc_rename_column rsv c s"
| "enc_handle sel rsv (ColumnOp (OpAddSearchIndex c)) = enc_add_search_index rsv c"
| "enc_handle sel rsv (ColumnOp (OpRemoveSearchIndex c)) = enc_remove_search_index rsv c"
| "enc_handle sel rsv (ColumnOp (OpSetLinkType c t)) = enc_set_link_type rsv c t"
| "enc_handle sel rsv (LinkListOp (OpLinkListSet l v p)) = enc_link_list_set rsv l v p"
| "enc_handle sel rsv (LinkListOp (OpLinkListInsert l v p)) = enc_link_list_insert rsv l v p"
| "enc_handle sel rsv (LinkListOp (OpLinkListMove l q)) = enc_link_list_move rsv l q"
| "enc_handle sel rsv (LinkListOp (OpLinkListSwap l q)) = enc_link_list_swap rsv l q"
| "enc_handle sel rsv (LinkListOp (OpLinkListErase l p)) = enc_link_list_erase rsv l p"
| "enc_handle sel rsv (LinkListOp (OpLinkListNullify l p)) = enc_link_list_nullify rsv l p"
| "enc_handle sel rsv (LinkListOp (OpLinkListClear n)) = enc_link_list_clear rsv n"


text \<open>
  The format of the log as a specification: the instruction and the arguments of every operation, and
  the operations that the encoder may be asked for. The encoder writes that format, and the parser reads
  it back.
\<close>

fun mixed_args :: "mixed \<Rightarrow> arg list" where
  "mixed_args (Mixed_Int v) = [AType type_Int, AInt int64_type v]"
| "mixed_args (Mixed_Bool b) = [AType type_Bool, ABool b]"
| "mixed_args (Mixed_Float f) = [AType type_Float, AFloat f]"
| "mixed_args (Mixed_Double d) = [AType type_Double, ADouble d]"
| "mixed_args (Mixed_OldDateTime v) = [AType type_OldDateTime, AInt int64_type v]"
| "mixed_args (Mixed_Timestamp s n) = [AType type_Timestamp, AInt int64_type s, AInt int_t n]"
| "mixed_args (Mixed_String s) = [AType type_String, AString s]"
| "mixed_args (Mixed_Binary s) = [AType type_Binary, AString s]"
| "mixed_args Mixed_Table = [AType type_Table]"

fun mixed_ok :: "mixed \<Rightarrow> bool" where
  "mixed_ok (Mixed_Int v) \<longleftrightarrow> in_type int64_type v"
| "mixed_ok (Mixed_Float f) \<longleftrightarrow> length f = 4"
| "mixed_ok (Mixed_Double d) \<longleftrightarrow> length d = 8"
| "mixed_ok (Mixed_OldDateTime v) \<longleftrightarrow> in_type int64_type v"
| "mixed_ok (Mixed_Timestamp s n) \<longleftrightarrow> in_type int64_type s \<and> in_type int_t n"
| "mixed_ok (Mixed_String s) \<longleftrightarrow> length s \<le> max_string_size"
| "mixed_ok (Mixed_Binary s) \<longleftrightarrow> length s < 2 ^ 62"
| "mixed_ok _ \<longleftrightarrow> True"

fun op_instr :: "operation \<Rightarrow> instruction" where
  "op_instr (GroupOp (OpSelectTable g path)) = instr_SelectTable"
| "op_instr (GroupOp (OpSelectDescriptor path)) = instr_SelectDescriptor"
| "op_instr (GroupOp (OpSelectLinkList c r g)) = instr_SelectLinkList"
| "op_instr (GroupOp (OpInsertGroupLevelTable t n s)) = instr_InsertGroupLevelTable"
| "op_instr (GroupOp (OpEraseGroupLevelTable t n)) = instr_EraseGroupLevelTable"
| "op_instr (GroupOp (OpRenameGroupLevelTable t s)) = instr_RenameGroupLevelTable"
| "op_instr (RowOp (OpInsertEmptyRows r n p u)) = instr_InsertEmptyRows"
| "op_instr (RowOp (OpAddRowWithKey r n c k)) = instr_AddRowWithKey"
| "op_instr (RowOp (OpEraseRows r n p u)) = instr_EraseRows"
| "op_instr (RowOp (OpSwapRows r q)) = instr_SwapRows"
| "op_instr (RowOp (OpMoveRow r q)) = instr_MoveRow"
| "op_instr (RowOp (OpMergeRows r q)) = instr_MergeRows"
| "op_instr (RowOp (OpClearTable n)) = instr_ClearTable"
| "op_instr (RowOp OpOptimizeTable) = instr_OptimizeTable"
| "op_instr (FieldOp (OpSetInt c r v i p)) = i"
| "op_instr (FieldOp (OpAddInt c r v)) = instr_AddInteger"
| "op_instr (FieldOp (OpSetBool c r v i)) = i"
| "op_instr (FieldOp (OpSetFloat c r v i)) = i"
| "op_instr (FieldOp (OpSetDouble c r v i)) = instr_Set"
| "op_instr (FieldOp (OpSetString c r v i p)) = i"
| "op_instr (FieldOp (OpSetBinary c r v i)) = i"
| "op_instr (FieldOp (OpSetOldDateTime c r v i)) = i"
| "op_instr (FieldOp (OpSetTimestamp c r s n i)) = i"
| "op_instr (FieldOp (OpSetTable c r i)) = i"
| "op_instr (FieldOp (OpSetMixed c r v i)) = i"
| "op_instr (FieldOp (OpSetLink c r v g i)) = i"
| "op_instr (FieldOp (OpSetNull c r i p)) = i"
| "op_instr (FieldOp (OpNullifyLink c r g)) = instr_NullifyLink"
| "op_instr (FieldOp (OpInsertSubstring c r q s)) = instr_InsertSubstring"
| "op_instr (FieldOp (OpEraseSubstring c r q n)) = instr_EraseFromString"
| "op_instr (ColumnOp (OpInsertLinkColumn c t s g b)) = instr_InsertLinkColumn"
| "op_instr (ColumnOp (OpInsertColumn c t s u)) = (if u then instr_InsertNullableColumn else instr_InsertColumn)"
| "op_instr (ColumnOp (OpEraseLinkColumn c g b)) = instr_EraseLinkColumn"
| "op_instr (ColumnOp (OpEraseColumn c)) = instr_EraseColumn"
| "op_instr (ColumnOp (OpRenameColumn c s)) = instr_RenameColumn"
| "op_instr (ColumnOp (OpAddSearchIndex c)) = instr_AddSearchIndex"
| "op_instr (ColumnOp (OpRemoveSearchIndex c)) = instr_RemoveSearchIndex"
| "op_instr (ColumnOp (OpSetLinkType c t)) = instr_SetLinkType"
| "op_instr (LinkListOp (OpLinkListSet l v p)) = instr_LinkListSet"
| "op_instr (LinkListOp (OpLinkListInsert l v p)) = instr_LinkListInsert"
| "op_instr (LinkListOp (OpLinkListMove l q)) = instr_LinkListMove"
| "op_instr (LinkListOp (OpLinkListSwap l q)) = instr_LinkListSwap"
| "op_instr (LinkListOp (OpLinkListErase l p)) = instr_LinkListErase"
| "op_instr (LinkListOp (OpLinkListNullify l p)) = instr_LinkListNullify"
| "op_instr (LinkListOp (OpLinkListClear n)) = instr_LinkListClear"

fun op_args :: "operation \<Rightarrow> arg list" where
  "op_args (GroupOp (OpSelectTable g path)) = [AInt int_t (int (length path)), ASize g] @ map ASize (concat (map (\<lambda>(c, r). [c, r]) path))"
| "op_args (GroupOp (OpSelectDescriptor path)) = AInt int_t (int (length path)) # map ASize path"
| "op_args (GroupOp (OpSelectLinkList c r g)) = [ASize c, ASize r, ASize g]"
| "op_args (GroupOp (OpInsertGroupLevelTable t n s)) = [ASize t, ASize n, AString s]"
| "op_args (GroupOp (OpEraseGroupLevelTable t n)) = [ASize t, ASize n]"
| "op_args (GroupOp (OpRenameGroupLevelTable t s)) = [ASize t, AString s]"
| "op_args (RowOp (OpInsertEmptyRows r n p u)) = [ASize r, ASize n, ASize p, ABool u]"
| "op_args (RowOp (OpAddRowWithKey r n c k)) = [ASize r, ASize n, ASize c, AInt int64_type k]"
| "op_args (RowOp (OpEraseRows r n p u)) = [ASize r, ASize n, ASize p, ABool u]"
| "op_args (RowOp (OpSwapRows r q)) = [ASize r, ASize q]"
| "op_args (RowOp (OpMoveRow r q)) = [ASize r, ASize q]"
| "op_args (RowOp (OpMergeRows r q)) = [ASize r, ASize q]"
| "op_args (RowOp (OpClearTable n)) = [ASize n]"
| "op_args (RowOp OpOptimizeTable) = []"
| "op_args (FieldOp (OpSetInt c r v i p)) = [AType type_Int, ASize c, ASize r] @ (if i = instr_SetUnique then [ASize p] else []) @ [AInt int64_type v]"
| "op_args (FieldOp (OpAddInt c r v)) = [ASize c, ASize r, AInt int64_type v]"
| "op_args (FieldOp (OpSetBool c r v i)) = [AType type_Bool, ASize c, ASize r, ABool v]"
| "op_args (FieldOp (OpSetFloat c r v i)) = [AType type_Float, ASize c, ASize r, AFloat v]"
| "op_args (FieldOp (OpSetDouble c r v i)) = [AType type_Double, ASize c, ASize r, ADouble v]"
| "op_args (FieldOp (OpSetString c r v i p)) = [AType type_String, ASize c, ASize r] @ (if i = instr_SetUnique then [ASize p] else []) @ [AString v]"
| "op_args (FieldOp (OpSetBinary c r v i)) = [AType type_Binary, ASize c, ASize r, AString v]"
| "op_args (FieldOp (OpSetOldDateTime c r v i)) = [AType type_OldDateTime, ASize c, ASize r, AInt int64_type v]"
| "op_args (FieldOp (OpSetTimestamp c r s n i)) = [AType type_Timestamp, ASize c, ASize r, AInt int64_type s, AInt int_t n]"
| "op_args (FieldOp (OpSetTable c r i)) = [AType type_Table, ASize c, ASize r]"
| "op_args (FieldOp (OpSetMixed c r v i)) = [AType type_Mixed, ASize c, ASize r] @ mixed_args v"
| "op_args (FieldOp (OpSetLink c r v g i)) = [AType type_Link, ASize c, ASize r, ASize ((1 + v) mod 2 ^ 64), ASize g]"
| "op_args (FieldOp (OpSetNull c r i p)) = [AInt int_t (- 1), ASize c, ASize r] @ (if i = instr_SetUnique then [ASize p] else [])"
| "op_args (FieldOp (OpNullifyLink c r g)) = [ASize c, ASize r, ASize g]"
| "op_args (FieldOp (OpInsertSubstring c r q s)) = [ASize c, ASize r, ASize q, AString s]"
| "op_args (FieldOp (OpEraseSubstring c r q n)) = [ASize c, ASize r, ASize q, ASize n]"
| "op_args (ColumnOp (OpInsertLinkColumn c t s g b)) = [ASize c, AType t, ASize g, ASize b, AString s]"
| "op_args (ColumnOp (OpInsertColumn c t s u)) = [ASize c, AType t, AString s]"
| "op_args (ColumnOp (OpEraseLinkColumn c g b)) = [ASize c, ASize g, ASize b]"
| "op_args (ColumnOp (OpEraseColumn c)) = [ASize c]"
| "op_args (ColumnOp (OpRenameColumn c s)) = [ASize c, AString s]"
| "op_args (ColumnOp (OpAddSearchIndex c)) = [ASize c]"
| "op_args (ColumnOp (OpRemoveSearchIndex c)) = [ASize c]"
| "op_args (ColumnOp (OpSetLinkType c t)) = [ASize c, AInt int_t (link_code t)]"
| "op_args (LinkListOp (OpLinkListSet l v p)) = [ASize l, ASize v, ASize p]"
| "op_args (LinkListOp (OpLinkListInsert l v p)) = [ASize l, ASize v, ASize p]"
| "op_args (LinkListOp (OpLinkListMove l q)) = [ASize l, ASize q]"
| "op_args (LinkListOp (OpLinkListSwap l q)) = [ASize l, ASize q]"
| "op_args (LinkListOp (OpLinkListErase l p)) = [ASize l, ASize p]"
| "op_args (LinkListOp (OpLinkListNullify l p)) = [ASize l, ASize p]"
| "op_args (LinkListOp (OpLinkListClear n)) = [ASize n]"

fun op_ok :: "operation \<Rightarrow> bool" where
  "op_ok (GroupOp (OpSelectTable g path)) \<longleftrightarrow> g < 2 ^ 64 \<and> length path \<le> 1024 \<and> list_all (\<lambda>(c, r). c < 2 ^ 64 \<and> r < 2 ^ 64) path"
| "op_ok (GroupOp (OpSelectDescriptor path)) \<longleftrightarrow> length path \<le> 1024 \<and> list_all (\<lambda>c. c < 2 ^ 64) path"
| "op_ok (GroupOp (OpSelectLinkList c r g)) \<longleftrightarrow> c < 2 ^ 64 \<and> r < 2 ^ 64 \<and> g < 2 ^ 64"
| "op_ok (GroupOp (OpInsertGroupLevelTable t n s)) \<longleftrightarrow> t < 2 ^ 64 \<and> n < 2 ^ 64 \<and> length s \<le> max_string_size"
| "op_ok (GroupOp (OpEraseGroupLevelTable t n)) \<longleftrightarrow> t < 2 ^ 64 \<and> n < 2 ^ 64"
| "op_ok (GroupOp (OpRenameGroupLevelTable t s)) \<longleftrightarrow> t < 2 ^ 64 \<and> length s \<le> max_string_size"
| "op_ok (RowOp (OpInsertEmptyRows r n p u)) \<longleftrightarrow> r < 2 ^ 64 \<and> n < 2 ^ 64 \<and> p < 2 ^ 64"
| "op_ok (RowOp (OpAddRowWithKey r n c k)) \<longleftrightarrow> r < 2 ^ 64 \<and> n < 2 ^ 64 \<and> c < 2 ^ 64 \<and> in_type int64_type k"
| "op_ok (RowOp (OpEraseRows r n p u)) \<longleftrightarrow> r < 2 ^ 64 \<and> n < 2 ^ 64 \<and> p < 2 ^ 64"
| "op_ok (RowOp (OpSwapRows r q)) \<longleftrightarrow> r < 2 ^ 64 \<and> q < 2 ^ 64"
| "op_ok (RowOp (OpMoveRow r q)) \<longleftrightarrow> r < 2 ^ 64 \<and> q < 2 ^ 64"
| "op_ok (RowOp (OpMergeRows r q)) \<longleftrightarrow> r < 2 ^ 64 \<and> q < 2 ^ 64"
| "op_ok (RowOp (OpClearTable n)) \<longleftrightarrow> n < 2 ^ 64"
| "op_ok (RowOp OpOptimizeTable) \<longleftrightarrow> True"
| "op_ok (FieldOp (OpSetInt c r v i p)) \<longleftrightarrow> c < 2 ^ 64 \<and> r < 2 ^ 64 \<and> (i = instr_Set \<and> p = 0 \<or> i = instr_SetDefault \<and> p = 0 \<or> i = instr_SetUnique \<and> p < 2 ^ 64) \<and> in_type int64_type v"
| "op_ok (FieldOp (OpAddInt c r v)) \<longleftrightarrow> c < 2 ^ 64 \<and> r < 2 ^ 64 \<and> in_type int64_type v"
| "op_ok (FieldOp (OpSetBool c r v i)) \<longleftrightarrow> c < 2 ^ 64 \<and> r < 2 ^ 64 \<and> (i = instr_Set \<or> i = instr_SetDefault)"
| "op_ok (FieldOp (OpSetFloat c r v i)) \<longleftrightarrow> c < 2 ^ 64 \<and> r < 2 ^ 64 \<and> (i = instr_Set \<or> i = instr_SetDefault) \<and> length v = 4"
| "op_ok (FieldOp (OpSetDouble c r v i)) \<longleftrightarrow> c < 2 ^ 64 \<and> r < 2 ^ 64 \<and> (i = instr_Set \<or> i = instr_SetDefault) \<and> length v = 8"
| "op_ok (FieldOp (OpSetString c r v i p)) \<longleftrightarrow> c < 2 ^ 64 \<and> r < 2 ^ 64 \<and> (i = instr_Set \<and> p = 0 \<or> i = instr_SetDefault \<and> p = 0 \<or> i = instr_SetUnique \<and> p < 2 ^ 64) \<and> length v \<le> max_string_size"
| "op_ok (FieldOp (OpSetBinary c r v i)) \<longleftrightarrow> c < 2 ^ 64 \<and> r < 2 ^ 64 \<and> (i = instr_Set \<or> i = instr_SetDefault) \<and> length v < 2 ^ 62"
| "op_ok (FieldOp (OpSetOldDateTime c r v i)) \<longleftrightarrow> c < 2 ^ 64 \<and> r < 2 ^ 64 \<and> (i = instr_Set \<or> i = instr_SetDefault) \<and> in_type int64_type v"
| "op_ok (FieldOp (OpSetTimestamp c r s n i)) \<longleftrightarrow> c < 2 ^ 64 \<and> r < 2 ^ 64 \<and> (i = instr_Set \<or> i = instr_SetDefault) \<and> in_type int64_type s \<and> in_type int_t n"
| "op_ok (FieldOp (OpSetTable c r i)) \<longleftrightarrow> c < 2 ^ 64 \<and> r < 2 ^ 64 \<and> (i = instr_Set \<or> i = instr_SetDefault)"
| "op_ok (FieldOp (OpSetMixed c r v i)) \<longleftrightarrow> c < 2 ^ 64 \<and> r < 2 ^ 64 \<and> (i = instr_Set \<or> i = instr_SetDefault) \<and> mixed_ok v"
| "op_ok (FieldOp (OpSetLink c r v g i)) \<longleftrightarrow> c < 2 ^ 64 \<and> r < 2 ^ 64 \<and> g < 2 ^ 64 \<and> (i = instr_Set \<or> i = instr_SetDefault) \<and> v < 2 ^ 64"
| "op_ok (FieldOp (OpSetNull c r i p)) \<longleftrightarrow> c < 2 ^ 64 \<and> r < 2 ^ 64 \<and> (i = instr_Set \<and> p = 0 \<or> i = instr_SetDefault \<and> p = 0 \<or> i = instr_SetUnique \<and> p < 2 ^ 64)"
| "op_ok (FieldOp (OpNullifyLink c r g)) \<longleftrightarrow> c < 2 ^ 64 \<and> r < 2 ^ 64 \<and> g < 2 ^ 64"
| "op_ok (FieldOp (OpInsertSubstring c r q s)) \<longleftrightarrow> c < 2 ^ 64 \<and> r < 2 ^ 64 \<and> q < 2 ^ 64 \<and> length s \<le> max_string_size"
| "op_ok (FieldOp (OpEraseSubstring c r q n)) \<longleftrightarrow> c < 2 ^ 64 \<and> r < 2 ^ 64 \<and> q < 2 ^ 64 \<and> n < 2 ^ 64"
| "op_ok (ColumnOp (OpInsertLinkColumn c t s g b)) \<longleftrightarrow> c < 2 ^ 64 \<and> g < 2 ^ 64 \<and> b < 2 ^ 64 \<and> length s \<le> max_string_size \<and> (t = type_Link \<or> t = type_LinkList)"
| "op_ok (ColumnOp (OpInsertColumn c t s u)) \<longleftrightarrow> c < 2 ^ 64 \<and> length s \<le> max_string_size \<and> t \<noteq> type_Link \<and> t \<noteq> type_LinkList \<and> \<not> (u \<and> t = type_Mixed)"
| "op_ok (ColumnOp (OpEraseLinkColumn c g b)) \<longleftrightarrow> c < 2 ^ 64 \<and> g < 2 ^ 64 \<and> b < 2 ^ 64"
| "op_ok (ColumnOp (OpEraseColumn c)) \<longleftrightarrow> c < 2 ^ 64"
| "op_ok (ColumnOp (OpRenameColumn c s)) \<longleftrightarrow> c < 2 ^ 64 \<and> length s \<le> max_string_size"
| "op_ok (ColumnOp (OpAddSearchIndex c)) \<longleftrightarrow> c < 2 ^ 64"
| "op_ok (ColumnOp (OpRemoveSearchIndex c)) \<longleftrightarrow> c < 2 ^ 64"
| "op_ok (ColumnOp (OpSetLinkType c t)) \<longleftrightarrow> c < 2 ^ 64"
| "op_ok (LinkListOp (OpLinkListSet l v p)) \<longleftrightarrow> l < 2 ^ 64 \<and> v < 2 ^ 64 \<and> p < 2 ^ 64"
| "op_ok (LinkListOp (OpLinkListInsert l v p)) \<longleftrightarrow> l < 2 ^ 64 \<and> v < 2 ^ 64 \<and> p < 2 ^ 64"
| "op_ok (LinkListOp (OpLinkListMove l q)) \<longleftrightarrow> l < 2 ^ 64 \<and> q < 2 ^ 64"
| "op_ok (LinkListOp (OpLinkListSwap l q)) \<longleftrightarrow> l < 2 ^ 64 \<and> q < 2 ^ 64"
| "op_ok (LinkListOp (OpLinkListErase l p)) \<longleftrightarrow> l < 2 ^ 64 \<and> p < 2 ^ 64"
| "op_ok (LinkListOp (OpLinkListNullify l p)) \<longleftrightarrow> l < 2 ^ 64 \<and> p < 2 ^ 64"
| "op_ok (LinkListOp (OpLinkListClear n)) \<longleftrightarrow> n < 2 ^ 64"

text \<open>\<open>set_double\<close> writes \<open>instr_Set\<close> whatever variant it is given.\<close>

fun stored :: "operation \<Rightarrow> operation" where
  "stored (FieldOp (OpSetDouble c r v i)) = FieldOp (OpSetDouble c r v instr_Set)"
| "stored p = p"

fun is_selection :: "group_op \<Rightarrow> bool" where
  "is_selection (OpSelectTable g path) = True"
| "is_selection (OpSelectDescriptor path) = True"
| "is_selection (OpSelectLinkList c r g) = True"
| "is_selection _ = False"

definition selections :: "(group_op \<Rightarrow> arg list) \<Rightarrow> bool" where
  "selections sel \<longleftrightarrow> (\<forall>g. is_selection g \<longrightarrow> sel g = op_args (GroupOp g))"

lemma append_mixed_args:
  "append_mixed_instr rsv i v args = append_simple_instr rsv (AInstr i # args @ mixed_args v)"
  by (cases v) simp_all

lemmas enc_defs =
  enc_insert_group_level_table_def enc_erase_group_level_table_def enc_rename_group_level_table_def
  enc_insert_column_def enc_insert_link_column_def enc_erase_column_def enc_erase_link_column_def
  enc_rename_column_def enc_set_int_def enc_add_int_def enc_set_bool_def enc_set_float_def
  enc_set_double_def enc_set_null_def enc_set_string_def enc_set_binary_def enc_set_olddatetime_def
  enc_set_timestamp_def enc_set_table_def enc_set_mixed_def enc_set_link_def enc_nullify_link_def
  enc_insert_substring_def enc_erase_substring_def enc_insert_empty_rows_def enc_add_row_with_key_def
  enc_erase_rows_def enc_swap_rows_def enc_move_row_def enc_merge_rows_def enc_add_search_index_def
  enc_remove_search_index_def enc_set_link_type_def enc_clear_table_def enc_optimize_table_def
  enc_link_list_set_def enc_link_list_nullify_def enc_link_list_insert_def enc_link_list_move_def
  enc_link_list_swap_def enc_link_list_erase_def enc_link_list_clear_def

lemma enc_handle_args:
  assumes "selections sel" "op_ok p"
  shows "enc_handle sel rsv p = append_simple_instr rsv (AInstr (op_instr p) # op_args p)"
  using assms
  by (cases "(sel, rsv, p)" rule: enc_handle.cases)
    (auto simp: enc_defs selections_def append_mixed_args fun_eq_iff)

end
