(* ===== verification/TransactLogReads.thy ===== *)
theory TransactLogReads
  imports TransactRoundtrip
begin

text \<open>
  The parser reads every operation back from the instruction and the arguments that the format gives
  it: one lemma for each group of instructions.
\<close>

lemma args_bytes_simps: "args_bytes [] = []" "args_bytes (a # args) = arg_bytes a @ args_bytes args"
  "args_bytes (xs @ ys) = args_bytes xs @ args_bytes ys"
  by (simp_all add: args_bytes_def)

lemma max_size_append: "max_size_list (xs @ ys) = max_size_list xs + max_size_list ys"
  by (induction xs) auto

lemma max_size_sizes: "max_size_list (map ASize ns) = max_enc_bytes_per_num * length ns"
  by (induction ns) auto

lemma length_pairs: "length (concat (map (\<lambda>(c, r). [c, r]) path)) = 2 * length path"
  by (induction path) auto

lemma max_bytes_per_num: "max_enc_bytes_per_num = 10"
  by (simp add: max_enc_bytes_per_num_def max_enc_bytes_per_int_def)

lemma minus_one_type: "in_type int_t (- 1)" "in_type int_t 0" "in_type int_t 1"
  by (simp_all add: int_type_defs int_types)

lemma levels_type: "n \<le> 1024 \<Longrightarrow> in_type int_t (int n)"
  by (simp add: int_type_defs int_types)

lemma link_code_type: "in_type int_t (link_code t)"
  by (cases t) (simp_all add: minus_one_type)

lemma mixed_args_ok:
  "mixed_ok v \<Longrightarrow> list_all arg_ok (mixed_args v) \<and> list_all (\<lambda>a. \<not> is_integers a) (mixed_args v)
     \<and> max_size_list (mixed_args v) \<le> 2 ^ 62 + 100"
  by (cases v) (auto simp: max_bytes_per_num max_string_size_def)

lemma op_args_ok:
  assumes "op_ok p"
  shows "list_all arg_ok (op_args p)" "list_all (\<lambda>a. \<not> is_integers a) (op_args p)"
    "max_size_list (op_args p) \<le> 2 ^ 63 + 100"
proof -
  have "list_all arg_ok (op_args p) \<and> list_all (\<lambda>a. \<not> is_integers a) (op_args p)
    \<and> max_size_list (op_args p) \<le> 2 ^ 63 + 100"
    using assms
    by (cases p rule: op_ok.cases)
      (auto simp: size_in_type max_bytes_per_num max_string_size_def max_size_append max_size_sizes length_pairs
        minus_one_type link_code_type levels_type list_all_iff dest!: mixed_args_ok)
  then show "list_all arg_ok (op_args p)" "list_all (\<lambda>a. \<not> is_integers a) (op_args p)"
    "max_size_list (op_args p) \<le> 2 ^ 63 + 100" by blast+
qed

lemma op_args_args_ok: "op_ok p \<Longrightarrow> args_ok (AInstr (op_instr p) # op_args p)"
  using op_args_ok[of p] by (auto simp: args_ok_def list_all_iff dest: in_set_butlastD)


declare arg_bytes.simps [simp del]

lemmas parse_row_defs = parse_insert_empty_rows_def parse_add_row_with_key_def parse_erase_rows_def
  parse_swap_rows_def parse_move_row_def parse_merge_rows_def parse_clear_table_def

lemmas parse_link_list_defs = parse_link_list_set_def parse_link_list_insert_def parse_link_list_move_def
  parse_link_list_swap_def parse_link_list_erase_def parse_link_list_nullify_def parse_link_list_clear_def

lemmas parse_column_defs = parse_add_search_index_def parse_remove_search_index_def parse_set_link_type_def
  parse_insert_column_def parse_insert_link_column_def parse_erase_column_def parse_erase_link_column_def
  parse_rename_column_def

lemmas parse_field_defs = parse_set_def parse_set_value_def parse_add_integer_def parse_nullify_link_def
  parse_insert_substring_def parse_erase_from_string_def

lemma type_of_codes [simp]:
  "type_of_code 0 = Some type_Int" "type_of_code 1 = Some type_Bool" "type_of_code 9 = Some type_Float"
  "type_of_code 10 = Some type_Double" "type_of_code 2 = Some type_String" "type_of_code 4 = Some type_Binary"
  "type_of_code 7 = Some type_OldDateTime" "type_of_code 8 = Some type_Timestamp" "type_of_code 5 = Some type_Table"
  "type_of_code 6 = Some type_Mixed" "type_of_code 12 = Some type_Link" "type_of_code 13 = Some type_LinkList"
  by (simp_all add: type_of_code_def data_types_def)

lemma link_of_codes [simp]: "link_of_code 0 = Some link_Strong" "link_of_code 1 = Some link_Weak"
  by (simp_all add: link_of_code_def)

lemma link_target:
  assumes "v < 2 ^ 64"
  shows "sub_size (Suc v mod 18446744073709551616) (Suc 0) = v"
proof (cases "Suc v = 2 ^ 64")
  case True
  then show ?thesis by (simp add: sub_size_def)
next
  case False
  then have "Suc v mod 18446744073709551616 = Suc v" using assms by simp
  then show ?thesis by simp
qed

lemma args_bytes_sizes: "args_bytes (map ASize ns) = concat (map (\<lambda>n. arg_bytes (ASize n)) ns)"
  by (simp add: args_bytes_def comp_def)

lemma args_bytes_pairs:
  "args_bytes (map ASize (concat (map (\<lambda>(c, r). [c, r]) path)))
    = concat (map (\<lambda>(c, r). arg_bytes (ASize c) @ arg_bytes (ASize r)) path)"
  by (induction path) (auto simp: args_bytes_simps)

lemma bind_assoc: "bind (bind p f) g = bind p (\<lambda>x. bind (f x) g)"
  by (auto simp: bind_def fun_eq_iff split: sum.splits)

lemma bind_ret: "bind (ret x) f = f x"
  by (simp add: bind_def ret_def fun_eq_iff)

lemmas parse_group_defs = parse_select_table_def parse_select_descriptor_def parse_select_link_list_def
  parse_insert_group_level_table_def parse_erase_group_level_table_def parse_rename_group_level_table_def

context block_stream
begin

lemma reads_arg_size: "n < 2 ^ 64 \<Longrightarrow> reads yields (read_size next_block) (arg_bytes (ASize n)) n"
  using reads_size by (simp add: arg_bytes.simps)

lemma reads_arg_int64: "in_type int64_type v \<Longrightarrow> reads yields (read_int next_block int64_type) (arg_bytes (AInt int64_type v)) v"
  using reads_int by (simp add: arg_bytes.simps)

lemma reads_arg_int: "in_type int_t v \<Longrightarrow> reads yields (read_int next_block int_t) (arg_bytes (AInt int_t v)) v"
  using reads_int by (simp add: arg_bytes.simps)

lemma reads_arg_type: "reads yields (read_int next_block int_t) (arg_bytes (AType t)) (type_code t)"
  using reads_code(1) type_code_range by (simp add: arg_bytes.simps)

lemma reads_arg_bool: "reads yields (read_bool next_block) (arg_bytes (ABool b)) b"
  using reads_bool by (simp add: arg_bytes.simps)

lemma reads_arg_float: "length f = 4 \<Longrightarrow> reads yields (read_float next_block) (arg_bytes (AFloat f)) f"
  using reads_bytes[of f 4] by (simp add: arg_bytes.simps read_float_def)

lemma reads_arg_double: "length d = 8 \<Longrightarrow> reads yields (read_double next_block) (arg_bytes (ADouble d)) d"
  using reads_bytes[of d 8] by (simp add: arg_bytes.simps read_double_def)

lemma reads_arg_string: "length s \<le> max_string_size \<Longrightarrow> reads yields (read_string next_block) (arg_bytes (AString s)) s"
  using reads_string by (simp add: arg_bytes.simps)

lemma reads_arg_binary: "length s < 2 ^ 62 \<Longrightarrow> reads yields (read_binary next_block) (arg_bytes (AString s)) s"
  using reads_binary[of s] by (simp add: arg_bytes.simps)

lemmas reads_args = reads_arg_size reads_arg_int64 reads_arg_int reads_arg_type reads_arg_bool
  reads_arg_float reads_arg_double reads_arg_string reads_arg_binary

lemma reads_map: "reads yields p bs x \<Longrightarrow> reads yields (map_reader f p) bs (f x)"
  unfolding map_reader_def by (rule reads_bind_last, assumption, rule reads_ret)

lemma reads_times:
  "list_all (\<lambda>x. reads yields p (g x) x) xs \<Longrightarrow> reads yields (read_times (length xs) p) (concat (map g xs)) xs"
proof (induction xs)
  case Nil
  then show ?case by (simp add: reads_ret)
next
  case (Cons x xs)
  have "reads yields (bind (read_times (length xs) p) (\<lambda>xs. ret (x # xs))) (concat (map g xs)) (x # xs)"
    using Cons.prems by (auto intro: reads_bind_last[OF _ reads_ret] Cons.IH)
  then show ?case using Cons.prems by (auto intro!: reads_bind)
qed

lemmas reads_binds = reads_args[THEN reads_bind]

lemma reads_mixed: "mixed_ok v \<Longrightarrow> reads yields (read_mixed next_block) (args_bytes (mixed_args v)) v"
  by (cases v)
    (auto simp: args_bytes_simps read_mixed_def read_timestamp_def bind_assoc bind_ret simp del: append_Nil2
      intro!: reads_binds reads_ret)

lemma reads_row_op:
  "op_ok (RowOp p) \<Longrightarrow>
   reads yields (parse_instr next_block (op_instr (RowOp p))) (args_bytes (op_args (RowOp p))) (RowOp p)"
  by (cases p)
    (auto simp: args_bytes_simps parse_row_defs simp del: append_Nil2 intro!: reads_map reads_binds reads_ret)

lemma reads_link_list_op:
  "op_ok (LinkListOp p) \<Longrightarrow>
   reads yields (parse_instr next_block (op_instr (LinkListOp p))) (args_bytes (op_args (LinkListOp p))) (LinkListOp p)"
  by (cases p)
    (auto simp: args_bytes_simps parse_link_list_defs simp del: append_Nil2 intro!: reads_map reads_binds reads_ret)

lemma reads_column_op:
  "op_ok (ColumnOp p) \<Longrightarrow>
   reads yields (parse_instr next_block (op_instr (ColumnOp p))) (args_bytes (op_args (ColumnOp p))) (ColumnOp p)"
  by (cases p)
    (auto simp: args_bytes_simps parse_column_defs link_code_type simp del: append_Nil2
      intro!: reads_map reads_binds reads_ret)

lemma reads_field_op:
  "op_ok (FieldOp p) \<Longrightarrow>
   reads yields (parse_instr next_block (op_instr (FieldOp p))) (args_bytes (op_args (FieldOp p)))
     (stored (FieldOp p))"
  by (cases p)
    (auto simp: args_bytes_simps parse_field_defs minus_one_type bind_ret link_target simp del: append_Nil2
      intro!: reads_map reads_binds reads_bind_last[OF reads_mixed reads_ret] reads_ret)

lemma reads_path:
  "list_all (\<lambda>(c, r). c < 2 ^ 64 \<and> r < 2 ^ 64) path \<Longrightarrow>
   reads yields (read_times (length path)
      (bind (read_size next_block) (\<lambda>c. bind (read_size next_block) (\<lambda>r. ret (c, r)))))
     (concat (map (\<lambda>(c, r). arg_bytes (ASize c) @ arg_bytes (ASize r)) path)) path"
  by (intro reads_times) (auto simp: list_all_iff intro!: reads_binds reads_bind_last[OF _ reads_ret] reads_arg_size)

lemma reads_sizes:
  "list_all (\<lambda>c. c < 2 ^ 64) ns \<Longrightarrow>
   reads yields (read_times (length ns) (read_size next_block)) (concat (map (\<lambda>n. arg_bytes (ASize n)) ns)) ns"
  by (intro reads_times) (auto simp: list_all_iff intro!: reads_arg_size)

lemma reads_group_op:
  "op_ok (GroupOp p) \<Longrightarrow>
   reads yields (parse_instr next_block (op_instr (GroupOp p))) (args_bytes (op_args (GroupOp p))) (GroupOp p)"
proof (cases p)
  case (OpSelectTable g path)
  moreover assume "op_ok (GroupOp p)"
  ultimately show ?thesis
    by (auto simp: args_bytes_simps args_bytes_pairs parse_select_table_def levels_type max_levels_def
        simp del: append_Nil2 intro!: reads_map reads_binds reads_bind_last[OF _ reads_ret] reads_path)
next
  case (OpSelectDescriptor path)
  moreover assume "op_ok (GroupOp p)"
  ultimately show ?thesis
    by (auto simp: args_bytes_simps args_bytes_sizes parse_select_descriptor_def levels_type max_levels_def
        simp del: append_Nil2 intro!: reads_map reads_binds reads_bind_last[OF _ reads_ret] reads_sizes)
qed (auto simp: args_bytes_simps parse_group_defs simp del: append_Nil2 intro!: reads_map reads_binds reads_ret)

lemma reads_instr:
  assumes "op_ok p"
  shows "reads yields (parse_instr next_block (op_instr p)) (args_bytes (op_args p)) (stored p)"
proof (cases p)
  case (FieldOp q)
  then show ?thesis using assms reads_field_op[of q] by simp
qed (use assms reads_group_op reads_row_op reads_column_op reads_link_list_op in simp_all)

end

end
