(* ===== verification/TransactLog.thy ===== *)
theory TransactLog
  imports TransactLogReads
begin

text \<open>
  Whole logs. The parser's result depends on the bytes of its input and not on the blocks they come in,
  and it always returns; a log of operations that the encoder wrote makes the parser call its handler
  with those operations, in that order.
\<close>

section \<open>Bytes and blocks\<close>

context block_stream
begin

lemma read_bytes_loop_short:
  "inp_yields yields inp bs \<Longrightarrow> length bs < n \<Longrightarrow>
   read_bytes_loop next_block fuel n inp = Inl BadTransactLog \<or>
   (\<exists>i. read_bytes_loop next_block fuel n inp = Inr (None, i))"
proof (induction fuel arbitrary: n inp bs)
  case 0
  then show ?case by (simp add: ret_def)
next
  case (Suc fuel)
  obtain r where r: "bs = fst inp @ r" "yields (snd inp) r" using Suc.prems(1) by (auto simp: inp_yields_def)
  have l: "\<not> n \<le> length (fst inp)" using r(1) Suc.prems(2) by auto
  from r(2) show ?case
  proof (cases rule: block_cases)
    case empty
    then show ?thesis using l by (simp add: next_input_buffer_def)
  next
    case (block b s' rest)
    then have "inp_yields yields (b, s') r" by (auto simp: inp_yields_def)
    moreover have "length r < n - length (fst inp)" using r(1) Suc.prems(2) by auto
    ultimately show ?thesis
      using Suc.IH[of "(b, s')" r "n - length (fst inp)"] l block(1)
      by (auto simp: next_input_buffer_def bind_def ret_def)
  qed
qed

lemma read_bytes_short:
  "inp_yields yields inp bs \<Longrightarrow> length bs < n \<Longrightarrow> read_bytes next_block n inp = Inl BadTransactLog"
  using read_bytes_loop_short[of inp bs n "Suc (Suc n)"]
  by (auto simp: read_bytes_def bind_def parser_error_def)

lemma read_buffer_short:
  "inp_yields yields inp bs \<Longrightarrow> length bs < n \<Longrightarrow> read_buffer next_block n inp = Inl BadTransactLog"
  using read_bytes_short[of inp bs n] by (auto simp: read_buffer_def inp_yields_def)

end

lemma agree_reads:
  assumes "\<And>bs. length bs = n \<Longrightarrow> reads Y p bs bs" "\<And>bs. length bs = n \<Longrightarrow> reads Z q bs bs"
    "\<And>i bs. inp_yields Y i bs \<Longrightarrow> length bs < n \<Longrightarrow> p i = Inl BadTransactLog"
    "\<And>i bs. inp_yields Z i bs \<Longrightarrow> length bs < n \<Longrightarrow> q i = Inl BadTransactLog"
  shows "agree Y Z p q"
  unfolding agree_def
proof (intro allI impI)
  fix i j bs
  assume i: "inp_yields Y i bs" "inp_yields Z j bs"
  show "rel_sum (=) (rel_prod (=) (both_left Y Z bs)) (p i) (q j)"
  proof (cases "length bs < n")
    case True
    then show ?thesis using assms(3,4) i by simp
  next
    case False
    then have l: "length (take n bs) = n" by simp
    obtain i' j' where "p i = Inr (take n bs, i')" "inp_yields Y i' (drop n bs)"
      "q j = Inr (take n bs, j')" "inp_yields Z j' (drop n bs)"
      using readsD[OF assms(1)[OF l], of i "drop n bs"] readsD[OF assms(2)[OF l], of j "drop n bs"] i by auto
    then show ?thesis
      using both_left_longer[OF both_left_refl, of Y i' "drop n bs" Z j' "take n bs"] by simp
  qed
qed

lemma agree_option [agree_intros]:
  "agree Y Z p q \<Longrightarrow> (\<And>x. agree Y Z (f x) (g x)) \<Longrightarrow>
   agree Y Z (case t of None \<Rightarrow> p | Some x \<Rightarrow> f x) (case t of None \<Rightarrow> q | Some x \<Rightarrow> g x)"
  by (cases t) auto

lemma agree_if [agree_intros]:
  "agree Y Z p q \<Longrightarrow> agree Y Z p' q' \<Longrightarrow> agree Y Z (if b then p else p') (if b then q else q')"
  by simp

lemmas parse_defs = parse_row_defs parse_link_list_defs parse_column_defs parse_field_defs parse_group_defs
  map_reader_def

context two_streams
begin

lemma agree_read_bytes [agree_intros]: "agree yields yields2 (read_bytes next_block n) (read_bytes next_block2 n)"
  by (intro agree_reads[of n] one.reads_bytes two.reads_bytes one.read_bytes_short two.read_bytes_short)

lemma agree_read_buffer [agree_intros]: "agree yields yields2 (read_buffer next_block n) (read_buffer next_block2 n)"
  by (intro agree_reads[of n] one.reads_buffer two.reads_buffer one.read_buffer_short two.read_buffer_short)

lemma agree_values [agree_intros]:
  "agree yields yields2 (read_size next_block) (read_size next_block2)"
  "agree yields yields2 (read_bool next_block) (read_bool next_block2)"
  "agree yields yields2 (read_float next_block) (read_float next_block2)"
  "agree yields yields2 (read_double next_block) (read_double next_block2)"
  "agree yields yields2 (read_timestamp next_block) (read_timestamp next_block2)"
  unfolding read_size_def read_bool_def read_float_def read_double_def read_timestamp_def
  by (intro agree_intros)+

lemma agree_strings [agree_intros]:
  "agree yields yields2 (read_string next_block) (read_string next_block2)"
  "agree yields yields2 (read_binary next_block) (read_binary next_block2)"
  unfolding read_string_def read_binary_def by (intro agree_intros agree_values(1))+

lemma agree_read_mixed [agree_intros]: "agree yields yields2 (read_mixed next_block) (read_mixed next_block2)"
  unfolding read_mixed_def
  by (auto intro!: agree_intros split: option.splits data_type.splits)

lemma agree_read_times [agree_intros]:
  "agree yields yields2 p q \<Longrightarrow> agree yields yields2 (read_times n p) (read_times n q)"
  by (induction n) (auto intro!: agree_intros)

lemma agree_parse_instr: "agree yields yields2 (parse_instr next_block i) (parse_instr next_block2 i)"
  by (cases i)
    (auto simp: parse_defs Let_def intro!: agree_intros split: option.splits data_type.splits)

lemma agree_call:
  "inp_yields yields i bs \<Longrightarrow> inp_yields yields2 j bs \<Longrightarrow>
   rel_prod (=) (rel_sum (=) (both_left yields yields2 bs)) (call_handler handler p h i) (call_handler handler p h j)"
  by (auto simp: call_handler_def intro: both_left_refl split: prod.splits)

lemma agree_set_all:
  "inp_yields yields i bs \<Longrightarrow> inp_yields yields2 j bs \<Longrightarrow>
   rel_prod (=) (rel_sum (=) (both_left yields yields2 bs))
     (parse_set_all next_block handler k m n h i) (parse_set_all next_block2 handler k m n h j)"
proof (induction k arbitrary: m h i j bs)
  case 0
  then show ?case by (simp add: both_left_refl)
next
  case (Suc k)
  from agreeD[OF agree_values(1) Suc.prems]
  consider "read_size next_block i = Inl BadTransactLog" "read_size next_block2 j = Inl BadTransactLog"
    | x i' j' where "read_size next_block i = Inr (x, i')" "read_size next_block2 j = Inr (x, j')"
        "both_left yields yields2 bs i' j'"
    by (auto elim!: rel_sum.cases) (metis parse_error.exhaust)
  then show ?case
  proof cases
    case 1
    then show ?thesis by simp
  next
    case (2 x i' j')
    then obtain used rest where r: "bs = used @ rest" "inp_yields yields i' rest" "inp_yields yields2 j' rest"
      by (auto simp: both_left_def)
    obtain h' ok where c: "handler (LinkListOp (OpLinkListSet m x n)) h = (h', ok)" by fastforce
    show ?thesis
      using Suc.IH[OF r(2,3), of "m + 1" h'] 2(1,2)
      by (cases ok; cases "parse_set_all next_block handler k (m + 1) n h' i'";
          cases "parse_set_all next_block2 handler k (m + 1) n h' j'")
        (auto simp: call_handler_def c r(1) elim!: rel_sum.cases intro: both_left_longer)
  qed
qed

text \<open>An instruction takes at least its own byte.\<close>

lemma agree_parse_one:
  assumes "inp_yields yields i (c # bs)" "inp_yields yields2 j (c # bs)"
  shows "rel_prod (=) (rel_sum (=) (both_left yields yields2 bs))
    (parse_one next_block handler h i) (parse_one next_block2 handler h j)"
proof -
  obtain i1 j1 where r: "read_char next_block i = Inr (c, i1)" "inp_yields yields i1 bs"
    "read_char next_block2 j = Inr (c, j1)" "inp_yields yields2 j1 bs"
    using readsD[OF one.read_char_reads, of i c bs] readsD[OF two.read_char_reads, of j c bs] assms by auto
  show ?thesis
  proof (cases "instr_of c")
    case None
    then show ?thesis by (simp add: parse_one_def r)
  next
    case (Some instr)
    let ?p = "\<lambda>nb. if instr = instr_LinkListSetAll then map_reader Inl (read_size nb) else map_reader Inr (parse_instr nb instr)"
    have split: "parse_one nb handler h i = (case ?p nb i1 of
          Inl e \<Rightarrow> (h, Inl e)
        | Inr (Inl n, i2) \<Rightarrow> parse_set_all nb handler n 0 n h i2
        | Inr (Inr p, i2) \<Rightarrow> call_handler handler p h i2)"
      if "read_char nb i = Inr (c, i1)" for nb :: "'b next_block" and i i1
      using that Some
      by (auto simp: parse_one_def map_reader_def bind_def ret_def split: sum.splits prod.splits)
    have "agree yields yields2 (?p next_block) (?p next_block2)"
      unfolding map_reader_def by (intro agree_intros agree_values(1) agree_parse_instr)
    from agreeD[OF this r(2,4)]
    consider "?p next_block i1 = Inl BadTransactLog" "?p next_block2 j1 = Inl BadTransactLog"
      | x i2 j2 where "?p next_block i1 = Inr (x, i2)" "?p next_block2 j1 = Inr (x, j2)"
          "both_left yields yields2 bs i2 j2"
      by (auto elim!: rel_sum.cases) (metis parse_error.exhaust)+
    then show ?thesis
    proof cases
      case 1
      then show ?thesis by (simp add: split[OF r(1)] split[OF r(3)])
    next
      case (2 x i2 j2)
      then obtain used rest where l: "bs = used @ rest" "inp_yields yields i2 rest" "inp_yields yields2 j2 rest"
        by (auto simp: both_left_def)
      have "rel_prod (=) (rel_sum (=) (both_left yields yields2 rest))
        (case x of Inl n \<Rightarrow> parse_set_all next_block handler n 0 n h i2 | Inr p \<Rightarrow> call_handler handler p h i2)
        (case x of Inl n \<Rightarrow> parse_set_all next_block2 handler n 0 n h j2 | Inr p \<Rightarrow> call_handler handler p h j2)"
        using agree_set_all[OF l(2,3)] agree_call[OF l(2,3)] by (auto split: sum.splits)
      then show ?thesis
        unfolding split[OF r(1)] split[OF r(3)] 2(1,2) l(1)
        by (cases x) (auto elim!: rel_prod.cases rel_sum.cases intro: both_left_longer)
    qed
  qed
qed

lemma agree_parse_loop:
  "inp_yields yields i bs \<Longrightarrow> inp_yields yields2 j bs \<Longrightarrow>
   \<exists>r. parse_loop next_block handler h i = Some r \<and> parse_loop next_block2 handler h j = Some r"
proof (induction bs arbitrary: h i j rule: length_induct)
  case (1 bs)
  show ?case
  proof (cases bs)
    case Nil
    then show ?thesis
      using one.has_next_spec(1)[OF 1(2)] two.has_next_spec(1)[OF 1(3)]
      by (simp add: parse_loop.simps[of _ _ _ i] parse_loop.simps[of _ _ _ j])
  next
    case (Cons c rest)
    obtain i' j' where n: "has_next next_block i = Some i'" "inp_yields yields i' (c # rest)"
      "has_next next_block2 j = Some j'" "inp_yields yields2 j' (c # rest)"
      using one.has_next_spec[OF 1(2)] two.has_next_spec[OF 1(3)] Cons by fastforce
    from agree_parse_one[OF n(2,4), of handler h]
    consider h' e where "parse_one next_block handler h i' = (h', Inl e)" "parse_one next_block2 handler h j' = (h', Inl e)"
      | h' i2 j2 where "parse_one next_block handler h i' = (h', Inr i2)" "parse_one next_block2 handler h j' = (h', Inr j2)"
          "both_left yields yields2 rest i2 j2"
      by (auto elim!: rel_prod.cases rel_sum.cases)
    then show ?thesis
    proof cases
      case 1
      then show ?thesis using n by (simp add: parse_loop.simps[of _ _ _ i] parse_loop.simps[of _ _ _ j])
    next
      case (2 h' i2 j2)
      then obtain used r where l: "rest = used @ r" "inp_yields yields i2 r" "inp_yields yields2 j2 r"
        by (auto simp: both_left_def)
      have "length r < length bs" using Cons l(1) by simp
      then have "\<exists>x. parse_loop next_block handler h' i2 = Some x \<and> parse_loop next_block2 handler h' j2 = Some x"
        using 1(1) l(2,3) by blast
      then show ?thesis using n 2 by (simp add: parse_loop.simps[of _ _ _ i] parse_loop.simps[of _ _ _ j])
    qed
  qed
qed

lemma agree_parse:
  assumes "yields s bs" "yields2 t bs"
  shows "\<exists>r. parse next_block handler s h = Some r \<and> parse next_block2 handler t h = Some r"
  unfolding parse_def by (rule agree_parse_loop[of _ bs]) (use assms in \<open>simp_all add: inp_yields_def\<close>)

end

section \<open>Replay\<close>

definition op_bytes :: "operation \<Rightarrow> byte list" where
  "op_bytes p = args_bytes (AInstr (op_instr p) # op_args p)"

text \<open>The handler on a list of operations, up to the first call that returns false.\<close>

fun replay :: "'h handler \<Rightarrow> operation list \<Rightarrow> 'h \<Rightarrow> 'h \<times> parse_error option" where
  "replay handler [] h = (h, None)"
| "replay handler (p # ps) h =
     (case handler p h of (h', ok) \<Rightarrow> if ok then replay handler ps h' else (h', Some BadTransactLog))"

lemma op_instr_not_set_all: "op_ok p \<Longrightarrow> op_instr p \<noteq> instr_LinkListSetAll"
  by (cases p rule: op_ok.cases) auto

context block_stream
begin

lemma parse_one_op:
  assumes "op_ok p" "inp_yields yields inp (op_bytes p @ rest)"
  shows "\<exists>inp'. parse_one next_block handler h inp = call_handler handler (stored p) h inp' \<and> inp_yields yields inp' rest"
proof -
  let ?c = "word_of_int (instr_code (op_instr p)) :: byte"
  have "inp_yields yields inp ([?c] @ args_bytes (op_args p) @ rest)"
    using assms(2) by (simp add: op_bytes_def args_bytes_simps arg_bytes.simps encode_char_def)
  then obtain i1 where i1: "read_char next_block inp = Inr (?c, i1)" "inp_yields yields i1 (args_bytes (op_args p) @ rest)"
    using readsD[OF read_char_reads] by blast
  obtain i2 where i2: "parse_instr next_block (op_instr p) i1 = Inr (stored p, i2)" "inp_yields yields i2 rest"
    using readsD[OF reads_instr[OF assms(1)] i1(2)] by blast
  have "parse_one next_block handler h inp = call_handler handler (stored p) h i2"
    using i1(1) i2(1) op_instr_not_set_all[OF assms(1)] by (simp add: parse_one_def)
  then show ?thesis using i2(2) by (intro exI conjI)
qed

lemma parse_loop_ops:
  "list_all op_ok ps \<Longrightarrow> inp_yields yields inp (concat (map op_bytes ps)) \<Longrightarrow>
   parse_loop next_block handler h inp = Some (replay handler (map stored ps) h)"
proof (induction ps arbitrary: h inp)
  case Nil
  then show ?case using has_next_spec(1)[of inp "[]"] by (simp add: parse_loop.simps[of _ _ _ inp])
next
  case (Cons p ps)
  have ok: "op_ok p" "list_all op_ok ps" using Cons.prems(1) by auto
  have "concat (map op_bytes (p # ps)) \<noteq> []" by (simp add: op_bytes_def args_bytes_simps arg_bytes.simps encode_char_def)
  then obtain i where i: "has_next next_block inp = Some i" "inp_yields yields i (op_bytes p @ concat (map op_bytes ps))"
    using has_next_spec[OF Cons.prems(2)] by fastforce
  obtain i2 where i2: "parse_one next_block handler h i = call_handler handler (stored p) h i2"
    "inp_yields yields i2 (concat (map op_bytes ps))"
    using parse_one_op[OF ok(1) i(2), of handler h] that by (elim exE conjE)
  obtain h' k where k: "handler (stored p) h = (h', k)" by fastforce
  show ?case
    using Cons.IH[OF ok(2) i2(2), of h'] i(1) i2(1)
    by (simp add: parse_loop.simps[of _ _ _ inp] call_handler_def k)
qed

lemma parse_ops:
  assumes "list_all op_ok ps" "yields s (concat (map op_bytes ps))"
  shows "parse next_block handler s h = Some (replay handler (map stored ps) h)"
  unfolding parse_def by (rule parse_loop_ops[OF assms(1)]) (use assms(2) in \<open>simp add: inp_yields_def\<close>)

end

section \<open>Recording\<close>

fun record_ops ::
  "(group_op \<Rightarrow> arg list) \<Rightarrow> reserve_fun \<Rightarrow> operation list \<Rightarrow> encoder \<Rightarrow> encode_error + encoder" where
  "record_ops sel rsv [] e = Inr e"
| "record_ops sel rsv (p # ps) e =
     (case enc_handle sel rsv p e of Inl err \<Rightarrow> Inl err | Inr e' \<Rightarrow> record_ops sel rsv ps e')"

context log_stream
begin

lemma record_ops_ok:
  "selections sel \<Longrightarrow> list_all op_ok ps \<Longrightarrow> sized e \<Longrightarrow>
   record_ops sel rsv ps e = Inl BufferSizeOverflow \<or>
   (\<exists>e'. record_ops sel rsv ps e = Inr e' \<and> sized e' \<and> enc_log e' = enc_log e @ concat (map op_bytes ps))"
proof (induction ps arbitrary: e)
  case Nil
  then show ?case by simp
next
  case (Cons p ps)
  then have h: "enc_handle sel rsv p = append_simple_instr rsv (AInstr (op_instr p) # op_args p)"
    "args_ok (AInstr (op_instr p) # op_args p)"
    using enc_handle_args op_args_args_ok by simp_all
  from append_simple_instr_ok[OF h(2) Cons.prems(3)] show ?case
  proof (elim disjE exE conjE)
    assume "append_simple_instr rsv (AInstr (op_instr p) # op_args p) e = Inl BufferSizeOverflow"
    then show ?thesis by (simp add: h(1))
  next
    fix e'
    assume "append_simple_instr rsv (AInstr (op_instr p) # op_args p) e = Inr e'" "sized e'"
      "enc_log e' = enc_log e @ args_bytes (AInstr (op_instr p) # op_args p)"
    then show ?thesis using Cons.IH[of e'] Cons.prems(1,2) by (auto simp: h(1) op_bytes_def)
  qed
qed

end

end
