(* ===== verification/TransactLogProps.thy ===== *)
theory TransactLogProps
  imports TransactLog "HOL-Library.Code_Target_Nat"
begin

text \<open>
  The properties of the transaction log: its integers, its encoder, its parser, and the two of them
  together, over the streams of \<open>impl/input_stream.hpp\<close>.
\<close>

section \<open>All links of a list at once\<close>

definition set_all_ops :: "nat \<Rightarrow> nat \<Rightarrow> nat list \<Rightarrow> operation list" where
  "set_all_ops n i vs = map (\<lambda>(k, v). LinkListOp (OpLinkListSet k v n)) (List.enumerate i vs)"

definition set_all_bytes :: "nat list \<Rightarrow> byte list" where
  "set_all_bytes vs = args_bytes [AInstr instr_LinkListSetAll, ASize (length vs), AIntegerList (map int vs)]"

fun finish :: "'s input \<Rightarrow> 'h \<times> parse_error option \<Rightarrow> 'h \<times> (parse_error + 's input)" where
  "finish inp (h, None) = (h, Inr inp)"
| "finish inp (h, Some e) = (h, Inl e)"

context block_stream
begin

lemma reads_link: "v < 2 ^ 63 \<Longrightarrow> reads yields (read_size next_block) (encode_int int64_type (int v)) v"
proof -
  assume v: "v < 2 ^ 63"
  have "in_type int64_type (int v)" "in_type size_type (int v)"
    using v by (auto simp: int_type_defs int_types)
  then have r: "reads yields (read_int next_block size_type) (encode_int int64_type (int v)) (int v)"
    using read_int_encoded[of int64_type "int v" size_type] by (simp add: decoded_def)
  show ?thesis
    unfolding read_size_def by (rule reads_bind_last[OF r]) (use reads_ret[of yields v] in simp)
qed

lemma parse_set_all_ops:
  "list_all (\<lambda>v. v < 2 ^ 63) vs \<Longrightarrow>
   inp_yields yields inp (concat (map (\<lambda>v. encode_int int64_type (int v)) vs) @ rest) \<Longrightarrow>
   \<exists>inp'. inp_yields yields inp' rest \<and>
     parse_set_all next_block handler (length vs) i n h inp = finish inp' (replay handler (set_all_ops n i vs) h)"
proof (induction vs arbitrary: i h inp)
  case Nil
  then have "inp_yields yields inp rest" by simp
  then show ?case by (intro exI[of _ inp]) (simp add: set_all_ops_def)
next
  case (Cons v vs)
  have v: "v < 2 ^ 63" "list_all (\<lambda>v. v < 2 ^ 63) vs" using Cons.prems(1) by auto
  have "inp_yields yields inp (encode_int int64_type (int v) @ concat (map (\<lambda>v. encode_int int64_type (int v)) vs) @ rest)"
    using Cons.prems(2) by simp
  then obtain i1 where i1: "read_size next_block inp = Inr (v, i1)"
    "inp_yields yields i1 (concat (map (\<lambda>v. encode_int int64_type (int v)) vs) @ rest)"
    using readsD[OF reads_link[OF v(1)]] by blast
  obtain h' ok where c: "handler (LinkListOp (OpLinkListSet i v n)) h = (h', ok)" by fastforce
  have ops: "set_all_ops n i (v # vs) = LinkListOp (OpLinkListSet i v n) # set_all_ops n (Suc i) vs"
    by (simp add: set_all_ops_def)
  obtain inp' where ih: "inp_yields yields inp' rest"
    "parse_set_all next_block handler (length vs) (Suc i) n h' i1 = finish inp' (replay handler (set_all_ops n (Suc i) vs) h')"
    using Cons.IH[OF v(2) i1(2), of "Suc i" h'] by (elim exE conjE)
  have "parse_set_all next_block handler (length (v # vs)) i n h inp = finish inp' (replay handler (set_all_ops n i (v # vs)) h)"
    using i1(1) ih(2) by (simp add: call_handler_def c ops)
  then show ?case using ih(1) by (intro exI conjI)
qed

lemma parse_one_set_all:
  assumes "length vs < 2 ^ 64" "list_all (\<lambda>v. v < 2 ^ 63) vs" "inp_yields yields inp (set_all_bytes vs @ rest)"
  shows "\<exists>inp'. inp_yields yields inp' rest \<and>
    parse_one next_block handler h inp = finish inp' (replay handler (set_all_ops (length vs) 0 vs) h)"
proof -
  let ?c = "word_of_int (instr_code instr_LinkListSetAll) :: byte"
  let ?vs = "concat (map (\<lambda>v. encode_int int64_type (int v)) vs)"
  have "inp_yields yields inp ([?c] @ arg_bytes (ASize (length vs)) @ ?vs @ rest)"
    using assms(3) by (simp add: set_all_bytes_def args_bytes_simps arg_bytes.simps encode_char_def comp_def)
  then obtain i1 where i1: "read_char next_block inp = Inr (?c, i1)"
    "inp_yields yields i1 (arg_bytes (ASize (length vs)) @ ?vs @ rest)"
    using readsD[OF read_char_reads] by blast
  obtain i2 where i2: "read_size next_block i1 = Inr (length vs, i2)" "inp_yields yields i2 (?vs @ rest)"
    using readsD[OF reads_arg_size[OF assms(1)] i1(2)] by blast
  show ?thesis
    using parse_set_all_ops[OF assms(2) i2(2), of handler 0 "length vs" h] i1(1) i2(1)
    by (simp only: parse_one_def instr_of_code sum.case prod.case option.case if_True refl)
qed

end

lemma int64_nat: "v < 2 ^ 63 \<Longrightarrow> in_type int64_type (int v)"
  by (simp add: int_type_defs int_types)

lemma multi_yields_init: "multi_yields (multi_init blocks) (concat blocks)"
  by (simp add: multi_yields_def multi_init_def)

section \<open>Properties\<close>

text \<open>
  C14. An integer of any machine type takes at most ten bytes, and \<open>read_int\<close>, for the same or another type,
  gives it back from a stream that starts with those bytes however they are cut into blocks, and leaves
  the rest; it rejects an integer that the type cannot hold, except that a negative one below \<open>-1\<close> is
  taken modulo \<open>2 ^ digits\<close> by an unsigned type (\<open>decoded\<close>).\<close>

theorem int_decoding:
  assumes "machine_type T" "in_type T v" "machine_type U" "concat blocks = encode_int T v @ rest"
  shows "length (encode_int T v) \<le> 10 \<and>
    (case decoded U v of
       Some x \<Rightarrow> \<exists>b s. read_int multi_next U ([], multi_init blocks) = Inr (x, (b, s)) \<and> b @ concat (logs s) = rest
     | None \<Rightarrow> read_int multi_next U ([], multi_init blocks) = Inl BadTransactLog)"
proof
  show "length (encode_int T v) \<le> 10" using length_encode_int[OF assms(1,2)] by (simp add: max_bytes_per_num)
  have i: "inp_yields multi_yields ([], multi_init blocks) (encode_int T v @ rest)"
    using assms(4) by (simp add: inp_yields_def multi_yields_def multi_init_def)
  from multi_blocks.read_int_encoded[OF assms(2,3)]
  show "case decoded U v of
       Some x \<Rightarrow> \<exists>b s. read_int multi_next U ([], multi_init blocks) = Inr (x, (b, s)) \<and> b @ concat (logs s) = rest
     | None \<Rightarrow> read_int multi_next U ([], multi_init blocks) = Inl BadTransactLog"
    using readsD[OF _ i] rejectsD[OF _ i]
    by (fastforce split: option.splits simp: inp_yields_def multi_yields_def)
qed

theorem int_decoding_witness:
  "\<exists>b s. read_int multi_next size_type ([], multi_init [[], [66 :: byte], [7]]) = Inr (18446744073709551613, (b, s))
     \<and> b @ concat (logs s) = [7]"
proof -
  have e: "encode_int int64_type (- 3) = [66]" by code_simp
  have t: "in_type int64_type (- 3)" by (simp add: int_type_defs int_types)
  have d: "decoded size_type (- 3) = Some 18446744073709551613"
    by (simp add: decoded_def magnitude_def int_type_defs int_types)
  show ?thesis using int_decoding[of int64_type "- 3" size_type "[[], [66], [7]]" "[7]"] t by (simp add: e d)
qed

text \<open>
  C13. An instruction that is appended to the log either fails in the stream, with no room for it, or adds
  exactly the encodings of its arguments behind what was there; it never writes outside the space that
  it has reserved, also when a list of integers is written in chunks.\<close>

theorem append_in_bounds:
  assumes "args_ok args" "sized e"
  shows "append_simple_instr buffer_stream_reserve args e = Inl BufferSizeOverflow \<or>
    (\<exists>e'. append_simple_instr buffer_stream_reserve args e = Inr e' \<and> sized e' \<and>
      enc_log e' = enc_log e @ args_bytes args)"
  using assms by (rule buffer_stream.append_simple_instr_ok)

theorem append_in_bounds_witness:
  "\<exists>e'. append_simple_instr buffer_stream_reserve [AInstr instr_Set, AString [1, 2]]
          \<lparr>enc_log = [9 :: byte], enc_free = 1\<rparr> = Inr e' \<and> enc_log e' = [9, 6, 2, 1, 2]"
proof -
  let ?e = "\<lparr>enc_log = [9 :: byte], enc_free = 1\<rparr>"
  have "args_ok [AInstr instr_Set, AString [1, 2]]" "sized ?e"
    by (simp_all add: args_ok_def max_bytes_per_num sized_def)
  moreover have "append_simple_instr buffer_stream_reserve [AInstr instr_Set, AString [1, 2]] ?e \<noteq> Inl BufferSizeOverflow"
    by code_simp
  moreover have "args_bytes [AInstr instr_Set, AString [1, 2]] = [6, 2, 1, 2]" by code_simp
  ultimately show ?thesis using append_in_bounds[of "[AInstr instr_Set, AString [1, 2]]" ?e] by auto
qed

text \<open>
  C12. A log of operations that the encoder recorded, parsed from a stream with any cuts between its blocks,
  makes the parser call its handler with the recorded operations in order, up to the first call that
  returns false, and ends without an error if there is none. The one difference is \<open>set_double\<close>, which
  always records the plain variant.\<close>

theorem log_roundtrip:
  assumes "selections sel" "list_all op_ok ps"
    "record_ops sel buffer_stream_reserve ps \<lparr>enc_log = [], enc_free = 0\<rparr> = Inr e" "concat blocks = enc_log e"
  shows "parse multi_next handler (multi_init blocks) h = Some (replay handler (map stored ps) h)"
proof -
  have "enc_log e = concat (map op_bytes ps)"
    using buffer_stream.record_ops_ok[OF assms(1,2), of "\<lparr>enc_log = [], enc_free = 0\<rparr>"] assms(3)
    by (auto simp: sized_def)
  then show ?thesis
    using assms(4) by (intro multi_blocks.parse_ops[OF assms(2)]) (simp add: multi_yields_def multi_init_def)
qed

theorem log_roundtrip_witness:
  "parse multi_next (\<lambda>p h. (h @ [p], True)) (multi_init [[15 :: byte], [3, 198], [], [0]]) []
    = Some ([RowOp (OpSwapRows 3 70)], None)"
proof -
  have r: "record_ops (\<lambda>g. op_args (GroupOp g)) buffer_stream_reserve [RowOp (OpSwapRows 3 70)]
      \<lparr>enc_log = [], enc_free = 0\<rparr> = Inr \<lparr>enc_log = [15, 3, 198, 0], enc_free = 17\<rparr>"
    by code_simp
  show ?thesis
    using log_roundtrip[OF _ _ r, of "[[15], [3, 198], [], [0]]" "\<lambda>p h. (h @ [p], True)" "[]"]
    by (simp add: selections_def)
qed

text \<open>
  \<open>link_list_set_all\<close> records a whole list, and the parser replays it as one \<open>link_list_set\<close> for each
  position, with the size of the list, and stops at the first that the handler refuses.\<close>

theorem set_all_roundtrip:
  assumes "list_all (\<lambda>v. v < 2 ^ 63) vs" "length vs < 2 ^ 64"
    "enc_link_list_set_all buffer_stream_reserve (map int vs) \<lparr>enc_log = [], enc_free = 0\<rparr> = Inr e"
    "concat blocks = enc_log e"
  shows "parse multi_next handler (multi_init blocks) h = Some (replay handler (set_all_ops (length vs) 0 vs) h)"
proof -
  have "args_ok [AInstr instr_LinkListSetAll, ASize (length vs), AIntegerList (map int vs)]"
    using assms(1,2) int64_nat
    by (auto simp: args_ok_def size_in_type max_bytes_per_num max_numbers_per_chunk_def list_all_iff)
  then have "enc_log e = set_all_bytes vs"
    using buffer_stream.append_simple_instr_ok[of _ "\<lparr>enc_log = [], enc_free = 0\<rparr>"] assms(3)
    by (fastforce simp: enc_link_list_set_all_def set_all_bytes_def sized_def)
  then have i: "inp_yields multi_yields ([], multi_init blocks) (set_all_bytes vs @ [])"
    using assms(4) by (simp add: inp_yields_def multi_yields_def multi_init_def)
  have "set_all_bytes vs \<noteq> []" by (simp add: set_all_bytes_def args_bytes_simps arg_bytes.simps encode_char_def)
  then obtain j where j: "has_next multi_next ([], multi_init blocks) = Some j" "inp_yields multi_yields j (set_all_bytes vs @ [])"
    using multi_blocks.has_next_spec[OF i] by fastforce
  obtain k where k: "inp_yields multi_yields k []"
    "parse_one multi_next handler h j = finish k (replay handler (set_all_ops (length vs) 0 vs) h)"
    using multi_blocks.parse_one_set_all[OF assms(2,1) j(2), of handler h] by (elim exE conjE)
  have l: "parse_loop multi_next handler h' k = Some (h', None)" for h'
    using multi_blocks.has_next_spec(1)[OF k(1)] by (simp add: parse_loop.simps[of _ _ _ k])
  show ?thesis
    unfolding parse_def
    by (cases "replay handler (set_all_ops (length vs) 0 vs) h" rule: finish.cases[of "(k, _)", simplified])
      (simp_all add: parse_loop.simps[of _ _ _ "([], multi_init blocks)"] j(1) k(2) l)
qed

theorem set_all_roundtrip_witness:
  "parse multi_next (\<lambda>p h. (h @ [p], True)) (multi_init [[39 :: byte, 2, 5], [6]]) []
    = Some ([LinkListOp (OpLinkListSet 0 5 2), LinkListOp (OpLinkListSet 1 6 2)], None)"
proof -
  have r: "enc_link_list_set_all buffer_stream_reserve [5, 6] \<lparr>enc_log = [], enc_free = 0\<rparr>
      = Inr \<lparr>enc_log = [39, 2, 5, 6], enc_free = 87\<rparr>"
    by code_simp
  show ?thesis
    using set_all_roundtrip[of "[5, 6]" "\<lparr>enc_log = [39, 2, 5, 6], enc_free = 87\<rparr>" "[[39, 2, 5], [6]]"
        "\<lambda>p h. (h @ [p], True)" "[]"] r
    by (simp add: set_all_ops_def)
qed

interpretation multi_simple: two_streams multi_next multi_yields simple_next "\<lambda>s bs. s = bs" ..

interpretation multi_adapted: two_streams multi_next multi_yields "adaptor_next simple_read 1024" "\<lambda>s bs. s = bs" ..


text \<open>
  C15. What the parser does depends on the bytes of the log only: it makes the same calls and has the same
  result on the blocks of a multi-log stream, on their concatenation in one block, and through an
  \<open>InputStream\<close> that is read into the parser's buffer.\<close>

theorem parse_cuts:
  "parse multi_next handler (multi_init blocks) h = parse simple_next handler (concat blocks) h \<and>
   parse multi_next handler (multi_init blocks) h = parse_input simple_read handler (concat blocks) h"
proof
  show "parse multi_next handler (multi_init blocks) h = parse simple_next handler (concat blocks) h"
    using multi_simple.agree_parse[OF multi_yields_init refl, of handler blocks h] by (elim exE conjE) simp
  show "parse multi_next handler (multi_init blocks) h = parse_input simple_read handler (concat blocks) h"
    using multi_adapted.agree_parse[OF multi_yields_init refl, of handler blocks h]
    unfolding parse_input_def by (elim exE conjE) simp
qed




text \<open>
  C18. A log whose next byte is no instruction, or one of the two instructions that are no longer supported,
  is bad, and the handler is not called.\<close>

theorem parse_rejects:
  assumes "concat blocks = c # rest"
    "instr_of c \<in> {None, Some instr_MoveColumn, Some instr_MoveGroupLevelTable}"
  shows "parse multi_next handler (multi_init blocks) h = Some (h, Some BadTransactLog)"
proof -
  have i: "inp_yields multi_yields ([], multi_init blocks) (c # rest)"
    using assms(1) by (simp add: inp_yields_def multi_yields_def multi_init_def)
  then obtain j where j: "has_next multi_next ([], multi_init blocks) = Some j" "inp_yields multi_yields j ([c] @ rest)"
    using multi_blocks.has_next_spec[OF i] by fastforce
  obtain k where "read_char multi_next j = Inr (c, k)" using readsD[OF multi_blocks.read_char_reads j(2)] by blast
  then have "parse_one multi_next handler h j = (h, Inl BadTransactLog)"
    using assms(2) by (auto simp: parse_one_def parser_error_def)
  then show ?thesis by (simp add: parse_def parse_loop.simps[of _ _ _ "([], multi_init blocks)"] j(1))
qed

theorem parse_rejects_witness:
  "parse multi_next (\<lambda>p h. (h @ [p], True)) (multi_init [[27 :: byte, 1]]) [] = Some ([], Some BadTransactLog)"
proof -
  have "instr_of 27 = Some instr_MoveColumn" by code_simp
  then show ?thesis using parse_rejects[of "[[27, 1]]" 27 "[1]" "\<lambda>p h. (h @ [p], True)" "[]"] by simp
qed

end
