(* ===== verification/TransactReverse.thy ===== *)
theory TransactReverse
  imports TransactLog
begin

text \<open>
  \<open>TransactReverser\<close> and \<open>ReversedNoCopyInputStream\<close> (\<open>impl/transact_log.hpp\<close>): the handler that
  records, for every operation, what takes it back, and the stream that hands the recorded
  instructions out from the last to the first. A selection must come before the operations under it in
  the reversed log, so it is recorded behind them: it is kept pending, and appended when the next
  selection of the same or an outer kind arrives. An instruction is a slice of the encoder's buffer.
\<close>

section \<open>State\<close>

type_synonym slice = "nat \<times> nat"

record reverser =
  rv_encoder :: encoder
  rv_instructions :: "slice list"
  rv_instr_start :: nat
  rv_pending_ts :: slice
  rv_pending_ds :: slice
  rv_pending_lv :: slice

definition rv_init :: reverser where
  "rv_init = \<lparr>rv_encoder = \<lparr>enc_log = [], enc_free = 0\<rparr>, rv_instructions = [], rv_instr_start = 0,
     rv_pending_ts = (0, 0), rv_pending_ds = (0, 0), rv_pending_lv = (0, 0)\<rparr>"

definition transact_log_size :: "reverser \<Rightarrow> nat" where
  "transact_log_size r = length (enc_log (rv_encoder r))"

definition get_inst :: "reverser \<Rightarrow> slice \<times> reverser" where
  "get_inst r = ((rv_instr_start r, transact_log_size r), r\<lparr>rv_instr_start := transact_log_size r\<rparr>)"

definition append_slice :: "slice \<Rightarrow> reverser \<Rightarrow> reverser" where
  "append_slice i r = r\<lparr>rv_instructions := rv_instructions r @ [i]\<rparr>"

definition append_instruction :: "reverser \<Rightarrow> reverser" where
  "append_instruction r = (let (i, r') = get_inst r in append_slice i r')"

definition sync_linkview :: "reverser \<Rightarrow> reverser" where
  "sync_linkview r =
     (if fst (rv_pending_lv r) \<noteq> snd (rv_pending_lv r)
      then (append_slice (rv_pending_lv r) r)\<lparr>rv_pending_lv := (0, 0)\<rparr> else r)"

definition sync_descriptor :: "reverser \<Rightarrow> reverser" where
  "sync_descriptor r0 =
     (let r = sync_linkview r0
      in if fst (rv_pending_ds r) \<noteq> snd (rv_pending_ds r)
         then (append_slice (rv_pending_ds r) r)\<lparr>rv_pending_ds := (0, 0)\<rparr> else r)"

definition sync_table :: "reverser \<Rightarrow> reverser" where
  "sync_table r0 =
     (let r = sync_descriptor r0
      in if fst (rv_pending_ts r) \<noteq> snd (rv_pending_ts r)
         then (append_slice (rv_pending_ts r) r)\<lparr>rv_pending_ts := (0, 0)\<rparr> else r)"

text \<open>A call of the encoder, with and without \<open>append_instruction\<close> behind it.\<close>

type_synonym encoder_call = "encoder \<Rightarrow> encode_error + encoder"

definition rv_encode :: "encoder_call \<Rightarrow> reverser \<Rightarrow> encode_error + reverser" where
  "rv_encode call r = (case call (rv_encoder r) of Inl e \<Rightarrow> Inl e | Inr e \<Rightarrow> Inr (r\<lparr>rv_encoder := e\<rparr>))"

definition rv_emit :: "encoder_call \<Rightarrow> reverser \<Rightarrow> encode_error + reverser" where
  "rv_emit call r = (case rv_encode call r of Inl e \<Rightarrow> Inl e | Inr r' \<Rightarrow> Inr (append_instruction r'))"

section \<open>Selections\<close>

text \<open>The encoder's own selections are the parameter \<open>sel\<close>, as in \<open>enc_handle\<close>.\<close>

definition rev_select_table ::
  "(group_op \<Rightarrow> arg list) \<Rightarrow> reserve_fun \<Rightarrow> nat \<Rightarrow> (nat \<times> nat) list \<Rightarrow> reverser \<Rightarrow> encode_error + reverser" where
  "rev_select_table sel rsv g path r =
     (case rv_encode (enc_handle sel rsv (GroupOp (OpSelectTable g path))) (sync_table r) of
        Inl e \<Rightarrow> Inl e
      | Inr r' \<Rightarrow> Inr (let (i, r'') = get_inst r' in r''\<lparr>rv_pending_ts := i\<rparr>))"

definition rev_select_descriptor ::
  "(group_op \<Rightarrow> arg list) \<Rightarrow> reserve_fun \<Rightarrow> nat list \<Rightarrow> reverser \<Rightarrow> encode_error + reverser" where
  "rev_select_descriptor sel rsv path r =
     (case rv_encode (enc_handle sel rsv (GroupOp (OpSelectDescriptor path))) (sync_descriptor r) of
        Inl e \<Rightarrow> Inl e
      | Inr r' \<Rightarrow> Inr (let (i, r'') = get_inst r' in r''\<lparr>rv_pending_ds := i\<rparr>))"

definition rev_select_link_list ::
  "(group_op \<Rightarrow> arg list) \<Rightarrow> reserve_fun \<Rightarrow> nat \<Rightarrow> nat \<Rightarrow> nat \<Rightarrow> reverser \<Rightarrow> encode_error + reverser" where
  "rev_select_link_list sel rsv col_ndx row_ndx link_target r =
     (case rv_encode (enc_handle sel rsv (GroupOp (OpSelectLinkList col_ndx row_ndx link_target))) (sync_linkview r) of
        Inl e \<Rightarrow> Inl e
      | Inr r' \<Rightarrow> Inr (let (i, r'') = get_inst r' in r''\<lparr>rv_pending_lv := i\<rparr>))"

section \<open>Tables of the group\<close>

definition rev_insert_group_level_table :: "reserve_fun \<Rightarrow> nat \<Rightarrow> nat \<Rightarrow> byte list \<Rightarrow> reverser \<Rightarrow> encode_error + reverser" where
  "rev_insert_group_level_table rsv table_ndx num_tables name r =
     rv_emit (enc_erase_group_level_table rsv table_ndx ((num_tables + 1) mod 2 ^ 64)) (sync_table r)"

definition rev_erase_group_level_table :: "reserve_fun \<Rightarrow> nat \<Rightarrow> nat \<Rightarrow> reverser \<Rightarrow> encode_error + reverser" where
  "rev_erase_group_level_table rsv table_ndx num_tables r =
     rv_emit (enc_insert_group_level_table rsv table_ndx (sub_size num_tables 1) []) (sync_table r)"

definition rev_rename_group_level_table :: "reserve_fun \<Rightarrow> nat \<Rightarrow> byte list \<Rightarrow> reverser \<Rightarrow> encode_error + reverser" where
  "rev_rename_group_level_table rsv table_ndx name r =
     Inr (sync_table r)"

section \<open>Rows\<close>

definition rev_optimize_table :: "reserve_fun \<Rightarrow> reverser \<Rightarrow> encode_error + reverser" where
  "rev_optimize_table rsv r =
     Inr r"

definition rev_insert_empty_rows :: "reserve_fun \<Rightarrow> nat \<Rightarrow> nat \<Rightarrow> nat \<Rightarrow> bool \<Rightarrow> reverser \<Rightarrow> encode_error + reverser" where
  "rev_insert_empty_rows rsv row_ndx num_rows_to_insert prior_num_rows unordered r =
     rv_emit (enc_erase_rows rsv row_ndx num_rows_to_insert ((prior_num_rows + num_rows_to_insert) mod 2 ^ 64) unordered) r"

definition rev_add_row_with_key :: "reserve_fun \<Rightarrow> nat \<Rightarrow> nat \<Rightarrow> nat \<Rightarrow> int \<Rightarrow> reverser \<Rightarrow> encode_error + reverser" where
  "rev_add_row_with_key rsv row_ndx prior_num_rows key_col_ndx key r =
     rv_emit (enc_erase_rows rsv row_ndx 1 ((prior_num_rows + 1) mod 2 ^ 64) True) r"

definition rev_erase_rows :: "reserve_fun \<Rightarrow> nat \<Rightarrow> nat \<Rightarrow> nat \<Rightarrow> bool \<Rightarrow> reverser \<Rightarrow> encode_error + reverser" where
  "rev_erase_rows rsv row_ndx num_rows_to_erase prior_num_rows unordered r =
     rv_emit (enc_insert_empty_rows rsv row_ndx num_rows_to_erase (sub_size prior_num_rows num_rows_to_erase) unordered) r"

definition rev_swap_rows :: "reserve_fun \<Rightarrow> nat \<Rightarrow> nat \<Rightarrow> reverser \<Rightarrow> encode_error + reverser" where
  "rev_swap_rows rsv row_ndx_1 row_ndx_2 r =
     rv_emit (enc_swap_rows rsv row_ndx_1 row_ndx_2) r"

definition rev_move_row :: "reserve_fun \<Rightarrow> nat \<Rightarrow> nat \<Rightarrow> reverser \<Rightarrow> encode_error + reverser" where
  "rev_move_row rsv from_ndx to_ndx r =
     rv_emit (enc_move_row rsv to_ndx from_ndx) r"

definition rev_merge_rows :: "reserve_fun \<Rightarrow> nat \<Rightarrow> nat \<Rightarrow> reverser \<Rightarrow> encode_error + reverser" where
  "rev_merge_rows rsv row_ndx new_row_ndx r =
     (case rv_emit (enc_merge_rows rsv row_ndx row_ndx) r of
        Inl e \<Rightarrow> Inl e
      | Inr r' \<Rightarrow> rv_emit (enc_merge_rows rsv new_row_ndx new_row_ndx) r')"

section \<open>Fields\<close>

definition rev_set_int :: "reserve_fun \<Rightarrow> nat \<Rightarrow> nat \<Rightarrow> int \<Rightarrow> instruction \<Rightarrow> nat \<Rightarrow> reverser \<Rightarrow> encode_error + reverser" where
  "rev_set_int rsv col_ndx row_ndx v variant prior_num_rows r =
     rv_emit (enc_set_int rsv col_ndx row_ndx v variant prior_num_rows) r"

definition rev_add_int :: "reserve_fun \<Rightarrow> nat \<Rightarrow> nat \<Rightarrow> int \<Rightarrow> reverser \<Rightarrow> encode_error + reverser" where
  "rev_add_int rsv col_ndx row_ndx v r =
     rv_emit (enc_add_int rsv col_ndx row_ndx (- v)) r"

definition rev_set_bool :: "reserve_fun \<Rightarrow> nat \<Rightarrow> nat \<Rightarrow> bool \<Rightarrow> instruction \<Rightarrow> reverser \<Rightarrow> encode_error + reverser" where
  "rev_set_bool rsv col_ndx row_ndx v variant r =
     rv_emit (enc_set_bool rsv col_ndx row_ndx v variant) r"

definition rev_set_float :: "reserve_fun \<Rightarrow> nat \<Rightarrow> nat \<Rightarrow> byte list \<Rightarrow> instruction \<Rightarrow> reverser \<Rightarrow> encode_error + reverser" where
  "rev_set_float rsv col_ndx row_ndx v variant r =
     rv_emit (enc_set_float rsv col_ndx row_ndx v variant) r"

definition rev_set_double :: "reserve_fun \<Rightarrow> nat \<Rightarrow> nat \<Rightarrow> byte list \<Rightarrow> instruction \<Rightarrow> reverser \<Rightarrow> encode_error + reverser" where
  "rev_set_double rsv col_ndx row_ndx v variant r =
     rv_emit (enc_set_double rsv col_ndx row_ndx v variant) r"

definition rev_set_string :: "reserve_fun \<Rightarrow> nat \<Rightarrow> nat \<Rightarrow> byte list \<Rightarrow> instruction \<Rightarrow> nat \<Rightarrow> reverser \<Rightarrow> encode_error + reverser" where
  "rev_set_string rsv col_ndx row_ndx v variant prior_num_rows r =
     rv_emit (enc_set_string rsv col_ndx row_ndx (Some v) variant prior_num_rows) r"

definition rev_set_binary :: "reserve_fun \<Rightarrow> nat \<Rightarrow> nat \<Rightarrow> byte list \<Rightarrow> instruction \<Rightarrow> reverser \<Rightarrow> encode_error + reverser" where
  "rev_set_binary rsv col_ndx row_ndx v variant r =
     rv_emit (enc_set_binary rsv col_ndx row_ndx (Some v) variant) r"

definition rev_set_olddatetime :: "reserve_fun \<Rightarrow> nat \<Rightarrow> nat \<Rightarrow> int \<Rightarrow> instruction \<Rightarrow> reverser \<Rightarrow> encode_error + reverser" where
  "rev_set_olddatetime rsv col_ndx row_ndx v variant r =
     rv_emit (enc_set_olddatetime rsv col_ndx row_ndx v variant) r"

definition rev_set_timestamp :: "reserve_fun \<Rightarrow> nat \<Rightarrow> nat \<Rightarrow> int \<Rightarrow> int \<Rightarrow> instruction \<Rightarrow> reverser \<Rightarrow> encode_error + reverser" where
  "rev_set_timestamp rsv col_ndx row_ndx s ns variant r =
     rv_emit (enc_set_timestamp rsv col_ndx row_ndx s ns variant) r"

definition rev_set_table :: "reserve_fun \<Rightarrow> nat \<Rightarrow> nat \<Rightarrow> instruction \<Rightarrow> reverser \<Rightarrow> encode_error + reverser" where
  "rev_set_table rsv col_ndx row_ndx variant r =
     rv_emit (enc_set_table rsv col_ndx row_ndx variant) r"

definition rev_set_mixed :: "reserve_fun \<Rightarrow> nat \<Rightarrow> nat \<Rightarrow> mixed \<Rightarrow> instruction \<Rightarrow> reverser \<Rightarrow> encode_error + reverser" where
  "rev_set_mixed rsv col_ndx row_ndx v variant r =
     rv_emit (enc_set_mixed rsv col_ndx row_ndx v variant) r"

definition rev_set_null :: "reserve_fun \<Rightarrow> nat \<Rightarrow> nat \<Rightarrow> instruction \<Rightarrow> nat \<Rightarrow> reverser \<Rightarrow> encode_error + reverser" where
  "rev_set_null rsv col_ndx row_ndx variant prior_num_rows r =
     rv_emit (enc_set_null rsv col_ndx row_ndx variant prior_num_rows) r"

definition rev_set_link :: "reserve_fun \<Rightarrow> nat \<Rightarrow> nat \<Rightarrow> nat \<Rightarrow> nat \<Rightarrow> instruction \<Rightarrow> reverser \<Rightarrow> encode_error + reverser" where
  "rev_set_link rsv col_ndx row_ndx v target_group_level_ndx variant r =
     rv_emit (enc_set_link rsv col_ndx row_ndx v target_group_level_ndx variant) r"

definition rev_insert_substring :: "reserve_fun \<Rightarrow> nat \<Rightarrow> nat \<Rightarrow> nat \<Rightarrow> byte list \<Rightarrow> reverser \<Rightarrow> encode_error + reverser" where
  "rev_insert_substring rsv col_ndx row_ndx pos v r =
     Inr r"

definition rev_erase_substring :: "reserve_fun \<Rightarrow> nat \<Rightarrow> nat \<Rightarrow> nat \<Rightarrow> nat \<Rightarrow> reverser \<Rightarrow> encode_error + reverser" where
  "rev_erase_substring rsv col_ndx row_ndx pos len r =
     Inr r"

definition rev_clear_table :: "reserve_fun \<Rightarrow> nat \<Rightarrow> reverser \<Rightarrow> encode_error + reverser" where
  "rev_clear_table rsv old_size r =
     rv_emit (enc_insert_empty_rows rsv 0 old_size 0 False) r"

section \<open>Columns\<close>

definition rev_add_search_index :: "reserve_fun \<Rightarrow> nat \<Rightarrow> reverser \<Rightarrow> encode_error + reverser" where
  "rev_add_search_index rsv col_ndx r =
     Inr r"

definition rev_remove_search_index :: "reserve_fun \<Rightarrow> nat \<Rightarrow> reverser \<Rightarrow> encode_error + reverser" where
  "rev_remove_search_index rsv col_ndx r =
     Inr r"

definition rev_set_link_type :: "reserve_fun \<Rightarrow> nat \<Rightarrow> link_type \<Rightarrow> reverser \<Rightarrow> encode_error + reverser" where
  "rev_set_link_type rsv col_ndx t r =
     Inr r"

definition rev_insert_link_column :: "reserve_fun \<Rightarrow> nat \<Rightarrow> data_type \<Rightarrow> byte list \<Rightarrow> nat \<Rightarrow> nat \<Rightarrow> reverser \<Rightarrow> encode_error + reverser" where
  "rev_insert_link_column rsv col_idx t name target_table_idx backlink_col_ndx r =
     rv_emit (enc_erase_link_column rsv col_idx target_table_idx backlink_col_ndx) r"

definition rev_erase_link_column :: "reserve_fun \<Rightarrow> nat \<Rightarrow> nat \<Rightarrow> nat \<Rightarrow> reverser \<Rightarrow> encode_error + reverser" where
  "rev_erase_link_column rsv col_idx target_table_idx backlink_col_idx r =
     rv_emit (enc_insert_link_column rsv col_idx type_Link [] target_table_idx backlink_col_idx) r"

definition rev_insert_column :: "reserve_fun \<Rightarrow> nat \<Rightarrow> data_type \<Rightarrow> byte list \<Rightarrow> bool \<Rightarrow> reverser \<Rightarrow> encode_error + reverser" where
  "rev_insert_column rsv col_idx t name nullable r =
     rv_emit (enc_erase_column rsv col_idx) r"

definition rev_erase_column :: "reserve_fun \<Rightarrow> nat \<Rightarrow> reverser \<Rightarrow> encode_error + reverser" where
  "rev_erase_column rsv col_idx r =
     rv_emit (enc_insert_column rsv col_idx type_Int [] False) r"

definition rev_rename_column :: "reserve_fun \<Rightarrow> nat \<Rightarrow> byte list \<Rightarrow> reverser \<Rightarrow> encode_error + reverser" where
  "rev_rename_column rsv col_ndx name r =
     Inr r"

section \<open>Link lists\<close>

definition rev_link_list_set :: "reserve_fun \<Rightarrow> nat \<Rightarrow> nat \<Rightarrow> nat \<Rightarrow> reverser \<Rightarrow> encode_error + reverser" where
  "rev_link_list_set rsv row v prior_size r =
     rv_emit (enc_link_list_set rsv row v prior_size) r"

definition rev_link_list_insert :: "reserve_fun \<Rightarrow> nat \<Rightarrow> nat \<Rightarrow> nat \<Rightarrow> reverser \<Rightarrow> encode_error + reverser" where
  "rev_link_list_insert rsv link_ndx v prior_size r =
     rv_emit (enc_link_list_erase rsv link_ndx ((prior_size + 1) mod 2 ^ 64)) r"

definition rev_link_list_move :: "reserve_fun \<Rightarrow> nat \<Rightarrow> nat \<Rightarrow> reverser \<Rightarrow> encode_error + reverser" where
  "rev_link_list_move rsv from_link_ndx to_link_ndx r =
     rv_emit (enc_link_list_move rsv from_link_ndx to_link_ndx) r"

definition rev_link_list_swap :: "reserve_fun \<Rightarrow> nat \<Rightarrow> nat \<Rightarrow> reverser \<Rightarrow> encode_error + reverser" where
  "rev_link_list_swap rsv link1_ndx link2_ndx r =
     rv_emit (enc_link_list_swap rsv link1_ndx link2_ndx) r"

definition rev_link_list_erase :: "reserve_fun \<Rightarrow> nat \<Rightarrow> nat \<Rightarrow> reverser \<Rightarrow> encode_error + reverser" where
  "rev_link_list_erase rsv link_ndx prior_size r =
     rv_emit (enc_link_list_insert rsv link_ndx 0 (sub_size prior_size 1)) r"

fun rev_clear_loop :: "reserve_fun \<Rightarrow> nat \<Rightarrow> nat \<Rightarrow> reverser \<Rightarrow> encode_error + reverser" where
  "rev_clear_loop rsv old_list_size 0 r = Inr r"
| "rev_clear_loop rsv old_list_size (Suc k) r =
     (case rv_emit (enc_link_list_insert rsv k 0 (old_list_size - Suc k)) r of
        Inl e \<Rightarrow> Inl e
      | Inr r' \<Rightarrow> rev_clear_loop rsv old_list_size k r')"

definition rev_link_list_clear :: "reserve_fun \<Rightarrow> nat \<Rightarrow> reverser \<Rightarrow> encode_error + reverser" where
  "rev_link_list_clear rsv old_list_size r =
     rev_clear_loop rsv old_list_size old_list_size r"

definition rev_nullify_link :: "reserve_fun \<Rightarrow> nat \<Rightarrow> nat \<Rightarrow> nat \<Rightarrow> reverser \<Rightarrow> encode_error + reverser" where
  "rev_nullify_link rsv col_ndx row_ndx target_group_level_ndx r =
     rv_emit (enc_set_link rsv col_ndx row_ndx 0 target_group_level_ndx instr_Set) r"

definition rev_link_list_nullify :: "reserve_fun \<Rightarrow> nat \<Rightarrow> nat \<Rightarrow> reverser \<Rightarrow> encode_error + reverser" where
  "rev_link_list_nullify rsv link_ndx prior_size r =
     rv_emit (enc_link_list_insert rsv link_ndx 0 (sub_size prior_size 1)) r"

section \<open>The handler and its stream\<close>

fun rev_handle ::
  "(group_op \<Rightarrow> arg list) \<Rightarrow> reserve_fun \<Rightarrow> operation \<Rightarrow> reverser \<Rightarrow> encode_error + reverser" where
  "rev_handle sel rsv (GroupOp (OpSelectTable g path)) = rev_select_table sel rsv g path"
| "rev_handle sel rsv (GroupOp (OpSelectDescriptor path)) = rev_select_descriptor sel rsv path"
| "rev_handle sel rsv (GroupOp (OpSelectLinkList c r g)) = rev_select_link_list sel rsv c r g"
| "rev_handle sel rsv (GroupOp (OpInsertGroupLevelTable table_ndx num_tables name)) = rev_insert_group_level_table rsv table_ndx num_tables name"
| "rev_handle sel rsv (GroupOp (OpEraseGroupLevelTable table_ndx num_tables)) = rev_erase_group_level_table rsv table_ndx num_tables"
| "rev_handle sel rsv (GroupOp (OpRenameGroupLevelTable table_ndx name)) = rev_rename_group_level_table rsv table_ndx name"
| "rev_handle sel rsv (RowOp OpOptimizeTable) = rev_optimize_table rsv"
| "rev_handle sel rsv (RowOp (OpInsertEmptyRows row_ndx num_rows_to_insert prior_num_rows unordered)) = rev_insert_empty_rows rsv row_ndx num_rows_to_insert prior_num_rows unordered"
| "rev_handle sel rsv (RowOp (OpAddRowWithKey row_ndx prior_num_rows key_col_ndx key)) = rev_add_row_with_key rsv row_ndx prior_num_rows key_col_ndx key"
| "rev_handle sel rsv (RowOp (OpEraseRows row_ndx num_rows_to_erase prior_num_rows unordered)) = rev_erase_rows rsv row_ndx num_rows_to_erase prior_num_rows unordered"
| "rev_handle sel rsv (RowOp (OpSwapRows row_ndx_1 row_ndx_2)) = rev_swap_rows rsv row_ndx_1 row_ndx_2"
| "rev_handle sel rsv (RowOp (OpMoveRow from_ndx to_ndx)) = rev_move_row rsv from_ndx to_ndx"
| "rev_handle sel rsv (RowOp (OpMergeRows row_ndx new_row_ndx)) = rev_merge_rows rsv row_ndx new_row_ndx"
| "rev_handle sel rsv (FieldOp (OpSetInt col_ndx row_ndx v variant prior_num_rows)) = rev_set_int rsv col_ndx row_ndx v variant prior_num_rows"
| "rev_handle sel rsv (FieldOp (OpAddInt col_ndx row_ndx v)) = rev_add_int rsv col_ndx row_ndx v"
| "rev_handle sel rsv (FieldOp (OpSetBool col_ndx row_ndx v variant)) = rev_set_bool rsv col_ndx row_ndx v variant"
| "rev_handle sel rsv (FieldOp (OpSetFloat col_ndx row_ndx v variant)) = rev_set_float rsv col_ndx row_ndx v variant"
| "rev_handle sel rsv (FieldOp (OpSetDouble col_ndx row_ndx v variant)) = rev_set_double rsv col_ndx row_ndx v variant"
| "rev_handle sel rsv (FieldOp (OpSetString col_ndx row_ndx v variant prior_num_rows)) = rev_set_string rsv col_ndx row_ndx v variant prior_num_rows"
| "rev_handle sel rsv (FieldOp (OpSetBinary col_ndx row_ndx v variant)) = rev_set_binary rsv col_ndx row_ndx v variant"
| "rev_handle sel rsv (FieldOp (OpSetOldDateTime col_ndx row_ndx v variant)) = rev_set_olddatetime rsv col_ndx row_ndx v variant"
| "rev_handle sel rsv (FieldOp (OpSetTimestamp col_ndx row_ndx s ns variant)) = rev_set_timestamp rsv col_ndx row_ndx s ns variant"
| "rev_handle sel rsv (FieldOp (OpSetTable col_ndx row_ndx variant)) = rev_set_table rsv col_ndx row_ndx variant"
| "rev_handle sel rsv (FieldOp (OpSetMixed col_ndx row_ndx v variant)) = rev_set_mixed rsv col_ndx row_ndx v variant"
| "rev_handle sel rsv (FieldOp (OpSetNull col_ndx row_ndx variant prior_num_rows)) = rev_set_null rsv col_ndx row_ndx variant prior_num_rows"
| "rev_handle sel rsv (FieldOp (OpSetLink col_ndx row_ndx v target_group_level_ndx variant)) = rev_set_link rsv col_ndx row_ndx v target_group_level_ndx variant"
| "rev_handle sel rsv (FieldOp (OpInsertSubstring col_ndx row_ndx pos v)) = rev_insert_substring rsv col_ndx row_ndx pos v"
| "rev_handle sel rsv (FieldOp (OpEraseSubstring col_ndx row_ndx pos len)) = rev_erase_substring rsv col_ndx row_ndx pos len"
| "rev_handle sel rsv (RowOp (OpClearTable old_size)) = rev_clear_table rsv old_size"
| "rev_handle sel rsv (ColumnOp (OpAddSearchIndex col_ndx)) = rev_add_search_index rsv col_ndx"
| "rev_handle sel rsv (ColumnOp (OpRemoveSearchIndex col_ndx)) = rev_remove_search_index rsv col_ndx"
| "rev_handle sel rsv (ColumnOp (OpSetLinkType col_ndx t)) = rev_set_link_type rsv col_ndx t"
| "rev_handle sel rsv (ColumnOp (OpInsertLinkColumn col_idx t name target_table_idx backlink_col_ndx)) = rev_insert_link_column rsv col_idx t name target_table_idx backlink_col_ndx"
| "rev_handle sel rsv (ColumnOp (OpEraseLinkColumn col_idx target_table_idx backlink_col_idx)) = rev_erase_link_column rsv col_idx target_table_idx backlink_col_idx"
| "rev_handle sel rsv (ColumnOp (OpInsertColumn col_idx t name nullable)) = rev_insert_column rsv col_idx t name nullable"
| "rev_handle sel rsv (ColumnOp (OpEraseColumn col_idx)) = rev_erase_column rsv col_idx"
| "rev_handle sel rsv (ColumnOp (OpRenameColumn col_ndx name)) = rev_rename_column rsv col_ndx name"
| "rev_handle sel rsv (LinkListOp (OpLinkListSet row v prior_size)) = rev_link_list_set rsv row v prior_size"
| "rev_handle sel rsv (LinkListOp (OpLinkListInsert link_ndx v prior_size)) = rev_link_list_insert rsv link_ndx v prior_size"
| "rev_handle sel rsv (LinkListOp (OpLinkListMove from_link_ndx to_link_ndx)) = rev_link_list_move rsv from_link_ndx to_link_ndx"
| "rev_handle sel rsv (LinkListOp (OpLinkListSwap link1_ndx link2_ndx)) = rev_link_list_swap rsv link1_ndx link2_ndx"
| "rev_handle sel rsv (LinkListOp (OpLinkListErase link_ndx prior_size)) = rev_link_list_erase rsv link_ndx prior_size"
| "rev_handle sel rsv (LinkListOp (OpLinkListClear old_list_size)) = rev_link_list_clear rsv old_list_size"
| "rev_handle sel rsv (FieldOp (OpNullifyLink col_ndx row_ndx target_group_level_ndx)) = rev_nullify_link rsv col_ndx row_ndx target_group_level_ndx"
| "rev_handle sel rsv (LinkListOp (OpLinkListNullify link_ndx prior_size)) = rev_link_list_nullify rsv link_ndx prior_size"

text \<open>\<open>ReversedNoCopyInputStream\<close>: the buffer, the instructions and how many are left.\<close>

record reversed_stream =
  rs_buffer :: "byte list"
  rs_order :: "slice list"
  rs_current :: nat

definition reversed_init :: "reverser \<Rightarrow> reversed_stream" where
  "reversed_init r =
     (let r' = sync_table r
      in \<lparr>rs_buffer = enc_log (rv_encoder r'), rs_order = rv_instructions r', rs_current = length (rv_instructions r')\<rparr>)"

definition cut :: "byte list \<Rightarrow> slice \<Rightarrow> byte list" where
  "cut buf i = take (snd i - fst i) (drop (fst i) buf)"

definition reversed_next :: "reversed_stream \<Rightarrow> (byte list \<times> reversed_stream) option" where
  "reversed_next s =
     (if rs_current s \<noteq> 0 then
        let k = rs_current s - 1; i = rs_order s ! k
        in if snd i > fst i then Some (cut (rs_buffer s) i, s\<lparr>rs_current := k\<rparr>) else None
      else None)"

end
