(* ===== verification/TransactReverseCorrect.thy ===== *)
theory TransactReverseCorrect
  imports TransactReverse
begin

text \<open>
  What the reverser promises, in terms of operations: the instructions that take an operation back
  (\<open>inverse_ops\<close>), and when the pending selections go into the log (\<open>undo_step\<close>). The slices of the
  buffer refine this list of operations, and the reversed stream delivers it from the end.
\<close>

section \<open>The abstract reverser\<close>

record undo =
  un_done :: "operation list"
  un_ts :: "operation option"
  un_ds :: "operation option"
  un_lv :: "operation option"

definition undo_init :: undo where
  "undo_init = \<lparr>un_done = [], un_ts = None, un_ds = None, un_lv = None\<rparr>"

definition opt_list :: "'a option \<Rightarrow> 'a list" where
  "opt_list x = (case x of None \<Rightarrow> [] | Some y \<Rightarrow> [y])"

lemma opt_list_simps [simp]: "opt_list None = []" "opt_list (Some x) = [x]"
  by (simp_all add: opt_list_def)

definition flush_lv :: "undo \<Rightarrow> undo" where
  "flush_lv u = u\<lparr>un_done := un_done u @ opt_list (un_lv u), un_lv := None\<rparr>"

definition flush_ds :: "undo \<Rightarrow> undo" where
  "flush_ds u0 = (let u = flush_lv u0 in u\<lparr>un_done := un_done u @ opt_list (un_ds u), un_ds := None\<rparr>)"

definition flush_ts :: "undo \<Rightarrow> undo" where
  "flush_ts u0 = (let u = flush_ds u0 in u\<lparr>un_done := un_done u @ opt_list (un_ts u), un_ts := None\<rparr>)"

definition clear_ops :: "nat \<Rightarrow> nat \<Rightarrow> operation list" where
  "clear_ops n k = map (\<lambda>i. LinkListOp (OpLinkListInsert i 0 (n - Suc i))) (rev [0 ..< k])"

fun inverse_ops :: "operation \<Rightarrow> operation list" where
  "inverse_ops (GroupOp (OpInsertGroupLevelTable t n s)) = [GroupOp (OpEraseGroupLevelTable t ((n + 1) mod 2 ^ 64))]"
| "inverse_ops (GroupOp (OpEraseGroupLevelTable t n)) = [GroupOp (OpInsertGroupLevelTable t (sub_size n 1) [])]"
| "inverse_ops (GroupOp _) = []"
| "inverse_ops (RowOp OpOptimizeTable) = []"
| "inverse_ops (RowOp (OpInsertEmptyRows r n p u)) = [RowOp (OpEraseRows r n ((p + n) mod 2 ^ 64) u)]"
| "inverse_ops (RowOp (OpAddRowWithKey r p c k)) = [RowOp (OpEraseRows r 1 ((p + 1) mod 2 ^ 64) True)]"
| "inverse_ops (RowOp (OpEraseRows r n p u)) = [RowOp (OpInsertEmptyRows r n (sub_size p n) u)]"
| "inverse_ops (RowOp (OpSwapRows r q)) = [RowOp (OpSwapRows r q)]"
| "inverse_ops (RowOp (OpMoveRow r q)) = [RowOp (OpMoveRow q r)]"
| "inverse_ops (RowOp (OpMergeRows r q)) = [RowOp (OpMergeRows r r), RowOp (OpMergeRows q q)]"
| "inverse_ops (RowOp (OpClearTable n)) = [RowOp (OpInsertEmptyRows 0 n 0 False)]"
| "inverse_ops (FieldOp (OpAddInt c r v)) = [FieldOp (OpAddInt c r (- v))]"
| "inverse_ops (FieldOp (OpInsertSubstring c r q s)) = []"
| "inverse_ops (FieldOp (OpEraseSubstring c r q n)) = []"
| "inverse_ops (FieldOp (OpNullifyLink c r g)) = [FieldOp (OpSetLink c r 0 g instr_Set)]"
| "inverse_ops (FieldOp f) = [FieldOp f]"
| "inverse_ops (ColumnOp (OpInsertLinkColumn c t s g b)) = [ColumnOp (OpEraseLinkColumn c g b)]"
| "inverse_ops (ColumnOp (OpEraseLinkColumn c g b)) = [ColumnOp (OpInsertLinkColumn c type_Link [] g b)]"
| "inverse_ops (ColumnOp (OpInsertColumn c t s u)) = [ColumnOp (OpEraseColumn c)]"
| "inverse_ops (ColumnOp (OpEraseColumn c)) = [ColumnOp (OpInsertColumn c type_Int [] False)]"
| "inverse_ops (ColumnOp _) = []"
| "inverse_ops (LinkListOp (OpLinkListInsert l v p)) = [LinkListOp (OpLinkListErase l ((p + 1) mod 2 ^ 64))]"
| "inverse_ops (LinkListOp (OpLinkListErase l p)) = [LinkListOp (OpLinkListInsert l 0 (sub_size p 1))]"
| "inverse_ops (LinkListOp (OpLinkListNullify l p)) = [LinkListOp (OpLinkListInsert l 0 (sub_size p 1))]"
| "inverse_ops (LinkListOp (OpLinkListClear n)) = clear_ops n n"
| "inverse_ops (LinkListOp q) = [LinkListOp q]"

definition append_done :: "operation list \<Rightarrow> undo \<Rightarrow> undo" where
  "append_done qs u = u\<lparr>un_done := un_done u @ qs\<rparr>"

fun undo_step :: "operation \<Rightarrow> undo \<Rightarrow> undo" where
  "undo_step (GroupOp (OpSelectTable g path)) u = (flush_ts u)\<lparr>un_ts := Some (GroupOp (OpSelectTable g path))\<rparr>"
| "undo_step (GroupOp (OpSelectDescriptor path)) u = (flush_ds u)\<lparr>un_ds := Some (GroupOp (OpSelectDescriptor path))\<rparr>"
| "undo_step (GroupOp (OpSelectLinkList c r g)) u = (flush_lv u)\<lparr>un_lv := Some (GroupOp (OpSelectLinkList c r g))\<rparr>"
| "undo_step (GroupOp q) u = append_done (inverse_ops (GroupOp q)) (flush_ts u)"
| "undo_step p u = append_done (inverse_ops p) u"

definition undone :: "operation list \<Rightarrow> operation list" where
  "undone ps = un_done (flush_ts (fold undo_step ps undo_init))"

text \<open>Every operation can be taken back, but the addition of the least integer, whose negation
  overflows.\<close>

fun undoable :: "operation \<Rightarrow> bool" where
  "undoable (FieldOp (OpAddInt c r v)) \<longleftrightarrow> op_ok (FieldOp (OpAddInt c r v)) \<and> v \<noteq> lim_min int64_type"
| "undoable p \<longleftrightarrow> op_ok p"

lemma undoable_ok: "undoable p \<Longrightarrow> op_ok p"
  by (cases p rule: undoable.cases) auto

lemma clear_ops_ok: "n < 2 ^ 64 \<Longrightarrow> k \<le> n \<Longrightarrow> list_all op_ok (clear_ops n k)"
  by (auto simp: clear_ops_def list_all_iff)

lemma inverse_ops_ok: "undoable p \<Longrightarrow> list_all op_ok (inverse_ops p)"
  by (cases p rule: inverse_ops.cases)
    (auto simp: clear_ops_ok sub_size_def int_type_defs int64_type_def max_string_size_def)

section \<open>Recording operations instead of slices\<close>

fun emit_ops ::
  "(group_op \<Rightarrow> arg list) \<Rightarrow> reserve_fun \<Rightarrow> operation list \<Rightarrow> reverser \<Rightarrow> encode_error + reverser" where
  "emit_ops sel rsv [] r = Inr r"
| "emit_ops sel rsv (q # qs) r =
     (case rv_emit (enc_handle sel rsv q) r of Inl e \<Rightarrow> Inl e | Inr r' \<Rightarrow> emit_ops sel rsv qs r')"

lemmas rev_defs =
  rev_insert_group_level_table_def rev_erase_group_level_table_def rev_rename_group_level_table_def
  rev_optimize_table_def rev_insert_empty_rows_def rev_add_row_with_key_def rev_erase_rows_def
  rev_swap_rows_def rev_move_row_def rev_merge_rows_def rev_set_int_def rev_add_int_def rev_set_bool_def
  rev_set_float_def rev_set_double_def rev_set_string_def rev_set_binary_def rev_set_olddatetime_def
  rev_set_timestamp_def rev_set_table_def rev_set_mixed_def rev_set_null_def rev_set_link_def
  rev_insert_substring_def rev_erase_substring_def rev_clear_table_def rev_add_search_index_def
  rev_remove_search_index_def rev_set_link_type_def rev_insert_link_column_def rev_erase_link_column_def
  rev_insert_column_def rev_erase_column_def rev_rename_column_def rev_link_list_set_def
  rev_link_list_insert_def rev_link_list_move_def rev_link_list_swap_def rev_link_list_erase_def
  rev_link_list_clear_def rev_nullify_link_def rev_link_list_nullify_def

lemma rev_clear_loop_emit: "rev_clear_loop rsv n k r = emit_ops sel rsv (clear_ops n k) r"
  by (induction k arbitrary: r) (auto simp: clear_ops_def split: sum.splits)

fun is_group :: "operation \<Rightarrow> bool" where
  "is_group (GroupOp _) = True"
| "is_group _ = False"

lemma rev_handle_emit:
  "\<not> is_group p \<Longrightarrow> rev_handle sel rsv p r = emit_ops sel rsv (inverse_ops p) r"
  by (cases p rule: inverse_ops.cases)
    (auto simp: rev_defs rev_clear_loop_emit[where sel = sel] split: sum.splits)

lemma rev_handle_group:
  "\<not> is_selection g \<Longrightarrow> rev_handle sel rsv (GroupOp g) r = emit_ops sel rsv (inverse_ops (GroupOp g)) (sync_table r)"
  by (cases g) (auto simp: rev_defs split: sum.splits)

section \<open>Slices\<close>

definition slice_holds :: "byte list \<Rightarrow> slice \<Rightarrow> operation \<Rightarrow> bool" where
  "slice_holds buf i p \<longleftrightarrow> fst i < snd i \<and> snd i \<le> length buf \<and> cut buf i = op_bytes p"

definition pending_holds :: "byte list \<Rightarrow> slice \<Rightarrow> operation option \<Rightarrow> bool" where
  "pending_holds buf i x \<longleftrightarrow> (case x of None \<Rightarrow> fst i = snd i | Some p \<Rightarrow> slice_holds buf i p)"

definition represents :: "reverser \<Rightarrow> undo \<Rightarrow> bool" where
  "represents r u \<longleftrightarrow>
     (let buf = enc_log (rv_encoder r)
      in sized (rv_encoder r) \<and> rv_instr_start r = length buf
        \<and> list_all2 (slice_holds buf) (rv_instructions r) (un_done u)
        \<and> pending_holds buf (rv_pending_ts r) (un_ts u)
        \<and> pending_holds buf (rv_pending_ds r) (un_ds u)
        \<and> pending_holds buf (rv_pending_lv r) (un_lv u))"

lemma op_bytes_not_empty: "op_bytes p \<noteq> []"
  by (simp add: op_bytes_def args_bytes_simps arg_bytes.simps encode_char_def)

lemma slice_grows: "slice_holds buf i p \<Longrightarrow> slice_holds (buf @ bs) i p"
  by (simp add: slice_holds_def cut_def)

lemma pending_grows: "pending_holds buf i x \<Longrightarrow> pending_holds (buf @ bs) i x"
  by (auto simp: pending_holds_def slice_grows split: option.splits)

lemma slice_new: "slice_holds (buf @ op_bytes p) (length buf, length (buf @ op_bytes p)) p"
  using op_bytes_not_empty[of p] by (simp add: slice_holds_def cut_def)

lemma slices_grow: "list_all2 (slice_holds buf) is ps \<Longrightarrow> list_all2 (slice_holds (buf @ bs)) is ps"
  by (erule list_all2_mono) (rule slice_grows)

lemma represents_init: "represents rv_init undo_init"
  by (simp add: represents_def rv_init_def undo_init_def sized_def pending_holds_def)

lemma represents_lv: "represents r u \<Longrightarrow> represents (sync_linkview r) (flush_lv u)"
  by (auto simp: represents_def sync_linkview_def flush_lv_def append_slice_def pending_holds_def Let_def
      slice_holds_def list_all2_appendI split: option.splits)

lemma represents_ds: "represents r u \<Longrightarrow> represents (sync_descriptor r) (flush_ds u)"
  using represents_lv[of r u]
  by (auto simp: represents_def sync_descriptor_def flush_ds_def append_slice_def pending_holds_def Let_def
      slice_holds_def list_all2_appendI split: option.splits)

lemma represents_ts: "represents r u \<Longrightarrow> represents (sync_table r) (flush_ts u)"
  using represents_ds[of r u]
  by (auto simp: represents_def sync_table_def flush_ts_def append_slice_def pending_holds_def Let_def
      slice_holds_def list_all2_appendI split: option.splits)

text \<open>The state between a call of the encoder and \<open>get_inst\<close>: the bytes of one more instruction.\<close>

definition represents_with :: "reverser \<Rightarrow> undo \<Rightarrow> operation \<Rightarrow> bool" where
  "represents_with r u p \<longleftrightarrow>
     (\<exists>r0 e. represents r0 u \<and> r = r0\<lparr>rv_encoder := e\<rparr> \<and> sized e
        \<and> enc_log e = enc_log (rv_encoder r0) @ op_bytes p)"

lemma represents_append:
  "represents_with r u p \<Longrightarrow> represents (append_instruction r) (append_done [p] u)"
  by (auto simp: represents_with_def represents_def append_instruction_def get_inst_def transact_log_size_def
      append_slice_def append_done_def Let_def pending_grows slices_grow intro!: list_all2_appendI)
    (use slice_new in simp)

lemma represents_pending:
  assumes "represents_with r u p" "get_inst r = (i, r')"
  shows "represents (r'\<lparr>rv_pending_ts := i\<rparr>) (u\<lparr>un_ts := Some p\<rparr>)"
    "represents (r'\<lparr>rv_pending_ds := i\<rparr>) (u\<lparr>un_ds := Some p\<rparr>)"
    "represents (r'\<lparr>rv_pending_lv := i\<rparr>) (u\<lparr>un_lv := Some p\<rparr>)"
proof -
  obtain r0 e where r: "represents r0 u" "r = r0\<lparr>rv_encoder := e\<rparr>" "sized e"
    "enc_log e = enc_log (rv_encoder r0) @ op_bytes p"
    using assms(1) by (auto simp: represents_with_def)
  let ?r = "r\<lparr>rv_instr_start := length (enc_log e)\<rparr>"
  have i: "i = (length (enc_log (rv_encoder r0)), length (enc_log e))" "r' = ?r"
    using assms(2) r(1,2) by (auto simp: get_inst_def transact_log_size_def represents_def Let_def)
  have "pending_holds (enc_log e) i (Some p)"
    using slice_new by (simp add: pending_holds_def i(1) r(4) del: length_append)
  moreover have "represents ?r u"
    using r by (simp add: represents_def Let_def pending_grows slices_grow)
  ultimately show "represents (r'\<lparr>rv_pending_ts := i\<rparr>) (u\<lparr>un_ts := Some p\<rparr>)"
    "represents (r'\<lparr>rv_pending_ds := i\<rparr>) (u\<lparr>un_ds := Some p\<rparr>)"
    "represents (r'\<lparr>rv_pending_lv := i\<rparr>) (u\<lparr>un_lv := Some p\<rparr>)"
    by (simp_all add: represents_def Let_def i(2) r(2))
qed

lemma undo_step_plain: "\<not> is_group p \<Longrightarrow> undo_step p u = append_done (inverse_ops p) u"
  by (cases p) auto

lemma undo_step_group: "\<not> is_selection g \<Longrightarrow> undo_step (GroupOp g) u = append_done (inverse_ops (GroupOp g)) (flush_ts u)"
  by (cases g) auto

context log_stream
begin

lemma rv_encode_ok:
  assumes "selections sel" "op_ok p" "represents r u"
  shows "rv_encode (enc_handle sel rsv p) r = Inl BufferSizeOverflow \<or>
    (\<exists>r'. rv_encode (enc_handle sel rsv p) r = Inr r' \<and> represents_with r' u p)"
proof -
  have "sized (rv_encoder r)" using assms(3) by (simp add: represents_def Let_def)
  from append_simple_instr_ok[OF op_args_args_ok[OF assms(2)] this] show ?thesis
    unfolding rv_encode_def enc_handle_args[OF assms(1,2)] represents_with_def
    by (elim disjE exE conjE) (use assms(3) in \<open>auto simp: op_bytes_def\<close>)
qed

lemma emit_ops_ok:
  "selections sel \<Longrightarrow> list_all op_ok qs \<Longrightarrow> represents r u \<Longrightarrow>
   emit_ops sel rsv qs r = Inl BufferSizeOverflow \<or>
   (\<exists>r'. emit_ops sel rsv qs r = Inr r' \<and> represents r' (append_done qs u))"
proof (induction qs arbitrary: r u)
  case Nil
  then show ?case by (simp add: append_done_def)
next
  case (Cons q qs)
  have ok: "op_ok q" "list_all op_ok qs" using Cons.prems(2) by auto
  have a: "append_done qs (append_done [q] u) = append_done (q # qs) u" by (simp add: append_done_def)
  from rv_encode_ok[OF Cons.prems(1) ok(1) Cons.prems(3)] show ?case
  proof (elim disjE exE conjE)
    assume "rv_encode (enc_handle sel rsv q) r = Inl BufferSizeOverflow"
    then show ?thesis by (simp add: rv_emit_def)
  next
    fix r'
    assume "rv_encode (enc_handle sel rsv q) r = Inr r'" "represents_with r' u q"
    then show ?thesis
      using Cons.IH[OF Cons.prems(1) ok(2) represents_append, of r' u q] by (simp add: rv_emit_def a)
  qed
qed

lemma rev_select_ok:
  assumes "selections sel" "is_selection g" "op_ok (GroupOp g)" "represents r u"
  shows "rev_handle sel rsv (GroupOp g) r = Inl BufferSizeOverflow \<or>
    (\<exists>r'. rev_handle sel rsv (GroupOp g) r = Inr r' \<and> represents r' (undo_step (GroupOp g) u))"
  using assms(2)
proof (cases g rule: is_selection.cases)
  case (1 t path)
  show ?thesis
    using rv_encode_ok[OF assms(1,3) represents_ts[OF assms(4)]] represents_pending(1)
    by (auto simp: 1 rev_select_table_def split: prod.splits)
next
  case (2 path)
  show ?thesis
    using rv_encode_ok[OF assms(1,3) represents_ds[OF assms(4)]] represents_pending(2)
    by (auto simp: 2 rev_select_descriptor_def split: prod.splits)
next
  case (3 c q t)
  show ?thesis
    using rv_encode_ok[OF assms(1,3) represents_lv[OF assms(4)]] represents_pending(3)
    by (auto simp: 3 rev_select_link_list_def split: prod.splits)
qed auto

lemma rev_handle_ok:
  assumes "selections sel" "undoable p" "represents r u"
  shows "rev_handle sel rsv p r = Inl BufferSizeOverflow \<or>
    (\<exists>r'. rev_handle sel rsv p r = Inr r' \<and> represents r' (undo_step p u))"
proof (cases "is_group p")
  case False
  then show ?thesis
    using emit_ops_ok[OF assms(1) inverse_ops_ok[OF assms(2)] assms(3)]
    by (simp add: rev_handle_emit undo_step_plain)
next
  case True
  then obtain g where g: "p = GroupOp g" by (cases p) auto
  show ?thesis
  proof (cases "is_selection g")
    case True
    then show ?thesis using rev_select_ok[OF assms(1) True _ assms(3)] undoable_ok[OF assms(2)] by (simp add: g)
  next
    case False
    then show ?thesis
      using emit_ops_ok[OF assms(1) inverse_ops_ok[OF assms(2)] represents_ts[OF assms(3)]]
      by (simp add: g rev_handle_group undo_step_group)
  qed
qed

end

section \<open>A whole log\<close>

fun reverse_ops ::
  "(group_op \<Rightarrow> arg list) \<Rightarrow> reserve_fun \<Rightarrow> operation list \<Rightarrow> reverser \<Rightarrow> encode_error + reverser" where
  "reverse_ops sel rsv [] r = Inr r"
| "reverse_ops sel rsv (p # ps) r =
     (case rev_handle sel rsv p r of Inl e \<Rightarrow> Inl e | Inr r' \<Rightarrow> reverse_ops sel rsv ps r')"

context log_stream
begin

lemma reverse_ops_ok:
  "selections sel \<Longrightarrow> list_all undoable ps \<Longrightarrow> represents r u \<Longrightarrow>
   reverse_ops sel rsv ps r = Inl BufferSizeOverflow \<or>
   (\<exists>r'. reverse_ops sel rsv ps r = Inr r' \<and> represents r' (fold undo_step ps u))"
proof (induction ps arbitrary: r u)
  case Nil
  then show ?case by simp
next
  case (Cons p ps)
  have "undoable p" using Cons.prems(2) by simp
  from rev_handle_ok[OF Cons.prems(1) this Cons.prems(3)] show ?case
    using Cons.IH[OF Cons.prems(1), where u = "undo_step p u"] Cons.prems(2) by (elim disjE exE conjE) simp_all
qed

end

text \<open>The stream hands the slices out from the last, each of them not empty.\<close>

definition reversed_yields :: "reversed_stream \<Rightarrow> byte list \<Rightarrow> bool" where
  "reversed_yields s bs \<longleftrightarrow>
     rs_current s \<le> length (rs_order s)
     \<and> list_all (\<lambda>i. cut (rs_buffer s) i \<noteq> []) (rs_order s)
     \<and> bs = concat (map (cut (rs_buffer s)) (rev (take (rs_current s) (rs_order s))))"

interpretation reversed_blocks: block_stream reversed_next reversed_yields
proof
  fix s bs b s'
  assume y: "reversed_yields s bs" "reversed_next s = Some (b, s')"
  then obtain k where k: "rs_current s = Suc k" "b = cut (rs_buffer s) (rs_order s ! k)" "s' = s\<lparr>rs_current := k\<rparr>"
    by (cases "rs_current s") (auto simp: reversed_next_def Let_def split: if_splits)
  have "take (Suc k) (rs_order s) = take k (rs_order s) @ [rs_order s ! k]"
    using y(1) k(1) by (simp add: reversed_yields_def take_Suc_conv_app_nth)
  then show "b \<noteq> [] \<and> (\<exists>rest. bs = b @ rest \<and> reversed_yields s' rest)"
    using y(1) k by (simp add: reversed_yields_def list_all_length)
next
  fix s bs
  assume y: "reversed_yields s bs" "reversed_next s = None"
  show "bs = []"
  proof (cases "rs_current s")
    case 0
    then show ?thesis using y(1) by (simp add: reversed_yields_def)
  next
    case (Suc k)
    then have "cut (rs_buffer s) (rs_order s ! k) \<noteq> []" using y(1) by (simp add: reversed_yields_def list_all_length)
    then show ?thesis using y(2) Suc by (simp add: reversed_next_def Let_def cut_def split: if_splits)
  qed
qed

lemma slices_bytes:
  "list_all2 (slice_holds buf) is ps \<Longrightarrow>
   map (cut buf) is = map op_bytes ps \<and> list_all (\<lambda>i. cut buf i \<noteq> []) is"
  by (induction rule: list_all2_induct) (auto simp: slice_holds_def op_bytes_not_empty)

lemma reversed_init_yields:
  assumes "represents r u"
  shows "reversed_yields (reversed_init r) (concat (map op_bytes (rev (un_done (flush_ts u)))))"
proof -
  have "list_all2 (slice_holds (enc_log (rv_encoder (sync_table r)))) (rv_instructions (sync_table r)) (un_done (flush_ts u))"
    using represents_ts[OF assms] by (simp add: represents_def Let_def)
  then show ?thesis
    using slices_bytes by (simp add: reversed_yields_def reversed_init_def Let_def rev_map[symmetric])
qed

end
