(* ===== verification/TransactReverseProps.thy ===== *)
theory TransactReverseProps
  imports TransactReverseCorrect "HOL-Library.Code_Target_Nat"
begin

text \<open>
  The properties of the reverser: the reversed log is one the parser accepts, and replays what takes the
  operations back, in reverse, each of them under the selection that the operation had.
\<close>

section \<open>Selections in force\<close>

text \<open>The table, descriptor and link list that are selected. Selecting one of them deselects the ones
  inside it; an operation on the tables of the group deselects everything, as \<open>TransactLogConvenientEncoder\<close>
  does when it records one.\<close>

record scope =
  sc_table :: "operation option"
  sc_descriptor :: "operation option"
  sc_list :: "operation option"

definition no_scope :: scope where
  "no_scope = \<lparr>sc_table = None, sc_descriptor = None, sc_list = None\<rparr>"

fun scope_after :: "operation \<Rightarrow> scope \<Rightarrow> scope" where
  "scope_after (GroupOp (OpSelectTable g path)) c = no_scope\<lparr>sc_table := Some (GroupOp (OpSelectTable g path))\<rparr>"
| "scope_after (GroupOp (OpSelectDescriptor path)) c =
     c\<lparr>sc_descriptor := Some (GroupOp (OpSelectDescriptor path)), sc_list := None\<rparr>"
| "scope_after (GroupOp (OpSelectLinkList k r g)) c = c\<lparr>sc_list := Some (GroupOp (OpSelectLinkList k r g))\<rparr>"
| "scope_after (GroupOp g) c = no_scope"
| "scope_after p c = c"

text \<open>The part of the scope that an operation looks at.\<close>

fun scope_of :: "operation \<Rightarrow> scope \<Rightarrow> scope" where
  "scope_of (GroupOp g) c = no_scope"
| "scope_of (RowOp p) c = no_scope\<lparr>sc_table := sc_table c\<rparr>"
| "scope_of (FieldOp p) c = no_scope\<lparr>sc_table := sc_table c\<rparr>"
| "scope_of (ColumnOp p) c = c\<lparr>sc_list := None\<rparr>"
| "scope_of (LinkListOp p) c = c\<lparr>sc_descriptor := None\<rparr>"

fun in_scope :: "operation \<Rightarrow> scope \<Rightarrow> bool" where
  "in_scope (GroupOp g) c \<longleftrightarrow> True"
| "in_scope (RowOp p) c \<longleftrightarrow> sc_table c \<noteq> None"
| "in_scope (FieldOp p) c \<longleftrightarrow> sc_table c \<noteq> None"
| "in_scope (ColumnOp p) c \<longleftrightarrow> sc_table c \<noteq> None \<and> sc_descriptor c \<noteq> None"
| "in_scope (LinkListOp p) c \<longleftrightarrow> sc_table c \<noteq> None \<and> sc_list c \<noteq> None"

fun well_selected :: "scope \<Rightarrow> operation list \<Rightarrow> bool" where
  "well_selected c [] \<longleftrightarrow> True"
| "well_selected c (p # ps) \<longleftrightarrow> in_scope p c \<and> well_selected (scope_after p c) ps"

fun is_select :: "operation \<Rightarrow> bool" where
  "is_select (GroupOp g) = is_selection g"
| "is_select _ = False"

text \<open>The operations of a log without its selections, each with the scope it runs in.\<close>

fun scoped :: "scope \<Rightarrow> operation list \<Rightarrow> (scope \<times> operation) list" where
  "scoped c [] = []"
| "scoped c (p # ps) =
     (if is_select p then scoped (scope_after p c) ps else (scope_of p c, p) # scoped (scope_after p c) ps)"

definition scoped_inverses :: "(scope \<times> operation) list \<Rightarrow> (scope \<times> operation) list" where
  "scoped_inverses cps = concat (map (\<lambda>(c, p). map (Pair c) (inverse_ops p)) cps)"

section \<open>Reversed logs keep the scopes\<close>

definition scope_le :: "scope \<Rightarrow> scope \<Rightarrow> bool" where
  "scope_le c c' \<longleftrightarrow>
     (sc_table c \<noteq> None \<longrightarrow> sc_table c' = sc_table c)
     \<and> (sc_descriptor c \<noteq> None \<longrightarrow> sc_descriptor c' = sc_descriptor c)
     \<and> (sc_list c \<noteq> None \<longrightarrow> sc_list c' = sc_list c)"

lemma scope_le_refl [simp]: "scope_le c c"
  by (simp add: scope_le_def)

definition pending :: "undo \<Rightarrow> scope" where
  "pending u = \<lparr>sc_table = un_ts u, sc_descriptor = un_ds u, sc_list = un_lv u\<rparr>"

definition pending_kinds :: "undo \<Rightarrow> bool" where
  "pending_kinds u \<longleftrightarrow>
     (\<forall>p. un_ts u = Some p \<longrightarrow> (\<exists>g path. p = GroupOp (OpSelectTable g path)))
     \<and> (\<forall>p. un_ds u = Some p \<longrightarrow> (\<exists>path. p = GroupOp (OpSelectDescriptor path)))
     \<and> (\<forall>p. un_lv u = Some p \<longrightarrow> (\<exists>c r g. p = GroupOp (OpSelectLinkList c r g)))"

text \<open>\<open>plays u c\<close>: what replaying the recorded instructions from the last, in scope \<open>c\<close>, amounts to.\<close>

definition plays :: "undo \<Rightarrow> scope \<Rightarrow> (scope \<times> operation) list" where
  "plays u c = scoped c (rev (un_done u))"

definition settled :: "undo \<Rightarrow> bool" where
  "settled u \<longleftrightarrow> pending_kinds u \<and> (\<forall>c. scope_le (pending u) c \<longrightarrow> plays u c = plays u (pending u))"

lemma settledD: "settled u \<Longrightarrow> scope_le (pending u) c \<Longrightarrow> plays u c = plays u (pending u)"
  unfolding settled_def by blast

lemma settled_kinds: "settled u \<Longrightarrow> pending_kinds u"
  unfolding settled_def by blast

text \<open>Flushing what is pending makes it the scope of the rest.\<close>

lemma plays_flush_lv:
  assumes "settled u" "scope_le ((pending u)\<lparr>sc_list := None\<rparr>) c"
  shows "plays (flush_lv u) c = plays u (pending u)"
proof (cases "un_lv u")
  case None
  then show ?thesis using assms settledD[of u c] by (simp add: plays_def flush_lv_def scope_le_def pending_def)
next
  case (Some p)
  then obtain k r g where p: "p = GroupOp (OpSelectLinkList k r g)" using settled_kinds[OF assms(1)] by (auto simp: pending_kinds_def)
  have "scope_le (pending u) (scope_after p c)" using assms(2) Some by (simp add: p scope_le_def pending_def)
  then show ?thesis using assms(1) settledD[of u "scope_after p c"] Some by (simp add: plays_def flush_lv_def p)
qed

lemma plays_flush_ds:
  assumes "settled u" "scope_le ((pending u)\<lparr>sc_descriptor := None, sc_list := None\<rparr>) c"
  shows "plays (flush_ds u) c = plays u (pending u)"
proof (cases "un_ds u")
  case None
  then show ?thesis
    using assms plays_flush_lv[of u c] by (simp add: plays_def flush_ds_def flush_lv_def Let_def scope_le_def pending_def)
next
  case (Some p)
  then obtain path where p: "p = GroupOp (OpSelectDescriptor path)" using settled_kinds[OF assms(1)] by (auto simp: pending_kinds_def)
  have "scope_le ((pending u)\<lparr>sc_list := None\<rparr>) (scope_after p c)"
    using assms(2) Some by (simp add: p scope_le_def pending_def)
  then show ?thesis
    using plays_flush_lv[OF assms(1), of "scope_after p c"] Some by (simp add: plays_def flush_ds_def flush_lv_def Let_def p)
qed

lemma plays_flush_ts:
  assumes "settled u" shows "plays (flush_ts u) c = plays u (pending u)"
proof (cases "un_ts u")
  case None
  then show ?thesis
    using plays_flush_ds[OF assms, of c] by (simp add: plays_def flush_ts_def flush_ds_def flush_lv_def Let_def scope_le_def pending_def)
next
  case (Some p)
  then obtain g path where p: "p = GroupOp (OpSelectTable g path)" using settled_kinds[OF assms] by (auto simp: pending_kinds_def)
  have "scope_le ((pending u)\<lparr>sc_descriptor := None, sc_list := None\<rparr>) (scope_after p c)"
    using Some by (simp add: p scope_le_def pending_def)
  then show ?thesis
    using plays_flush_ds[OF assms, of "scope_after p c"] Some
    by (simp add: plays_def flush_ts_def flush_ds_def flush_lv_def Let_def p)
qed

text \<open>The instructions for one operation run in its scope.\<close>

lemma scoped_plain:
  "list_all (\<lambda>q. \<not> is_group q \<and> scope_of q c = d) qs \<Longrightarrow> scoped c (qs @ ps) = map (Pair d) qs @ scoped c ps"
proof (induction qs)
  case Nil
  then show ?case by simp
next
  case (Cons q qs)
  then show ?case by (cases q) auto
qed

lemma inverse_scope:
  "\<not> is_group p \<Longrightarrow> list_all (\<lambda>q. \<not> is_group q \<and> scope_of q c = scope_of p c) (inverse_ops p)"
  by (cases p rule: inverse_ops.cases) (auto simp: clear_ops_def list_all_iff)

lemma scope_of_le: "in_scope p c \<Longrightarrow> scope_le c c' \<Longrightarrow> scope_of p c' = scope_of p c"
  by (cases p) (auto simp: scope_le_def)

lemma plays_append: "plays (append_done qs u) c = scoped c (rev qs @ rev (un_done u))"
  by (simp add: plays_def append_done_def)

lemma plays_inverse:
  assumes "\<not> is_group p"
  shows "plays (append_done (inverse_ops p) u) c = rev (map (Pair (scope_of p c)) (inverse_ops p)) @ plays u c"
  using scoped_plain[of c "scope_of p c" "rev (inverse_ops p)"] inverse_scope[OF assms, of c]
  by (simp add: plays_append rev_map) (simp add: plays_def)

lemma pending_flush [simp]: "pending (flush_ts u) = no_scope"
  by (simp add: pending_def flush_ts_def flush_ds_def flush_lv_def Let_def no_scope_def)

lemma pending_append [simp]: "pending (append_done qs u) = pending u"
  by (simp add: pending_def append_done_def)

lemma pending_step: "pending (undo_step p u) = scope_after p (pending u)"
  by (cases "(p, u)" rule: undo_step.cases)
    (simp_all, simp_all add: pending_def flush_ts_def flush_ds_def flush_lv_def Let_def no_scope_def)

lemma kinds_step: "pending_kinds u \<Longrightarrow> pending_kinds (undo_step p u)"
  by (cases "(p, u)" rule: undo_step.cases)
    (simp_all add: pending_kinds_def append_done_def flush_ts_def flush_ds_def flush_lv_def Let_def)

lemma plays_step:
  assumes "settled u" "in_scope p (pending u)" "scope_le (scope_after p (pending u)) c"
  shows "plays (undo_step p u) c =
    (if is_select p then [] else rev (map (Pair (scope_of p (pending u))) (inverse_ops p))) @ plays u (pending u)"
proof (cases "is_group p")
  case False
  then have c: "scope_le (pending u) c" using assms(3) by (cases p) auto
  have "\<not> is_select p" using False by (cases p) auto
  then show ?thesis
    using plays_inverse[OF False, of u c] settledD[OF assms(1) c] scope_of_le[OF assms(2) c] False
    by (simp add: undo_step_plain)
next
  case True
  then obtain g where g: "p = GroupOp g" by (cases p) auto
  show ?thesis
  proof (cases g)
    case (OpSelectTable t path)
    then show ?thesis using plays_flush_ts[OF assms(1), of c] by (simp add: g plays_def)
  next
    case (OpSelectDescriptor path)
    then have "scope_le ((pending u)\<lparr>sc_descriptor := None, sc_list := None\<rparr>) c"
      using assms(3) by (simp add: g scope_le_def)
    then show ?thesis using plays_flush_ds[OF assms(1), of c] OpSelectDescriptor by (simp add: g plays_def)
  next
    case (OpSelectLinkList k r t)
    then have "scope_le ((pending u)\<lparr>sc_list := None\<rparr>) c" using assms(3) by (simp add: g scope_le_def)
    then show ?thesis using plays_flush_lv[OF assms(1), of c] OpSelectLinkList by (simp add: g plays_def)
  qed (use plays_flush_ts[OF assms(1)] in \<open>simp_all add: g plays_append, simp_all add: plays_def\<close>)
qed

lemma settled_step: "settled u \<Longrightarrow> in_scope p (pending u) \<Longrightarrow> settled (undo_step p u)"
  unfolding settled_def[of "undo_step p u"]
  using kinds_step[OF settled_kinds] plays_step[of u p] by (simp add: pending_step)

lemma plays_fold:
  "settled u \<Longrightarrow> well_selected (pending u) ps \<Longrightarrow>
   settled (fold undo_step ps u) \<and>
   plays (fold undo_step ps u) (pending (fold undo_step ps u)) =
     rev (scoped_inverses (scoped (pending u) ps)) @ plays u (pending u)"
proof (induction ps arbitrary: u)
  case Nil
  then show ?case by (simp add: scoped_inverses_def)
next
  case (Cons p ps)
  then show ?case
    using Cons.IH[OF settled_step[of u p]] plays_step[of u p "scope_after p (pending u)"]
    by (simp add: pending_step scoped_inverses_def)
qed

lemma scoped_undone:
  assumes "well_selected no_scope ps"
  shows "scoped no_scope (rev (undone ps)) = rev (scoped_inverses (scoped no_scope ps))"
proof -
  have u: "settled undo_init" "pending undo_init = no_scope"
    by (auto simp: settled_def pending_kinds_def plays_def undo_init_def pending_def no_scope_def)
  have f: "settled (fold undo_step ps undo_init)"
    "plays (fold undo_step ps undo_init) (pending (fold undo_step ps undo_init)) = rev (scoped_inverses (scoped no_scope ps))"
    using plays_fold[OF u(1), of ps] u(2) assms by (simp_all add: plays_def undo_init_def)
  then show ?thesis using plays_flush_ts[OF f(1), of no_scope] by (simp add: plays_def undone_def)
qed

section \<open>The recorded instructions can be read back\<close>

definition undo_ok :: "undo \<Rightarrow> bool" where
  "undo_ok u \<longleftrightarrow> list_all op_ok (un_done u @ opt_list (un_ts u) @ opt_list (un_ds u) @ opt_list (un_lv u))"

lemma undo_ok_flush: "undo_ok u \<Longrightarrow> undo_ok (flush_lv u)" "undo_ok u \<Longrightarrow> undo_ok (flush_ds u)" "undo_ok u \<Longrightarrow> undo_ok (flush_ts u)"
  by (auto simp: undo_ok_def flush_ts_def flush_ds_def flush_lv_def Let_def)

lemma undo_ok_step:
  assumes "undo_ok u" "undoable p" shows "undo_ok (undo_step p u)"
proof -
  have p: "op_ok p" "list_all op_ok (inverse_ops p)" using undoable_ok inverse_ops_ok assms(2) by simp_all
  show ?thesis
    by (cases "(p, u)" rule: undo_step.cases)
      (use p undo_ok_flush[OF assms(1)] assms(1) in \<open>auto simp: undo_ok_def append_done_def\<close>)
qed

lemma undone_ok: "list_all undoable ps \<Longrightarrow> list_all op_ok (undone ps)"
proof -
  have "undo_ok u \<Longrightarrow> list_all undoable ps \<Longrightarrow> undo_ok (fold undo_step ps u)" for u
    by (induction ps arbitrary: u) (auto simp: undo_ok_step)
  moreover have "undo_ok undo_init" by (simp add: undo_ok_def undo_init_def)
  ultimately show "list_all undoable ps \<Longrightarrow> list_all op_ok (undone ps)"
    using undo_ok_flush(3) by (auto simp: undone_def undo_ok_def)
qed

lemma reversed_parse:
  assumes "list_all undoable ps" "represents r (fold undo_step ps undo_init)"
  shows "parse reversed_next handler (reversed_init r) h = Some (replay handler (map stored (rev (undone ps))) h)"
  using reversed_blocks.parse_ops[OF _ reversed_init_yields[OF assms(2)]] undone_ok[OF assms(1)]
  by (simp add: undone_def)

text \<open>The lengths that the reversal of \<open>link_list_clear\<close> records are those of insertions in the order in
  which it records them; they are replayed in the other order.\<close>

lemma clear_prior_sizes:
  "rev (inverse_ops (LinkListOp (OpLinkListClear 2)))
    = [LinkListOp (OpLinkListInsert 0 0 1), LinkListOp (OpLinkListInsert 1 0 0)]"
  by code_simp

section \<open>Properties\<close>



text \<open>
  C23. If every operation was made under a selection of what it works on, then the same holds for the
  reversed log: without their selections, the operations it replays are those that take the operations back, in reverse
  order, each in the scope (table, descriptor or link list) of the operation it takes back.\<close>

theorem reverser_keeps_scopes:
  assumes "selections sel" "list_all undoable ps" "well_selected no_scope ps"
    "reverse_ops sel buffer_stream_reserve ps rv_init = Inr r"
  shows "\<exists>qs. parse reversed_next handler (reversed_init r) h = Some (replay handler (map stored qs) h)
    \<and> scoped no_scope qs = rev (scoped_inverses (scoped no_scope ps))"
proof (intro exI conjI)
  have "represents r (fold undo_step ps undo_init)"
    using buffer_stream.reverse_ops_ok[OF assms(1,2) represents_init] assms(4) by auto
  then show "parse reversed_next handler (reversed_init r) h = Some (replay handler (map stored (rev (undone ps))) h)"
    by (rule reversed_parse[OF assms(2)])
  show "scoped no_scope (rev (undone ps)) = rev (scoped_inverses (scoped no_scope ps))"
    by (rule scoped_undone[OF assms(3)])
qed

theorem reverser_keeps_scopes_witness:
  "\<exists>r qs. reverse_ops (\<lambda>g. op_args (GroupOp g)) buffer_stream_reserve
        [GroupOp (OpSelectTable 2 []), RowOp (OpSwapRows 3 70), GroupOp (OpSelectTable 5 []), RowOp (OpMoveRow 4 5)] rv_init = Inr r \<and>
      parse reversed_next (\<lambda>p h. (h @ [p], True)) (reversed_init r) []
        = Some (replay (\<lambda>p h. (h @ [p], True)) (map stored qs) []) \<and>
      scoped no_scope qs =
        [(no_scope\<lparr>sc_table := Some (GroupOp (OpSelectTable 5 []))\<rparr>, RowOp (OpMoveRow 5 4)),
         (no_scope\<lparr>sc_table := Some (GroupOp (OpSelectTable 2 []))\<rparr>, RowOp (OpSwapRows 3 70))]"
proof -
  let ?sel = "\<lambda>g. op_args (GroupOp g)"
  let ?ps = "[GroupOp (OpSelectTable 2 []), RowOp (OpSwapRows 3 70), GroupOp (OpSelectTable 5 []), RowOp (OpMoveRow 4 5)]"
  have "(case reverse_ops ?sel buffer_stream_reserve ?ps rv_init of Inl e \<Rightarrow> False | Inr r \<Rightarrow> True)" by code_simp
  then obtain r where r: "reverse_ops ?sel buffer_stream_reserve ?ps rv_init = Inr r" by (auto split: sum.splits)
  have "rev (scoped_inverses (scoped no_scope ?ps)) =
        [(no_scope\<lparr>sc_table := Some (GroupOp (OpSelectTable 5 []))\<rparr>, RowOp (OpMoveRow 5 4)),
         (no_scope\<lparr>sc_table := Some (GroupOp (OpSelectTable 2 []))\<rparr>, RowOp (OpSwapRows 3 70))]"
    by (simp add: scoped_inverses_def)
  then show ?thesis
    using reverser_keeps_scopes[of ?sel ?ps r "\<lambda>p h. (h @ [p], True)" "[]"] r
    by (auto simp: selections_def no_scope_def)
qed

end
