(* ===== verification/LogObserver.thy ===== *)
theory LogObserver
  imports ChangeBuilder TransactOps
begin

text \<open>
  \<open>impl/transact_log_handler.cpp\<close>: the handlers that the object store gives to the parser of a
  transaction log. \<open>TransactLogValidator\<close> refuses changes of the schema that an open Realm cannot follow;
  \<open>TransactLogObserver\<close> also records what happens to the tables and lists that somebody observes, in
  change builders. A handler throws or returns true. The pointers to change builders are references: the
  builder of a table by its index in \<open>TransactionChangeInfo::tables\<close>, a builder of a list, which belongs to
  its notifier, by its index in a store of their own.
\<close>

section \<open>Positions after a move\<close>

text \<open>\<open>vector::resize\<close> with a default value.\<close>

definition resize_to :: "nat \<Rightarrow> 'a \<Rightarrow> 'a list \<Rightarrow> 'a list" where
  "resize_to n x xs = take n xs @ replicate (n - length xs) x"

definition rotate_to :: "'a \<Rightarrow> 'a list \<Rightarrow> nat \<Rightarrow> nat \<Rightarrow> 'a list" where
  "rotate_to x xs from to =
     (if from \<ge> length xs \<and> to \<ge> length xs then xs
      else
        let ys = (if from \<ge> length xs \<or> to \<ge> length xs then resize_to (max from to + 1) x xs else xs)
        in if from < to then rotate_range ys from (from + 1) (to + 1)
           else rotate_range ys to from (from + 1))"

definition insert_empty_at :: "'a \<Rightarrow> 'a list \<Rightarrow> nat \<Rightarrow> 'a list" where
  "insert_empty_at x xs pos = (if pos < length xs then list_insert_at xs pos x else xs)"

definition adjust_for_move :: "nat \<Rightarrow> nat \<Rightarrow> nat \<Rightarrow> nat" where
  "adjust_for_move v from to =
     (if v = from then to
      else if v > from \<and> v \<le> to then v - 1
      else if v < from \<and> v \<ge> to then v + 1
      else v)"

definition expand_to :: "nat list \<Rightarrow> nat \<Rightarrow> nat list" where
  "expand_to cols i =
     (let old_size = length cols
      in if old_size > i then cols
         else
           let start = (if old_size = 0 then 0 else (cols ! (old_size - 1) + 1) mod 2 ^ 64)
           in cols @ map (\<lambda>k. (start + k) mod 2 ^ 64) [0 ..< max (old_size * 2) (i + 1) - old_size])"

definition adjust_ge :: "nat list \<Rightarrow> nat \<Rightarrow> nat list" where
  "adjust_ge values i = map (\<lambda>v. if v \<ge> i then v + 1 else v) values"

section \<open>State\<close>

record list_info =
  li_table :: nat
  li_row :: nat
  li_col :: nat
  li_changes :: nat

record change_info =
  ci_modifications_needed :: "bool list"
  ci_moves_needed :: "bool list"
  ci_lists :: "list_info list"
  ci_tables :: "change_builder list"
  ci_column_indices :: "nat list list"
  ci_table_indices :: "nat list"
  ci_track_all :: bool
  ci_schema_changed :: bool

datatype builder_ref = TableBuilder nat | ListBuilder nat

record log_observer =
  ob_info :: change_info
  ob_builders :: "change_builder list"
  ob_current_table :: nat
  ob_active_list :: "builder_ref option"
  ob_active_table :: "builder_ref option"
  ob_active_descriptor :: "builder_ref option"
  ob_need_move_info :: bool
  ob_top_level :: bool

definition new_builder :: change_builder where
  "new_builder = builder_of [] [] [] []"

definition observer_init :: "change_info \<Rightarrow> change_builder list \<Rightarrow> log_observer" where
  "observer_init info bs =
     \<lparr>ob_info = info, ob_builders = bs, ob_current_table = 0, ob_active_list = None, ob_active_table = None,
      ob_active_descriptor = None, ob_need_move_info = False, ob_top_level = True\<rparr>"

text \<open>A change of the change information, of a builder behind a pointer, and of every tracked list.\<close>

definition on_info :: "(change_info \<Rightarrow> change_info) \<Rightarrow> log_observer \<Rightarrow> log_observer" where
  "on_info f ob = ob\<lparr>ob_info := f (ob_info ob)\<rparr>"

fun on_builder :: "(change_builder \<Rightarrow> change_builder) \<Rightarrow> builder_ref option \<Rightarrow> log_observer \<Rightarrow> log_observer" where
  "on_builder f None ob = ob"
| "on_builder f (Some (TableBuilder i)) ob =
     on_info (\<lambda>info. info\<lparr>ci_tables := (ci_tables info)[i := f (ci_tables info ! i)]\<rparr>) ob"
| "on_builder f (Some (ListBuilder k)) ob = ob\<lparr>ob_builders := (ob_builders ob)[k := f (ob_builders ob ! k)]\<rparr>"

definition on_lists :: "(list_info list \<Rightarrow> list_info list) \<Rightarrow> log_observer \<Rightarrow> log_observer" where
  "on_lists f = on_info (\<lambda>info. info\<lparr>ci_lists := f (ci_lists info)\<rparr>)"

text \<open>The tracked lists of the current table.\<close>

definition map_lists :: "(list_info \<Rightarrow> list_info) \<Rightarrow> log_observer \<Rightarrow> log_observer" where
  "map_lists f ob =
     on_lists (map (\<lambda>l. if li_table l = ob_current_table ob then f l else l)) ob"

definition on_active_table :: "(change_builder \<Rightarrow> change_builder) \<Rightarrow> log_observer \<Rightarrow> log_observer" where
  "on_active_table f ob = on_builder f (ob_active_table ob) ob"

definition on_active_list :: "(change_builder \<Rightarrow> change_builder) \<Rightarrow> log_observer \<Rightarrow> log_observer" where
  "on_active_list f ob = on_builder f (ob_active_list ob) ob"

text \<open>The last of the entries for a list.\<close>

definition find_list :: "nat \<Rightarrow> nat \<Rightarrow> nat \<Rightarrow> log_observer \<Rightarrow> builder_ref option" where
  "find_list tbl col row ob =
     map_option (\<lambda>l. ListBuilder (li_changes l))
       (List.find (\<lambda>l. li_table l = tbl \<and> li_row l = row \<and> li_col l = col) (rev (ci_lists (ob_info ob))))"

section \<open>Fields\<close>

definition mark_dirty :: "nat \<Rightarrow> nat \<Rightarrow> log_observer \<Rightarrow> log_observer" where
  "mark_dirty row col = on_active_table (\<lambda>b. cb_modify b row col)"

text \<open>\<open>MarkDirtyMixin\<close>: the cell that an operation marks, if it is a plain change.\<close>

definition dirty_if_set :: "nat \<Rightarrow> nat \<Rightarrow> instruction \<Rightarrow> (nat \<times> nat) option" where
  "dirty_if_set row col instr = (if instr = instr_Set then Some (row, col) else None)"

fun dirty_cell :: "field_op \<Rightarrow> (nat \<times> nat) option" where
  "dirty_cell (OpSetInt c r v i p) = dirty_if_set r c i"
| "dirty_cell (OpSetBool c r v i) = dirty_if_set r c i"
| "dirty_cell (OpSetFloat c r v i) = dirty_if_set r c i"
| "dirty_cell (OpSetDouble c r v i) = dirty_if_set r c i"
| "dirty_cell (OpSetString c r v i p) = dirty_if_set r c i"
| "dirty_cell (OpSetBinary c r v i) = dirty_if_set r c i"
| "dirty_cell (OpSetOldDateTime c r v i) = dirty_if_set r c i"
| "dirty_cell (OpSetTimestamp c r s n i) = dirty_if_set r c i"
| "dirty_cell (OpSetTable c r i) = dirty_if_set r c i"
| "dirty_cell (OpSetMixed c r v i) = dirty_if_set r c i"
| "dirty_cell (OpSetLink c r v g i) = dirty_if_set r c i"
| "dirty_cell (OpSetNull c r i p) = dirty_if_set r c i"
| "dirty_cell (OpAddInt c r v) = Some (r, c)"
| "dirty_cell (OpNullifyLink c r g) = Some (r, c)"
| "dirty_cell (OpInsertSubstring c r q s) = Some (r, c)"
| "dirty_cell (OpEraseSubstring c r q n) = Some (r, c)"

definition obs_field :: "field_op \<Rightarrow> log_observer \<Rightarrow> log_observer" where
  "obs_field p = (case dirty_cell p of None \<Rightarrow> (\<lambda>ob. ob) | Some (row, col) \<Rightarrow> mark_dirty row col)"

section \<open>Selections\<close>

definition obs_select_descriptor :: "nat list \<Rightarrow> log_observer \<Rightarrow> log_observer" where
  "obs_select_descriptor path ob =
     ob\<lparr>ob_active_descriptor := (if length path = 0 then ob_active_table ob else None)\<rparr>"

definition obs_select_table :: "nat \<Rightarrow> (nat \<times> nat) list \<Rightarrow> log_observer \<Rightarrow> log_observer" where
  "obs_select_table group_level_ndx path ob0 =
     (let ob = ob0\<lparr>ob_current_table := group_level_ndx, ob_active_table := None, ob_top_level := True\<rparr>;
          info = ob_info ob; t = group_level_ndx
      in if length path > 1 then ob\<lparr>ob_top_level := False\<rparr>
         else if \<not> ci_track_all info \<and>
             (t \<ge> length (ci_modifications_needed info) \<or> \<not> ci_modifications_needed info ! t) then ob
         else
           let ob1 = ob\<lparr>ob_need_move_info :=
                          ci_track_all info \<or> t < length (ci_moves_needed info) \<and> ci_moves_needed info ! t\<rparr>;
               ob2 = (if length (ci_tables info) \<le> t
                      then on_info (\<lambda>info. info\<lparr>ci_tables :=
                             resize_to (max (length (ci_tables info) * 2) (t + 1)) new_builder (ci_tables info)\<rparr>) ob1
                      else ob1);
               ob3 = ob2\<lparr>ob_active_table := Some (TableBuilder t)\<rparr>
           in case path of
                [(col, row)] \<Rightarrow>
                  let ob4 = (mark_dirty row col ob3)\<lparr>ob_active_table := None, ob_top_level := False\<rparr>
                  in (case find_list t col row ob4 of
                        None \<Rightarrow> ob4
                      | Some b \<Rightarrow> ob4\<lparr>ob_active_table := Some b, ob_need_move_info := True\<rparr>)
              | _ \<Rightarrow> ob3)"

definition obs_select_link_list :: "nat \<Rightarrow> nat \<Rightarrow> log_observer \<Rightarrow> log_observer" where
  "obs_select_link_list col row ob0 =
     (let ob = mark_dirty row col ob0
      in ob\<lparr>ob_active_list := find_list (ob_current_table ob) col row ob\<rparr>)"

section \<open>Link lists\<close>

definition obs_link_list_set :: "nat \<Rightarrow> log_observer \<Rightarrow> log_observer" where
  "obs_link_list_set index = on_active_list (\<lambda>b. cb_modify b index npos)"

definition obs_link_list_insert :: "nat \<Rightarrow> log_observer \<Rightarrow> log_observer" where
  "obs_link_list_insert index = on_active_list (\<lambda>b. cb_insert b index 1 True)"

definition obs_link_list_erase :: "nat \<Rightarrow> log_observer \<Rightarrow> log_observer" where
  "obs_link_list_erase index = on_active_list (\<lambda>b. cb_erase b index)"

definition obs_link_list_nullify :: "nat \<Rightarrow> log_observer \<Rightarrow> log_observer" where
  "obs_link_list_nullify index = obs_link_list_erase index"

definition obs_link_list_swap :: "nat \<Rightarrow> nat \<Rightarrow> log_observer \<Rightarrow> log_observer" where
  "obs_link_list_swap index1 index2 ob = obs_link_list_set index2 (obs_link_list_set index1 ob)"

definition obs_link_list_clear :: "nat \<Rightarrow> log_observer \<Rightarrow> log_observer" where
  "obs_link_list_clear old_size = on_active_list (\<lambda>b. cb_clear b old_size)"

definition obs_link_list_move :: "nat \<Rightarrow> nat \<Rightarrow> log_observer \<Rightarrow> log_observer" where
  "obs_link_list_move from to = on_active_list (\<lambda>b. cb_move b from to)"

fun obs_link_list :: "link_list_op \<Rightarrow> log_observer \<Rightarrow> log_observer" where
  "obs_link_list (OpLinkListSet i v n) = obs_link_list_set i"
| "obs_link_list (OpLinkListInsert i v n) = obs_link_list_insert i"
| "obs_link_list (OpLinkListMove i j) = obs_link_list_move i j"
| "obs_link_list (OpLinkListSwap i j) = obs_link_list_swap i j"
| "obs_link_list (OpLinkListErase i n) = obs_link_list_erase i"
| "obs_link_list (OpLinkListNullify i n) = obs_link_list_nullify i"
| "obs_link_list (OpLinkListClear n) = obs_link_list_clear n"

section \<open>Rows\<close>

definition obs_insert_empty_rows :: "nat \<Rightarrow> nat \<Rightarrow> log_observer \<Rightarrow> log_observer" where
  "obs_insert_empty_rows row_ndx n ob0 =
     (let ob = on_active_table (\<lambda>b. cb_insert b row_ndx n (ob_need_move_info ob0)) ob0
      in if \<not> ob_top_level ob then ob
         else map_lists (\<lambda>l. if li_row l \<ge> row_ndx then l\<lparr>li_row := li_row l + n\<rparr> else l) ob)"

definition obs_add_row_with_key :: "nat \<Rightarrow> log_observer \<Rightarrow> log_observer" where
  "obs_add_row_with_key row_ndx = obs_insert_empty_rows row_ndx 1"

text \<open>The loop over the tracked lists: the entry of an erased row is overwritten by the last entry, and
  the loop goes on behind it.\<close>

function erase_lists :: "nat \<Rightarrow> nat \<Rightarrow> nat \<Rightarrow> list_info list \<Rightarrow> list_info list" where
  "erase_lists tbl row_ndx last_row [] = []"
| "erase_lists tbl row_ndx last_row (l # ls) =
     (if li_table l \<noteq> tbl then l # erase_lists tbl row_ndx last_row ls
      else if li_row l = row_ndx then
        (if ls = [] then [] else last ls # erase_lists tbl row_ndx last_row (butlast ls))
      else (if li_row l = last_row then l\<lparr>li_row := row_ndx\<rparr> else l) # erase_lists tbl row_ndx last_row ls)"
  by pat_completeness auto
termination
  by (relation "measure (\<lambda>(t, r, l, ls). length ls)") auto

definition obs_erase_rows :: "nat \<Rightarrow> nat \<Rightarrow> bool \<Rightarrow> log_observer \<Rightarrow> log_observer" where
  "obs_erase_rows row_ndx prior_num_rows unordered ob0 =
     (if \<not> unordered then on_active_table (\<lambda>b. cb_erase b row_ndx) ob0
      else
        let last_row = sub_size prior_num_rows 1;
            ob = on_active_table (\<lambda>b. cb_move_over b row_ndx last_row (ob_need_move_info ob0)) ob0
        in if \<not> ob_top_level ob then ob
           else on_lists (erase_lists (ob_current_table ob) row_ndx last_row) ob)"

definition obs_swap_rows :: "nat \<Rightarrow> nat \<Rightarrow> log_observer \<Rightarrow> log_observer" where
  "obs_swap_rows r1 r2 ob0 =
     (if \<not> ob_top_level ob0 then
        let ob = on_active_table (\<lambda>b. cb_move b r1 r2) ob0
        in if r1 + 1 \<noteq> r2 then on_active_table (\<lambda>b. cb_move b (r2 - 1) r1) ob else ob
      else
        let ob = on_active_table (\<lambda>b. cb_swap b r1 r2 (ob_need_move_info ob0)) ob0
        in map_lists (\<lambda>l. if li_row l = r1 then l\<lparr>li_row := r2\<rparr>
                          else if li_row l = r2 then l\<lparr>li_row := r1\<rparr> else l) ob)"

definition obs_move_row :: "nat \<Rightarrow> nat \<Rightarrow> log_observer \<Rightarrow> log_observer" where
  "obs_move_row from to = on_active_table (\<lambda>b. cb_move b from to)"

definition obs_merge_rows :: "nat \<Rightarrow> nat \<Rightarrow> log_observer \<Rightarrow> log_observer" where
  "obs_merge_rows from to ob0 =
     (let ob = on_active_table (\<lambda>b. cb_subsume b from to (ob_need_move_info ob0)) ob0
      in if \<not> ob_top_level ob then ob
         else map_lists (\<lambda>l. if li_row l = from then l\<lparr>li_row := to\<rparr> else l) ob)"

definition obs_clear_table :: "log_observer \<Rightarrow> log_observer" where
  "obs_clear_table ob0 =
     (let ob = on_active_table (\<lambda>b. cb_clear b npos) ob0
      in if \<not> ob_top_level ob then ob
         else on_lists (filter (\<lambda>l. li_table l \<noteq> ob_current_table ob)) ob)"

fun obs_row :: "row_op \<Rightarrow> log_observer \<Rightarrow> log_observer" where
  "obs_row (OpInsertEmptyRows r n p u) = obs_insert_empty_rows r n"
| "obs_row (OpAddRowWithKey r p c k) = obs_add_row_with_key r"
| "obs_row (OpEraseRows r n p u) = obs_erase_rows r p u"
| "obs_row (OpSwapRows r q) = obs_swap_rows r q"
| "obs_row (OpMoveRow r q) = obs_move_row r q"
| "obs_row (OpMergeRows r q) = obs_merge_rows r q"
| "obs_row (OpClearTable n) = obs_clear_table"
| "obs_row OpOptimizeTable = (\<lambda>ob. ob)"

section \<open>Columns and tables\<close>

definition schema_changed :: "log_observer \<Rightarrow> log_observer" where
  "schema_changed = on_info (\<lambda>info. info\<lparr>ci_schema_changed := True\<rparr>)"

definition on_column_indices :: "(nat list \<Rightarrow> nat list) \<Rightarrow> log_observer \<Rightarrow> log_observer" where
  "on_column_indices f ob =
     on_info (\<lambda>info.
       let t = ob_current_table ob;
           ci = (if length (ci_column_indices info) \<le> t then resize_to (t + 1) [] (ci_column_indices info)
                 else ci_column_indices info)
       in info\<lparr>ci_column_indices := ci[t := f (ci ! t)]\<rparr>) ob"

definition obs_insert_column :: "nat \<Rightarrow> log_observer \<Rightarrow> log_observer" where
  "obs_insert_column ndx ob0 =
     (let ob = on_builder (\<lambda>b. insert_column b ndx) (ob_active_descriptor ob0) (schema_changed ob0)
      in if ob_active_descriptor ob \<noteq> ob_active_table ob \<or> \<not> ob_top_level ob then ob
         else
           on_column_indices (\<lambda>indices. (insert_empty_at 0 (expand_to indices ndx) ndx)[ndx := npos])
             (map_lists (\<lambda>l. if li_col l \<ge> ndx then l\<lparr>li_col := li_col l + 1\<rparr> else l) ob))"

definition obs_move_column :: "nat \<Rightarrow> nat \<Rightarrow> log_observer \<Rightarrow> log_observer" where
  "obs_move_column from to ob0 =
     (let ob = on_builder (\<lambda>b. move_column b from to) (ob_active_descriptor ob0) (schema_changed ob0)
      in if ob_active_descriptor ob \<noteq> ob_active_table ob \<or> \<not> ob_top_level ob then ob
         else
           on_column_indices (\<lambda>indices. rotate_to 0 (expand_to indices (max from to + 1)) from to)
             (map_lists (\<lambda>l. l\<lparr>li_col := adjust_for_move (li_col l) from to\<rparr>) ob))"

definition prepare_table_indices :: "change_info \<Rightarrow> change_info" where
  "prepare_table_indices info =
     (if ci_table_indices info = [] \<and> ci_modifications_needed info \<noteq> []
      then info\<lparr>ci_table_indices := [0 ..< length (ci_modifications_needed info)]\<rparr> else info)"

definition obs_insert_group_level_table :: "nat \<Rightarrow> log_observer \<Rightarrow> log_observer" where
  "obs_insert_group_level_table ndx ob =
     on_info (\<lambda>info0.
       let info = prepare_table_indices
             (info0\<lparr>ci_lists := map (\<lambda>l. if li_table l \<ge> ndx then l\<lparr>li_table := li_table l + 1\<rparr> else l) (ci_lists info0)\<rparr>)
       in info\<lparr>ci_table_indices := adjust_ge (ci_table_indices info) ndx,
               ci_tables := insert_empty_at new_builder (ci_tables info) ndx,
               ci_moves_needed := insert_empty_at False (ci_moves_needed info) ndx,
               ci_modifications_needed := insert_empty_at False (ci_modifications_needed info) ndx\<rparr>)
       (schema_changed ob)"

definition obs_move_group_level_table :: "nat \<Rightarrow> nat \<Rightarrow> log_observer \<Rightarrow> log_observer" where
  "obs_move_group_level_table from to ob =
     on_info (\<lambda>info0.
       let info = prepare_table_indices
             (info0\<lparr>ci_lists := map (\<lambda>l. l\<lparr>li_table := adjust_for_move (li_table l) from to\<rparr>) (ci_lists info0)\<rparr>)
       in info\<lparr>ci_table_indices := map (\<lambda>v. adjust_for_move v from to) (ci_table_indices info),
               ci_tables := rotate_to new_builder (ci_tables info) from to,
               ci_modifications_needed := rotate_to False (ci_modifications_needed info) from to,
               ci_moves_needed := rotate_to False (ci_moves_needed info) from to\<rparr>)
       (schema_changed ob)"

section \<open>The two handlers\<close>

datatype handler_error = UnsupportedSchemaChange

text \<open>\<open>TransactLogValidationMixin\<close>: removing or renaming is never supported.\<close>

fun supported :: "operation \<Rightarrow> bool" where
  "supported (GroupOp (OpEraseGroupLevelTable t n)) = False"
| "supported (GroupOp (OpRenameGroupLevelTable t s)) = False"
| "supported (ColumnOp (OpEraseColumn c)) = False"
| "supported (ColumnOp (OpEraseLinkColumn c g b)) = False"
| "supported (ColumnOp (OpRenameColumn c s)) = False"
| "supported p = True"

fun validate_op :: "operation \<Rightarrow> nat \<Rightarrow> handler_error + nat" where
  "validate_op p current_table =
     (if \<not> supported p then Inl UnsupportedSchemaChange
      else case p of GroupOp (OpSelectTable g path) \<Rightarrow> Inr g | _ \<Rightarrow> Inr current_table)"

fun observe_op :: "operation \<Rightarrow> log_observer \<Rightarrow> handler_error + log_observer" where
  "observe_op (GroupOp (OpSelectTable g path)) ob = Inr (obs_select_table g path ob)"
| "observe_op (GroupOp (OpSelectDescriptor path)) ob = Inr (obs_select_descriptor path ob)"
| "observe_op (GroupOp (OpSelectLinkList c r g)) ob = Inr (obs_select_link_list c r ob)"
| "observe_op (GroupOp (OpInsertGroupLevelTable t n s)) ob = Inr (obs_insert_group_level_table t ob)"
| "observe_op (RowOp p) ob = Inr (obs_row p ob)"
| "observe_op (FieldOp p) ob = Inr (obs_field p ob)"
| "observe_op (LinkListOp p) ob = Inr (obs_link_list p ob)"
| "observe_op (ColumnOp (OpInsertColumn c t s u)) ob = Inr (obs_insert_column c ob)"
| "observe_op (ColumnOp (OpInsertLinkColumn c t s g b)) ob = Inr (obs_insert_column c ob)"
| "observe_op p ob = (if supported p then Inr ob else Inl UnsupportedSchemaChange)"

text \<open>A handler for the parser from operations that throw: after the exception nothing is handled.\<close>

definition throwing :: "(operation \<Rightarrow> 'o \<Rightarrow> 'e + 'o) \<Rightarrow> operation \<Rightarrow> 'e + 'o \<Rightarrow> ('e + 'o) \<times> bool" where
  "throwing op p h =
     (case h of
        Inl e \<Rightarrow> (Inl e, False)
      | Inr ob \<Rightarrow> (case op p ob of Inl e \<Rightarrow> (Inl e, False) | Inr ob' \<Rightarrow> (Inr ob', True)))"

definition observer_complete :: "log_observer \<Rightarrow> log_observer" where
  "observer_complete ob =
     (let info = (ob_info ob)\<lparr>ci_tables := map parse_complete (ci_tables (ob_info ob))\<rparr>
      in ob\<lparr>ob_info := info,
            ob_builders := fold (\<lambda>l bs. bs[li_changes l := clean_up_stale_moves (bs ! li_changes l)])
              (ci_lists info) (ob_builders ob)\<rparr>)"

end
