(* ===== verification/LogObserverCorrect.thy ===== *)
theory LogObserverCorrect
  imports LogObserver ChangeRuns TransactLog
begin

text \<open>
  What the observer of a log makes of the edits behind its operations. A log of one table, or of one list,
  holds operations for the edits and others that do not concern the builder which is watched
  (\<open>logs_edits\<close>); the locale \<open>observed_edits\<close> says what a builder that is fed by the observer must satisfy,
  and is interpreted for the builder of a table and the builder of a list.
\<close>

section \<open>Running the observer\<close>

fun throwing_ops :: "(operation \<Rightarrow> 'o \<Rightarrow> 'e + 'o) \<Rightarrow> operation list \<Rightarrow> 'o \<Rightarrow> 'e + 'o" where
  "throwing_ops op [] ob = Inr ob"
| "throwing_ops op (p # ps) ob = (case op p ob of Inl e \<Rightarrow> Inl e | Inr ob' \<Rightarrow> throwing_ops op ps ob')"

lemma replay_throwing:
  "replay (throwing op) ps (Inr ob) =
     (throwing_ops op ps ob, case throwing_ops op ps ob of Inl e \<Rightarrow> Some BadTransactLog | Inr ob' \<Rightarrow> None)"
  by (induction ps arbitrary: ob) (auto simp: throwing_def split: sum.splits)

lemma observe_supported: "observe_op p ob = (if supported p then Inr (projr (observe_op p ob)) else Inl UnsupportedSchemaChange)"
  by (cases "(p, ob)" rule: observe_op.cases) auto

lemma validate_supported: "validate_op p t = (if supported p then Inr (projr (validate_op p t)) else Inl UnsupportedSchemaChange)"
  by (auto split: operation.splits group_op.splits)

lemma throwing_supported:
  assumes "\<And>p ob. op p ob = (if supported p then Inr (projr (op p ob)) else Inl UnsupportedSchemaChange)"
  shows "throwing_ops op ps ob =
    (if list_all supported ps then Inr (fold (\<lambda>p ob. projr (op p ob)) ps ob) else Inl UnsupportedSchemaChange)"
proof (induction ps arbitrary: ob)
  case Nil
  then show ?case by simp
next
  case (Cons p ps)
  show ?case
  proof (cases "supported p")
    case True
    then obtain ob' where "op p ob = Inr ob'" using assms[of p ob] by simp
    then show ?thesis using Cons.IH[of ob'] True by simp
  next
    case False
    then have "op p ob = Inl UnsupportedSchemaChange" using assms[of p ob] by simp
    then show ?thesis using False by simp
  qed
qed

section \<open>Edits behind operations\<close>

inductive logs_edits ::
  "('e \<Rightarrow> 'r list \<Rightarrow> 'r list) \<Rightarrow> ('e \<Rightarrow> nat \<Rightarrow> operation \<Rightarrow> bool) \<Rightarrow> (operation \<Rightarrow> bool) \<Rightarrow>
   'e list \<Rightarrow> 'r list \<Rightarrow> operation list \<Rightarrow> bool"
  for edit edit_op neutral
where
  no_ops: "logs_edits edit edit_op neutral [] ys []"
| edit_logged: "edit_op e (length ys) p \<Longrightarrow> logs_edits edit edit_op neutral es (edit e ys) ps \<Longrightarrow>
    logs_edits edit edit_op neutral (e # es) ys (p # ps)"
| skip_op: "neutral p \<Longrightarrow> logs_edits edit edit_op neutral es ys ps \<Longrightarrow>
    logs_edits edit edit_op neutral es ys (p # ps)"

locale observed_edits =
  fixes edit :: "'e \<Rightarrow> 'r list \<Rightarrow> 'r list"
    and rec :: "'e \<Rightarrow> nat \<Rightarrow> change_builder \<Rightarrow> change_builder"
    and edit_op :: "'e \<Rightarrow> nat \<Rightarrow> operation \<Rightarrow> bool"
    and neutral :: "operation \<Rightarrow> bool"
    and watching :: "change_builder \<Rightarrow> log_observer \<Rightarrow> bool"
  assumes watch_edit: "watching b ob \<Longrightarrow> edit_op e n p \<Longrightarrow>
      \<exists>ob'. observe_op p ob = Inr ob' \<and> watching (rec e n b) ob'"
    and watch_skip: "watching b ob \<Longrightarrow> neutral p \<Longrightarrow> \<exists>ob'. observe_op p ob = Inr ob' \<and> watching b ob'"
begin

lemma observed:
  "logs_edits edit edit_op neutral es ys ps \<Longrightarrow> watching b ob \<Longrightarrow>
   \<exists>ob'. throwing_ops observe_op ps ob = Inr ob' \<and> watching (run_record edit rec es ys b) ob'"
proof (induction arbitrary: b ob rule: logs_edits.induct)
  case (no_ops ys)
  then show ?case by simp
next
  case (edit_logged e ys p es ps)
  then show ?case using watch_edit[OF edit_logged.prems edit_logged.hyps(1)] by fastforce
next
  case (skip_op p es ys ps)
  then show ?case using watch_skip[OF skip_op.prems skip_op.hyps(1)] by fastforce
qed

end

section \<open>The builder of a table\<close>

definition watching_table :: "nat \<Rightarrow> change_builder \<Rightarrow> log_observer \<Rightarrow> bool" where
  "watching_table t b ob \<longleftrightarrow>
     ob_active_table ob = Some (TableBuilder t) \<and> ob_current_table ob = t \<and> ob_top_level ob \<and>
     ob_need_move_info ob \<and> t < length (ci_tables (ob_info ob)) \<and> ci_tables (ob_info ob) ! t = b \<and>
     (\<forall>i. ob_active_list ob \<noteq> Some (TableBuilder i))"

fun table_edit_op :: "'a table_edit \<Rightarrow> nat \<Rightarrow> operation \<Rightarrow> bool" where
  "table_edit_op (AppendRows rs) n (RowOp (OpInsertEmptyRows r k p u)) \<longleftrightarrow> r = n \<and> k = length rs"
| "table_edit_op (AppendRows rs) n (RowOp (OpAddRowWithKey r p c k)) \<longleftrightarrow> r = n \<and> length rs = 1"
| "table_edit_op (MoveLastOver i) n (RowOp (OpEraseRows r k p u)) \<longleftrightarrow> r = i \<and> p = n \<and> u \<and> 0 < n"
| "table_edit_op (SwapRows i j) n (RowOp (OpSwapRows r q)) \<longleftrightarrow> r = i \<and> q = j"
| "table_edit_op (SetRow i c) n (FieldOp f) \<longleftrightarrow> dirty_cell f = Some (i, c)"
| "table_edit_op (SetRow i c) n (GroupOp (OpSelectLinkList k r g)) \<longleftrightarrow> r = i \<and> k = c"
| "table_edit_op e n p \<longleftrightarrow> False"

fun table_neutral :: "operation \<Rightarrow> bool" where
  "table_neutral (GroupOp (OpSelectDescriptor path)) = True"
| "table_neutral (RowOp OpOptimizeTable) = True"
| "table_neutral (FieldOp f) = (dirty_cell f = None)"
| "table_neutral (ColumnOp (OpAddSearchIndex c)) = True"
| "table_neutral (ColumnOp (OpRemoveSearchIndex c)) = True"
| "table_neutral (ColumnOp (OpSetLinkType c t)) = True"
| "table_neutral (LinkListOp q) = True"
| "table_neutral p = False"

lemmas observer_defs =
  on_info_def on_lists_def map_lists_def on_active_table_def on_active_list_def mark_dirty_def
  obs_insert_empty_rows_def obs_add_row_with_key_def obs_erase_rows_def obs_swap_rows_def obs_move_row_def
  obs_merge_rows_def obs_clear_table_def obs_link_list_set_def obs_link_list_insert_def
  obs_link_list_erase_def obs_link_list_nullify_def obs_link_list_swap_def obs_link_list_clear_def
  obs_link_list_move_def obs_select_link_list_def obs_select_descriptor_def obs_field_def

lemma find_list_is_list: "find_list t c r ob \<noteq> Some (TableBuilder i)"
  by (simp add: find_list_def)

lemma watching_active_list: "watching_table t b ob \<Longrightarrow> watching_table t b (on_active_list f ob)"
  by (cases "ob_active_list ob"; cases "the (ob_active_list ob)")
    (auto simp: watching_table_def on_active_list_def)

lemma watching_link_list: "watching_table t b ob \<Longrightarrow> watching_table t b (obs_link_list q ob)"
  by (cases q)
    (simp_all add: obs_link_list_set_def obs_link_list_insert_def obs_link_list_erase_def obs_link_list_nullify_def
      obs_link_list_swap_def obs_link_list_clear_def obs_link_list_move_def watching_active_list)

lemma watching_table_edit:
  assumes "watching_table t b ob" "table_edit_op e n p"
  shows "\<exists>ob'. observe_op p ob = Inr ob' \<and> watching_table t (record_table e n b) ob'"
  using assms
  by (cases "(e, n, p)" rule: table_edit_op.cases)
    (auto simp: watching_table_def observer_defs Let_def sub_size_def find_list_is_list)

lemma watching_table_skip:
  assumes "watching_table t b ob" "table_neutral p"
  shows "\<exists>ob'. observe_op p ob = Inr ob' \<and> watching_table t b ob'"
proof (cases "\<exists>q. p = LinkListOp q")
  case True
  then obtain q where q: "p = LinkListOp q" by blast
  show ?thesis
    using watching_link_list[OF assms(1), of q] by (simp add: q)
next
  case False
  then show ?thesis
    using assms by (cases p rule: table_neutral.cases) (auto simp: watching_table_def observer_defs)
qed

interpretation table_log: observed_edits table_rows record_table table_edit_op table_neutral "watching_table t" for t
  by unfold_locales (rule watching_table_edit watching_table_skip; assumption)+

definition tracked :: "nat \<Rightarrow> change_info \<Rightarrow> bool" where
  "tracked t info \<longleftrightarrow> ci_track_all info \<or>
     t < length (ci_modifications_needed info) \<and> ci_modifications_needed info ! t \<and>
     t < length (ci_moves_needed info) \<and> ci_moves_needed info ! t"

definition unchanged :: "nat \<Rightarrow> change_info \<Rightarrow> bool" where
  "unchanged t info \<longleftrightarrow> (t < length (ci_tables info) \<longrightarrow> ci_tables info ! t = new_builder)"

lemma length_resize_to [simp]: "length (resize_to n x xs) = n"
  by (simp add: resize_to_def)

lemma nth_resize_to: "i < n \<Longrightarrow> resize_to n x xs ! i = (if i < length xs then xs ! i else x)"
  by (auto simp: resize_to_def nth_append min_def)

lemma watching_selected:
  assumes "tracked t (ob_info ob)" "unchanged t (ob_info ob)" "\<forall>i. ob_active_list ob \<noteq> Some (TableBuilder i)"
  shows "watching_table t new_builder (obs_select_table t [] ob)"
  using assms
  by (auto simp: watching_table_def obs_select_table_def tracked_def unchanged_def on_info_def Let_def nth_resize_to)

lemma complete_tables: "t < length (ci_tables (ob_info ob)) \<Longrightarrow>
    ci_tables (ob_info (observer_complete ob)) ! t = parse_complete (ci_tables (ob_info ob) ! t)"
  by (simp add: observer_complete_def Let_def)

section \<open>The builder of a list\<close>

definition watching_list :: "nat \<Rightarrow> change_builder \<Rightarrow> log_observer \<Rightarrow> bool" where
  "watching_list k b ob \<longleftrightarrow>
     ob_active_list ob = Some (ListBuilder k) \<and> k < length (ob_builders ob) \<and> ob_builders ob ! k = b \<and>
     ob_active_table ob \<noteq> Some (ListBuilder k)"

fun list_edit_op :: "'a list_edit \<Rightarrow> nat \<Rightarrow> operation \<Rightarrow> bool" where
  "list_edit_op (InsertRows i rs) n (LinkListOp (OpLinkListInsert j v m)) \<longleftrightarrow> j = i \<and> length rs = 1"
| "list_edit_op (EraseRow i) n (LinkListOp (OpLinkListErase j m)) \<longleftrightarrow> j = i"
| "list_edit_op (EraseRow i) n (LinkListOp (OpLinkListNullify j m)) \<longleftrightarrow> j = i"
| "list_edit_op (MoveRow f t) n (LinkListOp (OpLinkListMove i j)) \<longleftrightarrow> i = f \<and> j = t"
| "list_edit_op ClearRows n (LinkListOp (OpLinkListClear m)) \<longleftrightarrow> m = n"
| "list_edit_op (ModifyRow i c) n (LinkListOp (OpLinkListSet j v m)) \<longleftrightarrow> j = i \<and> c = npos"
| "list_edit_op e n p \<longleftrightarrow> False"

text \<open>Changes of rows and of fields do not touch the list that is selected.\<close>

fun list_neutral :: "operation \<Rightarrow> bool" where
  "list_neutral (GroupOp (OpSelectTable g [])) = True"
| "list_neutral (GroupOp (OpSelectDescriptor path)) = True"
| "list_neutral (RowOp p) = True"
| "list_neutral (FieldOp f) = True"
| "list_neutral p = False"

lemma watching_list_edit:
  assumes "watching_list k b ob" "list_edit_op e n p"
  shows "\<exists>ob'. observe_op p ob = Inr ob' \<and> watching_list k (record_list e n b) ob'"
  using assms
  by (cases "(e, n, p)" rule: list_edit_op.cases)
    (auto simp: watching_list_def observer_defs)

lemma watching_on_info [simp]: "watching_list k b (on_info f ob) \<longleftrightarrow> watching_list k b ob"
  by (simp add: watching_list_def on_info_def)

lemma watching_map_lists [simp]: "watching_list k b (map_lists f ob) \<longleftrightarrow> watching_list k b ob"
  by (simp add: map_lists_def on_lists_def)

lemma watching_on_lists [simp]: "watching_list k b (on_lists f ob) \<longleftrightarrow> watching_list k b ob"
  by (simp add: on_lists_def)

lemma watching_active_table: "watching_list k b ob \<Longrightarrow> watching_list k b (on_active_table f ob)"
  by (cases "ob_active_table ob"; cases "the (ob_active_table ob)")
    (auto simp: watching_list_def on_active_table_def on_info_def)

lemma watching_list_row: "watching_list k b ob \<Longrightarrow> watching_list k b (obs_row p ob)"
  by (cases p)
    (auto simp: obs_insert_empty_rows_def obs_add_row_with_key_def obs_erase_rows_def obs_swap_rows_def
      obs_move_row_def obs_merge_rows_def obs_clear_table_def Let_def watching_active_table)

lemma watching_list_skip:
  assumes "watching_list k b ob" "list_neutral p"
  shows "\<exists>ob'. observe_op p ob = Inr ob' \<and> watching_list k b ob'"
proof (cases p rule: list_neutral.cases)
  case (1 g)
  then show ?thesis
    using assms by (auto simp: watching_list_def obs_select_table_def Let_def on_info_def)
next
  case (4 f)
  then show ?thesis
    using assms by (auto simp: obs_field_def mark_dirty_def watching_active_table split: option.splits)
qed (use assms watching_list_row in \<open>auto simp: watching_list_def obs_select_descriptor_def\<close>)

interpretation list_log: observed_edits list_rows record_list list_edit_op list_neutral "watching_list k" for k
  by unfold_locales (rule watching_list_edit watching_list_skip; assumption)+

end
