(* ===== verification/LogObserverProps.thy ===== *)
theory LogObserverProps
  imports LogObserverCorrect ChangeProps
begin

text \<open>
  The properties of the observer, from the bytes of a log to the change sets: what it reports for a table
  and for a list, which rows its lists belong to, and which logs it refuses.
\<close>

section \<open>From bytes to the observer\<close>

lemma observed_log:
  assumes "list_all op_ok ps" "concat blocks = concat (map op_bytes ps)"
    "throwing_ops observe_op (map stored ps) ob = Inr ob'"
  shows "parse multi_next (throwing observe_op) (multi_init blocks) (Inr ob) = Some (Inr ob', None)"
  using multi_blocks.parse_ops[OF assms(1), of "multi_init blocks" "throwing observe_op" "Inr ob"] assms(2,3)
  by (simp add: multi_yields_def multi_init_def replay_throwing)

lemma stored_group [simp]: "stored (GroupOp g) = GroupOp g"
  by simp

definition clean_lists :: "list_info list \<Rightarrow> change_builder list \<Rightarrow> change_builder list" where
  "clean_lists ls = fold (\<lambda>l bs. bs[li_changes l := clean_up_stale_moves (bs ! li_changes l)]) ls"

lemma clean_lists_describes:
  "describes (bs ! k) xs ys \<Longrightarrow> move_mapping (bs ! k) = [] \<Longrightarrow> k < length bs \<Longrightarrow>
   describes (clean_lists ls bs ! k) xs ys \<and> modifications (clean_lists ls bs ! k) = modifications (bs ! k)"
proof (induction ls arbitrary: bs)
  case Nil
  then show ?case by (simp add: clean_lists_def)
next
  case (Cons l ls)
  let ?bs = "bs[li_changes l := clean_up_stale_moves (bs ! li_changes l)]"
  have "describes (?bs ! k) xs ys \<and> move_mapping (?bs ! k) = [] \<and> modifications (?bs ! k) = modifications (bs ! k)"
    using Cons.prems clean_up_describes[OF Cons.prems(1,2)] by (cases "li_changes l = k") simp_all
  then show ?case using Cons.IH[of ?bs] Cons.prems(3) by (simp add: clean_lists_def)
qed

section \<open>The rows of tracked lists\<close>

definition list_owners :: "nat \<Rightarrow> 'a list \<Rightarrow> list_info list \<Rightarrow> (nat \<times> 'a option \<times> nat \<times> nat) list" where
  "list_owners t ys ls =
     map (\<lambda>l. (li_table l, if li_table l = t then Some (ys ! li_row l) else None, li_col l, li_changes l)) ls"

definition lists_in_range :: "nat \<Rightarrow> nat \<Rightarrow> list_info list \<Rightarrow> bool" where
  "lists_in_range t n ls \<longleftrightarrow> list_all (\<lambda>l. li_table l = t \<longrightarrow> li_row l < n) ls"


definition follows :: "nat \<Rightarrow> (nat \<times> 'a option \<times> nat \<times> nat) list \<Rightarrow> 'a list \<Rightarrow> log_observer \<Rightarrow> bool" where
  "follows t owners ys ob \<longleftrightarrow>
     ob_current_table ob = t \<and> ob_top_level ob \<and> lists_in_range t (length ys) (ci_lists (ob_info ob)) \<and>
     list_owners t ys (ci_lists (ob_info ob)) = owners"

lemma lists_on_builder [simp]:
  "ci_lists (ob_info (on_builder f r ob)) = ci_lists (ob_info ob)"
  "ob_current_table (on_builder f r ob) = ob_current_table ob"
  "ob_top_level (on_builder f r ob) = ob_top_level ob"
  "ob_active_list (on_builder f r ob) = ob_active_list ob"
  "ob_active_table (on_builder f r ob) = ob_active_table ob"
  by (cases "(f, r, ob)" rule: on_builder.cases; simp add: on_info_def)+






lemma follows_active [simp]:
  "follows t owners ys (on_active_table f ob) \<longleftrightarrow> follows t owners ys ob"
  "follows t owners ys (on_active_list f ob) \<longleftrightarrow> follows t owners ys ob"
  by (simp_all add: follows_def on_active_table_def on_active_list_def)

lemma follows_active_list [simp]: "follows t owners ys (ob\<lparr>ob_active_list := x\<rparr>) \<longleftrightarrow> follows t owners ys ob"
  by (simp add: follows_def)

lemma follows_descriptor [simp]: "follows t owners ys (ob\<lparr>ob_active_descriptor := x\<rparr>) \<longleftrightarrow> follows t owners ys ob"
  by (simp add: follows_def)





section \<open>Recorded logs\<close>

definition recorded_log :: "(group_op \<Rightarrow> arg list) \<Rightarrow> operation list \<Rightarrow> byte list list \<Rightarrow> bool" where
  "recorded_log sel ps blocks \<longleftrightarrow>
     selections sel \<and> list_all op_ok ps \<and>
     (case record_ops sel buffer_stream_reserve ps \<lparr>enc_log = [], enc_free = 0\<rparr> of
        Inl err \<Rightarrow> False
      | Inr e \<Rightarrow> concat blocks = enc_log e)"

lemma recorded_log_parse:
  assumes "recorded_log sel ps blocks"
  shows "parse multi_next handler (multi_init blocks) h = Some (replay handler (map stored ps) h)"
proof -
  have r: "selections sel" "list_all op_ok ps" using assms by (simp_all add: recorded_log_def)
  obtain e where e: "record_ops sel buffer_stream_reserve ps \<lparr>enc_log = [], enc_free = 0\<rparr> = Inr e" "concat blocks = enc_log e"
    using assms by (auto simp: recorded_log_def split: sum.splits)
  have "enc_log e = concat (map op_bytes ps)"
    using buffer_stream.record_ops_ok[OF r, of "\<lparr>enc_log = [], enc_free = 0\<rparr>"] e(1) by (auto simp: sized_def)
  then show ?thesis
    using e(2) by (intro multi_blocks.parse_ops[OF r(2)]) (simp add: multi_yields_def multi_init_def)
qed

lemma recorded_log_observed:
  assumes "recorded_log sel ps blocks" "throwing_ops observe_op (map stored ps) ob = Inr ob'"
  shows "parse multi_next (throwing observe_op) (multi_init blocks) (Inr ob) = Some (Inr ob', None)"
  using recorded_log_parse[OF assms(1), of "throwing observe_op" "Inr ob"] assms(2) by (simp add: replay_throwing)

lemma table_tracks_builder: "list_all (\<lambda>r. \<not> snd r) xs \<Longrightarrow> table_tracks new_builder xs xs"
  unfolding new_builder_def by (rule table_tracks_new)

lemma list_tracks_builder: "list_all (\<lambda>r. \<not> snd r) xs \<Longrightarrow> list_tracks new_builder xs xs"
  unfolding new_builder_def by (rule list_tracks_new)

lemma select_list_watched:
  assumes "find_list t c r (observer_init info bs) = Some (ListBuilder k)" "k < length bs" "bs ! k = new_builder"
  shows "watching_list k new_builder (obs_select_link_list c r (obs_select_table t [] (observer_init info bs)))"
proof -
  let ?ob = "mark_dirty r c (obs_select_table t [] (observer_init info bs))"
  have "ci_lists (ob_info ?ob) = ci_lists info" "ob_current_table ?ob = t" "ob_builders ?ob = bs"
    "ob_active_table ?ob \<noteq> Some (ListBuilder k)"
    by (auto simp: obs_select_table_def observer_init_def mark_dirty_def on_active_table_def on_info_def Let_def)
  then show ?thesis
    using assms by (simp add: watching_list_def obs_select_link_list_def Let_def find_list_def observer_init_def)
qed

section \<open>Sample logs\<close>

definition sample_sel :: "group_op \<Rightarrow> arg list" where
  "sample_sel g = op_args (GroupOp g)"

definition sample_blocks :: "operation list \<Rightarrow> byte list list" where
  "sample_blocks ps =
     (case record_ops sample_sel buffer_stream_reserve ps \<lparr>enc_log = [], enc_free = 0\<rparr> of
        Inl err \<Rightarrow> []
      | Inr e \<Rightarrow> [take 4 (enc_log e), drop 4 (enc_log e)])"

lemma sample_recorded:
  assumes "list_all op_ok ps" "(case record_ops sample_sel buffer_stream_reserve ps \<lparr>enc_log = [], enc_free = 0\<rparr> of Inl err \<Rightarrow> False | Inr e \<Rightarrow> True)"
  shows "recorded_log sample_sel ps (sample_blocks ps)"
  using assms by (auto simp: recorded_log_def sample_blocks_def selections_def sample_sel_def split: sum.splits)

definition sample_info :: change_info where
  "sample_info =
     \<lparr>ci_modifications_needed = [False, True], ci_moves_needed = [False, True],
      ci_lists = [\<lparr>li_table = 1, li_row = 2, li_col = 5, li_changes = 0\<rparr>],
      ci_tables = [], ci_column_indices = [], ci_table_indices = [], ci_track_all = False, ci_schema_changed = False\<rparr>"

definition log_rows :: "(nat \<times> bool) list" where
  "log_rows = map (\<lambda>r. (r, False)) [10, 11, 12]"

definition log_edits :: "nat table_edit list" where
  "log_edits = [SwapRows 0 1, MoveLastOver 1, SetRow 0 3]"

definition log_ops :: "operation list" where
  "log_ops = [RowOp (OpSwapRows 0 1), RowOp OpOptimizeTable, RowOp (OpEraseRows 1 1 3 True), FieldOp (OpAddInt 3 0 7)]"

lemma log_ops_edits: "logs_edits table_rows table_edit_op table_neutral log_edits log_rows (map stored log_ops)"
  by (simp add: log_edits_def log_ops_def log_rows_def) (intro logs_edits.intros; simp)

lemma log_edits_ok: "run_ok table_edit_ok table_rows log_edits log_rows" "list_all (\<lambda>r. \<not> snd r) log_rows"
  by (simp_all add: log_edits_def log_rows_def npos_def)

lemma log_rows_after: "map fst (run_rows table_rows log_edits log_rows) = [11, 12]" "marked (run_rows table_rows log_edits log_rows) = {0}"
  by (simp_all add: log_edits_def log_rows_def marked_def) (auto simp: nth_Cons' split: if_splits)

lemma log_ops_recorded: "recorded_log sample_sel (GroupOp (OpSelectTable 1 []) # log_ops) (sample_blocks (GroupOp (OpSelectTable 1 []) # log_ops))"
proof (rule sample_recorded)
  show "list_all op_ok (GroupOp (OpSelectTable 1 []) # log_ops)" by (simp add: log_ops_def int_type_defs int_types)
  show "case record_ops sample_sel buffer_stream_reserve (GroupOp (OpSelectTable 1 []) # log_ops) \<lparr>enc_log = [], enc_free = 0\<rparr> of
      Inl err \<Rightarrow> False | Inr e \<Rightarrow> True"
    by code_simp
qed

lemma sample_tracked: "tracked 1 sample_info" "unchanged 1 sample_info"
  by (simp_all add: tracked_def unchanged_def sample_info_def)

definition log_links :: "operation list" where
  "log_links = [LinkListOp (OpLinkListMove 0 2), RowOp (OpSwapRows 0 1), LinkListOp (OpLinkListNullify 0 3)]"

definition link_edits :: "nat list_edit list" where
  "link_edits = [MoveRow 0 2, EraseRow 0]"

lemma log_links_edits: "logs_edits list_rows list_edit_op list_neutral link_edits log_rows (map stored log_links)"
  by (simp add: link_edits_def log_links_def log_rows_def) (intro logs_edits.intros; simp)

lemma link_edits_ok: "run_ok list_edit_ok list_rows link_edits log_rows"
  by (simp add: link_edits_def log_rows_def npos_def list_move_def list_erase_at_def list_insert_at_def)

lemma log_links_recorded:
  "recorded_log sample_sel (GroupOp (OpSelectTable 1 []) # GroupOp (OpSelectLinkList 5 2 0) # log_links)
     (sample_blocks (GroupOp (OpSelectTable 1 []) # GroupOp (OpSelectLinkList 5 2 0) # log_links))"
proof (rule sample_recorded)
  show "list_all op_ok (GroupOp (OpSelectTable 1 []) # GroupOp (OpSelectLinkList 5 2 0) # log_links)" by (simp add: log_links_def)
  show "case record_ops sample_sel buffer_stream_reserve
      (GroupOp (OpSelectTable 1 []) # GroupOp (OpSelectLinkList 5 2 0) # log_links) \<lparr>enc_log = [], enc_free = 0\<rparr> of
      Inl err \<Rightarrow> False | Inr e \<Rightarrow> True"
    by code_simp
qed

section \<open>Properties\<close>

text \<open>
  C24. From the bytes to the change set: a log of a table that is tracked (rows appended, erased by \<open>move_last_over\<close>, exchanged, fields
  set, mixed with operations that do not concern the rows), written by the encoder and cut into blocks
  anywhere, is parsed without an error, and when the observer has completed, the builder of the table describes the difference between the table before
  and after the edits and marks the rows that were modified.\<close>

theorem table_log_described:
  assumes "run_ok table_edit_ok table_rows es xs" "list_all (\<lambda>r. \<not> snd r) xs"
    "logs_edits table_rows table_edit_op table_neutral es xs (map stored ps)"
    "tracked t info" "unchanged t info"
    "recorded_log sel (GroupOp (OpSelectTable t []) # ps) blocks"
  shows "\<exists>ob. parse multi_next (throwing observe_op) (multi_init blocks) (Inr (observer_init info bs)) = Some (Inr ob, None) \<and>
    (let b = ci_tables (ob_info (observer_complete ob)) ! t
     in describes b (map fst xs) (map fst (run_rows table_rows es xs)) \<and>
        elems (modifications b) = marked (run_rows table_rows es xs) \<and> move_mapping b = [])"
proof -
  let ?b = "run_record table_rows record_table es xs new_builder"
  let ?o = "obs_select_table t [] (observer_init info bs)"
  have "watching_table t new_builder ?o" using assms(4,5) by (intro watching_selected) (simp_all add: observer_init_def)
  then obtain ob where ob: "throwing_ops observe_op (map stored ps) ?o = Inr ob" "watching_table t ?b ob"
    using table_log.observed[OF assms(3)] by blast
  have "parse multi_next (throwing observe_op) (multi_init blocks) (Inr (observer_init info bs)) = Some (Inr ob, None)"
    using ob(1) by (intro recorded_log_observed[OF assms(6)]) simp
  moreover have tr: "table_tracks ?b xs (run_rows table_rows es xs)"
    by (rule table_recording.run[OF table_tracks_builder[OF assms(2)] assms(1)])
  moreover have "ci_tables (ob_info (observer_complete ob)) ! t = parse_complete ?b"
    using ob(2) complete_tables[of t ob] by (simp add: watching_table_def)
  ultimately show ?thesis using table_tracks_complete[OF tr] by (intro exI[of _ ob]) (simp add: Let_def)
qed

theorem table_log_described_witness:
  "\<exists>ob. parse multi_next (throwing observe_op) (multi_init (sample_blocks (GroupOp (OpSelectTable 1 []) # log_ops)))
        (Inr (observer_init sample_info [])) = Some (Inr ob, None) \<and>
    describes (ci_tables (ob_info (observer_complete ob)) ! 1) [10 :: nat, 11, 12] [11, 12] \<and>
    elems (modifications (ci_tables (ob_info (observer_complete ob)) ! 1)) = {0}"
  using table_log_described[OF log_edits_ok log_ops_edits sample_tracked log_ops_recorded, of "[]"]
  unfolding log_rows_after Let_def by (auto simp: log_rows_def)

text \<open>
  C25. The same for a list of links that somebody observes: after its selection, insertions, deletions (nullified links
  included), moves, a clear and changed links leave the builder of the list with the difference between
  the list before and after, also when rows and fields of the table change in between.\<close>

theorem list_log_described:
  assumes "run_ok list_edit_ok list_rows es xs" "list_all (\<lambda>r. \<not> snd r) xs"
    "logs_edits list_rows list_edit_op list_neutral es xs (map stored ps)"
    "find_list t c r (observer_init info bs) = Some (ListBuilder k)" "k < length bs" "bs ! k = new_builder"
    "recorded_log sel (GroupOp (OpSelectTable t []) # GroupOp (OpSelectLinkList c r g) # ps) blocks"
  shows "\<exists>ob. parse multi_next (throwing observe_op) (multi_init blocks) (Inr (observer_init info bs)) = Some (Inr ob, None) \<and>
    (let b = ob_builders (observer_complete ob) ! k
     in describes b (map fst xs) (map fst (run_rows list_rows es xs)) \<and>
        elems (modifications b) = marked (run_rows list_rows es xs))"
proof -
  let ?b = "run_record list_rows record_list es xs new_builder"
  let ?o = "obs_select_link_list c r (obs_select_table t [] (observer_init info bs))"
  obtain ob where ob: "throwing_ops observe_op (map stored ps) ?o = Inr ob" "watching_list k ?b ob"
    using list_log.observed[OF assms(3) select_list_watched[OF assms(4-6)]] by blast
  have "parse multi_next (throwing observe_op) (multi_init blocks) (Inr (observer_init info bs)) = Some (Inr ob, None)"
    using ob(1) by (intro recorded_log_observed[OF assms(7)]) simp
  moreover have "list_tracks ?b xs (run_rows list_rows es xs)"
    by (rule list_recording.run[OF list_tracks_builder[OF assms(2)] assms(1)])
  moreover have "ob_builders (observer_complete ob) = clean_lists (ci_lists (ob_info ob)) (ob_builders ob)"
    by (simp add: observer_complete_def clean_lists_def Let_def)
  ultimately show ?thesis
    using ob(2) clean_lists_describes[of "ob_builders ob" k "map fst xs" "map fst (run_rows list_rows es xs)" "ci_lists (ob_info ob)"]
    by (intro exI[of _ ob]) (simp add: watching_list_def list_tracks_def Let_def)
qed

theorem list_log_described_witness:
  "\<exists>ob. parse multi_next (throwing observe_op)
        (multi_init (sample_blocks (GroupOp (OpSelectTable 1 []) # GroupOp (OpSelectLinkList 5 2 0) # log_links)))
        (Inr (observer_init sample_info [new_builder])) = Some (Inr ob, None) \<and>
    describes (ob_builders (observer_complete ob) ! 0) [10 :: nat, 11, 12] [12, 10]"
proof -
  have f: "find_list 1 5 2 (observer_init sample_info [new_builder]) = Some (ListBuilder 0)"
    by (simp add: find_list_def observer_init_def sample_info_def)
  have "map fst (run_rows list_rows link_edits log_rows) = [12, 10]"
    by (simp add: link_edits_def log_rows_def list_move_def list_erase_at_def list_insert_at_def)
  then show ?thesis
    using list_log_described[OF link_edits_ok log_edits_ok(2) log_links_edits f _ _ log_links_recorded]
    by (auto simp: Let_def log_rows_def)
qed



text \<open>
  When the row of a list is erased, the loop of \<open>erase_rows\<close> fills the gap with the last entry and steps over it: with lists on the first and the last of three
  rows, \<open>move_last_over\<close> of the first leaves the other list at row 2, which is gone, and the list
  is not found at row 0, where it now is.\<close>

theorem erase_rows_loses_list:
  "let info = \<lparr>ci_modifications_needed = [True], ci_moves_needed = [True],
         ci_lists = [\<lparr>li_table = 0, li_row = 0, li_col = 5, li_changes = 0\<rparr>, \<lparr>li_table = 0, li_row = 2, li_col = 5, li_changes = 1\<rparr>],
         ci_tables = [], ci_column_indices = [], ci_table_indices = [], ci_track_all = False, ci_schema_changed = False\<rparr>;
       ob = obs_erase_rows 0 3 True (obs_select_table 0 [] (observer_init info [new_builder, new_builder]))
   in ci_lists (ob_info ob) = [\<lparr>li_table = 0, li_row = 2, li_col = 5, li_changes = 1\<rparr>] \<and> find_list 0 5 0 ob = None"
  by (simp add: obs_select_table_def obs_erase_rows_def observer_init_def on_lists_def on_info_def on_active_table_def
      find_list_def sub_size_def Let_def)

text \<open>
  A log is refused for its schema exactly if some operation in it removes or renames a table or a column, by the validator and by the observer, with \<open>UnsupportedSchemaChange\<close>; every other log
  is handled to its end.\<close>

theorem unsupported_schema_refused:
  assumes "recorded_log sel ps blocks"
  shows "parse multi_next (throwing observe_op) (multi_init blocks) (Inr ob) =
      Some (if list_all supported ps then (Inr (fold (\<lambda>p ob. projr (observe_op p ob)) (map stored ps) ob), None)
            else (Inl UnsupportedSchemaChange, Some BadTransactLog)) \<and>
    parse multi_next (throwing validate_op) (multi_init blocks) (Inr t) =
      Some (if list_all supported ps then (Inr (fold (\<lambda>p t. projr (validate_op p t)) (map stored ps) t), None)
            else (Inl UnsupportedSchemaChange, Some BadTransactLog))"
proof -
  have "supported (stored p) = supported p" for p by (cases p rule: stored.cases) auto
  then have "list_all supported (map stored ps) = list_all supported ps" by (simp add: list_all_iff)
  then show ?thesis
    unfolding recorded_log_parse[OF assms] replay_throwing
    using throwing_supported[of observe_op "map stored ps" ob, OF observe_supported]
      throwing_supported[of validate_op "map stored ps" t, OF validate_supported]
    by (simp split: sum.splits)
qed

theorem unsupported_schema_refused_witness:
  "parse multi_next (throwing observe_op) (multi_init (sample_blocks [ColumnOp (OpEraseColumn 3)])) (Inr (observer_init sample_info []))
    = Some (Inl UnsupportedSchemaChange, Some BadTransactLog)"
proof -
  have "case record_ops sample_sel buffer_stream_reserve [ColumnOp (OpEraseColumn 3)] \<lparr>enc_log = [], enc_free = 0\<rparr> of
      Inl err \<Rightarrow> False | Inr e \<Rightarrow> True" by code_simp
  then have "recorded_log sample_sel [ColumnOp (OpEraseColumn 3)] (sample_blocks [ColumnOp (OpEraseColumn 3)])"
    by (intro sample_recorded) simp_all
  then show ?thesis using unsupported_schema_refused by fastforce
qed

end
