(* ===== verification/CallbackList.thy ===== *)
theory CallbackList
  imports Prelude "HOL-Library.Word"
begin

text \<open>
  The list of callbacks that \<open>CollectionNotifier\<close> (\<open>impl/collection_notifier.cpp\<close>) and
  \<open>SyncSession::ConnectionChangeNotifier\<close> (\<open>sync/sync_session.cpp\<close>) keep in the same way, and the loop over it. The loop
  gives the mutex up while a callback runs: the callback itself, and other threads, may then
  add and remove callbacks, and the index and the count of the loop, which are fields of the notifier, are
  corrected by \<open>remove_callback\<close>. Both are 64 bits wide; the index that is not in use is \<open>-1\<close>, and incrementing
  it gives the first position.
\<close>

section \<open>The list\<close>

record 'f callback_list =
  cb_entries :: "(64 word \<times> 'f) list"
  cb_index :: "64 word"
  cb_count :: "64 word"
  cb_next_token :: "64 word"

fun find_token :: "64 word \<Rightarrow> (64 word \<times> 'f) list \<Rightarrow> nat option" where
  "find_token t [] = None"
| "find_token t ((t', f) # es) = (if t' = t then Some 0 else map_option Suc (find_token t es))"

definition cl_add :: "'f \<Rightarrow> ('f, 'z) callback_list_scheme \<Rightarrow> ('f, 'z) callback_list_scheme" where
  "cl_add f cl = cl\<lparr>cb_entries := cb_entries cl @ [(cb_next_token cl, f)], cb_next_token := cb_next_token cl + 1\<rparr>"

definition cl_remove :: "64 word \<Rightarrow> ('f, 'z) callback_list_scheme \<Rightarrow> ('f, 'z) callback_list_scheme" where
  "cl_remove token cl =
     (case find_token token (cb_entries cl) of
        None \<Rightarrow> cl
      | Some idx \<Rightarrow>
          let i = cb_index cl;
              i' = (if i \<noteq> -1 \<and> i \<ge> of_nat idx then i - 1 else i)
          in cl\<lparr>cb_index := i', cb_count := cb_count cl - 1, cb_entries := list_erase_at (cb_entries cl) idx\<rparr>)"

section \<open>The loop\<close>

text \<open>
  \<open>visit\<close> is what the loop does at an entry: it may change the entry, and it may call its callback, which
  gives an event. While the \<open>n\<close>-th call is under way, the operations \<open>script ! n\<close> take place, and those
  that the notifier itself does after the call, \<open>own\<close>. Reading the vector out of its
  range is a fault.
\<close>

datatype loop_fault = OutOfRange | OutOfFuel

fun next_ops :: "'op list list \<Rightarrow> 'op list" where
  "next_ops [] = []"
| "next_ops (ops # script) = ops"

fun for_each_callback ::
  "nat \<Rightarrow> (64 word \<Rightarrow> 'f \<Rightarrow> 'f \<times> 'e option) \<Rightarrow> ('op \<Rightarrow> ('f, 'z) callback_list_scheme \<Rightarrow> ('f, 'z) callback_list_scheme) \<Rightarrow>
     (64 word \<Rightarrow> 'op list) \<Rightarrow> 'op list list \<Rightarrow> ('f, 'z) callback_list_scheme \<Rightarrow>
     loop_fault + ('e list \<times> ('f, 'z) callback_list_scheme)"
where
  "for_each_callback 0 visit apply_op own script cl = Inl OutOfFuel"
| "for_each_callback (Suc fuel) visit apply_op own script cl =
     (let i = cb_index cl + 1; cl1 = cl\<lparr>cb_index := i\<rparr>
      in if i < cb_count cl1 then
           if unat i < length (cb_entries cl1) then
             (let (t, f) = cb_entries cl1 ! unat i;
                  (f', call) = visit t f;
                  cl2 = cl1\<lparr>cb_entries := (cb_entries cl1)[unat i := (t, f')]\<rparr>
              in case call of
                   None \<Rightarrow> for_each_callback fuel visit apply_op own script cl2
                 | Some e \<Rightarrow>
                     (case for_each_callback fuel visit apply_op own (tl script) (fold apply_op (next_ops script @ own t) cl2) of
                        Inl fault \<Rightarrow> Inl fault
                      | Inr (es, cl3) \<Rightarrow> Inr (e # es, cl3)))
           else Inl OutOfRange
         else Inr ([], cl1\<lparr>cb_index := -1\<rparr>))"

section \<open>What it is to deliver\<close>

text \<open>The callbacks that were counted, and those that are still to be visited, with what decides whether they are called.\<close>

definition counted :: "('f \<Rightarrow> 'v) \<Rightarrow> ('f, 'z) callback_list_scheme \<Rightarrow> (64 word \<times> 'v) list" where
  "counted view cl = map (map_prod id view) (take (unat (cb_count cl)) (cb_entries cl))"

definition todo :: "('f \<Rightarrow> 'v) \<Rightarrow> ('f, 'z) callback_list_scheme \<Rightarrow> (64 word \<times> 'v) list" where
  "todo view cl = map (map_prod id view) (drop (unat (cb_index cl + 1)) (take (unat (cb_count cl)) (cb_entries cl)))"

text \<open>Each callback that is to be visited is visited in its turn, unless it is removed before.\<close>

fun deliver_to ::
  "(64 word \<Rightarrow> 'v \<Rightarrow> 'e option) \<Rightarrow> ('op \<Rightarrow> 64 word option) \<Rightarrow> 'op list list \<Rightarrow> (64 word \<times> 'v) list \<Rightarrow> 'e list"
where
  "deliver_to call removes script [] = []"
| "deliver_to call removes script ((t, v) # tvs) =
     (case call t v of
        None \<Rightarrow> deliver_to call removes script tvs
      | Some e \<Rightarrow>
          e # deliver_to call removes (tl script) (filter (\<lambda>tv. Some (fst tv) \<notin> removes ` set (next_ops script)) tvs))"

text \<open>Callbacks with tokens below the limit were there when the count was taken; up to \<open>n\<close> more can be
  added before the counter of tokens wraps around.\<close>

definition list_ok :: "64 word \<Rightarrow> nat \<Rightarrow> ('f, 'z) callback_list_scheme \<Rightarrow> bool" where
  "list_ok limit n cl \<longleftrightarrow>
     unat (cb_index cl + 1) \<le> unat (cb_count cl) \<and> unat (cb_count cl) \<le> length (cb_entries cl) \<and>
     distinct (map fst (cb_entries cl)) \<and>
     (\<forall>t \<in> set (map fst (take (unat (cb_count cl)) (cb_entries cl))). t < limit) \<and>
     (\<forall>t \<in> set (map fst (drop (unat (cb_count cl)) (cb_entries cl))). limit \<le> t) \<and>
     (\<forall>t \<in> set (map fst (cb_entries cl)). t < cb_next_token cl) \<and>
     limit \<le> cb_next_token cl \<and> unat (cb_next_token cl) + n < 2 ^ 64"

lemma find_token_Some:
  "find_token t es = Some i \<Longrightarrow> i < length es \<and> fst (es ! i) = t"
  by (induction es arbitrary: i rule: find_token.induct) (auto split: if_splits)

lemma find_token_None: "find_token t es = None \<longleftrightarrow> t \<notin> set (map fst es)"
  by (induction es rule: find_token.induct) auto

lemma tokens_length:
  fixes es :: "(64 word \<times> 'f) list"
  assumes "distinct (map fst es)" "\<forall>t \<in> set (map fst es). t < u"
  shows "length es \<le> unat u"
proof -
  have "unat ` set (map fst es) \<subseteq> {..<unat u}"
    using assms(2) by (auto simp: word_less_nat_alt)
  then have "card (unat ` set (map fst es)) \<le> unat u"
    by (metis card_lessThan card_mono finite_lessThan)
  moreover have "card (unat ` set (map fst es)) = length es"
    using assms(1) distinct_card[of "map fst es"] by (subst card_image) (auto simp: inj_on_def word_unat_eq_iff)
  ultimately show ?thesis by simp
qed

lemma list_ok_length: "list_ok limit n cl \<Longrightarrow> length (cb_entries cl) \<le> unat (cb_next_token cl)"
  by (rule tokens_length) (auto simp: list_ok_def)

lemma list_ok_add:
  assumes "list_ok limit (Suc n) cl"
  shows "list_ok limit n (cl_add f cl) \<and> todo view (cl_add f cl) = todo view cl \<and> counted view (cl_add f cl) = counted view cl"
proof -
  have n: "unat (cb_next_token cl + 1) = Suc (unat (cb_next_token cl))"
    using assms by (subst unat_add_lem[THEN iffD1]) (auto simp: list_ok_def)
  then have less: "cb_next_token cl < cb_next_token cl + 1" by (simp add: word_less_nat_alt)
  show ?thesis
    using assms n less_imp_le[OF less] less by (auto simp: list_ok_def cl_add_def todo_def counted_def intro: order.strict_trans order_trans less_imp_le)
qed

lemma split_at: "i < length xs \<Longrightarrow> \<exists>as bs. xs = as @ xs ! i # bs \<and> length as = i"
  by (metis id_take_nth_drop length_take min.absorb4)

lemma next_position:
  fixes i :: "64 word"
  shows "i = -1 \<longleftrightarrow> unat (i + 1) = 0" and "i \<noteq> -1 \<Longrightarrow> unat i = unat (i + 1) - 1"
proof -
  show "i = -1 \<longleftrightarrow> unat (i + 1) = 0" by (simp add: unat_eq_0 eq_neg_iff_add_eq_0)
  show "unat i = unat (i + 1) - 1" if "i \<noteq> -1"
    using that by (metis add_diff_cancel_right' unat_minus_one eq_neg_iff_add_eq_0)
qed

lemma filter_other_tokens:
  "t \<notin> set (map fst es) \<Longrightarrow> filter (\<lambda>tv. fst tv \<noteq> t) (map (map_prod id view) es) = map (map_prod id view) es"
  by (induction es) auto

lemma list_ok_remove:
  assumes ok: "list_ok limit n cl" and t: "t < limit"
  shows "list_ok limit n (cl_remove t cl) \<and> todo view (cl_remove t cl) = filter (\<lambda>tv. fst tv \<noteq> t) (todo view cl) \<and>
    counted view (cl_remove t cl) = filter (\<lambda>tv. fst tv \<noteq> t) (counted view cl)"
proof (cases "find_token t (cb_entries cl)")
  case None
  then have "t \<notin> set (map fst (drop (unat (cb_index cl + 1)) (take (unat (cb_count cl)) (cb_entries cl))))"
    "t \<notin> set (map fst (take (unat (cb_count cl)) (cb_entries cl)))"
    by (auto simp: find_token_None dest!: in_set_dropD in_set_takeD)
  then show ?thesis using None ok by (simp add: cl_remove_def todo_def counted_def filter_other_tokens del: set_map)
next
  case (Some idx)
  define j c where "j = unat (cb_index cl + 1)" and "c = unat (cb_count cl)"
  have idx: "idx < length (cb_entries cl)" "fst (cb_entries cl ! idx) = t" using find_token_Some[OF Some] by auto
  obtain as f bs where es: "cb_entries cl = as @ (t, f) # bs" "length as = idx"
    using split_at[OF idx(1)] idx(2) by (metis prod.collapse)
  have l: "j \<le> c" "c \<le> length (cb_entries cl)" "distinct (map fst (cb_entries cl))" using ok by (auto simp: list_ok_def j_def c_def)
  have "idx < c"
  proof (rule ccontr)
    assume "\<not> idx < c"
    then have "(t, f) \<in> set (drop c (cb_entries cl))" using es l(2) by (auto simp: drop_append)
    then show False using ok t by (force simp: list_ok_def c_def not_le)
  qed
  then have c: "unat (cb_count cl - 1) = c - 1" using unat_minus_one[of "cb_count cl"] by (cases "cb_count cl = 0") (auto simp: c_def)
  define i' where "i' = (if cb_index cl \<noteq> -1 \<and> cb_index cl \<ge> of_nat idx then cb_index cl - 1 else cb_index cl)"
  have "idx < 2 ^ 64" using idx(1) list_ok_length[OF ok] ok by (auto simp: list_ok_def)
  then have "unat (of_nat idx :: 64 word) = idx" by (simp add: unat_of_nat take_bit_nat_eq_self)
  then have i': "unat (i' + 1) = (if idx < j then j - 1 else j)"
    using next_position[of "cb_index cl"] by (auto simp: i'_def j_def word_le_nat_alt)
  have r: "cl_remove t cl = cl\<lparr>cb_index := i', cb_count := cb_count cl - 1, cb_entries := as @ bs\<rparr>"
    using Some es by (simp add: cl_remove_def i'_def Let_def list_erase_at_def)
  define b1 b2 where "b1 = take (c - 1 - idx) bs" and "b2 = drop (c - 1 - idx) bs"
  have b: "bs = b1 @ b2" "take c (as @ (t, f) # bs) = as @ (t, f) # b1" "take (c - 1) (as @ bs) = as @ b1"
    "drop c (as @ (t, f) # bs) = b2" "drop (c - 1) (as @ bs) = b2"
    using \<open>idx < c\<close> es(2) by (auto simp: b1_def b2_def take_Cons' drop_Cons' Suc_diff_Suc)
  have ts: "t \<notin> set (map fst as)" "t \<notin> set (map fst b1)" using l(3) es b(1) by auto
  have "\<forall>u \<in> set (map fst (take c (cb_entries cl))). u < limit" "\<forall>u \<in> set (map fst (drop c (cb_entries cl))). limit \<le> u"
    "\<forall>u \<in> set (map fst (cb_entries cl)). u < cb_next_token cl" "limit \<le> cb_next_token cl"
    "unat (cb_next_token cl) + n < 2 ^ 64"
    using ok unfolding list_ok_def c_def by blast+
  then have "\<forall>u \<in> set (map fst (as @ b1)). u < limit" "\<forall>u \<in> set (map fst b2). limit \<le> u"
    "\<forall>u \<in> set (map fst (as @ bs)). u < cb_next_token cl" "limit \<le> cb_next_token cl" "unat (cb_next_token cl) + n < 2 ^ 64"
    unfolding es(1) b(2,4) by auto
  moreover have "distinct (map fst (as @ bs))" "c - 1 \<le> length (as @ bs)" "unat (i' + 1) \<le> c - 1"
    using l \<open>idx < c\<close> i' unfolding es(1) by auto
  ultimately have "list_ok limit n (cl_remove t cl)"
    unfolding list_ok_def r by (simp add: c b(3,5)[unfolded One_nat_def] del: take_append drop_append)
  moreover have "todo view (cl_remove t cl) = map (map_prod id view) (drop (if idx < j then j - 1 else j) (as @ b1))"
    "todo view cl = map (map_prod id view) (drop j (as @ (t, f) # b1))"
    unfolding todo_def r by (simp_all add: c i' b(3)[unfolded One_nat_def] del: take_append drop_append) (simp add: es(1) b(2) del: take_append drop_append flip: c_def j_def)
  then have "todo view (cl_remove t cl) = filter (\<lambda>tv. fst tv \<noteq> t) (todo view cl)"
    using ts es(2) filter_other_tokens[of t "drop j as" view] filter_other_tokens[of t "drop (j - Suc idx) b1" view]
      filter_other_tokens[of t b1 view] in_set_dropD[of _ j as] in_set_dropD[of _ "j - Suc idx" b1]
    by (cases "idx < j") (auto simp: drop_Cons' image_iff Suc_diff_Suc)
  moreover have "counted view (cl_remove t cl) = map (map_prod id view) (as @ b1)"
    "counted view cl = map (map_prod id view) (as @ (t, f) # b1)"
    unfolding counted_def r by (simp_all add: c b(3)[unfolded One_nat_def] del: take_append drop_append)
      (simp add: es(1) b(2) del: take_append drop_append flip: c_def)
  then have "counted view (cl_remove t cl) = filter (\<lambda>tv. fst tv \<noteq> t) (counted view cl)"
    using ts filter_other_tokens[of t as view] filter_other_tokens[of t b1 view] by simp
  ultimately show ?thesis by simp
qed

lemma list_ok_mono: "list_ok limit n cl \<Longrightarrow> m \<le> n \<Longrightarrow> list_ok limit m cl"
  by (auto simp: list_ok_def)

lemma todo_fst_less: "list_ok limit n cl \<Longrightarrow> tv \<in> set (todo view cl) \<Longrightarrow> fst tv < limit"
  by (force simp: list_ok_def todo_def dest: in_set_dropD)

lemma distinct_map_fst_drop_take: "distinct (map fst es) \<Longrightarrow> distinct (map fst (drop j (take c es)))"
  by (metis distinct_drop distinct_take drop_map take_map)

lemma map_update_same: "i < length xs \<Longrightarrow> g y = g (xs ! i) \<Longrightarrow> map g (xs[i := y]) = map g xs"
  by (simp add: map_update) (metis list_update_id nth_map)

lemma map_fst_update: "i < length xs \<Longrightarrow> fst (xs ! i) = t \<Longrightarrow> map fst (xs[i := (t, f)]) = map fst xs"
  by (rule map_update_same) simp_all

lemma visit_step:
  assumes ok: "list_ok limit n cl" and i: "cb_index cl + 1 < cb_count cl" and tf: "cb_entries cl ! unat (cb_index cl + 1) = (t, f)"
    and cl2_def: "cl2 = cl\<lparr>cb_index := cb_index cl + 1, cb_entries := (cb_entries cl)[unat (cb_index cl + 1) := (t, f')]\<rparr>"
  shows "unat (cb_index cl + 1) < length (cb_entries cl)" "todo view cl = (t, view f) # todo view cl2" "list_ok limit n cl2"
    "view f' = view f \<Longrightarrow> counted view cl2 = counted view cl"
proof -
  define j c es where "j = unat (cb_index cl + 1)" and "c = unat (cb_count cl)" and "es = cb_entries cl"
  have l: "j < c" "c \<le> length es" using ok i by (auto simp: list_ok_def j_def c_def es_def word_less_nat_alt)
  then show "unat (cb_index cl + 1) < length (cb_entries cl)" by (simp add: j_def es_def)
  have "cb_index cl + 1 \<noteq> -1" using i word_n1_ge[of "cb_count cl"] by (metis not_le)
  then have n: "unat (cb_index cl + 1 + 1) = Suc j"
    using next_position[of "cb_index cl + 1"] by (simp add: j_def)
  have tf': "es ! j = (t, f)" using tf by (simp add: j_def es_def)
  have e: "cb_entries cl2 = es[j := (t, f')]" "cb_index cl2 + 1 = cb_index cl + 1 + 1" "cb_count cl2 = cb_count cl"
    "cb_next_token cl2 = cb_next_token cl"
    by (simp_all add: cl2_def j_def es_def)
  have "drop j (take c es) = (t, f) # drop (Suc j) (take c es)"
    using l tf' by (subst Cons_nth_drop_Suc[symmetric]) auto
  then show "todo view cl = (t, view f) # todo view cl2"
    unfolding todo_def e n by (simp add: take_update_swap flip: j_def c_def es_def)
  show "counted view cl2 = counted view cl" if "view f' = view f"
    using l tf' that map_update_same[of j "take c es" "map_prod id view" "(t, f')"]
    unfolding counted_def e by (simp add: take_update_swap flip: c_def es_def)
  have m: "map fst (es[j := (t, f')]) = map fst es" "map fst (take c (es[j := (t, f')])) = map fst (take c es)"
    using l tf' map_fst_update[of j es t f'] map_fst_update[of j "take c es" t f'] by (simp_all add: take_update_swap)
  show "list_ok limit n cl2"
    using ok l unfolding list_ok_def e n c_def[symmetric] m by (simp add: drop_update_cancel flip: j_def c_def es_def)
qed

lemma nothing_left: "list_ok limit n cl \<Longrightarrow> \<not> cb_index cl + 1 < cb_count cl \<Longrightarrow> todo view cl = []"
  by (simp add: todo_def word_less_nat_alt)

text \<open>Between two deliveries.\<close>

definition idle :: "nat \<Rightarrow> ('f, 'z) callback_list_scheme \<Rightarrow> bool" where
  "idle n cl \<longleftrightarrow>
     cb_index cl = -1 \<and> distinct (map fst (cb_entries cl)) \<and>
     (\<forall>t \<in> set (map fst (cb_entries cl)). t < cb_next_token cl) \<and> unat (cb_next_token cl) + n < 2 ^ 64"

lemma idle_counted:
  assumes "idle n cl"
  shows "list_ok (cb_next_token cl) n (cl\<lparr>cb_count := of_nat (length (cb_entries cl))\<rparr>) \<and>
    todo view (cl\<lparr>cb_count := of_nat (length (cb_entries cl))\<rparr>) = map (map_prod id view) (cb_entries cl) \<and>
    counted view (cl\<lparr>cb_count := of_nat (length (cb_entries cl))\<rparr>) = map (map_prod id view) (cb_entries cl)"
proof -
  have "length (cb_entries cl) \<le> unat (cb_next_token cl)"
    using assms by (intro tokens_length) (auto simp: idle_def)
  then have "length (cb_entries cl) < 2 ^ 64" using assms by (auto simp: idle_def)
  then have "unat (of_nat (length (cb_entries cl)) :: 64 word) = length (cb_entries cl)"
    by (simp add: unat_of_nat take_bit_nat_eq_self)
  then show ?thesis using assms by (simp add: list_ok_def idle_def todo_def counted_def)
qed

section \<open>Loops that are interrupted\<close>

text \<open>What the loop needs of the operations that may come between: they keep the list well formed, use up
  at most one token, and of what is to be delivered they drop the callback that they remove, nothing else.\<close>

locale interrupted_loop =
  fixes apply_op :: "'op \<Rightarrow> ('f, 'z) callback_list_scheme \<Rightarrow> ('f, 'z) callback_list_scheme"
    and view :: "'f \<Rightarrow> 'v" and removes :: "'op \<Rightarrow> 64 word option"
  assumes operation: "list_ok limit (Suc n) cl \<Longrightarrow> (\<forall>t. removes op = Some t \<longrightarrow> t < limit) \<Longrightarrow>
    list_ok limit n (apply_op op cl) \<and> todo view (apply_op op cl) = filter (\<lambda>tv. removes op \<noteq> Some (fst tv)) (todo view cl) \<and>
    counted view (apply_op op cl) = filter (\<lambda>tv. removes op \<noteq> Some (fst tv)) (counted view cl)"
begin

lemma operations:
  "list_ok limit (length ops + n) cl \<Longrightarrow> (\<forall>op \<in> set ops. \<forall>t. removes op = Some t \<longrightarrow> t < limit) \<Longrightarrow>
     list_ok limit n (fold apply_op ops cl) \<and>
     todo view (fold apply_op ops cl) = filter (\<lambda>tv. Some (fst tv) \<notin> removes ` set ops) (todo view cl) \<and>
     counted view (fold apply_op ops cl) = filter (\<lambda>tv. Some (fst tv) \<notin> removes ` set ops) (counted view cl)"
proof (induction ops arbitrary: cl)
  case (Cons op ops)
  have "list_ok limit (length ops + n) (apply_op op cl)"
    "todo view (apply_op op cl) = filter (\<lambda>tv. removes op \<noteq> Some (fst tv)) (todo view cl)"
    "counted view (apply_op op cl) = filter (\<lambda>tv. removes op \<noteq> Some (fst tv)) (counted view cl)"
    using operation[of limit "length ops + n" cl op] Cons.prems by auto
  then show ?case using Cons.IH[of "apply_op op cl"] Cons.prems by (auto simp: intro!: filter_cong)
qed simp

lemma loop_delivers:
  assumes "\<And>t f. snd (visit t f) = call t (view f)"
    and "\<And>t. length (own t) \<le> k" "\<And>t. removes ` set (own t) \<subseteq> {Some t}"
  defines "kept \<equiv> \<lambda>script es cl cl'. (\<forall>t f. own t = [] \<and> view (fst (visit t f)) = view f) \<longrightarrow>
    counted view cl' = filter (\<lambda>tv. Some (fst tv) \<notin> removes ` set (concat (take (length es) script))) (counted view cl)"
  shows "list_ok limit (length (concat script) + k * length (todo view cl) + m) cl \<Longrightarrow> length (todo view cl) < fuel \<Longrightarrow>
    (\<forall>ops \<in> set script. \<forall>op \<in> set ops. \<forall>t. removes op = Some t \<longrightarrow> t < limit) \<Longrightarrow>
    \<exists>cl'. for_each_callback fuel visit apply_op own script cl = Inr (deliver_to call removes script (todo view cl), cl') \<and>
      list_ok limit m cl' \<and> cb_index cl' = -1 \<and> kept script (deliver_to call removes script (todo view cl)) cl cl'"
proof (induction fuel arbitrary: cl script)
  case (Suc fuel)
  show ?case
  proof (cases "cb_index cl + 1 < cb_count cl")
    case False
    moreover have "todo view cl = []" using nothing_left Suc.prems(1) False by blast
    moreover have "list_ok limit m (cl\<lparr>cb_index := -1\<rparr>)" "counted view (cl\<lparr>cb_index := -1\<rparr>) = counted view cl"
      using Suc.prems(1) by (auto simp: list_ok_def counted_def)
    ultimately show ?thesis by (simp add: Let_def kept_def)
  next
    case True
    obtain t f where tf: "cb_entries cl ! unat (cb_index cl + 1) = (t, f)" by fastforce
    obtain f' c where v: "visit t f = (f', c)" by fastforce
    define cl2 where "cl2 = cl\<lparr>cb_index := cb_index cl + 1, cb_entries := (cb_entries cl)[unat (cb_index cl + 1) := (t, f')]\<rparr>"
    note st = visit_step(1)[OF Suc.prems(1) True tf cl2_def] visit_step(2)[OF Suc.prems(1) True tf cl2_def, of view]
      visit_step(3)[OF Suc.prems(1) True tf cl2_def] visit_step(4)[OF Suc.prems(1) True tf cl2_def, of view]
    have c: "call t (view f) = c" using assms(1)[of t f] v by simp
    show ?thesis
    proof (cases c)
      case None
      have ok2: "list_ok limit (length (concat script) + k * length (todo view cl2) + m) cl2"
        by (rule list_ok_mono[OF st(3)]) (simp add: st(2))
      obtain cl' where "for_each_callback fuel visit apply_op own script cl2 = Inr (deliver_to call removes script (todo view cl2), cl')"
        "list_ok limit m cl'" "cb_index cl' = -1" "kept script (deliver_to call removes script (todo view cl2)) cl2 cl'"
        using Suc.IH[OF ok2] Suc.prems(2,3) st(2) by auto
      moreover have "(\<forall>t f. own t = [] \<and> view (fst (visit t f)) = view f) \<longrightarrow> counted view cl2 = counted view cl"
        using st(4) v by (metis fst_conv)
      ultimately show ?thesis using True tf v None st(1,2) c by (simp add: Let_def kept_def flip: cl2_def)
    next
      case (Some e)
      define ops where "ops = next_ops script @ own t"
      define cl3 where "cl3 = fold apply_op ops cl2"
      have sc: "length (concat script) = length (next_ops script) + length (concat (tl script))" by (cases script) auto
      have "t < limit" using todo_fst_less[OF Suc.prems(1), of "(t, view f)" view] st(2) by simp
      then have h: "\<forall>op \<in> set ops. \<forall>t. removes op = Some t \<longrightarrow> t < limit"
        using Suc.prems(3) assms(3)[of t] by (cases script) (auto simp: ops_def image_subset_iff)
      have ok2: "list_ok limit (length ops + (length (concat (tl script)) + k * length (todo view cl2) + m)) cl2"
        by (rule list_ok_mono[OF st(3)]) (use assms(2)[of t] in \<open>simp add: st(2) sc ops_def\<close>)
      note o = operations[OF ok2 h, folded cl3_def]
      have le: "length (todo view cl3) \<le> length (todo view cl2)" using o by simp
      have ok3: "list_ok limit (length (concat (tl script)) + k * length (todo view cl3) + m) cl3"
        by (rule list_ok_mono[OF conjunct1[OF o]]) (simp add: le)
      have "\<forall>ops \<in> set (tl script). \<forall>op \<in> set ops. \<forall>t. removes op = Some t \<longrightarrow> t < limit"
        using Suc.prems(3) by (cases script) auto
      then obtain cl' where l: "for_each_callback fuel visit apply_op own (tl script) cl3 =
          Inr (deliver_to call removes (tl script) (todo view cl3), cl')" "list_ok limit m cl'" "cb_index cl' = -1"
        "kept (tl script) (deliver_to call removes (tl script) (todo view cl3)) cl3 cl'"
        using Suc.IH[OF ok3] Suc.prems(2) st(2) le by auto
      have "distinct (map fst (todo view cl))"
        using Suc.prems(1) by (simp add: list_ok_def todo_def comp_def distinct_map_fst_drop_take)
      then have "\<forall>tv \<in> set (todo view cl2). fst tv \<noteq> t" using st(2) by force
      then have "todo view cl3 = filter (\<lambda>tv. Some (fst tv) \<notin> removes ` set (next_ops script)) (todo view cl2)"
        using o assms(3)[of t] by (auto simp: ops_def image_subset_iff intro!: filter_cong)
      moreover have "counted view cl' = filter (\<lambda>tv. Some (fst tv) \<notin>
          removes ` set (concat (take (Suc (length (deliver_to call removes (tl script) (todo view cl3)))) script))) (counted view cl)"
        if "\<forall>t f. own t = [] \<and> view (fst (visit t f)) = view f"
      proof -
        have "view f' = view f" using that v by (metis fst_conv)
        then have "counted view cl3 = filter (\<lambda>tv. Some (fst tv) \<notin> removes ` set (next_ops script)) (counted view cl)"
          using o st(4) that by (simp add: ops_def)
        then show ?thesis using l(4) that by (cases script) (auto simp: kept_def intro!: filter_cong)
      qed
      ultimately show ?thesis using True tf v Some st(1,2) c l(1-3) by (simp add: Let_def kept_def flip: cl2_def ops_def cl3_def)
    qed
  qed
qed simp

end


text \<open>\<open>SyncSession::ConnectionChangeNotifier\<close> (\<open>sync/sync_session.cpp\<close>): the callbacks that hear of a new connection
  state. The two states of a change are the same for all of them and are left out of the events.\<close>

type_synonym connection_notifier = "nat callback_list"

datatype connection_op = AddConnection nat | RemoveConnection "64 word"

definition new_connection_notifier :: connection_notifier where
  "new_connection_notifier = \<lparr>cb_entries = [], cb_index = -1, cb_count = -1, cb_next_token = 0\<rparr>"

fun connection_apply :: "connection_op \<Rightarrow> connection_notifier \<Rightarrow> connection_notifier" where
  "connection_apply (AddConnection f) cl = cl_add f cl"
| "connection_apply (RemoveConnection t) cl = cl_remove t cl"

fun connection_removes :: "connection_op \<Rightarrow> 64 word option" where
  "connection_removes (AddConnection f) = None"
| "connection_removes (RemoveConnection t) = Some t"

definition invoke_callbacks ::
  "nat \<Rightarrow> connection_op list list \<Rightarrow> connection_notifier \<Rightarrow> loop_fault + ((64 word \<times> nat) list \<times> connection_notifier)" where
  "invoke_callbacks fuel script cl =
     for_each_callback fuel (\<lambda>t f. (f, Some (t, f))) connection_apply (\<lambda>t. []) script
       (cl\<lparr>cb_count := of_nat (length (cb_entries cl))\<rparr>)"

interpretation connection: interrupted_loop connection_apply id connection_removes
proof
  fix limit n op and cl :: connection_notifier
  assume "list_ok limit (Suc n) cl" "\<forall>t. connection_removes op = Some t \<longrightarrow> t < limit"
  then show "list_ok limit n (connection_apply op cl) \<and>
      todo id (connection_apply op cl) = filter (\<lambda>tv. connection_removes op \<noteq> Some (fst tv)) (todo id cl) \<and>
      counted id (connection_apply op cl) = filter (\<lambda>tv. connection_removes op \<noteq> Some (fst tv)) (counted id cl)"
    using list_ok_add[of limit n cl] list_ok_remove[of limit "Suc n" cl _ id] list_ok_mono[of limit "Suc n" _ n]
    by (cases op) (fastforce intro: filter_cong)+
qed

lemma invoke_callbacks_delivers:
  assumes "idle (length (concat script) + m) cl" "length (cb_entries cl) < fuel"
    "\<forall>op \<in> set (concat script). \<forall>t. connection_removes op = Some t \<longrightarrow> t < cb_next_token cl"
  shows "\<exists>cl'. invoke_callbacks fuel script cl =
    Inr (deliver_to (\<lambda>t f. Some (t, f)) connection_removes script (cb_entries cl), cl') \<and> idle m cl'"
proof -
  let ?cl = "cl\<lparr>cb_count := of_nat (length (cb_entries cl))\<rparr>"
  have 1: "list_ok (cb_next_token cl) (length (concat script) + m) ?cl" "todo id ?cl = cb_entries cl"
    using idle_counted[OF assms(1), of id] by (simp_all add: prod.map_id0)
  obtain cl' where "invoke_callbacks fuel script cl =
      Inr (deliver_to (\<lambda>t f. Some (t, f)) connection_removes script (cb_entries cl), cl')"
    "list_ok (cb_next_token cl) m cl'" "cb_index cl' = -1"
    unfolding invoke_callbacks_def
    using connection.loop_delivers[of "\<lambda>t f. (f, Some (t, f))" "\<lambda>t f. Some (t, f)" "\<lambda>t. []" 0 "cb_next_token cl" script ?cl m fuel]
      1 assms(2,3) by auto
  then show ?thesis by (auto simp: list_ok_def idle_def)
qed

end
