(* ===== verification/CollectionNotifier.thy ===== *)
theory CollectionNotifier
  imports ChangeBuilder CallbackList
begin

text \<open>
  \<open>CollectionNotifier\<close> (\<open>impl/collection_notifier.cpp\<close> and \<open>.hpp\<close>): the callbacks of a results set, a list or an
  object. The worker thread gives every callback the changes of each transaction that it advances over
  (\<open>add_changes\<close>); \<open>package_for_delivery\<close> finishes what was accumulated; and the thread of the collection
  calls the callbacks before and after it advances. A function is known by a number; the function of an entry is gone
  while \<open>deliver_error\<close> calls it.
\<close>

section \<open>State\<close>

record callback =
  cc_fn :: "nat option"
  cc_accumulated :: change_builder
  cc_changes :: change_set
  cc_initial_delivered :: bool
  cc_skip_next :: bool

record collection_notifier = "callback callback_list" +
  cn_error :: bool
  cn_have_callbacks :: bool
  cn_wake_ups :: nat

definition no_changes :: change_builder where
  "no_changes = builder_of [] [] [] []"

definition empty_set :: change_set where
  "empty_set = \<lparr>deletions = [], insertions = [], modifications = [], modifications_new = [], moves = [], columns = []\<rparr>"

definition new_collection_notifier :: collection_notifier where
  "new_collection_notifier =
     \<lparr>cb_entries = [], cb_index = -1, cb_count = -1, cb_next_token = 0, cn_error = False,
      cn_have_callbacks = False, cn_wake_ups = 0\<rparr>"

section \<open>Callbacks\<close>

definition cn_add_callback :: "nat \<Rightarrow> collection_notifier \<Rightarrow> collection_notifier" where
  "cn_add_callback f cn =
     (let cn1 = cl_add \<lparr>cc_fn = Some f, cc_accumulated = no_changes, cc_changes = empty_set,
                        cc_initial_delivered = False, cc_skip_next = False\<rparr> cn
      in if cb_index cn1 = -1 then cn1\<lparr>cn_wake_ups := cn_wake_ups cn1 + 1, cn_have_callbacks := True\<rparr> else cn1)"

definition cn_remove_callback :: "64 word \<Rightarrow> collection_notifier \<Rightarrow> collection_notifier" where
  "cn_remove_callback token cn =
     (case find_token token (cb_entries cn) of
        None \<Rightarrow> cn
      | Some idx \<Rightarrow> (let cn1 = cl_remove token cn in cn1\<lparr>cn_have_callbacks := cb_entries cn1 \<noteq> []\<rparr>))"

definition cn_suppress_next_notification :: "64 word \<Rightarrow> collection_notifier \<Rightarrow> collection_notifier" where
  "cn_suppress_next_notification token cn =
     (case find_token token (cb_entries cn) of
        None \<Rightarrow> cn
      | Some i \<Rightarrow>
          cn\<lparr>cb_entries := (cb_entries cn)[i := map_prod id (cc_skip_next_update (\<lambda>_. True)) (cb_entries cn ! i)]\<rparr>)"

section \<open>Changes\<close>

definition accumulate :: "change_builder \<Rightarrow> callback \<Rightarrow> callback" where
  "accumulate change c =
     (if cc_skip_next c then c\<lparr>cc_skip_next := False\<rparr>
      else c\<lparr>cc_accumulated := cb_merge (cc_accumulated c) change\<rparr>)"

definition cn_add_changes :: "change_builder \<Rightarrow> collection_notifier \<Rightarrow> collection_notifier" where
  "cn_add_changes change cn = cn\<lparr>cb_entries := map (map_prod id (accumulate change)) (cb_entries cn)\<rparr>"

text \<open>What is left of a builder that \<open>finalize\<close> has moved the sets and lists out of.\<close>

definition moved_out :: "change_builder \<Rightarrow> change_builder" where
  "moved_out b = b\<lparr>deletions := [], insertions := [], modifications := [], moves := [], columns := []\<rparr>"

definition pack :: "callback \<Rightarrow> callback" where
  "pack c = c\<lparr>cc_changes := cb_finalize (cc_accumulated c), cc_accumulated := moved_out (cc_accumulated c)\<rparr>"

definition cn_package_for_delivery :: "bool \<Rightarrow> collection_notifier \<Rightarrow> bool \<times> collection_notifier" where
  "cn_package_for_delivery prepared cn =
     (if \<not> prepared then (False, cn)
      else (True, cn\<lparr>cb_entries := map (map_prod id pack) (cb_entries cn), cb_count := of_nat (length (cb_entries cn))\<rparr>))"

section \<open>Delivery\<close>

text \<open>What may happen while a callback runs: operations of the callback itself and of other threads.\<close>

datatype cn_op =
    AddCallback nat
  | RemoveCallback "64 word"
  | SuppressNext "64 word"
  | AddChanges change_builder

fun cn_apply :: "cn_op \<Rightarrow> collection_notifier \<Rightarrow> collection_notifier" where
  "cn_apply (AddCallback f) cn = cn_add_callback f cn"
| "cn_apply (RemoveCallback t) cn = cn_remove_callback t cn"
| "cn_apply (SuppressNext t) cn = cn_suppress_next_notification t cn"
| "cn_apply (AddChanges change) cn = cn_add_changes change cn"

datatype cn_event =
    Before "64 word" "nat option" change_set
  | After "64 word" "nat option" change_set
  | Error "64 word" "nat option"

definition visit_before :: "64 word \<Rightarrow> callback \<Rightarrow> callback \<times> cn_event option" where
  "visit_before t c = (c, if set_empty (cc_changes c) then None else Some (Before t (cc_fn c) (cc_changes c)))"

definition cn_before_advance ::
  "nat \<Rightarrow> cn_op list list \<Rightarrow> collection_notifier \<Rightarrow> loop_fault + (cn_event list \<times> collection_notifier)" where
  "cn_before_advance fuel script cn = for_each_callback fuel visit_before cn_apply (\<lambda>t. []) script cn"

definition visit_after :: "64 word \<Rightarrow> callback \<Rightarrow> callback \<times> cn_event option" where
  "visit_after t c =
     (if cc_initial_delivered c \<and> set_empty (cc_changes c) then (c, None)
      else (c\<lparr>cc_initial_delivered := True, cc_changes := empty_set\<rparr>, Some (After t (cc_fn c) (cc_changes c))))"

definition cn_after_advance ::
  "nat \<Rightarrow> cn_op list list \<Rightarrow> collection_notifier \<Rightarrow> loop_fault + (cn_event list \<times> collection_notifier)" where
  "cn_after_advance fuel script cn = for_each_callback fuel visit_after cn_apply (\<lambda>t. []) script cn"

definition visit_error :: "64 word \<Rightarrow> callback \<Rightarrow> callback \<times> cn_event option" where
  "visit_error t c = (c\<lparr>cc_fn := None\<rparr>, Some (Error t (cc_fn c)))"

definition cn_deliver_error ::
  "nat \<Rightarrow> cn_op list list \<Rightarrow> collection_notifier \<Rightarrow> loop_fault + (cn_event list \<times> collection_notifier)" where
  "cn_deliver_error fuel script cn =
     for_each_callback fuel visit_error cn_apply (\<lambda>t. [RemoveCallback t]) script
       (cn\<lparr>cn_error := True, cb_count := of_nat (length (cb_entries cn))\<rparr>)"

section \<open>The operations between two calls\<close>

fun cn_removes :: "cn_op \<Rightarrow> 64 word option" where
  "cn_removes (RemoveCallback t) = Some t"
| "cn_removes op = None"

definition cn_view :: "callback \<Rightarrow> nat option \<times> change_set \<times> bool" where
  "cn_view c = (cc_fn c, cc_changes c, cc_initial_delivered c)"

lemma list_ok_more:
  "list_ok limit n (cn\<lparr>cn_have_callbacks := h\<rparr>) = list_ok limit n cn" "todo v (cn\<lparr>cn_have_callbacks := h\<rparr>) = todo v cn"
  "counted v (cn\<lparr>cn_have_callbacks := h\<rparr>) = counted v cn"
  "list_ok limit n (cn\<lparr>cn_wake_ups := w\<rparr>) = list_ok limit n cn" "todo v (cn\<lparr>cn_wake_ups := w\<rparr>) = todo v cn"
  "counted v (cn\<lparr>cn_wake_ups := w\<rparr>) = counted v cn"
  "list_ok limit n (cn\<lparr>cn_error := e\<rparr>) = list_ok limit n cn" "todo v (cn\<lparr>cn_error := e\<rparr>) = todo v cn"
  "counted v (cn\<lparr>cn_error := e\<rparr>) = counted v cn"
  by (simp_all add: list_ok_def todo_def counted_def)

lemma entries_changed:
  assumes "list_ok limit n cn" "map fst es = map fst (cb_entries cn)" "map (v \<circ> snd) es = map (v \<circ> snd) (cb_entries cn)"
  shows "list_ok limit n (cn\<lparr>cb_entries := es\<rparr>) \<and> todo v (cn\<lparr>cb_entries := es\<rparr>) = todo v cn \<and>
    counted v (cn\<lparr>cb_entries := es\<rparr>) = counted v cn"
proof -
  have t: "map fst (take k es) = map fst (take k (cb_entries cn))" "map fst (drop k es) = map fst (drop k (cb_entries cn))"
    "length es = length (cb_entries cn)" for k
    using assms(2) by (metis take_map, metis drop_map, metis length_map)
  have "map (map_prod id v) es = map (map_prod id v) (cb_entries cn)"
    using assms(2,3) by (intro nth_equalityI) (auto simp: list_eq_iff_nth_eq prod_eq_iff)
  then have "todo v (cn\<lparr>cb_entries := es\<rparr>) = todo v cn" "counted v (cn\<lparr>cb_entries := es\<rparr>) = counted v cn"
    by (simp_all add: todo_def counted_def) (metis drop_map take_map, metis take_map)
  moreover have "list_ok limit n (cn\<lparr>cb_entries := es\<rparr>)"
    using assms(1) unfolding list_ok_def by (simp add: assms(2) t del: set_map)
  ultimately show ?thesis by simp
qed

lemma cn_operation:
  assumes ok: "list_ok limit (Suc n) cn" and r: "\<forall>t. cn_removes op = Some t \<longrightarrow> t < limit"
  shows "list_ok limit n (cn_apply op cn) \<and>
    todo cn_view (cn_apply op cn) = filter (\<lambda>tv. cn_removes op \<noteq> Some (fst tv)) (todo cn_view cn) \<and>
    counted cn_view (cn_apply op cn) = filter (\<lambda>tv. cn_removes op \<noteq> Some (fst tv)) (counted cn_view cn)"
proof (cases op)
  case (AddCallback f)
  then show ?thesis
    using list_ok_add[OF ok, of _ cn_view] by (auto simp: cn_add_callback_def Let_def list_ok_more)
next
  case (RemoveCallback t)
  have "list_ok limit n (cl_remove t cn) \<and> todo cn_view (cl_remove t cn) = filter (\<lambda>tv. t \<noteq> fst tv) (todo cn_view cn) \<and>
    counted cn_view (cl_remove t cn) = filter (\<lambda>tv. t \<noteq> fst tv) (counted cn_view cn)"
    using list_ok_remove[OF list_ok_mono[OF ok], of n t cn_view] r RemoveCallback by (auto intro!: filter_cong)
  moreover have "find_token t (cb_entries cn) = None \<Longrightarrow> cl_remove t cn = cn" by (simp add: cl_remove_def)
  ultimately show ?thesis
    using RemoveCallback by (auto simp: cn_remove_callback_def Let_def list_ok_more split: option.splits)
next
  case (SuppressNext t)
  show ?thesis
  proof (cases "find_token t (cb_entries cn)")
    case None
    then show ?thesis using SuppressNext list_ok_mono[OF ok, of n] by (simp add: cn_suppress_next_notification_def)
  next
    case (Some i)
    have "map f ((cb_entries cn)[i := map_prod id (cc_skip_next_update (\<lambda>_. True)) (cb_entries cn ! i)]) = map f (cb_entries cn)"
      if "f (map_prod id (cc_skip_next_update (\<lambda>_. True)) (cb_entries cn ! i)) = f (cb_entries cn ! i)" for f :: "_ \<Rightarrow> 'a"
      using that find_token_Some[OF Some] by (simp add: map_update) (metis list_update_id nth_map)
    note m = this
    show ?thesis
      using entries_changed[OF list_ok_mono[OF ok], of n "(cb_entries cn)[i := map_prod id (cc_skip_next_update (\<lambda>_. True)) (cb_entries cn ! i)]" cn_view]
        SuppressNext Some by (simp add: cn_suppress_next_notification_def m cn_view_def)
  qed
next
  case (AddChanges change)
  have "list_ok limit n (cn_add_changes change cn) \<and> todo cn_view (cn_add_changes change cn) = todo cn_view cn \<and>
    counted cn_view (cn_add_changes change cn) = counted cn_view cn"
    unfolding cn_add_changes_def
    by (rule entries_changed[OF list_ok_mono[OF ok]]) (auto simp: cn_view_def accumulate_def)
  then show ?thesis using AddChanges by simp
qed

interpretation collection: interrupted_loop cn_apply cn_view cn_removes
  by unfold_locales (rule cn_operation)

end
