(* ===== verification/CollectionNotifierProps.thy ===== *)
theory CollectionNotifierProps
  imports CollectionNotifier CallbackList ChangeProps "HOL-Library.Code_Target_Nat"
begin

text \<open>The properties of the notifiers: which callbacks a delivery calls, and what the changes that it delivers say.\<close>

section \<open>Which callbacks are called\<close>








text \<open>Three callbacks, one transaction that inserts a row. While the first is called before the advance, it
  removes the second and adds a fourth.\<close>

definition three_callbacks :: collection_notifier where
  "three_callbacks = cn_add_changes (cb_insert no_changes 0 1 True)
     (cn_add_callback 12 (cn_add_callback 11 (cn_add_callback 10 new_collection_notifier)))"

definition insertion :: change_set where
  "insertion = cb_finalize (cb_insert no_changes 0 1 True)"



section \<open>What the changes say\<close>











lemma events_Inr: "map_sum id fst r = Inr x \<Longrightarrow> \<exists>z. r = Inr (x, z)"
  by (cases r) auto

section \<open>Removing a callback that was added during the delivery\<close>

text \<open>
  The proviso of the delivery is needed. The count of the loop goes down with every callback that is removed, also with one
  that was never counted. When a callback adds another one and removes it again, the last of the packaged callbacks is not
  called; when the only callback adds two and removes both, the count wraps around and
  the loop reads the vector outside its range. The callbacks of a connection behave in the same way.
\<close>
theorem removing_new_callback_breaks_delivery:
  "(\<exists>cn'. cn_before_advance 4 [[AddCallback 13, RemoveCallback 3]] (snd (cn_package_for_delivery True three_callbacks)) =
      Inr ([Before 0 (Some 10) insertion, Before 1 (Some 11) insertion], cn')) \<and>
   cn_before_advance 4 [[AddCallback 13, AddCallback 14, RemoveCallback 1, RemoveCallback 2]]
     (snd (cn_package_for_delivery True (cn_add_changes (cb_insert no_changes 0 1 True) (cn_add_callback 10 new_collection_notifier)))) =
     Inl OutOfRange \<and>
   (\<exists>cl'. invoke_callbacks 4 [[AddConnection 7, RemoveConnection 2]]
      (connection_apply (AddConnection 6) (connection_apply (AddConnection 5) new_connection_notifier)) = Inr ([(0, 5)], cl')) \<and>
   invoke_callbacks 4 [[AddConnection 6, AddConnection 7, RemoveConnection 1, RemoveConnection 2]]
     (connection_apply (AddConnection 5) new_connection_notifier) = Inl OutOfRange"
proof -
  have "map_sum id fst (cn_before_advance 4 [[AddCallback 13, RemoveCallback 3]] (snd (cn_package_for_delivery True three_callbacks))) =
      Inr [Before 0 (Some 10) insertion, Before 1 (Some 11) insertion]"
    "cn_before_advance 4 [[AddCallback 13, AddCallback 14, RemoveCallback 1, RemoveCallback 2]]
     (snd (cn_package_for_delivery True (cn_add_changes (cb_insert no_changes 0 1 True) (cn_add_callback 10 new_collection_notifier)))) =
     Inl OutOfRange"
    "map_sum id fst (invoke_callbacks 4 [[AddConnection 7, RemoveConnection 2]]
      (connection_apply (AddConnection 6) (connection_apply (AddConnection 5) new_connection_notifier))) = Inr [(0, 5)]"
    "invoke_callbacks 4 [[AddConnection 6, AddConnection 7, RemoveConnection 1, RemoveConnection 2]]
     (connection_apply (AddConnection 5) new_connection_notifier) = Inl OutOfRange"
    by code_simp+
  note e = this
  show ?thesis by (intro conjI events_Inr[OF e(1)] e(2) events_Inr[OF e(3)] e(4))
qed

end
