(* ===== verification/SyncSession.thy ===== *)
theory SyncSession
  imports Prelude
begin

text \<open>
  \<open>SyncSession\<close> (\<open>sync/sync_session.cpp\<close>): the state machine that decides when a synchronised Realm is
  connected. A session has a mutex; the code between two points where the mutex is not held is one
  \<open>section\<close>, a function from the session to the session and the sections that the same thread runs
  next. \<open>advance_state\<close> into \<open>Inactive\<close> gives the mutex up in the middle, so what follows is a section
  of its own. What the code does to its surroundings is recorded as a list of effects: calls of the
  underlying \<open>sync::Session\<close>, which is in a library that the repository has only the headers of, of
  the binding's handlers and of the manager. Using the underlying session when there is none is
  undefined in C++ and an error here, and so is reading the server URL when there is none.
\<close>

section \<open>State\<close>

datatype session_state = WaitingForAccessToken | Active | Dying | Inactive

datatype stop_policy = Immediately | LiveIndefinitely | AfterChangesUploaded

datatype connection_state = Disconnected | Connecting | Connected

datatype waiter = UploadCompletion | DownloadCompletion

text \<open>The category of a \<open>std::error_code\<close> with its value. \<open>se_recovery\<close> tells whether the paths of the
  original file and of a backup were added to the error.\<close>

datatype error_code = ProtocolCode int | ClientCode int | OtherCode int

record sync_error =
  se_code :: error_code
  se_fatal :: bool
  se_unrecognized :: bool
  se_recovery :: "bool option"

datatype effect =
    MakeSession nat
  | BindSession string string
  | RefreshSession string
  | CancelReconnectDelay
  | ServerOverride string int
  | TransactNotify int
  | AsyncWait waiter nat
  | AsyncWaitDeath nat
  | DropSession
  | AskForToken
  | Unregister
  | Aborted nat
  | ConnectionCallbacks connection_state connection_state
  | InvalidateUser
  | MarkForDeletion bool
  | ReportError sync_error
  | SetLocalVersion int

record sync_session =
  sn_state :: session_state
  sn_connection :: connection_state
  sn_death_count :: nat
  sn_stop_policy :: stop_policy
  sn_error_handler :: bool
  sn_waits :: "(waiter \<times> nat) list"
  sn_override :: "(string \<times> int) option"
  sn_session :: "nat option"
  sn_made :: nat
  sn_bound :: bool
  sn_deferred_commit :: "int option"
  sn_deferred_close :: bool
  sn_server_url :: "string option"
  sn_external :: bool
  sn_effects :: "effect list"

definition new_session :: "stop_policy \<Rightarrow> bool \<Rightarrow> sync_session" where
  "new_session policy handler =
     \<lparr>sn_state = Inactive, sn_connection = Disconnected, sn_death_count = 0, sn_stop_policy = policy,
      sn_error_handler = handler, sn_waits = [], sn_override = None, sn_session = None, sn_made = 0,
      sn_bound = False, sn_deferred_commit = None, sn_deferred_close = False, sn_server_url = None,
      sn_external = False, sn_effects = []\<rparr>"

text \<open>What a thread does next. A completion handler is known by a number.\<close>

datatype error_action = NoChange | ToInactive | ToError

datatype code_section =
    FinishInactive "(waiter \<times> nat) list"
  | HandleError sync_error
  | ErrorSwitch sync_error
  | ErrorNext error_action sync_error
  | ReportErrorTo sync_error
  | DidDropReference

datatype session_fault = NullSession | NullUrl

type_synonym outcome = "session_fault + (sync_session \<times> code_section list)"

definition emit :: "effect \<Rightarrow> sync_session \<Rightarrow> sync_session" where
  "emit x s = s\<lparr>sn_effects := sn_effects s @ [x]\<rparr>"

definition emits :: "effect list \<Rightarrow> sync_session \<Rightarrow> sync_session" where
  "emits xs s = s\<lparr>sn_effects := sn_effects s @ xs\<rparr>"

definition stay :: "sync_session \<Rightarrow> outcome" where
  "stay s = Inr (s, [])"

text \<open>A call of the underlying session.\<close>

definition on_session :: "effect \<Rightarrow> sync_session \<Rightarrow> session_fault + sync_session" where
  "on_session x s = (case sn_session s of None \<Rightarrow> Inl NullSession | Some _ \<Rightarrow> Inr (emit x s))"

fun and_then :: "session_fault + 'a \<Rightarrow> ('a \<Rightarrow> session_fault + 'b) \<Rightarrow> session_fault + 'b" where
  "and_then (Inl e) f = Inl e"
| "and_then (Inr s) f = f s"

section \<open>Changing the state\<close>

text \<open>\<open>Inactive::enter_state\<close> up to \<open>unregister\<close>, which unlocks, and the rest of it.\<close>

definition enter_inactive :: "sync_session \<Rightarrow> outcome" where
  "enter_inactive s =
     (let s' = s\<lparr>sn_waits := [], sn_session := None\<rparr>;
          s'' = (case sn_session s of None \<Rightarrow> s' | Some _ \<Rightarrow> emit DropSession s')
      in Inr (emit Unregister s'', [FinishInactive (sn_waits s)]))"

definition finish_inactive :: "(waiter \<times> nat) list \<Rightarrow> sync_session \<Rightarrow> sync_session" where
  "finish_inactive packages s =
     (let old_state = sn_connection s;
          s' = s\<lparr>sn_connection := Disconnected\<rparr>;
          s'' = (if old_state \<noteq> Disconnected then emit (ConnectionCallbacks old_state Disconnected) s' else s')
      in emits (map (Aborted \<circ> snd) packages) s'')"

definition enter_waiting :: "sync_session \<Rightarrow> outcome" where
  "enter_waiting s = stay (s\<lparr>sn_deferred_close := False\<rparr>)"

definition enter_dying :: "sync_session \<Rightarrow> outcome" where
  "enter_dying s =
     (case sn_session s of
        None \<Rightarrow> enter_inactive (s\<lparr>sn_state := Inactive\<rparr>)
      | Some _ \<Rightarrow>
          let s' = s\<lparr>sn_death_count := sn_death_count s + 1\<rparr>
          in stay (emit (AsyncWaitDeath (sn_death_count s')) s'))"

definition advance_state :: "session_state \<Rightarrow> sync_session \<Rightarrow> outcome" where
  "advance_state st s0 =
     (let s = s0\<lparr>sn_state := st\<rparr>
      in case st of
           WaitingForAccessToken \<Rightarrow> enter_waiting s
         | Active \<Rightarrow> stay s
         | Dying \<Rightarrow> enter_dying s
         | Inactive \<Rightarrow> enter_inactive s)"

text \<open>The handler that \<open>Dying::enter_state\<close> registers with the death count of that time.\<close>

definition uploads_done :: "nat \<Rightarrow> sync_session \<Rightarrow> outcome" where
  "uploads_done current_death_count s =
     (if sn_state s = Dying \<and> sn_death_count s = current_death_count then advance_state Inactive s else stay s)"

definition create_sync_session :: "sync_session \<Rightarrow> sync_session" where
  "create_sync_session s =
     (case sn_session s of
        Some _ \<Rightarrow> s
      | None \<Rightarrow>
          let n = sn_made s + 1
          in emit (MakeSession n) (s\<lparr>sn_session := Some n, sn_made := n, sn_bound := False\<rparr>))"

definition cancel_pending_waits :: "sync_session \<Rightarrow> sync_session" where
  "cancel_pending_waits s = emits (map (Aborted \<circ> snd) (sn_waits s)) (s\<lparr>sn_waits := []\<rparr>)"

section \<open>Waiting for an access token\<close>

definition waiting_close :: "sync_session \<Rightarrow> outcome" where
  "waiting_close s =
     (case sn_stop_policy s of
        Immediately \<Rightarrow> advance_state Inactive s
      | _ \<Rightarrow> stay (s\<lparr>sn_deferred_close := True\<rparr>))"

definition active_close :: "sync_session \<Rightarrow> outcome" where
  "active_close s =
     (case sn_stop_policy s of
        Immediately \<Rightarrow> advance_state Inactive s
      | LiveIndefinitely \<Rightarrow> stay s
      | AfterChangesUploaded \<Rightarrow> advance_state Dying s)"

definition refresh_or_bind :: "string \<Rightarrow> sync_session \<Rightarrow> session_fault + sync_session" where
  "refresh_or_bind access_token s =
     (if sn_bound s then and_then (on_session (RefreshSession access_token) s) (on_session CancelReconnectDelay)
      else case sn_server_url s of
             None \<Rightarrow> Inl NullUrl
           | Some url \<Rightarrow>
               and_then (on_session (BindSession url access_token) s) (\<lambda>s'. Inr (s'\<lparr>sn_bound := True\<rparr>)))"

definition apply_override :: "sync_session \<Rightarrow> session_fault + sync_session" where
  "apply_override s = (case sn_override s of None \<Rightarrow> Inr s | Some (a, p) \<Rightarrow> on_session (ServerOverride a p) s)"

fun register_waits :: "(waiter \<times> nat) list \<Rightarrow> sync_session \<Rightarrow> session_fault + sync_session" where
  "register_waits [] s = Inr s"
| "register_waits ((w, c) # ps) s = and_then (on_session (AsyncWait w c) s) (register_waits ps)"

definition register_pending :: "sync_session \<Rightarrow> session_fault + sync_session" where
  "register_pending s = and_then (register_waits (sn_waits s) s) (\<lambda>s'. Inr (s'\<lparr>sn_waits := []\<rparr>))"

definition deferred_commit :: "sync_session \<Rightarrow> session_fault + sync_session" where
  "deferred_commit s =
     (case sn_deferred_commit s of
        None \<Rightarrow> Inr s
      | Some v \<Rightarrow> and_then (on_session (TransactNotify v) s) (\<lambda>s'. Inr (s'\<lparr>sn_deferred_commit := None\<rparr>)))"

definition waiting_refresh :: "string \<Rightarrow> string option \<Rightarrow> sync_session \<Rightarrow> outcome" where
  "waiting_refresh access_token server_url s0 =
     (let s1 = create_sync_session s0;
          s2 = (if sn_server_url s1 = None then s1\<lparr>sn_server_url := server_url\<rparr> else s1)
      in and_then (refresh_or_bind access_token s2)
          (\<lambda>s3. and_then (apply_override s3)
          (\<lambda>s4. and_then (register_pending s4)
          (\<lambda>s5. and_then (deferred_commit s5)
          (\<lambda>s6. and_then (advance_state Active s6)
          (\<lambda>(s7, secs). if sn_deferred_close s7 then active_close s7 else Inr (s7, secs)))))))"

definition waiting_revive :: "sync_session \<Rightarrow> outcome" where
  "waiting_revive s = stay (s\<lparr>sn_deferred_close := False\<rparr>)"

definition waiting_notify :: "int \<Rightarrow> sync_session \<Rightarrow> outcome" where
  "waiting_notify version s = stay (s\<lparr>sn_deferred_commit := Some version\<rparr>)"

definition queue_wait :: "waiter \<Rightarrow> nat \<Rightarrow> sync_session \<Rightarrow> outcome" where
  "queue_wait w c s = stay (s\<lparr>sn_waits := sn_waits s @ [(w, c)]\<rparr>)"

definition store_override :: "string \<Rightarrow> int \<Rightarrow> sync_session \<Rightarrow> outcome" where
  "store_override address port s = stay (s\<lparr>sn_override := Some (address, port)\<rparr>)"

section \<open>Active and dying\<close>

definition active_refresh :: "string \<Rightarrow> sync_session \<Rightarrow> outcome" where
  "active_refresh access_token s =
     and_then (and_then (on_session (RefreshSession access_token) s) (on_session CancelReconnectDelay)) stay"

definition active_token_expired :: "sync_session \<Rightarrow> outcome" where
  "active_token_expired s =
     and_then (advance_state WaitingForAccessToken s) (\<lambda>(s', secs). Inr (emit AskForToken s', secs))"

definition active_notify :: "int \<Rightarrow> sync_session \<Rightarrow> outcome" where
  "active_notify version s = and_then (on_session (TransactNotify version) s) stay"

definition pass_wait :: "waiter \<Rightarrow> nat \<Rightarrow> sync_session \<Rightarrow> outcome" where
  "pass_wait w c s = and_then (on_session (AsyncWait w c) s) stay"

definition active_reconnect :: "sync_session \<Rightarrow> outcome" where
  "active_reconnect s = and_then (on_session CancelReconnectDelay s) stay"

definition pass_override :: "string \<Rightarrow> int \<Rightarrow> sync_session \<Rightarrow> outcome" where
  "pass_override address port s =
     and_then (on_session (ServerOverride address port) (s\<lparr>sn_override := Some (address, port)\<rparr>)) stay"

section \<open>The methods\<close>

definition sn_refresh_access_token :: "string \<Rightarrow> string option \<Rightarrow> sync_session \<Rightarrow> outcome" where
  "sn_refresh_access_token access_token server_url s =
     (if sn_server_url s = None \<and> server_url = None then stay s
      else case sn_state s of
             WaitingForAccessToken \<Rightarrow> waiting_refresh access_token server_url s
           | Active \<Rightarrow> active_refresh access_token s
           | _ \<Rightarrow> stay s)"

definition sn_access_token_expired :: "sync_session \<Rightarrow> outcome" where
  "sn_access_token_expired s = (case sn_state s of Active \<Rightarrow> active_token_expired s | _ \<Rightarrow> stay s)"

definition sn_nonsync_transact_notify :: "int \<Rightarrow> sync_session \<Rightarrow> outcome" where
  "sn_nonsync_transact_notify version s0 =
     (let s = emit (SetLocalVersion version) s0
      in case sn_state s of
           WaitingForAccessToken \<Rightarrow> waiting_notify version s
         | Active \<Rightarrow> active_notify version s
         | _ \<Rightarrow> stay s)"

definition sn_revive_if_needed :: "sync_session \<Rightarrow> outcome" where
  "sn_revive_if_needed s =
     (case sn_state s of
        WaitingForAccessToken \<Rightarrow> waiting_revive s
      | Active \<Rightarrow> stay s
      | Dying \<Rightarrow> advance_state Active s
      | Inactive \<Rightarrow> and_then (advance_state WaitingForAccessToken s) (\<lambda>(s', secs). Inr (emit AskForToken s', secs)))"

definition sn_handle_reconnect :: "sync_session \<Rightarrow> outcome" where
  "sn_handle_reconnect s =
     (case sn_state s of
        WaitingForAccessToken \<Rightarrow> stay (emit AskForToken s)
      | Active \<Rightarrow> active_reconnect s
      | _ \<Rightarrow> stay s)"

definition sn_log_out :: "sync_session \<Rightarrow> outcome" where
  "sn_log_out s = (case sn_state s of Inactive \<Rightarrow> stay s | _ \<Rightarrow> advance_state Inactive s)"

definition sn_close :: "sync_session \<Rightarrow> outcome" where
  "sn_close s =
     (case sn_state s of
        WaitingForAccessToken \<Rightarrow> waiting_close s
      | Active \<Rightarrow> active_close s
      | _ \<Rightarrow> stay s)"

definition sn_wait_for_completion :: "waiter \<Rightarrow> nat \<Rightarrow> sync_session \<Rightarrow> outcome" where
  "sn_wait_for_completion w c s =
     (case sn_state s of
        WaitingForAccessToken \<Rightarrow> queue_wait w c s
      | Active \<Rightarrow> pass_wait w c s
      | Dying \<Rightarrow> pass_wait w c s
      | Inactive \<Rightarrow> queue_wait w c s)"

definition sn_override_server :: "string \<Rightarrow> int \<Rightarrow> sync_session \<Rightarrow> outcome" where
  "sn_override_server address port s =
     (case sn_state s of
        WaitingForAccessToken \<Rightarrow> store_override address port s
      | Active \<Rightarrow> pass_override address port s
      | Dying \<Rightarrow> pass_override address port s
      | Inactive \<Rightarrow> store_override address port s)"

text \<open>The listener of the underlying session.\<close>

definition connection_changed :: "connection_state \<Rightarrow> sync_error option \<Rightarrow> sync_session \<Rightarrow> outcome" where
  "connection_changed state err s =
     Inr (emit (ConnectionCallbacks (sn_connection s) state) (s\<lparr>sn_connection := state\<rparr>),
          case err of None \<Rightarrow> [] | Some e \<Rightarrow> [HandleError e])"

text \<open>\<open>external_reference\<close>; the last owner of it goes, and then its destructor runs.\<close>

definition take_reference :: "sync_session \<Rightarrow> outcome" where
  "take_reference s = stay (s\<lparr>sn_external := True\<rparr>)"

definition drop_reference :: "sync_session \<Rightarrow> outcome" where
  "drop_reference s = Inr (s\<lparr>sn_external := False\<rparr>, if sn_external s then [DidDropReference] else [])"

definition did_drop_external_reference :: "sync_session \<Rightarrow> outcome" where
  "did_drop_external_reference s = (if sn_external s then stay s else sn_close s)"

section \<open>Errors\<close>

text \<open>The values of \<open>ProtocolError\<close> and \<open>Client::Error\<close> for which the code has a case of its own.\<close>

definition ignored_protocol_errors :: "int list" where
  "ignored_protocol_errors = [100, 101, 200, 201, 213]"

definition token_expired :: int where
  "token_expired = 202"

definition bad_authentication :: int where
  "bad_authentication = 203"

definition permission_denied :: int where
  "permission_denied = 206"

definition client_reset_errors :: "int list" where
  "client_reset_errors = [216, 207, 208, 209, 211]"

definition ignored_client_errors :: "int list" where
  "ignored_client_errors = [100, 118]"

text \<open>The first section: the state may take the error over.\<close>

definition state_handle_error :: "sync_error \<Rightarrow> sync_session \<Rightarrow> outcome" where
  "state_handle_error err s =
     (case sn_state s of
        Dying \<Rightarrow> if se_fatal err then advance_state Inactive s else stay s
      | _ \<Rightarrow> Inr (s, [ErrorSwitch err]))"

definition update_error_and_mark_file_for_deletion :: "bool \<Rightarrow> sync_error \<Rightarrow> sync_session \<Rightarrow> sync_error \<times> sync_session" where
  "update_error_and_mark_file_for_deletion should_backup err s =
     (err\<lparr>se_recovery := Some should_backup\<rparr>, emit (MarkForDeletion should_backup) s)"

definition error_switch :: "sync_error \<Rightarrow> sync_session \<Rightarrow> outcome" where
  "error_switch err s =
     (let next_state = (if se_fatal err then ToError else NoChange)
      in case se_code err of
           ProtocolCode c \<Rightarrow>
             if c \<in> set ignored_protocol_errors then stay s
             else if c = token_expired then sn_access_token_expired s
             else if c = bad_authentication then
               Inr (emit InvalidateUser (cancel_pending_waits s), [ErrorNext NoChange err])
             else if c = permission_denied then
               (let (err', s') = update_error_and_mark_file_for_deletion False err s in Inr (s', [ErrorNext ToInactive err']))
             else if c \<in> set client_reset_errors then
               (let (err', s') = update_error_and_mark_file_for_deletion True err s in Inr (s', [ErrorNext ToInactive err']))
             else Inr (s, [ErrorNext next_state err])
         | ClientCode c \<Rightarrow> if c \<in> set ignored_client_errors then stay s else Inr (s, [ErrorNext next_state err])
         | OtherCode c \<Rightarrow> Inr (s, [ErrorNext next_state (err\<lparr>se_unrecognized := True\<rparr>)]))"

definition error_next :: "error_action \<Rightarrow> sync_error \<Rightarrow> sync_session \<Rightarrow> outcome" where
  "error_next action err s =
     (case action of
        NoChange \<Rightarrow> Inr (s, [ReportErrorTo err])
      | ToInactive \<Rightarrow> and_then (advance_state Inactive s) (\<lambda>(s', secs). Inr (s', secs @ [ReportErrorTo err]))
      | ToError \<Rightarrow> Inr (cancel_pending_waits s, [ReportErrorTo err]))"

definition report_error :: "sync_error \<Rightarrow> sync_session \<Rightarrow> outcome" where
  "report_error err s = stay (if sn_error_handler s then emit (ReportError err) s else s)"

fun run_section :: "code_section \<Rightarrow> sync_session \<Rightarrow> outcome" where
  "run_section (FinishInactive packages) s = stay (finish_inactive packages s)"
| "run_section (HandleError err) s = state_handle_error err s"
| "run_section (ErrorSwitch err) s = error_switch err s"
| "run_section (ErrorNext action err) s = error_next action err s"
| "run_section (ReportErrorTo err) s = report_error err s"
| "run_section DidDropReference s = did_drop_external_reference s"

section \<open>Threads\<close>

text \<open>A call from outside, which is the first section of a thread: of the application, of the binding or of
  the event loop of the sync client. The listener of a session may still be called after the
  session is gone, as the header of the library says.\<close>

datatype session_event =
    RefreshAccessToken string "string option"
  | ReviveIfNeeded
  | HandleReconnect
  | LogOut
  | Close
  | NonsyncTransactNotify int
  | WaitForCompletion waiter nat
  | OverrideServer string int
  | UploadsDone nat
  | ConnectionChanged connection_state "sync_error option"
  | TakeReference
  | DropReference

fun start_event :: "session_event \<Rightarrow> sync_session \<Rightarrow> outcome" where
  "start_event (RefreshAccessToken token url) s = sn_refresh_access_token token url s"
| "start_event ReviveIfNeeded s = sn_revive_if_needed s"
| "start_event HandleReconnect s = sn_handle_reconnect s"
| "start_event LogOut s = sn_log_out s"
| "start_event Close s = sn_close s"
| "start_event (NonsyncTransactNotify v) s = sn_nonsync_transact_notify v s"
| "start_event (WaitForCompletion w c) s = sn_wait_for_completion w c s"
| "start_event (OverrideServer a p) s = sn_override_server a p s"
| "start_event (UploadsDone n) s = uploads_done n s"
| "start_event (ConnectionChanged st err) s = connection_changed st err s"
| "start_event TakeReference s = take_reference s"
| "start_event DropReference s = drop_reference s"

text \<open>A configuration: the session, the threads with their remaining sections, and the completion handlers
  that were registered so far. Any thread may run its next section.\<close>

record sync_config =
  sc_session :: sync_session
  sc_threads :: "code_section list list"
  sc_registered :: "nat list"

definition new_config :: "stop_policy \<Rightarrow> bool \<Rightarrow> sync_config" where
  "new_config policy handler =
     \<lparr>sc_session = new_session policy handler, sc_threads = [], sc_registered = []\<rparr>"

fun registers :: "session_event \<Rightarrow> nat list" where
  "registers (WaitForCompletion w c) = [c]"
| "registers ev = []"

inductive sync_step :: "sync_config \<Rightarrow> sync_config \<Rightarrow> bool" where
  call: "start_event ev (sc_session cf) = Inr (s, secs) \<Longrightarrow>
    sync_step cf \<lparr>sc_session = s, sc_threads = sc_threads cf @ [secs], sc_registered = sc_registered cf @ registers ev\<rparr>"
| continue: "i < length (sc_threads cf) \<Longrightarrow> sc_threads cf ! i = sec # rest \<Longrightarrow>
    run_section sec (sc_session cf) = Inr (s, secs) \<Longrightarrow>
    sync_step cf (cf\<lparr>sc_session := s, sc_threads := (sc_threads cf)[i := secs @ rest]\<rparr>)"

inductive reachable :: "stop_policy \<Rightarrow> bool \<Rightarrow> sync_config \<Rightarrow> bool" for policy handler where
  start: "reachable policy handler (new_config policy handler)"
| step: "reachable policy handler cf \<Longrightarrow> sync_step cf cf' \<Longrightarrow> reachable policy handler cf'"

inductive_cases sync_stepE: "sync_step cf cf'"

end
