(* ===== verification/SyncSessionProps.thy ===== *)
theory SyncSessionProps
  imports SyncSession "HOL-Library.Multiset"
begin

text \<open>
  What holds of a synchronisation session in every reachable configuration, whatever calls are made and
  however the threads are interleaved: it never uses an underlying session that it does not have, its
  states change as documented, and no completion handler is lost. Two lemmas show where giving up the
  mutex in the middle of a state change goes wrong.
\<close>

section \<open>The invariant of a session\<close>

definition sn_ok :: "sync_session \<Rightarrow> bool" where
  "sn_ok s \<longleftrightarrow>
     (sn_session s \<noteq> None \<longrightarrow> sn_bound s \<and> sn_server_url s \<noteq> None) \<and>
     (sn_state s = Active \<or> sn_state s = Dying \<longrightarrow> sn_session s \<noteq> None \<and> sn_waits s = []) \<and>
     (sn_state s = Inactive \<longrightarrow> sn_session s = None)"

text \<open>The state at the end of a section; a deferred close goes through \<open>Active\<close> in one section.\<close>

fun allowed :: "session_state \<Rightarrow> session_state \<Rightarrow> bool" where
  "allowed WaitingForAccessToken st = True"
| "allowed Active st = True"
| "allowed Dying st = (st \<noteq> WaitingForAccessToken)"
| "allowed Inactive st = (st = Inactive \<or> st = WaitingForAccessToken)"

text \<open>Completion handlers: those that were passed on or called, those that are queued, and those that a
  thread is about to call.\<close>

fun settled_by :: "effect \<Rightarrow> nat list" where
  "settled_by (AsyncWait w c) = [c]"
| "settled_by (Aborted c) = [c]"
| "settled_by x = []"

fun pending_in :: "code_section \<Rightarrow> nat list" where
  "pending_in (FinishInactive packages) = map snd packages"
| "pending_in sec = []"

definition settled :: "sync_session \<Rightarrow> nat list" where
  "settled s = concat (map settled_by (sn_effects s))"

definition handlers :: "sync_session \<Rightarrow> code_section list \<Rightarrow> nat multiset" where
  "handlers s secs = mset (settled s) + mset (map snd (sn_waits s)) + mset (concat (map pending_in secs))"

definition good :: "nat multiset \<Rightarrow> sync_session \<Rightarrow> outcome \<Rightarrow> bool" where
  "good new s out \<longleftrightarrow>
     (case out of
        Inl fault \<Rightarrow> False
      | Inr (s', secs) \<Rightarrow> sn_ok s' \<and> allowed (sn_state s) (sn_state s') \<and> handlers s' secs = handlers s [] + new)"

lemma settled_emit [simp]: "settled (emit x s) = settled s @ settled_by x"
  by (simp add: settled_def emit_def)

lemma settled_emits [simp]: "settled (emits xs s) = settled s @ concat (map settled_by xs)"
  by (simp add: settled_def emits_def)

lemma emit_sel [simp]:
  "sn_state (emit x s) = sn_state s" "sn_session (emit x s) = sn_session s" "sn_waits (emit x s) = sn_waits s"
  "sn_bound (emit x s) = sn_bound s" "sn_server_url (emit x s) = sn_server_url s"
  "sn_deferred_close (emit x s) = sn_deferred_close s" "sn_override (emit x s) = sn_override s"
  "sn_deferred_commit (emit x s) = sn_deferred_commit s" "sn_death_count (emit x s) = sn_death_count s"
  "sn_stop_policy (emit x s) = sn_stop_policy s" "sn_external (emit x s) = sn_external s"
  "sn_connection (emit x s) = sn_connection s"
  by (simp_all add: emit_def)

lemma emits_sel [simp]:
  "sn_state (emits xs s) = sn_state s" "sn_session (emits xs s) = sn_session s" "sn_waits (emits xs s) = sn_waits s"
  "sn_bound (emits xs s) = sn_bound s" "sn_server_url (emits xs s) = sn_server_url s"
  by (simp_all add: emits_def)

lemma settled_update [simp]:
  "settled (s\<lparr>sn_state := st\<rparr>) = settled s" "settled (s\<lparr>sn_connection := k\<rparr>) = settled s"
  "settled (s\<lparr>sn_death_count := n\<rparr>) = settled s" "settled (s\<lparr>sn_waits := ws\<rparr>) = settled s"
  "settled (s\<lparr>sn_override := ov\<rparr>) = settled s" "settled (s\<lparr>sn_session := x\<rparr>) = settled s"
  "settled (s\<lparr>sn_made := n\<rparr>) = settled s" "settled (s\<lparr>sn_bound := b\<rparr>) = settled s"
  "settled (s\<lparr>sn_deferred_commit := v\<rparr>) = settled s" "settled (s\<lparr>sn_deferred_close := b\<rparr>) = settled s"
  "settled (s\<lparr>sn_server_url := u\<rparr>) = settled s" "settled (s\<lparr>sn_external := b\<rparr>) = settled s"
  by (simp_all add: settled_def)

lemma settled_aborted [simp]: "concat (map (settled_by \<circ> (Aborted \<circ> snd)) ws) = map snd ws"
  by (induction ws) auto

lemma on_session_some [simp]: "sn_session s = Some n \<Longrightarrow> on_session x s = Inr (emit x s)"
  by (simp add: on_session_def)

lemmas advance_defs = advance_state_def enter_waiting_def enter_dying_def enter_inactive_def stay_def Let_def

lemma goodI [intro?]:
  "sn_ok s' \<Longrightarrow> allowed (sn_state s) (sn_state s') \<Longrightarrow> handlers s' secs = handlers s [] + new \<Longrightarrow> good new s (Inr (s', secs))"
  by (simp add: good_def)

lemma allowed_refl [simp]: "allowed st st"
  by (cases st) auto

lemmas good_simps = good_def sn_ok_def handlers_def add_ac

lemma good_advance_inactive: "sn_ok s \<Longrightarrow> good {#} s (advance_state Inactive s)"
  by (cases "sn_state s") (auto simp: good_simps advance_defs split: option.splits)

lemma good_close: "sn_ok s \<Longrightarrow> good {#} s (sn_close s)"
  by (cases "sn_state s"; cases "sn_stop_policy s")
    (auto simp: good_simps sn_close_def waiting_close_def active_close_def advance_defs split: option.splits)

lemma register_waits_spec:
  "sn_session s = Some n \<Longrightarrow> register_waits ws s = Inr (emits (map (\<lambda>(w, c). AsyncWait w c) ws) s)"
  by (induction ws arbitrary: s) (auto simp: emit_def emits_def)

lemma settled_registered [simp]: "concat (map (settled_by \<circ> (\<lambda>(w, c). AsyncWait w c)) ws) = map snd ws"
  by (induction ws) auto

text \<open>The state in which the token was handed over, before the state changes.\<close>

lemma waiting_refresh_spec:
  assumes "sn_ok s" "sn_state s = WaitingForAccessToken" "sn_server_url s \<noteq> None \<or> url \<noteq> None"
  obtains s6 where "waiting_refresh token url s =
      and_then (advance_state Active s6) (\<lambda>(s7, secs). if sn_deferred_close s7 then active_close s7 else Inr (s7, secs))"
    "sn_session s6 \<noteq> None" "sn_bound s6" "sn_server_url s6 \<noteq> None" "sn_waits s6 = []"
    "mset (settled s6) = mset (settled s) + mset (map snd (sn_waits s))"
    "sn_deferred_close s6 = sn_deferred_close s" "sn_stop_policy s6 = sn_stop_policy s"
    "\<And>w c. (w, c) \<in> set (sn_waits s) \<Longrightarrow> AsyncWait w c \<in> set (sn_effects s6)"
proof -
  define s1 where "s1 = create_sync_session s"
  define s2 where "s2 = (if sn_server_url s1 = None then s1\<lparr>sn_server_url := url\<rparr> else s1)"
  have s2: "sn_session s2 \<noteq> None" "sn_server_url s2 \<noteq> None" "sn_waits s2 = sn_waits s" "settled s2 = settled s"
    "sn_deferred_close s2 = sn_deferred_close s" "sn_stop_policy s2 = sn_stop_policy s"
    using assms(1,3) by (auto simp: s2_def s1_def create_sync_session_def sn_ok_def Let_def split: option.splits)
  then obtain n u where n: "sn_session s2 = Some n" "sn_server_url s2 = Some u" by auto
  define s3 where "s3 = (if sn_bound s2 then emit CancelReconnectDelay (emit (RefreshSession token) s2)
      else (emit (BindSession u token) s2)\<lparr>sn_bound := True\<rparr>)"
  have s3: "refresh_or_bind token s2 = Inr s3" "sn_bound s3" "sn_session s3 = Some n" "sn_server_url s3 = Some u"
    "sn_waits s3 = sn_waits s" "settled s3 = settled s" "sn_deferred_close s3 = sn_deferred_close s" "sn_stop_policy s3 = sn_stop_policy s"
    using s2 n by (auto simp: refresh_or_bind_def s3_def)
  define s4 where "s4 = (case sn_override s3 of None \<Rightarrow> s3 | Some (a, p) \<Rightarrow> emit (ServerOverride a p) s3)"
  have s4: "apply_override s3 = Inr s4" "sn_bound s4" "sn_session s4 = Some n" "sn_server_url s4 = Some u"
    "sn_waits s4 = sn_waits s" "settled s4 = settled s" "sn_deferred_close s4 = sn_deferred_close s" "sn_stop_policy s4 = sn_stop_policy s"
    using s3 by (auto simp: apply_override_def s4_def split: option.splits)
  define s5 where "s5 = (emits (map (\<lambda>(w, c). AsyncWait w c) (sn_waits s)) s4)\<lparr>sn_waits := []\<rparr>"
  have s5: "register_pending s4 = Inr s5" "sn_bound s5" "sn_session s5 = Some n" "sn_server_url s5 = Some u"
    "sn_waits s5 = []" "settled s5 = settled s @ map snd (sn_waits s)" "sn_deferred_close s5 = sn_deferred_close s" "sn_stop_policy s5 = sn_stop_policy s"
    "\<And>w c. (w, c) \<in> set (sn_waits s) \<Longrightarrow> AsyncWait w c \<in> set (sn_effects s5)"
    using s4 register_waits_spec[OF s4(3)] by (auto simp: register_pending_def s5_def emits_def settled_def)
  define s6 where "s6 = (case sn_deferred_commit s5 of None \<Rightarrow> s5
      | Some v \<Rightarrow> (emit (TransactNotify v) s5)\<lparr>sn_deferred_commit := None\<rparr>)"
  have s6: "deferred_commit s5 = Inr s6" using s5 by (auto simp: deferred_commit_def s6_def split: option.splits)
  show ?thesis
  proof (rule that[of s6])
    show "waiting_refresh token url s =
        and_then (advance_state Active s6) (\<lambda>(s7, secs). if sn_deferred_close s7 then active_close s7 else Inr (s7, secs))"
      unfolding waiting_refresh_def Let_def s1_def[symmetric] s2_def[symmetric]
      by (simp only: s3(1) s4(1) s5(1) s6 and_then.simps)
    show "\<And>w c. (w, c) \<in> set (sn_waits s) \<Longrightarrow> AsyncWait w c \<in> set (sn_effects s6)"
      using s5(9) by (auto simp: s6_def emit_def split: option.splits)
  qed (use s5 in \<open>auto simp: s6_def split: option.splits\<close>)
qed

lemma good_refresh:
  assumes "sn_ok s" shows "good {#} s (sn_refresh_access_token token url s)"
proof (cases "sn_state s = WaitingForAccessToken \<and> (sn_server_url s \<noteq> None \<or> url \<noteq> None)")
  case False
  then show ?thesis
    using assms by (cases "sn_state s")
      (auto simp: good_simps sn_refresh_access_token_def active_refresh_def advance_defs)
next
  case True
  then have st: "sn_state s = WaitingForAccessToken" "sn_server_url s \<noteq> None \<or> url \<noteq> None" by auto
  obtain s6 where s6: "waiting_refresh token url s =
      and_then (advance_state Active s6) (\<lambda>(s7, secs). if sn_deferred_close s7 then active_close s7 else Inr (s7, secs))"
    "sn_session s6 \<noteq> None" "sn_bound s6" "sn_server_url s6 \<noteq> None" "sn_waits s6 = []"
    "mset (settled s6) = mset (settled s) + mset (map snd (sn_waits s))"
    by (rule waiting_refresh_spec[OF assms st, of token])
  have "sn_refresh_access_token token url s = waiting_refresh token url s"
    using st by (auto simp: sn_refresh_access_token_def)
  then show ?thesis
    using s6 st(1) by (cases "sn_stop_policy s6")
      (auto simp: good_simps active_close_def advance_defs split: option.splits)
qed

lemma revive_and_refresh:
  assumes "sn_ok s"
  shows "\<exists>s1 secs1 s2. sn_revive_if_needed s = Inr (s1, secs1) \<and> sn_refresh_access_token token (Some url) s1 = Inr (s2, []) \<and>
    sn_state s2 = Active \<and> sn_session s2 \<noteq> None \<and> sn_bound s2 \<and> sn_waits s2 = [] \<and>
    (\<forall>w c. (w, c) \<in> set (sn_waits s) \<longrightarrow> AsyncWait w c \<in> set (sn_effects s2))"
proof (cases "sn_state s = Active \<or> sn_state s = Dying")
  case True
  then show ?thesis
    using assms by (auto simp: sn_ok_def sn_revive_if_needed_def sn_refresh_access_token_def active_refresh_def advance_defs)
next
  case False
  then obtain s1 secs1 where s1: "sn_revive_if_needed s = Inr (s1, secs1)" "sn_state s1 = WaitingForAccessToken"
    "sn_waits s1 = sn_waits s" "\<not> sn_deferred_close s1" "sn_ok s1"
    using assms by (cases "sn_state s") (auto simp: sn_ok_def sn_revive_if_needed_def waiting_revive_def advance_defs)
  obtain s6 where s6: "waiting_refresh token (Some url) s1 =
      and_then (advance_state Active s6) (\<lambda>(s7, secs). if sn_deferred_close s7 then active_close s7 else Inr (s7, secs))"
    "sn_session s6 \<noteq> None" "sn_bound s6" "sn_waits s6 = []" "\<not> sn_deferred_close s6"
    "\<And>w c. (w, c) \<in> set (sn_waits s1) \<Longrightarrow> AsyncWait w c \<in> set (sn_effects s6)"
    by (rule waiting_refresh_spec[OF s1(5,2), of "Some url" token]) (use s1(4) in auto)
  have "sn_refresh_access_token token (Some url) s1 = waiting_refresh token (Some url) s1"
    using s1(2) by (simp add: sn_refresh_access_token_def)
  then show ?thesis using s1 s6 by (auto simp: advance_defs)
qed

lemmas method_defs =
  sn_access_token_expired_def active_token_expired_def sn_nonsync_transact_notify_def waiting_notify_def
  active_notify_def sn_revive_if_needed_def waiting_revive_def sn_handle_reconnect_def active_reconnect_def
  sn_log_out_def sn_wait_for_completion_def queue_wait_def pass_wait_def sn_override_server_def
  store_override_def pass_override_def connection_changed_def take_reference_def drop_reference_def
  uploads_done_def

lemma good_event:
  assumes "sn_ok s" shows "good (mset (registers ev)) s (start_event ev s)"
proof (cases ev)
  case (RefreshAccessToken token url)
  then show ?thesis using good_refresh[OF assms] by simp
next
  case Close
  then show ?thesis using good_close[OF assms] by simp
next
  case LogOut
  then show ?thesis
    using good_advance_inactive[OF assms] assms by (cases "sn_state s") (auto simp: sn_log_out_def good_simps stay_def)
next
  case (UploadsDone n)
  then show ?thesis using good_advance_inactive[OF assms] assms by (auto simp: uploads_done_def good_simps stay_def)
qed (use assms in \<open>cases "sn_state s"; auto simp: good_simps method_defs advance_defs split: option.splits\<close>)+

lemma good_error_switch:
  assumes "sn_ok s" shows "good {#} s (error_switch err s)"
proof -
  have e: "good {#} s (sn_access_token_expired s)"
    using assms by (cases "sn_state s") (auto simp: good_simps method_defs advance_defs)
  show ?thesis
    using assms e
    by (auto simp: error_switch_def Let_def update_error_and_mark_file_for_deletion_def cancel_pending_waits_def stay_def
        split: error_code.splits) (auto simp: good_simps)
qed

lemma good_section: "sn_ok s \<Longrightarrow> good (mset (pending_in sec)) s (run_section sec s)"
proof (cases sec)
  case (FinishInactive packages)
  then show "sn_ok s \<Longrightarrow> ?thesis" by (auto simp: good_simps stay_def finish_inactive_def Let_def)
next
  case (HandleError err)
  then show "sn_ok s \<Longrightarrow> ?thesis"
    using good_advance_inactive by (auto simp: state_handle_error_def stay_def good_simps split: session_state.splits)
next
  case (ErrorSwitch err)
  then show "sn_ok s \<Longrightarrow> ?thesis" using good_error_switch by simp
next
  case (ErrorNext action err)
  then show "sn_ok s \<Longrightarrow> ?thesis"
    using good_advance_inactive[of s]
    by (cases action; cases "advance_state Inactive s")
      (auto simp: error_next_def cancel_pending_waits_def good_def handlers_def, auto simp: sn_ok_def)
next
  case (ReportErrorTo err)
  then show "sn_ok s \<Longrightarrow> ?thesis" by (auto simp: report_error_def stay_def good_simps)
next
  case DidDropReference
  then show "sn_ok s \<Longrightarrow> ?thesis" using good_close[of s] by (auto simp: did_drop_external_reference_def stay_def good_simps)
qed

section \<open>Reachable configurations\<close>

definition config_ok :: "sync_config \<Rightarrow> bool" where
  "config_ok cf \<longleftrightarrow> sn_ok (sc_session cf) \<and>
     mset (sc_registered cf) = handlers (sc_session cf) (concat (sc_threads cf))"

lemma mset_concat_update:
  "i < length xss \<Longrightarrow> mset (concat (map f (concat (xss[i := ys])))) + mset (concat (map f (xss ! i))) =
     mset (concat (map f (concat xss))) + mset (concat (map f ys))"
  by (induction xss arbitrary: i) (auto split: nat.splits simp: ac_simps)

lemma mset_balance:
  fixes q :: "'a multiset"
  assumes "q + (a + r) = p + (b + r)" "x' + (w' + b) = x + (w + a)"
  shows "x + (w + p) = x' + (w' + q)"
proof (rule multiset_eqI)
  fix y
  have "count (q + (a + r)) y = count (p + (b + r)) y" "count (x' + (w' + b)) y = count (x + (w + a)) y"
    using assms[THEN arg_cong, of "\<lambda>m. count m y"] by simp_all
  then show "count (x + (w + p)) y = count (x' + (w' + q)) y" by simp
qed

lemma config_ok_step: "sync_step cf cf' \<Longrightarrow> config_ok cf \<Longrightarrow> config_ok cf'"
proof (induction rule: sync_step.induct)
  case (call ev cf s secs)
  then show ?case
    using good_event[of "sc_session cf" ev] by (auto simp: good_def config_ok_def handlers_def add_ac)
next
  case (continue i cf sec rest s secs)
  have "good (mset (pending_in sec)) (sc_session cf) (Inr (s, secs))"
    using good_section[of "sc_session cf" sec] continue by (simp add: config_ok_def)
  then have "sn_ok s" "mset (settled s) + mset (map snd (sn_waits s)) + mset (concat (map pending_in secs)) =
      mset (settled (sc_session cf)) + mset (map snd (sn_waits (sc_session cf))) + mset (pending_in sec)"
    by (auto simp: good_def handlers_def)
  then show ?case
    using continue mset_concat_update[of i "sc_threads cf" pending_in "secs @ rest"]
    by (auto simp: config_ok_def handlers_def add.assoc intro: mset_balance)
qed

lemma reachable_ok: "reachable policy handler cf \<Longrightarrow> config_ok cf"
proof (induction rule: reachable.induct)
  case start
  show ?case by (simp add: new_config_def new_session_def config_ok_def sn_ok_def handlers_def settled_def)
next
  case (step cf cf')
  then show ?case by (simp add: config_ok_step)
qed

section \<open>Runs\<close>

text \<open>A run as the list of what happens: a call, or the next section of a thread.\<close>

datatype choice = Call session_event | Continue nat

fun take_choice :: "choice \<Rightarrow> sync_config \<Rightarrow> sync_config option" where
  "take_choice (Call ev) cf =
     (case start_event ev (sc_session cf) of
        Inl fault \<Rightarrow> None
      | Inr (s, secs) \<Rightarrow>
          Some \<lparr>sc_session = s, sc_threads = sc_threads cf @ [secs], sc_registered = sc_registered cf @ registers ev\<rparr>)"
| "take_choice (Continue i) cf =
     (if i < length (sc_threads cf)
      then case sc_threads cf ! i of
             [] \<Rightarrow> None
           | sec # rest \<Rightarrow>
               (case run_section sec (sc_session cf) of
                  Inl fault \<Rightarrow> None
                | Inr (s, secs) \<Rightarrow> Some (cf\<lparr>sc_session := s, sc_threads := (sc_threads cf)[i := secs @ rest]\<rparr>))
      else None)"

fun run_choices :: "choice list \<Rightarrow> sync_config \<Rightarrow> sync_config option" where
  "run_choices [] cf = Some cf"
| "run_choices (x # xs) cf = Option.bind (take_choice x cf) (run_choices xs)"

lemma take_choice_step: "take_choice x cf = Some cf' \<Longrightarrow> sync_step cf cf'"
  by (cases x) (auto intro: sync_step.intros split: sum.splits if_splits list.splits)

lemma reachable_run:
  "run_choices xs cf = Some cf' \<Longrightarrow> reachable policy handler cf \<Longrightarrow> reachable policy handler cf'"
  by (induction xs arbitrary: cf) (auto simp: bind_eq_Some_conv dest: take_choice_step intro: reachable.step)

lemma reachable_from_start:
  "run_choices xs (new_config policy handler) = Some cf \<Longrightarrow> reachable policy handler cf"
  using reachable_run reachable.start by blast

section \<open>Threads end\<close>

text \<open>How many sections a thread may still have to run: each one is replaced by lighter ones.\<close>

fun weight :: "code_section \<Rightarrow> nat" where
  "weight (FinishInactive packages) = 1"
| "weight (HandleError err) = 5"
| "weight (ErrorSwitch err) = 4"
| "weight (ErrorNext action err) = 3"
| "weight (ReportErrorTo err) = 1"
| "weight DidDropReference = 2"

definition work :: "code_section list list \<Rightarrow> nat" where
  "work ts = sum_list (map weight (concat ts))"

lemma advance_inactive_sections: "\<exists>s'. advance_state Inactive s = Inr (s', [FinishInactive (sn_waits s)])"
  by (auto simp: advance_defs)

lemma close_sections: "sn_close s = Inr (s', secs) \<Longrightarrow> sum_list (map weight secs) \<le> 1"
  by (auto simp: sn_close_def waiting_close_def active_close_def advance_defs
      split: session_state.splits stop_policy.splits option.splits)

lemma token_expired_sections: "sn_access_token_expired s = Inr (s', secs) \<Longrightarrow> secs = []"
  by (auto simp: sn_access_token_expired_def active_token_expired_def advance_defs split: session_state.splits)

lemma section_gets_lighter:
  assumes "run_section sec s = Inr (s', secs)"
  shows "sum_list (map weight secs) < weight sec"
proof (cases sec)
  case (HandleError err)
  then show ?thesis
    using assms advance_inactive_sections[of s]
    by (auto simp: state_handle_error_def stay_def split: session_state.splits if_splits)
next
  case (ErrorSwitch err)
  then show ?thesis
    using assms by (auto simp: error_switch_def Let_def stay_def update_error_and_mark_file_for_deletion_def
        dest: token_expired_sections split: error_code.splits if_splits)
next
  case (ErrorNext action err)
  then show ?thesis
    using assms advance_inactive_sections[of s] by (cases action) (auto simp: error_next_def)
next
  case DidDropReference
  then show ?thesis
    using assms close_sections[of s s' secs]
    by (auto simp: did_drop_external_reference_def stay_def split: if_splits)
qed (use assms in \<open>auto simp: stay_def report_error_def\<close>)

lemma work_update:
  "i < length ts \<Longrightarrow> ts ! i = sec # rest \<Longrightarrow> work (ts[i := secs @ rest]) + weight sec = work ts + sum_list (map weight secs)"
  unfolding work_def by (induction ts arbitrary: i) (auto split: nat.splits simp: nth_Cons')

lemma config_okD: "config_ok cf \<Longrightarrow> \<exists>s secs. run_section sec (sc_session cf) = Inr (s, secs)"
  using good_section[of "sc_session cf" sec] by (auto simp: config_ok_def good_def split: sum.splits)

lemma section_queues_nothing:
  assumes "run_section sec s = Inr (s', secs)" "sn_waits s = []"
  shows "sn_waits s' = []"
proof (cases sec)
  case (FinishInactive packages)
  then show ?thesis using assms by (auto simp: stay_def finish_inactive_def Let_def split: if_splits)
next
  case (ErrorSwitch err)
  then show ?thesis
    using assms
    by (auto simp: error_switch_def Let_def stay_def update_error_and_mark_file_for_deletion_def
        cancel_pending_waits_def sn_access_token_expired_def active_token_expired_def advance_state_def enter_waiting_def
        split: error_code.splits if_splits session_state.splits)
next
  case (ErrorNext action err)
  then show ?thesis
    using assms by (cases action) (auto simp: error_next_def advance_defs cancel_pending_waits_def split: option.splits)
qed (use assms in \<open>auto simp: advance_defs state_handle_error_def report_error_def did_drop_external_reference_def
    sn_close_def waiting_close_def active_close_def
    split: if_splits option.splits session_state.splits stop_policy.splits\<close>)

text \<open>Without further calls the threads come to their ends.\<close>

lemma threads_end:
  "config_ok cf \<Longrightarrow> \<exists>cf'. sync_step\<^sup>*\<^sup>* cf cf' \<and> config_ok cf' \<and> concat (sc_threads cf') = [] \<and>
     sc_registered cf' = sc_registered cf \<and> (sn_waits (sc_session cf) = [] \<longrightarrow> sn_waits (sc_session cf') = [])"
proof (induction "work (sc_threads cf)" arbitrary: cf rule: less_induct)
  case less
  show ?case
  proof (cases "concat (sc_threads cf) = []")
    case True
    then show ?thesis using less.prems by blast
  next
    case False
    then obtain i sec rest where i: "i < length (sc_threads cf)" "sc_threads cf ! i = sec # rest"
      by (metis concat_eq_Nil_conv in_set_conv_nth neq_Nil_conv)
    obtain s secs where s: "run_section sec (sc_session cf) = Inr (s, secs)" using config_okD[OF less.prems] by blast
    define cf1 where "cf1 = cf\<lparr>sc_session := s, sc_threads := (sc_threads cf)[i := secs @ rest]\<rparr>"
    have step: "sync_step cf cf1" unfolding cf1_def using i s by (rule sync_step.continue)
    have "work (sc_threads cf1) < work (sc_threads cf)"
      using work_update[OF i, of secs] section_gets_lighter[OF s] by (simp add: cf1_def)
    then show ?thesis
      using less.hyps[of cf1] config_ok_step[OF step less.prems] step section_queues_nothing[OF s]
      by (auto simp: cf1_def intro: converse_rtranclp_into_rtranclp)
  qed
qed

lemma revive_state: "sn_revive_if_needed s = Inr (s', secs) \<Longrightarrow> sn_state s' \<noteq> Inactive"
  by (cases "sn_state s") (auto simp: sn_revive_if_needed_def waiting_revive_def advance_defs split: option.splits)

lemma log_out_queue: "sn_log_out s = Inr (s', secs) \<Longrightarrow> sn_state s \<noteq> Inactive \<Longrightarrow> sn_waits s' = []"
  by (cases "sn_state s") (auto simp: sn_log_out_def advance_defs split: option.splits)

lemma queue_emptied:
  assumes "config_ok cf"
  shows "\<exists>cf'. sync_step\<^sup>*\<^sup>* cf cf' \<and> config_ok cf' \<and> sc_registered cf' = sc_registered cf \<and> sn_waits (sc_session cf') = []"
proof -
  have call: "\<exists>cf' secs. sync_step cf cf' \<and> config_ok cf' \<and> sc_registered cf' = sc_registered cf @ registers ev \<and>
      start_event ev (sc_session cf) = Inr (sc_session cf', secs)" if ok: "config_ok cf" for ev cf
  proof -
    obtain s secs where s: "start_event ev (sc_session cf) = Inr (s, secs)"
      using good_event[of "sc_session cf" ev] ok by (auto simp: config_ok_def good_def split: sum.splits)
    show ?thesis using sync_step.call[OF s] config_ok_step[OF sync_step.call[OF s] ok] s by auto
  qed
  obtain cf1 secs1 where 1: "sync_step cf cf1" "config_ok cf1" "sc_registered cf1 = sc_registered cf"
    "start_event ReviveIfNeeded (sc_session cf) = Inr (sc_session cf1, secs1)"
    using call[OF assms, of ReviveIfNeeded] by auto
  obtain cf2 secs2 where 2: "sync_step cf1 cf2" "config_ok cf2" "sc_registered cf2 = sc_registered cf1"
    "start_event LogOut (sc_session cf1) = Inr (sc_session cf2, secs2)"
    using call[OF 1(2), of LogOut] by auto
  have "sn_state (sc_session cf1) \<noteq> Inactive" using revive_state 1(4) by simp
  then have "sn_waits (sc_session cf2) = []" using log_out_queue 2(4) by simp
  then show ?thesis using 1(1,3) 2(1-3) by (metis converse_rtranclp_into_rtranclp rtranclp.rtrancl_refl)
qed

end
