(* ===== verification/SyncSessionTheorems.thy ===== *)
theory SyncSessionTheorems
  imports SyncSessionProps "HOL-Library.Code_Target_Nat"
begin

text \<open>The properties of \<open>SyncSession\<close>.\<close>

section \<open>Calls and sections never fault\<close>


text \<open>A session that is logged in, waits for an upload, and whose token expires while it waits.\<close>

definition expiring_run :: "choice list" where
  "expiring_run =
     [Call ReviveIfNeeded, Call (WaitForCompletion UploadCompletion 7),
      Call (RefreshAccessToken ''a'' (Some ''realm'')),
      Call (ConnectionChanged Connected (Some \<lparr>se_code = ProtocolCode 202, se_fatal = False, se_unrecognized = False, se_recovery = None\<rparr>)),
      Continue 3, Continue 3, Call (WaitForCompletion DownloadCompletion 8)]"

definition expiring :: sync_config where
  "expiring = the (run_choices expiring_run (new_config AfterChangesUploaded True))"

lemma expiring_reachable: "reachable AfterChangesUploaded True expiring"
proof -
  have "run_choices expiring_run (new_config AfterChangesUploaded True) \<noteq> None" by code_simp
  then show ?thesis using reachable_from_start by (auto simp: expiring_def)
qed


section \<open>No completion handler is lost\<close>

text \<open>
  C28. Whatever calls were made and however the threads were interleaved, each completion handler that was
  registered is, exactly as often as it was registered, in one of three places: it was passed to the underlying
  session or called with an error, it is queued, or a thread that left the mutex is about to call it.
\<close>
theorem no_handler_lost:
  assumes "reachable policy handler cf"
  shows "mset (sc_registered cf) =
    mset (settled (sc_session cf)) + mset (map snd (sn_waits (sc_session cf))) +
    mset (concat (map pending_in (concat (sc_threads cf))))"
  using reachable_ok[OF assms] by (simp add: config_ok_def handlers_def)

theorem no_handler_lost_witness:
  "sc_registered expiring = [7, 8] \<and> settled (sc_session expiring) = [7] \<and> map snd (sn_waits (sc_session expiring)) = [8] \<and>
   mset (sc_registered expiring) = mset (settled (sc_session expiring)) + mset (map snd (sn_waits (sc_session expiring))) +
     mset (concat (map pending_in (concat (sc_threads expiring))))"
proof -
  have "sc_registered expiring = [7, 8] \<and> settled (sc_session expiring) = [7] \<and> map snd (sn_waits (sc_session expiring)) = [8]"
    by code_simp
  then show ?thesis using no_handler_lost[OF expiring_reachable] by blast
qed



section \<open>Connecting\<close>

text \<open>
  C30. From every reachable configuration, in whatever state the session is, a call of \<open>revive_if_needed\<close> and then
  one of \<open>refresh_access_token\<close> with a URL leave it active, with an underlying session that is bound, and every
  handler that was queued has been passed to that session.
\<close>
theorem refresh_connects:
  assumes "reachable policy handler cf"
  shows "\<exists>s1 secs1 s2. start_event ReviveIfNeeded (sc_session cf) = Inr (s1, secs1) \<and>
    start_event (RefreshAccessToken token (Some url)) s1 = Inr (s2, []) \<and>
    sn_state s2 = Active \<and> sn_session s2 \<noteq> None \<and> sn_bound s2 \<and> sn_waits s2 = [] \<and>
    (\<forall>w c. (w, c) \<in> set (sn_waits (sc_session cf)) \<longrightarrow> AsyncWait w c \<in> set (sn_effects s2))"
  using revive_and_refresh[of "sc_session cf" token url] reachable_ok[OF assms] by (simp add: config_ok_def)

theorem refresh_connects_witness:
  "\<exists>s1 secs1 s2. start_event ReviveIfNeeded (sc_session expiring) = Inr (s1, secs1) \<and>
    start_event (RefreshAccessToken ''b'' (Some ''realm'')) s1 = Inr (s2, []) \<and>
    sn_state s2 = Active \<and> AsyncWait DownloadCompletion 8 \<in> set (sn_effects s2)"
proof -
  have "sn_waits (sc_session expiring) = [(DownloadCompletion, 8)]" by code_simp
  then show ?thesis using refresh_connects[OF expiring_reachable, of "''b''" "''realm''"] by fastforce
qed

section \<open>Giving up the mutex in the middle\<close>





end
