(* ===== verification/SyncProgress.thy ===== *)
theory SyncProgress
  imports Prelude "HOL-Library.Word" "HOL-Library.AList"
begin

text \<open>
  \<open>SyncProgressNotifier\<close> (\<open>sync/sync_session.hpp\<close> and \<open>sync_session.cpp\<close>): the callbacks that are told how much of
  the data was uploaded or downloaded. Counters and versions are 64 bits wide as in the code. A callback is known by a number; the
  closures that the code collects under its mutex and runs after releasing it are values of
  \<open>invocation\<close>. The order of an \<open>unordered_map\<close> is not specified: the packages are an association list, of
  which the properties do not use the order.
\<close>

record sync_progress =
  pg_uploadable :: "64 word"
  pg_downloadable :: "64 word"
  pg_uploaded :: "64 word"
  pg_downloaded :: "64 word"
  pg_snapshot_version :: "64 word"

record notifier_package =
  np_notifier :: nat
  np_captured :: "64 word option"
  np_snapshot_version :: "64 word"
  np_streaming :: bool
  np_download :: bool

datatype notifier_type = Upload | Download

datatype invocation = Nothing | Invoke nat "64 word" "64 word"

record progress_notifier =
  pn_token :: "64 word"
  pn_local_version :: "64 word"
  pn_current :: "sync_progress option"
  pn_packages :: "(64 word \<times> notifier_package) list"

definition new_progress_notifier :: progress_notifier where
  "new_progress_notifier = \<lparr>pn_token = 1, pn_local_version = 0, pn_current = None, pn_packages = []\<rparr>"

text \<open>\<open>create_invocation\<close>: the package afterwards, whether it is expired, and what is to be run.\<close>

definition transferred_bytes :: "notifier_package \<Rightarrow> sync_progress \<Rightarrow> 64 word" where
  "transferred_bytes p g = (if np_download p then pg_downloaded g else pg_uploaded g)"

definition report_progress :: "sync_progress \<Rightarrow> notifier_package \<Rightarrow> 64 word \<Rightarrow> notifier_package \<times> bool \<times> invocation" where
  "report_progress g p transferrable =
     (let transferred = transferred_bytes p g;
          is_expired = (\<not> np_streaming p \<and> transferred \<ge> transferrable)
      in (p, is_expired, Invoke (np_notifier p) transferred transferrable))"

definition create_invocation :: "sync_progress \<Rightarrow> notifier_package \<Rightarrow> notifier_package \<times> bool \<times> invocation" where
  "create_invocation g p =
     (if np_streaming p then report_progress g p (if np_download p then pg_downloadable g else pg_uploadable g)
      else case np_captured p of
             Some transferrable \<Rightarrow> report_progress g p transferrable
           | None \<Rightarrow>
               if np_download p
               then report_progress g (p\<lparr>np_captured := Some (pg_downloadable g)\<rparr>) (pg_downloadable g)
               else if np_snapshot_version p > pg_snapshot_version g then (p, False, Nothing)
               else report_progress g (p\<lparr>np_captured := Some (pg_uploadable g)\<rparr>) (pg_uploadable g))"

text \<open>\<open>emplace\<close> of an \<open>unordered_map\<close>, which keeps an entry that is there.\<close>

definition emplace :: "'k \<Rightarrow> 'v \<Rightarrow> ('k \<times> 'v) list \<Rightarrow> ('k \<times> 'v) list" where
  "emplace k v m = (if map_of m k = None then m @ [(k, v)] else m)"

definition pn_register_callback :: "nat \<Rightarrow> notifier_type \<Rightarrow> bool \<Rightarrow> progress_notifier \<Rightarrow> 64 word \<times> invocation list \<times> progress_notifier" where
  "pn_register_callback notifier direction is_streaming pn0 =
     (let token_value = pn_token pn0;
          pn = pn0\<lparr>pn_token := pn_token pn0 + 1\<rparr>;
          package = \<lparr>np_notifier = notifier, np_captured = None, np_snapshot_version = pn_local_version pn,
                     np_streaming = is_streaming, np_download = (direction = Download)\<rparr>
      in case pn_current pn of
           None \<Rightarrow> (token_value, [], pn\<lparr>pn_packages := emplace token_value package (pn_packages pn)\<rparr>)
         | Some g \<Rightarrow>
             let (package', skip_registration, invocation) = create_invocation g package
             in if skip_registration then (0, [invocation], pn)
                else (token_value, [invocation], pn\<lparr>pn_packages := emplace token_value package' (pn_packages pn)\<rparr>))"

definition pn_unregister_callback :: "64 word \<Rightarrow> progress_notifier \<Rightarrow> progress_notifier" where
  "pn_unregister_callback token pn = pn\<lparr>pn_packages := AList.delete token (pn_packages pn)\<rparr>"

fun update_packages :: "sync_progress \<Rightarrow> (64 word \<times> notifier_package) list \<Rightarrow> (64 word \<times> notifier_package) list \<times> invocation list" where
  "update_packages g [] = ([], [])"
| "update_packages g ((token, p) # m) =
     (let (p', should_delete, invocation) = create_invocation g p;
          (m', invocations) = update_packages g m
      in (if should_delete then m' else (token, p') # m', invocation # invocations))"

definition pn_update :: "64 word \<Rightarrow> 64 word \<Rightarrow> 64 word \<Rightarrow> 64 word \<Rightarrow> 64 word \<Rightarrow> 64 word \<Rightarrow> progress_notifier \<Rightarrow> invocation list \<times> progress_notifier" where
  "pn_update downloaded downloadable uploaded uploadable download_version snapshot_version pn =
     (if download_version = 0 then ([], pn)
      else
        let g = \<lparr>pg_uploadable = uploadable, pg_downloadable = downloadable, pg_uploaded = uploaded,
                 pg_downloaded = downloaded, pg_snapshot_version = snapshot_version\<rparr>;
            (m, invocations) = update_packages g (pn_packages pn)
        in (invocations, pn\<lparr>pn_current := Some g, pn_packages := m\<rparr>))"

definition pn_set_local_version :: "64 word \<Rightarrow> progress_notifier \<Rightarrow> progress_notifier" where
  "pn_set_local_version snapshot_version pn = pn\<lparr>pn_local_version := snapshot_version\<rparr>"

text \<open>A sequence of calls, and what is run for it.\<close>

datatype progress_call =
    RegisterCallback nat notifier_type bool
  | UnregisterCallback "64 word"
  | Update "64 word" "64 word" "64 word" "64 word" "64 word" "64 word"
  | SetLocalVersion "64 word"

fun pn_call :: "progress_call \<Rightarrow> progress_notifier \<Rightarrow> invocation list \<times> progress_notifier" where
  "pn_call (RegisterCallback n d st) pn = snd (pn_register_callback n d st pn)"
| "pn_call (UnregisterCallback t) pn = ([], pn_unregister_callback t pn)"
| "pn_call (Update d d' u u' v w) pn = pn_update d d' u u' v w pn"
| "pn_call (SetLocalVersion v) pn = ([], pn_set_local_version v pn)"

fun pn_run :: "progress_call list \<Rightarrow> progress_notifier \<Rightarrow> invocation list \<times> progress_notifier" where
  "pn_run [] pn = ([], pn)"
| "pn_run (c # cs) pn = (let (xs, pn') = pn_call c pn; (ys, pn'') = pn_run cs pn' in (xs @ ys, pn''))"

end
