(* ===== verification/SyncProgressProps.thy ===== *)
theory SyncProgressProps
  imports SyncProgress "HOL-Library.Code_Target_Nat"
begin

text \<open>What a callback that is not streaming is told over its lifetime.\<close>

section \<open>One callback\<close>

fun told :: "nat \<Rightarrow> invocation \<Rightarrow> (64 word \<times> 64 word) list" where
  "told n Nothing = []"
| "told n (Invoke m t g) = (if m = n then [(t, g)] else [])"

definition all_told :: "nat \<Rightarrow> invocation list \<Rightarrow> (64 word \<times> 64 word) list" where
  "all_told n xs = concat (map (told n) xs)"

definition one_goal :: "(64 word \<times> 64 word) list \<Rightarrow> bool" where
  "one_goal xs \<longleftrightarrow> (\<exists>goal. snd ` set xs \<subseteq> {goal} \<and> (\<forall>t \<in> fst ` set (butlast xs). t < goal))"

definition follows :: "notifier_package \<Rightarrow> (64 word \<times> 64 word) list \<Rightarrow> bool" where
  "follows p xs \<longleftrightarrow> (\<forall>(t, g) \<in> set xs. np_captured p = Some g \<and> t < g)"

definition packages_of :: "nat \<Rightarrow> (64 word \<times> notifier_package) list \<Rightarrow> notifier_package list" where
  "packages_of n m = filter (\<lambda>p. np_notifier p = n) (map snd m)"

lemma all_told_simps [simp]: "all_told n [] = []" "all_told n (x # xs) = told n x @ all_told n xs" "all_told n (xs @ ys) = all_told n xs @ all_told n ys"
  by (simp_all add: all_told_def)

lemma packages_of_simps [simp]:
  "packages_of n [] = []" "packages_of n (kp # m) = (if np_notifier (snd kp) = n then snd kp # packages_of n m else packages_of n m)"
  "packages_of n (m @ m') = packages_of n m @ packages_of n m'"
  by (simp_all add: packages_of_def)

lemma follows_Nil [simp]: "follows p []"
  by (simp add: follows_def)


lemma one_goal_Nil [simp]: "one_goal []"
  by (simp add: one_goal_def)






section \<open>Its lifetime\<close>














end
