(* ===== verification/SchemaTypes.thy ===== *)
theory SchemaTypes
  imports Prelude "HOL-Library.Word" "HOL-Library.Char_ord" "HOL-Library.List_Lexorder"
begin

text \<open>
  \<open>Property\<close> (\<open>property.hpp\<close>), \<open>ObjectSchema\<close> (\<open>object_schema.hpp\<close> and \<open>.cpp\<close>) and the comparison of names. A
  \<open>PropertyType\<close> is a byte of a type and two flags, as in the code. Names are lists of bytes; \<open>std::string\<close> compares
  them as unsigned bytes, which is the order of the library for \<open>string\<close>, and \<open>StringData\<close> (\<open>realm/string_data.hpp\<close>)
  as \<open>char\<close>s, which are signed on the platforms of this project.
\<close>

unbundle bit_operations_syntax

section \<open>Names\<close>

definition signed_char :: "char \<Rightarrow> int" where
  "signed_char c = (let n = of_char c :: int in if n < 128 then n else n - 256)"

text \<open>\<open>operator<\<close> of \<open>StringData\<close>; a null string and an empty string are not distinguished here.\<close>

definition string_data_less :: "string \<Rightarrow> string \<Rightarrow> bool" where
  "string_data_less a b \<longleftrightarrow> map signed_char a < map signed_char b"

section \<open>Property types\<close>

type_synonym property_type = "8 word"

definition PT_Int :: property_type where "PT_Int = 0"
definition PT_Bool :: property_type where "PT_Bool = 1"
definition PT_String :: property_type where "PT_String = 2"
definition PT_Data :: property_type where "PT_Data = 3"
definition PT_Date :: property_type where "PT_Date = 4"
definition PT_Float :: property_type where "PT_Float = 5"
definition PT_Double :: property_type where "PT_Double = 6"
definition PT_Object :: property_type where "PT_Object = 7"
definition PT_LinkingObjects :: property_type where "PT_LinkingObjects = 8"
definition PT_Any :: property_type where "PT_Any = 9"
definition PT_Nullable :: property_type where "PT_Nullable = 64"
definition PT_Array :: property_type where "PT_Array = 128"
definition PT_Flags :: property_type where "PT_Flags = PT_Nullable OR PT_Array"

lemmas pt_defs = PT_Int_def PT_Bool_def PT_String_def PT_Data_def PT_Date_def PT_Float_def PT_Double_def PT_Object_def
  PT_LinkingObjects_def PT_Any_def PT_Nullable_def PT_Array_def PT_Flags_def

text \<open>\<open>operator==\<close> of types ignores the flags.\<close>

definition pt_eq :: "property_type \<Rightarrow> property_type \<Rightarrow> bool" where
  "pt_eq a b \<longleftrightarrow> a AND NOT PT_Flags = b AND NOT PT_Flags"

definition is_array :: "property_type \<Rightarrow> bool" where
  "is_array a \<longleftrightarrow> a AND PT_Array = PT_Array"

definition is_nullable :: "property_type \<Rightarrow> bool" where
  "is_nullable a \<longleftrightarrow> a AND PT_Nullable = PT_Nullable"

section \<open>Properties\<close>

record property =
  pr_name :: string
  pr_type :: property_type
  pr_object_type :: string
  pr_link_origin :: string
  pr_primary :: bool
  pr_indexed :: bool
  pr_table_column :: "64 word"

definition requires_index :: "property \<Rightarrow> bool" where
  "requires_index p \<longleftrightarrow> pr_primary p \<or> pr_indexed p"

definition type_is_indexable :: "property \<Rightarrow> bool" where
  "type_is_indexable p \<longleftrightarrow>
     pt_eq (pr_type p) PT_Int \<or> pt_eq (pr_type p) PT_Bool \<or> pt_eq (pr_type p) PT_Date \<or> pt_eq (pr_type p) PT_String"

definition type_is_nullable :: "property \<Rightarrow> bool" where
  "type_is_nullable p \<longleftrightarrow>
     \<not> (is_array (pr_type p) \<and> pt_eq (pr_type p) PT_Object) \<and> \<not> pt_eq (pr_type p) PT_LinkingObjects"

definition property_eq :: "property \<Rightarrow> property \<Rightarrow> bool" where
  "property_eq l r \<longleftrightarrow>
     pr_type l = pr_type r \<and> pr_primary l = pr_primary r \<and> requires_index l = requires_index r \<and>
     pr_name l = pr_name r \<and> pr_object_type l = pr_object_type r \<and> pr_link_origin l = pr_link_origin r"

section \<open>Object schemas\<close>

record object_schema =
  os_name :: string
  os_persisted :: "property list"
  os_computed :: "property list"
  os_primary_key :: string

text \<open>The constructor: the first primary property names the primary key.\<close>

definition object_schema_of :: "string \<Rightarrow> property list \<Rightarrow> property list \<Rightarrow> object_schema" where
  "object_schema_of name persisted computed =
     \<lparr>os_name = name, os_persisted = persisted, os_computed = computed,
      os_primary_key = (case find pr_primary persisted of None \<Rightarrow> [] | Some p \<Rightarrow> pr_name p)\<rparr>"

definition property_for_name :: "string \<Rightarrow> object_schema \<Rightarrow> property option" where
  "property_for_name name os =
     (case find (\<lambda>p. pr_name p = name) (os_persisted os) of
        Some p \<Rightarrow> Some p
      | None \<Rightarrow> find (\<lambda>p. pr_name p = name) (os_computed os))"

definition primary_key_property :: "object_schema \<Rightarrow> property option" where
  "primary_key_property os = property_for_name (os_primary_key os) os"

definition property_is_computed :: "object_schema \<Rightarrow> property \<Rightarrow> bool" where
  "property_is_computed os p \<longleftrightarrow> (\<exists>q \<in> set (os_computed os). property_eq q p)"

text \<open>An assignment to the property that \<open>property_for_name\<close> finds.\<close>

fun update_first :: "('a \<Rightarrow> bool) \<Rightarrow> ('a \<Rightarrow> 'a) \<Rightarrow> 'a list \<Rightarrow> 'a list" where
  "update_first P f [] = []"
| "update_first P f (x # xs) = (if P x then f x # xs else x # update_first P f xs)"

definition update_property :: "string \<Rightarrow> (property \<Rightarrow> property) \<Rightarrow> object_schema \<Rightarrow> object_schema" where
  "update_property name f os =
     (if \<exists>p \<in> set (os_persisted os). pr_name p = name
      then os\<lparr>os_persisted := update_first (\<lambda>p. pr_name p = name) f (os_persisted os)\<rparr>
      else os\<lparr>os_computed := update_first (\<lambda>p. pr_name p = name) f (os_computed os)\<rparr>)"

definition set_primary_key_property :: "object_schema \<Rightarrow> object_schema" where
  "set_primary_key_property os =
     (if os_primary_key os \<noteq> [] then update_property (os_primary_key os) (\<lambda>p. p\<lparr>pr_primary := True\<rparr>) os else os)"

definition object_schema_eq :: "object_schema \<Rightarrow> object_schema \<Rightarrow> bool" where
  "object_schema_eq a b \<longleftrightarrow>
     os_name a = os_name b \<and> os_primary_key a = os_primary_key b \<and>
     list_all2 property_eq (os_persisted a) (os_persisted b) \<and> list_all2 property_eq (os_computed a) (os_computed b)"

section \<open>Facts\<close>

lemma property_for_name_Some:
  "property_for_name n os = Some p \<Longrightarrow> pr_name p = n \<and> (p \<in> set (os_persisted os) \<or> p \<in> set (os_computed os))"
  by (auto simp: property_for_name_def find_Some_iff split: option.splits)

lemma property_for_name_None:
  "property_for_name n os = None \<longleftrightarrow> n \<notin> pr_name ` (set (os_persisted os) \<union> set (os_computed os))"
  by (auto simp: property_for_name_def find_None_iff find_Some_iff split: option.splits)

lemma property_eq_refl [simp]: "property_eq p p"
  by (simp add: property_eq_def)

text \<open>A type is given by its base and its two flags.\<close>

lemma and_exp_iff: "n < LENGTH('a) \<Longrightarrow> x AND 2 ^ n = 2 ^ n \<longleftrightarrow> bit x n" for x :: "'a::len word"
  using and_exp_eq_0_iff_not_bit[of x n] bit_word_eqI[of "x AND 2 ^ n" "2 ^ n"] bit_and_iff[of x "2 ^ n" n]
  by (auto simp: bit_and_iff bit_exp_iff)

lemma is_array_bit: "is_array x \<longleftrightarrow> bit x 7" and is_nullable_bit: "is_nullable x \<longleftrightarrow> bit x 6"
  using and_exp_iff[of 7 x] and_exp_iff[of 6 x] by (simp_all add: is_array_def is_nullable_def PT_Array_def PT_Nullable_def)

lemma flag_bits: "n < 8 \<Longrightarrow> bit PT_Nullable n \<longleftrightarrow> n = 6" "n < 8 \<Longrightarrow> bit PT_Array n \<longleftrightarrow> n = 7"
  by (auto simp: PT_Nullable_def PT_Array_def less_Suc_eq numeral_eq_Suc bit_Suc)

lemma pt_eq_bits: "pt_eq a b \<longleftrightarrow> (\<forall>n < 6. bit a n = bit b n)"
proof
  assume "pt_eq a b"
  then have e: "bit (a AND NOT PT_Flags) n = bit (b AND NOT PT_Flags) n" for n by (simp add: pt_eq_def)
  show "\<forall>n < 6. bit a n = bit b n"
  proof (intro allI impI)
    fix n :: nat assume "n < 6"
    then show "bit a n = bit b n" using e[of n] by (simp add: bit_and_iff bit_or_iff bit_not_iff PT_Flags_def flag_bits)
  qed
next
  assume b: "\<forall>n < 6. bit a n = bit b n"
  have "n < 6 \<or> n = 6 \<or> n = 7" if "n < 8" for n :: nat using that by linarith
  then show "pt_eq a b"
    unfolding pt_eq_def using b
    by (intro bit_word_eqI) (auto simp: bit_and_iff bit_or_iff bit_not_iff PT_Flags_def flag_bits)
qed

lemma property_type_eqI:
  assumes "pt_eq a b" "is_array a = is_array b" "is_nullable a = is_nullable b" shows "a = b"
proof (rule bit_word_eqI)
  fix n assume "n < LENGTH(8)"
  then have "n < 6 \<or> n = 6 \<or> n = 7" by auto
  then show "bit a n = bit b n" using assms by (auto simp: pt_eq_bits is_array_bit is_nullable_bit)
qed

lemma change_nullable:
  assumes "pt_eq a b" "is_array a = is_array b"
  shows "is_nullable b \<Longrightarrow> a OR PT_Nullable = b" and "\<not> is_nullable b \<Longrightarrow> a AND NOT PT_Nullable = b"
  by (rule property_type_eqI; use assms in \<open>auto simp: pt_eq_bits is_array_bit is_nullable_bit bit_or_iff bit_and_iff bit_not_iff flag_bits\<close>)+

end
