(* ===== verification/BinarySearch.thy ===== *)
theory BinarySearch
  imports Main
begin

text \<open>\<open>std::lower_bound\<close>, for the searches in schemas and in the moves of a change set.\<close>

text \<open>\<open>std::lower_bound\<close> from \<open>first\<close> over \<open>len\<close> elements.\<close>

function lower_bound :: "('a \<Rightarrow> bool) \<Rightarrow> 'a list \<Rightarrow> nat \<Rightarrow> nat \<Rightarrow> nat" where
  "lower_bound before xs first len =
     (if len = 0 then first
      else let half = len div 2; mid = first + half
           in if before (xs ! mid) then lower_bound before xs (mid + 1) (len - half - 1)
              else lower_bound before xs first half)"
  by pat_completeness auto
termination
  by (relation "measure (\<lambda>(before, xs, first, len). len)") auto

declare lower_bound.simps [simp del]

lemma lower_bound_spec:
  assumes "\<And>i j. i \<le> j \<Longrightarrow> j < length xs \<Longrightarrow> before (xs ! j) \<Longrightarrow> before (xs ! i)" and "first + len \<le> length xs"
    and "\<And>i. i < first \<Longrightarrow> before (xs ! i)" and "\<And>i. first + len \<le> i \<Longrightarrow> i < length xs \<Longrightarrow> \<not> before (xs ! i)"
  shows "(\<forall>i < lower_bound before xs first len. before (xs ! i)) \<and> lower_bound before xs first len \<le> length xs \<and>
    (\<forall>i. lower_bound before xs first len \<le> i \<longrightarrow> i < length xs \<longrightarrow> \<not> before (xs ! i))"
  using assms
proof (induction before xs first len rule: lower_bound.induct)
  case (1 before xs first len)
  show ?case
  proof (cases "len = 0")
    case True
    then show ?thesis using "1.prems" by (subst (1 2 3) lower_bound.simps) auto
  next
    case False
    define half mid where "half = len div 2" and "mid = first + half"
    have m: "mid < first + len" "half < len" using False by (auto simp: mid_def half_def)
    show ?thesis
    proof (cases "before (xs ! mid)")
      case True
      have e: "lower_bound before xs first len = lower_bound before xs (mid + 1) (len - half - 1)"
        using False True by (subst lower_bound.simps) (simp add: Let_def mid_def half_def)
      show ?thesis
        unfolding e
      proof (rule "1.IH"(1)[OF False half_def mid_def True])
        show "\<And>i. i < mid + 1 \<Longrightarrow> before (xs ! i)" using "1.prems"(1)[of _ mid] True m "1.prems"(2) by auto
        show "mid + 1 + (len - half - 1) \<le> length xs" using m "1.prems"(2) by (simp add: mid_def)
        show "\<And>i. mid + 1 + (len - half - 1) \<le> i \<Longrightarrow> i < length xs \<Longrightarrow> \<not> before (xs ! i)"
          using "1.prems"(4) m by (simp add: mid_def)
      qed (rule "1.prems"(1))
    next
      case nb: False
      have e: "lower_bound before xs first len = lower_bound before xs first half"
        using False nb by (subst lower_bound.simps) (simp add: Let_def mid_def half_def)
      show ?thesis
        unfolding e
      proof (rule "1.IH"(2)[OF False half_def mid_def nb])
        show "first + half \<le> length xs" using m "1.prems"(2) by simp
        show "\<And>i. first + half \<le> i \<Longrightarrow> i < length xs \<Longrightarrow> \<not> before (xs ! i)"
          using "1.prems"(1)[of mid] nb by (auto simp: mid_def)
      qed (use "1.prems" in auto)
    qed
  qed
qed

lemma lower_bound_partition:
  assumes "\<And>i j. i \<le> j \<Longrightarrow> j < length xs \<Longrightarrow> before (xs ! j) \<Longrightarrow> before (xs ! i)"
  shows "i < lower_bound before xs 0 (length xs) \<Longrightarrow> before (xs ! i)" "lower_bound before xs 0 (length xs) \<le> length xs"
    "lower_bound before xs 0 (length xs) \<le> i \<Longrightarrow> i < length xs \<Longrightarrow> \<not> before (xs ! i)"
  using lower_bound_spec[of xs before 0 "length xs"] assms by auto

end
