(* ===== verification/Schema.thy ===== *)
theory Schema
  imports SchemaTypes BinarySearch
begin

text \<open>
  \<open>Schema\<close> (\<open>schema.hpp\<close> and \<open>schema.cpp\<close>), the validation of \<open>object_schema.cpp\<close> and the checks of \<open>object_store.cpp\<close> on a list
  of changes. An error is a constructor for its message; a function that throws returns the errors that it throws with.
  \<open>std::partition\<close> does not say in which order it leaves the elements: it is a parameter, for which \<open>libcxx_partition\<close> is the
  algorithm of the platform's library.
\<close>

section \<open>Finding a class\<close>

type_synonym schema = "object_schema list"

definition schema_of :: "object_schema list \<Rightarrow> schema" where
  "schema_of types = sort_key os_name types"

definition schema_find :: "string \<Rightarrow> schema \<Rightarrow> nat option" where
  "schema_find name s =
     (let it = lower_bound (\<lambda>os. string_data_less (os_name os) name) s 0 (length s)
      in if it \<noteq> length s \<and> os_name (s ! it) = name then Some it else None)"

section \<open>Validation\<close>

datatype validation_error =
    LinkingObjectsNotArray string string
  | NotNullable string string property_type
  | ObjectMustBeNullable string string
  | NotPrimaryType string string property_type
  | TwoPrimaryKeys string string string
  | NotIndexable string string property_type
  | HasOriginName string string property_type
  | NoOriginName string string property_type
  | HasObjectType string string property_type
  | UnknownObjectType string string property_type string
  | OriginMissing string string string string
  | OriginNotLink string string string string
  | OriginOtherType string string string string string
  | NoSuchPrimaryKey string string
  | DuplicateType string

text \<open>The checks up to the object type; \<open>primary\<close> is the primary property found so far.\<close>

definition validate_flags :: "string \<Rightarrow> property \<Rightarrow> property option \<Rightarrow> validation_error list" where
  "validate_flags object_name prop primary =
     (let n = pr_name prop; ty = pr_type prop
      in (if pt_eq ty PT_LinkingObjects \<and> \<not> is_array ty then [LinkingObjectsNotArray object_name n] else []) @
         (if is_nullable ty \<and> \<not> type_is_nullable prop then [NotNullable object_name n ty]
          else if pt_eq ty PT_Object \<and> \<not> is_nullable ty \<and> \<not> is_array ty then [ObjectMustBeNullable object_name n]
          else []) @
         (if pr_primary prop
          then (if \<not> pt_eq ty PT_Int \<and> \<not> pt_eq ty PT_String then [NotPrimaryType object_name n ty] else []) @
               (case primary of None \<Rightarrow> [] | Some q \<Rightarrow> [TwoPrimaryKeys n (pr_name q) object_name])
          else []) @
         (if pr_indexed prop \<and> \<not> type_is_indexable prop then [NotIndexable object_name n ty] else []) @
         (if \<not> pt_eq ty PT_LinkingObjects \<and> pr_link_origin prop \<noteq> [] then [HasOriginName object_name n ty]
          else if pt_eq ty PT_LinkingObjects \<and> pr_link_origin prop = [] then [NoOriginName object_name n ty]
          else []))"

definition validate_object_type :: "schema \<Rightarrow> string \<Rightarrow> property \<Rightarrow> validation_error list" where
  "validate_object_type s object_name prop =
     (let n = pr_name prop; ty = pr_type prop
      in if \<not> pt_eq ty PT_Object \<and> \<not> pt_eq ty PT_LinkingObjects
         then (if pr_object_type prop \<noteq> [] then [HasObjectType object_name n ty] else [])
         else case schema_find (pr_object_type prop) s of
                None \<Rightarrow> [UnknownObjectType object_name n ty (pr_object_type prop)]
              | Some it \<Rightarrow>
                  if \<not> pt_eq ty PT_LinkingObjects then []
                  else case property_for_name (pr_link_origin prop) (s ! it) of
                         None \<Rightarrow> [OriginMissing (pr_object_type prop) (pr_link_origin prop) object_name n]
                       | Some q \<Rightarrow>
                           if \<not> pt_eq (pr_type q) PT_Object
                           then [OriginNotLink (pr_object_type prop) (pr_link_origin prop) object_name n]
                           else if pr_object_type q \<noteq> object_name
                           then [OriginOtherType (pr_object_type prop) (pr_link_origin prop) object_name n (pr_object_type q)]
                           else [])"

definition validate_property ::
  "schema \<Rightarrow> string \<Rightarrow> property \<Rightarrow> property option \<Rightarrow> validation_error list \<times> property option" where
  "validate_property s object_name prop primary =
     (validate_flags object_name prop primary @ validate_object_type s object_name prop,
      if pr_primary prop then Some prop else primary)"

fun validate_properties ::
  "schema \<Rightarrow> string \<Rightarrow> property list \<Rightarrow> property option \<Rightarrow> validation_error list \<times> property option" where
  "validate_properties s object_name [] primary = ([], primary)"
| "validate_properties s object_name (p # ps) primary =
     (let (es, primary') = validate_property s object_name p primary;
          (es', primary'') = validate_properties s object_name ps primary'
      in (es @ es', primary''))"

definition validate_object :: "schema \<Rightarrow> object_schema \<Rightarrow> validation_error list" where
  "validate_object s os =
     (let (es, primary) = validate_properties s (os_name os) (os_persisted os @ os_computed os) None
      in es @ (if os_primary_key os \<noteq> [] \<and> primary = None \<and> primary_key_property os = None
               then [NoSuchPrimaryKey (os_name os) (os_primary_key os)] else []))"

text \<open>\<open>adjacent_find\<close>, and the loop over its results.\<close>

fun duplicate_types :: "schema \<Rightarrow> validation_error list" where
  "duplicate_types (a # b # s) =
     (if os_name a = os_name b then DuplicateType (os_name a) # duplicate_types (b # s) else duplicate_types (b # s))"
| "duplicate_types s = []"

definition schema_validate :: "schema \<Rightarrow> validation_error list" where
  "schema_validate s = duplicate_types s @ concat (map (validate_object s) s)"

section \<open>Comparing\<close>

datatype schema_change =
    AddTable object_schema
  | RemoveTable object_schema
  | AddInitialProperties object_schema
  | AddProperty object_schema property
  | RemoveProperty object_schema property
  | ChangePropertyType object_schema property property
  | MakePropertyNullable object_schema property
  | MakePropertyRequired object_schema property
  | AddIndex object_schema property
  | RemoveIndex object_schema property
  | ChangePrimaryKey object_schema "property option"

fun is_not_remove_property :: "schema_change \<Rightarrow> bool" where
  "is_not_remove_property (RemoveProperty os p) = False"
| "is_not_remove_property sc = True"

fun get_removed_column :: "schema_change \<Rightarrow> 64 word" where
  "get_removed_column (RemoveProperty os p) = pr_table_column p"
| "get_removed_column sc = 0"

type_synonym partition_algorithm = "(schema_change \<Rightarrow> bool) \<Rightarrow> schema_change list \<Rightarrow> schema_change list"

definition compare_property :: "object_schema \<Rightarrow> object_schema \<Rightarrow> property \<Rightarrow> schema_change list" where
  "compare_property existing_schema target_schema current_prop =
     (case property_for_name (pr_name current_prop) target_schema of
        None \<Rightarrow> [RemoveProperty existing_schema current_prop]
      | Some target_prop \<Rightarrow>
          if property_is_computed target_schema target_prop then [RemoveProperty existing_schema current_prop]
          else if \<not> pt_eq (pr_type current_prop) (pr_type target_prop) \<or>
                  pr_object_type current_prop \<noteq> pr_object_type target_prop \<or>
                  is_array (pr_type current_prop) \<noteq> is_array (pr_type target_prop)
          then [ChangePropertyType existing_schema current_prop target_prop]
          else
            (if is_nullable (pr_type current_prop) \<noteq> is_nullable (pr_type target_prop)
             then if is_nullable (pr_type current_prop) then [MakePropertyRequired existing_schema current_prop]
                  else [MakePropertyNullable existing_schema current_prop]
             else []) @
            (if requires_index target_prop
             then if \<not> pr_indexed current_prop then [AddIndex existing_schema current_prop] else []
             else if requires_index current_prop then [RemoveIndex existing_schema current_prop]
             else []))"

definition object_changes :: "object_schema \<Rightarrow> object_schema \<Rightarrow> schema_change list" where
  "object_changes existing_schema target_schema =
     concat (map (compare_property existing_schema target_schema) (os_persisted existing_schema)) @
     (if os_primary_key existing_schema \<noteq> os_primary_key target_schema
      then [ChangePrimaryKey existing_schema (primary_key_property target_schema)] else []) @
     map (AddProperty existing_schema)
       (filter (\<lambda>p. property_for_name (pr_name p) existing_schema = None) (os_persisted target_schema))"

text \<open>The removals go to the end, by descending column; the order of equal columns is not specified.\<close>

definition order_changes :: "partition_algorithm \<Rightarrow> schema_change list \<Rightarrow> schema_change list" where
  "order_changes part changes =
     (let cs = part is_not_remove_property changes
      in takeWhile is_not_remove_property cs @
         rev (sort_key get_removed_column (rev (dropWhile is_not_remove_property cs))))"

definition compare_objects ::
  "partition_algorithm \<Rightarrow> object_schema \<Rightarrow> object_schema \<Rightarrow> schema_change list \<Rightarrow> schema_change list" where
  "compare_objects part existing_schema target_schema changes =
     order_changes part (changes @ object_changes existing_schema target_schema)"

fun zip_matching :: "schema \<Rightarrow> schema \<Rightarrow> (object_schema option \<times> object_schema option) list" where
  "zip_matching (a # as) (b # bs) =
     (if os_name a = os_name b then (Some a, Some b) # zip_matching as bs
      else if os_name a < os_name b then (Some a, None) # zip_matching as (b # bs)
      else (None, Some b) # zip_matching (a # as) bs)"
| "zip_matching as [] = map (\<lambda>a. (Some a, None)) as"
| "zip_matching [] bs = map (\<lambda>b. (None, Some b)) bs"

fun table_change :: "bool \<Rightarrow> object_schema option \<times> object_schema option \<Rightarrow> schema_change list" where
  "table_change include_table_removals (Some target, None) = [AddTable target]"
| "table_change include_table_removals (None, Some existing) =
     (if include_table_removals then [RemoveTable existing] else [])"
| "table_change include_table_removals m = []"

fun column_changes ::
  "partition_algorithm \<Rightarrow> object_schema option \<times> object_schema option \<Rightarrow> schema_change list \<Rightarrow> schema_change list" where
  "column_changes part (Some target, Some existing) changes = compare_objects part existing target changes"
| "column_changes part (Some target, None) changes = changes @ [AddInitialProperties target]"
| "column_changes part (None, m) changes = changes"

definition schema_compare :: "partition_algorithm \<Rightarrow> schema \<Rightarrow> schema \<Rightarrow> bool \<Rightarrow> schema_change list" where
  "schema_compare part s target_schema include_table_removals =
     (let ms = zip_matching target_schema s
      in fold (column_changes part) ms (concat (map (table_change include_table_removals) ms)))"

definition copy_columns :: "object_schema \<Rightarrow> object_schema \<Rightarrow> object_schema" where
  "copy_columns other existing =
     fold (\<lambda>p os. if property_for_name (pr_name p) os = None then os
                  else update_property (pr_name p) (\<lambda>q. q\<lparr>pr_table_column := pr_table_column p\<rparr>) os)
       (os_persisted other) existing"

fun copy_matching :: "object_schema option \<times> object_schema option \<Rightarrow> object_schema list" where
  "copy_matching (Some existing, Some other) = [copy_columns other existing]"
| "copy_matching (Some existing, None) = [existing]"
| "copy_matching (None, m) = []"

definition copy_table_columns_from :: "schema \<Rightarrow> schema \<Rightarrow> schema" where
  "copy_table_columns_from s other = concat (map copy_matching (zip_matching s other))"

text \<open>\<open>std::partition\<close> of libc++: the first element that does not satisfy the predicate and the last one that
  does change places.\<close>

function partition_swaps :: "('a \<Rightarrow> bool) \<Rightarrow> nat \<Rightarrow> nat \<Rightarrow> 'a list \<Rightarrow> 'a list" where
  "partition_swaps P i j xs =
     (if i < j then
        if P (xs ! i) then partition_swaps P (i + 1) j xs
        else if \<not> P (xs ! (j - 1)) then partition_swaps P i (j - 1) xs
        else partition_swaps P (i + 1) (j - 1) (xs[i := xs ! (j - 1), j - 1 := xs ! i])
      else xs)"
  by pat_completeness auto
termination
  by (relation "measure (\<lambda>(P, i, j, xs). j - i)") auto

declare partition_swaps.simps [simp del]

definition libcxx_partition :: "('a \<Rightarrow> bool) \<Rightarrow> 'a list \<Rightarrow> 'a list" where
  "libcxx_partition P xs = partition_swaps P 0 (length xs) xs"

end
