(* ===== verification/SchemaFind.thy ===== *)
theory SchemaFind
  imports Schema
begin

text \<open>The binary search for a class, and validation as a condition on the schema.\<close>

section \<open>Searching\<close>

definition plain_name :: "string \<Rightarrow> bool" where
  "plain_name n \<longleftrightarrow> (\<forall>c \<in> set n. of_char c < (128 :: int))"

definition data_sorted :: "schema \<Rightarrow> bool" where
  "data_sorted s \<longleftrightarrow> sorted_wrt string_data_less (map os_name s)"

lemma string_data_less_trans: "string_data_less a b \<Longrightarrow> string_data_less b c \<Longrightarrow> string_data_less a c"
  by (auto simp: string_data_less_def)

lemma string_data_less_irrefl: "\<not> string_data_less a a"
  by (simp add: string_data_less_def)

lemma schema_find_iff:
  assumes "data_sorted s"
  shows "schema_find n s = Some i \<longleftrightarrow> i < length s \<and> os_name (s ! i) = n"
proof -
  let ?b = "\<lambda>os. string_data_less (os_name os) n"
  let ?l = "lower_bound ?b s 0 (length s)"
  have lt: "string_data_less (os_name (s ! i)) (os_name (s ! j))" if "i < j" "j < length s" for i j
    using assms sorted_wrt_nth_less[of string_data_less "map os_name s" i j] that by (simp add: data_sorted_def)
  have mono: "?b (s ! i)" if "i \<le> j" "j < length s" "?b (s ! j)" for i j
    using lt[of i j] that string_data_less_trans[of "os_name (s ! i)" "os_name (s ! j)" n] by (cases "i = j") auto
  have "(\<forall>i < ?l. ?b (s ! i)) \<and> ?l \<le> length s \<and> (\<forall>i. ?l \<le> i \<longrightarrow> i < length s \<longrightarrow> \<not> ?b (s ! i))"
    by (rule lower_bound_spec[of s ?b 0 "length s", OF mono]) simp_all
  then have l: "\<forall>i < ?l. ?b (s ! i)" "?l \<le> length s" "\<forall>i. ?l \<le> i \<longrightarrow> i < length s \<longrightarrow> \<not> ?b (s ! i)"
    by blast+
  have "?l = i" if i: "i < length s" "os_name (s ! i) = n"
  proof (rule antisym)
    show "?l \<le> i" using l(1) i string_data_less_irrefl by (metis not_le)
    show "i \<le> ?l"
    proof (rule ccontr)
      assume "\<not> i \<le> ?l"
      then show False using lt[of ?l i] l(3) i by auto
    qed
  qed
  then show ?thesis using l(2) by (auto simp: schema_find_def Let_def)
qed

lemma schema_find_None:
  assumes "data_sorted s" shows "schema_find n s = None \<longleftrightarrow> n \<notin> os_name ` set s"
proof -
  have "n \<in> os_name ` set s \<longleftrightarrow> (\<exists>i < length s. os_name (s ! i) = n)"
    by (metis imageE image_eqI in_set_conv_nth)
  then have "n \<in> os_name ` set s \<longleftrightarrow> (\<exists>i. schema_find n s = Some i)" unfolding schema_find_iff[OF assms] by blast
  then show ?thesis by (cases "schema_find n s") simp_all
qed

lemma plain_less: "plain_name a \<Longrightarrow> plain_name b \<Longrightarrow> a < b \<Longrightarrow> string_data_less a b"
proof (induction a arbitrary: b)
  case Nil
  then show ?case by (cases b) (auto simp: string_data_less_def)
next
  case (Cons c a)
  then obtain d b' where b: "b = d # b'" by (cases b) auto
  have "signed_char c = of_char c" "signed_char d = of_char d"
    using Cons.prems b by (auto simp: signed_char_def plain_name_def Let_def)
  moreover have "c < d \<longleftrightarrow> (of_char c :: int) < of_char d"
    by (metis less_char_def of_nat_less_iff of_nat_of_char)
  ultimately show ?case
    using Cons.IH[of b'] Cons.prems b by (auto simp: string_data_less_def plain_name_def)
qed

lemma schema_of_data_sorted:
  assumes "distinct (map os_name types)" "\<forall>os \<in> set types. plain_name (os_name os)"
  shows "data_sorted (schema_of types)"
proof -
  have d: "distinct (map os_name (schema_of types))"
    using assms(1) by (simp add: schema_of_def distinct_map)
  have "sorted (map os_name (schema_of types))" by (simp add: schema_of_def)
  then have "sorted_wrt (<) (map os_name (schema_of types))" using d by (simp add: strict_sorted_iff)
  then show ?thesis
    unfolding data_sorted_def
    by (rule sorted_wrt_mono_rel[rotated]) (use assms(2) plain_less in \<open>auto simp: schema_of_def\<close>)
qed

section \<open>Valid schemas\<close>

definition property_ok :: "object_schema list \<Rightarrow> string \<Rightarrow> property \<Rightarrow> bool" where
  "property_ok types object_name p \<longleftrightarrow>
     (let ty = pr_type p; link = pt_eq ty PT_Object; linking = pt_eq ty PT_LinkingObjects
      in (linking \<longrightarrow> is_array ty) \<and> (is_nullable ty \<longrightarrow> type_is_nullable p) \<and>
         (link \<and> \<not> is_array ty \<longrightarrow> is_nullable ty) \<and>
         (pr_primary p \<longrightarrow> pt_eq ty PT_Int \<or> pt_eq ty PT_String) \<and> (pr_indexed p \<longrightarrow> type_is_indexable p) \<and>
         (linking \<longleftrightarrow> pr_link_origin p \<noteq> []) \<and> (\<not> link \<and> \<not> linking \<longrightarrow> pr_object_type p = []) \<and>
         (link \<or> linking \<longrightarrow> (\<exists>os \<in> set types. os_name os = pr_object_type p \<and>
            (linking \<longrightarrow> (case property_for_name (pr_link_origin p) os of
                           None \<Rightarrow> False
                         | Some q \<Rightarrow> pt_eq (pr_type q) PT_Object \<and> pr_object_type q = object_name)))))"

definition object_ok :: "object_schema list \<Rightarrow> object_schema \<Rightarrow> bool" where
  "object_ok types os \<longleftrightarrow>
     (let ps = os_persisted os @ os_computed os
      in (\<forall>p \<in> set ps. property_ok types (os_name os) p) \<and> length (filter pr_primary ps) \<le> 1 \<and>
         (os_primary_key os \<noteq> [] \<and> filter pr_primary ps = [] \<longrightarrow> primary_key_property os \<noteq> None))"

definition schema_ok :: "object_schema list \<Rightarrow> bool" where
  "schema_ok types \<longleftrightarrow> distinct (map os_name types) \<and> (\<forall>os \<in> set types. object_ok types os)"

lemma distinct_types: "sorted (map os_name s) \<Longrightarrow> duplicate_types s = [] \<longleftrightarrow> distinct (map os_name s)"
proof (induction s rule: duplicate_types.induct)
  case (1 a b s)
  have ab: "os_name a \<le> os_name b" "sorted (map os_name (b # s))" "\<forall>x \<in> set s. os_name b \<le> os_name x" using "1.prems" by auto
  have "os_name a \<notin> os_name ` set s" if "os_name a \<noteq> os_name b"
  proof
    assume "os_name a \<in> os_name ` set s"
    then obtain x where "x \<in> set s" "os_name a = os_name x" by auto
    then show False using ab that by (metis antisym)
  qed
  then show ?case using "1.IH" ab(2) by (cases "os_name a = os_name b") auto
qed simp_all

lemma pt_eq_distinct: "pt_eq ty PT_Object \<Longrightarrow> \<not> pt_eq ty PT_LinkingObjects"
  by (simp add: pt_eq_def pt_defs)

lemma validate_object_type_iff:
  assumes "data_sorted s"
  shows "validate_object_type s n p = [] \<longleftrightarrow>
    (if \<not> pt_eq (pr_type p) PT_Object \<and> \<not> pt_eq (pr_type p) PT_LinkingObjects then pr_object_type p = []
     else \<exists>os \<in> set s. os_name os = pr_object_type p \<and>
       (pt_eq (pr_type p) PT_LinkingObjects \<longrightarrow> (case property_for_name (pr_link_origin p) os of
          None \<Rightarrow> False
        | Some q \<Rightarrow> pt_eq (pr_type q) PT_Object \<and> pr_object_type q = n)))"
proof (cases "schema_find (pr_object_type p) s")
  case None
  then have "\<forall>os \<in> set s. os_name os \<noteq> pr_object_type p" using schema_find_None[OF assms] by force
  then show ?thesis unfolding validate_object_type_def Let_def None by auto
next
  case (Some i)
  have i: "i < length s \<and> os_name (s ! i) = pr_object_type p" by (rule schema_find_iff[OF assms, THEN iffD1, OF Some])
  have "os = s ! i" if h: "os \<in> set s" "os_name os = pr_object_type p" for os
  proof -
    obtain j where j: "j < length s" "os = s ! j" using h(1) by (metis in_set_conv_nth)
    then have "schema_find (pr_object_type p) s = Some j" using schema_find_iff[OF assms] h(2) by blast
    then show ?thesis using Some j(2) by simp
  qed
  then have "(\<exists>os \<in> set s. os_name os = pr_object_type p \<and> P os) \<longleftrightarrow> P (s ! i)" for P
    using i by (metis nth_mem)
  then show ?thesis unfolding validate_object_type_def Let_def Some by (auto split: option.splits)
qed

lemma validate_flags_iff:
  "validate_flags n p primary = [] \<longleftrightarrow>
    (let ty = pr_type p; link = pt_eq ty PT_Object; linking = pt_eq ty PT_LinkingObjects
     in (linking \<longrightarrow> is_array ty) \<and> (is_nullable ty \<longrightarrow> type_is_nullable p) \<and> (link \<and> \<not> is_array ty \<longrightarrow> is_nullable ty) \<and>
        (pr_primary p \<longrightarrow> pt_eq ty PT_Int \<or> pt_eq ty PT_String) \<and> (pr_indexed p \<longrightarrow> type_is_indexable p) \<and>
        (linking \<longleftrightarrow> pr_link_origin p \<noteq> [])) \<and> (pr_primary p \<longrightarrow> primary = None)"
  by (auto simp: validate_flags_def Let_def split: option.splits)

lemma validate_property_iff:
  assumes "data_sorted s"
  shows "fst (validate_property s n p primary) = [] \<longleftrightarrow> property_ok s n p \<and> (pr_primary p \<longrightarrow> primary = None)"
  using validate_object_type_iff[OF assms, of n p] validate_flags_iff[of n p primary]
  by (simp add: validate_property_def property_ok_def Let_def) blast

lemma validate_properties_iff:
  assumes "data_sorted s"
  shows "(fst (validate_properties s n ps primary) = [] \<longleftrightarrow>
      (\<forall>p \<in> set ps. property_ok s n p) \<and> length (filter pr_primary ps) + (if primary = None then 0 else 1) \<le> 1) \<and>
    (snd (validate_properties s n ps primary) = None \<longleftrightarrow> primary = None \<and> filter pr_primary ps = [])"
proof (induction ps arbitrary: primary)
  case (Cons p ps)
  obtain es q where v: "validate_property s n p primary = (es, q)" by fastforce
  have q: "q = (if pr_primary p then Some p else primary)" using v by (simp add: validate_property_def)
  show ?case
    using Cons.IH[of q] validate_property_iff[OF assms, of n p primary] v q
    by (auto simp: Let_def split: prod.splits)
qed simp

lemma validate_object_iff:
  assumes "data_sorted s" shows "validate_object s os = [] \<longleftrightarrow> object_ok s os"
  using validate_properties_iff[OF assms, of "os_name os" "os_persisted os @ os_computed os" None]
  by (auto simp: validate_object_def object_ok_def Let_def split: prod.splits)

lemma object_ok_set: "set types = set types' \<Longrightarrow> object_ok types os = object_ok types' os"
  by (simp add: object_ok_def property_ok_def)

lemma schema_validate_iff:
  assumes "\<forall>os \<in> set types. plain_name (os_name os)"
  shows "schema_validate (schema_of types) = [] \<longleftrightarrow> schema_ok types"
proof -
  let ?s = "schema_of types"
  have s: "set ?s = set types" "distinct (map os_name ?s) = distinct (map os_name types)"
    "sorted (map os_name ?s)" by (auto simp: schema_of_def distinct_map)
  show ?thesis
  proof (cases "distinct (map os_name types)")
    case True
    then show ?thesis
      using validate_object_iff[OF schema_of_data_sorted[OF True assms]] distinct_types[OF s(3)] s(1,2)
        object_ok_set[OF s(1)] by (simp add: schema_validate_def schema_ok_def)
  next
    case False
    then show ?thesis using distinct_types[OF s(3)] s(2) by (simp add: schema_validate_def schema_ok_def)
  qed
qed

end
