(* ===== verification/SchemaCompare.thy ===== *)
theory SchemaCompare
  imports SchemaFind "HOL-Library.Multiset"
begin

text \<open>
  What a list of changes is to do, on a catalogue of tables that knows for each column its type, the class that it links
  to and whether it has an index; and the proof that the changes that \<open>compare\<close> lists turn the catalogue of a file into
  that of the schema it is compared with.
\<close>

section \<open>Catalogues\<close>

type_synonym column = "property_type \<times> string \<times> bool"
type_synonym table = "string \<times> (string \<rightharpoonup> column)"
type_synonym catalogue = "string \<rightharpoonup> table"

text \<open>A column of a file has the index that the file has, a column of a schema the one that it asks for.\<close>

definition file_column :: "property \<Rightarrow> column" where
  "file_column p = (pr_type p, pr_object_type p, pr_indexed p)"

definition target_column :: "property \<Rightarrow> column" where
  "target_column p = (pr_type p, pr_object_type p, requires_index p)"

definition columns_of :: "(property \<Rightarrow> column) \<Rightarrow> property list \<Rightarrow> string \<rightharpoonup> column" where
  "columns_of col ps n = map_option col (find (\<lambda>p. pr_name p = n) ps)"

definition table_of :: "(property \<Rightarrow> column) \<Rightarrow> object_schema \<Rightarrow> table" where
  "table_of col os = (os_primary_key os, columns_of col (os_persisted os))"

definition catalogue_of :: "(property \<Rightarrow> column) \<Rightarrow> schema \<Rightarrow> catalogue" where
  "catalogue_of col s n = map_option (table_of col) (find (\<lambda>os. os_name os = n) s)"

definition update_column :: "string \<Rightarrow> (column \<Rightarrow> column) \<Rightarrow> table \<Rightarrow> table" where
  "update_column n f = map_prod id (\<lambda>cols. cols(n := map_option f (cols n)))"

fun table_effect :: "schema_change \<Rightarrow> table \<Rightarrow> table" where
  "table_effect (AddInitialProperties os) (pk, cols) = (pk, columns_of target_column (os_persisted os))"
| "table_effect (AddProperty os p) (pk, cols) = (pk, cols(pr_name p \<mapsto> target_column p))"
| "table_effect (RemoveProperty os p) (pk, cols) = (pk, cols(pr_name p := None))"
| "table_effect (ChangePropertyType os p q) (pk, cols) = (pk, cols(pr_name p \<mapsto> target_column q))"
| "table_effect (MakePropertyNullable os p) t = update_column (pr_name p) (\<lambda>(ty, ot, ix). (ty OR PT_Nullable, ot, ix)) t"
| "table_effect (MakePropertyRequired os p) t = update_column (pr_name p) (\<lambda>(ty, ot, ix). (ty AND NOT PT_Nullable, ot, ix)) t"
| "table_effect (AddIndex os p) t = update_column (pr_name p) (\<lambda>(ty, ot, ix). (ty, ot, True)) t"
| "table_effect (RemoveIndex os p) t = update_column (pr_name p) (\<lambda>(ty, ot, ix). (ty, ot, False)) t"
| "table_effect (ChangePrimaryKey os p) (pk, cols) = (case p of None \<Rightarrow> [] | Some q \<Rightarrow> pr_name q, cols)"
| "table_effect (AddTable os) t = t"
| "table_effect (RemoveTable os) t = t"

fun changed_table :: "schema_change \<Rightarrow> string" where
  "changed_table (AddTable os) = os_name os"
| "changed_table (RemoveTable os) = os_name os"
| "changed_table (AddInitialProperties os) = os_name os"
| "changed_table (AddProperty os p) = os_name os"
| "changed_table (RemoveProperty os p) = os_name os"
| "changed_table (ChangePropertyType os p q) = os_name os"
| "changed_table (MakePropertyNullable os p) = os_name os"
| "changed_table (MakePropertyRequired os p) = os_name os"
| "changed_table (AddIndex os p) = os_name os"
| "changed_table (RemoveIndex os p) = os_name os"
| "changed_table (ChangePrimaryKey os p) = os_name os"

fun apply_change :: "schema_change \<Rightarrow> catalogue \<Rightarrow> catalogue" where
  "apply_change (AddTable os) cat = cat(os_name os \<mapsto> (os_primary_key os, Map.empty))"
| "apply_change (RemoveTable os) cat = cat(os_name os := None)"
| "apply_change c cat = cat(changed_table c := map_option (table_effect c) (cat (changed_table c)))"

fun keeps_tables :: "schema_change \<Rightarrow> bool" where
  "keeps_tables (AddTable os) = False"
| "keeps_tables (RemoveTable os) = False"
| "keeps_tables c = True"

lemma apply_change_keeps:
  "keeps_tables c \<Longrightarrow> apply_change c cat = cat(changed_table c := map_option (table_effect c) (cat (changed_table c)))"
  by (cases c) auto

section \<open>The order of changes\<close>

fun changed_column :: "schema_change \<Rightarrow> string option" where
  "changed_column (AddProperty os p) = Some (pr_name p)"
| "changed_column (RemoveProperty os p) = Some (pr_name p)"
| "changed_column (ChangePropertyType os p q) = Some (pr_name p)"
| "changed_column (MakePropertyNullable os p) = Some (pr_name p)"
| "changed_column (MakePropertyRequired os p) = Some (pr_name p)"
| "changed_column (AddIndex os p) = Some (pr_name p)"
| "changed_column (RemoveIndex os p) = Some (pr_name p)"
| "changed_column c = None"

fun about_null :: "schema_change \<Rightarrow> bool" where
  "about_null (MakePropertyNullable os p) = True"
| "about_null (MakePropertyRequired os p) = True"
| "about_null c = False"

fun about_index :: "schema_change \<Rightarrow> bool" where
  "about_index (AddIndex os p) = True"
| "about_index (RemoveIndex os p) = True"
| "about_index c = False"

fun within_table :: "schema_change \<Rightarrow> bool" where
  "within_table (AddTable os) = False"
| "within_table (RemoveTable os) = False"
| "within_table (AddInitialProperties os) = False"
| "within_table c = True"

definition independent :: "schema_change \<Rightarrow> schema_change \<Rightarrow> bool" where
  "independent c d \<longleftrightarrow> c = d \<or> changed_column c \<noteq> changed_column d \<or> about_null c \<and> about_index d \<or> about_index c \<and> about_null d"

lemma update_column_twist:
  "m \<noteq> n \<Longrightarrow> update_column m f (update_column n g t) = update_column n g (update_column m f t)"
  by (cases t) (auto simp: update_column_def fun_upd_twist)

lemma table_effect_commute:
  "independent c d \<Longrightarrow> within_table c \<Longrightarrow> within_table d \<Longrightarrow> table_effect c (table_effect d t) = table_effect d (table_effect c t)"
  unfolding independent_def
  by (cases t; cases c; cases d)
    (auto simp: update_column_def fun_upd_twist option.map_comp comp_def case_prod_beta split: option.splits)

lemma apply_change_commute:
  assumes "keeps_tables c" "keeps_tables d"
    and "changed_table c = changed_table d \<Longrightarrow> c = d \<or> independent c d \<and> within_table c \<and> within_table d"
  shows "apply_change c \<circ> apply_change d = apply_change d \<circ> apply_change c"
proof (cases "changed_table c = changed_table d")
  case True
  then have "table_effect c (table_effect d x) = table_effect d (table_effect c x)" for x
    using assms(3) table_effect_commute[of c d] by blast
  then have "table_effect c \<circ> table_effect d = table_effect d \<circ> table_effect c" by (simp add: fun_eq_iff)
  then show ?thesis by (intro ext) (use True assms(1,2) in \<open>simp add: apply_change_keeps option.map_comp\<close>)
next
  case False
  then show ?thesis using assms(1,2) by (auto simp: fun_eq_iff apply_change_keeps)
qed

section \<open>The changes of one class\<close>

text \<open>The schema of a file has no computed properties; the names of its properties are distinct.\<close>

definition file_object :: "object_schema \<Rightarrow> bool" where
  "file_object os \<longleftrightarrow> os_computed os = [] \<and> distinct (map pr_name (os_persisted os))"

definition target_object :: "object_schema \<Rightarrow> bool" where
  "target_object os \<longleftrightarrow>
     distinct (map pr_name (os_persisted os @ os_computed os)) \<and> (\<forall>p \<in> set (os_persisted os @ os_computed os). pr_name p \<noteq> []) \<and>
     (os_primary_key os \<noteq> [] \<longrightarrow> primary_key_property os \<noteq> None)"

lemma compare_property_column:
  "c \<in> set (compare_property e t p) \<Longrightarrow> changed_column c = Some (pr_name p) \<and> changed_table c = os_name e \<and> within_table c"
  by (auto simp: compare_property_def split: option.splits if_splits)

lemma compare_property_independent:
  "c \<in> set (compare_property e t p) \<Longrightarrow> d \<in> set (compare_property e t p) \<Longrightarrow> independent c d"
  by (auto simp: compare_property_def independent_def split: option.splits if_splits)

lemma file_property_None: "file_object e \<Longrightarrow> property_for_name n e = None \<longleftrightarrow> n \<notin> pr_name ` set (os_persisted e)"
  by (auto simp: property_for_name_None file_object_def)

lemma object_changes_cases:
  assumes "c \<in> set (object_changes e t)"
  obtains (compared) p where "p \<in> set (os_persisted e)" "c \<in> set (compare_property e t p)"
    | (key) "c = ChangePrimaryKey e (primary_key_property t)"
    | (added) q where "q \<in> set (os_persisted t)" "property_for_name (pr_name q) e = None" "c = AddProperty e q"
  using assms by (auto simp: object_changes_def split: if_splits)

lemma object_changes_table: "c \<in> set (object_changes e t) \<Longrightarrow> changed_table c = os_name e \<and> within_table c"
  by (erule object_changes_cases) (auto dest: compare_property_column)

lemma distinct_names_eq: "distinct (map f xs) \<Longrightarrow> x \<in> set xs \<Longrightarrow> y \<in> set xs \<Longrightarrow> f x = f y \<Longrightarrow> x = y"
  by (auto simp: distinct_map inj_on_def)

lemma object_changes_independent:
  assumes "file_object e" "target_object t" and c: "c \<in> set (object_changes e t)" and d: "d \<in> set (object_changes e t)"
  shows "independent c d"
proof -
  have e: "distinct (map pr_name (os_persisted e))" and t: "distinct (map pr_name (os_persisted t))"
    using assms(1,2) by (auto simp: file_object_def target_object_def)
  have key: "independent x y" if "changed_column x \<noteq> changed_column y" for x y using that by (simp add: independent_def)
  show ?thesis
    using c
  proof (cases rule: object_changes_cases)
    case (compared p)
    note cp = this compare_property_column[OF this(2)]
    show ?thesis
      using d
    proof (cases rule: object_changes_cases)
      case (compared q)
      then show ?thesis
        using cp compare_property_column[OF compared(2)] compare_property_independent distinct_names_eq[OF e] key
        by (metis option.inject)
    next
      case key
      then show ?thesis using cp by (auto simp: independent_def)
    next
      case (added q)
      then have "pr_name p \<noteq> pr_name q" using cp(1) file_property_None[OF assms(1)] by force
      then show ?thesis using cp added key by auto
    qed
  next
    case key
    show ?thesis
      using d by (cases rule: object_changes_cases) (use key compare_property_column in \<open>auto simp: independent_def\<close>)
  next
    case (added q)
    show ?thesis
      using d
    proof (cases rule: object_changes_cases)
      case (compared p)
      then have "pr_name p \<noteq> pr_name q" using added file_property_None[OF assms(1)] by force
      then show ?thesis using added compare_property_column[OF compared(2)] by (auto simp: independent_def)
    next
      case key
      then show ?thesis using added by (auto simp: independent_def)
    next
      case (added r)
      then show ?thesis using \<open>c = AddProperty e q\<close> \<open>q \<in> set (os_persisted t)\<close> distinct_names_eq[OF t, of q r]
        by (auto simp: independent_def)
    qed
  qed
qed

lemma find_in_set: "find P xs = Some x \<Longrightarrow> x \<in> set xs"
  by (auto simp: find_Some_iff)

lemma compare_property_effect:
  assumes "target_object t" "cols (pr_name p) = Some (file_column p)"
  shows "fold table_effect (compare_property e t p) (pk, cols) =
    (pk, cols(pr_name p := columns_of target_column (os_persisted t) (pr_name p)))"
proof (cases "find (\<lambda>q. pr_name q = pr_name p) (os_persisted t)")
  case None
  have "compare_property e t p = [RemoveProperty e p]"
    using None property_eq_refl
    by (auto simp: compare_property_def property_for_name_def property_is_computed_def split: option.splits dest!: find_in_set)
  then show ?thesis using None by (simp add: columns_of_def)
next
  case (Some q)
  then have q: "q \<in> set (os_persisted t)" "pr_name q = pr_name p" by (auto simp: find_Some_iff)
  have c: "\<not> property_is_computed t q"
    using assms(1) q(1) by (auto simp: property_is_computed_def property_eq_def target_object_def image_iff)
  have f: "property_for_name (pr_name p) t = Some q" using Some by (simp add: property_for_name_def)
  let ?a = "pr_type p" and ?b = "pr_type q"
  show ?thesis
  proof (cases "\<not> pt_eq ?a ?b \<or> pr_object_type p \<noteq> pr_object_type q \<or> is_array ?a \<noteq> is_array ?b")
    case True
    then show ?thesis using f c Some by (simp add: compare_property_def columns_of_def)
  next
    case False
    then have ty: "is_nullable ?a = is_nullable ?b \<Longrightarrow> ?a = ?b" using property_type_eqI by blast
    have "is_nullable ?b \<Longrightarrow> ?a OR PT_Nullable = ?b" "\<not> is_nullable ?b \<Longrightarrow> ?a AND NOT PT_Nullable = ?b"
      using change_nullable False by blast+
    then show ?thesis
      using f c Some False ty assms(2)
      by (auto simp: compare_property_def columns_of_def update_column_def file_column_def target_column_def requires_index_def fun_upd_def)
  qed
qed

lemma columns_of_some:
  "distinct (map pr_name ps) \<Longrightarrow> p \<in> set ps \<Longrightarrow> columns_of col ps (pr_name p) = Some (col p)"
  by (induction ps) (auto simp: columns_of_def image_iff)

lemma columns_of_none: "n \<notin> pr_name ` set ps \<Longrightarrow> columns_of col ps n = None"
  by (auto simp: columns_of_def find_None_iff)

lemma compared_columns:
  assumes "target_object t"
  shows "distinct (map pr_name ps) \<Longrightarrow> (\<forall>p \<in> set ps. cols (pr_name p) = Some (file_column p)) \<Longrightarrow>
    fold table_effect (concat (map (compare_property e t) ps)) (pk, cols) =
      (pk, \<lambda>n. if n \<in> pr_name ` set ps then columns_of target_column (os_persisted t) n else cols n)"
proof (induction ps arbitrary: cols)
  case (Cons p ps)
  let ?cols = "cols(pr_name p := columns_of target_column (os_persisted t) (pr_name p))"
  have "\<forall>q \<in> set ps. ?cols (pr_name q) = Some (file_column q)"
    using Cons.prems by (auto simp: image_iff)
  then have "fold table_effect (concat (map (compare_property e t) ps)) (pk, ?cols) =
      (pk, \<lambda>n. if n \<in> pr_name ` set ps then columns_of target_column (os_persisted t) n else ?cols n)"
    using Cons.IH Cons.prems(1) by simp
  moreover have "fold table_effect (compare_property e t p) (pk, cols) = (pk, ?cols)"
    using compare_property_effect[OF assms] Cons.prems(2) by simp
  ultimately show ?case by (simp del: fun_upd_apply) (auto simp: fun_eq_iff)
qed simp

lemma added_columns:
  "distinct (map pr_name qs) \<Longrightarrow>
    fold table_effect (map (AddProperty e) qs) (pk, cols) =
      (pk, \<lambda>n. if n \<in> pr_name ` set qs then columns_of target_column qs n else cols n)"
proof (induction qs arbitrary: cols)
  case (Cons q qs)
  then show ?case using Cons.IH[of "cols(pr_name q \<mapsto> target_column q)"] by (auto simp: fun_eq_iff columns_of_def)
qed simp

lemma columns_of_filter:
  "n \<in> pr_name ` set (filter P ps) \<Longrightarrow> distinct (map pr_name ps) \<Longrightarrow> columns_of col (filter P ps) n = columns_of col ps n"
  by (auto simp: columns_of_some distinct_map_filter)

lemma object_changes_effect:
  assumes "file_object e" "target_object t"
  shows "fold table_effect (object_changes e t) (table_of file_column e) = table_of target_column t"
proof -
  let ?E = "os_persisted e" and ?T = "os_persisted t"
  let ?new = "filter (\<lambda>p. property_for_name (pr_name p) e = None) ?T"
  have d: "distinct (map pr_name ?E)" "distinct (map pr_name ?T)" using assms by (auto simp: file_object_def target_object_def)
  have 1: "fold table_effect (concat (map (compare_property e t) ?E)) (table_of file_column e) =
      (os_primary_key e, \<lambda>n. if n \<in> pr_name ` set ?E then columns_of target_column ?T n else None)"
    unfolding table_of_def
    using compared_columns[OF assms(2) d(1), of "columns_of file_column ?E" e "os_primary_key e"] columns_of_some[OF d(1)]
    by (auto simp: fun_eq_iff columns_of_none)
  have pk: "(case primary_key_property t of None \<Rightarrow> [] | Some q \<Rightarrow> pr_name q) = os_primary_key t"
    using assms(2) property_for_name_Some[of "os_primary_key t" t] property_for_name_None[of "[]" t]
    by (cases "os_primary_key t = []") (auto simp: target_object_def primary_key_property_def image_iff split: option.splits)
  have 2: "fold table_effect (if os_primary_key e \<noteq> os_primary_key t then [ChangePrimaryKey e (primary_key_property t)] else [])
      (os_primary_key e, cols) = (os_primary_key t, cols)" for cols
    using pk by simp
  have "(\<lambda>n. if n \<in> pr_name ` set ?new then columns_of target_column ?new n
      else if n \<in> pr_name ` set ?E then columns_of target_column ?T n else None) = columns_of target_column ?T"
  proof
    fix n
    show "(if n \<in> pr_name ` set ?new then columns_of target_column ?new n
      else if n \<in> pr_name ` set ?E then columns_of target_column ?T n else None) = columns_of target_column ?T n"
    proof (cases "n \<in> pr_name ` set ?new \<or> n \<in> pr_name ` set ?E")
      case True
      then show ?thesis using columns_of_filter[OF _ d(2)] by auto
    next
      case False
      then have "n \<notin> pr_name ` set ?T" using file_property_None[OF assms(1)] by auto
      then show ?thesis using False columns_of_none by auto
    qed
  qed
  then show ?thesis
    using 1 2 added_columns[where qs = ?new and e = e and pk = "os_primary_key t", OF distinct_map_filter[OF d(2)]]
    by (simp add: object_changes_def table_of_def)
qed

section \<open>Matching classes\<close>

fun pair_name :: "object_schema option \<times> object_schema option \<Rightarrow> string" where
  "pair_name (Some t, m) = os_name t"
| "pair_name (None, Some e) = os_name e"
| "pair_name (None, None) = []"

definition find_object :: "string \<Rightarrow> schema \<Rightarrow> object_schema option" where
  "find_object n s = find (\<lambda>os. os_name os = n) s"

abbreviation sorted_schema :: "schema \<Rightarrow> bool" where
  "sorted_schema s \<equiv> sorted_wrt (<) (map os_name s)"

lemma find_object_simps [simp]:
  "find_object n [] = None" "find_object n (a # s) = (if os_name a = n then Some a else find_object n s)"
  by (simp_all add: find_object_def)

lemma find_object_none: "n \<notin> os_name ` set s \<Longrightarrow> find_object n s = None"
  by (auto simp: find_object_def find_None_iff)

lemma find_object_some: "distinct (map os_name s) \<Longrightarrow> a \<in> set s \<Longrightarrow> find_object (os_name a) s = Some a"
  by (induction s) (auto simp: image_iff)

lemma find_object_Some: "find_object n s = Some a \<Longrightarrow> a \<in> set s \<and> os_name a = n"
  by (auto simp: find_object_def find_Some_iff)

lemma sorted_schema_distinct: "sorted_schema s \<Longrightarrow> distinct (map os_name s)"
  by (simp add: strict_sorted_iff)

text \<open>Every pair holds what the two schemas have under its name, and there is one for each name.\<close>

lemma zip_matching_pairs:
  "sorted_schema as \<Longrightarrow> sorted_schema bs \<Longrightarrow>
     (\<forall>m \<in> set (zip_matching as bs). m = (find_object (pair_name m) as, find_object (pair_name m) bs)) \<and>
     distinct (map pair_name (zip_matching as bs)) \<and>
     pair_name ` set (zip_matching as bs) = os_name ` set as \<union> os_name ` set bs"
proof (induction as bs rule: zip_matching.induct)
  case (1 a as b bs)
  have sa: "sorted_schema as" "\<forall>x \<in> set as. os_name a < os_name x" and sb: "sorted_schema bs" "\<forall>x \<in> set bs. os_name b < os_name x"
    using "1.prems" by auto
  consider "os_name a = os_name b" | "os_name a < os_name b" | "os_name b < os_name a" by fastforce
  then show ?case
  proof cases
    case eq: 1
    note IH = "1.IH"(1)[OF eq sa(1) sb(1)]
    have n: "os_name b < pair_name m" if "m \<in> set (zip_matching as bs)" for m
    proof -
      have "pair_name m \<in> os_name ` set as \<union> os_name ` set bs" using IH that by blast
      then show ?thesis using sa(2) sb(2) eq by auto
    qed
    then show ?thesis using IH eq sa(2) sb(2) by (auto dest: less_imp_neq)
  next
    case lt: 2
    note IH = "1.IH"(2)[OF less_imp_neq[OF lt] lt sa(1) "1.prems"(2)]
    have n: "os_name a < pair_name m" if "m \<in> set (zip_matching as (b # bs))" for m
    proof -
      have "pair_name m \<in> os_name ` set as \<union> os_name ` set (b # bs)" using IH that by blast
      then show ?thesis using sa(2) sb(2) lt by auto
    qed
    have "os_name a \<notin> os_name ` set (b # bs)" using lt sb(2) by auto
    then have "find_object (os_name a) (b # bs) = None" by (rule find_object_none)
    then show ?thesis using IH lt n sa(2) sb(2) by (auto simp: less_imp_neq simp del: find_object_simps(2)) (auto simp: less_imp_neq)
  next
    case gt: 3
    note IH = "1.IH"(3)[OF less_imp_neq[OF gt, symmetric] _ "1.prems"(1) sb(1)]
    have gt': "\<not> os_name a < os_name b" using gt by auto
    note IH = IH[OF gt']
    have n: "os_name b < pair_name m" if "m \<in> set (zip_matching (a # as) bs)" for m
    proof -
      have "pair_name m \<in> os_name ` set (a # as) \<union> os_name ` set bs" using IH that by blast
      then show ?thesis using sa(2) sb(2) gt by auto
    qed
    have "os_name b \<notin> os_name ` set (a # as)" using gt sa(2) by auto
    then have "find_object (os_name b) (a # as) = None" by (rule find_object_none)
    then show ?thesis using IH gt gt' n sa(2) sb(2) by (auto simp: less_imp_neq simp del: find_object_simps(2)) (auto simp: less_imp_neq)
  qed
next
  case (2 as)
  then show ?case
    using find_object_some[OF sorted_schema_distinct] by (auto simp: comp_def image_image strict_sorted_iff)
next
  case (3 b bs)
  then show ?case
    using find_object_some[of bs] by (auto simp: comp_def image_image strict_sorted_iff)
qed

section \<open>The whole list\<close>

text \<open>What is needed of \<open>std::partition\<close>: besides its contract, that it leaves the elements alone that satisfy the
  predicate and have only such elements in front of them.\<close>

definition partition_ok :: "partition_algorithm \<Rightarrow> bool" where
  "partition_ok part \<longleftrightarrow>
     (\<forall>P xs. mset (part P xs) = mset xs \<and>
        (\<exists>ys zs. part P xs = takeWhile P xs @ ys @ zs \<and> (\<forall>y \<in> set ys. P y) \<and> (\<forall>z \<in> set zs. \<not> P z)))"

fun pair_changes :: "object_schema option \<times> object_schema option \<Rightarrow> schema_change list" where
  "pair_changes (Some target, Some existing) = object_changes existing target"
| "pair_changes (Some target, None) = [AddInitialProperties target]"
| "pair_changes (None, m) = []"

lemma order_changes_rest:
  assumes "partition_ok part" "\<forall>c \<in> set pre. is_not_remove_property c"
  shows "\<exists>rest'. order_changes part (pre @ rest) = pre @ rest' \<and> mset rest' = mset rest"
proof -
  let ?P = is_not_remove_property
  obtain ys zs where p: "part ?P (pre @ rest) = takeWhile ?P (pre @ rest) @ ys @ zs" "\<forall>y \<in> set ys. ?P y" "\<forall>z \<in> set zs. \<not> ?P z"
    "mset (part ?P (pre @ rest)) = mset (pre @ rest)"
    using assms(1) unfolding partition_ok_def by metis
  have w: "takeWhile ?P (pre @ rest) = pre @ takeWhile ?P rest" using assms(2) by (simp add: takeWhile_append2)
  have "\<forall>x \<in> set (pre @ takeWhile ?P rest @ ys). ?P x" using assms(2) p(2) by (auto dest: set_takeWhileD)
  then have t: "takeWhile ?P (part ?P (pre @ rest)) = pre @ takeWhile ?P rest @ ys" "dropWhile ?P (part ?P (pre @ rest)) = zs"
    using p(1,3) w by (cases zs; simp add: takeWhile_append dropWhile_append)+
  have "mset (pre @ takeWhile ?P rest @ ys @ zs) = mset (pre @ rest)" using p(1,4) w by simp
  then have "mset (takeWhile ?P rest @ ys @ rev (sort_key get_removed_column (rev zs))) = mset rest" by simp
  then show ?thesis unfolding order_changes_def Let_def t by auto
qed

lemma compare_rest:
  assumes "partition_ok part" "\<forall>c \<in> set pre. is_not_remove_property c"
  shows "\<exists>rest'. fold (column_changes part) ms (pre @ rest) = pre @ rest' \<and>
    mset rest' = mset (rest @ concat (map pair_changes ms))"
proof (induction ms arbitrary: rest)
  case (Cons m ms)
  obtain t e where m: "m = (t, e)" by (cases m)
  have "\<exists>rest1. column_changes part m (pre @ rest) = pre @ rest1 \<and> mset rest1 = mset (rest @ pair_changes m)"
    using order_changes_rest[OF assms, of "rest @ pair_changes m"]
    by (cases t; cases e) (auto simp: m compare_objects_def)
  then show ?case using Cons.IH by (metis (no_types, lifting) append.assoc concat.simps(2) fold_simps(2) list.simps(9) mset_append)
qed simp

end
