(* ===== verification/SchemaEffect.thy ===== *)
theory SchemaEffect
  imports SchemaCompare
begin

text \<open>
  The changes that \<open>compare\<close> lists make the catalogue of the file that of the target, whichever way \<open>std::partition\<close>
  leaves the elements that do not satisfy its predicate.
\<close>

section \<open>Class by class\<close>

lemma fold_pairs:
  assumes "\<And>m cat n. m \<in> set ms \<Longrightarrow> n \<noteq> pair_name m \<Longrightarrow> fold apply_change (g m) cat n = cat n"
    and "\<And>m cat. m \<in> set ms \<Longrightarrow> fold apply_change (g m) cat (pair_name m) = F m (cat (pair_name m))"
    and "distinct (map pair_name ms)"
  shows "(\<forall>m \<in> set ms. fold apply_change (concat (map g ms)) cat (pair_name m) = F m (cat (pair_name m))) \<and>
    (\<forall>n. n \<notin> pair_name ` set ms \<longrightarrow> fold apply_change (concat (map g ms)) cat n = cat n)"
  using assms
proof (induction ms arbitrary: cat)
  case (Cons a ms)
  have d: "pair_name a \<notin> pair_name ` set ms" "distinct (map pair_name ms)" using Cons.prems(3) by auto
  let ?cat = "fold apply_change (g a) cat"
  have IH: "(\<forall>m \<in> set ms. fold apply_change (concat (map g ms)) ?cat (pair_name m) = F m (?cat (pair_name m))) \<and>
    (\<forall>n. n \<notin> pair_name ` set ms \<longrightarrow> fold apply_change (concat (map g ms)) ?cat n = ?cat n)"
    by (rule Cons.IH) (use Cons.prems d(2) in auto)
  have a: "?cat (pair_name a) = F a (cat (pair_name a))" "\<And>n. n \<noteq> pair_name a \<Longrightarrow> ?cat n = cat n"
    using Cons.prems(1,2) by simp_all
  have "fold apply_change (concat (map g ms)) ?cat (pair_name m) = F m (cat (pair_name m))" if "m \<in> set ms" for m
    using IH that a(2)[of "pair_name m"] d(1) by (metis image_eqI)
  then show ?case using IH a d(1) by auto
qed simp

lemma fold_within_table:
  "\<forall>c \<in> set cs. keeps_tables c \<and> changed_table c = k \<Longrightarrow>
     fold apply_change cs cat = cat(k := map_option (fold table_effect cs) (cat k))"
proof (induction cs arbitrary: cat)
  case Nil
  then show ?case by (simp add: fun_eq_iff option.map_id0[unfolded id_def])
next
  case (Cons c cs)
  then show ?case by (cases "cat k") (auto simp: apply_change_keeps fun_eq_iff)
qed

lemma within_keeps: "within_table c \<Longrightarrow> keeps_tables c"
  by (cases c) auto

section \<open>The two halves of the list\<close>

fun table_result :: "bool \<Rightarrow> object_schema option \<times> object_schema option \<Rightarrow> table option \<Rightarrow> table option" where
  "table_result rm (Some t, None) x = Some (os_primary_key t, Map.empty)"
| "table_result rm (None, Some e) x = (if rm then None else x)"
| "table_result rm m x = x"

definition well_paired :: "object_schema option \<times> object_schema option \<Rightarrow> bool" where
  "well_paired m \<longleftrightarrow> (\<forall>t. fst m = Some t \<longrightarrow> os_name t = pair_name m \<and> target_object t) \<and>
     (\<forall>e. snd m = Some e \<longrightarrow> os_name e = pair_name m \<and> file_object e)"

lemma table_changes:
  "n \<noteq> pair_name m \<Longrightarrow> fold apply_change (table_change rm m) cat n = cat n"
  "fold apply_change (table_change rm m) cat (pair_name m) = table_result rm m (cat (pair_name m))"
proof -
  obtain t e where m: "m = (t, e)" by (cases m)
  show "n \<noteq> pair_name m \<Longrightarrow> fold apply_change (table_change rm m) cat n = cat n"
    by (cases t; cases e; simp add: m)
  show "fold apply_change (table_change rm m) cat (pair_name m) = table_result rm m (cat (pair_name m))"
    by (cases t; cases e; simp add: m)
qed

lemma pair_changes_table:
  "well_paired m \<Longrightarrow> c \<in> set (pair_changes m) \<Longrightarrow> keeps_tables c \<and> changed_table c = pair_name m"
  by (cases m rule: pair_changes.cases) (auto simp: well_paired_def dest: object_changes_table within_keeps)

lemma pair_changes_independent:
  assumes "well_paired m" "c \<in> set (pair_changes m)" "d \<in> set (pair_changes m)"
  shows "c = d \<or> independent c d \<and> within_table c \<and> within_table d"
proof -
  obtain t e where m: "m = (t, e)" by (cases m)
  show ?thesis
  proof (cases t)
    case None
    then show ?thesis using assms(2) m by simp
  next
    case t: (Some a)
    show ?thesis
    proof (cases e)
      case None
      then show ?thesis using assms(2,3) m t by simp
    next
      case e: (Some b)
      then have "c \<in> set (object_changes b a)" "d \<in> set (object_changes b a)" "file_object b" "target_object a"
        using assms m t by (simp_all add: well_paired_def)
      then show ?thesis using object_changes_independent object_changes_table by blast
    qed
  qed
qed

lemma pair_changes_fold:
  "well_paired m \<Longrightarrow> fold apply_change (pair_changes m) cat =
     cat(pair_name m := map_option (fold table_effect (pair_changes m)) (cat (pair_name m)))"
  by (rule fold_within_table) (blast dest: pair_changes_table)

lemma pair_changes_commute:
  assumes "distinct (map pair_name ms)" "\<forall>m \<in> set ms. well_paired m"
    and c: "c \<in> set (concat (map pair_changes ms))" and d: "d \<in> set (concat (map pair_changes ms))"
  shows "apply_change c \<circ> apply_change d = apply_change d \<circ> apply_change c"
proof -
  obtain m m' where m: "m \<in> set ms" "c \<in> set (pair_changes m)" and m': "m' \<in> set ms" "d \<in> set (pair_changes m')"
    using c d by auto
  have k: "keeps_tables c" "changed_table c = pair_name m" "keeps_tables d" "changed_table d = pair_name m'"
    using pair_changes_table m m' assms(2) by blast+
  show ?thesis
  proof (rule apply_change_commute[OF k(1,3)])
    assume "changed_table c = changed_table d"
    then have "m' = m" using k distinct_names_eq[OF assms(1) m(1) m'(1)] by simp
    then show "c = d \<or> independent c d \<and> within_table c \<and> within_table d"
      using m m' assms(2) pair_changes_independent by blast
  qed
qed

lemma zip_well_paired:
  assumes "sorted_schema target" "sorted_schema s" "\<forall>os \<in> set target. target_object os" "\<forall>os \<in> set s. file_object os"
    and "m \<in> set (zip_matching target s)"
  shows "well_paired m"
proof -
  have "m = (find_object (pair_name m) target, find_object (pair_name m) s)"
    using zip_matching_pairs[OF assms(1,2)] assms(5) by blast
  then have "fst m = find_object (pair_name m) target" "snd m = find_object (pair_name m) s" by (metis fst_conv snd_conv)+
  then show ?thesis using assms(3,4) find_object_Some unfolding well_paired_def by metis
qed

lemma initial_columns:
  "target_object t \<Longrightarrow> table_effect (AddInitialProperties t) (os_primary_key t, cols) = table_of target_column t"
  by (simp add: table_of_def)

section \<open>The list as a whole\<close>

definition compared_catalogue :: "bool \<Rightarrow> schema \<Rightarrow> schema \<Rightarrow> catalogue" where
  "compared_catalogue rm s target n =
     (case catalogue_of target_column target n of
        Some t \<Rightarrow> Some t
      | None \<Rightarrow> if rm then None else catalogue_of file_column s n)"

lemma catalogue_of_find: "catalogue_of col s n = map_option (table_of col) (find_object n s)"
  by (simp add: catalogue_of_def find_object_def)

lemma schema_compare_effect:
  assumes part: "partition_ok part" and sorted: "sorted_schema s" "sorted_schema target"
    and objects: "\<forall>os \<in> set s. file_object os" "\<forall>os \<in> set target. target_object os"
  shows "fold apply_change (schema_compare part s target rm) (catalogue_of file_column s) = compared_catalogue rm s target"
proof -
  define ms where "ms = zip_matching target s"
  define pre where "pre = concat (map (table_change rm) ms)"
  let ?rest = "concat (map pair_changes ms)"
  note pairs = zip_matching_pairs[OF sorted(2,1), folded ms_def]
  have wp: "\<forall>m \<in> set ms. well_paired m" using zip_well_paired[OF sorted(2,1) objects(2,1)] by (simp add: ms_def)
  have dist: "distinct (map pair_name ms)" using pairs by blast
  have "\<forall>c \<in> set (table_change rm m). is_not_remove_property c" for m
    by (cases "(rm, m)" rule: table_change.cases) auto
  then have "\<forall>c \<in> set pre. is_not_remove_property c" by (auto simp: pre_def)
  from compare_rest[OF part this, of ms "[]"] obtain rest' where
    r: "schema_compare part s target rm = pre @ rest'" "mset rest' = mset ?rest"
    by (auto simp: schema_compare_def ms_def pre_def)
  have eq: "fold apply_change rest' = fold apply_change ?rest"
    by (rule fold_multiset_equiv) (use pair_changes_commute[OF dist wp] r(2) mset_eq_setD[OF r(2)] in auto)
  let ?cat = "fold apply_change pre (catalogue_of file_column s)"
  have p: "(\<forall>m \<in> set ms. ?cat (pair_name m) = table_result rm m (catalogue_of file_column s (pair_name m))) \<and>
    (\<forall>n. n \<notin> pair_name ` set ms \<longrightarrow> ?cat n = catalogue_of file_column s n)"
    unfolding pre_def by (rule fold_pairs) (use table_changes dist in auto)
  have q: "(\<forall>m \<in> set ms. fold apply_change ?rest ?cat (pair_name m) =
      map_option (fold table_effect (pair_changes m)) (?cat (pair_name m))) \<and>
    (\<forall>n. n \<notin> pair_name ` set ms \<longrightarrow> fold apply_change ?rest ?cat n = ?cat n)"
    by (rule fold_pairs) (use wp dist in \<open>simp_all add: pair_changes_fold\<close>)
  show ?thesis
  proof
    fix n
    show "fold apply_change (schema_compare part s target rm) (catalogue_of file_column s) n = compared_catalogue rm s target n"
    proof (cases "n \<in> pair_name ` set ms")
      case True
      then obtain m where m: "m \<in> set ms" "n = pair_name m" by auto
      have mf: "m = (find_object n target, find_object n s)" using pairs m by blast
      have w: "well_paired m" using wp m(1) by blast
      have "fold apply_change ?rest ?cat n =
        map_option (fold table_effect (pair_changes m)) (table_result rm m (catalogue_of file_column s n))"
        using p q m by simp
      then show ?thesis
        using w object_changes_effect
        by (cases "find_object n target"; cases "find_object n s")
          (auto simp: r(1) eq mf compared_catalogue_def catalogue_of_find well_paired_def table_of_def option.map_id)
    next
      case False
      then have "find_object n target = None" "find_object n s = None"
        using pairs find_object_none[of n target] find_object_none[of n s] by blast+
      then show ?thesis using p q False by (simp add: r(1) eq compared_catalogue_def catalogue_of_find)
    qed
  qed
qed

section \<open>Partitions\<close>

text \<open>The contract that \<open>partition_ok\<close> states is that of the standard and of the algorithms of its libraries; the algorithm
  that keeps the order has it.\<close>

definition stable_partition :: "('a \<Rightarrow> bool) \<Rightarrow> 'a list \<Rightarrow> 'a list" where
  "stable_partition P xs = filter P xs @ filter (\<lambda>x. \<not> P x) xs"

lemma stable_partition_ok: "partition_ok stable_partition"
proof -
  have "filter P xs = takeWhile P xs @ filter P (dropWhile P xs)" for P and xs :: "schema_change list"
    by (induction xs) auto
  then have "stable_partition P xs = takeWhile P xs @ filter P (dropWhile P xs) @ filter (\<lambda>x. \<not> P x) xs"
    for P and xs :: "schema_change list"
    unfolding stable_partition_def by (metis append.assoc)
  moreover have "mset (stable_partition P xs) = mset xs" for P and xs :: "schema_change list"
    by (simp add: stable_partition_def)
  ultimately show ?thesis unfolding partition_ok_def by (metis (mono_tags, lifting) mem_Collect_eq set_filter)
qed

end
