(* ===== verification/SchemaVerify.thy ===== *)
theory SchemaVerify
  imports SchemaEffect
begin

text \<open>
  The checks of \<open>object_store.cpp\<close> on a list of changes, which report every change that a schema mode does not allow, and the
  decision of \<open>shared_realm.cpp\<close> whether a list of changes needs a write transaction. A check that throws returns the
  errors that it throws with.
\<close>

section \<open>Explanations\<close>

datatype difference =
    ClassAdded string
  | ClassRemoved string
  | PropertyAdded string string
  | PropertyRemoved string string
  | TypeChanged string string property property
  | MadeOptional string string
  | MadeRequired string string
  | PrimaryKeyChanged string string string
  | PrimaryKeyAdded string
  | PrimaryKeyRemoved string
  | MadeIndexed string string
  | MadeUnindexed string string

fun explain :: "schema_change \<Rightarrow> difference list" where
  "explain (AddTable os) = [ClassAdded (os_name os)]"
| "explain (RemoveTable os) = []"
| "explain (AddInitialProperties os) = []"
| "explain (AddProperty os p) = [PropertyAdded (os_name os) (pr_name p)]"
| "explain (RemoveProperty os p) = [PropertyRemoved (os_name os) (pr_name p)]"
| "explain (ChangePropertyType os p q) = [TypeChanged (os_name os) (pr_name q) p q]"
| "explain (MakePropertyNullable os p) = [MadeOptional (os_name os) (pr_name p)]"
| "explain (MakePropertyRequired os p) = [MadeRequired (os_name os) (pr_name p)]"
| "explain (ChangePrimaryKey os p) =
     (case p of
        Some q \<Rightarrow> if os_primary_key os \<noteq> [] then [PrimaryKeyChanged (os_name os) (os_primary_key os) (pr_name q)]
                  else [PrimaryKeyAdded (os_name os)]
      | None \<Rightarrow> [PrimaryKeyRemoved (os_name os)])"
| "explain (AddIndex os p) = [MadeIndexed (os_name os) (pr_name p)]"
| "explain (RemoveIndex os p) = [MadeUnindexed (os_name os) (pr_name p)]"

fun needs_migration_change :: "schema_change \<Rightarrow> bool" where
  "needs_migration_change (AddIndex os p) = False"
| "needs_migration_change (AddInitialProperties os) = False"
| "needs_migration_change (AddProperty os p) = True"
| "needs_migration_change (AddTable os) = False"
| "needs_migration_change (RemoveTable os) = False"
| "needs_migration_change (ChangePrimaryKey os p) = True"
| "needs_migration_change (ChangePropertyType os p q) = True"
| "needs_migration_change (MakePropertyNullable os p) = True"
| "needs_migration_change (MakePropertyRequired os p) = True"
| "needs_migration_change (RemoveIndex os p) = False"
| "needs_migration_change (RemoveProperty os p) = True"

definition needs_migration :: "schema_change list \<Rightarrow> bool" where
  "needs_migration changes \<longleftrightarrow> (\<exists>c \<in> set changes. needs_migration_change c)"

section \<open>Checks\<close>

definition no_changes_errors :: "schema_change list \<Rightarrow> difference list" where
  "no_changes_errors changes = concat (map explain changes)"

fun explain_migration :: "schema_change \<Rightarrow> difference list" where
  "explain_migration (AddTable os) = []"
| "explain_migration (AddInitialProperties os) = []"
| "explain_migration (AddIndex os p) = []"
| "explain_migration (RemoveIndex os p) = []"
| "explain_migration c = explain c"

definition no_migration_errors :: "schema_change list \<Rightarrow> difference list" where
  "no_migration_errors changes = concat (map explain_migration changes)"

fun explain_additive :: "schema_change \<Rightarrow> difference list" where
  "explain_additive (AddTable os) = []"
| "explain_additive (AddInitialProperties os) = []"
| "explain_additive (AddProperty os p) = []"
| "explain_additive (RemoveProperty os p) = []"
| "explain_additive (AddIndex os p) = []"
| "explain_additive (RemoveIndex os p) = []"
| "explain_additive c = explain c"

fun index_change :: "schema_change \<Rightarrow> bool" where
  "index_change (AddIndex os p) = True"
| "index_change (RemoveIndex os p) = True"
| "index_change c = False"

fun other_change :: "schema_change \<Rightarrow> bool" where
  "other_change (AddTable os) = True"
| "other_change (AddInitialProperties os) = True"
| "other_change (AddProperty os p) = True"
| "other_change c = False"

definition verify_valid_additive_changes :: "schema_change list \<Rightarrow> bool \<Rightarrow> difference list + bool" where
  "verify_valid_additive_changes changes update_indexes =
     (let errors = concat (map explain_additive changes)
      in if errors \<noteq> [] then Inl errors
         else Inr ((\<exists>c \<in> set changes. other_change c) \<or> (\<exists>c \<in> set changes. index_change c) \<and> update_indexes))"

fun explain_external :: "schema_change \<Rightarrow> difference list" where
  "explain_external (AddTable os) = []"
| "explain_external (AddInitialProperties os) = []"
| "explain_external (AddProperty os p) = []"
| "explain_external (AddIndex os p) = []"
| "explain_external (RemoveIndex os p) = []"
| "explain_external (RemoveTable os) = [ClassRemoved (os_name os)]"
| "explain_external c = explain c"

definition external_errors :: "schema_change list \<Rightarrow> difference list" where
  "external_errors changes = concat (map explain_external changes)"

fun explain_immutable :: "schema_change \<Rightarrow> difference list" where
  "explain_immutable (AddTable os) = []"
| "explain_immutable (AddInitialProperties os) = []"
| "explain_immutable (RemoveProperty os p) = []"
| "explain_immutable (AddIndex os p) = []"
| "explain_immutable (RemoveIndex os p) = []"
| "explain_immutable c = explain c"

definition immutable_errors :: "schema_change list \<Rightarrow> difference list" where
  "immutable_errors changes = concat (map explain_immutable changes)"

section \<open>Schema modes\<close>

datatype schema_mode = Automatic | Immutable | ReadOnlyAlternative | ResetFile | Additive | Manual

datatype schema_error =
    ValidationFailed "validation_error list"
  | InvalidSchemaVersion "64 word" "64 word"
  | SchemaMismatch "difference list"
  | InvalidSchemaChange "difference list"
  | InvalidExternalSchemaChange "difference list"
  | DuplicatePrimaryKeyValue string string
  | RenamedPropertyMissing string string
  | MigrationFailed
  | NullTable string
  | NoCoreType property_type
  | Unreachable

definition NotVersioned :: "64 word" where "NotVersioned = - 1"

record realm_schema =
  rs_schema :: schema
  rs_schema_version :: "64 word"
  rs_schema_mode :: schema_mode

text \<open>\<open>reset_file\<close> removes the file and opens it again; \<open>opened\<close> is what the new file has for a schema and a version.\<close>

definition reset_file ::
  "partition_algorithm \<Rightarrow> schema \<times> 64 word \<Rightarrow> schema \<Rightarrow> realm_schema \<Rightarrow> realm_schema \<times> schema_change list" where
  "reset_file part opened target r =
     (r\<lparr>rs_schema := fst opened, rs_schema_version := snd opened\<rparr>, schema_compare part (fst opened) target False)"

definition schema_change_needs_write_transaction ::
  "partition_algorithm \<Rightarrow> schema \<times> 64 word \<Rightarrow> schema \<Rightarrow> schema_change list \<Rightarrow> 64 word \<Rightarrow> realm_schema \<Rightarrow>
     schema_error + bool \<times> realm_schema \<times> schema_change list" where
  "schema_change_needs_write_transaction part opened target changes version r =
     (let current = rs_schema_version r
      in if version = current \<and> changes = [] then Inr (False, r, changes)
         else case rs_schema_mode r of
             Automatic \<Rightarrow>
               if version < current \<and> current \<noteq> NotVersioned then Inl (InvalidSchemaVersion current version)
               else Inr (True, r, changes)
           | Immutable \<Rightarrow>
               if version \<noteq> current then Inl (InvalidSchemaVersion current version)
               else if immutable_errors changes \<noteq> [] then Inl (InvalidSchemaChange (immutable_errors changes))
               else Inr (False, r, changes)
           | ReadOnlyAlternative \<Rightarrow>
               if immutable_errors changes \<noteq> [] then Inl (InvalidSchemaChange (immutable_errors changes))
               else Inr (False, r, changes)
           | ResetFile \<Rightarrow>
               if current = NotVersioned then Inr (True, r, changes)
               else if current = version \<and> \<not> needs_migration changes then Inr (True, r, changes)
               else let (r', changes') = reset_file part opened target r in Inr (True, r', changes')
           | Additive \<Rightarrow>
               (case verify_valid_additive_changes changes (current < version) of
                  Inl errors \<Rightarrow> Inl (InvalidSchemaChange errors)
                | Inr apply \<Rightarrow> Inr (apply \<or> version \<noteq> current, r, changes))
           | Manual \<Rightarrow>
               if version < current \<and> current \<noteq> NotVersioned then Inl (InvalidSchemaVersion current version)
               else if version = current
               then if no_changes_errors changes \<noteq> [] then Inl (SchemaMismatch (no_changes_errors changes)) else Inl Unreachable
               else Inr (True, r, changes))"

text \<open>\<open>Realm::set_schema_subset\<close>, for a schema that was read from the file.\<close>

definition set_schema_subset :: "partition_algorithm \<Rightarrow> schema \<Rightarrow> realm_schema \<Rightarrow> schema_error + realm_schema" where
  "set_schema_subset part target r =
     (let changes = schema_compare part (rs_schema r) target False;
          mismatch = (\<lambda>errors. if errors \<noteq> [] then Some (SchemaMismatch errors) else None);
          invalid = (\<lambda>errors. if errors \<noteq> [] then Some (InvalidSchemaChange errors) else None);
          failed = (case rs_schema_mode r of
              Automatic \<Rightarrow> mismatch (no_migration_errors changes)
            | ResetFile \<Rightarrow> mismatch (no_migration_errors changes)
            | Immutable \<Rightarrow> invalid (immutable_errors changes)
            | ReadOnlyAlternative \<Rightarrow> invalid (immutable_errors changes)
            | Additive \<Rightarrow> (case verify_valid_additive_changes changes False of Inl errors \<Rightarrow> invalid errors | Inr a \<Rightarrow> None)
            | Manual \<Rightarrow> mismatch (no_changes_errors changes))
      in case failed of
           Some e \<Rightarrow> Inl e
         | None \<Rightarrow> Inr (r\<lparr>rs_schema := copy_table_columns_from target (rs_schema r)\<rparr>))"

section \<open>Facts\<close>

lemma needs_migration_errors: "needs_migration changes \<longleftrightarrow> no_migration_errors changes \<noteq> []"
proof -
  have "needs_migration_change c \<longleftrightarrow> explain_migration c \<noteq> []" for c by (cases c) (auto split: option.splits)
  then show ?thesis by (simp add: needs_migration_def no_migration_errors_def)
qed

lemma explain_empty: "explain c = [] \<longleftrightarrow> (\<exists>os. c = RemoveTable os \<or> c = AddInitialProperties os)"
  by (cases c) (auto split: option.splits)

text \<open>Without removals, a difference that needs no explanation comes with one that does.\<close>

lemma compare_explained:
  assumes "partition_ok part" "schema_compare part s target False \<noteq> []"
  shows "no_changes_errors (schema_compare part s target False) \<noteq> []"
proof -
  define ms where "ms = zip_matching target s"
  define pre where "pre = concat (map (table_change False) ms)"
  have np: "\<forall>c \<in> set (table_change False m). is_not_remove_property c \<and> (\<exists>t. c = AddTable t)" for m
    by (cases "(False, m)" rule: table_change.cases) auto
  then have "\<forall>c \<in> set pre. is_not_remove_property c" by (auto simp: pre_def)
  from compare_rest[OF assms(1) this, of ms "[]"] obtain rest where
    r: "schema_compare part s target False = pre @ rest" "mset rest = mset (concat (map pair_changes ms))"
    by (auto simp: schema_compare_def ms_def pre_def)
  have rest: "set rest = (\<Union>m \<in> set ms. set (pair_changes m))" using mset_eq_setD[OF r(2)] by simp
  have "\<exists>c \<in> set (pre @ rest). explain c \<noteq> []"
  proof (cases "pre = []")
    case False
    then obtain c where c: "c \<in> set pre" by (cases pre) auto
    then obtain m where "c \<in> set (table_change False m)" by (auto simp: pre_def)
    then obtain t where "c = AddTable t" using np by blast
    then show ?thesis using c by (auto intro!: bexI[of _ c])
  next
    case True
    then obtain c where c: "c \<in> set rest" using r(1) assms(2) by (cases rest) auto
    then obtain m where m: "m \<in> set ms" "c \<in> set (pair_changes m)" using rest by auto
    obtain t e where te: "m = (t, e)" by (cases m)
    have "table_change False m = []" using True m(1) by (auto simp: pre_def)
    then have "t \<noteq> None \<Longrightarrow> e \<noteq> None" by (cases t; cases e; simp add: te)
    then obtain a b where "t = Some a" "e = Some b" using m(2) te by (cases t; cases e) auto
    then have "within_table c" using m(2) te object_changes_table by simp
    then show ?thesis using c explain_empty by (metis UnCI set_append within_table.simps(2,3))
  qed
  then show ?thesis by (auto simp: r(1) no_changes_errors_def)
qed

lemma compare_equal_unchanged:
  assumes "partition_ok part" "no_changes_errors (schema_compare part s target False) = []"
  shows "schema_compare part s target False = []"
  using compare_explained[OF assms(1)] assms(2) by blast

end
