(* ===== verification/SchemaProps.thy ===== *)
theory SchemaProps
  imports SchemaVerify "HOL-Library.Code_Target_Nat"
begin

text \<open>The properties of schemas: validation, searching, comparing and the checks of the schema modes.\<close>

section \<open>Examples\<close>

definition plain_property :: "string \<Rightarrow> property_type \<Rightarrow> property" where
  "plain_property n ty = \<lparr>pr_name = n, pr_type = ty, pr_object_type = [], pr_link_origin = [], pr_primary = False,
     pr_indexed = False, pr_table_column = 0\<rparr>"

definition link_property :: "string \<Rightarrow> string \<Rightarrow> property" where
  "link_property n cls = (plain_property n (PT_Object OR PT_Nullable))\<lparr>pr_object_type := cls\<rparr>"

definition old_dog :: object_schema where
  "old_dog = object_schema_of ''Dog'' [plain_property ''age'' PT_Int, plain_property ''chip'' PT_String] []"

definition new_dog :: object_schema where
  "new_dog = object_schema_of ''Dog'' [plain_property ''age'' (PT_Int OR PT_Nullable), link_property ''owner'' ''Person''] []"

definition cat_class :: object_schema where
  "cat_class = object_schema_of ''Cat'' [plain_property ''name'' PT_String] []"

definition person_class :: object_schema where
  "person_class = object_schema_of ''Person'' [(plain_property ''name'' PT_String)\<lparr>pr_primary := True\<rparr>] []"

lemmas example_defs = plain_property_def link_property_def old_dog_def new_dog_def cat_class_def person_class_def
  object_schema_of_def pt_defs

section \<open>Validation\<close>




section \<open>Searching\<close>

definition accented_class :: object_schema where
  "accented_class = object_schema_of [CHR 0xC3, CHR 0x89, CHR ''t'', CHR ''e''] [plain_property ''name'' PT_String] []"

definition linking_class :: object_schema where
  "linking_class = object_schema_of ''Trip'' [link_property ''goal'' (os_name accented_class)] []"

text \<open>
  A schema sorts its classes by \<open>std::string\<close>, whose bytes are unsigned, and searches them by \<open>StringData\<close>, whose
  bytes are signed. A link to a class whose name starts with a byte above 127 is refused, although the class is there.
\<close>

theorem find_misses_high_bytes:
  "schema_ok [linking_class, accented_class] \<and>
    schema_find (os_name accented_class) (schema_of [linking_class, accented_class]) = None \<and>
    schema_validate (schema_of [linking_class, accented_class]) \<noteq> []"
proof -
  have "schema_ok [linking_class, accented_class]" by code_simp
  moreover have "schema_find (os_name accented_class) (schema_of [linking_class, accented_class]) = None" by code_simp
  moreover have "schema_validate (schema_of [linking_class, accented_class]) \<noteq> []" by code_simp
  ultimately show ?thesis by blast
qed

section \<open>Comparing\<close>

text \<open>
  C34. The list of \<open>Schema::compare\<close> is the difference of the two schemas: its changes, made one after the other,
  turn the catalogue of the file (each class with its primary key and its columns, each with type, link target and
  index) into that of the target, with the file's other classes left alone or removed as asked. The order in which
  \<open>std::partition\<close> leaves the changes does not matter to the result.
\<close>

theorem compare_reaches_target:
  assumes "partition_ok part" and "sorted_schema s" "sorted_schema target"
    and "\<forall>os \<in> set s. file_object os" "\<forall>os \<in> set target. target_object os"
  shows "fold apply_change (schema_compare part s target rm) (catalogue_of file_column s) = compared_catalogue rm s target"
  using assms by (rule schema_compare_effect)

lemma example_sorted: "sorted_schema [cat_class, old_dog]" "sorted_schema [new_dog, person_class]"
  by code_simp+

lemma example_objects: "\<forall>os \<in> set [cat_class, old_dog]. file_object os" "\<forall>os \<in> set [new_dog, person_class]. target_object os"
  by code_simp+

theorem compare_reaches_target_witness:
  "fold apply_change (schema_compare stable_partition [cat_class, old_dog] [new_dog, person_class] True)
      (catalogue_of file_column [cat_class, old_dog]) = compared_catalogue True [cat_class, old_dog] [new_dog, person_class] \<and>
    schema_compare stable_partition [cat_class, old_dog] [new_dog, person_class] True =
      [RemoveTable cat_class, AddTable person_class, MakePropertyNullable old_dog (plain_property ''age'' PT_Int),
       AddProperty old_dog (link_property ''owner'' ''Person''), RemoveProperty old_dog (plain_property ''chip'' PT_String),
       AddInitialProperties person_class]"
proof
  show "fold apply_change (schema_compare stable_partition [cat_class, old_dog] [new_dog, person_class] True)
      (catalogue_of file_column [cat_class, old_dog]) = compared_catalogue True [cat_class, old_dog] [new_dog, person_class]"
    by (rule compare_reaches_target[OF stable_partition_ok example_sorted example_objects])
  show "schema_compare stable_partition [cat_class, old_dog] [new_dog, person_class] True =
      [RemoveTable cat_class, AddTable person_class, MakePropertyNullable old_dog (plain_property ''age'' PT_Int),
       AddProperty old_dog (link_property ''owner'' ''Person''), RemoveProperty old_dog (plain_property ''chip'' PT_String),
       AddInitialProperties person_class]"
    by code_simp
qed

section \<open>Schema modes\<close>




end
