(* ===== verification/SchemaStore.thy ===== *)
theory SchemaStore
  imports SchemaVerify "HOL-Library.AList"
begin

text \<open>
  What \<open>object_store.cpp\<close> does to a file: the columns that it makes for properties, the properties that it reads from
  columns, and the four ways of applying a list of changes. The group of tables is a parameter: \<open>core\<close> holds the calls
  that the object store makes to it, and \<open>co_view\<close> what it can read back: the tables with their columns, the rows of
  the table of primary keys and the version in the metadata table. The conditions on \<open>core\<close> are those of its documentation.
\<close>

section \<open>The group\<close>

datatype core_type =
    type_Int | type_Bool | type_Float | type_Double | type_String | type_Binary | type_Timestamp | type_Mixed
  | type_Link string
  | type_LinkList string
  | type_Table "(string \<times> core_type \<times> bool) list"

record core_column =
  cc_name :: string
  cc_type :: core_type
  cc_nullable :: bool
  cc_indexed :: bool

record group_view =
  gv_tables :: "(string \<times> core_column list) list"
  gv_keys :: "(string \<times> string) list"
  gv_version :: "64 word option"
  gv_object_ids :: bool

record 'g core =
  co_view :: "'g \<Rightarrow> group_view"
  co_size :: "'g \<Rightarrow> string \<Rightarrow> nat"
  co_distinct :: "'g \<Rightarrow> string \<Rightarrow> nat \<Rightarrow> bool"
  co_add_metadata :: "'g \<Rightarrow> 'g"
  co_set_version :: "64 word \<Rightarrow> 'g \<Rightarrow> 'g"
  co_set_keys :: "(string \<times> string) list \<Rightarrow> 'g \<Rightarrow> 'g"
  co_create_table :: "string \<Rightarrow> (core_type \<times> string \<times> bool) option \<Rightarrow> 'g \<Rightarrow> 'g"
  co_insert_column :: "string \<Rightarrow> nat \<Rightarrow> core_column \<Rightarrow> 'g \<Rightarrow> 'g"
  co_remove_column :: "string \<Rightarrow> nat \<Rightarrow> 'g \<Rightarrow> 'g"
  co_add_search_index :: "string \<Rightarrow> nat \<Rightarrow> 'g \<Rightarrow> 'g"
  co_remove_search_index :: "string \<Rightarrow> nat \<Rightarrow> 'g \<Rightarrow> 'g"
  co_copy_cell :: "core_type \<Rightarrow> string \<Rightarrow> nat \<Rightarrow> nat \<Rightarrow> nat \<Rightarrow> 'g \<Rightarrow> 'g"
  co_rename_column :: "string \<Rightarrow> nat \<Rightarrow> string \<Rightarrow> 'g \<Rightarrow> 'g"
  co_remove_table :: "string \<Rightarrow> 'g \<Rightarrow> 'g"

definition columns :: "'g core \<Rightarrow> 'g \<Rightarrow> string \<Rightarrow> core_column list option" where
  "columns core g t = map_of (gv_tables (co_view core g)) t"

fun run_changes :: "('c \<Rightarrow> 'g \<Rightarrow> 'e + 'g) \<Rightarrow> 'c list \<Rightarrow> 'g \<Rightarrow> 'e + 'g" where
  "run_changes f [] g = Inr g"
| "run_changes f (c # cs) g = (case f c g of Inl e \<Rightarrow> Inl e | Inr g' \<Rightarrow> run_changes f cs g')"

section \<open>Names and types\<close>

definition table_prefix :: string where "table_prefix = ''class_''"

definition object_type_for_table_name :: "string \<Rightarrow> string" where
  "object_type_for_table_name t = (if take (length table_prefix) t = table_prefix then drop (length table_prefix) t else [])"

definition table_name_for_object_type :: "string \<Rightarrow> string" where
  "table_name_for_object_type n = table_prefix @ n"

definition object_id_column_name :: string where "object_id_column_name = ''!OID''"
definition ArrayColumnName :: string where "ArrayColumnName = ''!ARRAY_VALUE''"

text \<open>The hint that the default case cannot be reached is the result \<open>None\<close>.\<close>

definition to_core_type :: "property_type \<Rightarrow> core_type option" where
  "to_core_type ty =
     (if pt_eq ty PT_Int then Some type_Int else if pt_eq ty PT_Bool then Some type_Bool
      else if pt_eq ty PT_Float then Some type_Float else if pt_eq ty PT_Double then Some type_Double
      else if pt_eq ty PT_String then Some type_String else if pt_eq ty PT_Date then Some type_Timestamp
      else if pt_eq ty PT_Data then Some type_Binary else None)"

fun from_core_type :: "core_type \<Rightarrow> bool \<Rightarrow> property_type option" where
  "from_core_type type_Int optional = Some (PT_Int OR (if optional then PT_Nullable else 0))"
| "from_core_type type_Float optional = Some (PT_Float OR (if optional then PT_Nullable else 0))"
| "from_core_type type_Double optional = Some (PT_Double OR (if optional then PT_Nullable else 0))"
| "from_core_type type_Bool optional = Some (PT_Bool OR (if optional then PT_Nullable else 0))"
| "from_core_type type_String optional = Some (PT_String OR (if optional then PT_Nullable else 0))"
| "from_core_type type_Binary optional = Some (PT_Data OR (if optional then PT_Nullable else 0))"
| "from_core_type type_Timestamp optional = Some (PT_Date OR (if optional then PT_Nullable else 0))"
| "from_core_type type_Mixed optional = Some (PT_Any OR (if optional then PT_Nullable else 0))"
| "from_core_type (type_Link t) optional = Some (PT_Object OR PT_Nullable)"
| "from_core_type (type_LinkList t) optional = Some (PT_Object OR PT_Array)"
| "from_core_type (type_Table ((n, ty, nullable) # cs)) optional = map_option (\<lambda>r. r OR PT_Array) (from_core_type ty nullable)"
| "from_core_type (type_Table []) optional = None"

fun link_target :: "core_type \<Rightarrow> string" where
  "link_target (type_Link t) = t"
| "link_target (type_LinkList t) = t"
| "link_target ty = []"

definition property_for_column :: "core_column \<Rightarrow> nat \<Rightarrow> property option" where
  "property_for_column c column_index =
     (if cc_name c = object_id_column_name then None
      else if (case cc_type c of type_Table cs \<Rightarrow> length cs \<noteq> 1 \<or> fst (hd cs) \<noteq> ArrayColumnName | _ \<Rightarrow> False) then None
      else case from_core_type (cc_type c) (cc_nullable c) of
             None \<Rightarrow> None
           | Some ty \<Rightarrow>
               Some \<lparr>pr_name = cc_name c, pr_type = ty,
                     pr_object_type = (if pt_eq ty PT_Object then object_type_for_table_name (link_target (cc_type c)) else []),
                     pr_link_origin = [], pr_primary = False, pr_indexed = cc_indexed c, pr_table_column = of_nat column_index\<rparr>)"

definition get_primary_key_for_object :: "group_view \<Rightarrow> string \<Rightarrow> string" where
  "get_primary_key_for_object v object_type = (case map_of (gv_keys v) object_type of None \<Rightarrow> [] | Some p \<Rightarrow> p)"

definition object_schema_from_group :: "group_view \<Rightarrow> string \<Rightarrow> core_column list \<Rightarrow> object_schema" where
  "object_schema_from_group v name cs =
     set_primary_key_property
       \<lparr>os_name = name, os_persisted = List.map_filter (\<lambda>(c, i). property_for_column c i) (zip cs [0..<length cs]),
        os_computed = [], os_primary_key = get_primary_key_for_object v name\<rparr>"

definition schema_from_group :: "group_view \<Rightarrow> schema" where
  "schema_from_group v =
     schema_of (List.map_filter
       (\<lambda>(t, cs). let n = object_type_for_table_name t in if n \<noteq> [] then Some (object_schema_from_group v n cs) else None)
       (gv_tables v))"

definition get_column_index :: "core_column list \<Rightarrow> string \<Rightarrow> nat" where
  "get_column_index cs n =
     (let i = length (takeWhile (\<lambda>c. cc_name c \<noteq> n) cs) in if i < length cs then i else npos)"

definition set_schema_columns :: "group_view \<Rightarrow> schema \<Rightarrow> schema" where
  "set_schema_columns v s =
     map (\<lambda>os. case map_of (gv_tables v) (table_name_for_object_type (os_name os)) of
                 None \<Rightarrow> os
               | Some cs \<Rightarrow>
                   os\<lparr>os_persisted := map (\<lambda>p. p\<lparr>pr_table_column := of_nat (get_column_index cs (pr_name p))\<rparr>) (os_persisted os)\<rparr>) s"

section \<open>Metadata\<close>

definition create_metadata_tables :: "'g core \<Rightarrow> 'g \<Rightarrow> 'g" where
  "create_metadata_tables core g =
     (let g' = co_add_metadata core g
      in if gv_version (co_view core g') = None then co_set_version core NotVersioned g' else g')"

definition set_schema_version :: "'g core \<Rightarrow> 64 word \<Rightarrow> 'g \<Rightarrow> 'g" where
  "set_schema_version core version g = co_set_version core version (create_metadata_tables core g)"

definition get_schema_version :: "group_view \<Rightarrow> 64 word" where
  "get_schema_version v = (case gv_version v of None \<Rightarrow> NotVersioned | Some n \<Rightarrow> n)"

text \<open>The rows of the table of primary keys; \<open>move_last_over\<close> puts the last row in the place of the removed one.\<close>

definition set_key_row :: "string \<Rightarrow> string \<Rightarrow> (string \<times> string) list \<Rightarrow> (string \<times> string) list" where
  "set_key_row object_type primary_key rows =
     (let row = length (takeWhile (\<lambda>r. fst r \<noteq> object_type) rows); found = row < length rows
      in if \<not> found \<and> primary_key \<noteq> [] then rows @ [(object_type, primary_key)]
         else if primary_key = [] then if found then butlast (rows[row := last rows]) else rows
         else rows[row := (object_type, primary_key)])"

definition set_primary_key_for_object :: "'g core \<Rightarrow> string \<Rightarrow> string \<Rightarrow> 'g \<Rightarrow> 'g" where
  "set_primary_key_for_object core object_type primary_key g =
     (if gv_object_ids (co_view core g) then g
      else co_set_keys core (set_key_row object_type primary_key (gv_keys (co_view core g))) g)"

definition validate_primary_column_uniqueness :: "'g core \<Rightarrow> string \<Rightarrow> string \<Rightarrow> 'g \<Rightarrow> schema_error + 'g" where
  "validate_primary_column_uniqueness core object_type primary_property g =
     (let t = table_name_for_object_type object_type
      in case columns core g t of
           None \<Rightarrow> Inl (NullTable t)
         | Some cs \<Rightarrow>
             if \<not> co_distinct core g t (get_column_index cs primary_property)
             then Inl (DuplicatePrimaryKeyValue object_type primary_property) else Inr g)"

definition validate_all_primary_columns :: "'g core \<Rightarrow> 'g \<Rightarrow> schema_error + 'g" where
  "validate_all_primary_columns core g =
     run_changes (\<lambda>(object_type, property). validate_primary_column_uniqueness core object_type property)
       (gv_keys (co_view core g)) g"

section \<open>Columns\<close>

definition insert_property_column :: "'g core \<Rightarrow> string \<Rightarrow> property \<Rightarrow> nat \<Rightarrow> 'g \<Rightarrow> schema_error + 'g" where
  "insert_property_column core t p i g =
     (if pt_eq (pr_type p) PT_Object then
        let target = table_name_for_object_type (pr_object_type p)
        in if columns core g target = None then Inl (NullTable target)
           else Inr (co_insert_column core t i
             \<lparr>cc_name = pr_name p, cc_type = (if is_array (pr_type p) then type_LinkList target else type_Link target),
              cc_nullable = False, cc_indexed = False\<rparr> g)
      else case to_core_type (pr_type p) of
             None \<Rightarrow> Inl (NoCoreType (pr_type p))
           | Some ct \<Rightarrow>
               if is_array (pr_type p)
               then Inr (co_insert_column core t i
                 \<lparr>cc_name = pr_name p, cc_type = type_Table [(ArrayColumnName, ct, is_nullable (pr_type p))],
                  cc_nullable = False, cc_indexed = False\<rparr> g)
               else
                 let g' = co_insert_column core t i
                   \<lparr>cc_name = pr_name p, cc_type = ct, cc_nullable = is_nullable (pr_type p), cc_indexed = False\<rparr> g
                 in Inr (if requires_index p then co_add_search_index core t i g' else g'))"

text \<open>The table of a class, from \<open>TableHelper\<close>.\<close>

definition with_table ::
  "'g core \<Rightarrow> string \<Rightarrow> (string \<Rightarrow> core_column list \<Rightarrow> 'g \<Rightarrow> schema_error + 'g) \<Rightarrow> 'g \<Rightarrow> schema_error + 'g" where
  "with_table core object_type f g =
     (let t = table_name_for_object_type object_type
      in case columns core g t of None \<Rightarrow> Inl (NullTable t) | Some cs \<Rightarrow> f t cs g)"

definition add_column :: "'g core \<Rightarrow> string \<Rightarrow> property \<Rightarrow> 'g \<Rightarrow> schema_error + 'g" where
  "add_column core object_type p = with_table core object_type (\<lambda>t cs. insert_property_column core t p (length cs))"

definition column_position :: "property \<Rightarrow> nat" where
  "column_position p = unat (pr_table_column p)"

definition replace_column :: "'g core \<Rightarrow> string \<Rightarrow> property \<Rightarrow> property \<Rightarrow> 'g \<Rightarrow> schema_error + 'g" where
  "replace_column core object_type old_property new_property =
     with_table core object_type (\<lambda>t cs g.
       map_sum id (co_remove_column core t (column_position old_property + 1))
         (insert_property_column core t new_property (column_position old_property) g))"

definition create_table :: "'g core \<Rightarrow> object_schema \<Rightarrow> 'g \<Rightarrow> schema_error + 'g" where
  "create_table core os g =
     (let t = table_name_for_object_type (os_name os)
      in case primary_key_property os of
           None \<Rightarrow> Inr (co_create_table core t None g)
         | Some p \<Rightarrow>
             (case to_core_type (pr_type p) of
                None \<Rightarrow> Inl (NoCoreType (pr_type p))
              | Some ct \<Rightarrow> Inr (co_create_table core t (Some (ct, pr_name p, is_nullable (pr_type p))) g)))"

definition add_initial_columns :: "'g core \<Rightarrow> object_schema \<Rightarrow> 'g \<Rightarrow> schema_error + 'g" where
  "add_initial_columns core os =
     run_changes (\<lambda>p. if pr_primary p then Inr else add_column core (os_name os) p) (os_persisted os)"

text \<open>Getter and setter are those of the type without its flags.\<close>

definition copy_property_values :: "'g core \<Rightarrow> string \<Rightarrow> property \<Rightarrow> 'g \<Rightarrow> 'g" where
  "copy_property_values core t p g =
     (case to_core_type (pr_type p) of
        None \<Rightarrow> g
      | Some ct \<Rightarrow>
          fold (\<lambda>i. co_copy_cell core ct t i (column_position p) (column_position p + 1)) [0..<co_size core g t] g)"

definition make_property_optional :: "'g core \<Rightarrow> string \<Rightarrow> property \<Rightarrow> 'g \<Rightarrow> schema_error + 'g" where
  "make_property_optional core object_type p =
     (let p' = p\<lparr>pr_type := pr_type p OR PT_Nullable\<rparr>
      in with_table core object_type (\<lambda>t cs g.
           map_sum id (\<lambda>g'. co_remove_column core t (column_position p' + 1) (copy_property_values core t p' g'))
             (insert_property_column core t p' (column_position p') g)))"

definition make_property_required :: "'g core \<Rightarrow> string \<Rightarrow> property \<Rightarrow> 'g \<Rightarrow> schema_error + 'g" where
  "make_property_required core object_type p =
     (let p' = p\<lparr>pr_type := pr_type p AND NOT PT_Nullable\<rparr>
      in with_table core object_type (\<lambda>t cs g.
           map_sum id (co_remove_column core t (column_position p' + 1))
             (insert_property_column core t p' (column_position p') g)))"

section \<open>Applying changes\<close>

definition add_index :: "'g core \<Rightarrow> string \<Rightarrow> property \<Rightarrow> 'g \<Rightarrow> schema_error + 'g" where
  "add_index core object_type p = with_table core object_type (\<lambda>t cs g. Inr (co_add_search_index core t (column_position p) g))"

definition remove_index :: "'g core \<Rightarrow> string \<Rightarrow> property \<Rightarrow> 'g \<Rightarrow> schema_error + 'g" where
  "remove_index core object_type p = with_table core object_type (\<lambda>t cs g. Inr (co_remove_search_index core t (column_position p) g))"

definition remove_property :: "'g core \<Rightarrow> string \<Rightarrow> property \<Rightarrow> 'g \<Rightarrow> schema_error + 'g" where
  "remove_property core object_type p = with_table core object_type (\<lambda>t cs g. Inr (co_remove_column core t (column_position p) g))"

definition change_primary_key :: "'g core \<Rightarrow> object_schema \<Rightarrow> property option \<Rightarrow> 'g \<Rightarrow> schema_error + 'g" where
  "change_primary_key core os p g =
     Inr (set_primary_key_for_object core (os_name os) (case p of None \<Rightarrow> [] | Some q \<Rightarrow> pr_name q) g)"

text \<open>This one collects the explanation of every change that it does not make.\<close>

fun non_migration_step :: "'g core \<Rightarrow> schema_change \<Rightarrow> 'g \<times> difference list \<Rightarrow> schema_error + 'g \<times> difference list" where
  "non_migration_step core (AddTable os) (g, errors) = map_sum id (\<lambda>g'. (g', errors)) (create_table core os g)"
| "non_migration_step core (AddInitialProperties os) (g, errors) = map_sum id (\<lambda>g'. (g', errors)) (add_initial_columns core os g)"
| "non_migration_step core (AddIndex os p) (g, errors) = map_sum id (\<lambda>g'. (g', errors)) (add_index core (os_name os) p g)"
| "non_migration_step core (RemoveIndex os p) (g, errors) = map_sum id (\<lambda>g'. (g', errors)) (remove_index core (os_name os) p g)"
| "non_migration_step core c (g, errors) = Inr (g, errors @ explain c)"

definition apply_non_migration_changes :: "'g core \<Rightarrow> schema_change list \<Rightarrow> 'g \<Rightarrow> schema_error + 'g" where
  "apply_non_migration_changes core changes g =
     (case run_changes (non_migration_step core) changes (g, []) of
        Inl e \<Rightarrow> Inl e
      | Inr (g', errors) \<Rightarrow> if errors \<noteq> [] then Inl (SchemaMismatch errors) else Inr g')"

fun initial_step :: "'g core \<Rightarrow> schema_change \<Rightarrow> 'g \<Rightarrow> schema_error + 'g" where
  "initial_step core (AddTable os) g = create_table core os g"
| "initial_step core (RemoveTable os) g = Inr g"
| "initial_step core (AddInitialProperties os) g = add_initial_columns core os g"
| "initial_step core (AddProperty os p) g = add_column core (os_name os) p g"
| "initial_step core (RemoveProperty os p) g = remove_property core (os_name os) p g"
| "initial_step core (MakePropertyNullable os p) g = make_property_optional core (os_name os) p g"
| "initial_step core (MakePropertyRequired os p) g = make_property_required core (os_name os) p g"
| "initial_step core (ChangePrimaryKey os p) g = change_primary_key core os p g"
| "initial_step core (AddIndex os p) g = add_index core (os_name os) p g"
| "initial_step core (RemoveIndex os p) g = remove_index core (os_name os) p g"
| "initial_step core (ChangePropertyType os p q) g = replace_column core (os_name os) p q g"

definition create_initial_tables :: "'g core \<Rightarrow> schema_change list \<Rightarrow> 'g \<Rightarrow> schema_error + 'g" where
  "create_initial_tables core changes = run_changes (initial_step core) changes"

fun additive_step :: "'g core \<Rightarrow> bool \<Rightarrow> schema_change \<Rightarrow> 'g \<Rightarrow> schema_error + 'g" where
  "additive_step core update_indexes (AddTable os) g = create_table core os g"
| "additive_step core update_indexes (AddInitialProperties os) g = add_initial_columns core os g"
| "additive_step core update_indexes (AddProperty os p) g = add_column core (os_name os) p g"
| "additive_step core update_indexes (AddIndex os p) g = (if update_indexes then add_index core (os_name os) p g else Inr g)"
| "additive_step core update_indexes (RemoveIndex os p) g = (if update_indexes then remove_index core (os_name os) p g else Inr g)"
| "additive_step core update_indexes c g = Inr g"

definition apply_additive_changes :: "'g core \<Rightarrow> schema_change list \<Rightarrow> bool \<Rightarrow> 'g \<Rightarrow> schema_error + 'g" where
  "apply_additive_changes core changes update_indexes = run_changes (additive_step core update_indexes) changes"

fun pre_migration_step :: "'g core \<Rightarrow> schema_change \<Rightarrow> 'g \<Rightarrow> schema_error + 'g" where
  "pre_migration_step core (AddTable os) g = create_table core os g"
| "pre_migration_step core (RemoveTable os) g = Inr g"
| "pre_migration_step core (AddInitialProperties os) g = add_initial_columns core os g"
| "pre_migration_step core (AddProperty os p) g = add_column core (os_name os) p g"
| "pre_migration_step core (RemoveProperty os p) g = Inr g"
| "pre_migration_step core (ChangePropertyType os p q) g = replace_column core (os_name os) p q g"
| "pre_migration_step core (MakePropertyNullable os p) g = make_property_optional core (os_name os) p g"
| "pre_migration_step core (MakePropertyRequired os p) g = make_property_required core (os_name os) p g"
| "pre_migration_step core (ChangePrimaryKey os p) g = change_primary_key core os p g"
| "pre_migration_step core (AddIndex os p) g = add_index core (os_name os) p g"
| "pre_migration_step core (RemoveIndex os p) g = remove_index core (os_name os) p g"

definition apply_pre_migration_changes :: "'g core \<Rightarrow> schema_change list \<Rightarrow> 'g \<Rightarrow> schema_error + 'g" where
  "apply_pre_migration_changes core changes = run_changes (pre_migration_step core) changes"

text \<open>A class that is not in a schema that is not empty is an end iterator, which is dereferenced.\<close>

fun post_migration_step :: "'g core \<Rightarrow> schema \<Rightarrow> bool \<Rightarrow> schema_change \<Rightarrow> 'g \<Rightarrow> schema_error + 'g" where
  "post_migration_step core initial_schema did_reread_schema (RemoveProperty os p) g =
     (if initial_schema \<noteq> [] then
        case schema_find (os_name os) initial_schema of
          None \<Rightarrow> Inl Unreachable
        | Some i \<Rightarrow>
            if property_for_name (pr_name p) (initial_schema ! i) = None
            then Inl (RenamedPropertyMissing (os_name os) (pr_name p)) else remove_property core (os_name os) p g
      else remove_property core (os_name os) p g)"
| "post_migration_step core initial_schema did_reread_schema (ChangePrimaryKey os p) g =
     (case p of None \<Rightarrow> Inr g | Some q \<Rightarrow> validate_primary_column_uniqueness core (os_name os) (pr_name q) g)"
| "post_migration_step core initial_schema did_reread_schema (AddTable os) g = create_table core os g"
| "post_migration_step core initial_schema did_reread_schema (AddInitialProperties os) g =
     (if did_reread_schema then add_initial_columns core os g else Inr g)"
| "post_migration_step core initial_schema did_reread_schema (AddIndex os p) g = add_index core (os_name os) p g"
| "post_migration_step core initial_schema did_reread_schema (RemoveIndex os p) g = remove_index core (os_name os) p g"
| "post_migration_step core initial_schema did_reread_schema c g = Inr g"

definition apply_post_migration_changes ::
  "'g core \<Rightarrow> schema_change list \<Rightarrow> schema \<Rightarrow> bool \<Rightarrow> 'g \<Rightarrow> schema_error + 'g" where
  "apply_post_migration_changes core changes initial_schema did_reread_schema =
     run_changes (post_migration_step core initial_schema did_reread_schema) changes"

section \<open>The whole update\<close>

abbreviation file_schema :: "'g core \<Rightarrow> 'g \<Rightarrow> schema" where
  "file_schema core g \<equiv> schema_from_group (co_view core g)"

text \<open>\<open>migrate\<close> is the migration function, if there is one, which is handed the group and the target schema; \<open>permit\<close> gives
  the default permissions of a partially synchronised file, if it is one.\<close>

definition apply_schema_changes ::
  "'g core \<Rightarrow> partition_algorithm \<Rightarrow> 64 word \<Rightarrow> schema \<Rightarrow> 64 word \<Rightarrow> schema_mode \<Rightarrow> schema_change list \<Rightarrow>
     ('g \<Rightarrow> 'g) option \<Rightarrow> ('g \<Rightarrow> schema \<Rightarrow> schema_error + 'g) option \<Rightarrow> 'g \<Rightarrow> schema_error + 'g \<times> schema" where
  "apply_schema_changes core part schema_version target target_version mode changes permit migrate g =
     (let g0 = create_metadata_tables core g;
          finish = (\<lambda>g'. (g', set_schema_columns (co_view core g') target));
          versioned = (\<lambda>g'. finish (set_schema_version core target_version g'))
      in if mode = Additive then
           map_sum id (\<lambda>g'.
             let newer = schema_version < target_version \<or> schema_version = NotVersioned;
                 g'' = (if newer then set_schema_version core target_version g' else g')
             in finish (case permit of None \<Rightarrow> g'' | Some f \<Rightarrow> f g''))
             (apply_additive_changes core changes True g0)
         else if schema_version = NotVersioned then
           map_sum id versioned (create_initial_tables core changes g0)
         else if mode = Manual then
           (case (case migrate of None \<Rightarrow> Inr g0 | Some f \<Rightarrow> f g0 (set_schema_columns (co_view core g0) target)) of
              Inl e \<Rightarrow> Inl e
            | Inr g' \<Rightarrow>
                let errors = no_changes_errors (schema_compare part (file_schema core g') target False)
                in if errors \<noteq> [] then Inl (SchemaMismatch errors)
                   else map_sum id versioned (validate_all_primary_columns core g'))
         else if schema_version = target_version then
           map_sum id finish (apply_non_migration_changes core changes g0)
         else
           let old_schema = file_schema core g0
           in case apply_pre_migration_changes core changes g0 of
                Inl e \<Rightarrow> Inl e
              | Inr g1 \<Rightarrow>
                  (case migrate of
                     None \<Rightarrow> map_sum id versioned (apply_post_migration_changes core changes [] False g1)
                   | Some f \<Rightarrow>
                       (case f g1 (set_schema_columns (co_view core g1) target) of
                          Inl e \<Rightarrow> Inl e
                        | Inr g2 \<Rightarrow>
                            (case apply_post_migration_changes core
                                (schema_compare part (file_schema core g2) target False) old_schema True g2 of
                               Inl e \<Rightarrow> Inl e
                             | Inr g3 \<Rightarrow> map_sum id versioned (validate_all_primary_columns core g3)))))"

end
