(* ===== verification/SchemaGroup.thy ===== *)
theory SchemaGroup
  imports SchemaStore
begin

text \<open>
  What the object store relies on of the group of tables, the column that a property becomes and the property that is read
  back from it.
\<close>

section \<open>The contract of the group\<close>

definition class_columns :: "group_view \<Rightarrow> string \<rightharpoonup> core_column list" where
  "class_columns v n = (if n = [] then None else map_of (gv_tables v) (table_name_for_object_type n))"

definition same_but_columns :: "group_view \<Rightarrow> group_view \<Rightarrow> bool" where
  "same_but_columns v w \<longleftrightarrow> gv_keys w = gv_keys v \<and> gv_version w = gv_version v \<and> gv_object_ids w = gv_object_ids v"

definition same_classes :: "group_view \<Rightarrow> group_view \<Rightarrow> bool" where
  "same_classes v w \<longleftrightarrow> class_columns w = class_columns v \<and> same_but_columns v w"

text \<open>A call that edits the columns of a class that exists edits the list of its columns.\<close>

definition edits_columns ::
  "'g core \<Rightarrow> (string \<Rightarrow> 'g \<Rightarrow> 'g) \<Rightarrow> (core_column list \<Rightarrow> bool) \<Rightarrow> (core_column list \<Rightarrow> core_column list) \<Rightarrow> bool" where
  "edits_columns core f ok edit \<longleftrightarrow>
     (\<forall>g n cs. class_columns (co_view core g) n = Some cs \<longrightarrow> ok cs \<longrightarrow>
        class_columns (co_view core (f (table_name_for_object_type n) g)) = (class_columns (co_view core g))(n \<mapsto> edit cs) \<and>
        same_but_columns (co_view core g) (co_view core (f (table_name_for_object_type n) g)))"

text \<open>A new table has the column of the object ids, if the group has them, and the key column, which is indexed.\<close>

definition hidden_columns :: "core_column list \<Rightarrow> bool" where
  "hidden_columns cs \<longleftrightarrow> distinct (map cc_name cs) \<and> (\<forall>c \<in> set cs. cc_name c = object_id_column_name)"

definition creates_tables :: "'g core \<Rightarrow> bool" where
  "creates_tables core \<longleftrightarrow>
     (\<forall>g n key. n \<noteq> [] \<longrightarrow>
        (let v = co_view core g; w = co_view core (co_create_table core (table_name_for_object_type n) key g)
         in if class_columns v n \<noteq> None then same_classes v w
            else \<exists>hidden. hidden_columns hidden \<and> gv_version w = gv_version v \<and> gv_object_ids w = gv_object_ids v \<and>
              (case key of
                 None \<Rightarrow> class_columns w = (class_columns v)(n \<mapsto> hidden) \<and> gv_keys w = gv_keys v
               | Some (ct, pk, nullable) \<Rightarrow>
                   class_columns w = (class_columns v)
                     (n \<mapsto> hidden @ [\<lparr>cc_name = pk, cc_type = ct, cc_nullable = nullable, cc_indexed = True\<rparr>]) \<and>
                   gv_keys w = set_key_row n pk (gv_keys v))))"

definition core_ok :: "'g core \<Rightarrow> bool" where
  "core_ok core \<longleftrightarrow>
     (\<forall>g. distinct (map fst (gv_tables (co_view core g)))) \<and>
     (\<forall>g. same_classes (co_view core g) (co_view core (co_add_metadata core g))) \<and>
     (\<forall>g x. let v = co_view core g; w = co_view core (co_set_version core x g)
            in class_columns w = class_columns v \<and> gv_keys w = gv_keys v \<and> gv_object_ids w = gv_object_ids v \<and> gv_version w = Some x) \<and>
     (\<forall>g rows. let v = co_view core g; w = co_view core (co_set_keys core rows g)
               in class_columns w = class_columns v \<and> gv_keys w = rows \<and> gv_object_ids w = gv_object_ids v \<and> gv_version w = gv_version v) \<and>
     creates_tables core \<and>
     (\<forall>i c. edits_columns core (\<lambda>t. co_insert_column core t i c) (\<lambda>cs. i \<le> length cs) (\<lambda>cs. list_insert_at cs i c)) \<and>
     (\<forall>i. edits_columns core (\<lambda>t. co_remove_column core t i) (\<lambda>cs. i < length cs) (\<lambda>cs. list_erase_at cs i)) \<and>
     (\<forall>i. edits_columns core (\<lambda>t. co_add_search_index core t i) (\<lambda>cs. i < length cs) (\<lambda>cs. cs[i := (cs ! i)\<lparr>cc_indexed := True\<rparr>])) \<and>
     (\<forall>i. edits_columns core (\<lambda>t. co_remove_search_index core t i) (\<lambda>cs. i < length cs) (\<lambda>cs. cs[i := (cs ! i)\<lparr>cc_indexed := False\<rparr>])) \<and>
     (\<forall>ct row to from. edits_columns core (\<lambda>t. co_copy_cell core ct t row to from) (\<lambda>cs. True) (\<lambda>cs. cs)) \<and>
     (\<forall>i m. edits_columns core (\<lambda>t. co_rename_column core t i m) (\<lambda>cs. i < length cs) (\<lambda>cs. cs[i := (cs ! i)\<lparr>cc_name := m\<rparr>]))"

lemma edits_columnsD:
  assumes "edits_columns core f ok edit" "class_columns (co_view core g) n = Some cs" "ok cs"
  shows "class_columns (co_view core (f (table_name_for_object_type n) g)) = (class_columns (co_view core g))(n \<mapsto> edit cs) \<and>
    same_but_columns (co_view core g) (co_view core (f (table_name_for_object_type n) g))"
  using assms unfolding edits_columns_def by blast

lemma core_okD:
  assumes "core_ok core"
  shows "distinct (map fst (gv_tables (co_view core g)))"
    and "same_classes (co_view core g) (co_view core (co_add_metadata core g))"
    and "class_columns (co_view core (co_set_version core x g)) = class_columns (co_view core g)"
    and "gv_keys (co_view core (co_set_version core x g)) = gv_keys (co_view core g)"
    and "gv_object_ids (co_view core (co_set_version core x g)) = gv_object_ids (co_view core g)"
    and "gv_version (co_view core (co_set_version core x g)) = Some x"
    and "class_columns (co_view core (co_set_keys core rows g)) = class_columns (co_view core g)"
    and "gv_keys (co_view core (co_set_keys core rows g)) = rows"
    and "gv_object_ids (co_view core (co_set_keys core rows g)) = gv_object_ids (co_view core g)"
    and "gv_version (co_view core (co_set_keys core rows g)) = gv_version (co_view core g)"
    and "creates_tables core"
    and "edits_columns core (\<lambda>t. co_insert_column core t i c) (\<lambda>cs. i \<le> length cs) (\<lambda>cs. list_insert_at cs i c)"
    and "edits_columns core (\<lambda>t. co_remove_column core t i) (\<lambda>cs. i < length cs) (\<lambda>cs. list_erase_at cs i)"
    and "edits_columns core (\<lambda>t. co_add_search_index core t i) (\<lambda>cs. i < length cs) (\<lambda>cs. cs[i := (cs ! i)\<lparr>cc_indexed := True\<rparr>])"
    and "edits_columns core (\<lambda>t. co_remove_search_index core t i) (\<lambda>cs. i < length cs) (\<lambda>cs. cs[i := (cs ! i)\<lparr>cc_indexed := False\<rparr>])"
    and "edits_columns core (\<lambda>t. co_copy_cell core ct t row to from) (\<lambda>cs. True) (\<lambda>cs. cs)"
    and "edits_columns core (\<lambda>t. co_rename_column core t i m) (\<lambda>cs. i < length cs) (\<lambda>cs. cs[i := (cs ! i)\<lparr>cc_name := m\<rparr>])"
  using assms unfolding core_ok_def Let_def by blast+

lemma class_columns_table:
  "class_columns (co_view core g) n = Some cs \<Longrightarrow> columns core g (table_name_for_object_type n) = Some cs"
  by (simp add: class_columns_def columns_def split: if_splits)

section \<open>The column of a property\<close>

definition storable :: "property \<Rightarrow> bool" where
  "storable p \<longleftrightarrow>
     pr_name p \<noteq> object_id_column_name \<and> (is_array (pr_type p) \<or> pt_eq (pr_type p) PT_Object \<longrightarrow> \<not> requires_index p) \<and>
     (if pt_eq (pr_type p) PT_Object
      then pr_object_type p \<noteq> [] \<and> is_array (pr_type p) \<noteq> is_nullable (pr_type p)
      else pr_object_type p = [] \<and> to_core_type (pr_type p) \<noteq> None)"

definition column_for :: "property \<Rightarrow> core_column" where
  "column_for p =
     (let ty = pr_type p; target = table_name_for_object_type (pr_object_type p)
      in if pt_eq ty PT_Object then
           \<lparr>cc_name = pr_name p, cc_type = (if is_array ty then type_LinkList target else type_Link target),
            cc_nullable = False, cc_indexed = False\<rparr>
         else if is_array ty then
           \<lparr>cc_name = pr_name p, cc_type = type_Table [(ArrayColumnName, the (to_core_type ty), is_nullable ty)],
            cc_nullable = False, cc_indexed = False\<rparr>
         else \<lparr>cc_name = pr_name p, cc_type = the (to_core_type ty), cc_nullable = is_nullable ty, cc_indexed = requires_index p\<rparr>)"

lemma column_for_name [simp]: "cc_name (column_for p) = pr_name p"
  by (simp add: column_for_def Let_def)

definition read_column :: "core_column \<Rightarrow> column option" where
  "read_column c = map_option file_column (property_for_column c 0)"

lemma read_property: "property_for_column c i = Some p \<Longrightarrow> read_column c = Some (file_column p) \<and> pr_name p = cc_name c \<and>
    pr_table_column p = of_nat i \<and> \<not> pr_primary p \<and> pr_indexed p = cc_indexed c"
  by (auto simp: read_column_def property_for_column_def file_column_def split: if_splits option.splits)

lemma property_none: "property_for_column c i = None \<longleftrightarrow> read_column c = None"
  by (auto simp: read_column_def property_for_column_def split: if_splits option.splits)

lemma property_none_index: "property_for_column c i = None \<Longrightarrow> property_for_column c j = None"
  by (auto simp: property_for_column_def split: if_splits option.splits)

lemma or_masked_bits: "pt_eq (a OR PT_Nullable) a" "pt_eq (a OR PT_Array) a" "pt_eq (a OR 0) a"
  by (auto simp: pt_eq_bits bit_or_iff flag_bits)

lemma flags_of_base:
  assumes "b \<in> {PT_Int, PT_Bool, PT_String, PT_Data, PT_Date, PT_Float, PT_Double, PT_Object}"
  shows "\<not> is_array b \<and> \<not> is_nullable b"
  using assms by (auto simp: is_array_def is_nullable_def pt_defs)

lemma pt_eq_sym: "pt_eq a b \<longleftrightarrow> pt_eq b a"
  by (auto simp: pt_eq_def)

lemma pt_eq_trans: "pt_eq a b \<Longrightarrow> pt_eq b c \<Longrightarrow> pt_eq a c"
  by (auto simp: pt_eq_def)

lemma core_type_base:
  assumes "to_core_type ty = Some ct"
  obtains b where "b \<in> {PT_Int, PT_Bool, PT_String, PT_Data, PT_Date, PT_Float, PT_Double}" "pt_eq ty b"
    "\<And>opt. from_core_type ct opt = Some (b OR (if opt then PT_Nullable else 0))"
  using assms by (auto simp: to_core_type_def split: if_splits)

lemma is_flag_or:
  "is_array (a OR b) \<longleftrightarrow> is_array a \<or> is_array b" "is_nullable (a OR b) \<longleftrightarrow> is_nullable a \<or> is_nullable b"
  "is_array PT_Array" "\<not> is_array PT_Nullable" "is_nullable PT_Nullable" "\<not> is_nullable PT_Array" "\<not> is_array 0" "\<not> is_nullable 0"
  by (simp_all add: is_array_bit is_nullable_bit bit_or_iff flag_bits)

lemma object_type_of_table_name [simp]: "object_type_for_table_name (table_name_for_object_type n) = n"
  by (simp add: object_type_for_table_name_def table_name_for_object_type_def)

lemma read_column_for:
  assumes "storable p"
  shows "read_column (column_for p) = Some (target_column p)"
proof (cases "pt_eq (pr_type p) PT_Object")
  case True
  then have s: "is_array (pr_type p) \<noteq> is_nullable (pr_type p)" "\<not> requires_index p" "pr_name p \<noteq> object_id_column_name"
    using assms by (auto simp: storable_def)
  have o: "pt_eq (PT_Object OR PT_Array) PT_Object" "pt_eq (PT_Object OR PT_Nullable) PT_Object" by (rule or_masked_bits)+
  have "\<not> is_array PT_Object \<and> \<not> is_nullable PT_Object" by (rule flags_of_base) simp
  then have "pr_type p = PT_Object OR (if is_array (pr_type p) then PT_Array else PT_Nullable)"
    by (intro property_type_eqI) (use True s(1) in \<open>auto simp: is_flag_or pt_eq_bits bit_or_iff flag_bits\<close>)
  then show ?thesis
    using True s o by (auto simp: read_column_def column_for_def property_for_column_def file_column_def target_column_def)
next
  case False
  then have s: "pr_object_type p = []" "pr_name p \<noteq> object_id_column_name" "is_array (pr_type p) \<Longrightarrow> \<not> requires_index p"
    using assms by (auto simp: storable_def)
  obtain ct where ct: "to_core_type (pr_type p) = Some ct" using False assms by (auto simp: storable_def)
  obtain b where b: "b \<in> {PT_Int, PT_Bool, PT_String, PT_Data, PT_Date, PT_Float, PT_Double}" "pt_eq (pr_type p) b"
    "\<And>opt. from_core_type ct opt = Some (b OR (if opt then PT_Nullable else 0))"
    using core_type_base[OF ct] by blast
  have nb: "\<not> is_array b" "\<not> is_nullable b" using flags_of_base[of b] b(1) by auto
  have nt: "(case ct of type_Table cs \<Rightarrow> length cs \<noteq> 1 \<or> fst (hd cs) \<noteq> ArrayColumnName | _ \<Rightarrow> False) = False"
    using b(3)[of False] ct by (auto simp: to_core_type_def split: if_splits)
  have e1: "is_array (pr_type p) \<Longrightarrow> (b OR (if is_nullable (pr_type p) then PT_Nullable else 0)) OR PT_Array = pr_type p"
    by (rule property_type_eqI) (use b(2) nb in \<open>auto simp: is_flag_or pt_eq_bits bit_or_iff flag_bits\<close>)
  have e2: "\<not> is_array (pr_type p) \<Longrightarrow> b OR (if is_nullable (pr_type p) then PT_Nullable else 0) = pr_type p"
    by (rule property_type_eqI) (use b(2) nb in \<open>auto simp: is_flag_or pt_eq_bits bit_or_iff flag_bits\<close>)
  show ?thesis
    using False s ct b(3) nt e1 e2
    by (auto simp: read_column_def column_for_def property_for_column_def file_column_def target_column_def Let_def
        simp del: not_None_eq split: core_type.splits)
qed


text \<open>
  One change, applied to a group: when its call succeeds (\<open>ready\<close>), what it does to the list of columns (\<open>table_edit\<close>) and to
  the rows of primary keys (\<open>key_edit\<close>), and that this is the effect of the change on the catalogue.
\<close>

section \<open>The catalogue of a group\<close>

definition column_map :: "core_column list \<Rightarrow> string \<rightharpoonup> column" where
  "column_map cs n = (case find (\<lambda>c. cc_name c = n) cs of None \<Rightarrow> None | Some c \<Rightarrow> read_column c)"

definition view_catalogue :: "group_view \<Rightarrow> catalogue" where
  "view_catalogue v n = map_option (\<lambda>cs. (get_primary_key_for_object v n, column_map cs)) (class_columns v n)"

lemma column_map_none: "n \<notin> cc_name ` set cs \<Longrightarrow> column_map cs n = None"
  by (auto simp: column_map_def find_Some_iff split: option.splits)

lemma column_map_split:
  "cc_name c \<notin> cc_name ` set ys \<Longrightarrow> column_map (ys @ c # zs) n = (if n = cc_name c then read_column c else column_map (ys @ zs) n)"
  by (induction ys) (auto simp: column_map_def)

lemma column_map_nth:
  assumes "distinct (map cc_name cs)" "k < length cs"
  shows "column_map cs (cc_name (cs ! k)) = read_column (cs ! k)"
proof -
  obtain ys zs where s: "cs = ys @ cs ! k # zs" using assms(2) by (rule nth_split)
  then have "cc_name (cs ! k) \<notin> cc_name ` set ys"
    using assms(1) distinct_append[of "map cc_name ys" "map cc_name (cs ! k # zs)"] by (metis disjoint_iff list.set_intros(1) list.set_map list.simps(9) map_append)
  then show ?thesis using s column_map_split by metis
qed

lemma column_map_edits:
  assumes "distinct (map cc_name cs)" "k < length cs"
  shows "cc_name c = cc_name (cs ! k) \<Longrightarrow> column_map (cs[k := c]) = (column_map cs)(cc_name (cs ! k) := read_column c)"
    and "column_map (list_erase_at cs k) = (column_map cs)(cc_name (cs ! k) := None)"
proof -
  obtain ys zs where s: "cs = ys @ cs ! k # zs" and l: "length ys = k" using assms(2) by (rule nth_split)
  let ?c = "cs ! k"
  have n: "cc_name ?c \<notin> cc_name ` set ys" "cc_name ?c \<notin> cc_name ` set zs"
    using assms(1) by (subst (asm) s; auto)+
  show "column_map (cs[k := c]) = (column_map cs)(cc_name ?c := read_column c)" if "cc_name c = cc_name ?c"
  proof -
    have "cs[k := c] = ys @ c # zs" using s l by (metis list_update_length)
    then show ?thesis using column_map_split[of c ys zs] column_map_split[OF n(1), of zs] n(1) that s by (auto simp: fun_eq_iff)
  qed
  have "list_erase_at cs k = ys @ zs" using s l by (metis list_erase_at_split)
  moreover have "column_map (ys @ zs) (cc_name ?c) = None" by (rule column_map_none) (use n in auto)
  ultimately show "column_map (list_erase_at cs k) = (column_map cs)(cc_name ?c := None)"
    using column_map_split[OF n(1), of zs] s by (auto simp: fun_eq_iff)
qed

lemma column_map_snoc: "cc_name c \<notin> cc_name ` set cs \<Longrightarrow> column_map (cs @ [c]) = (column_map cs)(cc_name c := read_column c)"
  using column_map_split[of c cs "[]"] by (auto simp: fun_eq_iff)

lemma read_indexed: "read_column (c\<lparr>cc_indexed := b\<rparr>) = map_option (\<lambda>(ty, ot, ix). (ty, ot, b)) (read_column c)"
  by (simp add: read_column_def property_for_column_def file_column_def split: core_type.split option.split)

section \<open>Effects\<close>

fun table_edit :: "schema_change \<Rightarrow> core_column list \<Rightarrow> core_column list" where
  "table_edit (AddProperty os p) cs = cs @ [column_for p]"
| "table_edit (RemoveProperty os p) cs = list_erase_at cs (column_position p)"
| "table_edit (ChangePropertyType os p q) cs = cs[column_position p := column_for q]"
| "table_edit (MakePropertyNullable os p) cs = cs[column_position p := column_for (p\<lparr>pr_type := pr_type p OR PT_Nullable\<rparr>)]"
| "table_edit (MakePropertyRequired os p) cs = cs[column_position p := column_for (p\<lparr>pr_type := pr_type p AND NOT PT_Nullable\<rparr>)]"
| "table_edit (AddIndex os p) cs = cs[column_position p := (cs ! column_position p)\<lparr>cc_indexed := True\<rparr>]"
| "table_edit (RemoveIndex os p) cs = cs[column_position p := (cs ! column_position p)\<lparr>cc_indexed := False\<rparr>]"
| "table_edit c cs = cs"

fun key_edit :: "schema_change \<Rightarrow> (string \<times> string) list \<Rightarrow> (string \<times> string) list" where
  "key_edit (ChangePrimaryKey os p) rows = set_key_row (os_name os) (case p of None \<Rightarrow> [] | Some q \<Rightarrow> pr_name q) rows"
| "key_edit c rows = rows"

definition at_column :: "property \<Rightarrow> core_column list \<Rightarrow> bool" where
  "at_column p cs \<longleftrightarrow> column_position p < length cs \<and> cc_name (cs ! column_position p) = pr_name p"

definition linked :: "group_view \<Rightarrow> property \<Rightarrow> bool" where
  "linked v p \<longleftrightarrow> (pt_eq (pr_type p) PT_Object \<longrightarrow> class_columns v (pr_object_type p) \<noteq> None)"

definition as_in_file :: "property \<Rightarrow> core_column list \<Rightarrow> bool" where
  "as_in_file p cs \<longleftrightarrow> read_column (cs ! column_position p) = Some (file_column p) \<and> requires_index p = pr_indexed p"

fun ready_in :: "schema_change \<Rightarrow> group_view \<Rightarrow> core_column list \<Rightarrow> bool" where
  "ready_in (AddProperty os p) v cs \<longleftrightarrow> storable p \<and> linked v p \<and> pr_name p \<notin> cc_name ` set cs"
| "ready_in (RemoveProperty os p) v cs \<longleftrightarrow> at_column p cs"
| "ready_in (ChangePropertyType os p q) v cs \<longleftrightarrow> at_column p cs \<and> storable q \<and> linked v q \<and> pr_name q = pr_name p"
| "ready_in (MakePropertyNullable os p) v cs \<longleftrightarrow>
     (let q = p\<lparr>pr_type := pr_type p OR PT_Nullable\<rparr> in at_column p cs \<and> as_in_file p cs \<and> storable q \<and> linked v q)"
| "ready_in (MakePropertyRequired os p) v cs \<longleftrightarrow>
     (let q = p\<lparr>pr_type := pr_type p AND NOT PT_Nullable\<rparr> in at_column p cs \<and> as_in_file p cs \<and> storable q \<and> linked v q)"
| "ready_in (AddIndex os p) v cs \<longleftrightarrow> at_column p cs"
| "ready_in (RemoveIndex os p) v cs \<longleftrightarrow> at_column p cs"
| "ready_in (ChangePrimaryKey os p) v cs \<longleftrightarrow> \<not> gv_object_ids v"
| "ready_in c v cs \<longleftrightarrow> False"

definition ready :: "schema_change \<Rightarrow> group_view \<Rightarrow> bool" where
  "ready c v \<longleftrightarrow> (case class_columns v (changed_table c) of None \<Rightarrow> False | Some cs \<Rightarrow> ready_in c v cs)"

definition tidy :: "group_view \<Rightarrow> bool" where
  "tidy v \<longleftrightarrow> distinct (map fst (gv_keys v)) \<and> (\<forall>n cs. class_columns v n = Some cs \<longrightarrow> distinct (map cc_name cs))"

lemma update_column_eq: "update_column n f (pk, cols) = (pk, cols(n := map_option f (cols n)))"
  by (simp add: update_column_def)

lemma table_edit_effect:
  assumes "distinct (map cc_name cs)" "ready_in c v cs"
  shows "snd (table_effect c (pk, column_map cs)) = column_map (table_edit c cs)"
proof -
  have ix: "column_map (cs[column_position p := (cs ! column_position p)\<lparr>cc_indexed := b\<rparr>]) =
      (column_map cs)(pr_name p := map_option (\<lambda>(ty, ot, ix). (ty, ot, b)) (column_map cs (pr_name p)))"
    if "at_column p cs" for p b
    using that column_map_edits(1)[OF assms(1), of "column_position p" "(cs ! column_position p)\<lparr>cc_indexed := b\<rparr>"]
      column_map_nth[OF assms(1), of "column_position p"] read_indexed by (simp add: at_column_def)
  have up: "column_map (cs[column_position p := column_for q]) = (column_map cs)(pr_name p := Some (target_column q))"
    if "at_column p cs" "storable q" "pr_name q = pr_name p" for p q
    using that column_map_edits(1)[OF assms(1), of "column_position p" "column_for q"] read_column_for
    by (simp add: at_column_def)
  have cur: "column_map cs (pr_name p) = Some (file_column p)" if "at_column p cs" "as_in_file p cs" for p
    using that column_map_nth[OF assms(1), of "column_position p"] by (simp add: at_column_def as_in_file_def)
  show ?thesis
    using assms(2)
  proof (cases c)
    case (AddProperty os p)
    then show ?thesis using assms(2) column_map_snoc[of "column_for p" cs] read_column_for by simp
  next
    case (RemoveProperty os p)
    then show ?thesis using assms column_map_edits(2)[OF assms(1), of "column_position p"] by (simp add: at_column_def)
  next
    case (MakePropertyNullable os p)
    then show ?thesis
      using assms(2) up[of p "p\<lparr>pr_type := pr_type p OR PT_Nullable\<rparr>"] cur[of p]
      by (simp add: update_column_eq Let_def target_column_def file_column_def as_in_file_def requires_index_def)
  next
    case (MakePropertyRequired os p)
    then show ?thesis
      using assms(2) up[of p "p\<lparr>pr_type := pr_type p AND NOT PT_Nullable\<rparr>"] cur[of p]
      by (simp add: update_column_eq Let_def target_column_def file_column_def as_in_file_def requires_index_def)
  qed (use assms(2) ix up in \<open>simp_all add: update_column_eq\<close>)
qed

section \<open>Rows of primary keys\<close>

lemma set_key_row_split:
  assumes "distinct (map fst rows)"
  shows "distinct (map fst (set_key_row n pk rows)) \<and>
    map_of (set_key_row n pk rows) = (map_of rows)(n := if pk = [] then None else Some pk)"
proof (cases "n \<in> fst ` set rows")
  case False
  then have none: "map_of rows n = None" by (simp add: map_of_eq_None_iff)
  from False have "length (takeWhile (\<lambda>r. fst r \<noteq> n) rows) = length rows" by (induction rows) auto
  then show ?thesis
    using False assms none by (auto simp: set_key_row_def Let_def fun_eq_iff map_add_def split: option.splits)
next
  case True
  let ?k = "length (takeWhile (\<lambda>r. fst r \<noteq> n) rows)"
  have k: "?k < length rows" using True by (induction rows) auto
  then have nk: "fst (rows ! ?k) = n" using nth_length_takeWhile by fastforce
  obtain ys zs where s: "rows = ys @ rows ! ?k # zs" and l: "length ys = ?k" using k by (rule nth_split)
  obtain x where x: "rows ! ?k = (n, x)" using nk by (cases "rows ! ?k") auto
  have d: "distinct (map fst ys)" "distinct (map fst zs)" "n \<notin> fst ` set ys" "n \<notin> fst ` set zs" "fst ` set ys \<inter> fst ` set zs = {}"
    using assms by (subst (asm) s; simp add: x)+
  have none: "map_of ys n = None" "map_of zs n = None" using d(3,4) by (simp_all add: map_of_eq_None_iff)
  have m: "map_of rows = (map_of zs ++ map_of ys)(n \<mapsto> x)"
    by (subst s) (auto simp: x fun_eq_iff map_add_def none split: option.splits)
  show ?thesis
  proof (cases "pk = []")
    case False
    then have e: "set_key_row n pk rows = ys @ (n, pk) # zs"
      using k l s by (simp add: set_key_row_def Let_def) (metis list_update_length)
    have "distinct (map fst (ys @ (n, pk) # zs))" using d by auto
    moreover have "map_of (ys @ (n, pk) # zs) = (map_of rows)(n \<mapsto> pk)"
      unfolding m by (auto simp: fun_eq_iff map_add_def none split: option.splits)
    ultimately show ?thesis unfolding e using False by simp
  next
    case True
    have e: "set_key_row n pk rows = butlast (rows[?k := last rows])" using k True by (simp add: set_key_row_def Let_def)
    show ?thesis
    proof (cases zs rule: rev_cases)
      case Nil
      then have "rows = ys @ [(n, x)]" using s x by simp
      then have "set_key_row n pk rows = ys" unfolding e using l by (metis butlast_snoc last_snoc list_update_length)
      then show ?thesis using d(1,3) m True Nil by (auto simp: fun_eq_iff map_of_eq_None_iff)
    next
      case (snoc ws r)
      then have "rows = ys @ (n, x) # ws @ [r]" using s x by simp
      then have "rows[?k := last rows] = ys @ r # ws @ [r]" using l by (metis last_ConsR last_appendR last_snoc list.distinct(1) list_update_length snoc_eq_iff_butlast)
      then have f: "set_key_row n pk rows = ys @ r # ws" unfolding e by (simp add: butlast_append)
      have "distinct (map fst (ys @ r # ws))" using d snoc by auto
      moreover have "map_of (ys @ r # ws) = (map_of rows)(n := None)"
      proof
        fix a
        have "map_of (ws @ [r]) n = None" using none(2) snoc by simp
        moreover have "map_of ys a = None \<or> map_of (ws @ [r]) a = None"
          using d(5) snoc by (metis disjoint_iff map_of_eq_None_iff)
        moreover have "map_of ws (fst r) = None" using d(2) snoc by (simp add: map_of_eq_None_iff)
        ultimately show "map_of (ys @ r # ws) a = ((map_of rows)(n := None)) a"
          unfolding m snoc using none by (auto simp: map_add_def split: option.splits if_splits)
      qed
      ultimately show ?thesis unfolding f using True by simp
    qed
  qed
qed

lemma key_edit_effect:
  assumes "distinct (map fst rows)" "within_table c"
  shows "distinct (map fst (key_edit c rows))"
    and "map_of (key_edit c rows) m = (if m = changed_table c \<and> (\<exists>os p. c = ChangePrimaryKey os p)
      then (case fst (table_effect c (pk, cols)) of [] \<Rightarrow> None | q # qs \<Rightarrow> Some (q # qs)) else map_of rows m)"
  using assms set_key_row_split[OF assms(1)]
  by (cases c; auto simp: update_column_eq split: option.splits list.splits)+

end
