(* ===== verification/SchemaApply.thy ===== *)
theory SchemaApply
  imports SchemaGroup
begin

text \<open>The calls that apply a change, in a group that is ready for it, and lists of changes applied one after the other.\<close>

section \<open>One call\<close>

definition changed :: "schema_change \<Rightarrow> group_view \<Rightarrow> group_view \<Rightarrow> bool" where
  "changed c v w \<longleftrightarrow>
     class_columns w = (class_columns v)(changed_table c := map_option (table_edit c) (class_columns v (changed_table c))) \<and>
     gv_keys w = key_edit c (gv_keys v) \<and> gv_version w = gv_version v \<and> gv_object_ids w = gv_object_ids v"

lemma same_but_columns_trans: "same_but_columns u v \<Longrightarrow> same_but_columns v w \<Longrightarrow> same_but_columns u w"
  by (simp add: same_but_columns_def)

lemma insert_property_column_ok:
  assumes core: "core_ok core" and n: "class_columns (co_view core g) n = Some cs" and i: "i \<le> length cs"
    and p: "storable p" "linked (co_view core g) p"
  shows "\<exists>g'. insert_property_column core (table_name_for_object_type n) p i g = Inr g' \<and>
    class_columns (co_view core g') = (class_columns (co_view core g))(n \<mapsto> list_insert_at cs i (column_for p)) \<and>
    same_but_columns (co_view core g) (co_view core g')"
proof -
  let ?t = "table_name_for_object_type n"
  note ins = edits_columnsD[OF core_okD(12)[OF core, of i] n i]
  show ?thesis
  proof (cases "pt_eq (pr_type p) PT_Object")
    case True
    then have "columns core g (table_name_for_object_type (pr_object_type p)) \<noteq> None"
      using p(2) class_columns_table by (fastforce simp: linked_def)
    then show ?thesis
      using ins[of "column_for p"] True by (simp add: insert_property_column_def column_for_def Let_def)
  next
    case False
    then obtain ct where ct: "to_core_type (pr_type p) = Some ct" using p(1) by (auto simp: storable_def)
    show ?thesis
    proof (cases "is_array (pr_type p)")
      case True
      then show ?thesis
        using ins[of "column_for p"] False ct by (simp add: insert_property_column_def column_for_def Let_def)
    next
      case nested: False
      let ?c = "\<lparr>cc_name = pr_name p, cc_type = ct, cc_nullable = is_nullable (pr_type p), cc_indexed = False\<rparr>"
      let ?g = "co_insert_column core ?t i ?c g"
      have e: "insert_property_column core ?t p i g = Inr (if requires_index p then co_add_search_index core ?t i ?g else ?g)"
        using False nested ct by (simp add: insert_property_column_def Let_def)
      have cf: "column_for p = ?c\<lparr>cc_indexed := requires_index p\<rparr>" using False nested ct by (simp add: column_for_def Let_def)
      have g: "class_columns (co_view core ?g) = (class_columns (co_view core g))(n \<mapsto> list_insert_at cs i ?c)"
        "same_but_columns (co_view core g) (co_view core ?g)" using ins[of ?c] by simp_all
      show ?thesis
      proof (cases "requires_index p")
        case False
        then show ?thesis using e g cf by simp
      next
        case True
        have l: "i < length (list_insert_at cs i ?c)" "list_insert_at cs i ?c ! i = ?c"
          using i by (simp_all add: list_insert_at_def nth_append)
        have u: "(list_insert_at cs i ?c)[i := ?c\<lparr>cc_indexed := True\<rparr>] = list_insert_at cs i (column_for p)"
          using i cf True by (simp add: list_insert_at_def list_update_append)
        have "class_columns (co_view core ?g) n = Some (list_insert_at cs i ?c)" using g(1) by simp
        from edits_columnsD[OF core_okD(14)[OF core, of i] this l(1)] show ?thesis
          using e True g u l(2) same_but_columns_trans[OF g(2)] by simp
      qed
    qed
  qed
qed

lemma replaced: "k < length cs \<Longrightarrow> list_erase_at (list_insert_at cs k c) (Suc k) = cs[k := c]"
  by (simp add: list_erase_at_def list_insert_at_def upd_conv_take_nth_drop)

lemma retype_ok:
  assumes core: "core_ok core" and n: "class_columns (co_view core g) n = Some cs" and k: "column_position p < length cs"
    and q: "storable q" "linked (co_view core g) q"
    and f: "\<And>h xs. class_columns (co_view core h) n = Some xs \<Longrightarrow> class_columns (co_view core (f h)) = class_columns (co_view core h) \<and> same_but_columns (co_view core h) (co_view core (f h))"
  shows "\<exists>g'. map_sum id (\<lambda>g'. co_remove_column core (table_name_for_object_type n) (column_position p + 1) (f g'))
      (insert_property_column core (table_name_for_object_type n) q (column_position p) g) = Inr g' \<and>
    class_columns (co_view core g') = (class_columns (co_view core g))(n \<mapsto> cs[column_position p := column_for q]) \<and>
    same_but_columns (co_view core g) (co_view core g')"
proof -
  let ?t = "table_name_for_object_type n"
  obtain h where h: "insert_property_column core ?t q (column_position p) g = Inr h"
    "class_columns (co_view core h) = (class_columns (co_view core g))(n \<mapsto> list_insert_at cs (column_position p) (column_for q))"
    "same_but_columns (co_view core g) (co_view core h)"
    using insert_property_column_ok[OF core n _ q, of "column_position p"] k by auto
  have fh: "class_columns (co_view core (f h)) n = Some (list_insert_at cs (column_position p) (column_for q))"
    using f[of h] h(2) by simp
  have "column_position p + 1 < length (list_insert_at cs (column_position p) (column_for q))" using k by simp
  from edits_columnsD[OF core_okD(13)[OF core] fh this] show ?thesis
    using h f[of h, OF h(2)[THEN fun_cong, THEN trans, OF fun_upd_same]] replaced[OF k] same_but_columns_trans[OF same_but_columns_trans[OF h(3)]] by (auto simp: fun_eq_iff)
qed

lemma copy_property_values_same:
  assumes core: "core_ok core" and n: "class_columns (co_view core h) n = Some cs"
  shows "class_columns (co_view core (copy_property_values core (table_name_for_object_type n) p h)) = class_columns (co_view core h) \<and>
    same_but_columns (co_view core h) (co_view core (copy_property_values core (table_name_for_object_type n) p h))"
proof -
  let ?t = "table_name_for_object_type n"
  have "class_columns (co_view core (fold (\<lambda>i. co_copy_cell core ct ?t i a b) rows h)) = class_columns (co_view core h) \<and>
    same_but_columns (co_view core h) (co_view core (fold (\<lambda>i. co_copy_cell core ct ?t i a b) rows h))" for ct rows a b
    using n
  proof (induction rows arbitrary: h)
    case Nil
    then show ?case by (simp add: same_but_columns_def)
  next
    case (Cons i rows)
    note one = edits_columnsD[OF core_okD(16)[OF core, of ct i a b] Cons.prems TrueI]
    then have "class_columns (co_view core (co_copy_cell core ct ?t i a b h)) = class_columns (co_view core h)"
      using Cons.prems by (auto simp: fun_eq_iff)
    then show ?case using Cons.IH[of "co_copy_cell core ct ?t i a b h"] Cons.prems one same_but_columns_trans by fastforce
  qed
  then show ?thesis by (auto simp: copy_property_values_def same_but_columns_def split: option.splits)
qed

text \<open>A change for which the group is ready is made, whatever the calls.\<close>

lemma initial_step_ok:
  assumes core: "core_ok core" and r: "ready c (co_view core g)" and k: "within_table c"
  shows "\<exists>g'. initial_step core c g = Inr g' \<and> changed c (co_view core g) (co_view core g')"
proof -
  let ?v = "co_view core g"
  obtain cs where n: "class_columns ?v (changed_table c) = Some cs" and rc: "ready_in c ?v cs"
    using r by (auto simp: ready_def split: option.splits)
  note col = class_columns_table[OF n]
  have retype: "\<exists>g'. (let q = q in with_table core (changed_table c) (\<lambda>t cs g.
        map_sum id (\<lambda>g'. co_remove_column core t (column_position p + 1) (f t g'))
          (insert_property_column core t q (column_position p) g))) g = Inr g' \<and>
      class_columns (co_view core g') = (class_columns ?v)(changed_table c \<mapsto> cs[column_position p := column_for q]) \<and>
      same_but_columns ?v (co_view core g')"
    if "at_column p cs" "storable q" "linked ?v q"
      and "\<And>h xs. class_columns (co_view core h) (changed_table c) = Some xs \<Longrightarrow>
        class_columns (co_view core (f (table_name_for_object_type (changed_table c)) h)) = class_columns (co_view core h) \<and>
        same_but_columns (co_view core h) (co_view core (f (table_name_for_object_type (changed_table c)) h))" for p q f
    using retype_ok[OF core n _ that(2,3), of p "f (table_name_for_object_type (changed_table c))"] that(1,4) col
    by (simp add: with_table_def Let_def at_column_def)
  have index: "\<exists>g'. with_table core (changed_table c) (\<lambda>t cs g. Inr (f t g)) g = Inr g' \<and>
      class_columns (co_view core g') = (class_columns ?v)(changed_table c \<mapsto> edit cs) \<and> same_but_columns ?v (co_view core g')"
    if "edits_columns core f ok edit" "ok cs" for f ok edit
    using edits_columnsD[OF that(1) n that(2)] col by (simp add: with_table_def Let_def)
  show ?thesis
  proof (cases c)
    case (AddProperty os p)
    then show ?thesis
      using insert_property_column_ok[OF core n order_refl, of p] rc col n
      by (auto simp: changed_def add_column_def with_table_def same_but_columns_def list_insert_at_def)
  next
    case (RemoveProperty os p)
    then show ?thesis using index[OF core_okD(13)[OF core, of "column_position p"]] rc n
      by (auto simp: changed_def remove_property_def same_but_columns_def at_column_def)
  next
    case (ChangePropertyType os p q)
    then show ?thesis
      using retype[of p q "\<lambda>t g. g"] rc n by (auto simp: changed_def replace_column_def same_but_columns_def)
  next
    case (MakePropertyNullable os p)
    let ?q = "p\<lparr>pr_type := pr_type p OR PT_Nullable\<rparr>"
    show ?thesis
      using retype[of p ?q "\<lambda>t. copy_property_values core t ?q"] copy_property_values_same[OF core] rc n MakePropertyNullable
      by (auto simp: changed_def make_property_optional_def same_but_columns_def Let_def column_position_def)
  next
    case (MakePropertyRequired os p)
    let ?q = "p\<lparr>pr_type := pr_type p AND NOT PT_Nullable\<rparr>"
    show ?thesis
      using retype[of p ?q "\<lambda>t g. g"] rc n MakePropertyRequired
      by (auto simp: changed_def make_property_required_def same_but_columns_def Let_def column_position_def)
  next
    case (AddIndex os p)
    then show ?thesis using index[OF core_okD(14)[OF core, of "column_position p"]] rc n
      by (auto simp: changed_def add_index_def same_but_columns_def at_column_def)
  next
    case (RemoveIndex os p)
    then show ?thesis using index[OF core_okD(15)[OF core, of "column_position p"]] rc n
      by (auto simp: changed_def remove_index_def same_but_columns_def at_column_def)
  next
    case (ChangePrimaryKey os p)
    then show ?thesis
      using rc n core_okD(7-10)[OF core]
      by (auto simp: changed_def change_primary_key_def set_primary_key_for_object_def fun_eq_iff)
  qed (use k in simp_all)
qed


text \<open>
  Changes one after the other. A change may follow another (\<open>may_follow\<close>) when they are about different columns, or when the
  first is about optional values and the second about the index of one column; after a removal only removals of earlier
  columns may follow. In such an order every change is made where the group is ready for it.
\<close>

section \<open>Order\<close>

definition may_follow :: "schema_change \<Rightarrow> schema_change \<Rightarrow> bool" where
  "may_follow c d \<longleftrightarrow>
     (changed_table c = changed_table d \<longrightarrow>
        (changed_column c \<noteq> changed_column d \<or> about_null c \<and> about_index d) \<and>
        (is_not_remove_property c \<or> \<not> is_not_remove_property d \<and> get_removed_column d < get_removed_column c))"

lemma ready_in_mono:
  "ready_in d v cs \<Longrightarrow> (\<forall>n. class_columns v n \<noteq> None \<longrightarrow> class_columns w n \<noteq> None) \<Longrightarrow> gv_object_ids w = gv_object_ids v \<Longrightarrow>
     ready_in d w cs"
  by (cases d) (auto simp: linked_def Let_def)

lemma edit_names:
  assumes "ready_in c v cs" "is_not_remove_property c"
  shows "map cc_name (table_edit c cs) = map cc_name cs @ (case c of AddProperty os p \<Rightarrow> [pr_name p] | _ \<Rightarrow> [])"
proof -
  have up: "map cc_name (cs[column_position p := x]) = map cc_name cs" if "at_column p cs" "cc_name x = pr_name p" for p x
    using that by (simp add: at_column_def map_update list_update_same_conv)
  show ?thesis using assms up by (cases c) (auto simp: Let_def at_column_def)
qed

lemma edit_nth:
  assumes "ready_in c v cs" "is_not_remove_property c" "k < length cs" "changed_column c \<noteq> Some (cc_name (cs ! k))"
  shows "table_edit c cs ! k = cs ! k"
proof -
  have up: "cs[column_position p := x] ! k = cs ! k" if "at_column p cs" "pr_name p \<noteq> cc_name (cs ! k)" for p x
  proof -
    have "column_position p \<noteq> k" using that by (auto simp: at_column_def)
    then show ?thesis by simp
  qed
  show ?thesis using assms up by (cases c) (auto simp: Let_def nth_append)
qed

lemma erase_before: "k < j \<Longrightarrow> j < length cs \<Longrightarrow> k < length (list_erase_at cs j) \<and> list_erase_at cs j ! k = cs ! k"
  by (simp add: list_erase_at_def nth_append)

lemma ready_in_kept:
  assumes c: "ready_in c v cs" "within_table c" and d: "ready_in d v cs" "within_table d"
    and f: "may_follow c d" "changed_table c = changed_table d"
  shows "ready_in d v (table_edit c cs)"
proof (cases "is_not_remove_property c")
  case True
  note names = edit_names[OF c(1) True]
  have len: "length cs \<le> length (table_edit c cs)" using arg_cong[OF names, of length] by simp
  have fresh: "n \<notin> cc_name ` set (table_edit c cs)" if "n \<notin> cc_name ` set cs" "changed_column c \<noteq> Some n" for n
    using arg_cong[OF names, of set] that by (cases c) auto
  have at: "at_column p (table_edit c cs)" if "at_column p cs" for p
  proof -
    have k: "column_position p < length cs" using that by (simp add: at_column_def)
    then have "map cc_name (table_edit c cs) ! column_position p = cc_name (cs ! column_position p)"
      unfolding names by (simp add: nth_append)
    then show ?thesis using that k len by (simp add: at_column_def)
  qed
  have same: "as_in_file p (table_edit c cs)" if "at_column p cs" "as_in_file p cs" "changed_column c \<noteq> Some (pr_name p)" for p
    using edit_nth[OF c(1) True, of "column_position p"] that by (simp add: as_in_file_def at_column_def)
  have col: "changed_column c \<noteq> changed_column d \<or> about_null c \<and> about_index d" using f by (simp add: may_follow_def)
  show ?thesis
    using d col at same fresh by (cases d) (auto simp: Let_def)
next
  case False
  then obtain os p where cr: "c = RemoveProperty os p" by (cases c) auto
  have "\<not> is_not_remove_property d" "get_removed_column d < get_removed_column c" using f False by (auto simp: may_follow_def)
  then obtain os' q where dr: "d = RemoveProperty os' q" "pr_table_column q < pr_table_column p" using cr by (cases d) auto
  then have "column_position q < column_position p" by (simp add: column_position_def word_less_nat_alt)
  then show ?thesis using c(1) d(1) cr dr erase_before[of "column_position q" "column_position p" cs] by (simp add: at_column_def)
qed

lemma changed_classes:
  "changed c v w \<Longrightarrow> class_columns w n = None \<longleftrightarrow> class_columns v n = None"
  by (auto simp: changed_def)

lemma ready_kept:
  assumes "ready c v" "within_table c" "ready d v" "within_table d" "may_follow c d" "changed c v w"
  shows "ready d w"
proof -
  obtain cs where c: "class_columns v (changed_table c) = Some cs" "ready_in c v cs" using assms(1) by (auto simp: ready_def split: option.splits)
  obtain ds where d: "class_columns v (changed_table d) = Some ds" "ready_in d v ds" using assms(3) by (auto simp: ready_def split: option.splits)
  have w: "\<forall>n. class_columns v n \<noteq> None \<longrightarrow> class_columns w n \<noteq> None" "gv_object_ids w = gv_object_ids v"
    using changed_classes[OF assms(6)] assms(6) by (simp_all add: changed_def)
  show ?thesis
  proof (cases "changed_table c = changed_table d")
    case True
    then have "ds = cs" using c(1) d(1) by simp
    then have "ready_in d w (table_edit c cs)" using ready_in_mono[OF ready_in_kept w] c d assms True by blast
    moreover have "class_columns w (changed_table d) = Some (table_edit c cs)" using assms(6) c True by (simp add: changed_def)
    ultimately show ?thesis by (simp add: ready_def)
  next
    case False
    then have "class_columns w (changed_table d) = Some ds" using assms(6) d by (simp add: changed_def)
    then show ?thesis using ready_in_mono[OF d(2) w] by (simp add: ready_def)
  qed
qed

lemma erase_distinct: "distinct (map f cs) \<Longrightarrow> distinct (map f (list_erase_at cs k))"
proof (cases "k < length cs")
  case True
  assume d: "distinct (map f cs)"
  obtain ys zs where e: "cs = ys @ cs ! k # zs" "length ys = k" using True by (rule nth_split)
  then have "list_erase_at cs k = ys @ zs" by (metis list_erase_at_split)
  moreover have "distinct (map f (ys @ zs))" using d by (subst (asm) e(1)) auto
  ultimately show "distinct (map f (list_erase_at cs k))" by simp
qed (simp add: list_erase_at_def)

lemma tidy_kept:
  assumes "tidy v" "ready c v" "within_table c" "changed c v w"
  shows "tidy w"
proof -
  obtain cs where c: "class_columns v (changed_table c) = Some cs" "ready_in c v cs" using assms(2) by (auto simp: ready_def split: option.splits)
  have d: "distinct (map cc_name cs)" using assms(1) c(1) by (auto simp: tidy_def)
  have "distinct (map cc_name (table_edit c cs))"
  proof (cases "is_not_remove_property c")
    case True
    then show ?thesis unfolding edit_names[OF c(2) True] using d c(2) by (cases c) auto
  next
    case False
    then show ?thesis using erase_distinct[OF d] by (cases c) auto
  qed
  moreover have "distinct (map fst (gv_keys w))"
    using assms key_edit_effect(1)[OF _ assms(3)] by (auto simp: changed_def tidy_def)
  ultimately show ?thesis using assms(1,4) c by (auto simp: tidy_def changed_def)
qed

section \<open>The catalogue\<close>

lemma changed_catalogue:
  assumes "tidy v" "ready c v" "within_table c" "changed c v w"
  shows "view_catalogue w = apply_change c (view_catalogue v)"
proof
  fix n
  obtain cs where c: "class_columns v (changed_table c) = Some cs" "ready_in c v cs" using assms(2) by (auto simp: ready_def split: option.splits)
  have d: "distinct (map cc_name cs)" "distinct (map fst (gv_keys v))" using assms(1) c(1) by (auto simp: tidy_def)
  let ?pk = "get_primary_key_for_object v (changed_table c)"
  have eff: "snd (table_effect c (?pk, column_map cs)) = column_map (table_edit c cs)"
    by (rule table_edit_effect[OF d(1) c(2)])
  have keys: "gv_keys w = key_edit c (gv_keys v)" using assms(4) by (simp add: changed_def)
  have key: "get_primary_key_for_object w m =
      (if m = changed_table c then fst (table_effect c (?pk, column_map cs)) else get_primary_key_for_object v m)" for m
    using key_edit_effect(2)[OF d(2) assms(3), of m ?pk "column_map cs"] assms(3)
    by (cases c) (auto simp: get_primary_key_for_object_def keys update_column_eq split: option.splits list.splits)
  show "view_catalogue w n = apply_change c (view_catalogue v) n"
  proof (cases "n = changed_table c")
    case True
    then show ?thesis
      using c eff key assms(4) within_keeps[OF assms(3)]
      by (simp add: view_catalogue_def apply_change_keeps changed_def prod_eq_iff)
  next
    case False
    then show ?thesis using key assms(4) within_keeps[OF assms(3)] by (simp add: view_catalogue_def apply_change_keeps changed_def)
  qed
qed

section \<open>Lists\<close>

definition settled :: "schema_change \<Rightarrow> group_view \<Rightarrow> bool" where
  "settled c v \<longleftrightarrow> (\<forall>os p. c = AddIndex os p \<or> c = RemoveIndex os p \<longrightarrow>
     (\<exists>cs. class_columns v (os_name os) = Some cs \<and> at_column p cs \<and>
        (cc_indexed (cs ! column_position p) \<longleftrightarrow> c = AddIndex os p)))"

lemma settled_at_once:
  assumes "ready c v" "changed c v w"
  shows "settled c w"
  using assms unfolding settled_def ready_def changed_def by (cases c) (auto simp: at_column_def split: option.splits)

lemma settled_kept:
  assumes "settled c v" "ready d v" "within_table d" "may_follow c d" "is_not_remove_property d" "changed d v w"
  shows "settled c w"
  unfolding settled_def
proof (intro allI impI)
  fix os p assume k: "c = AddIndex os p \<or> c = RemoveIndex os p"
  then obtain cs where cs: "class_columns v (os_name os) = Some cs" "at_column p cs"
    "cc_indexed (cs ! column_position p) \<longleftrightarrow> c = AddIndex os p" using assms(1) unfolding settled_def by blast
  show "\<exists>cs. class_columns w (os_name os) = Some cs \<and> at_column p cs \<and> (cc_indexed (cs ! column_position p) \<longleftrightarrow> c = AddIndex os p)"
  proof (cases "changed_table d = os_name os")
    case True
    then have r: "ready_in d v cs" using assms(2) cs(1) by (simp add: ready_def)
    have "changed_column d \<noteq> Some (pr_name p)" using assms(4) True k by (auto simp: may_follow_def)
    then have nth: "table_edit d cs ! column_position p = cs ! column_position p"
      using edit_nth[OF r assms(5)] cs(2) by (simp add: at_column_def)
    moreover have "length cs \<le> length (table_edit d cs)"
      using arg_cong[OF edit_names[OF r assms(5)], of length] by simp
    moreover have "class_columns w (os_name os) = Some (table_edit d cs)" using assms(6) True cs(1) by (simp add: changed_def)
    ultimately show ?thesis using cs by (auto simp: at_column_def)
  next
    case False
    then show ?thesis using assms(6) cs by (auto simp: changed_def)
  qed
qed

definition kept :: "group_view \<Rightarrow> group_view \<Rightarrow> bool" where
  "kept v w \<longleftrightarrow> gv_version w = gv_version v \<and> gv_object_ids w = gv_object_ids v \<and>
     (\<forall>n. class_columns w n = None \<longleftrightarrow> class_columns v n = None)"

lemma run_ok:
  assumes core: "core_ok core"
  shows "tidy (co_view core g) \<Longrightarrow> sorted_wrt may_follow (cs @ later) \<Longrightarrow>
    \<forall>c \<in> set (cs @ later). within_table c \<and> ready c (co_view core g) \<Longrightarrow>
    \<exists>g'. run_changes (initial_step core) cs g = Inr g' \<and> tidy (co_view core g') \<and> kept (co_view core g) (co_view core g') \<and>
      view_catalogue (co_view core g') = fold apply_change cs (view_catalogue (co_view core g)) \<and>
      (\<forall>c \<in> set later. ready c (co_view core g')) \<and>
      (\<forall>b. settled b (co_view core g) \<and> (\<forall>c \<in> set cs. may_follow b c \<and> is_not_remove_property c) \<longrightarrow> settled b (co_view core g')) \<and>
      ((\<forall>c \<in> set cs. is_not_remove_property c) \<longrightarrow> (\<forall>c \<in> set cs. settled c (co_view core g')))"
proof (induction cs arbitrary: g)
  case Nil
  then show ?case by (simp add: kept_def)
next
  case (Cons c cs)
  have c: "within_table c" "ready c (co_view core g)" using Cons.prems(3) by auto
  obtain h where h: "initial_step core c g = Inr h" "changed c (co_view core g) (co_view core h)"
    using initial_step_ok[OF core c(2,1)] by blast
  have t: "tidy (co_view core h)" by (rule tidy_kept[OF Cons.prems(1) c(2,1) h(2)])
  have "\<forall>d \<in> set (cs @ later). within_table d \<and> ready d (co_view core h)"
    using Cons.prems(2,3) ready_kept[OF c(2,1) _ _ _ h(2)] by auto
  then obtain g' where g': "run_changes (initial_step core) cs h = Inr g'" "tidy (co_view core g')" "kept (co_view core h) (co_view core g')"
    "view_catalogue (co_view core g') = fold apply_change cs (view_catalogue (co_view core h))"
    "\<forall>c \<in> set later. ready c (co_view core g')"
    "\<forall>b. settled b (co_view core h) \<and> (\<forall>c \<in> set cs. may_follow b c \<and> is_not_remove_property c) \<longrightarrow> settled b (co_view core g')"
    "(\<forall>c \<in> set cs. is_not_remove_property c) \<longrightarrow> (\<forall>c \<in> set cs. settled c (co_view core g'))"
    using Cons.IH[OF t] Cons.prems(2) by auto
  have v: "kept (co_view core g) (co_view core h)" using h(2) changed_classes[OF h(2)] by (simp add: kept_def changed_def)
  have s: "settled c (co_view core h)" by (rule settled_at_once[OF c(2) h(2)])
  have "settled b (co_view core g) \<Longrightarrow> may_follow b c \<Longrightarrow> is_not_remove_property c \<Longrightarrow> settled b (co_view core h)" for b
    by (rule settled_kept[OF _ c(2,1) _ _ h(2)])
  then show ?case
    using g' h(1) v s Cons.prems(2) changed_catalogue[OF Cons.prems(1) c(2,1) h(2)]
    by (auto simp: kept_def)
qed

end
