(* ===== verification/SchemaFile.thy ===== *)
theory SchemaFile
  imports SchemaApply
begin

text \<open>The schema that is read from a group, and the comparison of one that is as the target asks.\<close>

section \<open>The classes of a group\<close>

lemma class_columns_iff:
  "distinct (map fst (gv_tables v)) \<Longrightarrow>
     class_columns v n = Some cs \<longleftrightarrow> n \<noteq> [] \<and> (table_name_for_object_type n, cs) \<in> set (gv_tables v)"
  by (simp add: class_columns_def)

lemma object_type_nonempty: "object_type_for_table_name t = n \<Longrightarrow> n \<noteq> [] \<Longrightarrow> t = table_name_for_object_type n"
  by (auto simp: object_type_for_table_name_def table_name_for_object_type_def split: if_splits) (metis append_take_drop_id)

lemma update_first_map:
  "distinct (map f xs) \<Longrightarrow> update_first (\<lambda>x. f x = n) u xs = map (\<lambda>x. if f x = n then u x else x) xs"
proof (induction xs)
  case (Cons x xs)
  then have "f x = n \<Longrightarrow> \<forall>y \<in> set xs. f y \<noteq> n" by (auto simp: image_iff)
  then have "f x = n \<Longrightarrow> map (\<lambda>x. if f x = n then u x else x) xs = xs" by (simp add: map_idI)
  then show ?case using Cons by simp
qed simp

definition read_properties :: "core_column list \<Rightarrow> property list" where
  "read_properties cs = List.map_filter (\<lambda>(c, i). property_for_column c i) (zip cs [0..<length cs])"

definition mark_key :: "string \<Rightarrow> property \<Rightarrow> property" where
  "mark_key pk p = (if pk \<noteq> [] \<and> pr_name p = pk then p\<lparr>pr_primary := True\<rparr> else p)"

lemma in_map_filter: "y \<in> set (List.map_filter g xs) \<longleftrightarrow> (\<exists>x \<in> set xs. g x = Some y)"
  by (induction xs) (auto simp: List.map_filter_simps split: option.splits)

lemma read_properties_set:
  "p \<in> set (read_properties cs) \<longleftrightarrow> (\<exists>i < length cs. property_for_column (cs ! i) i = Some p)"
proof -
  have "(c, i) \<in> set (zip cs [0..<length cs]) \<longleftrightarrow> i < length cs \<and> c = cs ! i" for c i by (auto simp: set_zip)
  then show ?thesis unfolding read_properties_def in_map_filter by (auto simp: Bex_def split_paired_Ex)
qed

lemma read_properties_names:
  "map pr_name (List.map_filter (\<lambda>(c, i). property_for_column c i) (zip cs is)) =
     map cc_name (map fst (filter (\<lambda>(c, i). property_for_column c i \<noteq> None) (zip cs is)))"
proof (induction cs arbitrary: "is")
  case (Cons c cs)
  then show ?case by (cases "is") (auto simp: List.map_filter_def dest: read_property)
qed (simp add: List.map_filter_def)

lemma distinct_fst_filter: "length xs = length ys \<Longrightarrow> distinct (map f xs) \<Longrightarrow> distinct (map f (map fst (filter P (zip xs ys))))"
proof (induction xs ys rule: list_induct2)
  case (Cons x xs y ys)
  have "f ` fst ` set (filter P (zip xs ys)) \<subseteq> f ` set xs" by (auto dest: set_zip_leftD)
  then show ?case using Cons by auto
qed simp

lemma read_properties_distinct: "distinct (map cc_name cs) \<Longrightarrow> distinct (map pr_name (read_properties cs))"
  unfolding read_properties_def read_properties_names by (rule distinct_fst_filter) simp_all

lemma object_schema_from_group_eq:
  assumes "distinct (map cc_name cs)"
  shows "object_schema_from_group v n cs =
    \<lparr>os_name = n, os_persisted = map (mark_key (get_primary_key_for_object v n)) (read_properties cs), os_computed = [],
     os_primary_key = get_primary_key_for_object v n\<rparr>"
proof -
  let ?pk = "get_primary_key_for_object v n"
  have m: "map (\<lambda>p. if pr_name p = ?pk then p\<lparr>pr_primary := True\<rparr> else p) (read_properties cs) = map (mark_key ?pk) (read_properties cs)"
    if "?pk \<noteq> []" using that by (simp add: mark_key_def)
  have n: "map (mark_key ?pk) (read_properties cs) = read_properties cs"
    if "?pk = [] \<or> (\<forall>p \<in> set (read_properties cs). pr_name p \<noteq> ?pk)"
    by (rule map_idI) (use that in \<open>auto simp: mark_key_def\<close>)
  show ?thesis
    using m n update_first_map[OF read_properties_distinct[OF assms], of ?pk "\<lambda>p. p\<lparr>pr_primary := True\<rparr>"]
    by (auto simp: object_schema_from_group_def set_primary_key_property_def update_property_def read_properties_def[symmetric])
qed

lemma mark_key_simps [simp]:
  "pr_name (mark_key pk p) = pr_name p" "file_column (mark_key pk p) = file_column p"
  "pr_indexed (mark_key pk p) = pr_indexed p" "column_position (mark_key pk p) = column_position p"
  "pr_table_column (mark_key pk p) = pr_table_column p" "pr_type (mark_key pk p) = pr_type p"
  by (simp_all add: mark_key_def file_column_def column_position_def)

lemma read_position:
  assumes "property_for_column (cs ! i) i = Some p" "i < length cs" "length cs < 2 ^ 64"
  shows "at_column p cs \<and> column_position p = i \<and> read_column (cs ! i) = Some (file_column p)"
proof -
  have "unat (of_nat i :: 64 word) = i" using assms(2,3) by (simp add: unsigned_of_nat take_bit_nat_eq_self)
  then show ?thesis using read_property[OF assms(1)] assms(2) by (simp add: at_column_def column_position_def)
qed

lemma read_columns:
  assumes "distinct (map cc_name cs)"
  shows "columns_of file_column (map (mark_key pk) (read_properties cs)) = column_map cs"
proof
  fix n
  let ?ps = "map (mark_key pk) (read_properties cs)"
  have d: "distinct (map pr_name ?ps)" using read_properties_distinct[OF assms] by (simp add: comp_def)
  show "columns_of file_column ?ps n = column_map cs n"
  proof (cases "\<exists>p \<in> set (read_properties cs). pr_name p = n")
    case True
    then obtain p where p: "p \<in> set (read_properties cs)" "pr_name p = n" by blast
    then obtain i where i: "i < length cs" "property_for_column (cs ! i) i = Some p" by (auto simp: read_properties_set)
    have "columns_of file_column ?ps n = Some (file_column p)"
      using columns_of_some[OF d, of "mark_key pk p" file_column] p by simp
    moreover have "column_map cs n = read_column (cs ! i)"
      using column_map_nth[OF assms i(1)] read_property[OF i(2)] p(2) by simp
    ultimately show ?thesis using read_property[OF i(2)] by simp
  next
    case False
    then have "columns_of file_column ?ps n = None" by (intro columns_of_none) auto
    moreover have "column_map cs n = None"
    proof (cases "n \<in> cc_name ` set cs")
      case True
      then obtain i where i: "i < length cs" "cc_name (cs ! i) = n" by (auto simp: in_set_conv_nth)
      then have "property_for_column (cs ! i) i = None"
        using False read_property[of "cs ! i" i] by (cases "property_for_column (cs ! i) i") (auto simp: read_properties_set)
      then show ?thesis using column_map_nth[OF assms i(1)] i(2) property_none by metis
    qed (rule column_map_none)
    ultimately show ?thesis by simp
  qed
qed

section \<open>The schema of a group\<close>

lemma schema_from_group_set:
  assumes "distinct (map fst (gv_tables v))"
  shows "set (schema_from_group v) = {object_schema_from_group v n cs | n cs. class_columns v n = Some cs}"
proof -
  have "x \<in> set (schema_from_group v) \<longleftrightarrow> (\<exists>t cs. (t, cs) \<in> set (gv_tables v) \<and> object_type_for_table_name t \<noteq> [] \<and>
      x = object_schema_from_group v (object_type_for_table_name t) cs)" for x
    by (simp add: schema_from_group_def schema_of_def in_map_filter Let_def Bex_def split_paired_Ex) (metis option.inject option.simps(3))
  then have "set (schema_from_group v) = {object_schema_from_group v (object_type_for_table_name t) cs | t cs.
      (t, cs) \<in> set (gv_tables v) \<and> object_type_for_table_name t \<noteq> []}" by blast
  also have "\<dots> = {object_schema_from_group v n cs | n cs. class_columns v n = Some cs}"
    unfolding class_columns_iff[OF assms] using object_type_nonempty by (auto; metis object_type_of_table_name)
  finally show ?thesis .
qed

lemma os_name_from_group [simp]: "os_name (object_schema_from_group v n cs) = n"
  by (simp add: object_schema_from_group_def set_primary_key_property_def update_property_def)

lemma schema_from_group_sorted:
  assumes "distinct (map fst (gv_tables v))"
  shows "sorted_schema (schema_from_group v)"
proof -
  let ?f = "\<lambda>(t, cs). let n = object_type_for_table_name t in if n \<noteq> [] then Some (object_schema_from_group v n cs) else None"
  have "distinct (map os_name (List.map_filter ?f tables))" if "distinct (map fst tables)" for tables
    using that
  proof (induction tables)
    case (Cons x tables)
    obtain t cs where x: "x = (t, cs)" by (cases x)
    let ?n = "object_type_for_table_name t"
    have "?n \<notin> os_name ` set (List.map_filter ?f tables)" if "?n \<noteq> []"
    proof
      assume "?n \<in> os_name ` set (List.map_filter ?f tables)"
      then obtain t' cs' where "(t', cs') \<in> set tables" "object_type_for_table_name t' = ?n"
        by (auto simp: in_map_filter Let_def split: if_splits)
      then have "t' = t" "t' \<in> fst ` set tables"
        using object_type_nonempty[OF _ that, of t'] object_type_nonempty[OF refl that] by (auto simp: rev_image_eqI)
      then show False using Cons.prems x by simp
    qed
    then show ?case using Cons x by (cases "?n = []") (simp_all add: List.map_filter_simps Let_def)
  qed (simp add: List.map_filter_simps)
  then have "distinct (map os_name (schema_from_group v))"
    using assms by (simp add: schema_from_group_def schema_of_def distinct_map)
  then show ?thesis by (simp add: strict_sorted_iff schema_from_group_def schema_of_def)
qed

lemma find_from_group:
  assumes "distinct (map fst (gv_tables v))"
  shows "find_object n (schema_from_group v) = map_option (object_schema_from_group v n) (class_columns v n)"
proof (cases "class_columns v n")
  case None
  then have "n \<notin> os_name ` set (schema_from_group v)" unfolding schema_from_group_set[OF assms] by auto
  then show ?thesis using None find_object_none by simp
next
  case (Some cs)
  then have "object_schema_from_group v n cs \<in> set (schema_from_group v)" unfolding schema_from_group_set[OF assms] by blast
  from find_object_some[OF sorted_schema_distinct[OF schema_from_group_sorted[OF assms]] this] show ?thesis using Some by simp
qed

section \<open>Nothing left to do\<close>

definition keyed :: "object_schema \<Rightarrow> bool" where
  "keyed t \<longleftrightarrow> (\<forall>p \<in> set (os_persisted t). pr_primary p \<longleftrightarrow> os_primary_key t \<noteq> [] \<and> pr_name p = os_primary_key t)"

lemma object_changes_empty:
  assumes e: "file_object e" "keyed e" and t: "target_object t" "keyed t"
    and eq: "table_of file_column e = table_of target_column t"
  shows "object_changes e t = []"
proof -
  have pk: "os_primary_key e = os_primary_key t" and cols: "columns_of file_column (os_persisted e) = columns_of target_column (os_persisted t)"
    using eq by (auto simp: table_of_def)
  have de: "distinct (map pr_name (os_persisted e))" and dt: "distinct (map pr_name (os_persisted t))"
    using e t by (auto simp: file_object_def target_object_def)
  have "compare_property e t p = []" if p: "p \<in> set (os_persisted e)" for p
  proof -
    have "columns_of target_column (os_persisted t) (pr_name p) = Some (file_column p)"
      using columns_of_some[OF de p, of file_column] cols by simp
    then obtain q where q: "find (\<lambda>q. pr_name q = pr_name p) (os_persisted t) = Some q" "target_column q = file_column p"
      by (auto simp: columns_of_def)
    then have qt: "q \<in> set (os_persisted t)" "pr_name q = pr_name p" by (auto simp: find_Some_iff)
    have c: "\<not> property_is_computed t q"
      using t(1) qt(1) by (auto simp: property_is_computed_def property_eq_def target_object_def image_iff)
    have "pr_primary p \<longleftrightarrow> pr_primary q" using e(2) t(2) p qt pk by (simp add: keyed_def)
    then show ?thesis
      using q c by (auto simp: compare_property_def property_for_name_def target_column_def file_column_def requires_index_def pt_eq_def)
  qed
  moreover have "property_for_name (pr_name q) e \<noteq> None" if "q \<in> set (os_persisted t)" for q
  proof -
    have "columns_of file_column (os_persisted e) (pr_name q) \<noteq> None" using columns_of_some[OF dt that, of target_column] cols by simp
    then show ?thesis by (auto simp: columns_of_def property_for_name_def)
  qed
  ultimately show ?thesis by (auto simp: object_changes_def pk filter_empty_conv)
qed

lemma compare_empty:
  assumes part: "partition_ok part" and sorted: "sorted_schema s" "sorted_schema target"
    and found: "\<And>t. t \<in> set target \<Longrightarrow> \<exists>e. find_object (os_name t) s = Some e \<and> object_changes e t = []"
  shows "schema_compare part s target False = []"
proof -
  let ?ms = "zip_matching target s"
  note pairs = zip_matching_pairs[OF sorted(2,1)]
  have "part P [] = []" for P
    using part unfolding partition_ok_def by (metis mset.simps(1) mset_zero_iff)
  then have nil: "order_changes part [] = []" by (simp add: order_changes_def)
  have m: "table_change False m = [] \<and> column_changes part m [] = []" if "m \<in> set ?ms" for m
  proof -
    have eq: "m = (find_object (pair_name m) target, find_object (pair_name m) s)" using pairs that by blast
    show ?thesis
    proof (cases "find_object (pair_name m) target")
      case None
      then have "m = (None, find_object (pair_name m) s)" using eq by simp
      moreover have "table_change False (None, e) = [] \<and> column_changes part (None, e) [] = []" for e by (cases e) simp_all
      ultimately show ?thesis by metis
    next
      case (Some t)
      then obtain e where "find_object (pair_name m) s = Some e" "object_changes e t = []"
        using found[of t] find_object_Some by metis
      moreover have "m = (Some t, Some e)" using eq Some calculation(1) by simp
      ultimately show ?thesis using nil by (simp add: compare_objects_def)
    qed
  qed
  have "fold (column_changes part) ms [] = []" if "set ms \<subseteq> set ?ms" for ms
    using that m by (induction ms) auto
  moreover have "concat (map (table_change False) ?ms) = []" using m by simp
  ultimately show ?thesis unfolding schema_compare_def Let_def by (metis order_refl)
qed


text \<open>The order of the changes that \<open>compare\<close> lists, when the partition keeps the order of the changes that stay in front.\<close>

section \<open>Changes that do not disturb each other\<close>

definition partition_stable :: "partition_algorithm \<Rightarrow> bool" where
  "partition_stable part \<longleftrightarrow> partition_ok part \<and> (\<forall>P xs. filter P (part P xs) = filter P xs)"

lemma stable_partition_stable: "partition_stable stable_partition"
  using stable_partition_ok by (simp add: partition_stable_def stable_partition_def)

definition apart :: "schema_change \<Rightarrow> schema_change \<Rightarrow> bool" where
  "apart c d \<longleftrightarrow> (changed_table c = changed_table d \<longrightarrow> changed_column c \<noteq> changed_column d \<or> about_null c \<and> about_index d)"

lemma apart_may_follow: "apart c d \<Longrightarrow> is_not_remove_property c \<Longrightarrow> may_follow c d"
  by (simp add: apart_def may_follow_def)

lemma sorted_wrt_concat_map:
  "(\<forall>x \<in> set xs. sorted_wrt R (f x)) \<Longrightarrow> sorted_wrt (\<lambda>x y. \<forall>a \<in> set (f x). \<forall>b \<in> set (f y). R a b) xs \<Longrightarrow>
     sorted_wrt R (concat (map f xs))"
  by (induction xs) (auto simp: sorted_wrt_append)

lemma distinct_sorted_wrt: "distinct (map f xs) \<Longrightarrow> sorted_wrt (\<lambda>x y. f x \<noteq> f y) xs"
  by (induction xs) (auto simp: image_iff)

text \<open>A new class gets its columns one by one, except for the key column.\<close>

fun simple_changes :: "schema_change \<Rightarrow> schema_change list" where
  "simple_changes (AddInitialProperties os) = map (AddProperty os) (filter (\<lambda>p. \<not> pr_primary p) (os_persisted os))"
| "simple_changes c = [c]"

lemma simple_within: "within_table c \<Longrightarrow> simple_changes c = [c]"
  by (cases c) auto

lemma object_changes_apart:
  assumes e: "file_object e" and t: "target_object t"
  shows "sorted_wrt apart (object_changes e t)"
proof -
  have d: "distinct (map pr_name (os_persisted e))" "distinct (map pr_name (os_persisted t))"
    using e t by (auto simp: file_object_def target_object_def)
  have "sorted_wrt apart (compare_property e t p)" for p
    by (auto simp: compare_property_def apart_def split: option.splits)
  moreover have "sorted_wrt (\<lambda>p q. \<forall>a \<in> set (compare_property e t p). \<forall>b \<in> set (compare_property e t q). apart a b) (os_persisted e)"
    by (rule sorted_wrt_mono_rel[OF _ distinct_sorted_wrt[OF d(1)]]) (auto simp: apart_def dest!: compare_property_column)
  ultimately have 1: "sorted_wrt apart (concat (map (compare_property e t) (os_persisted e)))" by (intro sorted_wrt_concat_map) auto
  let ?new = "filter (\<lambda>p. property_for_name (pr_name p) e = None) (os_persisted t)"
  have "sorted_wrt (\<lambda>p q. pr_name p \<noteq> pr_name q) ?new" by (intro distinct_sorted_wrt distinct_map_filter d(2))
  then have 2: "sorted_wrt apart (map (AddProperty e) ?new)" by (simp add: sorted_wrt_map apart_def)
  have 3: "apart a b" if ha: "a \<in> set (concat (map (compare_property e t) (os_persisted e)))" and hb: "b \<in> set (map (AddProperty e) ?new)" for a b
  proof -
    obtain p where p: "p \<in> set (os_persisted e)" "a \<in> set (compare_property e t p)" using ha by auto
    note pa = compare_property_column[OF p(2)]
    obtain q where q: "b = AddProperty e q" "property_for_name (pr_name q) e = None" using hb by auto
    then have "pr_name p \<noteq> pr_name q" using p(1) file_property_None[OF e] by force
    then show ?thesis using pa q by (simp add: apart_def)
  qed
  define as ks ns where "as = concat (map (compare_property e t) (os_persisted e))" and
    "ks = (if os_primary_key e \<noteq> os_primary_key t then [ChangePrimaryKey e (primary_key_property t)] else [])" and
    "ns = map (AddProperty e) ?new"
  have 4: "apart a k" if "a \<in> set as" "k \<in> set ks" for a k
    using that by (auto simp: as_def ks_def apart_def dest!: compare_property_column split: if_splits)
  have 5: "apart k b" if "k \<in> set ks" "b \<in> set ns" for k b
    using that by (auto simp: ks_def ns_def apart_def split: if_splits)
  have 6: "sorted_wrt apart ks" by (simp add: ks_def)
  have "object_changes e t = as @ ks @ ns" by (simp add: object_changes_def as_def ks_def ns_def)
  then show ?thesis using 1 2 3 4 5 6 by (simp add: as_def[symmetric] ns_def[symmetric] sorted_wrt_append del: set_concat set_map) blast
qed

definition pair_steps :: "object_schema option \<times> object_schema option \<Rightarrow> schema_change list" where
  "pair_steps m = concat (map simple_changes (pair_changes m))"

lemma concat_single: "\<forall>x \<in> set xs. f x = [x] \<Longrightarrow> concat (map f xs) = xs"
  by (induction xs) auto

lemma pair_steps_cases:
  "pair_steps (Some t, Some e) = object_changes e t"
  "pair_steps (Some t, None) = map (AddProperty t) (filter (\<lambda>p. \<not> pr_primary p) (os_persisted t))"
  "pair_steps (None, x) = []"
proof -
  show "pair_steps (Some t, Some e) = object_changes e t"
    using concat_single[of "object_changes e t" simple_changes] object_changes_table simple_within by (fastforce simp: pair_steps_def)
qed (simp_all add: pair_steps_def)

lemma pair_steps_apart:
  assumes "well_paired m"
  shows "sorted_wrt apart (pair_steps m)" and "\<forall>c \<in> set (pair_steps m). within_table c \<and> changed_table c = pair_name m"
proof -
  obtain t e where m: "m = (t, e)" by (cases m)
  consider (none) "t = None" | (new) a where "t = Some a" "e = None" | (both) a b where "t = Some a" "e = Some b"
    by (cases t; cases e) auto
  then show "sorted_wrt apart (pair_steps m)"
  proof cases
    case new
    then have "distinct (map pr_name (filter (\<lambda>p. \<not> pr_primary p) (os_persisted a)))"
      using assms m by (intro distinct_map_filter) (simp add: well_paired_def target_object_def)
    from distinct_sorted_wrt[OF this] show ?thesis unfolding m new pair_steps_cases by (simp add: sorted_wrt_map apart_def)
  qed (use assms object_changes_apart in \<open>simp_all add: m pair_steps_cases well_paired_def\<close>)
  show "\<forall>c \<in> set (pair_steps m). within_table c \<and> changed_table c = pair_name m"
    by (cases t; cases e) (use assms m object_changes_table in \<open>auto simp: pair_steps_cases well_paired_def\<close>)
qed

lemma pairs_apart:
  assumes "distinct (map pair_name ms)" "\<forall>m \<in> set ms. well_paired m"
  shows "sorted_wrt apart (concat (map pair_steps ms))"
proof (rule sorted_wrt_concat_map)
  show "\<forall>m \<in> set ms. sorted_wrt apart (pair_steps m)" using assms(2) pair_steps_apart(1) by blast
  have "sorted_wrt (\<lambda>m m'. pair_name m \<noteq> pair_name m') ms" by (rule distinct_sorted_wrt[OF assms(1)])
  then show "sorted_wrt (\<lambda>m m'. \<forall>a \<in> set (pair_steps m). \<forall>b \<in> set (pair_steps m'). apart a b) ms"
  proof (rule sorted_wrt_mono_rel[rotated])
    fix m m' assume m: "m \<in> set ms" "m' \<in> set ms" "pair_name m \<noteq> pair_name m'"
    then have "changed_table a \<noteq> changed_table b" if "a \<in> set (pair_steps m)" "b \<in> set (pair_steps m')" for a b
      using that assms(2) pair_steps_apart(2)[of m] pair_steps_apart(2)[of m'] by metis
    then show "\<forall>a \<in> set (pair_steps m). \<forall>b \<in> set (pair_steps m'). apart a b" by (simp add: apart_def)
  qed
qed

section \<open>The shape of the list\<close>

definition shaped :: "schema_change list \<Rightarrow> schema_change list \<Rightarrow> schema_change list \<Rightarrow> bool" where
  "shaped pre all changes \<longleftrightarrow>
     (\<exists>as rs ys. changes = as @ rs @ ys \<and> (\<forall>c \<in> set as. is_not_remove_property c) \<and> (\<forall>c \<in> set rs. \<not> is_not_remove_property c) \<and>
        (\<forall>c \<in> set ys. \<exists>t. c = AddInitialProperties t) \<and> sorted_wrt (\<lambda>c d. get_removed_column d \<le> get_removed_column c) rs \<and>
        as @ ys = pre @ filter is_not_remove_property all \<and>
        mset rs = mset (filter (\<lambda>c. \<not> is_not_remove_property c) all))"

lemma divided:
  "xs = us @ zs \<Longrightarrow> \<forall>u \<in> set us. P u \<Longrightarrow> \<forall>z \<in> set zs. \<not> P z \<Longrightarrow>
     takeWhile P xs = filter P xs \<and> dropWhile P xs = filter (\<lambda>x. \<not> P x) xs"
  by (cases zs) (auto simp: takeWhile_append2 dropWhile_append2 filter_id_conv filter_empty_conv)

lemma order_shaped:
  assumes part: "partition_stable part" and s: "shaped pre all changes"
  shows "shaped pre (all @ new) (order_changes part (changes @ new))"
proof -
  let ?P = is_not_remove_property
  obtain as rs ys where c: "changes = as @ rs @ ys" "\<forall>c \<in> set as. ?P c" "\<forall>c \<in> set rs. \<not> ?P c"
    "\<forall>c \<in> set ys. \<exists>t. c = AddInitialProperties t" "as @ ys = pre @ filter ?P all"
    "mset rs = mset (filter (\<lambda>c. \<not> ?P c) all)" using s unfolding shaped_def by blast
  let ?xs = "changes @ new" and ?cs = "part ?P (changes @ new)"
  obtain vs zs where v: "?cs = takeWhile ?P ?xs @ vs @ zs" "\<forall>u \<in> set vs. ?P u" "\<forall>z \<in> set zs. \<not> ?P z"
    using part[unfolded partition_stable_def partition_ok_def, THEN conjunct1, rule_format, of ?P ?xs] by blast
  define us where "us = takeWhile ?P ?xs @ vs"
  have u: "?cs = us @ zs" "\<forall>u \<in> set us. ?P u" "\<forall>z \<in> set zs. \<not> ?P z"
    using v by (auto simp: us_def dest: set_takeWhileD)
  have m: "mset ?cs = mset ?xs" and f: "filter ?P ?cs = filter ?P ?xs"
    using part by (auto simp: partition_stable_def partition_ok_def)
  note dv = divided[OF u]
  let ?rs = "rev (sort_key get_removed_column (rev (dropWhile ?P ?cs)))"
  have yP: "\<forall>c \<in> set ys. ?P c" using c(4) by auto
  have "filter ?P rs = []" "filter (\<lambda>c. \<not> ?P c) as = []" "filter (\<lambda>c. \<not> ?P c) ys = []"
    using c(2,3) yP by (simp_all add: filter_empty_conv)
  moreover have "filter ?P as = as" "filter ?P ys = ys" "filter (\<lambda>c. \<not> ?P c) rs = rs" using c(2,3) yP by (simp_all add: filter_id_conv)
  ultimately have x: "filter ?P ?xs = pre @ filter ?P (all @ new)" "mset (filter (\<lambda>c. \<not> ?P c) ?xs) = mset (filter (\<lambda>c. \<not> ?P c) (all @ new))"
    using c(1,5,6) by simp_all
  have "mset (filter (\<lambda>c. \<not> ?P c) ?cs) = mset (filter (\<lambda>c. \<not> ?P c) ?xs)" using m by (metis mset_filter)
  then have r: "mset ?rs = mset (filter (\<lambda>c. \<not> ?P c) (all @ new))" "\<forall>c \<in> set ?rs. \<not> ?P c" using dv x(2) by simp_all
  have o: "sorted_wrt (\<lambda>c d. get_removed_column d \<le> get_removed_column c) ?rs"
    using sorted_sort_key[of get_removed_column "rev (dropWhile ?P ?cs)"] by (simp add: sorted_wrt_rev sorted_map)
  have f': "takeWhile ?P ?cs @ [] = pre @ filter ?P (all @ new)" using dv f x(1) by simp
  have t: "\<forall>c \<in> set (takeWhile ?P ?cs). ?P c" by (auto dest: set_takeWhileD)
  have "order_changes part ?xs = takeWhile ?P ?cs @ ?rs @ []" by (simp add: order_changes_def Let_def)
  then show ?thesis unfolding shaped_def using f' t o r by (metis empty_iff list.set(1))
qed

lemma compare_shaped:
  assumes "partition_stable part"
  shows "shaped (concat (map (table_change False) (zip_matching target s))) (concat (map pair_changes (zip_matching target s)))
    (schema_compare part s target False)"
proof -
  let ?ms = "zip_matching target s"
  let ?pre = "concat (map (table_change False) ?ms)"
  have "shaped ?pre (all @ concat (map pair_changes ms)) (fold (column_changes part) ms changes)"
    if "shaped ?pre all changes" for all ms changes
    using that
  proof (induction ms arbitrary: all changes)
    case (Cons m ms)
    obtain t e where m: "m = (t, e)" by (cases m)
    have "shaped ?pre (all @ pair_changes m) (column_changes part m changes)"
    proof (cases t)
      case None
      then show ?thesis using Cons.prems m by simp
    next
      case t: (Some a)
      show ?thesis
      proof (cases e)
        case None
        obtain as rs ys where "changes = as @ rs @ ys" "\<forall>c \<in> set as. is_not_remove_property c" "\<forall>c \<in> set rs. \<not> is_not_remove_property c"
          "\<forall>c \<in> set ys. \<exists>t. c = AddInitialProperties t" "sorted_wrt (\<lambda>c d. get_removed_column d \<le> get_removed_column c) rs"
          "as @ ys = ?pre @ filter is_not_remove_property all" "mset rs = mset (filter (\<lambda>c. \<not> is_not_remove_property c) all)"
          using Cons.prems unfolding shaped_def by blast
        then show ?thesis
          unfolding shaped_def m t None by (intro exI[of _ as] exI[of _ rs] exI[of _ "ys @ [AddInitialProperties a]"]) simp
      next
        case (Some b)
        then show ?thesis using order_shaped[OF assms Cons.prems] by (simp add: m t compare_objects_def)
      qed
    qed
    from Cons.IH[OF this] show ?case by simp
  qed simp
  moreover have "shaped ?pre [] ?pre"
  proof -
    have "\<forall>c \<in> set (table_change False m). is_not_remove_property c" for m
      by (cases "(False, m)" rule: table_change.cases) auto
    then show ?thesis unfolding shaped_def by (intro exI[of _ ?pre] exI[of _ "[]"]) auto
  qed
  ultimately show ?thesis unfolding schema_compare_def Let_def by (metis append_Nil)
qed

end
