(* ===== verification/SchemaReady.thy ===== *)
theory SchemaReady
  imports SchemaFile
begin

text \<open>
  The files and targets of an update, the tables that are made first, and that the group is then ready for each of
  the other changes.
\<close>

section \<open>Files and targets\<close>

definition sound_class :: "string \<Rightarrow> core_column list \<Rightarrow> bool" where
  "sound_class pk cs \<longleftrightarrow>
     length cs < 2 ^ 64 \<and> distinct (map cc_name cs) \<and>
     (\<forall>c \<in> set cs. (pk \<noteq> [] \<and> cc_name c = pk \<longrightarrow> cc_indexed c) \<and>
        (case read_column c of
           None \<Rightarrow> cc_name c = object_id_column_name
         | Some (ty, ot, ix) \<Rightarrow> is_array ty \<or> pt_eq ty PT_Object \<longrightarrow> \<not> ix))"

definition file_ok :: "group_view \<Rightarrow> bool" where
  "file_ok v \<longleftrightarrow>
     distinct (map fst (gv_tables v)) \<and> distinct (map fst (gv_keys v)) \<and> (\<forall>(n, pk) \<in> set (gv_keys v). class_columns v n \<noteq> None) \<and>
     (\<forall>(t, cs) \<in> set (gv_tables v). let n = object_type_for_table_name t
        in n \<noteq> [] \<longrightarrow> sound_class (get_primary_key_for_object v n) cs) \<and>
     \<not> gv_object_ids v"

definition target_ok :: "schema \<Rightarrow> bool" where
  "target_ok target \<longleftrightarrow>
     sorted_schema target \<and>
     (\<forall>t \<in> set target. os_name t \<noteq> [] \<and> target_object t \<and> keyed t \<and>
        (os_primary_key t \<noteq> [] \<longrightarrow> os_primary_key t \<in> pr_name ` set (os_persisted t)) \<and>
        (\<forall>p \<in> set (os_persisted t). storable p \<and>
           (pt_eq (pr_type p) PT_Object \<longrightarrow> (\<exists>u \<in> set target. os_name u = pr_object_type p))))"

lemma target_okD:
  assumes "target_ok target" "t \<in> set target"
  shows "os_name t \<noteq> []" "target_object t" "keyed t"
    and "os_primary_key t \<noteq> [] \<Longrightarrow> os_primary_key t \<in> pr_name ` set (os_persisted t)"
    and "p \<in> set (os_persisted t) \<Longrightarrow> storable p"
    and "p \<in> set (os_persisted t) \<Longrightarrow> pt_eq (pr_type p) PT_Object \<Longrightarrow> \<exists>u \<in> set target. os_name u = pr_object_type p"
    and "[] \<notin> pr_name ` (set (os_persisted t) \<union> set (os_computed t))"
    and "distinct (map pr_name (os_persisted t))"
  using assms by (auto simp: target_ok_def target_object_def) (metis UnI1 UnI2)+

lemma file_okD:
  assumes "file_ok v"
  shows "distinct (map fst (gv_tables v))" and "tidy v" and "class_columns v n = None \<Longrightarrow> get_primary_key_for_object v n = []"
    and "class_columns v n = Some cs \<Longrightarrow> sound_class (get_primary_key_for_object v n) cs" and "\<not> gv_object_ids v"
proof -
  show d: "distinct (map fst (gv_tables v))" and ids: "\<not> gv_object_ids v" using assms by (auto simp: file_ok_def)
  show s: "class_columns v n = Some cs \<Longrightarrow> sound_class (get_primary_key_for_object v n) cs" for n cs
    using assms object_type_of_table_name unfolding class_columns_iff[OF d] file_ok_def by (fastforce simp: Let_def)
  show "tidy v" using assms s by (auto simp: tidy_def file_ok_def sound_class_def)
  show "get_primary_key_for_object v n = []" if "class_columns v n = None"
  proof -
    have "n \<notin> fst ` set (gv_keys v)" using assms that by (auto simp: file_ok_def)
    then have "map_of (gv_keys v) n = None" by (simp add: map_of_eq_None_iff)
    then show ?thesis by (simp add: get_primary_key_for_object_def)
  qed
qed

lemma file_schema_objects:
  assumes v: "file_ok v" and e: "e \<in> set (schema_from_group v)"
  obtains cs where "class_columns v (os_name e) = Some cs" "file_object e" "keyed e"
    "os_primary_key e = get_primary_key_for_object v (os_name e)" "columns_of file_column (os_persisted e) = column_map cs"
    "\<And>p. p \<in> set (os_persisted e) \<Longrightarrow> at_column p cs \<and> as_in_file p cs \<and> pr_name p \<noteq> object_id_column_name \<and>
       (requires_index p \<longrightarrow> \<not> is_array (pr_type p) \<and> \<not> pt_eq (pr_type p) PT_Object)"
    "\<And>n. n \<in> cc_name ` set cs \<Longrightarrow> n \<noteq> object_id_column_name \<Longrightarrow> n \<in> pr_name ` set (os_persisted e)"
proof -
  obtain n cs where e': "e = object_schema_from_group v n cs" and cs: "class_columns v n = Some cs"
    using e schema_from_group_set[OF file_okD(1)[OF v]] by auto
  let ?pk = "get_primary_key_for_object v n"
  note s = file_okD(4)[OF v cs]
  have d: "distinct (map cc_name cs)" and len: "length cs < 2 ^ 64" using s by (simp_all add: sound_class_def)
  note eq = object_schema_from_group_eq[OF d, of v n]
  have ps: "os_persisted e = map (mark_key ?pk) (read_properties cs)" and pk: "os_primary_key e = ?pk" and nm: "os_name e = n"
    by (simp_all add: e' eq)
  show ?thesis
  proof (rule that[of cs])
    show "class_columns v (os_name e) = Some cs" "os_primary_key e = get_primary_key_for_object v (os_name e)" using cs pk nm by simp_all
    show "file_object e" using read_properties_distinct[OF d] by (simp add: file_object_def e' eq comp_def)
    show "columns_of file_column (os_persisted e) = column_map cs" unfolding ps by (rule read_columns[OF d])
    have np: "\<not> pr_primary p" if "p \<in> set (read_properties cs)" for p using that read_property by (auto simp: read_properties_set)
    show "keyed e" unfolding keyed_def ps pk using np by (auto simp: mark_key_def)
    show "at_column p cs \<and> as_in_file p cs \<and> pr_name p \<noteq> object_id_column_name \<and>
       (requires_index p \<longrightarrow> \<not> is_array (pr_type p) \<and> \<not> pt_eq (pr_type p) PT_Object)" if p: "p \<in> set (os_persisted e)" for p
    proof -
      obtain r i where r: "p = mark_key ?pk r" "i < length cs" "property_for_column (cs ! i) i = Some r"
        using p unfolding ps by (auto simp: read_properties_set)
      note pos = read_position[OF r(3,2) len]
      note rp = read_property[OF r(3)]
      have c: "?pk \<noteq> [] \<and> cc_name (cs ! i) = ?pk \<longrightarrow> cc_indexed (cs ! i)"
        "is_array (pr_type r) \<or> pt_eq (pr_type r) PT_Object \<longrightarrow> \<not> pr_indexed r"
        using s r(2) rp by (auto simp: sound_class_def file_column_def dest!: nth_mem)
      have ix: "requires_index p = pr_indexed p" using c(1) rp r(1) by (auto simp: requires_index_def mark_key_def)
      have "pr_name r \<noteq> object_id_column_name" using r(3) by (auto simp: property_for_column_def split: if_splits option.splits)
      then show ?thesis using pos r(1) ix c(2) by (auto simp: at_column_def as_in_file_def)
    qed
    show "m \<in> pr_name ` set (os_persisted e)" if m: "m \<in> cc_name ` set cs" "m \<noteq> object_id_column_name" for m
    proof -
      obtain i where i: "i < length cs" "cc_name (cs ! i) = m" using m(1) by (auto simp: in_set_conv_nth)
      then have "read_column (cs ! i) \<noteq> None" using s m(2) by (auto simp: sound_class_def split: option.splits dest!: nth_mem)
      then obtain r where "property_for_column (cs ! i) i = Some r" using property_none[of "cs ! i" i] by auto
      then have "r \<in> set (read_properties cs)" "pr_name r = m" using i read_property by (auto simp: read_properties_set)
      then show ?thesis unfolding ps by (force simp: image_iff)
    qed
  qed
qed

section \<open>The new tables\<close>

definition key_columns :: "object_schema \<Rightarrow> core_column list" where
  "key_columns t = (case primary_key_property t of None \<Rightarrow> [] | Some p \<Rightarrow> [column_for p])"

lemma target_key:
  assumes "target_ok target" "t \<in> set target"
  shows "(os_primary_key t = [] \<and> primary_key_property t = None) \<or>
    (\<exists>p \<in> set (os_persisted t). primary_key_property t = Some p \<and> pr_name p = os_primary_key t \<and> os_primary_key t \<noteq> [] \<and> pr_primary p \<and>
       storable p \<and> \<not> is_array (pr_type p) \<and> \<not> pt_eq (pr_type p) PT_Object \<and> to_core_type (pr_type p) \<noteq> None)"
proof (cases "os_primary_key t = []")
  case True
  then have "primary_key_property t = None"
    using target_okD(7)[OF assms] unfolding primary_key_property_def property_for_name_None by simp
  then show ?thesis using True by simp
next
  case False
  then have "os_primary_key t \<in> pr_name ` set (os_persisted t)" using assms by (simp add: target_ok_def)
  then obtain p where p: "find (\<lambda>p. pr_name p = os_primary_key t) (os_persisted t) = Some p"
    by (cases "find (\<lambda>p. pr_name p = os_primary_key t) (os_persisted t)") (auto simp: find_None_iff)
  then have q: "p \<in> set (os_persisted t)" "pr_name p = os_primary_key t" by (auto simp: find_Some_iff)
  then have pr: "pr_primary p" "storable p" using assms False by (auto simp: target_ok_def keyed_def)
  then have "\<not> is_array (pr_type p) \<and> \<not> pt_eq (pr_type p) PT_Object \<and> to_core_type (pr_type p) \<noteq> None"
    by (auto simp: storable_def requires_index_def split: if_splits)
  then show ?thesis using p q pr False by (auto simp: primary_key_property_def property_for_name_def)
qed

definition table_made :: "group_view \<Rightarrow> object_schema \<Rightarrow> bool" where
  "table_made w t \<longleftrightarrow> (\<exists>hidden. hidden_columns hidden \<and> class_columns w (os_name t) = Some (hidden @ key_columns t)) \<and>
     get_primary_key_for_object w (os_name t) = os_primary_key t"

lemma create_table_ok:
  assumes core: "core_ok core" and t: "target_ok target" "t \<in> set target"
    and tidy: "tidy (co_view core g)" and none: "class_columns (co_view core g) (os_name t) = None"
    and key: "get_primary_key_for_object (co_view core g) (os_name t) = []"
  shows "\<exists>g'. create_table core t g = Inr g' \<and> tidy (co_view core g') \<and> table_made (co_view core g') t \<and>
    gv_version (co_view core g') = gv_version (co_view core g) \<and> gv_object_ids (co_view core g') = gv_object_ids (co_view core g) \<and>
    (\<forall>n. n \<noteq> os_name t \<longrightarrow> class_columns (co_view core g') n = class_columns (co_view core g) n \<and>
       get_primary_key_for_object (co_view core g') n = get_primary_key_for_object (co_view core g) n)"
proof -
  let ?v = "co_view core g"
  have n: "os_name t \<noteq> []" using t by (simp add: target_ok_def)
  note made = core_okD(11)[OF core, unfolded creates_tables_def Let_def, rule_format, OF n, of g]
  have dk: "distinct (map fst (gv_keys ?v))" using tidy by (simp add: tidy_def)
  consider (nokey) "os_primary_key t = []" "primary_key_property t = None"
    | (key) p where "primary_key_property t = Some p" "pr_name p = os_primary_key t" "os_primary_key t \<noteq> []" "pr_primary p"
        "storable p" "\<not> is_array (pr_type p)" "\<not> pt_eq (pr_type p) PT_Object" "to_core_type (pr_type p) \<noteq> None"
    using target_key[OF t] by (cases "os_primary_key t = []") auto
  then show ?thesis
  proof cases
    case nokey
    let ?g = "co_create_table core (table_name_for_object_type (os_name t)) None g"
    obtain hidden where h: "hidden_columns hidden" "gv_version (co_view core ?g) = gv_version ?v" "gv_object_ids (co_view core ?g) = gv_object_ids ?v"
      "class_columns (co_view core ?g) = (class_columns ?v)(os_name t \<mapsto> hidden)" "gv_keys (co_view core ?g) = gv_keys ?v"
      using made[of None] none by auto
    have "create_table core t g = Inr ?g" using nokey by (simp add: create_table_def Let_def)
    moreover have "tidy (co_view core ?g)" using tidy h by (auto simp: tidy_def hidden_columns_def)
    ultimately show ?thesis using h key nokey by (auto simp: table_made_def key_columns_def get_primary_key_for_object_def)
  next
    case (key p)
    then obtain ct where ct: "to_core_type (pr_type p) = Some ct" by blast
    let ?k = "Some (ct, pr_name p, is_nullable (pr_type p))"
    let ?g = "co_create_table core (table_name_for_object_type (os_name t)) ?k g"
    have cf: "column_for p = \<lparr>cc_name = pr_name p, cc_type = ct, cc_nullable = is_nullable (pr_type p), cc_indexed = True\<rparr>"
      using key ct by (simp add: column_for_def Let_def requires_index_def)
    obtain hidden where h: "hidden_columns hidden" "gv_version (co_view core ?g) = gv_version ?v" "gv_object_ids (co_view core ?g) = gv_object_ids ?v"
      "class_columns (co_view core ?g) = (class_columns ?v)(os_name t \<mapsto> hidden @ [column_for p])"
      "gv_keys (co_view core ?g) = set_key_row (os_name t) (pr_name p) (gv_keys ?v)"
      using made[of ?k] none cf by auto
    have c: "create_table core t g = Inr ?g" using key(1) ct by (simp add: create_table_def Let_def)
    have "pr_name p \<noteq> object_id_column_name" using key(5) by (simp add: storable_def)
    then have "distinct (map cc_name (hidden @ [column_for p]))" using h(1) by (auto simp: hidden_columns_def)
    then have "tidy (co_view core ?g)" using tidy h(4,5) set_key_row_split[OF dk] by (auto simp: tidy_def)
    then show ?thesis
      using h c key set_key_row_split[OF dk, of "os_name t" "pr_name p"]
      by (auto simp: table_made_def key_columns_def get_primary_key_for_object_def)
  qed
qed

lemma create_tables_ok:
  assumes core: "core_ok core" and t: "target_ok target"
  shows "set ts \<subseteq> set target \<Longrightarrow> distinct (map os_name ts) \<Longrightarrow> tidy (co_view core g) \<Longrightarrow>
    \<forall>t \<in> set ts. class_columns (co_view core g) (os_name t) = None \<and> get_primary_key_for_object (co_view core g) (os_name t) = [] \<Longrightarrow>
    \<exists>g'. run_changes (initial_step core) (map AddTable ts) g = Inr g' \<and> tidy (co_view core g') \<and>
      (\<forall>t \<in> set ts. table_made (co_view core g') t) \<and>
      gv_version (co_view core g') = gv_version (co_view core g) \<and> gv_object_ids (co_view core g') = gv_object_ids (co_view core g) \<and>
      (\<forall>n. n \<notin> os_name ` set ts \<longrightarrow> class_columns (co_view core g') n = class_columns (co_view core g) n \<and>
         get_primary_key_for_object (co_view core g') n = get_primary_key_for_object (co_view core g) n)"
proof (induction ts arbitrary: g)
  case (Cons t ts)
  have "t \<in> set target" "class_columns (co_view core g) (os_name t) = None" "get_primary_key_for_object (co_view core g) (os_name t) = []"
    using Cons.prems(1,4) by auto
  from create_table_ok[OF core assms(2) this(1) Cons.prems(3) this(2,3)] obtain h where
    h: "create_table core t g = Inr h" "tidy (co_view core h)" "table_made (co_view core h) t"
    "gv_version (co_view core h) = gv_version (co_view core g)" "gv_object_ids (co_view core h) = gv_object_ids (co_view core g)"
    "\<forall>n. n \<noteq> os_name t \<longrightarrow> class_columns (co_view core h) n = class_columns (co_view core g) n \<and>
       get_primary_key_for_object (co_view core h) n = get_primary_key_for_object (co_view core g) n" by blast
  have ne: "\<forall>u \<in> set ts. os_name u \<noteq> os_name t" using Cons.prems(2) by (auto simp: image_iff)
  have "\<forall>t \<in> set ts. class_columns (co_view core h) (os_name t) = None \<and> get_primary_key_for_object (co_view core h) (os_name t) = []"
    using Cons.prems(4) h(6) ne by simp
  then obtain g' where g': "run_changes (initial_step core) (map AddTable ts) h = Inr g'" "tidy (co_view core g')"
    "\<forall>t \<in> set ts. table_made (co_view core g') t" "gv_version (co_view core g') = gv_version (co_view core h)"
    "gv_object_ids (co_view core g') = gv_object_ids (co_view core h)"
    "\<forall>n. n \<notin> os_name ` set ts \<longrightarrow> class_columns (co_view core g') n = class_columns (co_view core h) n \<and>
         get_primary_key_for_object (co_view core g') n = get_primary_key_for_object (co_view core h) n"
    using Cons.IH[OF _ _ h(2)] Cons.prems(1,2) by auto
  have "os_name t \<notin> os_name ` set ts" using ne by auto
  then have "table_made (co_view core g') t" using h(3) g'(6) by (simp add: table_made_def)
  then show ?case using g' h by auto
qed simp

end
