(* ===== verification/SchemaUpdate.thy ===== *)
theory SchemaUpdate
  imports SchemaReady
begin

text \<open>The update of a file class by class, and as a whole.\<close>

section \<open>Ready for each change\<close>

definition prepared :: "group_view \<Rightarrow> group_view \<Rightarrow> schema \<Rightarrow> bool" where
  "prepared v w target \<longleftrightarrow>
     tidy w \<and> \<not> gv_object_ids w \<and>
     (\<forall>n. n \<notin> os_name ` set target \<or> class_columns v n \<noteq> None \<longrightarrow>
        class_columns w n = class_columns v n \<and> get_primary_key_for_object w n = get_primary_key_for_object v n) \<and>
     (\<forall>t \<in> set target. class_columns v (os_name t) = None \<longrightarrow> table_made w t)"

lemma prepared_linked:
  assumes "target_ok target" "prepared v w target" "t \<in> set target" "p \<in> set (os_persisted t)"
  shows "linked w p"
  unfolding linked_def
proof
  assume "pt_eq (pr_type p) PT_Object"
  then obtain u where "u \<in> set target" "os_name u = pr_object_type p" using target_okD(6)[OF assms(1,3,4)] by blast
  then show "class_columns w (pr_object_type p) \<noteq> None"
    using assms(2) unfolding prepared_def table_made_def by (cases "class_columns v (os_name u) = None") auto
qed

lemma retyped_storable:
  assumes p: "requires_index p \<longrightarrow> \<not> is_array (pr_type p) \<and> \<not> pt_eq (pr_type p) PT_Object" "pr_name p \<noteq> object_id_column_name"
    and q: "storable q" "pt_eq (pr_type p) (pr_type q)" "pr_object_type p = pr_object_type q" "is_array (pr_type p) = is_array (pr_type q)"
    and ty: "ty = pr_type q"
  shows "storable (p\<lparr>pr_type := ty\<rparr>)"
proof -
  have "pt_eq (pr_type p) PT_Object = pt_eq (pr_type q) PT_Object" using q(2) by (auto simp: pt_eq_def)
  then show ?thesis using p q ty by (auto simp: storable_def requires_index_def)
qed

lemma object_changes_ready:
  assumes v: "file_ok v" and t: "target_ok target" "t \<in> set target" and e: "e \<in> set (schema_from_group v)" "os_name e = os_name t"
    and w: "prepared v w target" and c: "c \<in> set (object_changes e t)"
  shows "ready c w"
proof -
  obtain cs where cs: "class_columns v (os_name e) = Some cs" "file_object e"
    and stored: "\<And>p. p \<in> set (os_persisted e) \<Longrightarrow> at_column p cs \<and> as_in_file p cs \<and> pr_name p \<noteq> object_id_column_name \<and>
       (requires_index p \<longrightarrow> \<not> is_array (pr_type p) \<and> \<not> pt_eq (pr_type p) PT_Object)"
    and names: "\<And>n. n \<in> cc_name ` set cs \<Longrightarrow> n \<noteq> object_id_column_name \<Longrightarrow> n \<in> pr_name ` set (os_persisted e)"
    using file_schema_objects[OF v e(1)] by metis
  have wcs: "class_columns w (os_name e) = Some cs" using w cs(1) by (simp add: prepared_def)
  have tab: "changed_table c = os_name e" using object_changes_table[OF c] by simp
  have "ready_in c w cs"
    using c
  proof (cases rule: object_changes_cases)
    case (compared p)
    note fp = stored[OF compared(1)]
    show ?thesis
    proof (cases "find (\<lambda>q. pr_name q = pr_name p) (os_persisted t)")
      case None
      then have "compare_property e t p = [RemoveProperty e p]"
        by (auto simp: compare_property_def property_for_name_def property_is_computed_def split: option.splits dest!: find_in_set)
      then show ?thesis using compared(2) fp by simp
    next
      case (Some q)
      then have q: "q \<in> set (os_persisted t)" "pr_name q = pr_name p" by (auto simp: find_Some_iff)
      have nc: "\<not> property_is_computed t q"
        using target_okD(2)[OF t] q(1) by (auto simp: property_is_computed_def property_eq_def target_object_def image_iff)
      note sq = target_okD(5)[OF t q(1)] and lq = prepared_linked[OF t(1) w t(2) q(1)]
      show ?thesis
      proof (cases "\<not> pt_eq (pr_type p) (pr_type q) \<or> pr_object_type p \<noteq> pr_object_type q \<or> is_array (pr_type p) \<noteq> is_array (pr_type q)")
        case True
        then show ?thesis using compared(2) Some nc fp q sq lq by (simp add: compare_property_def property_for_name_def)
      next
        case False
        then have same: "pt_eq (pr_type p) (pr_type q)" "pr_object_type p = pr_object_type q" "is_array (pr_type p) = is_array (pr_type q)"
          by auto
        note ch = change_nullable[OF same(1,3)]
        have st: "storable (p\<lparr>pr_type := ty\<rparr>) \<and> linked w (p\<lparr>pr_type := ty\<rparr>)" if "ty = pr_type q" for ty
          using retyped_storable[OF _ _ sq same that] fp lq same(2) that by (simp add: linked_def)
        show ?thesis
          using compared(2) Some nc fp same ch st
          by (auto simp: compare_property_def property_for_name_def Let_def split: if_splits)
      qed
    qed
  next
    case key
    then show ?thesis using w by (simp add: prepared_def)
  next
    case (added q)
    have "pr_name q \<notin> pr_name ` set (os_persisted e)" using added(2) file_property_None[OF cs(2)] by simp
    moreover have "pr_name q \<noteq> object_id_column_name" using target_okD(5)[OF t added(1)] by (simp add: storable_def)
    ultimately show ?thesis using added names target_okD(5)[OF t added(1)] prepared_linked[OF t(1) w t(2) added(1)] by auto
  qed
  then show ?thesis using wcs tab by (simp add: ready_def)
qed

lemma key_column_names:
  assumes "target_ok target" "t \<in> set target" "hidden_columns hidden" "n \<in> cc_name ` set (hidden @ key_columns t)"
  shows "n = object_id_column_name \<or> n = os_primary_key t"
  using target_key[OF assms(1,2)] assms(3,4) by (auto simp: key_columns_def hidden_columns_def)

lemma new_class_ready:
  assumes t: "target_ok target" "t \<in> set target" and w: "prepared v w target" and none: "class_columns v (os_name t) = None"
    and c: "c \<in> set (map (AddProperty t) (filter (\<lambda>p. \<not> pr_primary p) (os_persisted t)))"
  shows "ready c w"
proof -
  obtain p where p: "c = AddProperty t p" "p \<in> set (os_persisted t)" "\<not> pr_primary p" using c by auto
  obtain hidden where h: "hidden_columns hidden" "class_columns w (os_name t) = Some (hidden @ key_columns t)"
    using w t(2) none by (auto simp: prepared_def table_made_def)
  have "pr_name p \<noteq> []" using target_okD(7)[OF t] p(2) by (metis UnI1 imageI)
  then have "pr_name p \<noteq> [] \<and> pr_name p \<noteq> os_primary_key t" using target_okD(3)[OF t] p by (auto simp: keyed_def)
  moreover have "pr_name p \<noteq> object_id_column_name" using target_okD(5)[OF t p(2)] by (simp add: storable_def)
  ultimately have "pr_name p \<notin> cc_name ` set (hidden @ key_columns t)" using key_column_names[OF t h(1)] by blast
  then show ?thesis
    using h(2) p target_okD(5)[OF t p(2)] prepared_linked[OF t(1) w t(2) p(2)] by (simp add: ready_def del: set_append)
qed

section \<open>The result for each class\<close>

lemma column_map_hidden: "hidden_columns h \<Longrightarrow> column_map h n = None"
  by (auto simp: column_map_def find_Some_iff hidden_columns_def read_column_def property_for_column_def split: option.splits)

lemma key_column_map:
  assumes t: "target_ok target" "t \<in> set target" and h: "hidden_columns hidden"
  shows "column_map (hidden @ key_columns t) n =
    (if n \<in> pr_name ` set (filter pr_primary (os_persisted t)) then columns_of target_column (os_persisted t) n else None)"
proof -
  have k: "pr_primary p \<longleftrightarrow> os_primary_key t \<noteq> [] \<and> pr_name p = os_primary_key t" if "p \<in> set (os_persisted t)" for p
    using target_okD(3)[OF t] that by (simp add: keyed_def)
  show ?thesis
  proof (cases "os_primary_key t = []")
    case True
    then have "key_columns t = []" using target_key[OF t] by (auto simp: key_columns_def)
    then show ?thesis using column_map_hidden[OF h] k True by auto
  next
    case False
    then obtain p where p: "p \<in> set (os_persisted t)" "primary_key_property t = Some p" "pr_name p = os_primary_key t" "pr_primary p" "storable p"
      using target_key[OF t] by auto
    have "pr_name p \<noteq> object_id_column_name" using p(5) by (simp add: storable_def)
    then have "cc_name (column_for p) \<notin> cc_name ` set hidden" using h by (auto simp: hidden_columns_def)
    from column_map_snoc[OF this] have m: "column_map (hidden @ key_columns t) = (column_map hidden)(pr_name p := Some (target_column p))"
      using p(2,5) read_column_for by (simp add: key_columns_def)
    have "columns_of target_column (os_persisted t) (pr_name p) = Some (target_column p)"
      by (rule columns_of_some[OF target_okD(8)[OF t] p(1)])
    moreover have "n \<in> pr_name ` set (filter pr_primary (os_persisted t)) \<longleftrightarrow> n = pr_name p" using k p by force
    ultimately show ?thesis using m column_map_hidden[OF h] by auto
  qed
qed

lemma new_class_result:
  assumes t: "target_ok target" "t \<in> set target" and h: "hidden_columns hidden"
  shows "fold table_effect (map (AddProperty t) (filter (\<lambda>p. \<not> pr_primary p) (os_persisted t)))
      (os_primary_key t, column_map (hidden @ key_columns t)) = table_of target_column t"
proof -
  let ?ps = "os_persisted t"
  let ?new = "filter (\<lambda>p. \<not> pr_primary p) ?ps"
  have d: "distinct (map pr_name ?ps)" by (rule target_okD(8)[OF t])
  have "(\<lambda>n. if n \<in> pr_name ` set ?new then columns_of target_column ?new n else column_map (hidden @ key_columns t) n) =
      columns_of target_column ?ps"
  proof
    fix n
    show "(if n \<in> pr_name ` set ?new then columns_of target_column ?new n else column_map (hidden @ key_columns t) n) =
        columns_of target_column ?ps n"
    proof (cases "n \<in> pr_name ` set ?ps")
      case True
      then have "n \<in> pr_name ` set ?new \<or> n \<in> pr_name ` set (filter pr_primary ?ps)" by auto
      then show ?thesis using columns_of_filter[OF _ d, of n] key_column_map[OF t h, of n] by auto
    next
      case False
      then show ?thesis using key_column_map[OF t h, of n] columns_of_none[OF False] by auto
    qed
  qed
  then show ?thesis using added_columns[OF distinct_map_filter[OF d]] by (simp add: table_of_def)
qed

lemma pair_members:
  assumes "sorted_schema target" "sorted_schema s" "m \<in> set (zip_matching target s)"
  shows "fst m = find_object (pair_name m) target" and "snd m = find_object (pair_name m) s"
  using zip_matching_pairs[OF assms(1,2)] assms(3) by (metis fst_conv, metis snd_conv)

lemma pair_steps_ok:
  assumes v: "file_ok v" and t: "target_ok target" and w: "prepared v w target"
    and m: "m \<in> set (zip_matching target (schema_from_group v))"
  shows "\<forall>c \<in> set (pair_steps m). ready c w"
    and "map_option (fold table_effect (pair_steps m)) (view_catalogue w (pair_name m)) =
      (case fst m of Some t \<Rightarrow> Some (table_of target_column t) | None \<Rightarrow> view_catalogue v (pair_name m))"
proof -
  let ?s = "schema_from_group v"
  note d = file_okD(1)[OF v]
  have sorted: "sorted_schema target" "sorted_schema ?s" using t schema_from_group_sorted[OF d] by (auto simp: target_ok_def)
  note mm = pair_members[OF sorted m]
  have eq: "m = (fst m, snd m)" by simp
  consider (none) "fst m = None" | (new) a where "fst m = Some a" "snd m = None" | (both) a b where "fst m = Some a" "snd m = Some b"
    by (cases "fst m"; cases "snd m") auto
  then have "(\<forall>c \<in> set (pair_steps m). ready c w) \<and> map_option (fold table_effect (pair_steps m)) (view_catalogue w (pair_name m)) =
      (case fst m of Some t \<Rightarrow> Some (table_of target_column t) | None \<Rightarrow> view_catalogue v (pair_name m))"
  proof cases
    case none
    then have "pair_name m \<notin> os_name ` set target"
      using mm(1) find_object_some[OF sorted_schema_distinct[OF sorted(1)]] by (metis imageE option.distinct(1))
    then have "view_catalogue w (pair_name m) = view_catalogue v (pair_name m)" using w by (simp add: view_catalogue_def prepared_def)
    moreover have "pair_steps m = []" using none eq pair_steps_cases(3) by metis
    ultimately show ?thesis using none by (simp add: option.map_id)
  next
    case (new a)
    have a: "a \<in> set target" "os_name a = pair_name m" using mm(1) new(1) find_object_Some by auto
    have none: "class_columns v (os_name a) = None" using mm(2) new(2) find_from_group[OF d] a(2) by simp
    have ps: "pair_steps m = map (AddProperty a) (filter (\<lambda>p. \<not> pr_primary p) (os_persisted a))"
      using new eq pair_steps_cases(2) by metis
    obtain hidden where h: "hidden_columns hidden" "class_columns w (os_name a) = Some (hidden @ key_columns a)"
      "get_primary_key_for_object w (os_name a) = os_primary_key a"
      using w a none by (auto simp: prepared_def table_made_def)
    then have "view_catalogue w (pair_name m) = Some (os_primary_key a, column_map (hidden @ key_columns a))" using a by (simp add: view_catalogue_def)
    then show ?thesis using new_class_ready[OF t a(1) w none] new_class_result[OF t a(1) h(1)] ps new(1) by simp
  next
    case (both a b)
    have a: "a \<in> set target" "os_name a = pair_name m" and b: "b \<in> set ?s" "os_name b = pair_name m"
      using mm both find_object_Some by metis+
    have ps: "pair_steps m = object_changes b a" using both eq pair_steps_cases(1) by metis
    obtain cs where cs: "class_columns v (os_name b) = Some cs" "file_object b"
      "os_primary_key b = get_primary_key_for_object v (os_name b)" "columns_of file_column (os_persisted b) = column_map cs"
      using file_schema_objects[OF v b(1)] by metis
    then have "view_catalogue w (pair_name m) = Some (table_of file_column b)"
      using w b(2) by (simp add: view_catalogue_def prepared_def table_of_def)
    moreover have "fold table_effect (object_changes b a) (table_of file_column b) = table_of target_column a"
      by (rule object_changes_effect[OF cs(2) target_okD(2)[OF t a(1)]])
    ultimately show ?thesis using object_changes_ready[OF v t a(1) b(1) _ w] a b ps both(1) by simp
  qed
  then show "\<forall>c \<in> set (pair_steps m). ready c w"
    and "map_option (fold table_effect (pair_steps m)) (view_catalogue w (pair_name m)) =
      (case fst m of Some t \<Rightarrow> Some (table_of target_column t) | None \<Rightarrow> view_catalogue v (pair_name m))" by blast+
qed

end
