(* ===== verification/SchemaMigrate.thy ===== *)
theory SchemaMigrate
  imports SchemaUpdate
begin

text \<open>The lists of changes that an update makes, one after the other, and what the file has in the end.\<close>

section \<open>Lists of steps\<close>

lemma run_changes_append:
  "run_changes f (xs @ ys) g = (case run_changes f xs g of Inl e \<Rightarrow> Inl e | Inr h \<Rightarrow> run_changes f ys h)"
  by (induction xs arbitrary: g) (auto split: sum.splits)

lemma run_simple: "run_changes (initial_step core) (concat (map simple_changes xs)) g = run_changes (initial_step core) xs g"
proof (induction xs arbitrary: g)
  case (Cons c xs)
  have "run_changes (initial_step core) (map (AddProperty os) (filter (\<lambda>p. \<not> pr_primary p) ps)) g =
      run_changes (\<lambda>p. if pr_primary p then Inr else add_column core (os_name os) p) ps g" for os ps g
    by (induction ps arbitrary: g) (auto split: sum.splits)
  then have "run_changes (initial_step core) (simple_changes c) g = initial_step core c g" for g
    by (cases c) (auto simp: add_initial_columns_def split: sum.splits)
  then show ?case using Cons by (simp add: run_changes_append split: sum.splits)
qed simp

lemma sorted_wrt_either: "sorted_wrt R xs \<Longrightarrow> x \<in> set xs \<Longrightarrow> y \<in> set xs \<Longrightarrow> x \<noteq> y \<Longrightarrow> R x y \<or> R y x"
  by (induction xs) auto

lemma sorted_wrt_both: "sorted_wrt R xs \<Longrightarrow> sorted_wrt Q xs \<Longrightarrow> sorted_wrt (\<lambda>x y. R x y \<and> Q x y) xs"
  by (induction xs) auto

lemma sorted_wrt_distinct: "sorted_wrt R xs \<Longrightarrow> \<forall>x \<in> set xs. \<not> R x x \<Longrightarrow> distinct xs"
  by (induction xs) auto

lemma simple_keeps_order: "is_not_remove_property d \<Longrightarrow> c \<in> set (simple_changes d) \<Longrightarrow> is_not_remove_property c"
  by (cases d) auto

lemma filter_simple:
  "concat (map simple_changes (filter is_not_remove_property xs)) = filter is_not_remove_property (concat (map simple_changes xs))"
proof (induction xs)
  case (Cons c xs)
  have "filter is_not_remove_property (simple_changes c) = (if is_not_remove_property c then simple_changes c else [])"
    by (cases c) (auto simp: filter_id_conv)
  then show ?case using Cons by simp
qed simp

section \<open>An update\<close>

definition new_classes :: "(object_schema option \<times> object_schema option) list \<Rightarrow> object_schema list" where
  "new_classes ms = List.map_filter (\<lambda>m. if snd m = None then fst m else None) ms"

lemma new_tables: "concat (map (table_change False) ms) = map AddTable (new_classes ms)"
proof (induction ms)
  case (Cons m ms)
  obtain t e where "m = (t, e)" by (cases m)
  then show ?case using Cons by (cases t; cases e) (simp_all add: new_classes_def List.map_filter_simps)
qed (simp add: new_classes_def List.map_filter_simps)

lemma new_classes_set: "t \<in> set (new_classes ms) \<longleftrightarrow> (Some t, None) \<in> set ms"
proof -
  have "m = (Some t, None) \<longleftrightarrow> (if snd m = None then fst m else None) = Some t" for m :: "object_schema option \<times> object_schema option"
    by (cases m) auto
  then show ?thesis unfolding new_classes_def in_map_filter by metis
qed

lemma new_classes_names: "distinct (map pair_name ms) \<Longrightarrow> distinct (map os_name (new_classes ms))"
proof (induction ms)
  case (Cons m ms)
  have "os_name t \<in> pair_name ` set ms" if "t \<in> set (new_classes ms)" for t
    using that unfolding new_classes_set by (force simp: image_iff)
  moreover obtain t e where "m = (t, e)" by (cases m)
  ultimately show ?case using Cons by (cases t; cases e) (auto simp: new_classes_def List.map_filter_simps)
qed (simp add: new_classes_def List.map_filter_simps)

text \<open>What a file and a target have to do with each other in an update, and the names for its parts.\<close>

definition update_pairs :: "group_view \<Rightarrow> schema \<Rightarrow> (object_schema option \<times> object_schema option) list" where
  "update_pairs v target = zip_matching target (schema_from_group v)"

definition update_steps :: "group_view \<Rightarrow> schema \<Rightarrow> schema_change list" where
  "update_steps v target = concat (map pair_steps (update_pairs v target))"

definition updated_catalogue :: "group_view \<Rightarrow> schema \<Rightarrow> catalogue" where
  "updated_catalogue v target n = (case find_object n target of Some t \<Rightarrow> Some (table_of target_column t) | None \<Rightarrow> view_catalogue v n)"

lemma update_pairs_facts:
  assumes v: "file_ok v" and t: "target_ok target"
  shows "distinct (map pair_name (update_pairs v target))" and "m \<in> set (update_pairs v target) \<Longrightarrow> well_paired m"
    and "m \<in> set (update_pairs v target) \<Longrightarrow> fst m = find_object (pair_name m) target \<and> snd m = find_object (pair_name m) (schema_from_group v)"
    and "t \<in> set target \<Longrightarrow> \<exists>m \<in> set (update_pairs v target). pair_name m = os_name t"
    and "n \<in> pair_name ` set (update_pairs v target) \<or> find_object n target = None"
proof -
  have sorted: "sorted_schema target" "sorted_schema (schema_from_group v)"
    using t schema_from_group_sorted[OF file_okD(1)[OF v]] by (auto simp: target_ok_def)
  note z = zip_matching_pairs[OF sorted]
  show "distinct (map pair_name (update_pairs v target))" using z by (simp add: update_pairs_def)
  have f: "\<forall>os \<in> set (schema_from_group v). file_object os" using file_schema_objects[OF v] by metis
  have o: "\<forall>os \<in> set target. target_object os" using target_okD(2)[OF t] by blast
  show "m \<in> set (update_pairs v target) \<Longrightarrow> well_paired m" using zip_well_paired[OF sorted o f] by (simp add: update_pairs_def)
  show "m \<in> set (update_pairs v target) \<Longrightarrow> fst m = find_object (pair_name m) target \<and> snd m = find_object (pair_name m) (schema_from_group v)"
    using pair_members[OF sorted] by (simp add: update_pairs_def)
  have n: "pair_name ` set (update_pairs v target) = os_name ` set target \<union> os_name ` set (schema_from_group v)"
    using z by (simp add: update_pairs_def)
  show "\<exists>m \<in> set (update_pairs v target). pair_name m = os_name t" if "t \<in> set target"
  proof -
    have "os_name t \<in> pair_name ` set (update_pairs v target)" using n that by simp
    then show ?thesis by (metis imageE)
  qed
  show "n \<in> pair_name ` set (update_pairs v target) \<or> find_object n target = None"
    using n find_object_none[of n target] by (cases "n \<in> os_name ` set target") simp_all
qed

lemma tables_made:
  assumes core: "core_ok core" and v: "file_ok (co_view core g)" and t: "target_ok target"
  shows "\<exists>g'. run_changes (initial_step core) (map AddTable (new_classes (update_pairs (co_view core g) target))) g = Inr g' \<and>
    prepared (co_view core g) (co_view core g') target \<and> gv_version (co_view core g') = gv_version (co_view core g)"
proof -
  let ?v = "co_view core g" and ?ts = "new_classes (update_pairs (co_view core g) target)"
  note p = update_pairs_facts[OF v t]
  have new: "t' \<in> set ?ts \<longleftrightarrow> t' \<in> set target \<and> class_columns ?v (os_name t') = None" for t'
  proof
    assume "t' \<in> set ?ts"
    then have "(Some t', None) \<in> set (update_pairs ?v target)" by (simp add: new_classes_set)
    from p(3)[OF this] show "t' \<in> set target \<and> class_columns ?v (os_name t') = None"
      using find_object_Some[of "os_name t'" target t'] find_from_group[OF file_okD(1)[OF v], of "os_name t'"] by auto
  next
    assume a: "t' \<in> set target \<and> class_columns ?v (os_name t') = None"
    then obtain m where m: "m \<in> set (update_pairs ?v target)" "pair_name m = os_name t'" using p(4) by blast
    have "sorted_schema target" using t by (simp add: target_ok_def)
    then have "find_object (os_name t') target = Some t'" using a find_object_some[OF sorted_schema_distinct] by blast
    moreover have "find_object (os_name t') (schema_from_group ?v) = None" using find_from_group[OF file_okD(1)[OF v]] a by simp
    ultimately have "m = (Some t', None)" using p(3)[OF m(1)] m(2) by (metis prod.collapse)
    then show "t' \<in> set ?ts" using m(1) by (simp add: new_classes_set)
  qed
  have "set ?ts \<subseteq> set target" "\<forall>t \<in> set ?ts. class_columns ?v (os_name t) = None \<and> get_primary_key_for_object ?v (os_name t) = []"
    using new file_okD(3)[OF v] by auto
  from create_tables_ok[OF core t this(1) new_classes_names[OF p(1)] file_okD(2)[OF v] this(2)] obtain g' where
    g': "run_changes (initial_step core) (map AddTable ?ts) g = Inr g'" "tidy (co_view core g')" "\<forall>t \<in> set ?ts. table_made (co_view core g') t"
    "gv_version (co_view core g') = gv_version ?v" "gv_object_ids (co_view core g') = gv_object_ids ?v"
    "\<forall>n. n \<notin> os_name ` set ?ts \<longrightarrow> class_columns (co_view core g') n = class_columns ?v n \<and>
       get_primary_key_for_object (co_view core g') n = get_primary_key_for_object ?v n" by blast
  have "prepared ?v (co_view core g') target"
    unfolding prepared_def
  proof (intro conjI allI ballI impI)
    show "tidy (co_view core g')" "\<not> gv_object_ids (co_view core g')" using g'(2,5) file_okD(5)[OF v] by simp_all
    fix n assume "n \<notin> os_name ` set target \<or> class_columns ?v n \<noteq> None"
    then have "n \<notin> os_name ` set ?ts" using new by auto
    then show "class_columns (co_view core g') n = class_columns ?v n" "get_primary_key_for_object (co_view core g') n = get_primary_key_for_object ?v n"
      using g'(6) by simp_all
  next
    fix u assume "u \<in> set target" "class_columns ?v (os_name u) = None"
    then show "table_made (co_view core g') u" using g'(3) new by blast
  qed
  then show ?thesis using g' by blast
qed

lemma update_steps_facts:
  assumes v: "file_ok v" and t: "target_ok target"
  shows "sorted_wrt apart (update_steps v target)" and "c \<in> set (update_steps v target) \<Longrightarrow> within_table c"
    and "prepared v w target \<Longrightarrow> c \<in> set (update_steps v target) \<Longrightarrow> ready c w"
    and "prepared v w target \<Longrightarrow> fold apply_change (update_steps v target) (view_catalogue w) = updated_catalogue v target"
proof -
  note p = update_pairs_facts[OF v t]
  have wp: "\<forall>m \<in> set (update_pairs v target). well_paired m" using p(2) by blast
  show "sorted_wrt apart (update_steps v target)" unfolding update_steps_def by (rule pairs_apart[OF p(1) wp])
  show "c \<in> set (update_steps v target) \<Longrightarrow> within_table c" using pair_steps_apart(2)[OF p(2)] by (auto simp: update_steps_def)
  show "prepared v w target \<Longrightarrow> c \<in> set (update_steps v target) \<Longrightarrow> ready c w"
    using pair_steps_ok(1)[OF v t] by (auto simp: update_steps_def update_pairs_def)
  show "fold apply_change (update_steps v target) (view_catalogue w) = updated_catalogue v target" if w: "prepared v w target"
  proof
    fix n
    let ?ms = "update_pairs v target"
    have one: "fold apply_change (pair_steps m) cat = cat(pair_name m := map_option (fold table_effect (pair_steps m)) (cat (pair_name m)))"
      if "m \<in> set ?ms" for m cat
      by (rule fold_within_table) (use pair_steps_apart(2)[OF p(2)[OF that]] within_keeps in blast)
    have f: "(\<forall>m \<in> set ?ms. fold apply_change (update_steps v target) (view_catalogue w) (pair_name m) =
        map_option (fold table_effect (pair_steps m)) (view_catalogue w (pair_name m))) \<and>
      (\<forall>n. n \<notin> pair_name ` set ?ms \<longrightarrow> fold apply_change (update_steps v target) (view_catalogue w) n = view_catalogue w n)"
      unfolding update_steps_def by (rule fold_pairs) (use one p(1) in simp_all)
    show "fold apply_change (update_steps v target) (view_catalogue w) n = updated_catalogue v target n"
    proof (cases "n \<in> pair_name ` set ?ms")
      case True
      then obtain m where m: "m \<in> set ?ms" "n = pair_name m" by auto
      then have "fold apply_change (update_steps v target) (view_catalogue w) n =
          (case fst m of Some t \<Rightarrow> Some (table_of target_column t) | None \<Rightarrow> view_catalogue v n)"
        unfolding m(2) using f pair_steps_ok(2)[OF v t w, of m] m(1) by (simp add: update_pairs_def)
      moreover have "fst m = find_object n target" using p(3)[OF m(1)] m(2) by simp
      ultimately show ?thesis by (simp add: updated_catalogue_def)
    next
      case False
      then have none: "find_object n target = None" using p(5) by blast
      have "n \<notin> os_name ` set target"
      proof
        assume "n \<in> os_name ` set target"
        then obtain u where "u \<in> set target" "n = os_name u" by auto
        then obtain m where "m \<in> set ?ms" "pair_name m = n" using p(4)[of u] by blast
        then show False using False imageI[of m "set ?ms" pair_name] by simp
      qed
      then have "view_catalogue w n = view_catalogue v n" using w by (simp add: prepared_def view_catalogue_def)
      then show ?thesis using f False none by (simp add: updated_catalogue_def)
    qed
  qed
qed

lemma update_steps_commute:
  assumes v: "file_ok v" and t: "target_ok target" and m: "mset xs = mset (update_steps v target)"
  shows "fold apply_change xs = fold apply_change (update_steps v target)"
proof (rule fold_multiset_equiv[OF _ m])
  note f = update_steps_facts[OF v t]
  fix c d assume "c \<in> set xs" "d \<in> set xs"
  then have cd: "c \<in> set (update_steps v target)" "d \<in> set (update_steps v target)" using mset_eq_setD[OF m] by auto
  have w: "within_table c" "within_table d" using f(2) cd by blast+
  have "c = d \<or> apart c d \<or> apart d c" using sorted_wrt_either[OF f(1) cd] by blast
  then have "changed_table c = changed_table d \<Longrightarrow> c = d \<or> independent c d \<and> within_table c \<and> within_table d"
    using w by (auto simp: apart_def independent_def)
  then show "apply_change c \<circ> apply_change d = apply_change d \<circ> apply_change c"
    by (rule apply_change_commute[OF within_keeps[OF w(1)] within_keeps[OF w(2)]])
qed


text \<open>The list that \<open>compare\<close> returns, applied by the functions of the object store.\<close>

section \<open>The parts of the list\<close>

lemma removals_simple: "filter (\<lambda>c. \<not> is_not_remove_property c) (concat (map simple_changes xs)) = filter (\<lambda>c. \<not> is_not_remove_property c) xs"
proof (induction xs)
  case (Cons c xs)
  have "filter (\<lambda>c. \<not> is_not_remove_property c) (simple_changes c) = (if is_not_remove_property c then [] else [c])"
    by (cases c) (auto simp: filter_empty_conv)
  then show ?case using Cons by simp
qed simp

lemma update_steps_simple: "update_steps v target = concat (map simple_changes (concat (map pair_changes (update_pairs v target))))"
proof -
  have "concat (map pair_steps ms) = concat (map simple_changes (concat (map pair_changes ms)))" for ms
    by (induction ms) (simp_all add: pair_steps_def)
  then show ?thesis by (simp add: update_steps_def)
qed

definition parts_of :: "group_view \<Rightarrow> schema \<Rightarrow> schema_change list \<Rightarrow> schema_change list \<Rightarrow> schema_change list \<Rightarrow> bool" where
  "parts_of v target as rs ys \<longleftrightarrow>
     concat (map simple_changes (as @ ys)) = filter is_not_remove_property (update_steps v target) \<and>
     mset rs = mset (filter (\<lambda>c. \<not> is_not_remove_property c) (update_steps v target)) \<and>
     sorted_wrt (\<lambda>c d. get_removed_column d \<le> get_removed_column c) rs \<and>
     (\<forall>c \<in> set as \<union> set ys. is_not_remove_property c \<and> c \<in> set (concat (map pair_changes (update_pairs v target)))) \<and>
     (\<forall>c \<in> set ys. \<exists>t. c = AddInitialProperties t)"

lemma compare_parts:
  assumes part: "partition_stable part"
  shows "\<exists>as rs ys. schema_compare part (schema_from_group v) target False =
      map AddTable (new_classes (update_pairs v target)) @ as @ rs @ ys \<and> parts_of v target as rs ys"
proof -
  let ?P = is_not_remove_property
  let ?pre = "map AddTable (new_classes (update_pairs v target))" and ?L = "concat (map pair_changes (update_pairs v target))"
  have "shaped ?pre ?L (schema_compare part (schema_from_group v) target False)"
    using compare_shaped[OF part, of target "schema_from_group v"] by (simp add: new_tables update_pairs_def)
  then obtain as rs ys where c: "schema_compare part (schema_from_group v) target False = as @ rs @ ys"
    "\<forall>c \<in> set as. ?P c" "\<forall>c \<in> set ys. \<exists>t. c = AddInitialProperties t"
    "sorted_wrt (\<lambda>c d. get_removed_column d \<le> get_removed_column c) rs"
    "as @ ys = ?pre @ filter ?P ?L" "mset rs = mset (filter (\<lambda>c. \<not> ?P c) ?L)" unfolding shaped_def by blast
  have "\<exists>as'. as = ?pre @ as' \<and> as' @ ys = filter ?P ?L"
  proof -
    obtain us where "(as @ us = ?pre \<and> ys = us @ filter ?P ?L) \<or> (as = ?pre @ us \<and> us @ ys = filter ?P ?L)"
      using c(5) by (auto simp: append_eq_append_conv2)
    then consider (short) "as @ us = ?pre" "ys = us @ filter ?P ?L" | (long) "as = ?pre @ us" "us @ ys = filter ?P ?L" by blast
    then show ?thesis
    proof cases
      case short
      have "us = []"
      proof (cases us)
        case (Cons u us')
        then have "u \<in> set ys" "u \<in> set ?pre" using short by (auto, metis in_set_conv_decomp set_map)
        then show ?thesis using c(3) by auto
      qed
      then show ?thesis using short by auto
    qed blast
  qed
  then obtain as' where a: "as = ?pre @ as'" "as' @ ys = filter ?P ?L" by blast
  have "set as' \<union> set ys = set (filter ?P ?L)" using arg_cong[OF a(2), of set] by simp
  then have "parts_of v target as' rs ys"
    unfolding parts_of_def using c(3,4,6) a(2) by (simp add: update_steps_simple filter_simple removals_simple)
  then show ?thesis using c(1) a(1) by auto
qed

section \<open>The order of the steps\<close>

lemma removal_cases: "\<not> is_not_remove_property c \<Longrightarrow> \<exists>os p. c = RemoveProperty os p"
  by (cases c) auto

lemma not_apart_self: "\<not> is_not_remove_property c \<Longrightarrow> \<not> apart c c"
  by (cases c) (auto simp: apart_def)

lemma parts_ordered:
  assumes v: "file_ok v" and t: "target_ok target" and w: "prepared v w target" and p: "parts_of v target as rs ys"
  shows "sorted_wrt may_follow (concat (map simple_changes (as @ ys)) @ rs)"
    and "sorted_wrt may_follow (concat (map simple_changes as) @ rs @ concat (map simple_changes ys))"
    and "mset (concat (map simple_changes (as @ ys)) @ rs) = mset (update_steps v target)"
    and "\<forall>c \<in> set (concat (map simple_changes (as @ ys)) @ rs). within_table c \<and> ready c w"
    and "\<forall>c \<in> set (concat (map simple_changes (as @ ys))). is_not_remove_property c"
proof -
  let ?P = is_not_remove_property and ?U = "update_steps v target"
  let ?F = "concat (map simple_changes (as @ ys))"
  note f = update_steps_facts[OF v t]
  have F: "?F = filter ?P ?U" and R: "mset rs = mset (filter (\<lambda>c. \<not> ?P c) ?U)" using p by (auto simp: parts_of_def)
  have setR: "set rs = set (filter (\<lambda>c. \<not> ?P c) ?U)" by (rule mset_eq_setD[OF R])
  show m: "mset (?F @ rs) = mset ?U" using R by (simp only: F) simp
  then have setU: "set (?F @ rs) = set ?U" by (rule mset_eq_setD)
  show rd: "\<forall>c \<in> set (?F @ rs). within_table c \<and> ready c w" unfolding setU using f(2,3) w by blast
  show FP: "\<forall>c \<in> set ?F. ?P c" by (simp only: F) simp
  have either: "apart c d \<or> apart d c" if "c \<in> set ?U" "d \<in> set ?U" "c \<noteq> d" for c d
    using sorted_wrt_either[OF f(1) that] .
  have fr: "may_follow c d" if "c \<in> set ?F" "d \<in> set rs" for c d
  proof -
    have "?P c" "\<not> ?P d" "c \<in> set ?U" "d \<in> set ?U" using FP that setR setU by auto
    moreover from this have "\<not> about_index d" "\<not> about_null d" by (cases d; simp)+
    ultimately show ?thesis using either[of c d] unfolding apart_def may_follow_def by metis
  qed
  have ff: "sorted_wrt may_follow ?F"
    using sorted_wrt_filter[OF f(1), of ?P] unfolding F[symmetric]
    by (rule sorted_wrt_mono_rel[rotated]) (use FP apart_may_follow in blast)
  have rr: "sorted_wrt may_follow rs"
  proof -
    have "\<not> apart c c" if "c \<in> set (filter (\<lambda>c. \<not> ?P c) ?U)" for c using that not_apart_self by simp
    then have "distinct (filter (\<lambda>c. \<not> ?P c) ?U)"
      using sorted_wrt_distinct[OF sorted_wrt_filter[OF f(1), of "\<lambda>c. \<not> ?P c"]] by blast
    then have "distinct rs" using R by (metis mset_eq_imp_distinct_iff)
    then have "sorted_wrt (\<lambda>c d. c \<noteq> d) rs" using distinct_sorted_wrt[of id rs] by simp
    moreover have "sorted_wrt (\<lambda>c d. get_removed_column d \<le> get_removed_column c) rs" using p by (simp add: parts_of_def)
    ultimately have "sorted_wrt (\<lambda>c d. c \<noteq> d \<and> get_removed_column d \<le> get_removed_column c) rs" by (rule sorted_wrt_both)
    then show ?thesis
    proof (rule sorted_wrt_mono_rel[rotated])
      fix c d assume cd: "c \<in> set rs" "d \<in> set rs" "c \<noteq> d \<and> get_removed_column d \<le> get_removed_column c"
      then have "\<not> ?P c" "\<not> ?P d" using setR by auto
      then obtain os q os' q' where rm: "c = RemoveProperty os q" "d = RemoveProperty os' q'" using removal_cases by metis
      show "may_follow c d"
        unfolding may_follow_def
      proof
        assume tab: "changed_table c = changed_table d"
        have U: "c \<in> set ?U" "d \<in> set ?U" using cd(1,2) setR by auto
        have col: "pr_name q \<noteq> pr_name q'" using either[OF U] cd(3) tab rm by (auto simp: apart_def)
        have "ready c w" "ready d w" using rd cd(1,2) by auto
        then have "column_position q \<noteq> column_position q'"
          using col tab rm by (auto simp: ready_def at_column_def split: option.splits)
        then have "get_removed_column d \<noteq> get_removed_column c" using rm by (auto simp: column_position_def)
        then have "get_removed_column d < get_removed_column c" using cd(3) by (metis order_le_less)
        then show "(changed_column c \<noteq> changed_column d \<or> about_null c \<and> about_index d) \<and>
            (?P c \<or> \<not> ?P d \<and> get_removed_column d < get_removed_column c)" using col rm by simp
      qed
    qed
  qed
  show "sorted_wrt may_follow (?F @ rs)" using ff rr fr by (simp only: sorted_wrt_append) blast
  have ry: "may_follow c d" if c: "c \<in> set rs" and d: "d \<in> set (concat (map simple_changes ys))" for c d
  proof -
    obtain y where y: "y \<in> set ys" "d \<in> set (simple_changes y)" using d by auto
    then have "\<exists>u. y = AddInitialProperties u" "y \<in> set (concat (map pair_changes (update_pairs v target)))"
      using p unfolding parts_of_def by blast+
    then obtain u m where u: "y = AddInitialProperties u" "m \<in> set (update_pairs v target)" "y \<in> set (pair_changes m)"
      unfolding set_concat set_map by blast
    obtain a b where m: "m = (a, b)" by (cases m)
    have "within_table z \<and> z \<noteq> y" if "z \<in> set (object_changes e t')" for z e t' using object_changes_table[OF that] u(1) by auto
    then have "pair_changes m = [y]" using u(3) m by (cases a; cases b) auto
    then have ps: "pair_steps m = simple_changes y" by (simp add: pair_steps_def)
    obtain m' where m': "m' \<in> set (update_pairs v target)" "c \<in> set (pair_steps m')" using c setR by (auto simp: update_steps_def)
    have tabs: "changed_table c = pair_name m'" "changed_table d = pair_name m"
      using pair_steps_apart(2)[OF update_pairs_facts(2)[OF v t m'(1)]] pair_steps_apart(2)[OF update_pairs_facts(2)[OF v t u(2)]] m'(2) y(2) ps by auto
    have "changed_table c \<noteq> changed_table d"
    proof
      assume "changed_table c = changed_table d"
      then have "m' = m" using distinct_names_eq[OF update_pairs_facts(1)[OF v t] m'(1) u(2)] tabs by simp
      then have "?P c" using m'(2) ps u(1) by auto
      then show False using c setR by auto
    qed
    then show ?thesis by (simp add: may_follow_def)
  qed
  have "?F = concat (map simple_changes as) @ concat (map simple_changes ys)" by simp
  then show "sorted_wrt may_follow (concat (map simple_changes as) @ rs @ concat (map simple_changes ys))"
    using ff rr fr ry by (simp only: sorted_wrt_append set_append) blast
qed

section \<open>Up to date\<close>

definition up_to_date :: "group_view \<Rightarrow> schema \<Rightarrow> group_view \<Rightarrow> bool" where
  "up_to_date v target w \<longleftrightarrow> tidy w \<and> view_catalogue w = updated_catalogue v target"

lemma up_to_date_compare:
  assumes core: "core_ok core" and part: "partition_ok part" and t: "target_ok target" and u: "up_to_date v target (co_view core g)"
  shows "schema_compare part (file_schema core g) target False = []"
proof (rule compare_empty[OF part])
  let ?w = "co_view core g"
  have d: "distinct (map fst (gv_tables ?w))" by (rule core_okD(1)[OF core])
  show "sorted_schema (file_schema core g)" by (rule schema_from_group_sorted[OF d])
  show st: "sorted_schema target" using t by (simp add: target_ok_def)
  fix a assume a: "a \<in> set target"
  let ?n = "os_name a"
  have "view_catalogue ?w ?n = Some (table_of target_column a)"
    using u find_object_some[OF sorted_schema_distinct[OF st] a] by (simp add: up_to_date_def updated_catalogue_def)
  then obtain cs where cs: "class_columns ?w ?n = Some cs" "(get_primary_key_for_object ?w ?n, column_map cs) = table_of target_column a"
    by (auto simp: view_catalogue_def)
  have dn: "distinct (map cc_name cs)" using u cs(1) by (auto simp: up_to_date_def tidy_def)
  let ?e = "object_schema_from_group ?w ?n cs"
  note eq = object_schema_from_group_eq[OF dn, of ?w ?n]
  have np: "\<not> pr_primary p" if "p \<in> set (read_properties cs)" for p using that read_property by (auto simp: read_properties_set)
  have "file_object ?e" using read_properties_distinct[OF dn] by (simp add: file_object_def eq comp_def)
  moreover have "keyed ?e" using np by (auto simp: keyed_def eq mark_key_def)
  moreover have "table_of file_column ?e = table_of target_column a" using cs(2) read_columns[OF dn] by (simp add: table_of_def eq)
  ultimately have "object_changes ?e a = []" using object_changes_empty target_okD(2,3)[OF t a] by blast
  then show "\<exists>e. find_object ?n (file_schema core g) = Some e \<and> object_changes e a = []"
    using find_from_group[OF d, of ?n] cs(1) by simp
qed

lemma run_list:
  assumes "core_ok core" "tidy (co_view core g)" "sorted_wrt may_follow cs" "\<forall>c \<in> set cs. within_table c \<and> ready c (co_view core g)"
  shows "\<exists>g'. run_changes (initial_step core) cs g = Inr g' \<and> tidy (co_view core g') \<and> kept (co_view core g) (co_view core g') \<and>
    view_catalogue (co_view core g') = fold apply_change cs (view_catalogue (co_view core g))"
  using run_ok[OF assms(1,2), of cs "[]"] assms(3,4) by auto

text \<open>All changes in the order of the list, and those that stay in front before those that remove.\<close>

lemma initial_changes_made:
  assumes core: "core_ok core" and part: "partition_stable part" and v: "file_ok (co_view core g)" and t: "target_ok target"
  shows "\<exists>g'. create_initial_tables core (schema_compare part (file_schema core g) target False) g = Inr g' \<and>
    up_to_date (co_view core g) target (co_view core g') \<and> gv_version (co_view core g') = gv_version (co_view core g)"
proof -
  let ?v = "co_view core g"
  obtain as rs ys where c: "schema_compare part (file_schema core g) target False = map AddTable (new_classes (update_pairs ?v target)) @ as @ rs @ ys"
    and p: "parts_of ?v target as rs ys" using compare_parts[OF part] by blast
  obtain g1 where g1: "run_changes (initial_step core) (map AddTable (new_classes (update_pairs ?v target))) g = Inr g1"
    "prepared ?v (co_view core g1) target" "gv_version (co_view core g1) = gv_version ?v" using tables_made[OF core v t] by blast
  note o = parts_ordered[OF v t g1(2) p]
  define S where "S = concat (map simple_changes as) @ rs @ concat (map simple_changes ys)"
  have s: "set S = set (concat (map simple_changes (as @ ys)) @ rs)" by (auto simp: S_def)
  have m: "mset S = mset (update_steps ?v target)" using o(3) by (simp add: S_def add_ac)
  have S: "tidy (co_view core g1)" "sorted_wrt may_follow S" "\<forall>c \<in> set S. within_table c \<and> ready c (co_view core g1)"
    using g1(2) o(2,4) s by (simp only: prepared_def, simp only: S_def, simp only:)
  from run_list[OF core S] obtain g' where g': "run_changes (initial_step core) S g1 = Inr g'" "tidy (co_view core g')" "kept (co_view core g1) (co_view core g')"
    "view_catalogue (co_view core g') = fold apply_change S (view_catalogue (co_view core g1))"
    by blast
  have "\<forall>c \<in> set rs. within_table c" using o(4) unfolding set_append by blast
  then have "concat (map simple_changes rs) = rs" by (intro concat_single ballI simple_within) blast
  then have "run_changes (initial_step core) (as @ rs @ ys) g1 = Inr g'"
    using run_simple[of core "as @ rs @ ys" g1] g'(1) by (simp add: S_def)
  moreover have "view_catalogue (co_view core g') = updated_catalogue ?v target"
    using g'(4) update_steps_commute[OF v t m] update_steps_facts(4)[OF v t g1(2)] by simp
  ultimately show ?thesis
    using g1 g'(2,3) by (simp add: create_initial_tables_def c run_changes_append up_to_date_def kept_def)
qed

end
