(* ===== verification/SchemaAutomatic.thy ===== *)
theory SchemaAutomatic
  imports SchemaMigrate
begin

text \<open>The three ways in which \<open>apply_schema_changes\<close> updates a file without a migration function outside of \<open>Additive\<close> mode.\<close>

section \<open>Changes that need no migration\<close>

lemma non_migration_same:
  "\<not> needs_migration_change c \<Longrightarrow> non_migration_step core c (g, errors) = map_sum id (\<lambda>g'. (g', errors)) (initial_step core c g)"
  by (cases c) auto

lemma non_migration_run:
  "\<not> needs_migration changes \<Longrightarrow>
     run_changes (non_migration_step core) changes (g, []) = map_sum id (\<lambda>g'. (g', [])) (run_changes (initial_step core) changes g)"
proof (induction changes arbitrary: g)
  case (Cons c changes)
  then show ?case by (auto simp: needs_migration_def non_migration_same split: sum.splits)
qed simp

lemma map_sum_Inr: "map_sum id f s = Inr y \<longleftrightarrow> (\<exists>x. s = Inr x \<and> y = f x)"
  by (cases s) auto

lemma non_migration_step_errors:
  "non_migration_step core c x = Inr y \<Longrightarrow> \<exists>new. snd y = snd x @ new \<and> (needs_migration_change c \<longrightarrow> new \<noteq> [])"
  by (cases c; cases x) (auto simp: map_sum_Inr split: option.splits)

lemma non_migration_refused:
  "needs_migration changes \<Longrightarrow> run_changes (non_migration_step core) changes x = Inr y \<Longrightarrow> snd y \<noteq> []"
proof -
  have "\<exists>new. snd y = snd x @ new \<and> (needs_migration changes \<longrightarrow> new \<noteq> [])"
    if "run_changes (non_migration_step core) changes x = Inr y" for x
    using that
  proof (induction changes arbitrary: x)
    case (Cons c changes)
    then obtain z where z: "non_migration_step core c x = Inr z" "run_changes (non_migration_step core) changes z = Inr y"
      by (auto split: sum.splits)
    then show ?case using Cons.IH[OF z(2)] non_migration_step_errors[OF z(1)] by (auto simp: needs_migration_def)
  qed (simp add: needs_migration_def)
  then show "needs_migration changes \<Longrightarrow> run_changes (non_migration_step core) changes x = Inr y \<Longrightarrow> snd y \<noteq> []" by fastforce
qed

section \<open>Before and after the migration\<close>

lemma pre_migration_filter:
  "apply_pre_migration_changes core changes g = run_changes (initial_step core) (filter is_not_remove_property changes) g"
proof -
  have "pre_migration_step core c g = (if is_not_remove_property c then initial_step core c g else Inr g)" for c g by (cases c) auto
  then have "run_changes (pre_migration_step core) changes g = run_changes (initial_step core) (filter is_not_remove_property changes) g" for g
    by (induction changes arbitrary: g) (auto split: sum.splits)
  then show ?thesis by (simp add: apply_pre_migration_changes_def)
qed

text \<open>The steps that are made a second time after the migration find the file as they left it.\<close>

definition duplicate_keys :: "schema_error \<Rightarrow> bool" where
  "duplicate_keys e \<longleftrightarrow> (\<exists>n p. e = DuplicatePrimaryKeyValue n p)"

lemma same_classes_trans: "same_classes u v \<Longrightarrow> same_classes v w \<Longrightarrow> same_classes u w"
  by (simp add: same_classes_def same_but_columns_def)

definition repeatable :: "schema_change \<Rightarrow> group_view \<Rightarrow> bool" where
  "repeatable c v \<longleftrightarrow> is_not_remove_property c \<and> settled c v \<and>
     (\<forall>os. c = AddTable os \<longrightarrow> (case primary_key_property os of None \<Rightarrow> True | Some p \<Rightarrow> to_core_type (pr_type p) \<noteq> None)) \<and>
     class_columns v (changed_table c) \<noteq> None"

lemma post_repeated:
  assumes core: "core_ok core" and r: "repeatable c (co_view core g)"
  shows "case post_migration_step core [] False c g of Inl e \<Rightarrow> duplicate_keys e | Inr g' \<Rightarrow> same_classes (co_view core g) (co_view core g')"
proof -
  have refl: "same_classes v v" for v by (simp add: same_classes_def same_but_columns_def)
  have index: "same_classes (co_view core g) (co_view core (f (table_name_for_object_type n) g))"
    if "edits_columns core f (\<lambda>cs. k < length cs) (\<lambda>cs. cs[k := (cs ! k)\<lparr>cc_indexed := b\<rparr>])" "class_columns (co_view core g) n = Some cs"
      "k < length cs" "cc_indexed (cs ! k) = b" for f n k b cs
  proof -
    have "(cs ! k)\<lparr>cc_indexed := b\<rparr> = cs ! k" using that(4) by auto
    then have "cs[k := (cs ! k)\<lparr>cc_indexed := b\<rparr>] = cs" by simp
    then show ?thesis using edits_columnsD[OF that(1-3)] that(2) by (auto simp: same_classes_def fun_eq_iff)
  qed
  show ?thesis
  proof (cases c)
    case (AddTable os)
    then have n: "class_columns (co_view core g) (os_name os) \<noteq> None"
      and k: "case primary_key_property os of None \<Rightarrow> True | Some p \<Rightarrow> to_core_type (pr_type p) \<noteq> None"
      using r by (auto simp: repeatable_def)
    then have ne: "os_name os \<noteq> []" by (auto simp: class_columns_def)
    have "same_classes (co_view core g) (co_view core (co_create_table core (table_name_for_object_type (os_name os)) key g))" for key
      using core_okD(11)[OF core, unfolded creates_tables_def Let_def, rule_format, OF ne, of g key] n by simp
    then show ?thesis using AddTable k by (auto simp: create_table_def Let_def split: option.splits)
  next
    case (AddIndex os p)
    then obtain cs where "class_columns (co_view core g) (os_name os) = Some cs" "at_column p cs" "cc_indexed (cs ! column_position p)"
      using r by (auto simp: repeatable_def settled_def)
    then show ?thesis
      using AddIndex index[OF core_okD(14)[OF core]] class_columns_table by (fastforce simp: add_index_def with_table_def at_column_def Let_def)
  next
    case (RemoveIndex os p)
    then obtain cs where "class_columns (co_view core g) (os_name os) = Some cs" "at_column p cs" "\<not> cc_indexed (cs ! column_position p)"
      using r by (auto simp: repeatable_def settled_def)
    then show ?thesis
      using RemoveIndex index[OF core_okD(15)[OF core]] class_columns_table by (fastforce simp: remove_index_def with_table_def at_column_def Let_def)
  next
    case (ChangePrimaryKey os p)
    then obtain cs where "class_columns (co_view core g) (os_name os) = Some cs" using r by (auto simp: repeatable_def)
    from class_columns_table[OF this] show ?thesis
      using ChangePrimaryKey refl
      by (auto simp: validate_primary_column_uniqueness_def duplicate_keys_def Let_def split: option.splits)
  qed (use r refl in \<open>auto simp: repeatable_def\<close>)
qed

lemma same_classes_facts:
  assumes "same_classes v w"
  shows "tidy w \<longleftrightarrow> tidy v" "ready c w \<longleftrightarrow> ready c v" "settled c w \<longleftrightarrow> settled c v" "view_catalogue w = view_catalogue v"
    "repeatable c w \<longleftrightarrow> repeatable c v" "gv_version w = gv_version v"
proof -
  have e: "class_columns w = class_columns v" "gv_keys w = gv_keys v" "gv_object_ids w = gv_object_ids v" "gv_version w = gv_version v"
    using assms by (simp_all add: same_classes_def same_but_columns_def)
  show "tidy w \<longleftrightarrow> tidy v" "view_catalogue w = view_catalogue v" "gv_version w = gv_version v"
    using e by (simp_all add: tidy_def view_catalogue_def get_primary_key_for_object_def fun_eq_iff)
  have "ready_in c w cs = ready_in c v cs" for cs by (cases c) (auto simp: linked_def e)
  then show "ready c w \<longleftrightarrow> ready c v" by (simp add: ready_def e split: option.splits)
  show "settled c w \<longleftrightarrow> settled c v" by (simp add: settled_def e)
  then show "repeatable c w \<longleftrightarrow> repeatable c v" by (simp add: repeatable_def e)
qed

lemma post_repeated_run:
  assumes core: "core_ok core"
  shows "\<forall>c \<in> set cs. repeatable c (co_view core g) \<Longrightarrow>
    case run_changes (post_migration_step core [] False) cs g of Inl e \<Rightarrow> duplicate_keys e | Inr g' \<Rightarrow> same_classes (co_view core g) (co_view core g')"
proof (induction cs arbitrary: g)
  case Nil
  then show ?case by (simp add: same_classes_def same_but_columns_def)
next
  case (Cons c cs)
  show ?case
  proof (cases "post_migration_step core [] False c g")
    case (Inl e)
    then show ?thesis using post_repeated[OF core, of c g] Cons.prems by simp
  next
    case (Inr h)
    then have s: "same_classes (co_view core g) (co_view core h)" using post_repeated[OF core, of c g] Cons.prems by simp
    have "\<forall>c \<in> set cs. repeatable c (co_view core h)" using Cons.prems same_classes_facts(5)[OF s] by simp
    from Cons.IH[OF this] show ?thesis using Inr same_classes_trans[OF s] by (auto split: sum.splits)
  qed
qed

lemma post_removals: "\<forall>c \<in> set rs. \<not> is_not_remove_property c \<Longrightarrow>
    run_changes (post_migration_step core [] False) rs g = run_changes (initial_step core) rs g"
proof (induction rs arbitrary: g)
  case (Cons c rs)
  then have "post_migration_step core [] False c g = initial_step core c g" by (cases c) auto
  then show ?case using Cons by (auto split: sum.splits)
qed simp

lemma post_initial: "\<forall>c \<in> set ys. \<exists>t. c = AddInitialProperties t \<Longrightarrow> run_changes (post_migration_step core [] False) ys g = Inr g"
  by (induction ys) auto

lemma pre_migration_made:
  assumes core: "core_ok core" and part: "partition_stable part" and v: "file_ok (co_view core g)" and t: "target_ok target"
    and ch: "changes = schema_compare part (file_schema core g) target False"
  shows "\<exists>g1 g2 as rs ys. changes = map AddTable (new_classes (update_pairs (co_view core g) target)) @ as @ rs @ ys \<and>
    parts_of (co_view core g) target as rs ys \<and> prepared (co_view core g) (co_view core g1) target \<and>
    apply_pre_migration_changes core changes g = Inr g2 \<and> tidy (co_view core g2) \<and> kept (co_view core g1) (co_view core g2) \<and>
    view_catalogue (co_view core g2) = fold apply_change (concat (map simple_changes (as @ ys))) (view_catalogue (co_view core g1)) \<and>
    (\<forall>c \<in> set rs. ready c (co_view core g2)) \<and> (\<forall>c \<in> set (concat (map simple_changes (as @ ys))). settled c (co_view core g2)) \<and>
    gv_version (co_view core g1) = gv_version (co_view core g)"
proof -
  let ?v = "co_view core g" and ?P = is_not_remove_property
  define pre where "pre = map AddTable (new_classes (update_pairs ?v target))"
  obtain as rs ys where c: "changes = pre @ as @ rs @ ys" and p: "parts_of ?v target as rs ys"
    using compare_parts[OF part] ch unfolding pre_def by blast
  obtain g1 where g1: "run_changes (initial_step core) pre g = Inr g1" "prepared ?v (co_view core g1) target"
    "gv_version (co_view core g1) = gv_version ?v"
    using tables_made[OF core v t] unfolding pre_def by blast
  note order = parts_ordered[OF v t g1(2) p]
  define F where "F = concat (map simple_changes (as @ ys))"
  have tidy1: "tidy (co_view core g1)" using g1(2) by (simp only: prepared_def)
  have FP: "\<forall>c \<in> set F. ?P c" using order(5) by (simp only: F_def)
  have sFr: "sorted_wrt may_follow (F @ rs)" using order(1) by (simp only: F_def)
  have mFr: "mset (F @ rs) = mset (update_steps ?v target)" using order(3) by (simp only: F_def)
  have rFr: "\<forall>c \<in> set (F @ rs). within_table c \<and> ready c (co_view core g1)" using order(4) by (simp only: F_def)
  obtain g2 where g2: "run_changes (initial_step core) F g1 = Inr g2" "tidy (co_view core g2)" "kept (co_view core g1) (co_view core g2)"
    "view_catalogue (co_view core g2) = fold apply_change F (view_catalogue (co_view core g1))"
    "\<forall>c \<in> set rs. ready c (co_view core g2)" "\<forall>c \<in> set F. settled c (co_view core g2)"
    using run_ok[OF core tidy1 sFr rFr] FP by metis
  have rsP: "\<forall>c \<in> set rs. \<not> ?P c" using p mset_eq_setD[of rs "filter (\<lambda>c. \<not> ?P c) (update_steps ?v target)"] unfolding parts_of_def by auto
  have yi: "\<forall>c \<in> set ys. \<exists>t. c = AddInitialProperties t" and ap: "\<forall>c \<in> set as. ?P c"
    using p unfolding parts_of_def set_concat set_map by blast+
  have "filter ?P changes = pre @ as @ ys"
  proof -
    have "filter ?P pre = pre" "filter ?P as = as" "filter ?P ys = ys" "filter ?P rs = []"
      using ap yi rsP by (auto simp: pre_def filter_id_conv filter_empty_conv)
    then show ?thesis by (simp add: c)
  qed
  then have made: "apply_pre_migration_changes core changes g = Inr g2"
    using g1(1) g2(1) run_simple[of core "as @ ys" g1] by (simp add: pre_migration_filter run_changes_append F_def)
  show ?thesis
    using c p g1(2,3) made g2(2-6) unfolding pre_def F_def by blast
qed

lemma migration_made:
  assumes core: "core_ok core" and part: "partition_stable part" and v: "file_ok (co_view core g)" and t: "target_ok target"
    and ch: "changes = schema_compare part (file_schema core g) target False"
  shows "\<exists>g2. apply_pre_migration_changes core changes g = Inr g2 \<and>
    (case apply_post_migration_changes core changes [] False g2 of
       Inl e \<Rightarrow> duplicate_keys e
     | Inr g' \<Rightarrow> up_to_date (co_view core g) target (co_view core g'))"
proof -
  let ?v = "co_view core g" and ?P = is_not_remove_property
  define pre where "pre = map AddTable (new_classes (update_pairs ?v target))"
  obtain g1 g2 as rs ys where c: "changes = pre @ as @ rs @ ys" and p: "parts_of ?v target as rs ys"
    and g1: "prepared ?v (co_view core g1) target" and made: "apply_pre_migration_changes core changes g = Inr g2"
    and g2: "tidy (co_view core g2)" "kept (co_view core g1) (co_view core g2)"
      "view_catalogue (co_view core g2) = fold apply_change (concat (map simple_changes (as @ ys))) (view_catalogue (co_view core g1))"
      "\<forall>c \<in> set rs. ready c (co_view core g2)" "\<forall>c \<in> set (concat (map simple_changes (as @ ys))). settled c (co_view core g2)"
    using pre_migration_made[OF core part v t ch] unfolding pre_def by metis
  note order = parts_ordered[OF v t g1 p]
  define F where "F = concat (map simple_changes (as @ ys))"
  have sFr: "sorted_wrt may_follow (F @ rs)" using order(1) by (simp only: F_def)
  have mFr: "mset (F @ rs) = mset (update_steps ?v target)" using order(3) by (simp only: F_def)
  have rFr: "\<forall>c \<in> set (F @ rs). within_table c \<and> ready c (co_view core g1)" using order(4) by (simp only: F_def)
  have rsP: "\<forall>c \<in> set rs. \<not> ?P c" using p mset_eq_setD[of rs "filter (\<lambda>c. \<not> ?P c) (update_steps ?v target)"] unfolding parts_of_def by auto
  have yi: "\<forall>c \<in> set ys. \<exists>t. c = AddInitialProperties t" and ap: "\<forall>c \<in> set as. ?P c"
    and am: "\<forall>c \<in> set as. \<exists>m \<in> set (update_pairs ?v target). c \<in> set (pair_changes m)"
    using p unfolding parts_of_def set_concat set_map by blast+
  have exists: "class_columns (co_view core g2) (os_name u) \<noteq> None" if "u \<in> set target" for u
  proof -
    have "class_columns (co_view core g1) (os_name u) \<noteq> None"
      using g1 that by (cases "class_columns ?v (os_name u)") (auto simp: prepared_def table_made_def)
    then show ?thesis using g2(2) by (simp add: kept_def)
  qed
  have pairs: "fst m = Some u \<Longrightarrow> u \<in> set target \<and> os_name u = pair_name m" if "m \<in> set (update_pairs ?v target)" for m u
    using update_pairs_facts(3)[OF v t that] find_object_Some by metis
  have "repeatable c (co_view core g2)" if cin: "c \<in> set (pre @ as)" for c
  proof -
    consider "c \<in> set pre" | "c \<in> set as" using cin by auto
    then show ?thesis
    proof cases
      case 1
      then obtain u where u: "c = AddTable u" "(Some u, None) \<in> set (update_pairs ?v target)" by (auto simp: pre_def new_classes_set)
      have ut: "u \<in> set target" using pairs[OF u(2)] by simp
      show ?thesis using target_key[OF t ut] exists[OF ut] u(1) by (auto simp: repeatable_def settled_def)
    next
      case 2
      then obtain m where m: "m \<in> set (update_pairs ?v target)" "c \<in> set (pair_changes m)" using am by blast
      obtain a b where ab: "m = (a, b)" by (cases m)
      obtain u where u: "a = Some u" using m(2) ab by (cases a) auto
      have "fst m = Some u" using ab u by simp
      note ut = pairs[OF m(1) this]
      have tab: "changed_table c = pair_name m" using pair_changes_table[OF update_pairs_facts(2)[OF v t m(1)] m(2)] by simp
      have cls: "class_columns (co_view core g2) (changed_table c) \<noteq> None" using exists[of u] ut tab by metis
      have set: "settled c (co_view core g2)"
      proof (cases "within_table c")
        case True
        then have "c \<in> set F" using 2 simple_within[OF True] unfolding F_def set_concat set_map by fastforce
        then show ?thesis using g2(5) unfolding F_def by blast
      next
        case False
        then show ?thesis by (cases c) (simp_all add: settled_def)
      qed
      have "c \<noteq> AddTable os" for os using m(2) ab u object_changes_table by (cases b) fastforce+
      then show ?thesis using ap 2 cls set by (simp add: repeatable_def)
    qed
  qed
  then have rep: "case run_changes (post_migration_step core [] False) (pre @ as) g2 of Inl e \<Rightarrow> duplicate_keys e
      | Inr g' \<Rightarrow> same_classes (co_view core g2) (co_view core g')" by (intro post_repeated_run[OF core]) blast
  have "case apply_post_migration_changes core changes [] False g2 of Inl e \<Rightarrow> duplicate_keys e
      | Inr g' \<Rightarrow> up_to_date ?v target (co_view core g')"
  proof (cases "run_changes (post_migration_step core [] False) (pre @ as) g2")
    case (Inl e)
    moreover have "changes = (pre @ as) @ rs @ ys" by (simp add: c)
    ultimately have "apply_post_migration_changes core changes [] False g2 = Inl e"
      by (simp only: apply_post_migration_changes_def run_changes_append sum.case)
    then show ?thesis using rep Inl by simp
  next
    case (Inr g3)
    have same: "same_classes (co_view core g2) (co_view core g3)" using rep Inr by simp
    note sf = same_classes_facts[OF same]
    have "tidy (co_view core g3)" "sorted_wrt may_follow rs" "\<forall>c \<in> set rs. within_table c \<and> ready c (co_view core g3)"
      using g2(1,4) sFr rFr sf by (simp_all add: sorted_wrt_append)
    from run_list[OF core this] obtain g4 where g4: "run_changes (initial_step core) rs g3 = Inr g4" "tidy (co_view core g4)"
      "view_catalogue (co_view core g4) = fold apply_change rs (view_catalogue (co_view core g3))" by blast
    have "changes = (pre @ as) @ rs @ ys" by (simp add: c)
    then have post: "apply_post_migration_changes core changes [] False g2 = Inr g4"
      using Inr g4(1) post_removals[OF rsP, of core g3] post_initial[OF yi, of core g4]
      by (simp only: apply_post_migration_changes_def run_changes_append[of _ "pre @ as"] run_changes_append[of _ rs] sum.case)
    have "view_catalogue (co_view core g4) = fold apply_change (F @ rs) (view_catalogue (co_view core g1))"
      using g4(3) sf(4) g2(3) by (simp add: F_def)
    also have "\<dots> = updated_catalogue ?v target"
      using update_steps_commute[OF v t mFr] update_steps_facts(4)[OF v t g1] by simp
    finally show ?thesis using post g4(2) by (simp add: up_to_date_def)
  qed
  then show ?thesis using made by blast
qed

section \<open>The whole function\<close>

lemma sorted_schema_unique:
  assumes "sorted_schema s" "sorted_schema s'" "set s = set s'"
  shows "s = s'"
proof (rule map_sorted_distinct_set_unique[of os_name])
  show "inj_on os_name (set s \<union> set s')" using sorted_schema_distinct[OF assms(1)] assms(3) by (simp add: distinct_map)
qed (use assms in \<open>simp_all add: strict_sorted_iff\<close>)

lemma metadata_created:
  assumes core: "core_ok core"
  shows "class_columns (co_view core (create_metadata_tables core g)) = class_columns (co_view core g)"
    and "gv_keys (co_view core (create_metadata_tables core g)) = gv_keys (co_view core g)"
    and "gv_object_ids (co_view core (create_metadata_tables core g)) = gv_object_ids (co_view core g)"
    and "gv_version (co_view core (create_metadata_tables core g)) = Some (get_schema_version (co_view core g))"
proof -
  have a: "class_columns (co_view core (co_add_metadata core g)) = class_columns (co_view core g)"
    "gv_keys (co_view core (co_add_metadata core g)) = gv_keys (co_view core g)"
    "gv_object_ids (co_view core (co_add_metadata core g)) = gv_object_ids (co_view core g)"
    "gv_version (co_view core (co_add_metadata core g)) = gv_version (co_view core g)"
    using core_okD(2)[OF core, of g] by (auto simp: same_classes_def same_but_columns_def)
  show "class_columns (co_view core (create_metadata_tables core g)) = class_columns (co_view core g)"
    "gv_keys (co_view core (create_metadata_tables core g)) = gv_keys (co_view core g)"
    "gv_object_ids (co_view core (create_metadata_tables core g)) = gv_object_ids (co_view core g)"
    "gv_version (co_view core (create_metadata_tables core g)) = Some (get_schema_version (co_view core g))"
    using a core_okD(3-6)[OF core] by (auto simp: create_metadata_tables_def Let_def get_schema_version_def)
qed

lemma same_file:
  assumes d: "distinct (map fst (gv_tables v))" "distinct (map fst (gv_tables w))"
    and e: "class_columns w = class_columns v" "gv_keys w = gv_keys v"
  shows "schema_from_group w = schema_from_group v" and "view_catalogue w = view_catalogue v"
    and "file_ok v \<Longrightarrow> gv_object_ids w = gv_object_ids v \<Longrightarrow> file_ok w"
proof -
  have k: "get_primary_key_for_object w n = get_primary_key_for_object v n" for n by (simp add: get_primary_key_for_object_def e)
  then have "object_schema_from_group w n cs = object_schema_from_group v n cs" for n cs by (simp add: object_schema_from_group_def)
  then show "schema_from_group w = schema_from_group v"
    using sorted_schema_unique[OF schema_from_group_sorted[OF d(2)] schema_from_group_sorted[OF d(1)]]
      schema_from_group_set[OF d(1)] schema_from_group_set[OF d(2)] e(1) by simp
  show "view_catalogue w = view_catalogue v" by (simp add: view_catalogue_def e k fun_eq_iff)
  show "file_ok w" if v: "file_ok v" and ids: "gv_object_ids w = gv_object_ids v"
  proof -
    have "sound_class (get_primary_key_for_object w n) cs"
      if t: "(t, cs) \<in> set (gv_tables w)" and n: "object_type_for_table_name t = n" "n \<noteq> []" for t cs n
    proof -
      have "class_columns w n = Some cs" using t object_type_nonempty[OF n] n(2) by (simp add: class_columns_iff[OF d(2)])
      then show ?thesis using file_okD(4)[OF v, of n cs] e(1) k by simp
    qed
    then show ?thesis using v d(2) e ids by (auto simp: file_ok_def Let_def)
  qed
qed

lemma schema_version_set:
  assumes core: "core_ok core"
  shows "class_columns (co_view core (set_schema_version core x g)) = class_columns (co_view core g)"
    and "gv_keys (co_view core (set_schema_version core x g)) = gv_keys (co_view core g)"
    and "gv_object_ids (co_view core (set_schema_version core x g)) = gv_object_ids (co_view core g)"
    and "get_schema_version (co_view core (set_schema_version core x g)) = x"
  using core_okD(3-6)[OF core] metadata_created[OF core] by (simp_all add: set_schema_version_def get_schema_version_def)

lemma version_set:
  assumes core: "core_ok core" and u: "up_to_date v target (co_view core g)"
  shows "up_to_date v target (co_view core (set_schema_version core x g))" and "get_schema_version (co_view core (set_schema_version core x g)) = x"
  using u schema_version_set[OF core]
  by (auto simp: up_to_date_def tidy_def view_catalogue_def get_primary_key_for_object_def fun_eq_iff)

definition update_done :: "'g core \<Rightarrow> partition_algorithm \<Rightarrow> 'g \<Rightarrow> schema \<Rightarrow> 64 word \<Rightarrow> 'g \<times> schema \<Rightarrow> bool" where
  "update_done core part g target version r \<longleftrightarrow>
     schema_compare part (file_schema core (fst r)) target False = [] \<and>
     get_schema_version (co_view core (fst r)) = version \<and>
     (\<forall>n. find_object n target = None \<longrightarrow> view_catalogue (co_view core (fst r)) n = view_catalogue (co_view core g) n) \<and>
     snd r = set_schema_columns (co_view core (fst r)) target"

lemma automatic_update_lemma:
  assumes core: "core_ok core" and part: "partition_stable part" and v: "file_ok (co_view core g)" and t: "target_ok target"
    and version: "version = get_schema_version (co_view core g)" and ch: "changes = schema_compare part (file_schema core g) target False"
  shows "case apply_schema_changes core part version target target_version Automatic changes None None g of
      Inl e \<Rightarrow> version \<noteq> NotVersioned \<and> (if version = target_version then needs_migration changes else duplicate_keys e)
    | Inr r \<Rightarrow> update_done core part g target target_version r"
proof -
  define g0 where "g0 = create_metadata_tables core g"
  note md = metadata_created[OF core, of g, folded g0_def]
  note sf = same_file[OF core_okD(1)[OF core] core_okD(1)[OF core] md(1,2)]
  have v0: "file_ok (co_view core g0)" by (rule sf(3)[OF v md(3)])
  have ch0: "changes = schema_compare part (file_schema core g0) target False" using ch sf(1) by simp
  have ok: "partition_ok part" using part by (simp add: partition_stable_def)
  have finished: "update_done core part g target target_version (g', set_schema_columns (co_view core g') target)"
    if u: "up_to_date (co_view core g0) target (co_view core g')" and "get_schema_version (co_view core g') = target_version" for g'
    using up_to_date_compare[OF core ok t u] that sf(2) by (simp add: update_done_def up_to_date_def updated_catalogue_def)
  consider (initial) "version = NotVersioned" | (same) "version \<noteq> NotVersioned" "version = target_version"
    | (migrate) "version \<noteq> NotVersioned" "version \<noteq> target_version" by blast
  then show ?thesis
  proof cases
    case initial
    obtain g' where g': "create_initial_tables core changes g0 = Inr g'" "up_to_date (co_view core g0) target (co_view core g')"
      using initial_changes_made[OF core part v0 t] ch0 by blast
    then have "apply_schema_changes core part version target target_version Automatic changes None None g =
        Inr (set_schema_version core target_version g', set_schema_columns (co_view core (set_schema_version core target_version g')) target)"
      using initial by (simp add: apply_schema_changes_def Let_def g0_def[symmetric])
    then show ?thesis using finished version_set[OF core g'(2)] by simp
  next
    case same
    then have a: "apply_schema_changes core part version target target_version Automatic changes None None g =
        map_sum id (\<lambda>g'. (g', set_schema_columns (co_view core g') target)) (apply_non_migration_changes core changes g0)"
      by (simp add: apply_schema_changes_def Let_def g0_def[symmetric])
    show ?thesis
    proof (cases "needs_migration changes")
      case True
      then have "\<exists>e. apply_non_migration_changes core changes g0 = Inl e"
        using non_migration_refused[OF True, of core "(g0, [])"]
        by (cases "run_changes (non_migration_step core) changes (g0, [])") (auto simp: apply_non_migration_changes_def)
      then show ?thesis using a same True by auto
    next
      case False
      obtain g' where g': "run_changes (initial_step core) changes g0 = Inr g'" "up_to_date (co_view core g0) target (co_view core g')"
        "gv_version (co_view core g') = gv_version (co_view core g0)"
        using initial_changes_made[OF core part v0 t] ch0 unfolding create_initial_tables_def by blast
      then have "apply_non_migration_changes core changes g0 = Inr g'"
        using non_migration_run[OF False, of core g0] by (simp add: apply_non_migration_changes_def)
      moreover have "get_schema_version (co_view core g') = target_version"
        using g'(3) md(4) version same(2) by (simp add: get_schema_version_def)
      ultimately show ?thesis using a finished[OF g'(2)] by simp
    qed
  next
    case migrate
    obtain g2 where g2: "apply_pre_migration_changes core changes g0 = Inr g2"
      "case apply_post_migration_changes core changes [] False g2 of Inl e \<Rightarrow> duplicate_keys e
        | Inr g' \<Rightarrow> up_to_date (co_view core g0) target (co_view core g')"
      using migration_made[OF core part v0 t ch0] by blast
    then have a: "apply_schema_changes core part version target target_version Automatic changes None None g =
        map_sum id (\<lambda>g'. let h = set_schema_version core target_version g' in (h, set_schema_columns (co_view core h) target))
          (apply_post_migration_changes core changes [] False g2)"
      using migrate by (simp add: apply_schema_changes_def Let_def g0_def[symmetric])
    show ?thesis
    proof (cases "apply_post_migration_changes core changes [] False g2")
      case (Inl e)
      then show ?thesis using a g2(2) migrate by simp
    next
      case (Inr g')
      then have "up_to_date (co_view core g0) target (co_view core g')" using g2(2) by simp
      from finished[OF version_set[OF core this]] show ?thesis using a Inr by (simp add: Let_def)
    qed
  qed
qed

end
