(* ===== verification/SchemaAdditive.thy ===== *)
theory SchemaAdditive
  imports SchemaAutomatic
begin

text \<open>\<open>Additive\<close> mode: what is added, and that nothing is lost.\<close>

section \<open>Column by column\<close>

lemma table_effect_column:
  "within_table c \<Longrightarrow> snd x n = snd y n \<Longrightarrow> snd (table_effect c x) n = snd (table_effect c y) n"
  by (cases c; cases x; cases y) (auto simp: update_column_eq)

lemma table_effect_other:
  "within_table c \<Longrightarrow> changed_column c \<noteq> Some n \<Longrightarrow> snd (table_effect c x) n = snd x n"
  by (cases c; cases x) (auto simp: update_column_eq)

lemma fold_filter_column:
  "\<forall>c \<in> set cs. within_table c \<and> (\<not> P c \<longrightarrow> changed_column c \<noteq> Some n) \<Longrightarrow> snd x n = snd y n \<Longrightarrow>
     snd (fold table_effect (filter P cs) x) n = snd (fold table_effect cs y) n"
proof (induction cs arbitrary: x y)
  case (Cons c cs)
  then have w: "within_table c" and o: "\<not> P c \<longrightarrow> changed_column c \<noteq> Some n"
    and cs: "\<forall>c \<in> set cs. within_table c \<and> (\<not> P c \<longrightarrow> changed_column c \<noteq> Some n)" by simp_all
  show ?case
  proof (cases "P c")
    case True
    then show ?thesis using Cons.IH[OF cs table_effect_column[OF w Cons.prems(2)]] by simp
  next
    case False
    then have "snd x n = snd (table_effect c y) n" using o table_effect_other[OF w, of n y] Cons.prems(2) by simp
    from Cons.IH[OF cs this] show ?thesis using False by simp
  qed
qed simp

lemma fold_other_column:
  "\<forall>c \<in> set cs. within_table c \<and> changed_column c \<noteq> Some n \<Longrightarrow> snd (fold table_effect cs x) n = snd x n"
  by (induction cs arbitrary: x) (auto simp: table_effect_other)

lemma fold_key:
  "\<forall>c \<in> set cs. within_table c \<and> (\<forall>os p. c \<noteq> ChangePrimaryKey os p) \<Longrightarrow> fst (fold table_effect cs x) = fst x"
proof (induction cs arbitrary: x)
  case (Cons c cs)
  then have "fst (table_effect c x) = fst x" by (cases c; cases x) (auto simp: update_column_eq)
  then show ?case using Cons by simp
qed simp

lemma pair_steps_columns:
  assumes wp: "well_paired m" and t: "fst m = Some t" and c: "c \<in> set (pair_steps m)" and n: "changed_column c = Some n"
  shows "is_not_remove_property c \<longleftrightarrow> n \<in> pr_name ` set (os_persisted t)"
proof (cases "snd m")
  case None
  then have "m = (Some t, None)" using t by (metis prod.collapse)
  then show ?thesis using c n by (auto simp: pair_steps_cases)
next
  case (Some e)
  then have m: "m = (Some t, Some e)" using t by (metis prod.collapse)
  then have e: "file_object e" and tt: "target_object t" using wp by (auto simp: well_paired_def)
  have "c \<in> set (object_changes e t)" using c m by (simp add: pair_steps_cases)
  then show ?thesis
  proof (cases rule: object_changes_cases)
    case (compared p)
    then have np: "n = pr_name p" using compare_property_column n by auto
    show ?thesis
    proof (cases "find (\<lambda>q. pr_name q = pr_name p) (os_persisted t)")
      case None
      then have "compare_property e t p = [RemoveProperty e p]"
        by (auto simp: compare_property_def property_for_name_def property_is_computed_def split: option.splits dest!: find_in_set)
      then show ?thesis using compared(2) None np by (auto simp: find_None_iff)
    next
      case (Some q)
      then have q: "q \<in> set (os_persisted t)" "pr_name q = pr_name p" by (auto simp: find_Some_iff)
      have "\<not> property_is_computed t q"
        using tt q(1) by (auto simp: property_is_computed_def property_eq_def target_object_def image_iff)
      then have "is_not_remove_property c"
        using compared(2) Some by (auto simp: compare_property_def property_for_name_def split: if_splits)
      then show ?thesis using q np by (metis image_eqI)
    qed
  qed (use n in auto)
qed

section \<open>The update\<close>

lemma simple_self: "c \<in> set (simple_changes d) \<Longrightarrow> \<forall>os p. c \<noteq> AddProperty os p \<Longrightarrow> d = c"
  by (cases d) auto

lemma additive_allowed:
  assumes "verify_valid_additive_changes changes u = Inr b" "c \<in> set changes"
  shows "additive_step core True c g = (if is_not_remove_property c then initial_step core c g else Inr g)"
    and "within_table c \<Longrightarrow> \<forall>os p. c \<noteq> ChangePrimaryKey os p"
proof -
  have "explain_additive c = []" using assms by (auto simp: verify_valid_additive_changes_def Let_def split: if_splits)
  then show "additive_step core True c g = (if is_not_remove_property c then initial_step core c g else Inr g)"
    and "within_table c \<Longrightarrow> \<forall>os p. c \<noteq> ChangePrimaryKey os p"
    by (cases c; auto split: option.splits if_splits)+
qed

lemma additive_run:
  assumes "verify_valid_additive_changes changes u = Inr b"
  shows "apply_additive_changes core changes True g = apply_pre_migration_changes core changes g"
proof -
  have "run_changes (additive_step core True) cs g = run_changes (initial_step core) (filter is_not_remove_property cs) g"
    if "set cs \<subseteq> set changes" for cs g
    using that
  proof (induction cs arbitrary: g)
    case (Cons c cs)
    then show ?case using additive_allowed(1)[OF assms, of c core g] by (auto split: sum.splits)
  qed simp
  then show ?thesis by (simp add: apply_additive_changes_def pre_migration_filter)
qed

lemma update_step_in_changes:
  assumes changes: "changes = map AddTable (new_classes (update_pairs v target)) @ as @ rs @ ys" and parts: "parts_of v target as rs ys"
    and c: "c \<in> set (pair_steps m)" "m \<in> set (update_pairs v target)" "\<not> (\<exists>os p. c = AddProperty os p)"
  shows "c \<in> set changes"
proof -
  have "c \<in> set (update_steps v target)" using c(1,2) by (auto simp: update_steps_def)
  then have "c \<in> set (concat (map simple_changes (as @ ys))) \<or> c \<in> set rs"
    using parts mset_eq_setD[of rs] unfolding parts_of_def by (metis (mono_tags, lifting) mem_Collect_eq set_filter)
  moreover have "c \<in> set (as @ ys)" if cin: "c \<in> set (concat (map simple_changes (as @ ys)))"
  proof -
    obtain d where d: "d \<in> set (as @ ys)" "c \<in> set (simple_changes d)" using cin unfolding set_concat set_map by blast
    have "\<forall>os p. c \<noteq> AddProperty os p" using c(3) by blast
    from simple_self[OF d(2) this] show ?thesis using d(1) by simp
  qed
  ultimately show ?thesis using changes by auto
qed

lemma filtered_steps:
  assumes v: "file_ok v" and t: "target_ok target"
  shows "m \<in> set (update_pairs v target) \<Longrightarrow> fold apply_change (filter P (update_steps v target)) cat (pair_name m) =
      map_option (fold table_effect (filter P (pair_steps m))) (cat (pair_name m))"
    and "n \<notin> pair_name ` set (update_pairs v target) \<Longrightarrow> fold apply_change (filter P (update_steps v target)) cat n = cat n"
proof -
  let ?ms = "update_pairs v target"
  note up = update_pairs_facts[OF v t]
  have steps: "filter P (update_steps v target) = concat (map (\<lambda>m. filter P (pair_steps m)) ?ms)"
    by (simp add: update_steps_def filter_concat comp_def)
  have one: "fold apply_change (filter P (pair_steps m)) cat =
      cat(pair_name m := map_option (fold table_effect (filter P (pair_steps m))) (cat (pair_name m)))" if "m \<in> set ?ms" for m cat
    by (rule fold_within_table) (use pair_steps_apart(2)[OF up(2)[OF that]] within_keeps in auto)
  have "(\<forall>m \<in> set ?ms. fold apply_change (filter P (update_steps v target)) cat (pair_name m) =
      map_option (fold table_effect (filter P (pair_steps m))) (cat (pair_name m))) \<and>
    (\<forall>n. n \<notin> pair_name ` set ?ms \<longrightarrow> fold apply_change (filter P (update_steps v target)) cat n = cat n)"
    unfolding steps by (rule fold_pairs) (use one up(1) in simp_all)
  then show "m \<in> set ?ms \<Longrightarrow> fold apply_change (filter P (update_steps v target)) cat (pair_name m) =
      map_option (fold table_effect (filter P (pair_steps m))) (cat (pair_name m))"
    and "n \<notin> pair_name ` set ?ms \<Longrightarrow> fold apply_change (filter P (update_steps v target)) cat n = cat n" by simp_all
qed

definition nothing_lost :: "group_view \<Rightarrow> schema \<Rightarrow> group_view \<Rightarrow> bool" where
  "nothing_lost v target w \<longleftrightarrow>
     (\<forall>t \<in> set target. case view_catalogue w (os_name t) of
        None \<Rightarrow> False
      | Some (pk, cols) \<Rightarrow>
          pk = os_primary_key t \<and> (\<forall>p \<in> set (os_persisted t). cols (pr_name p) = Some (target_column p)) \<and>
          (\<forall>n. n \<notin> pr_name ` set (os_persisted t) \<longrightarrow>
             cols n = (case view_catalogue v (os_name t) of None \<Rightarrow> None | Some (pk', cols') \<Rightarrow> cols' n))) \<and>
     (\<forall>n. find_object n target = None \<longrightarrow> view_catalogue w n = view_catalogue v n)"

lemma additive_made:
  assumes core: "core_ok core" and part: "partition_stable part" and v: "file_ok (co_view core g)" and t: "target_ok target"
    and ch: "changes = schema_compare part (file_schema core g) target False" and ok: "verify_valid_additive_changes changes u = Inr b"
  shows "\<exists>g'. apply_additive_changes core changes True g = Inr g' \<and> nothing_lost (co_view core g) target (co_view core g') \<and>
    gv_version (co_view core g') = gv_version (co_view core g)"
proof -
  let ?v = "co_view core g" and ?P = is_not_remove_property
  obtain g1 g2 as rs ys where pre: "changes = map AddTable (new_classes (update_pairs ?v target)) @ as @ rs @ ys" "parts_of ?v target as rs ys"
      "prepared ?v (co_view core g1) target" "apply_pre_migration_changes core changes g = Inr g2" "kept (co_view core g1) (co_view core g2)"
      "view_catalogue (co_view core g2) = fold apply_change (concat (map simple_changes (as @ ys))) (view_catalogue (co_view core g1))"
      "gv_version (co_view core g1) = gv_version ?v"
    using pre_migration_made[OF core part v t ch] by metis
  have made: "apply_pre_migration_changes core changes g = Inr g2" "prepared ?v (co_view core g1) target"
    "view_catalogue (co_view core g2) = fold apply_change (filter ?P (update_steps ?v target)) (view_catalogue (co_view core g1))"
    "gv_version (co_view core g2) = gv_version ?v"
    "changes = map AddTable (new_classes (update_pairs ?v target)) @ as @ rs @ ys" "parts_of ?v target as rs ys"
    using pre by (simp_all add: parts_of_def kept_def)
  let ?w = "co_view core g1" and ?ms = "update_pairs ?v target"
  note up = update_pairs_facts[OF v t]
  note f = filtered_steps[OF v t, of _ ?P "view_catalogue ?w", folded made(3)]
  have sorted: "sorted_schema target" using t by (simp add: target_ok_def)
  note in_changes = update_step_in_changes[OF made(5,6)]
  have "nothing_lost ?v target (co_view core g2)"
    unfolding nothing_lost_def
  proof (intro conjI ballI allI impI)
    fix a assume a: "a \<in> set target"
    obtain m where m: "m \<in> set ?ms" "pair_name m = os_name a" using up(4)[OF a] by blast
    have fm: "fst m = Some a" using up(3)[OF m(1)] m(2) find_object_some[OF sorted_schema_distinct[OF sorted] a] by simp
    note wp = up(2)[OF m(1)]
    note ps = pair_steps_ok(2)[OF v t made(2), of m, folded update_pairs_def, OF m(1)]
    obtain x where x: "view_catalogue ?w (os_name a) = Some x" "fold table_effect (pair_steps m) x = table_of target_column a"
      using ps fm m(2) by auto
    let ?y = "fold table_effect (filter ?P (pair_steps m)) x"
    have y: "view_catalogue (co_view core g2) (os_name a) = Some ?y" using f(1)[OF m(1)] m x(1) by auto
    note within = pair_steps_apart(2)[OF wp]
    have col: "snd ?y (pr_name p) = Some (target_column p)" if p: "p \<in> set (os_persisted a)" for p
    proof -
      have "\<forall>c \<in> set (pair_steps m). within_table c \<and> (\<not> ?P c \<longrightarrow> changed_column c \<noteq> Some (pr_name p))"
        using within pair_steps_columns[OF wp fm] p by blast
      from fold_filter_column[OF this refl] show ?thesis
        using x(2) columns_of_some[OF target_okD(8)[OF t a] p, of target_column] by (simp add: table_of_def)
    qed
    have rest: "snd ?y n = snd x n" if "n \<notin> pr_name ` set (os_persisted a)" for n
      by (rule fold_other_column) (use within pair_steps_columns[OF wp fm] that in auto)
    have nokey: "\<forall>c \<in> set (pair_steps m). within_table c \<and> (\<forall>os p. c \<noteq> ChangePrimaryKey os p)"
      using within in_changes[OF _ m(1)] additive_allowed(2)[OF ok] by fastforce
    have key: "fst ?y = os_primary_key a"
      using fold_key[OF nokey, of x] fold_key[of "filter ?P (pair_steps m)" x] nokey x(2) by (simp add: table_of_def)
    have stored: "snd x n = (case view_catalogue ?v (os_name a) of None \<Rightarrow> None | Some (pk', cols') \<Rightarrow> cols' n)"
      if n: "n \<notin> pr_name ` set (os_persisted a)" for n
    proof (cases "class_columns ?v (os_name a)")
      case None
      then obtain hidden where h: "hidden_columns hidden" "class_columns ?w (os_name a) = Some (hidden @ key_columns a)"
        using made(2) a by (auto simp: prepared_def table_made_def)
      then have "snd x n = None" using x(1) key_column_map[OF t a h(1), of n] n by (auto simp: view_catalogue_def)
      then show ?thesis using None by (simp add: view_catalogue_def)
    next
      case (Some cs)
      then have "view_catalogue ?w (os_name a) = view_catalogue ?v (os_name a)" using made(2) by (simp add: prepared_def view_catalogue_def)
      then have "view_catalogue ?v (os_name a) = Some x" using x(1) by simp
      then show ?thesis by (simp add: case_prod_beta)
    qed
    show "case view_catalogue (co_view core g2) (os_name a) of
        None \<Rightarrow> False
      | Some (pk, cols) \<Rightarrow>
          pk = os_primary_key a \<and> (\<forall>p \<in> set (os_persisted a). cols (pr_name p) = Some (target_column p)) \<and>
          (\<forall>n. n \<notin> pr_name ` set (os_persisted a) \<longrightarrow>
             cols n = (case view_catalogue ?v (os_name a) of None \<Rightarrow> None | Some (pk', cols') \<Rightarrow> cols' n))"
      using y col rest key stored by (cases ?y) simp
  next
    fix n assume none: "find_object n target = None"
    have "n \<notin> os_name ` set target" using none find_object_some[OF sorted_schema_distinct[OF sorted]] by fastforce
    then have w: "view_catalogue ?w n = view_catalogue ?v n" using made(2) by (simp add: prepared_def view_catalogue_def)
    show "view_catalogue (co_view core g2) n = view_catalogue ?v n"
    proof (cases "n \<in> pair_name ` set ?ms")
      case True
      then obtain m where m: "m \<in> set ?ms" "n = pair_name m" by blast
      then have "fst m = None" using up(3)[OF m(1)] none by simp
      then have "pair_steps m = []" using pair_steps_cases(3) by (metis prod.collapse)
      then show ?thesis using f(1)[OF m(1)] m w by (simp add: option.map_id)
    qed (use f(2) w in simp)
  qed
  then show ?thesis using made(1,4) additive_run[OF ok, of core g] by auto
qed

lemma additive_update_lemma:
  assumes core: "core_ok core" and part: "partition_stable part" and v: "file_ok (co_view core g)" and t: "target_ok target"
    and version: "version = get_schema_version (co_view core g)" and ch: "changes = schema_compare part (file_schema core g) target False"
    and ok: "verify_valid_additive_changes changes u = Inr b"
  shows "\<exists>g'. apply_schema_changes core part version target target_version Additive changes None None g =
      Inr (g', set_schema_columns (co_view core g') target) \<and> nothing_lost (co_view core g) target (co_view core g') \<and>
    get_schema_version (co_view core g') = (if version < target_version \<or> version = NotVersioned then target_version else version)"
proof -
  define g0 where "g0 = create_metadata_tables core g"
  note md = metadata_created[OF core, of g, folded g0_def]
  note sf = same_file[OF core_okD(1)[OF core] core_okD(1)[OF core] md(1,2)]
  have v0: "file_ok (co_view core g0)" by (rule sf(3)[OF v md(3)])
  have ch0: "changes = schema_compare part (file_schema core g0) target False" using ch sf(1) by simp
  obtain g1 where g1: "apply_additive_changes core changes True g0 = Inr g1" "nothing_lost (co_view core g0) target (co_view core g1)"
    "gv_version (co_view core g1) = gv_version (co_view core g0)" using additive_made[OF core part v0 t ch0 ok] by blast
  note sv = schema_version_set[OF core, of _ g1]
  have cat: "view_catalogue (co_view core (set_schema_version core x g1)) = view_catalogue (co_view core g1)" for x
    using sv by (simp add: view_catalogue_def get_primary_key_for_object_def fun_eq_iff)
  have lost: "nothing_lost (co_view core g) target (co_view core g1)" "nothing_lost (co_view core g) target (co_view core (set_schema_version core x g1))" for x
    using g1(2) unfolding nothing_lost_def sf(2) cat by blast+
  have vs: "get_schema_version (co_view core g1) = version" "get_schema_version (co_view core (set_schema_version core x g1)) = x" for x
    using g1(3) md(4) version sv(4) by (simp_all add: get_schema_version_def)
  show ?thesis using g1(1) lost vs by (simp add: apply_schema_changes_def Let_def g0_def[symmetric])
qed

end
