(* ===== verification/SchemaRename.thy ===== *)
theory SchemaRename
  imports SchemaReady
begin

text \<open>
  The calls of the object store that a migration function makes: renaming a property, deleting a class, and asking whether a
  file has objects.
\<close>

section \<open>Definitions\<close>

datatype rename_error = RenameNoClass string | RenameClassRemoved string | RenameSourceExists string string
  | RenameNoProperty string string | RenameChangesType string string string | RenameBecomesRequired string string string
  | RenameStepFailed schema_error

definition shift_property_column :: "64 word \<Rightarrow> 64 word \<Rightarrow> property \<Rightarrow> property" where
  "shift_property_column column_to_remove old_column p =
     (if pr_table_column p = column_to_remove then p\<lparr>pr_table_column := old_column\<rparr>
      else if column_to_remove < pr_table_column p then p\<lparr>pr_table_column := pr_table_column p - 1\<rparr> else p)"

definition rename_property ::
  "'g core \<Rightarrow> schema \<Rightarrow> string \<Rightarrow> string \<Rightarrow> string \<Rightarrow> 'g \<Rightarrow> rename_error + 'g \<times> schema" where
  "rename_property core target_schema object_type old_name new_name g =
     (let t = table_name_for_object_type object_type
      in case columns core g t of
           None \<Rightarrow> Inl (RenameNoClass object_type)
         | Some cs \<Rightarrow>
      (case schema_find object_type target_schema of
           None \<Rightarrow> Inl (RenameClassRemoved object_type)
         | Some i \<Rightarrow>
      if property_for_name old_name (target_schema ! i) \<noteq> None then Inl (RenameSourceExists object_type old_name)
      else let table_object_schema = object_schema_from_group (co_view core g) object_type cs
      in case property_for_name old_name table_object_schema of
           None \<Rightarrow> Inl (RenameNoProperty object_type old_name)
         | Some old_property \<Rightarrow>
      (case property_for_name new_name table_object_schema of
           None \<Rightarrow> Inr (co_rename_column core t (column_position old_property) new_name g, target_schema)
         | Some new_property \<Rightarrow>
      if \<not> pt_eq (pr_type old_property) (pr_type new_property) \<or> pr_object_type old_property \<noteq> pr_object_type new_property
      then Inl (RenameChangesType object_type old_name new_name)
      else if is_nullable (pr_type old_property) \<and> \<not> is_nullable (pr_type new_property)
      then Inl (RenameBecomesRequired object_type old_name new_name)
      else
        let column_to_remove = pr_table_column new_property;
            g1 = co_rename_column core t (column_position old_property) new_name g;
            g2 = co_remove_column core t (unat column_to_remove) g1;
            target' = target_schema[i := (target_schema ! i)\<lparr>os_persisted :=
              map (shift_property_column column_to_remove (pr_table_column old_property)) (os_persisted (target_schema ! i))\<rparr>]
        in if is_nullable (pr_type new_property) \<and> \<not> is_nullable (pr_type old_property)
           then case make_property_optional core object_type (new_property\<lparr>pr_table_column := pr_table_column old_property\<rparr>) g2 of
                  Inl e \<Rightarrow> Inl (RenameStepFailed e)
                | Inr g3 \<Rightarrow> Inr (g3, target')
           else Inr (g2, target'))))"

definition delete_data_for_object :: "'g core \<Rightarrow> string \<Rightarrow> 'g \<Rightarrow> 'g" where
  "delete_data_for_object core object_type g =
     (let t = table_name_for_object_type object_type
      in if columns core g t = None then g else set_primary_key_for_object core object_type [] (co_remove_table core t g))"

definition file_is_empty :: "'g core \<Rightarrow> 'g \<Rightarrow> bool" where
  "file_is_empty core g =
     list_all (\<lambda>(t, cs). let n = object_type_for_table_name t in n = [] \<or> take 2 n = ''__'' \<or> co_size core g t = 0)
       (gv_tables (co_view core g))"

section \<open>Renaming\<close>

text \<open>The column that a property has after another was renamed to it.\<close>

definition merged_column :: "property \<Rightarrow> property \<Rightarrow> core_column \<Rightarrow> core_column" where
  "merged_column old_property new_property c =
     (if is_nullable (pr_type new_property) \<and> \<not> is_nullable (pr_type old_property) then column_for new_property
      else c\<lparr>cc_name := pr_name new_property\<rparr>)"

definition merged_columns :: "property \<Rightarrow> property \<Rightarrow> core_column list \<Rightarrow> core_column list" where
  "merged_columns old_property new_property cs =
     (let i = column_position old_property
      in list_erase_at (cs[i := merged_column old_property new_property (cs ! i)]) (column_position new_property))"

lemma file_property:
  assumes v: "file_ok v" and n: "class_columns v n = Some cs" and p: "property_for_name m (object_schema_from_group v n cs) = Some p"
  shows "at_column p cs \<and> pr_name p = m \<and> pr_table_column p = of_nat (column_position p)"
proof -
  have s: "distinct (map cc_name cs)" "length cs < 2 ^ 64" using file_okD(4)[OF v n] by (simp_all add: sound_class_def)
  have "p \<in> mark_key (get_primary_key_for_object v n) ` set (read_properties cs)" and m: "pr_name p = m"
    using property_for_name_Some[OF p] by (simp_all add: object_schema_from_group_eq[OF s(1)])
  then obtain q where q: "q \<in> set (read_properties cs)" "p = mark_key (get_primary_key_for_object v n) q" by blast
  obtain i where i: "i < length cs" "property_for_column (cs ! i) i = Some q" using q(1) by (auto simp: read_properties_set)
  have "at_column q cs" "column_position q = i" "pr_table_column q = of_nat i"
    using read_position[OF i(2,1) s(2)] read_property[OF i(2)] by simp_all
  then show ?thesis using q(2) m by (simp add: at_column_def)
qed

lemma erase_update_after: "i < j \<Longrightarrow> j < length cs \<Longrightarrow> (list_erase_at cs j)[i := c] = list_erase_at (cs[i := c]) j"
  by (simp add: list_erase_at_def list_update_append take_update_swap)

lemma erase_nth: "j < length cs \<Longrightarrow> k < length cs - 1 \<Longrightarrow> list_erase_at cs j ! k = (if k < j then cs ! k else cs ! Suc k)"
  by (auto simp: list_erase_at_def nth_append)

lemma shifted_position:
  assumes old: "at_column op cs" "pr_table_column op = of_nat (column_position op)"
    and new: "at_column np cs" "pr_table_column np = of_nat (column_position np)" and ij: "column_position op < column_position np"
    and d: "distinct (map cc_name cs)" "length cs < 2 ^ 64" and p: "at_column p cs" "pr_name p \<noteq> pr_name op"
  shows "at_column (shift_property_column (pr_table_column np) (pr_table_column op) p) (merged_columns op np cs)"
proof -
  let ?i = "column_position op" and ?j = "column_position np" and ?k = "column_position p"
  let ?c = "merged_column op np (cs ! ?i)"
  have bounds: "?i < length cs" "?j < length cs" "?k < length cs" and names: "cc_name (cs ! ?i) = pr_name op" "cc_name (cs ! ?j) = pr_name np" "cc_name (cs ! ?k) = pr_name p"
    using old new p by (simp_all add: at_column_def)
  have ki: "?k \<noteq> ?i" using names p(2) by metis
  have c: "cc_name ?c = pr_name np" by (simp add: merged_column_def)
  have kj: "?k = ?j \<longleftrightarrow> pr_table_column p = pr_table_column np" "?j < ?k \<longleftrightarrow> pr_table_column np < pr_table_column p"
    by (simp_all add: column_position_def word_less_nat_alt word_unat_eq_iff)
  have dec: "unat (pr_table_column p - 1) = ?k - 1" if "?j < ?k"
  proof -
    have "1 \<le> pr_table_column p" using that by (simp add: column_position_def word_le_nat_alt)
    then show ?thesis by (simp add: column_position_def unat_sub)
  qed
  have at: "at_column q (merged_columns op np cs) \<longleftrightarrow>
      column_position q < length cs - 1 \<and> cc_name ((cs[?i := ?c]) ! (if column_position q < ?j then column_position q else Suc (column_position q))) = pr_name q" for q
    using bounds by (auto simp: at_column_def merged_columns_def Let_def erase_nth)
  consider "?k = ?j" | "?j < ?k" | "?k < ?j" by linarith
  then show ?thesis
  proof cases
    case 1
    then have "shift_property_column (pr_table_column np) (pr_table_column op) p = p\<lparr>pr_table_column := pr_table_column op\<rparr>"
      using kj(1) by (simp add: shift_property_column_def)
    moreover have "column_position (p\<lparr>pr_table_column := pr_table_column op\<rparr>) = ?i" by (simp add: column_position_def)
    moreover have "pr_name p = pr_name np" using 1 names by metis
    ultimately show ?thesis unfolding at using ij bounds c by simp
  next
    case 2
    then have "pr_table_column p \<noteq> pr_table_column np" "pr_table_column np < pr_table_column p" using kj by auto
    then have "shift_property_column (pr_table_column np) (pr_table_column op) p = p\<lparr>pr_table_column := pr_table_column p - 1\<rparr>"
      by (simp add: shift_property_column_def)
    moreover have "column_position (p\<lparr>pr_table_column := pr_table_column p - 1\<rparr>) = ?k - 1" using dec[OF 2] by (simp add: column_position_def)
    moreover have "\<not> ?k - 1 < ?j" "Suc (?k - 1) = ?k" "?k - 1 < length cs - 1" using 2 bounds by simp_all
    ultimately show ?thesis unfolding at using names ki by simp
  next
    case 3
    then have "pr_table_column p \<noteq> pr_table_column np" "\<not> pr_table_column np < pr_table_column p" using kj by auto
    then have "shift_property_column (pr_table_column np) (pr_table_column op) p = p" by (simp add: shift_property_column_def)
    moreover have "?k < length cs - 1" using 3 bounds by simp
    ultimately show ?thesis unfolding at using 3 names ki by simp
  qed
qed

lemma lower_bound_le: "lower_bound before xs first len \<le> first + len"
proof (induction before xs first len rule: lower_bound.induct)
  case (1 before xs first len)
  show ?case
  proof (cases "len = 0")
    case False
    then have "len div 2 < len" by simp
    then show ?thesis
      using False 1 by (subst lower_bound.simps) (fastforce simp: Let_def)
  qed (simp add: lower_bound.simps)
qed

lemma schema_find_less: "schema_find n s = Some i \<Longrightarrow> i < length s"
  using lower_bound_le[of "\<lambda>os. string_data_less (os_name os) n" s 0 "length s"] by (auto simp: schema_find_def Let_def split: if_splits)

lemma nullable_again: "is_nullable ty \<Longrightarrow> ty OR PT_Nullable = ty"
  by (rule bit_eqI) (auto simp: bit_or_iff is_nullable_bit flag_bits)

lemma make_optional_ok:
  assumes core: "core_ok core" and n: "class_columns (co_view core g) n = Some cs" and k: "column_position p < length cs"
    and p: "is_nullable (pr_type p)" "storable p" "linked (co_view core g) p"
  shows "\<exists>g'. make_property_optional core n p g = Inr g' \<and>
    class_columns (co_view core g') = (class_columns (co_view core g))(n \<mapsto> cs[column_position p := column_for p]) \<and>
    same_but_columns (co_view core g) (co_view core g')"
proof -
  have p': "p\<lparr>pr_type := pr_type p OR PT_Nullable\<rparr> = p" using nullable_again[OF p(1)] by simp
  have "make_property_optional core n p g =
      map_sum id (\<lambda>g'. co_remove_column core (table_name_for_object_type n) (column_position p + 1) (copy_property_values core (table_name_for_object_type n) p g'))
        (insert_property_column core (table_name_for_object_type n) p (column_position p) g)"
    unfolding make_property_optional_def Let_def p' by (simp add: with_table_def class_columns_table[OF n] Let_def)
  moreover note retype_ok[OF core n k p(2,3), of "copy_property_values core (table_name_for_object_type n) p", OF copy_property_values_same[OF core]]
  ultimately show ?thesis by simp
qed

lemma rename_property_lemma:
  assumes core: "core_ok core" and v: "file_ok (co_view core g)" and n: "class_columns (co_view core g) n = Some cs"
    and op: "property_for_name old (object_schema_from_group (co_view core g) n cs) = Some op"
    and np: "property_for_name new (object_schema_from_group (co_view core g) n cs) = Some np"
    and ij: "column_position op < column_position np"
    and nullable: "is_nullable (pr_type np) \<and> \<not> is_nullable (pr_type op) \<Longrightarrow> storable np \<and> linked (co_view core g) np"
    and i: "schema_find n target = Some i" and r: "rename_property core target n old new g = Inr (g', target')"
  shows "class_columns (co_view core g') = (class_columns (co_view core g))(n \<mapsto> merged_columns op np cs) \<and>
    same_but_columns (co_view core g) (co_view core g') \<and>
    list_all2 (\<lambda>p q. pr_name q = pr_name p \<and> (at_column p cs \<longrightarrow> at_column q (merged_columns op np cs)))
      (os_persisted (target ! i)) (os_persisted (target' ! i))"
proof -
  let ?v = "co_view core g" and ?t = "table_name_for_object_type n" and ?i = "column_position op" and ?j = "column_position np"
  let ?g1 = "co_rename_column core ?t ?i new g"
  let ?g2 = "co_remove_column core ?t ?j ?g1" and ?p = "np\<lparr>pr_table_column := pr_table_column op\<rparr>"
  let ?target = "target[i := (target ! i)\<lparr>os_persisted := map (shift_property_column (pr_table_column np) (pr_table_column op)) (os_persisted (target ! i))\<rparr>]"
  note o = file_property[OF v n op] and w = file_property[OF v n np]
  have d: "distinct (map cc_name cs)" "length cs < 2 ^ 64" using file_okD(4)[OF v n] by (simp_all add: sound_class_def)
  have bounds: "?i < length cs" "?j < length cs" using o w by (simp_all add: at_column_def)
  have g1: "class_columns (co_view core ?g1) = (class_columns ?v)(n \<mapsto> cs[?i := (cs ! ?i)\<lparr>cc_name := new\<rparr>])" "same_but_columns ?v (co_view core ?g1)"
    using edits_columnsD[OF core_okD(17)[OF core] n bounds(1)] by simp_all
  then have g1n: "class_columns (co_view core ?g1) n = Some (cs[?i := (cs ! ?i)\<lparr>cc_name := new\<rparr>])" by simp
  have g2: "class_columns (co_view core ?g2) = (class_columns ?v)(n \<mapsto> list_erase_at (cs[?i := (cs ! ?i)\<lparr>cc_name := new\<rparr>]) ?j)"
    "same_but_columns ?v (co_view core ?g2)"
    using edits_columnsD[OF core_okD(13)[OF core] g1n, of ?j] bounds(2) g1 same_but_columns_trans by auto
  have none: "property_for_name old (target ! i) = None"
    using r class_columns_table[OF n] i by (auto simp: rename_property_def Let_def split: if_splits)
  let ?step = "is_nullable (pr_type np) \<and> \<not> is_nullable (pr_type op)"
  have run: "(if ?step then case make_property_optional core n ?p ?g2 of Inl e \<Rightarrow> Inl (RenameStepFailed e) | Inr g3 \<Rightarrow> Inr (g3, ?target)
      else Inr (?g2, ?target)) = Inr (g', target')"
    using r class_columns_table[OF n] i none op np by (auto simp: rename_property_def Let_def column_position_def split: if_splits)
  have pos: "column_position ?p = ?i" by (simp add: column_position_def)
  have cf: "column_for ?p = column_for np" by (simp add: column_for_def Let_def requires_index_def)
  have made: "class_columns (co_view core g') = (class_columns ?v)(n \<mapsto> merged_columns op np cs) \<and> same_but_columns ?v (co_view core g')"
  proof (cases ?step)
    case True
    have p: "is_nullable (pr_type ?p)" "storable ?p" "linked (co_view core ?g2) ?p"
    proof -
      have "storable ?p = storable np" by (simp add: storable_def requires_index_def)
      then show "storable ?p" using True nullable by blast
      have "linked (co_view core g) np" using True nullable by blast
      then show "linked (co_view core ?g2) ?p" using g2(1) by (auto simp: linked_def)
    qed (use True in simp)
    have "class_columns (co_view core ?g2) n = Some (list_erase_at (cs[?i := (cs ! ?i)\<lparr>cc_name := new\<rparr>]) ?j)" using g2(1) by simp
    moreover have "column_position ?p < length (list_erase_at (cs[?i := (cs ! ?i)\<lparr>cc_name := new\<rparr>]) ?j)" using pos ij bounds by simp
    ultimately obtain g3 where g3: "make_property_optional core n ?p ?g2 = Inr g3"
      "class_columns (co_view core g3) = (class_columns (co_view core ?g2))(n \<mapsto> (list_erase_at (cs[?i := (cs ! ?i)\<lparr>cc_name := new\<rparr>]) ?j)[?i := column_for np])"
      "same_but_columns (co_view core ?g2) (co_view core g3)" using make_optional_ok[OF core _ _ p] unfolding pos cf by blast
    then have "g' = g3" using run True by simp
    then show ?thesis
      using g3 g2 True ij bounds same_but_columns_trans[OF g2(2)]
      by (simp add: merged_columns_def merged_column_def Let_def erase_update_after)
  next
    case False
    then have "g' = ?g2" using run unfolding if_not_P[OF False] by simp
    moreover have "merged_column op np (cs ! ?i) = (cs ! ?i)\<lparr>cc_name := new\<rparr>" using False w by (auto simp: merged_column_def)
    ultimately show ?thesis using g2 by (simp add: merged_columns_def Let_def)
  qed
  have "target' = ?target" using run by (auto split: if_splits sum.splits)
  moreover have "i < length target" using i by (rule schema_find_less)
  ultimately have ps: "os_persisted (target' ! i) = map (shift_property_column (pr_table_column np) (pr_table_column op)) (os_persisted (target ! i))" by simp
  have "at_column (shift_property_column (pr_table_column np) (pr_table_column op) p) (merged_columns op np cs)"
    if p: "p \<in> set (os_persisted (target ! i))" "at_column p cs" for p
  proof (rule shifted_position[OF _ _ _ _ ij d p(2)])
    show "pr_name p \<noteq> pr_name op" using none p(1) o unfolding property_for_name_None by (metis UnI1 image_eqI)
  qed (use o w in simp_all)
  moreover have "pr_name (shift_property_column a b p) = pr_name p" for a b p by (simp add: shift_property_column_def)
  ultimately show ?thesis using made by (simp add: ps list_all2_conv_all_nth)
qed

end
