(* ===== verification/SchemaApplyProps.thy ===== *)
theory SchemaApplyProps
  imports SchemaAdditive SchemaRename "HOL-Library.Code_Target_Nat"
begin

text \<open>The properties of updating a file, and a group of tables that keeps the contract.\<close>

section \<open>A group as a list of tables\<close>

definition edit_table :: "string \<Rightarrow> (core_column list \<Rightarrow> core_column list) \<Rightarrow> group_view \<Rightarrow> group_view" where
  "edit_table t f v = v\<lparr>gv_tables := map (\<lambda>(n, cs). if n = t then (n, f cs) else (n, cs)) (gv_tables v)\<rparr>"

definition list_core :: "group_view core" where
  "list_core =
     \<lparr>co_view = (\<lambda>v. v\<lparr>gv_tables := AList.clearjunk (gv_tables v)\<rparr>),
      co_size = (\<lambda>v t. 0),
      co_distinct = (\<lambda>v t i. True),
      co_add_metadata = (\<lambda>v. v),
      co_set_version = (\<lambda>x v. v\<lparr>gv_version := Some x\<rparr>),
      co_set_keys = (\<lambda>rows v. v\<lparr>gv_keys := rows\<rparr>),
      co_create_table = (\<lambda>t key v.
        if map_of (gv_tables v) t \<noteq> None then v
        else case key of
               None \<Rightarrow> v\<lparr>gv_tables := gv_tables v @ [(t, [])]\<rparr>
             | Some (ct, pk, nullable) \<Rightarrow>
                 v\<lparr>gv_tables := gv_tables v @ [(t, [\<lparr>cc_name = pk, cc_type = ct, cc_nullable = nullable, cc_indexed = True\<rparr>])],
                   gv_keys := set_key_row (object_type_for_table_name t) pk (gv_keys v)\<rparr>),
      co_insert_column = (\<lambda>t i c. edit_table t (\<lambda>cs. list_insert_at cs i c)),
      co_remove_column = (\<lambda>t i. edit_table t (\<lambda>cs. list_erase_at cs i)),
      co_add_search_index = (\<lambda>t i. edit_table t (\<lambda>cs. cs[i := (cs ! i)\<lparr>cc_indexed := True\<rparr>])),
      co_remove_search_index = (\<lambda>t i. edit_table t (\<lambda>cs. cs[i := (cs ! i)\<lparr>cc_indexed := False\<rparr>])),
      co_copy_cell = (\<lambda>ct t row to from v. v),
      co_rename_column = (\<lambda>t i m. edit_table t (\<lambda>cs. cs[i := (cs ! i)\<lparr>cc_name := m\<rparr>])),
      co_remove_table = (\<lambda>t v. v\<lparr>gv_tables := filter (\<lambda>c. fst c \<noteq> t) (gv_tables v)\<rparr>)\<rparr>"

lemma list_core_view:
  "class_columns (co_view list_core v) n = (if n = [] then None else map_of (gv_tables v) (table_name_for_object_type n))"
  "gv_keys (co_view list_core v) = gv_keys v" "gv_version (co_view list_core v) = gv_version v"
  "gv_object_ids (co_view list_core v) = gv_object_ids v"
  by (simp_all add: list_core_def class_columns_def map_of_clearjunk)

lemma table_name_inj [simp]: "table_name_for_object_type n = table_name_for_object_type m \<longleftrightarrow> n = m"
  by (simp add: table_name_for_object_type_def)

lemma map_of_edit: "map_of (map (\<lambda>(n, cs). if n = t then (n, f cs) else (n, cs)) ts) = (map_of ts)(t := map_option f (map_of ts t))"
  by (induction ts) (auto simp: fun_eq_iff)

lemma edit_table_edits: "edits_columns list_core (\<lambda>t. edit_table t f) ok f"
  by (auto simp: edits_columns_def list_core_view edit_table_def map_of_edit same_but_columns_def fun_eq_iff split: if_splits)

lemma list_core_creates: "creates_tables list_core"
  unfolding creates_tables_def
proof (intro allI impI)
  fix g :: group_view and n key assume n: "n \<noteq> ([] :: string)"
  let ?t = "table_name_for_object_type n"
  show "let v = co_view list_core g; w = co_view list_core (co_create_table list_core ?t key g)
    in if class_columns v n \<noteq> None then same_classes v w
       else \<exists>hidden. hidden_columns hidden \<and> gv_version w = gv_version v \<and> gv_object_ids w = gv_object_ids v \<and>
         (case key of
            None \<Rightarrow> class_columns w = (class_columns v)(n \<mapsto> hidden) \<and> gv_keys w = gv_keys v
          | Some (ct, pk, nullable) \<Rightarrow>
              class_columns w = (class_columns v)
                (n \<mapsto> hidden @ [\<lparr>cc_name = pk, cc_type = ct, cc_nullable = nullable, cc_indexed = True\<rparr>]) \<and>
              gv_keys w = set_key_row n pk (gv_keys v))"
  proof (cases "map_of (gv_tables g) ?t")
    case None
    have h: "hidden_columns []" by (simp add: hidden_columns_def)
    show ?thesis
      using n None
      by (auto simp: Let_def list_core_view fun_eq_iff map_add_def list_core_def[THEN arg_cong[of _ _ co_create_table]]
          intro!: exI[of _ "[]"] h split: option.splits)
  next
    case (Some cs)
    then have "co_create_table list_core ?t key g = g" by (simp add: list_core_def)
    then show ?thesis using n Some by (simp add: list_core_view same_classes_def same_but_columns_def)
  qed
qed

lemma list_core_ok: "core_ok list_core"
proof -
  have "edits_columns list_core (\<lambda>t v. v) ok (\<lambda>cs. cs)" for ok
    by (auto simp: edits_columns_def same_but_columns_def fun_eq_iff)
  moreover have "distinct (map fst (gv_tables (co_view list_core g)))" for g by (simp add: list_core_def distinct_clearjunk)
  moreover have "same_classes (co_view list_core g) (co_view list_core (co_add_metadata list_core g))" for g
    by (simp add: list_core_def same_classes_def same_but_columns_def)
  moreover have "class_columns (co_view list_core (co_set_version list_core x g)) = class_columns (co_view list_core g)"
    "class_columns (co_view list_core (co_set_keys list_core rows g)) = class_columns (co_view list_core g)" for x rows g
    by (simp_all add: list_core_def class_columns_def fun_eq_iff)
  ultimately show ?thesis
    unfolding core_ok_def Let_def using list_core_creates edit_table_edits
    by (intro conjI allI) (simp_all add: list_core_view, simp_all add: list_core_def)
qed

section \<open>Updating\<close>

definition int_column :: "string \<Rightarrow> core_column" where
  "int_column n = \<lparr>cc_name = n, cc_type = type_Int, cc_nullable = False, cc_indexed = False\<rparr>"

definition int_property :: "string \<Rightarrow> property_type \<Rightarrow> bool \<Rightarrow> property" where
  "int_property n ty indexed = \<lparr>pr_name = n, pr_type = ty, pr_object_type = [], pr_link_origin = [], pr_primary = False,
     pr_indexed = indexed, pr_table_column = 0\<rparr>"

definition old_file :: group_view where
  "old_file = \<lparr>gv_tables = [(''metadata'', []), (''class_Dog'', [int_column ''chip'', int_column ''age''])], gv_keys = [],
     gv_version = Some 0, gv_object_ids = False\<rparr>"

definition new_schema :: schema where
  "new_schema = [object_schema_of ''Dog'' [int_property ''age'' (PT_Int OR PT_Nullable) True] [],
     object_schema_of ''Owner'' [(int_property ''id'' PT_Int False)\<lparr>pr_primary := True\<rparr>,
       (int_property ''dogs'' (PT_Object OR PT_Array) False)\<lparr>pr_object_type := ''Dog''\<rparr>] []]"












text \<open>
  The partition of the platform's library does not keep that order: when a property is removed in front of one that
  becomes optional and indexed, the index is made first and lost with the column that is replaced. With a migration
  the index is made again afterwards, but a file with tables and no version is not up to date in the end: \<open>compare\<close>
  still asks for the index.
\<close>

definition initialised_file :: "partition_algorithm \<Rightarrow> schema_error + group_view \<times> schema" where
  "initialised_file part = apply_schema_changes list_core part NotVersioned new_schema 1 Automatic
     (schema_compare part (file_schema list_core old_file) new_schema False) None None (old_file\<lparr>gv_version := None\<rparr>)"

lemma partition_loses_index:
  "map_sum id (\<lambda>r. no_changes_errors (schema_compare stable_partition (file_schema list_core (fst r)) new_schema False))
      (initialised_file stable_partition) = Inr []"
  "map_sum id (\<lambda>r. no_changes_errors (schema_compare libcxx_partition (file_schema list_core (fst r)) new_schema False))
      (initialised_file libcxx_partition) = Inr [MadeIndexed ''Dog'' ''age'']"
  by code_simp+

section \<open>Renaming\<close>

text \<open>
  C38. Renaming a property to one that is behind it in the table merges the two columns: the old column stays where it is under the
  new name (or is replaced by an optional column of the new property's type, when that is the difference), the new property's column goes, the
  other columns and classes are untouched, and every property of the target schema that was found at its position
  is found at its position afterwards.
\<close>

theorem rename_property_merges:
  assumes "core_ok core" and "file_ok (co_view core g)" and "class_columns (co_view core g) n = Some cs"
    and "property_for_name old (object_schema_from_group (co_view core g) n cs) = Some op"
    and "property_for_name new (object_schema_from_group (co_view core g) n cs) = Some np"
    and "column_position op < column_position np"
    and "is_nullable (pr_type np) \<and> \<not> is_nullable (pr_type op) \<Longrightarrow> storable np \<and> linked (co_view core g) np"
    and "schema_find n target = Some i" and "rename_property core target n old new g = Inr (g', target')"
  shows "class_columns (co_view core g') = (class_columns (co_view core g))(n \<mapsto> merged_columns op np cs) \<and>
    same_but_columns (co_view core g) (co_view core g') \<and>
    list_all2 (\<lambda>p q. pr_name q = pr_name p \<and> (at_column p cs \<longrightarrow> at_column q (merged_columns op np cs)))
      (os_persisted (target ! i)) (os_persisted (target' ! i))"
  by (rule rename_property_lemma[OF assms])

definition dog_file :: "core_column list \<Rightarrow> group_view" where
  "dog_file cs = \<lparr>gv_tables = [(''class_Dog'', cs)], gv_keys = [], gv_version = Some 0, gv_object_ids = False\<rparr>"

definition dog_schema :: "property list \<Rightarrow> schema" where
  "dog_schema ps = [object_schema_of ''Dog'' ps []]"

definition int_property_at :: "string \<Rightarrow> property_type \<Rightarrow> 64 word \<Rightarrow> property" where
  "int_property_at n ty i = (int_property n ty False)\<lparr>pr_table_column := i\<rparr>"

definition renamed_dog :: "core_column list \<Rightarrow> property list \<Rightarrow> rename_error + group_view \<times> schema" where
  "renamed_dog cs ps = rename_property list_core (dog_schema ps) ''Dog'' ''b'' ''a'' (dog_file cs)"

definition b_before_a :: "core_column list" where
  "b_before_a = [int_column ''b'', int_column ''c'', (int_column ''a'')\<lparr>cc_nullable := True\<rparr>]"

lemma b_before_a_ok:
  "file_ok (co_view list_core (dog_file b_before_a))"
  "class_columns (co_view list_core (dog_file b_before_a)) ''Dog'' = Some b_before_a"
  "property_for_name ''b'' (object_schema_from_group (co_view list_core (dog_file b_before_a)) ''Dog'' b_before_a) = Some (int_property_at ''b'' PT_Int 0)"
  "property_for_name ''a'' (object_schema_from_group (co_view list_core (dog_file b_before_a)) ''Dog'' b_before_a) =
     Some (int_property_at ''a'' (PT_Int OR PT_Nullable) 2)"
  "column_position (int_property_at ''b'' PT_Int 0) < column_position (int_property_at ''a'' (PT_Int OR PT_Nullable) 2)"
  "storable (int_property_at ''a'' (PT_Int OR PT_Nullable) 2) \<and> linked (co_view list_core (dog_file b_before_a)) (int_property_at ''a'' (PT_Int OR PT_Nullable) 2)"
  by code_simp+

definition a_and_c :: "property list" where
  "a_and_c = [int_property_at ''a'' (PT_Int OR PT_Nullable) 2, int_property_at ''c'' PT_Int 1]"

lemma rename_dog_done:
  "schema_find ''Dog'' (dog_schema a_and_c) = Some 0"
  "renamed_dog b_before_a a_and_c = Inr (dog_file [(int_column ''a'')\<lparr>cc_nullable := True\<rparr>, int_column ''c''],
     dog_schema [int_property_at ''a'' (PT_Int OR PT_Nullable) 0, int_property_at ''c'' PT_Int 1])"
  by code_simp+

theorem rename_property_merges_witness:
  "class_columns (co_view list_core (dog_file [(int_column ''a'')\<lparr>cc_nullable := True\<rparr>, int_column ''c''])) =
     (class_columns (co_view list_core (dog_file b_before_a)))
       (''Dog'' \<mapsto> merged_columns (int_property_at ''b'' PT_Int 0) (int_property_at ''a'' (PT_Int OR PT_Nullable) 2) b_before_a)"
  using rename_property_merges[OF list_core_ok b_before_a_ok(1-5) b_before_a_ok(6) rename_dog_done(1) rename_dog_done(2)[unfolded renamed_dog_def]]
  by blast

text \<open>
  When the new property's column is in front, removing it moves the others, but the code goes on with the old position: the optional
  column is made behind the renamed one, with a column of the same name in front, and the column that is removed is another property's.
\<close>

lemma rename_loses_column:
  "map_sum id (\<lambda>r. map (map cc_name \<circ> snd) (gv_tables (fst r)))
     (renamed_dog [(int_column ''a'')\<lparr>cc_nullable := True\<rparr>, int_column ''b'', int_column ''c'']
       [int_property_at ''a'' (PT_Int OR PT_Nullable) 0, int_property_at ''c'' PT_Int 2]) = Inr [[''a'', ''a'']]"
  by code_simp

text \<open>Types are compared without their flags: the column of a list of integers takes the name of an integer property.\<close>

lemma rename_ignores_arrays:
  "map_sum id (\<lambda>r. map (map cc_type \<circ> snd) (gv_tables (fst r)))
     (renamed_dog [(int_column ''b'')\<lparr>cc_type := type_Table [(ArrayColumnName, type_Int, False)]\<rparr>, int_column ''a'']
       [int_property_at ''a'' PT_Int 1]) = Inr [[type_Table [(ArrayColumnName, type_Int, False)]]]"
  by code_simp

end
