(* ===== verification/DeepChange.thy ===== *)
theory DeepChange
  imports LogObserver
begin

text \<open>
  \<open>DeepChangeChecker\<close> and \<open>CollectionNotifier::get_modification_checker\<close> (\<open>impl/collection_notifier.cpp\<close>): whether a row counts as
  modified because an object that it links to was. The tables are a parameter: the kinds of their columns and the rows that
  a row links to. A table is its index in the group, and a table without one (a subtable) has an index behind the last.
\<close>

section \<open>Tables\<close>

datatype column_kind = PlainColumn | LinkColumn nat | LinkListColumn nat

record link_graph =
  lg_columns :: "column_kind list list"
  lg_link :: "nat \<Rightarrow> nat \<Rightarrow> nat \<Rightarrow> nat option"
  lg_link_list :: "nat \<Rightarrow> nat \<Rightarrow> nat \<Rightarrow> nat list"

fun link_target_of :: "column_kind \<Rightarrow> nat option" where
  "link_target_of PlainColumn = None"
| "link_target_of (LinkColumn t) = Some t"
| "link_target_of (LinkListColumn t) = Some t"

record outgoing_link =
  ol_col :: nat
  ol_is_list :: bool

record related_table =
  rt_table :: nat
  rt_links :: "outgoing_link list"

section \<open>The tables that a table leads to\<close>

text \<open>Every table is added once, so that the recursion is no deeper than the group has tables.\<close>

fun find_related_tables_within :: "nat \<Rightarrow> link_graph \<Rightarrow> related_table list \<Rightarrow> nat \<Rightarrow> related_table list" where
  "find_related_tables_within 0 g out t = out"
| "find_related_tables_within (Suc depth) g out t =
     (if t \<ge> length (lg_columns g) \<or> (\<exists>r \<in> set out. rt_table r = t) then out
      else
        let out_index = length out
        in fold (\<lambda>i out.
             case link_target_of (lg_columns g ! t ! i) of
               None \<Rightarrow> out
             | Some u \<Rightarrow>
                 let is_list = (case lg_columns g ! t ! i of LinkListColumn _ \<Rightarrow> True | _ \<Rightarrow> False);
                     r = out ! out_index
                 in find_related_tables_within depth g
                      (out[out_index := r\<lparr>rt_links := rt_links r @ [\<lparr>ol_col = i, ol_is_list = is_list\<rparr>]\<rparr>]) u)
             [0..<length (lg_columns g ! t)] (out @ [\<lparr>rt_table = t, rt_links = []\<rparr>]))"

definition find_related_tables :: "link_graph \<Rightarrow> nat \<Rightarrow> related_table list" where
  "find_related_tables g t = find_related_tables_within (length (lg_columns g)) g [] t"

section \<open>The checker\<close>

record path_entry =
  pe_table :: nat
  pe_row :: nat
  pe_col :: nat
  pe_depth_exceeded :: bool

record checker =
  dc_not_modified :: "crv list"
  dc_path :: "path_entry list"

definition max_depth :: nat where "max_depth = 4"

definition new_checker :: checker where
  "new_checker = \<lparr>dc_not_modified = [],
     dc_path = replicate max_depth \<lparr>pe_table = 0, pe_row = 0, pe_col = 0, pe_depth_exceeded = False\<rparr>\<rparr>"

definition row_modified :: "change_builder list \<Rightarrow> nat \<Rightarrow> nat \<Rightarrow> bool" where
  "row_modified tables t row \<longleftrightarrow> t < length tables \<and> is_contains (modifications (tables ! t)) row"

definition flag_from :: "nat \<Rightarrow> nat \<Rightarrow> path_entry list \<Rightarrow> path_entry list" where
  "flag_from match stop path =
     map (\<lambda>(i, p). if match \<le> i \<and> i < stop then p\<lparr>pe_depth_exceeded := True\<rparr> else p) (zip [0..<length path] path)"

definition already_checking :: "nat \<Rightarrow> nat \<Rightarrow> nat \<Rightarrow> nat \<Rightarrow> checker \<Rightarrow> bool \<times> checker" where
  "already_checking t row col depth c =
     (let match = length (takeWhile (\<lambda>p. \<not> (pe_table p = t \<and> pe_row p = row \<and> pe_col p = col)) (take depth (dc_path c)))
      in if match < depth then (True, c\<lparr>dc_path := flag_from match depth (dc_path c)\<rparr>)
         else (False, c\<lparr>dc_path := (dc_path c)[depth := \<lparr>pe_table = t, pe_row = row, pe_col = col, pe_depth_exceeded = False\<rparr>]\<rparr>))"

definition link_rows :: "link_graph \<Rightarrow> nat \<Rightarrow> nat \<Rightarrow> outgoing_link \<Rightarrow> nat list" where
  "link_rows g t row l =
     (if \<not> ol_is_list l then case lg_link g t (ol_col l) row of None \<Rightarrow> [] | Some dst \<Rightarrow> [dst]
      else lg_link_list g t (ol_col l) row)"

definition link_table :: "link_graph \<Rightarrow> nat \<Rightarrow> outgoing_link \<Rightarrow> nat" where
  "link_table g t l = (case link_target_of (lg_columns g ! t ! ol_col l) of None \<Rightarrow> t | Some u \<Rightarrow> u)"

text \<open>One function each for a row, the links that are left to check, and the rows of a link that are left to check.\<close>

function check_row ::
    "link_graph \<Rightarrow> change_builder list \<Rightarrow> related_table list \<Rightarrow> nat \<Rightarrow> nat \<Rightarrow> nat \<Rightarrow> checker \<Rightarrow> bool \<times> checker"
  and check_outgoing_links ::
    "link_graph \<Rightarrow> change_builder list \<Rightarrow> related_table list \<Rightarrow> nat \<Rightarrow> nat \<Rightarrow> nat \<Rightarrow> outgoing_link list \<Rightarrow> checker \<Rightarrow> bool \<times> checker"
  and check_rows ::
    "link_graph \<Rightarrow> change_builder list \<Rightarrow> related_table list \<Rightarrow> nat \<Rightarrow> nat list \<Rightarrow> nat \<Rightarrow> checker \<Rightarrow> bool \<times> checker" where
  "check_row g tables related t row depth c =
     (if depth \<ge> max_depth then (False, c\<lparr>dc_path := flag_from 0 max_depth (dc_path c)\<rparr>)
      else if depth > 0 \<and> row_modified tables t row then (True, c)
      else
        let c1 = (if length (dc_not_modified c) \<le> t then c\<lparr>dc_not_modified := resize_to (t + 1) [] (dc_not_modified c)\<rparr> else c)
        in if is_contains (dc_not_modified c1 ! t) row then (False, c1)
           else
             let (ret, c2) = (case List.find (\<lambda>r. rt_table r = t) related of
                                None \<Rightarrow> (False, c1)
                              | Some r \<Rightarrow> check_outgoing_links g tables related t row depth (rt_links r) c1)
             in if \<not> ret \<and> (depth = 0 \<or> \<not> pe_depth_exceeded (dc_path c2 ! (depth - 1)))
                then (ret, c2\<lparr>dc_not_modified := (dc_not_modified c2)[t := is_add (dc_not_modified c2 ! t) row]\<rparr>)
                else (ret, c2))"
| "check_outgoing_links g tables related t row depth [] c = (False, c)"
| "check_outgoing_links g tables related t row depth (l # ls) c =
     (let (checking, c1) = already_checking t row (ol_col l) depth c;
          (ret, c2) = (if checking then (False, c1)
                       else check_rows g tables related (link_table g t l) (link_rows g t row l) (depth + 1) c1)
      in if ret then (True, c2) else check_outgoing_links g tables related t row depth ls c2)"
| "check_rows g tables related t [] depth c = (False, c)"
| "check_rows g tables related t (row # rows) depth c =
     (let (ret, c1) = check_row g tables related t row depth c
      in if ret then (True, c1) else check_rows g tables related t rows depth c1)"
  by pat_completeness auto
termination
  by (relation "measures [
      \<lambda>x. case x of Inl (_, _, _, _, _, depth, _) \<Rightarrow> max_depth - depth
        | Inr (Inl (_, _, _, _, _, depth, _, _)) \<Rightarrow> max_depth - depth
        | Inr (Inr (_, _, _, _, _, depth, _)) \<Rightarrow> max_depth - depth,
      \<lambda>x. case x of Inl _ \<Rightarrow> 1
        | Inr (Inl (_, _, _, _, _, depth, _, _)) \<Rightarrow> if depth \<ge> max_depth then 3 else 0
        | Inr (Inr _) \<Rightarrow> 2,
      \<lambda>x. case x of Inl _ \<Rightarrow> 0
        | Inr (Inl (_, _, _, _, _, _, ls, _)) \<Rightarrow> length ls
        | Inr (Inr (_, _, _, _, rows, _, _)) \<Rightarrow> length rows]") (auto simp: max_depth_def)

declare check_row.simps [simp del]

text \<open>\<open>operator()\<close>: the modifications of the root table are looked up first.\<close>

definition deep_check :: "link_graph \<Rightarrow> change_builder list \<Rightarrow> related_table list \<Rightarrow> nat \<Rightarrow> nat \<Rightarrow> checker \<Rightarrow> bool \<times> checker" where
  "deep_check g tables related root row c =
     (if row_modified tables root row then (True, c) else check_row g tables related root row 0 c)"

text \<open>
  \<open>get_modification_checker\<close> decides which check is made; the related tables are read again when the schema changed. The function that it
  returns is called for one row after the other, and the last kind keeps its checker.
\<close>

datatype row_check = NeverModified | InModifications nat | DeepCheck "related_table list"

definition get_modification_checker :: "link_graph \<Rightarrow> change_info \<Rightarrow> related_table list \<Rightarrow> nat \<Rightarrow> related_table list \<times> row_check" where
  "get_modification_checker g info related root =
     (let related = (if ci_schema_changed info then find_related_tables g root else related)
      in (related,
          if \<not> (\<exists>r \<in> set related. rt_table r < length (ci_tables info) \<and> modifications (ci_tables info ! rt_table r) \<noteq> []) then NeverModified
          else if length related = 1 then InModifications (rt_table (related ! 0))
          else DeepCheck related))"

fun row_did_change :: "link_graph \<Rightarrow> change_info \<Rightarrow> nat \<Rightarrow> row_check \<Rightarrow> nat \<Rightarrow> checker \<Rightarrow> bool \<times> checker" where
  "row_did_change g info root NeverModified row c = (False, c)"
| "row_did_change g info root (InModifications t) row c = (is_contains (modifications (ci_tables info ! t)) row, c)"
| "row_did_change g info root (DeepCheck related) row c = deep_check g (ci_tables info) related root row c"

end
