(* ===== verification/DeepChangeSearch.thy ===== *)
theory DeepChangeSearch
  imports DeepChange IndexSetAdd
begin

text \<open>
  What the deep check decides: whether a modified row is at most three links away. The search keeps rows that cannot be modified
  for the whole run, so that it must not record a row whose search was cut short by the limit of the depth or by a cycle.
\<close>

section \<open>Specification\<close>

type_synonym row = "nat \<times> nat"

definition graph_links :: "link_graph \<Rightarrow> nat \<Rightarrow> outgoing_link list" where
  "graph_links g t =
     (if t < length (lg_columns g) then
        List.map_filter (\<lambda>i. case lg_columns g ! t ! i of
            PlainColumn \<Rightarrow> None
          | LinkColumn _ \<Rightarrow> Some \<lparr>ol_col = i, ol_is_list = False\<rparr>
          | LinkListColumn _ \<Rightarrow> Some \<lparr>ol_col = i, ol_is_list = True\<rparr>) [0..<length (lg_columns g ! t)]
      else [])"

definition linked_rows :: "link_graph \<Rightarrow> row \<Rightarrow> outgoing_link \<Rightarrow> row list" where
  "linked_rows g x l = map (Pair (link_table g (fst x) l)) (link_rows g (fst x) (snd x) l)"

fun changed_within :: "(nat \<Rightarrow> outgoing_link list) \<Rightarrow> link_graph \<Rightarrow> change_builder list \<Rightarrow> nat \<Rightarrow> row \<Rightarrow> bool" where
  "changed_within links g tables 0 x = row_modified tables (fst x) (snd x)"
| "changed_within links g tables (Suc n) x =
     (row_modified tables (fst x) (snd x) \<or>
      (\<exists>l \<in> set (links (fst x)). \<exists>y \<in> set (linked_rows g x l). changed_within links g tables n y))"

text \<open>The same with the links that are being checked left out; a link is given by its row and its column.\<close>

fun changed_avoiding ::
  "(nat \<Rightarrow> outgoing_link list) \<Rightarrow> link_graph \<Rightarrow> change_builder list \<Rightarrow> (row \<times> nat) set \<Rightarrow> nat \<Rightarrow> row \<Rightarrow> bool" where
  "changed_avoiding links g tables A 0 x = row_modified tables (fst x) (snd x)"
| "changed_avoiding links g tables A (Suc n) x =
     (row_modified tables (fst x) (snd x) \<or>
      (\<exists>l \<in> set (links (fst x)). (x, ol_col l) \<notin> A \<and> (\<exists>y \<in> set (linked_rows g x l). changed_avoiding links g tables A n y)))"

lemma changed_within_mono: "m \<le> n \<Longrightarrow> changed_within links g tables m x \<Longrightarrow> changed_within links g tables n x"
proof (induction m arbitrary: n x)
  case 0
  then show ?case by (cases n) auto
next
  case (Suc m)
  then obtain k where k: "n = Suc k" "m \<le> k" by (cases n) auto
  show ?case using Suc.prems(2) Suc.IH[OF k(2)] unfolding k(1) changed_within.simps by blast
qed

lemma changed_avoiding_none: "changed_avoiding links g tables {} n x = changed_within links g tables n x"
  by (induction n arbitrary: x) auto

lemma changed_avoiding_or_through:
  "changed_avoiding links g tables A m y \<Longrightarrow>
     changed_avoiding links g tables (insert (x, c) A) m y \<or> (\<exists>k \<le> m. changed_avoiding links g tables A k x)"
proof (induction m arbitrary: y)
  case (Suc m)
  show ?case
  proof (cases "row_modified tables (fst y) (snd y)")
    case False
    then obtain l z where l: "l \<in> set (links (fst y))" "(y, ol_col l) \<notin> A" "z \<in> set (linked_rows g y l)" "changed_avoiding links g tables A m z"
      using Suc.prems by auto
    show ?thesis
    proof (cases "y = x")
      case True
      then show ?thesis using Suc.prems by blast
    next
      case False
      from Suc.IH[OF l(4)] show ?thesis
      proof
        assume "changed_avoiding links g tables (insert (x, c) A) m z"
        then show ?thesis using l False by auto
      next
        assume "\<exists>k\<le>m. changed_avoiding links g tables A k x"
        then show ?thesis using le_SucI by blast
      qed
    qed
  qed simp
qed simp

text \<open>A row that is changed is so by way of a link that the rest of the way does not use.\<close>

lemma changed_avoiding_first:
  assumes "changed_avoiding links g tables A n x" and "\<not> row_modified tables (fst x) (snd x)"
  shows "\<exists>l \<in> set (links (fst x)). (x, ol_col l) \<notin> A \<and>
    (\<exists>m. Suc m \<le> n \<and> (\<exists>y \<in> set (linked_rows g x l). changed_avoiding links g tables (insert (x, ol_col l) A) m y))"
proof -
  let ?P = "\<lambda>n. changed_avoiding links g tables A n x"
  define n0 where "n0 = (LEAST n. ?P n)"
  have p: "?P n0" and least: "\<And>k. ?P k \<Longrightarrow> n0 \<le> k" and "n0 \<le> n"
    using LeastI[of ?P, OF assms(1)] Least_le[of ?P] assms(1) by (simp_all add: n0_def)
  obtain m where m: "n0 = Suc m" using p assms(2) by (cases n0) auto
  then obtain l y where l: "l \<in> set (links (fst x))" "(x, ol_col l) \<notin> A" "y \<in> set (linked_rows g x l)" "changed_avoiding links g tables A m y"
    using p assms(2) by auto
  have "\<not> (\<exists>k \<le> m. ?P k)" using least m by (meson Suc_n_not_le_n le_trans)
  then have "changed_avoiding links g tables (insert (x, ol_col l) A) m y" using changed_avoiding_or_through[OF l(4)] by blast
  then show ?thesis using l m \<open>n0 \<le> n\<close> by blast
qed

section \<open>Closed searches\<close>

text \<open>The rows of \<open>T\<close> lead only to rows that are not modified, by way of the open links \<open>A\<close>, or to the rows \<open>N\<close>.\<close>

definition closed_search ::
  "(nat \<Rightarrow> outgoing_link list) \<Rightarrow> link_graph \<Rightarrow> change_builder list \<Rightarrow> (row \<times> nat) set \<Rightarrow> row set \<Rightarrow> row set \<Rightarrow> bool" where
  "closed_search links g tables A N T \<longleftrightarrow>
     (\<exists>V. T \<subseteq> V \<union> N \<and>
        (\<forall>y \<in> V. \<not> row_modified tables (fst y) (snd y) \<and>
           (\<forall>l \<in> set (links (fst y)). (y, ol_col l) \<in> A \<or> set (linked_rows g y l) \<subseteq> V \<union> N)))"

lemma closed_search_mono: "closed_search links g tables A N T \<Longrightarrow> N \<subseteq> N' \<Longrightarrow> closed_search links g tables A N' T"
  unfolding closed_search_def by (elim exE) (rule_tac x = V in exI, blast)

lemma closed_search_known: "T \<subseteq> N \<Longrightarrow> closed_search links g tables A N T"
  unfolding closed_search_def by (intro exI[of _ "{}"]) auto

lemma closed_search_un:
  assumes "closed_search links g tables A N S" "closed_search links g tables A N T"
  shows "closed_search links g tables A N (S \<union> T)"
proof -
  obtain V W where "S \<subseteq> V \<union> N" "T \<subseteq> W \<union> N"
    "\<forall>y \<in> V. \<not> row_modified tables (fst y) (snd y) \<and> (\<forall>l \<in> set (links (fst y)). (y, ol_col l) \<in> A \<or> set (linked_rows g y l) \<subseteq> V \<union> N)"
    "\<forall>y \<in> W. \<not> row_modified tables (fst y) (snd y) \<and> (\<forall>l \<in> set (links (fst y)). (y, ol_col l) \<in> A \<or> set (linked_rows g y l) \<subseteq> W \<union> N)"
    using assms unfolding closed_search_def by blast
  then show ?thesis unfolding closed_search_def by (intro exI[of _ "V \<union> W"]) blast
qed

lemma closed_search_row:
  assumes "\<not> row_modified tables (fst x) (snd x)" and d: "distinct (map ol_col (links (fst x)))"
    and ls: "\<forall>l \<in> set (links (fst x)). (x, ol_col l) \<in> A \<or> closed_search links g tables (insert (x, ol_col l) A) N (set (linked_rows g x l))"
  shows "closed_search links g tables A N {x}"
proof -
  let ?ok = "\<lambda>V l. set (linked_rows g x l) \<subseteq> V \<union> N \<and> (\<forall>y \<in> V. \<not> row_modified tables (fst y) (snd y) \<and>
      (\<forall>k \<in> set (links (fst y)). (y, ol_col k) \<in> insert (x, ol_col l) A \<or> set (linked_rows g y k) \<subseteq> V \<union> N))"
  let ?ls = "{l \<in> set (links (fst x)). (x, ol_col l) \<notin> A}"
  have "\<forall>l \<in> ?ls. \<exists>V. ?ok V l" using ls unfolding closed_search_def by blast
  from bchoice[OF this] obtain V where "\<forall>l \<in> ?ls. ?ok (V l) l" by (elim exE)
  then have V: "?ok (V l) l" if "l \<in> ?ls" for l using that by blast
  let ?V = "insert x (\<Union>l \<in> ?ls. V l)"
  have one: "set (linked_rows g x l) \<subseteq> ?V \<union> N" if "l \<in> ?ls" for l using V[OF that] that by blast
  have same: "k = l" if "k \<in> set (links (fst x))" "l \<in> set (links (fst x))" "ol_col k = ol_col l" for k l
    using d that by (meson distinct_map inj_onD)
  have "\<not> row_modified tables (fst y) (snd y) \<and> (\<forall>k \<in> set (links (fst y)). (y, ol_col k) \<in> A \<or> set (linked_rows g y k) \<subseteq> ?V \<union> N)"
    if y: "y \<in> ?V" for y
  proof (cases "y = x")
    case True
    then show ?thesis using assms(1) one by blast
  next
    case False
    then obtain l where l: "l \<in> ?ls" "y \<in> V l" using y by blast
    then show ?thesis using V[OF l(1)] False by blast
  qed
  then show ?thesis unfolding closed_search_def by (intro exI[of _ ?V]) blast
qed

lemma closed_search_unchanged:
  assumes c: "closed_search links g tables {} N T" and n: "\<forall>y \<in> N. \<not> changed_within links g tables n y" and x: "x \<in> T"
  shows "\<not> changed_within links g tables n x"
proof -
  obtain V where V: "T \<subseteq> V \<union> N" "\<And>y. y \<in> V \<Longrightarrow> \<not> row_modified tables (fst y) (snd y) \<and> (\<forall>l \<in> set (links (fst y)). set (linked_rows g y l) \<subseteq> V \<union> N)"
    using c unfolding closed_search_def empty_iff simp_thms by blast
  have "\<not> changed_within links g tables m y" if "m \<le> n" "y \<in> V \<union> N" for m y
    using that
  proof (induction m arbitrary: y)
    case 0
    then show ?case using V(2)[of y] n changed_within_mono[of 0 n links g tables y] by auto
  next
    case (Suc m)
    show ?case
    proof (cases "y \<in> N")
      case True
      then show ?thesis using n changed_within_mono[OF Suc.prems(1)] by blast
    next
      case False
      then show ?thesis using V(2)[of y] Suc.IH Suc.prems by fastforce
    qed
  qed
  then show ?thesis using V(1) x by blast
qed


text \<open>The search against its specification: what a row, the links of a row and the rows of a link leave behind.\<close>

section \<open>The state of the search\<close>

definition related_links :: "related_table list \<Rightarrow> nat \<Rightarrow> outgoing_link list" where
  "related_links related t = (case List.find (\<lambda>r. rt_table r = t) related of None \<Rightarrow> [] | Some r \<Rightarrow> rt_links r)"

definition known_rows :: "checker \<Rightarrow> row set" where
  "known_rows c = {(t, r). t < length (dc_not_modified c) \<and> r \<in> elems (dc_not_modified c ! t)}"

definition checker_ok :: "(nat \<Rightarrow> outgoing_link list) \<Rightarrow> link_graph \<Rightarrow> change_builder list \<Rightarrow> checker \<Rightarrow> bool" where
  "checker_ok links g tables c \<longleftrightarrow>
     length (dc_path c) = max_depth \<and> (\<forall>s \<in> set (dc_not_modified c). crv_wf s) \<and>
     (\<forall>x \<in> known_rows c. \<not> changed_within links g tables 3 x)"

definition entry_link :: "path_entry \<Rightarrow> row \<times> nat" where
  "entry_link p = ((pe_table p, pe_row p), pe_col p)"

definition open_links :: "nat \<Rightarrow> nat \<Rightarrow> checker \<Rightarrow> (row \<times> nat) set" where
  "open_links a d c = (\<lambda>i. entry_link (dc_path c ! i)) ` {a..<d}"

abbreviation exceeded :: "checker \<Rightarrow> nat \<Rightarrow> bool" where
  "exceeded c i \<equiv> pe_depth_exceeded (dc_path c ! i)"

text \<open>Below the depth at which the search works, the path keeps its links and its flags.\<close>

definition goes_on :: "nat \<Rightarrow> checker \<Rightarrow> checker \<Rightarrow> bool" where
  "goes_on d c c' \<longleftrightarrow>
     known_rows c \<subseteq> known_rows c' \<and> length (dc_not_modified c) \<le> length (dc_not_modified c') \<and>
     (\<forall>i < d. entry_link (dc_path c' ! i) = entry_link (dc_path c ! i) \<and> (exceeded c i \<longrightarrow> exceeded c' i))"

lemma goes_on_refl [simp]: "goes_on d c c"
  by (simp add: goes_on_def)

lemma goes_on_trans: "goes_on d a b \<Longrightarrow> goes_on d b c \<Longrightarrow> goes_on d a c"
  by (auto simp: goes_on_def)

lemma goes_on_less: "goes_on e a b \<Longrightarrow> d \<le> e \<Longrightarrow> goes_on d a b"
  by (auto simp: goes_on_def)

lemma goes_on_open: "goes_on d c c' \<Longrightarrow> open_links a d c' = open_links a d c"
  by (auto simp: goes_on_def open_links_def)

lemma flag_from_nth: "i < length path \<Longrightarrow> flag_from m n path ! i = (if m \<le> i \<and> i < n then (path ! i)\<lparr>pe_depth_exceeded := True\<rparr> else path ! i)"
  by (simp add: flag_from_def)

lemma length_flag_from [simp]: "length (flag_from m n path) = length path"
  by (simp add: flag_from_def)

lemma entry_flagged [simp]: "entry_link (p\<lparr>pe_depth_exceeded := b\<rparr>) = entry_link p"
  by (simp add: entry_link_def)

lemma path_update_sel [simp]:
  "known_rows (c\<lparr>dc_path := p\<rparr>) = known_rows c"
  by (simp add: known_rows_def)

lemma already_checking_cases:
  assumes "length (dc_path c) = max_depth" "depth < max_depth"
  obtains (yes) m c1 where "m < depth" "already_checking t row col depth c = (True, c1)" "c1 = c\<lparr>dc_path := flag_from m depth (dc_path c)\<rparr>"
      "entry_link (dc_path c ! m) = ((t, row), col)" "goes_on depth c c1"
  | (no) c1 where "already_checking t row col depth c = (False, c1)" "((t, row), col) \<notin> open_links 0 depth c"
      "\<And>a. a \<le> depth \<Longrightarrow> open_links a (Suc depth) c1 = insert ((t, row), col) (open_links a depth c)" "goes_on depth c c1"
      "c1 = c\<lparr>dc_path := (dc_path c)[depth := \<lparr>pe_table = t, pe_row = row, pe_col = col, pe_depth_exceeded = False\<rparr>]\<rparr>"
proof -
  let ?other = "\<lambda>p. \<not> (pe_table p = t \<and> pe_row p = row \<and> pe_col p = col)"
  let ?m = "length (takeWhile ?other (take depth (dc_path c)))"
  have len: "length (take depth (dc_path c)) = depth" using assms by simp
  show ?thesis
  proof (cases "?m < depth")
    case True
    have "\<not> ?other (take depth (dc_path c) ! ?m)" by (rule nth_length_takeWhile) (use True len in simp)
    then have "entry_link (dc_path c ! ?m) = ((t, row), col)" using True by (simp add: entry_link_def)
    moreover have "goes_on depth c (c\<lparr>dc_path := flag_from ?m depth (dc_path c)\<rparr>)"
      using assms by (auto simp: goes_on_def flag_from_nth)
    ultimately show ?thesis using True by (intro yes[of ?m]) (simp_all add: already_checking_def Let_def)
  next
    case False
    have le: "?m \<le> depth" using length_takeWhile_le[of ?other "take depth (dc_path c)"] len by simp
    have all: "?other (dc_path c ! i)" if "i < depth" for i
    proof -
      have "?m = length (take depth (dc_path c))" using False le len by linarith
      then have tw: "takeWhile ?other (take depth (dc_path c)) = take depth (dc_path c)"
        using takeWhile_eq_take[of ?other "take depth (dc_path c)"] by (simp only: take_all_iff order_refl)
      have "take depth (dc_path c) ! i \<in> set (takeWhile ?other (take depth (dc_path c)))"
        unfolding tw by (rule nth_mem) (use that len in simp)
      from set_takeWhileD[OF this] that show ?thesis by simp
    qed
    let ?c1 = "c\<lparr>dc_path := (dc_path c)[depth := \<lparr>pe_table = t, pe_row = row, pe_col = col, pe_depth_exceeded = False\<rparr>]\<rparr>"
    have "open_links a (Suc depth) ?c1 = insert ((t, row), col) (open_links a depth c)" if "a \<le> depth" for a
      using that assms by (auto simp: open_links_def atLeastLessThanSuc entry_link_def nth_list_update image_iff)
    moreover have "((t, row), col) \<notin> open_links 0 depth c" 
    proof
      assume "((t, row), col) \<in> open_links 0 depth c"
      then obtain i where "i < depth" "entry_link (dc_path c ! i) = ((t, row), col)" by (auto simp: open_links_def)
      then show False using all[of i] by (simp add: entry_link_def)
    qed
    moreover have "goes_on depth c ?c1" by (auto simp: goes_on_def)
    ultimately show ?thesis using False by (intro no[of ?c1]) (simp_all add: already_checking_def Let_def)
  qed
qed

section \<open>What the functions leave behind\<close>

definition row_post :: "(nat \<Rightarrow> outgoing_link list) \<Rightarrow> link_graph \<Rightarrow> change_builder list \<Rightarrow> nat \<Rightarrow> row set \<Rightarrow> checker \<Rightarrow> bool \<Rightarrow> checker \<Rightarrow> bool" where
  "row_post links g tables d X c found c' \<longleftrightarrow>
     checker_ok links g tables c' \<and> goes_on d c c' \<and>
     (found \<longrightarrow> d < max_depth \<and> (\<exists>x \<in> X. changed_within links g tables (3 - d) x)) \<and>
     (\<not> found \<longrightarrow> d < max_depth \<longrightarrow> (\<forall>x \<in> X. \<not> changed_avoiding links g tables (open_links 0 d c) (3 - d) x)) \<and>
     (\<not> found \<longrightarrow> (\<forall>b. 0 < b \<and> b \<le> d \<and> \<not> exceeded c' (b - 1) \<longrightarrow> closed_search links g tables (open_links b d c) (known_rows c') X))"

definition links_post ::
  "(nat \<Rightarrow> outgoing_link list) \<Rightarrow> link_graph \<Rightarrow> change_builder list \<Rightarrow> nat \<Rightarrow> row \<Rightarrow> outgoing_link list \<Rightarrow> checker \<Rightarrow> bool \<Rightarrow> checker \<Rightarrow> bool" where
  "links_post links g tables d x ls c found c' \<longleftrightarrow>
     checker_ok links g tables c' \<and> goes_on d c c' \<and>
     (found \<longrightarrow> Suc d < max_depth \<and> (\<exists>l \<in> set ls. \<exists>y \<in> set (linked_rows g x l). changed_within links g tables (3 - Suc d) y)) \<and>
     (\<not> found \<longrightarrow> Suc d < max_depth \<longrightarrow> (\<forall>l \<in> set ls. (x, ol_col l) \<in> open_links 0 d c \<or>
        (\<forall>y \<in> set (linked_rows g x l). \<not> changed_avoiding links g tables (insert (x, ol_col l) (open_links 0 d c)) (3 - Suc d) y))) \<and>
     (\<not> found \<longrightarrow> (\<forall>b. 0 < b \<and> b \<le> d \<and> \<not> exceeded c' (b - 1) \<longrightarrow> (\<forall>l \<in> set ls. (x, ol_col l) \<in> open_links b d c \<or>
        closed_search links g tables (insert (x, ol_col l) (open_links b d c)) (known_rows c') (set (linked_rows g x l)))))"

lemma rows_post_empty: "checker_ok links g tables c \<Longrightarrow> row_post links g tables d {} c False c"
  by (simp add: row_post_def closed_search_known)

lemma rows_post_more:
  assumes "row_post links g tables d X c False c1" "row_post links g tables d Y c1 found c2"
  shows "row_post links g tables d (X \<union> Y) c found c2"
proof -
  have go: "goes_on d c c1" "goes_on d c1 c2" and ok: "checker_ok links g tables c2" using assms by (simp_all add: row_post_def)
  have o: "open_links b d c1 = open_links b d c" for b using goes_on_open[OF go(1)] .
  have r: "found \<Longrightarrow> d < max_depth \<and> (\<exists>x \<in> X \<union> Y. changed_within links g tables (3 - d) x)" using assms(2) by (auto simp: row_post_def)
  have a: "\<forall>x \<in> X \<union> Y. \<not> changed_avoiding links g tables (open_links 0 d c) (3 - d) x" if "\<not> found" "d < max_depth"
    using assms that unfolding row_post_def o by blast
  have b: "closed_search links g tables (open_links b d c) (known_rows c2) (X \<union> Y)" if n: "\<not> found" and b: "0 < b" "b \<le> d" "\<not> exceeded c2 (b - 1)" for b
  proof (rule closed_search_un)
    have "\<not> exceeded c1 (b - 1)" using go(2) b by (auto simp: goes_on_def)
    then have "closed_search links g tables (open_links b d c) (known_rows c1) X" using assms(1) b by (auto simp: row_post_def)
    then show "closed_search links g tables (open_links b d c) (known_rows c2) X"
      by (rule closed_search_mono) (use go(2) in \<open>simp add: goes_on_def\<close>)
    show "closed_search links g tables (open_links b d c) (known_rows c2) Y" using assms(2) n b unfolding row_post_def o by blast
  qed
  show ?thesis unfolding row_post_def using ok goes_on_trans[OF go] r a b by blast
qed

section \<open>One row\<close>

definition sized :: "nat \<Rightarrow> checker \<Rightarrow> checker" where
  "sized t c = (if length (dc_not_modified c) \<le> t then c\<lparr>dc_not_modified := resize_to (t + 1) [] (dc_not_modified c)\<rparr> else c)"

definition settle :: "nat \<Rightarrow> nat \<Rightarrow> nat \<Rightarrow> bool \<Rightarrow> checker \<Rightarrow> checker" where
  "settle depth t row found c =
     (if \<not> found \<and> (depth = 0 \<or> \<not> exceeded c (depth - 1))
      then c\<lparr>dc_not_modified := (dc_not_modified c)[t := is_add (dc_not_modified c ! t) row]\<rparr> else c)"

lemma check_row_eq:
  "check_row g tables related t row depth c =
     (if depth \<ge> max_depth then (False, c\<lparr>dc_path := flag_from 0 max_depth (dc_path c)\<rparr>)
      else if depth > 0 \<and> row_modified tables t row then (True, c)
      else if is_contains (dc_not_modified (sized t c) ! t) row then (False, sized t c)
      else let r = check_outgoing_links g tables related t row depth (related_links related t) (sized t c)
           in (fst r, settle depth t row (fst r) (snd r)))"
proof -
  let ?r = "check_outgoing_links g tables related t row depth (related_links related t) (sized t c)"
  obtain found c2 where r: "?r = (found, c2)" by (cases ?r)
  have e: "(case List.find (\<lambda>r. rt_table r = t) related of None \<Rightarrow> (False, sized t c)
      | Some r \<Rightarrow> check_outgoing_links g tables related t row depth (rt_links r) (sized t c)) = (found, c2)"
    using r by (auto simp: related_links_def split: option.splits)
  show ?thesis
    unfolding check_row.simps[of g tables related t row depth c] Let_def sized_def[symmetric] e r by (simp add: settle_def)
qed

lemma sized_known [simp]: "known_rows (sized t c) = known_rows c"
proof -
  have "(resize_to (t + 1) [] xs) ! i = (if i < length xs then xs ! i else [])" if "length xs \<le> t" "i < t + 1" for i and xs :: "crv list"
    using that by (simp add: resize_to_def nth_append)
  then show ?thesis by (auto simp: sized_def known_rows_def resize_to_def nth_append elems_def split: if_splits)
qed

lemma sized_ok: "checker_ok links g tables c \<Longrightarrow> checker_ok links g tables (sized t c)"
  using sized_known[of t c] unfolding checker_ok_def by (auto simp: sized_def resize_to_def crv_wf_def dest: in_set_takeD)

lemma sized_sel [simp]: "dc_path (sized t c) = dc_path c" "t < length (dc_not_modified (sized t c))"
  "goes_on d c (sized t c)" "open_links a d (sized t c) = open_links a d c"
  using sized_known[of t c] by (auto simp: sized_def resize_to_def goes_on_def open_links_def)

lemma settle_sel [simp]: "dc_path (settle depth t row found c) = dc_path c"
  by (simp add: settle_def)

lemma settle_known:
  assumes "\<forall>s \<in> set (dc_not_modified c). crv_wf s" "t < length (dc_not_modified c)"
  shows "known_rows (settle depth t row found c) =
    (if \<not> found \<and> (depth = 0 \<or> \<not> exceeded c (depth - 1)) then insert (t, row) (known_rows c) else known_rows c)"
  using assms by (auto simp: settle_def known_rows_def is_add_elems nth_list_update split: if_splits)

lemma changed_avoiding_within: "changed_avoiding links g tables A n x \<Longrightarrow> changed_within links g tables n x"
  by (induction n arbitrary: x) auto

lemma changed_avoiding_mono: "m \<le> n \<Longrightarrow> changed_avoiding links g tables A m x \<Longrightarrow> changed_avoiding links g tables A n x"
proof (induction m arbitrary: n x)
  case 0
  then show ?case by (cases n) auto
next
  case (Suc m)
  then obtain k where k: "n = Suc k" "m \<le> k" by (cases n) auto
  show ?case using Suc.prems(2) Suc.IH[OF k(2)] unfolding k(1) changed_avoiding.simps by blast
qed

lemma row_from_links:
  assumes d: "distinct (map ol_col (links (fst x)))" and x: "\<not> row_modified tables (fst x) (snd x)"
    and p: "links_post links g tables depth x (links (fst x)) c found c'" and depth: "depth < max_depth"
  shows "row_post links g tables depth {x} c found c'"
proof -
  note p' = p[unfolded links_post_def]
  have "changed_within links g tables (3 - depth) x" if "found"
  proof -
    have "3 - depth = Suc (3 - Suc depth)" using p' that by (auto simp: max_depth_def)
    then show ?thesis using p' that by auto
  qed
  moreover have "\<not> changed_avoiding links g tables (open_links 0 depth c) (3 - depth) x" if n: "\<not> found"
  proof
    assume "changed_avoiding links g tables (open_links 0 depth c) (3 - depth) x"
    from changed_avoiding_first[OF this x] obtain l m y where l: "l \<in> set (links (fst x))" "(x, ol_col l) \<notin> open_links 0 depth c"
      "Suc m \<le> 3 - depth" "y \<in> set (linked_rows g x l)" "changed_avoiding links g tables (insert (x, ol_col l) (open_links 0 depth c)) m y"
      by blast
    have less: "Suc depth < max_depth" "m \<le> 3 - Suc depth" using l(3) by (auto simp: max_depth_def)
    show False using p' n less(1) l(1,2,4) changed_avoiding_mono[OF less(2) l(5)] by blast
  qed
  moreover have "closed_search links g tables (open_links b depth c) (known_rows c') {x}"
    if "\<not> found" "0 < b" "b \<le> depth" "\<not> exceeded c' (b - 1)" for b
    by (rule closed_search_row[where links = links and x = x, OF x d]) (use p' that in blast)
  ultimately show ?thesis using p' depth unfolding row_post_def by blast
qed

lemma settle_post:
  assumes p: "row_post links g tables depth {(t, row)} c found c'" and depth: "depth < max_depth" and t: "t < length (dc_not_modified c')"
  shows "row_post links g tables depth {(t, row)} c found (settle depth t row found c')"
proof -
  let ?c = "settle depth t row found c'" and ?mark = "\<not> found \<and> (depth = 0 \<or> \<not> exceeded c' (depth - 1))"
  note p' = p[unfolded row_post_def]
  have wf: "\<forall>s \<in> set (dc_not_modified c'). crv_wf s" using p' by (simp add: checker_ok_def)
  note known = settle_known[OF wf t, of depth row found]
  have "\<not> changed_within links g tables 3 (t, row)" if ?mark
  proof (cases "depth = 0")
    case True
    have "open_links 0 0 c = {}" by (simp add: open_links_def)
    then show ?thesis using p' that True by (simp add: changed_avoiding_none max_depth_def)
  next
    case False
    have "open_links depth depth c = {}" by (simp add: open_links_def)
    moreover have "closed_search links g tables (open_links depth depth c) (known_rows c') {(t, row)}" using p' that False by blast
    ultimately have "closed_search links g tables {} (known_rows c') {(t, row)}" by simp
    then show ?thesis by (rule closed_search_unchanged) (use p' in \<open>auto simp: checker_ok_def\<close>)
  qed
  moreover have "\<forall>s \<in> set (dc_not_modified ?c). crv_wf s" using wf t by (auto simp: settle_def is_add_wf dest!: set_update_subset_insert[THEN subsetD])
  ultimately have "checker_ok links g tables ?c" using p' known by (auto simp: checker_ok_def)
  moreover have "goes_on depth c ?c"
    using p' known by (auto simp: goes_on_def settle_def)
  moreover have "known_rows c' \<subseteq> known_rows ?c" unfolding known by auto
  ultimately show ?thesis using p' closed_search_mono unfolding row_post_def settle_sel by (meson order_refl)
qed

lemma row_post_sized: "row_post links g tables d X (sized t c) found c' \<Longrightarrow> row_post links g tables d X c found c'"
  using goes_on_trans[OF sized_sel(3)[of d c t]] by (simp add: row_post_def)

lemma row_post_length: "row_post links g tables d X c found c' \<Longrightarrow> length (dc_not_modified c) \<le> length (dc_not_modified c')"
  by (simp add: row_post_def goes_on_def)

section \<open>The links of a row\<close>

lemma links_post_empty: "checker_ok links g tables c \<Longrightarrow> links_post links g tables d x [] c False c"
  by (simp add: links_post_def)

lemma links_post_found:
  assumes "row_post links g tables (Suc d) (set (linked_rows g x l)) c1 True c2" "goes_on d c c1"
  shows "links_post links g tables d x (l # ls) c True c2"
proof -
  have "goes_on d c c2" using goes_on_trans[OF assms(2)] goes_on_less[of "Suc d" c1 c2 d] assms(1) by (simp add: row_post_def)
  then show ?thesis using assms(1) by (auto simp: row_post_def links_post_def)
qed

lemma links_post_skip:
  assumes rest: "links_post links g tables d x ls c1 found c'" and go: "goes_on d c c1"
    and m: "m < d" "entry_link (dc_path c ! m) = (x, ol_col l)" "\<And>i. m \<le> i \<Longrightarrow> i < d \<Longrightarrow> exceeded c1 i"
  shows "links_post links g tables d x (l # ls) c found c'"
proof -
  note r = rest[unfolded links_post_def goes_on_open[OF go]]
  have go': "goes_on d c c'" using r goes_on_trans[OF go] by blast
  have "(x, ol_col l) \<in> open_links b d c" if b: "0 < b" "b \<le> d" "\<not> exceeded c' (b - 1)" for b
  proof -
    have "\<not> exceeded c1 (b - 1)" using b r by (auto simp: goes_on_def)
    then have "b \<le> m" using m(3)[of "b - 1"] b by linarith
    then show ?thesis using m(1,2) by (force simp: open_links_def)
  qed
  moreover have "(x, ol_col l) \<in> open_links 0 d c" using m(1,2) by (force simp: open_links_def)
  ultimately show ?thesis using r go' unfolding links_post_def by auto
qed

lemma links_post_next:
  assumes rows: "row_post links g tables (Suc d) (set (linked_rows g x l)) c1 False c2" and go: "goes_on d c c1"
    and opens: "\<And>a. a \<le> d \<Longrightarrow> open_links a (Suc d) c1 = insert (x, ol_col l) (open_links a d c)"
    and rest: "links_post links g tables d x ls c2 found c'"
  shows "links_post links g tables d x (l # ls) c found c'"
proof -
  have go2: "goes_on d c c2" using goes_on_trans[OF go] goes_on_less[of "Suc d" c1 c2 d] rows by (simp add: row_post_def)
  note r = rest[unfolded links_post_def goes_on_open[OF go2]] and w = rows[unfolded row_post_def]
  have go': "goes_on d c c'" using r goes_on_trans[OF go2] by blast
  have "\<forall>y \<in> set (linked_rows g x l). \<not> changed_avoiding links g tables (insert (x, ol_col l) (open_links 0 d c)) (3 - Suc d) y"
    if "Suc d < max_depth" using w that opens[of 0] by simp
  moreover have "closed_search links g tables (insert (x, ol_col l) (open_links b d c)) (known_rows c') (set (linked_rows g x l))"
    if b: "\<not> found" "0 < b" "b \<le> d" "\<not> exceeded c' (b - 1)" for b
  proof (rule closed_search_mono)
    have "\<not> exceeded c2 (b - 1)" using b r by (auto simp: goes_on_def)
    then show "closed_search links g tables (insert (x, ol_col l) (open_links b d c)) (known_rows c2) (set (linked_rows g x l))"
      using w b opens[of b] by fastforce
    show "known_rows c2 \<subseteq> known_rows c'" using r by (simp add: goes_on_def)
  qed
  ultimately show ?thesis using r go' unfolding links_post_def by auto
qed

section \<open>The search\<close>

lemma checker_ok_path: "checker_ok links g tables c \<Longrightarrow> length p = max_depth \<Longrightarrow> checker_ok links g tables (c\<lparr>dc_path := p\<rparr>)"
  by (simp add: checker_ok_def)

lemma linked_rows_set: "set (linked_rows g (t, row) l) = Pair (link_table g t l) ` set (link_rows g t row l)"
  by (simp add: linked_rows_def)

lemma search_correct:
  "(\<forall>t. distinct (map ol_col (related_links related t))) \<Longrightarrow> checker_ok (related_links related) g tables c \<Longrightarrow> depth \<le> max_depth \<Longrightarrow>
     depth = 0 \<longrightarrow> \<not> row_modified tables t row \<Longrightarrow>
     row_post (related_links related) g tables depth {(t, row)} c
       (fst (check_row g tables related t row depth c)) (snd (check_row g tables related t row depth c))"
  "(\<forall>t. distinct (map ol_col (related_links related t))) \<Longrightarrow> checker_ok (related_links related) g tables c' \<Longrightarrow> depth' < max_depth \<Longrightarrow>
     links_post (related_links related) g tables depth' (t', row') ls c'
       (fst (check_outgoing_links g tables related t' row' depth' ls c')) (snd (check_outgoing_links g tables related t' row' depth' ls c'))"
  "(\<forall>t. distinct (map ol_col (related_links related t))) \<Longrightarrow> checker_ok (related_links related) g tables c'' \<Longrightarrow> depth'' \<le> max_depth \<Longrightarrow> 0 < depth'' \<Longrightarrow>
     row_post (related_links related) g tables depth'' (Pair t'' ` set rows) c''
       (fst (check_rows g tables related t'' rows depth'' c'')) (snd (check_rows g tables related t'' rows depth'' c''))"
proof (induction g tables related t row depth c and g tables related t' row' depth' ls c' and g tables related t'' rows depth'' c''
    rule: check_row_check_outgoing_links_check_rows.induct)
  case (1 g tables related t row depth c)
  let ?L = "related_links related"
  consider (deep) "depth = max_depth" | (modified) "depth < max_depth" "0 < depth" "row_modified tables t row"
    | (known) "depth < max_depth" "\<not> row_modified tables t row" "is_contains (dc_not_modified (sized t c) ! t) row"
    | (links) "depth < max_depth" "\<not> row_modified tables t row" "\<not> is_contains (dc_not_modified (sized t c) ! t) row"
    using "1.prems"(3,4) by (cases "depth = max_depth"; cases "row_modified tables t row"; cases "is_contains (dc_not_modified (sized t c) ! t) row"; cases "depth = 0") simp_all
  then show ?case
  proof cases
    case deep
    have len: "length (dc_path c) = max_depth" using "1.prems" by (simp add: checker_ok_def)
    then show ?thesis using deep "1.prems"
      by (simp add: check_row_eq row_post_def checker_ok_path) (auto simp: goes_on_def flag_from_nth split: if_splits)
  next
    case modified
    then have "changed_within ?L g tables (3 - depth) (t, row)" using changed_within_mono[of 0 "3 - depth" ?L g tables "(t, row)"] by simp
    then show ?thesis using modified "1.prems" by (simp add: check_row_eq row_post_def)
  next
    case known
    then have k: "(t, row) \<in> known_rows c"
      using sized_ok[OF "1.prems"(2), of t] sized_known[of t c] by (auto simp: known_rows_def checker_ok_def contains_iff)
    then have "\<not> changed_within ?L g tables 3 (t, row)" using "1.prems"(2) unfolding checker_ok_def by blast
    then have "\<not> changed_avoiding ?L g tables A (3 - depth) (t, row)" for A
      using changed_avoiding_within changed_within_mono[of "3 - depth" 3] by (metis diff_le_self)
    then show ?thesis using known k sized_ok[OF "1.prems"(2)]
      by (simp add: check_row_eq row_post_def closed_search_known)
  next
    case links
    let ?r = "check_outgoing_links g tables related t row depth (?L t) (sized t c)"
    have ok: "checker_ok ?L g tables (sized t c)" using sized_ok "1.prems"(2) .
    have "links_post ?L g tables depth (t, row) (?L t) (sized t c) (fst ?r) (snd ?r)"
    proof (cases "List.find (\<lambda>r. rt_table r = t) related")
      case None
      then have "?L t = []" by (simp add: related_links_def)
      then show ?thesis using links_post_empty[OF ok] by simp
    next
      case (Some r)
      have "\<not> max_depth \<le> depth" "\<not> (0 < depth \<and> row_modified tables t row)" using links by simp_all
      moreover have "?L t = rt_links r" using Some by (simp add: related_links_def)
      ultimately show ?thesis
        using "1.IH"[OF _ _ sized_def _ Some "1.prems"(1) ok links(1)] links(3) by simp
    qed
    then have post: "row_post ?L g tables depth {(t, row)} (sized t c) (fst ?r) (snd ?r)"
      using row_from_links[where x = "(t, row)" and links = ?L] "1.prems"(1) links(1,2) by simp
    have "t < length (dc_not_modified (snd ?r))"
      using less_le_trans[OF sized_sel(2) row_post_length[OF post]] .
    from settle_post[OF post links(1) this] have "row_post ?L g tables depth {(t, row)} c (fst ?r) (settle depth t row (fst ?r) (snd ?r))"
      by (rule row_post_sized)
    then show ?thesis using links by (simp add: check_row_eq Let_def)
  qed
next
  case (2 g tables related t row depth c)
  then show ?case using links_post_empty[OF "2.prems"(2)] by simp
next
  case (3 g tables related t row depth l ls c)
  let ?L = "related_links related" and ?go = "check_rows g tables related (link_table g t l) (link_rows g t row l) (depth + 1)"
  have len: "length (dc_path c) = max_depth" using "3.prems"(2) by (simp add: checker_ok_def)
  have ok: "checker_ok ?L g tables (c\<lparr>dc_path := p\<rparr>)" if "length p = max_depth" for p using checker_ok_path[OF "3.prems"(2) that] .
  show ?case
    using len "3.prems"(3)
  proof (cases rule: already_checking_cases[where t = t and row = row and col = "ol_col l", case_names yes no])
    case (yes m c1)
    have ok1: "checker_ok ?L g tables c1" unfolding yes(3) by (rule ok) (simp add: len)
    have "exceeded c1 i" if "m \<le> i" "i < depth" for i using that len "3.prems"(3) by (simp add: yes(3) flag_from_nth)
    note up = this
    have "links_post ?L g tables depth (t, row) ls c1 (fst (check_outgoing_links g tables related t row depth ls c1))
        (snd (check_outgoing_links g tables related t row depth ls c1))"
      by (rule "3.IH"(2)[OF refl yes(2)[symmetric] refl if_P[OF TrueI, symmetric] not_False_eq_True[THEN eqTrueE] "3.prems"(1) ok1 "3.prems"(3)])
    from links_post_skip[OF this yes(5,1,4) up] show ?thesis using yes(2) by simp
  next
    case (no c1)
    have ok1: "checker_ok ?L g tables c1" unfolding no(5) by (rule ok) (simp add: len)
    obtain found c2 where r: "?go c1 = (found, c2)" by (cases "?go c1")
    have rows: "row_post ?L g tables (Suc depth) (set (linked_rows g (t, row) l)) c1 found c2"
      using "3.IH"(1)[OF refl no(1)[symmetric] _ "3.prems"(1) ok1] "3.prems"(3) r by (simp add: linked_rows_set)
    show ?thesis
    proof (cases found)
      case True
      then show ?thesis using links_post_found[OF rows[unfolded True[THEN eqTrueI]] no(4)] no(1) r by simp
    next
      case False
      have ok2: "checker_ok ?L g tables c2" using rows by (simp add: row_post_def)
      have "links_post ?L g tables depth (t, row) ls c2 (fst (check_outgoing_links g tables related t row depth ls c2))
          (snd (check_outgoing_links g tables related t row depth ls c2))"
        by (rule "3.IH"(2)[OF refl no(1)[symmetric] refl _ _ "3.prems"(1) ok2 "3.prems"(3)]) (use r False in simp_all)
      from links_post_next[OF rows[unfolded False[folded eq_False]] no(4,3) this] show ?thesis using no(1) r False by simp
    qed
  qed
next
  case (4 g tables related t depth c)
  then show ?case using rows_post_empty[OF "4.prems"(2)] by simp
next
  case (5 g tables related t row rows depth c)
  let ?L = "related_links related"
  obtain found c1 where r: "check_row g tables related t row depth c = (found, c1)" by (cases "check_row g tables related t row depth c")
  have one: "row_post ?L g tables depth {(t, row)} c found c1" using "5.IH"(1)[OF "5.prems"(1,2,3)] "5.prems"(4) r by simp
  have set: "Pair t ` set (row # rows) = {(t, row)} \<union> Pair t ` set rows" by auto
  show ?case
  proof (cases found)
    case True
    then show ?thesis using one r by (auto simp: row_post_def)
  next
    case False
    have ok1: "checker_ok ?L g tables c1" using one by (simp add: row_post_def)
    have "row_post ?L g tables depth (Pair t ` set rows) c1 (fst (check_rows g tables related t rows depth c1)) (snd (check_rows g tables related t rows depth c1))"
      by (rule "5.IH"(2)[OF refl r[symmetric] False "5.prems"(1) ok1 "5.prems"(3,4)])
    from rows_post_more[OF one[unfolded False[folded eq_False]] this] show ?thesis unfolding set using r False by simp
  qed
qed

end
