(* ===== verification/DeepChangeTables.thy ===== *)
theory DeepChangeTables
  imports DeepChangeSearch
begin

text \<open>\<open>find_related_tables\<close> finds every table that the links lead to, with all of its links.\<close>

section \<open>Links of the first columns\<close>

definition column_link :: "link_graph \<Rightarrow> nat \<Rightarrow> nat \<Rightarrow> outgoing_link option" where
  "column_link g t i = (case lg_columns g ! t ! i of
      PlainColumn \<Rightarrow> None
    | LinkColumn _ \<Rightarrow> Some \<lparr>ol_col = i, ol_is_list = False\<rparr>
    | LinkListColumn _ \<Rightarrow> Some \<lparr>ol_col = i, ol_is_list = True\<rparr>)"

lemma graph_links_alt: "graph_links g t = (if t < length (lg_columns g) then List.map_filter (column_link g t) [0..<length (lg_columns g ! t)] else [])"
  by (simp add: graph_links_def column_link_def[abs_def])

lemma column_link_iff: "column_link g t i =
    map_option (\<lambda>u. \<lparr>ol_col = i, ol_is_list = (case lg_columns g ! t ! i of LinkListColumn _ \<Rightarrow> True | _ \<Rightarrow> False)\<rparr>)
      (link_target_of (lg_columns g ! t ! i))"
  by (cases "lg_columns g ! t ! i") (simp_all add: column_link_def)

lemma column_link_col: "column_link g t i = Some l \<Longrightarrow> ol_col l = i"
  by (auto simp: column_link_def split: column_kind.splits)

lemma map_filter_snoc: "List.map_filter f (xs @ [x]) = List.map_filter f xs @ (case f x of None \<Rightarrow> [] | Some y \<Rightarrow> [y])"
  by (simp add: List.map_filter_def split: option.splits)

lemma set_map_filter_iff: "y \<in> set (List.map_filter f xs) \<longleftrightarrow> (\<exists>x \<in> set xs. f x = Some y)"
  by (force simp: List.map_filter_def)

lemma distinct_column_links: "distinct (map ol_col (List.map_filter (column_link g t) [0..<j]))"
  by (induction j) (auto simp: map_filter_snoc set_map_filter_iff column_link_col split: option.splits)

lemma distinct_graph_links: "distinct (map ol_col (graph_links g t))"
  by (simp add: graph_links_alt distinct_column_links)

section \<open>The recursion\<close>

declare find_related_tables_within.simps(2) [simp del]

definition table_ids :: "related_table list \<Rightarrow> nat set" where
  "table_ids out = rt_table ` set out"

text \<open>An entry with all links of its table, all of which lead to entries.\<close>

definition entry_done :: "link_graph \<Rightarrow> related_table list \<Rightarrow> related_table \<Rightarrow> bool" where
  "entry_done g out r \<longleftrightarrow> rt_links r = graph_links g (rt_table r) \<and>
     (\<forall>l \<in> set (rt_links r). link_table g (rt_table r) l < length (lg_columns g) \<longrightarrow> link_table g (rt_table r) l \<in> table_ids out)"

definition found_ok :: "link_graph \<Rightarrow> related_table list \<Rightarrow> bool" where
  "found_ok g out \<longleftrightarrow> distinct (map rt_table out) \<and> table_ids out \<subseteq> {..<length (lg_columns g)}"

definition found_more :: "link_graph \<Rightarrow> nat \<Rightarrow> related_table list \<Rightarrow> related_table list \<Rightarrow> bool" where
  "found_more g k out out' \<longleftrightarrow> found_ok g out' \<and> length out \<le> length out' \<and> table_ids out \<subseteq> table_ids out' \<and>
     (\<forall>i < length out. out' ! i = out ! i) \<and> (\<forall>i < length out'. k \<le> i \<longrightarrow> entry_done g out' (out' ! i))"

lemma entry_done_mono: "entry_done g out r \<Longrightarrow> table_ids out \<subseteq> table_ids out' \<Longrightarrow> entry_done g out' r"
  by (auto simp: entry_done_def)

lemma table_ids_update: "k < length out \<Longrightarrow> rt_table r = rt_table (out ! k) \<Longrightarrow> table_ids (out[k := r]) = table_ids out"
  by (metis list_update_id map_update set_map table_ids_def)

lemma found_ok_update: "found_ok g out \<Longrightarrow> k < length out \<Longrightarrow> rt_table r = rt_table (out ! k) \<Longrightarrow> found_ok g (out[k := r])"
  unfolding found_ok_def by (metis list_update_id map_update table_ids_update)

lemma found_ok_length: "found_ok g out \<Longrightarrow> length out = card (table_ids out)"
  by (metis distinct_card found_ok_def length_map set_map table_ids_def)

lemma found_ok_all:
  assumes "found_ok g out" "length (lg_columns g) \<le> length out" "t < length (lg_columns g)"
  shows "t \<in> table_ids out"
proof -
  have "table_ids out = {..<length (lg_columns g)}"
    by (rule card_seteq) (use assms found_ok_length[OF assms(1)] in \<open>auto simp: found_ok_def\<close>)
  then show ?thesis using assms(3) by simp
qed

definition expand :: "nat \<Rightarrow> link_graph \<Rightarrow> nat \<Rightarrow> nat \<Rightarrow> nat \<Rightarrow> related_table list \<Rightarrow> related_table list" where
  "expand depth g t k i out = (case link_target_of (lg_columns g ! t ! i) of
     None \<Rightarrow> out
   | Some u \<Rightarrow>
       find_related_tables_within depth g
         (out[k := (out ! k)\<lparr>rt_links := rt_links (out ! k) @ [\<lparr>ol_col = i,
            ol_is_list = (case lg_columns g ! t ! i of LinkListColumn _ \<Rightarrow> True | _ \<Rightarrow> False)\<rparr>]\<rparr>]) u)"

lemma find_related_tables_within_eq:
  "find_related_tables_within (Suc depth) g out t =
     (if t \<ge> length (lg_columns g) \<or> t \<in> table_ids out then out
      else fold (expand depth g t (length out)) [0..<length (lg_columns g ! t)] (out @ [\<lparr>rt_table = t, rt_links = []\<rparr>]))"
proof -
  have "t \<in> table_ids out \<longleftrightarrow> (\<exists>r \<in> set out. rt_table r = t)" by (auto simp: table_ids_def)
  then show ?thesis unfolding find_related_tables_within.simps Let_def expand_def[abs_def] by simp
qed

text \<open>After the first columns of a table: the entry of the table is at its place with the links of these columns.\<close>

definition expanded :: "link_graph \<Rightarrow> nat \<Rightarrow> related_table list \<Rightarrow> nat \<Rightarrow> related_table list \<Rightarrow> bool" where
  "expanded g t out j o' \<longleftrightarrow> found_ok g o' \<and> length out < length o' \<and> (\<forall>i < length out. o' ! i = out ! i) \<and>
     rt_table (o' ! length out) = t \<and> rt_links (o' ! length out) = List.map_filter (column_link g t) [0..<j] \<and>
     (\<forall>l \<in> set (rt_links (o' ! length out)). link_table g t l < length (lg_columns g) \<longrightarrow> link_table g t l \<in> table_ids o') \<and>
     (\<forall>i < length o'. length out < i \<longrightarrow> entry_done g o' (o' ! i)) \<and> table_ids out \<subseteq> table_ids o'"

lemma expand_step:
  assumes IH: "\<And>out u. found_ok g out \<Longrightarrow> length (lg_columns g) \<le> depth + length out \<Longrightarrow>
      found_more g (length out) out (find_related_tables_within depth g out u) \<and>
      (u < length (lg_columns g) \<longrightarrow> u \<in> table_ids (find_related_tables_within depth g out u))"
    and e: "expanded g t out j o'" and d: "length (lg_columns g) \<le> Suc depth + length out"
  shows "expanded g t out (Suc j) (expand depth g t (length out) j o')"
proof (cases "link_target_of (lg_columns g ! t ! j)")
  case None
  then have "column_link g t j = None" by (simp add: column_link_iff)
  then show ?thesis using e None by (simp add: expand_def expanded_def map_filter_snoc)
next
  case (Some u)
  let ?k = "length out"
  define l where "l = \<lparr>ol_col = j, ol_is_list = (case lg_columns g ! t ! j of LinkListColumn _ \<Rightarrow> True | _ \<Rightarrow> False)\<rparr>"
  define o1 where "o1 = o'[?k := (o' ! ?k)\<lparr>rt_links := rt_links (o' ! ?k) @ [l]\<rparr>]"
  let ?o = "find_related_tables_within depth g o1 u"
  have l: "column_link g t j = Some l" "link_table g t l = u" using Some by (simp_all add: column_link_iff l_def link_table_def)
  note e' = e[unfolded expanded_def]
  have k: "?k < length o'" using e' by simp
  have ids: "table_ids o1 = table_ids o'" unfolding o1_def by (rule table_ids_update) (use k in simp_all)
  have ok1: "found_ok g o1" unfolding o1_def by (rule found_ok_update) (use e' k in simp_all)
  have len1: "length o1 = length o'" by (simp add: o1_def)
  have more: "found_more g (length o1) o1 ?o" "u < length (lg_columns g) \<longrightarrow> u \<in> table_ids ?o"
    using IH[OF ok1, of u] d k len1 by simp_all
  note m = more(1)[unfolded found_more_def]
  have same: "?o ! i = o1 ! i" if "i < length o'" for i using m that len1 by simp
  have at: "?o ! ?k = (o' ! ?k)\<lparr>rt_links := rt_links (o' ! ?k) @ [l]\<rparr>" using same[OF k] k by (simp add: o1_def)
  have "entry_done g ?o (?o ! i)" if "i < length ?o" "?k < i" for i
  proof (cases "i < length o'")
    case True
    have "entry_done g o' (o' ! i)" using e' that True by blast
    then show ?thesis using same[OF True] that m ids by (auto simp: o1_def intro: entry_done_mono)
  next
    case False
    then show ?thesis using m that len1 by simp
  qed
  moreover have "?o ! i = out ! i" if "i < ?k" for i using same[of i] that k e' by (simp add: o1_def)
  moreover have "link_table g t k \<in> table_ids ?o" if "k \<in> set (rt_links (?o ! ?k))" "link_table g t k < length (lg_columns g)" for k
    using that e' more(2) l(2) m ids unfolding at by auto
  ultimately have "expanded g t out (Suc j) ?o"
    using e' m len1 ids k l(1) unfolding expanded_def by (simp add: at map_filter_snoc) (metis (no_types) subset_trans)
  then show ?thesis using Some by (simp add: expand_def o1_def l_def)
qed

lemma find_related_tables_within_ok:
  "found_ok g out \<Longrightarrow> length (lg_columns g) \<le> depth + length out \<Longrightarrow>
     found_more g (length out) out (find_related_tables_within depth g out t) \<and>
     (t < length (lg_columns g) \<longrightarrow> t \<in> table_ids (find_related_tables_within depth g out t))"
proof (induction depth arbitrary: out t)
  case 0
  then show ?case using found_ok_all[of g out t] by (simp add: found_more_def)
next
  case (Suc depth)
  show ?case
  proof (cases "t \<ge> length (lg_columns g) \<or> t \<in> table_ids out")
    case True
    then show ?thesis unfolding find_related_tables_within_eq using Suc.prems by (auto simp: found_more_def)
  next
    case False
    let ?f = "expand depth g t (length out)" and ?start = "out @ [\<lparr>rt_table = t, rt_links = []\<rparr>]"
    have start: "expanded g t out 0 ?start"
      using Suc.prems False by (auto simp: expanded_def found_ok_def table_ids_def nth_append List.map_filter_def)
    have "expanded g t out j (fold ?f [0..<j] ?start)" for j
      by (induction j) (simp_all add: start expand_step[OF Suc.IH] Suc.prems(2)[simplified])
    from this[of "length (lg_columns g ! t)"]
    have e: "expanded g t out (length (lg_columns g ! t)) (find_related_tables_within (Suc depth) g out t)" (is "expanded g t out ?n ?o")
      unfolding find_related_tables_within_eq using False by simp
    note e' = e[unfolded expanded_def]
    have links: "rt_links (?o ! length out) = graph_links g t" using e' False by (simp add: graph_links_alt)
    have "entry_done g ?o (?o ! i)" if "i < length ?o" "length out \<le> i" for i
      using that e' links by (cases "i = length out") (auto simp: entry_done_def)
    moreover have "t \<in> table_ids ?o" using e' unfolding table_ids_def by (metis image_eqI nth_mem)
    ultimately show ?thesis using e' unfolding found_more_def by simp
  qed
qed

section \<open>The tables that are found\<close>

lemma found_all:
  defines "R \<equiv> \<lambda>g t. find_related_tables g t"
  shows "found_ok g (R g t)" "t < length (lg_columns g) \<Longrightarrow> t \<in> table_ids (R g t)" "\<And>r. r \<in> set (R g t) \<Longrightarrow> entry_done g (R g t) r"
proof -
  have "found_ok g []" by (simp add: found_ok_def table_ids_def)
  from find_related_tables_within_ok[OF this, of "length (lg_columns g)" t]
  have "found_more g 0 [] (R g t)" "t < length (lg_columns g) \<longrightarrow> t \<in> table_ids (R g t)" by (simp_all add: R_def find_related_tables_def)
  then show "found_ok g (R g t)" "t < length (lg_columns g) \<Longrightarrow> t \<in> table_ids (R g t)" "\<And>r. r \<in> set (R g t) \<Longrightarrow> entry_done g (R g t) r"
    by (auto simp: found_more_def in_set_conv_nth)
qed

lemma related_links_found:
  "related_links (find_related_tables g root) t = (if t \<in> table_ids (find_related_tables g root) then graph_links g t else [])"
proof -
  note complete = found_all(3)[of _ g root]
  show ?thesis
    by (auto simp: related_links_def table_ids_def find_None_iff image_iff split: option.splits dest!: find_Some_iff[THEN iffD1])
      (metis complete entry_done_def nth_mem)
qed

end
