(* ===== verification/DeepChangeProps.thy ===== *)
theory DeepChangeProps
  imports DeepChangeTables "HOL-Library.Code_Target_Nat"
begin

text \<open>The answers of the modification checker for rows that are asked for one after the other.\<close>

fun row_answers :: "link_graph \<Rightarrow> change_info \<Rightarrow> nat \<Rightarrow> row_check \<Rightarrow> nat list \<Rightarrow> checker \<Rightarrow> bool list" where
  "row_answers g info root check [] c = []"
| "row_answers g info root check (row # rows) c =
     (let (changed, c') = row_did_change g info root check row c in changed # row_answers g info root check rows c')"

lemma checker_ok_new: "checker_ok links g tables new_checker"
  by (simp add: checker_ok_def new_checker_def known_rows_def)

abbreviation found_tables :: "link_graph \<Rightarrow> nat \<Rightarrow> nat set" where
  "found_tables g root \<equiv> table_ids (find_related_tables g root) \<union> {length (lg_columns g)..}"

lemma root_found: "root \<in> found_tables g root"
  using found_all(2)[of root g] by (cases "root < length (lg_columns g)") auto

lemma linked_found:
  assumes "fst x \<in> found_tables g root" "l \<in> set (graph_links g (fst x))" "y \<in> set (linked_rows g x l)"
  shows "fst y \<in> found_tables g root"
proof -
  have "fst x < length (lg_columns g)" using assms(2) by (auto simp: graph_links_def split: if_splits)
  then obtain r where r: "r \<in> set (find_related_tables g root)" "rt_table r = fst x" using assms(1) by (auto simp: table_ids_def)
  have "fst y = link_table g (fst x) l" using assms(3) by (auto simp: linked_rows_def)
  then show ?thesis using found_all(3)[OF r(1)] r(2) assms(2) unfolding entry_done_def by (metis UnI1 UnI2 atLeast_iff not_less)
qed

lemma changed_within_found:
  "fst x \<in> found_tables g root \<Longrightarrow>
     changed_within (related_links (find_related_tables g root)) g tables n x = changed_within (graph_links g) g tables n x"
proof (induction n arbitrary: x)
  case (Suc n)
  have links: "related_links (find_related_tables g root) (fst x) = graph_links g (fst x)"
    using Suc.prems found_all(1)[of g root] by (auto simp: related_links_found found_ok_def graph_links_def)
  show ?case using Suc.IH linked_found[OF Suc.prems] unfolding changed_within.simps links by blast
qed simp


lemma deep_check_step:
  assumes "checker_ok (related_links (find_related_tables g root)) g tables c"
    and "deep_check g tables (find_related_tables g root) root row c = (changed, c')"
  shows "changed = changed_within (graph_links g) g tables 3 (root, row)" "checker_ok (related_links (find_related_tables g root)) g tables c'"
proof -
  let ?R = "find_related_tables g root"
  have eq: "changed_within (related_links ?R) g tables 3 (root, row) = changed_within (graph_links g) g tables 3 (root, row)"
    by (rule changed_within_found) (use root_found[of root g] in simp)
  have "(changed = changed_within (related_links ?R) g tables 3 (root, row)) \<and> checker_ok (related_links ?R) g tables c'"
  proof (cases "row_modified tables root row")
    case True
    then show ?thesis using assms changed_within_mono[of 0 3 "related_links ?R" g tables "(root, row)"] by (auto simp: deep_check_def)
  next
    case False
    have d: "\<forall>t. distinct (map ol_col (related_links ?R t))" by (simp add: related_links_found distinct_graph_links)
    have "row_post (related_links ?R) g tables 0 {(root, row)} c changed c'"
      using search_correct(1)[OF d assms(1), of 0 root row] assms(2) False by (simp add: deep_check_def)
    then show ?thesis by (cases changed) (auto simp: row_post_def open_links_def changed_avoiding_none max_depth_def)
  qed
  then show "changed = changed_within (graph_links g) g tables 3 (root, row)" "checker_ok (related_links ?R) g tables c'" using eq by simp_all
qed

lemma deep_answers:
  "checker_ok (related_links (find_related_tables g root)) g (ci_tables info) c \<Longrightarrow>
     row_answers g info root (DeepCheck (find_related_tables g root)) rows c =
       map (\<lambda>row. changed_within (graph_links g) g (ci_tables info) 3 (root, row)) rows"
proof (induction rows arbitrary: c)
  case (Cons row rows)
  obtain changed c' where r: "deep_check g (ci_tables info) (find_related_tables g root) root row c = (changed, c')"
    by (cases "deep_check g (ci_tables info) (find_related_tables g root) root row c")
  show ?case using deep_check_step[OF Cons.prems r] Cons.IH r by simp
qed simp




section \<open>Two classes\<close>


definition example_graph_of_persons :: link_graph where
  "example_graph_of_persons = \<lparr>lg_columns = [[PlainColumn, LinkColumn 0]],
     lg_link = \<lambda>t col row. if t = 0 \<and> col = 1 \<and> row = 0 then Some 1 else None, lg_link_list = \<lambda>t col row. []\<rparr>"

definition example_changes :: "change_builder list \<Rightarrow> change_info" where
  "example_changes tables = \<lparr>ci_modifications_needed = [], ci_moves_needed = [], ci_lists = [], ci_tables = tables,
     ci_column_indices = [], ci_table_indices = [], ci_track_all = False, ci_schema_changed = True\<rparr>"

section \<open>Properties\<close>

text \<open>
  C39. The deep change checker answers exactly whether a modified row is at most three links away from the row that it is asked for, whatever
  rows it was asked for before: neither cycles of links, nor the limit of the depth, nor the rows that it remembers as not modified
  make it answer otherwise. The links that count are all link columns of all tables.
\<close>

theorem deep_check_exact:
  "row_answers g info root (DeepCheck (find_related_tables g root)) rows new_checker =
     map (\<lambda>row. changed_within (graph_links g) g (ci_tables info) 3 (root, row)) rows"
  by (rule deep_answers[OF checker_ok_new])



text \<open>
  The shortcut for one table is also taken for a class whose only links lead to itself: the first person links to the second, which is modified,
  but only the modifications of the class are looked up.
\<close>

lemma one_table_ignores_links:
  "row_answers example_graph_of_persons (example_changes [builder_of [] [] (is_add [] 1) []]) 0
     (snd (get_modification_checker example_graph_of_persons (example_changes [builder_of [] [] (is_add [] 1) []]) [] 0)) [0] new_checker = [False] \<and>
   row_answers example_graph_of_persons (example_changes [builder_of [] [] (is_add [] 1) []]) 0
     (DeepCheck (find_related_tables example_graph_of_persons 0)) [0] new_checker = [True]"
  by code_simp

end
