(* ===== verification/Spec2Isabelle.thy ===== *)
theory Spec2Isabelle
  imports IndexSetProps ChangeProps ChangeCalculateProps BaseProps TransactLogProps TransactReverseProps LogObserverProps
    CollectionNotifierProps SyncSessionTheorems SyncProgressProps SchemaProps SchemaApplyProps DeepChangeProps
begin

text \<open>
  A verification development for the C++ of this repository: the Realm object store with the public headers of
  the Realm database that the example application vendors under \<open>src/Example/Pods/Realm\<close>. Below, \<open>ObjectStore/\<close> stands
  for \<open>Realm/ObjectStore/src/\<close> and \<open>include/\<close> for \<open>include/\<close> in that directory. Every definition carries the name that the
  code uses, unless that is a name of HOL.

  \<^bold>\<open>The program.\<close> A Realm file holds tables. Every write transaction leaves a log of binary instructions
  (\<open>transact_log.hpp\<close>). When a thread advances to a newer version, it parses those logs, and an observer
  (\<open>transact_log_handler.cpp\<close>) turns them into change sets: the positions that were deleted, inserted, modified and moved in
  a list or a table (\<open>collection_change_builder.cpp\<close>), kept in sets of ranges (\<open>index_set.cpp\<close>). For a query the change set is
  calculated from the old and the new result. Change sets are accumulated and handed to the callbacks of a collection
  (\<open>collection_notifier.cpp\<close>). On opening, the schema of the file is compared with the one that the application declares
  (\<open>schema.cpp\<close>, \<open>object_schema.cpp\<close>), the schema mode decides what may be changed (\<open>shared_realm.cpp\<close>), and the file is brought up to date
  (\<open>object_store.cpp\<close>). A synchronised file has a session with the server (\<open>sync_session.cpp\<close>).

  \<^bold>\<open>Positions and change sets.\<close>
  \<^item> \<open>Prelude\<close>: named collections of rewrite rules, subtraction of \<open>size_t\<close>, \<open>npos\<close>, lists updated by position.
  \<^item> \<open>Ranges\<close>, \<open>ChunkedRangeVector\<close>, \<open>RangeVectorBuilder\<close>: \<open>include/index_set.hpp\<close>, \<open>ObjectStore/index_set.cpp\<close>, the vector of ranges in
    chunks with its iterators, which are pairs of positions; \<open>cursor\<close> says which range an iterator stands at.
  \<^item> \<open>PositionSets\<close>: the specification, finite sets of positions with the renumberings \<open>shift\<close> and \<open>unshift\<close>.
  \<^item> \<open>IndexSet\<close>, \<open>IndexSetSearch\<close>, \<open>IndexSetAdd\<close>, \<open>IndexSetCount\<close>, \<open>IndexSetEdit\<close>, \<open>IndexSetBulk\<close>, \<open>IndexSetRemove\<close>: all operations, and that each
    keeps the ranges sorted, disjoint and not adjacent and refines the operation on sets; \<open>IndexSetProps\<close>: the properties.
  \<^item> \<open>ChangeDiff\<close>: what a difference of two lists of rows is, and the composition of two.
  \<^item> \<open>ChangeBuilder\<close>, \<open>ChangeEdits\<close>, \<open>ChangeRows\<close>, \<open>ChangeParse\<close>, \<open>ChangeMerge\<close>, \<open>ChangeMergeCorrect\<close>, \<open>ChangeRuns\<close>, \<open>ChangeProps\<close>: the builder of change
    sets. Each operation composes what the builder holds with the difference of one edit; whole runs of edits and merged builders are
    described by what the builder holds in the end.
  \<^item> \<open>ChangeCalculate\<close>, \<open>ChangeCalculateCorrect\<close>, \<open>ChangeCalculateProps\<close>: \<open>calculate\<close>, for rows in table order and in any order.

  \<^bold>\<open>Machine integers, buffers, streams.\<close>
  \<^item> \<open>SafeInt\<close>: \<open>include/core/realm/util/safe_int_ops.hpp\<close>. An integer type is its number of digits and whether it is signed; the result of an
    operation is the conversion of the exact one, so that wrap-around is explicit.
  \<^item> \<open>Buffers\<close> and \<open>BaseProps\<close>: \<open>util/buffer.hpp\<close>, whose elements have no value before they are written.
  \<^item> \<open>ByteStreams\<close>: \<open>impl/input_stream.hpp\<close>. The locale \<open>block_stream\<close> is the contract of a stream, that it delivers its bytes in blocks that are not
    empty; every stream class of the file is an interpretation.

  \<^bold>\<open>The transaction log.\<close>
  \<^item> \<open>TransactInt\<close>, \<open>TransactIntCorrect\<close>: integers of the log. \<open>reads\<close>, \<open>rejects\<close> and \<open>keeps_reading\<close> are statements on bytes that do not
    mention the blocks.
  \<^item> \<open>TransactOps\<close>, \<open>TransactEncode\<close>, \<open>TransactEncodeCorrect\<close>: instructions and encoder; locale \<open>log_stream\<close> for the space that it writes into.
  \<^item> \<open>TransactParse\<close>, \<open>TransactRoundtrip\<close>, \<open>TransactLogReads\<close>, \<open>TransactLog\<close>, \<open>TransactLogProps\<close>: the parser for any handler, with one
    definition per label of its switch; that it reads back what the encoder wrote, whatever the blocks; that it always returns.
  \<^item> \<open>TransactReverse\<close>, \<open>TransactReverseCorrect\<close>, \<open>TransactReverseProps\<close>: the handler that writes the log of a rollback.
  \<^item> \<open>LogObserver\<close>, \<open>LogObserverCorrect\<close>, \<open>LogObserverProps\<close>: the observer, from the bytes of a log to change sets; locale \<open>observed_edits\<close>.

  \<^bold>\<open>Callbacks and sessions.\<close>
  \<^item> \<open>CallbackList\<close>, \<open>CollectionNotifier\<close>, \<open>CollectionNotifierProps\<close>: callbacks that may add and remove callbacks while they run; locale
    \<open>callback_list\<close>.
  \<^item> \<open>DeepChange\<close>, \<open>DeepChangeSearch\<close>, \<open>DeepChangeTables\<close>, \<open>DeepChangeProps\<close>: whether an object that a row links to was modified. The search is a
    recursion of three functions; \<open>row_post\<close> and \<open>links_post\<close> say what each leaves behind, and a \<open>closed_search\<close> is why a row may be remembered.
  \<^item> \<open>SyncSession\<close>, \<open>SyncSessionProps\<close>, \<open>SyncSessionTheorems\<close>: the session as a step relation between configurations. A configuration is the session with the
    sections that its threads still have to execute, and a section is what runs between two points where the mutex is free. Rule induction
    gives what holds in every reachable configuration.
  \<^item> \<open>SyncProgress\<close>, \<open>SyncProgressProps\<close>: the callbacks that are told how much was transferred.

  \<^bold>\<open>Schemas.\<close>
  \<^item> \<open>SchemaTypes\<close>, \<open>Schema\<close>, \<open>SchemaFind\<close>, \<open>SchemaCompare\<close>, \<open>SchemaEffect\<close>, \<open>SchemaVerify\<close>, \<open>SchemaProps\<close>: property types as bytes with their flags, validation, the binary search, the
    list of changes between two schemas and what it does to a catalogue of tables, and the checks of the schema modes.
  \<^item> \<open>SchemaStore\<close>: \<open>ObjectStore/object_store.cpp\<close>. The group of tables is a parameter, the record \<open>core\<close> of the calls that the object store makes to it with
    \<open>co_view\<close> for what it reads back. \<open>SchemaGroup\<close> states its documented behaviour as \<open>core_ok\<close>.
  \<^item> \<open>SchemaApply\<close>, \<open>SchemaFile\<close>, \<open>SchemaReady\<close>, \<open>SchemaUpdate\<close>, \<open>SchemaMigrate\<close>, \<open>SchemaAutomatic\<close>, \<open>SchemaAdditive\<close>, \<open>SchemaRename\<close>,
    \<open>SchemaApplyProps\<close>: one change (\<open>ready\<close>: it cannot fail; \<open>settled\<close>: made again it changes nothing), lists of changes in which a column is found at its
    position although others come and go (\<open>may_follow\<close>), the whole update, and the renaming of a property.

  \<^bold>\<open>Bounds.\<close> \<open>size_t\<close> is a natural number in the index sets and change sets, with subtraction that wraps (\<open>sub_size\<close>); the theorems assume positions below \<open>npos\<close>
  where the code does. Integers of the log, schema versions, columns of properties and numbers of bytes are words. A loop that
  may not end is a \<open>partial_function\<close> or has the bytes left as its measure, and the theorems state that it returns: the parser consumes a byte for every
  instruction. \<open>find_related_tables\<close> has the number of tables as its fuel, since each is added once; no other fuel is used. Errors (exceptions, failed assertions, dereferenced end iterators) are values of a sum.

  \<^bold>\<open>What is a parameter.\<close> Code that the repository does not have: the compiled part of the database (\<open>core\<close>, the history, the binary column, the selections of the
  encoder, the links of a row), \<open>std::partition\<close>, and the callbacks of the application. Each hypothesis about one of them is a definition, and the witness of the
  theorem instantiates it.

  \<^bold>\<open>Not modelled.\<close> The headers of the database in \<open>include/core/realm\<close> other than those named above declare classes whose code is in a binary that the repository does
  not have (tables, columns, arrays, queries, groups) or are platform layers (files, sockets, threads, encryption). The accessors of the object store
  (\<open>results.cpp\<close>, \<open>list.cpp\<close>, \<open>object.cpp\<close>) forward to them. Opening files, execution contexts, run loops and the global registries of
  \<open>realm_coordinator.cpp\<close> and \<open>sync_manager.cpp\<close> are threads and I/O. The Objective-C++ bindings and the application are other languages.
\<close>

end
